(* ===== verification/Prelude.thy ===== *)
theory Prelude
  imports
    Complex_Main
    "HOL-Library.AList"
    "HOL-Library.Sublist"
    "HOL-Library.Char_ord"
    "HOL-Library.List_Lexorder"
begin

text \<open>
  What the components share: exceptions as values, Python's dynamic values and ordered
  dictionaries, the string operations of the standard library the sources call, and
  the generic lemmas on them.

  Strings are \<open>char list\<close>s; the operations below agree with Python on ASCII text
  (identifiers, URIs, hex digests, JSON paths), which is what the modelled code handles.
  A \<open>dict\<close> is an association list in insertion order, updated in place by
  \<open>AList.update\<close> as CPython does. A float is a finite rational or one of the three
  special values; no arithmetic is done on it here.
\<close>

named_theorems dict_simps \<open>lookups after dictionary updates\<close>
named_theorems prog_simps \<open>unfolding of the state-and-exception combinators\<close>

section \<open>Exceptions as values\<close>

datatype exc_kind =
    ValueErr | KeyErr | IndexErr | TypeErr | AttributeErr | PermissionErr
  | RuntimeErr | OverflowErr | ConnectionErr | FileNotFoundErr | ImportErr
  | NotImplementedErr | ValidationErr | ExecutionErr | JsonDecodeErr | GenericErr
  | ZeroDivisionErr

datatype exc = Exc (kind_of_exc: exc_kind) (msg_of_exc: string)

type_synonym 'a res = "exc + 'a"

definition bind_res :: "'a res \<Rightarrow> ('a \<Rightarrow> 'b res) \<Rightarrow> 'b res" where
  "bind_res r f = (case r of Inl e \<Rightarrow> Inl e | Inr x \<Rightarrow> f x)"

lemma bind_res_simps [simp]:
  "bind_res (Inl e) f = Inl e"
  "bind_res (Inr x) f = f x"
  by (simp_all add: bind_res_def)

lemma bind_res_Inr: "bind_res r f = Inr y \<longleftrightarrow> (\<exists>x. r = Inr x \<and> f x = Inr y)"
  by (cases r) auto

lemma bind_res_Inl: "bind_res r f = Inl e \<longleftrightarrow> r = Inl e \<or> (\<exists>x. r = Inr x \<and> f x = Inl e)"
  by (cases r) auto

fun map_res :: "('a \<Rightarrow> 'b res) \<Rightarrow> 'a list \<Rightarrow> 'b list res" where
  "map_res f [] = Inr []"
| "map_res f (x # xs) = bind_res (f x) (\<lambda>y. bind_res (map_res f xs) (\<lambda>ys. Inr (y # ys)))"

lemma map_res_Inr:
  "map_res f xs = Inr ys \<longleftrightarrow> list_all2 (\<lambda>x y. f x = Inr y) xs ys"
proof (induction xs arbitrary: ys)
  case Nil
  show ?case by auto
next
  case (Cons x xs)
  show ?case
    by (cases ys) (auto simp: bind_res_Inr Cons.IH)
qed

lemma map_res_length: "map_res f xs = Inr ys \<Longrightarrow> length ys = length xs"
  by (simp add: map_res_Inr list_all2_lengthD)

lemma map_res_mem: "map_res f xs = Inr ys \<Longrightarrow> y \<in> set ys \<Longrightarrow> \<exists>x \<in> set xs. f x = Inr y"
proof (induction xs arbitrary: ys)
  case (Cons x xs)
  then show ?case by (auto simp: bind_res_Inr)
qed simp

text \<open>
  Code that changes state and may raise: the state reached is kept when an exception
  leaves the function, as in Python.
\<close>

type_synonym ('s, 'a) prog = "'s \<Rightarrow> 'a res \<times> 's"

definition ret :: "'a \<Rightarrow> ('s, 'a) prog" where
  "ret x = (\<lambda>s. (Inr x, s))"

definition raise :: "exc \<Rightarrow> ('s, 'a) prog" where
  "raise e = (\<lambda>s. (Inl e, s))"

definition lift_res :: "'a res \<Rightarrow> ('s, 'a) prog" where
  "lift_res r = (\<lambda>s. (r, s))"

definition bindp :: "('s, 'a) prog \<Rightarrow> ('a \<Rightarrow> ('s, 'b) prog) \<Rightarrow> ('s, 'b) prog" where
  "bindp m f = (\<lambda>s. case m s of (Inl e, s') \<Rightarrow> (Inl e, s') | (Inr x, s') \<Rightarrow> f x s')"

lemmas prog_defs [prog_simps] = ret_def raise_def lift_res_def

lemma bindp_Inl [simp]: "m s = (Inl e, s') \<Longrightarrow> bindp m f s = (Inl e, s')"
  by (simp add: bindp_def)

lemma bindp_Inr [simp]: "m s = (Inr x, s') \<Longrightarrow> bindp m f s = f x s'"
  by (simp add: bindp_def)

lemma bindp_eq_Inr:
  "bindp m f s = (Inr y, t) \<longleftrightarrow> (\<exists>x s'. m s = (Inr x, s') \<and> f x s' = (Inr y, t))"
  by (auto simp: bindp_def split: prod.splits sum.splits)

lemma bindp_eq_Inl:
  "bindp m f s = (Inl e, t) \<longleftrightarrow>
     m s = (Inl e, t) \<or> (\<exists>x s'. m s = (Inr x, s') \<and> f x s' = (Inl e, t))"
  by (auto simp: bindp_def split: prod.splits sum.splits)

lemma returns_iff: "\<not> isl (fst r) \<longleftrightarrow> (\<exists>x s. r = (Inr x, s))"
  by (metis fst_conv isl_def prod.collapse sum.collapse(2) sum.disc(2))

section \<open>Dynamic values and dictionaries\<close>

datatype pyfloat = Fin rat | PInf | NInf | NaN

type_synonym ('k, 'v) dict = "('k \<times> 'v) list"

datatype pyval =
    PNone
  | PBool bool
  | PInt int
  | PFloat pyfloat
  | PStr string
  | PList "pyval list"
  | PDict "(string \<times> pyval) list"

type_synonym pydict = "(string, pyval) dict"

abbreviation dget :: "('k, 'v) dict \<Rightarrow> 'k \<Rightarrow> 'v option" where
  "dget d k \<equiv> map_of d k"

abbreviation dset :: "'k \<Rightarrow> 'v \<Rightarrow> ('k, 'v) dict \<Rightarrow> ('k, 'v) dict" where
  "dset \<equiv> AList.update"

abbreviation ddel :: "'k \<Rightarrow> ('k, 'v) dict \<Rightarrow> ('k, 'v) dict" where
  "ddel \<equiv> AList.delete"

text \<open>\<open>{**a, **b}\<close> and \<open>a.update(b)\<close>: later keys win, new keys are appended.\<close>

definition dmerge :: "('k, 'v) dict \<Rightarrow> ('k, 'v) dict \<Rightarrow> ('k, 'v) dict" where
  "dmerge a b = foldl (\<lambda>d (k, v). dset k v d) a b"

definition dkeys :: "('k, 'v) dict \<Rightarrow> 'k list" where
  "dkeys d = map fst d"

definition dvalues :: "('k, 'v) dict \<Rightarrow> 'v list" where
  "dvalues d = map snd d"

definition dget_or :: "('k, 'v) dict \<Rightarrow> 'k \<Rightarrow> 'v \<Rightarrow> 'v" where
  "dget_or d k v = (case dget d k of None \<Rightarrow> v | Some x \<Rightarrow> x)"

definition dhas :: "('k, 'v) dict \<Rightarrow> 'k \<Rightarrow> bool" where
  "dhas d k \<longleftrightarrow> dget d k \<noteq> None"

definition wf_dict :: "('k, 'v) dict \<Rightarrow> bool" where
  "wf_dict d \<longleftrightarrow> distinct (map fst d)"

lemma dget_dset [simp, dict_simps]: "dget (dset k v d) k' = (if k' = k then Some v else dget d k')"
  by (simp add: update_conv')

lemma dget_ddel [simp, dict_simps]: "dget (ddel k d) k' = (if k' = k then None else dget d k')"
  by (simp add: delete_conv')

lemma dhas_dset [simp]: "dhas (dset k v d) k' \<longleftrightarrow> k' = k \<or> dhas d k'"
  by (simp add: dhas_def)

lemma dhas_iff: "dhas d k \<longleftrightarrow> k \<in> set (dkeys d)"
  by (simp add: dhas_def dkeys_def map_of_eq_None_iff)

lemma set_dkeys_dset [simp]: "set (dkeys (dset k v d)) = insert k (set (dkeys d))"
  by (induction d) (auto simp: dkeys_def)

lemma set_dset: "set (dset k v d) \<subseteq> insert (k, v) (set d)"
  by (induction d) auto

lemma wf_dict_Nil [simp]: "wf_dict []"
  by (simp add: wf_dict_def)

lemma wf_dict_dset [simp]: "wf_dict d \<Longrightarrow> wf_dict (dset k v d)"
  by (simp add: wf_dict_def distinct_update)

lemma wf_dict_ddel [simp]: "wf_dict d \<Longrightarrow> wf_dict (ddel k d)"
  by (simp add: wf_dict_def distinct_delete)

lemma dget_dmerge:
  "dget (dmerge a b) k = (case dget (rev b) k of None \<Rightarrow> dget a k | Some v \<Rightarrow> Some v)"
proof (induction b arbitrary: a)
  case Nil
  show ?case by (simp add: dmerge_def)
next
  case (Cons p b)
  obtain k' v where p: "p = (k', v)" by (cases p)
  have "dget (dmerge a (p # b)) k = dget (dmerge (dset k' v a) b) k"
    by (simp add: dmerge_def p)
  then show ?case
    by (auto simp: Cons.IH p map_add_def split: option.splits)
qed

lemma wf_dict_dmerge [simp]: "wf_dict a \<Longrightarrow> wf_dict (dmerge a b)"
  by (induction b arbitrary: a) (auto simp: dmerge_def)

lemma wf_dget_rev: "wf_dict d \<Longrightarrow> dget (rev d) k = dget d k"
proof -
  assume d: "wf_dict d"
  then have "(dget (rev d) k = Some v) = (dget d k = Some v)" for v
    by (simp add: wf_dict_def map_of_eq_Some_iff flip: rev_map)
  then show ?thesis by (metis option.exhaust)
qed

lemma dget_filter: "dget (filter (\<lambda>(n, _). Q n) d) k = (if Q k then dget d k else None)"
  by (induction d) auto

lemma wf_dict_filter: "wf_dict d \<Longrightarrow> wf_dict (filter Q d)"
  by (simp add: wf_dict_def distinct_map_filter)

lemma dkeys_dget: "k \<in> set (dkeys d) \<longleftrightarrow> dget d k \<noteq> None"
  using dhas_iff [of d k] unfolding dhas_def by blast

lemma wf_dict_sum_dget:
  "wf_dict d \<Longrightarrow> dget d k = Some v \<Longrightarrow>
     (\<Sum>x\<leftarrow>dvalues (ddel k d). f x) + (f v :: int) = (\<Sum>x\<leftarrow>dvalues d. f x)"
proof (induction d)
  case Nil
  then show ?case by simp
next
  case (Cons p d)
  obtain a b where p: "p = (a, b)" by (cases p)
  show ?case
  proof (cases "a = k")
    case True
    with Cons.prems p have nk: "k \<notin> set (map fst d)" and [simp]: "b = v"
      by (auto simp: wf_dict_def)
    from nk have "ddel k d = d" by (simp add: delete_idem)
    with True p show ?thesis by (simp add: dvalues_def)
  next
    case False
    with Cons p show ?thesis by (auto simp: wf_dict_def dvalues_def)
  qed
qed

text \<open>Truth of a value in a condition.\<close>

fun truthy :: "pyval \<Rightarrow> bool" where
  "truthy PNone = False"
| "truthy (PBool b) = b"
| "truthy (PInt i) = (i \<noteq> 0)"
| "truthy (PFloat f) = (f \<noteq> Fin 0)"
| "truthy (PStr s) = (s \<noteq> [])"
| "truthy (PList xs) = (xs \<noteq> [])"
| "truthy (PDict d) = (d \<noteq> [])"

text \<open>
  What the sources take from outside: the hash function and the JSON codecs, float parsing
  and rounding, and the text of a container. They are arguments of the definitions that
  use them.
\<close>

record prims =
  p_sha256 :: "string \<Rightarrow> string"
  p_canon :: "pyval \<Rightarrow> string"
  p_dumps :: "pyval \<Rightarrow> string"
  p_loads :: "string \<Rightarrow> pyval option"
  p_float_of_int :: "int \<Rightarrow> pyfloat"
  p_float_of_str :: "string \<Rightarrow> pyfloat res"
  p_repr :: "pyval \<Rightarrow> string"

text \<open>Comparison of floats: nothing compares with NaN.\<close>

fun float_less :: "pyfloat \<Rightarrow> pyfloat \<Rightarrow> bool" where
  "float_less (Fin a) (Fin b) = (a < b)"
| "float_less (Fin a) PInf = True"
| "float_less NInf (Fin b) = True"
| "float_less NInf PInf = True"
| "float_less x y = False"

definition float_eq :: "pyfloat \<Rightarrow> pyfloat \<Rightarrow> bool" where
  "float_eq x y \<longleftrightarrow> x = y \<and> x \<noteq> NaN"

text \<open>Iterating over a value, as \<open>for x in v\<close> does.\<close>

fun iter_val :: "pyval \<Rightarrow> pyval list res" where
  "iter_val (PList xs) = Inr xs"
| "iter_val (PStr s) = Inr (map (\<lambda>c. PStr [c]) s)"
| "iter_val (PDict d) = Inr (map (\<lambda>kv. PStr (fst kv)) d)"
| "iter_val v = Inl (Exc TypeErr ''object is not iterable'')"

fun is_dict :: "pyval \<Rightarrow> bool" where
  "is_dict (PDict d) = True"
| "is_dict v = False"

fun is_str :: "pyval \<Rightarrow> bool" where
  "is_str (PStr s) = True"
| "is_str v = False"

text \<open>A method of a dict called on a value that is not one.\<close>

fun as_dict :: "pyval \<Rightarrow> pydict res" where
  "as_dict (PDict d) = Inr d"
| "as_dict v = Inl (Exc AttributeErr ''object has no dict attribute'')"

section \<open>Strings\<close>

definition squote :: string where
  "squote = [CHR 0x27]"

definition startswith :: "string \<Rightarrow> string \<Rightarrow> bool" where
  "startswith s p \<longleftrightarrow> take (length p) s = p"

definition endswith :: "string \<Rightarrow> string \<Rightarrow> bool" where
  "endswith s p \<longleftrightarrow> length p \<le> length s \<and> drop (length s - length p) s = p"

fun contains :: "string \<Rightarrow> string \<Rightarrow> bool" where
  "contains s [] = True"
| "contains [] (p # ps) = False"
| "contains (c # s) p = (startswith (c # s) p \<or> contains s p)"

text \<open>\<open>k in v\<close> for a text \<open>k\<close>.\<close>

fun py_in :: "string \<Rightarrow> pyval \<Rightarrow> bool res" where
  "py_in k (PDict d) = Inr (dhas d k)"
| "py_in k (PStr s) = Inr (contains s k)"
| "py_in k (PList xs) = Inr (PStr k \<in> set xs)"
| "py_in k v = Inl (Exc TypeErr ''argument is not iterable'')"

text \<open>\<open>s.split(sep, 1)\<close>: the parts around the first occurrence, None if there is none.\<close>

fun split_once :: "string \<Rightarrow> string \<Rightarrow> (string \<times> string) option" where
  "split_once sep [] = (if sep = [] then Some ([], []) else None)"
| "split_once sep (c # s) =
     (if startswith (c # s) sep then Some ([], drop (length sep) (c # s))
      else map_option (\<lambda>(a, b). (c # a, b)) (split_once sep s))"

text \<open>\<open>s.split(c)\<close> for a one-character separator.\<close>

fun split_char :: "char \<Rightarrow> string \<Rightarrow> string list" where
  "split_char c [] = [[]]"
| "split_char c (x # s) =
     (if x = c then [] # split_char c s
      else (case split_char c s of [] \<Rightarrow> [[x]] | w # ws \<Rightarrow> (x # w) # ws))"

definition lstrip_set :: "string \<Rightarrow> string \<Rightarrow> string" where
  "lstrip_set cs s = dropWhile (\<lambda>c. c \<in> set cs) s"

definition rstrip_set :: "string \<Rightarrow> string \<Rightarrow> string" where
  "rstrip_set cs s = rev (dropWhile (\<lambda>c. c \<in> set cs) (rev s))"

definition strip_set :: "string \<Rightarrow> string \<Rightarrow> string" where
  "strip_set cs s = rstrip_set cs (lstrip_set cs s)"

definition whitespace :: string where
  "whitespace = [CHR 0x09, CHR 0x0A, CHR 0x0B, CHR 0x0C, CHR 0x0D, CHR 0x1C, CHR 0x1D, CHR 0x1E,
     CHR 0x1F, CHR 0x20]"

definition strip :: "string \<Rightarrow> string" where
  "strip s = strip_set whitespace s"

definition lower_char :: "char \<Rightarrow> char" where
  "lower_char c = (if 65 \<le> (of_char c :: nat) \<and> (of_char c :: nat) \<le> 90
                   then char_of ((of_char c :: nat) + 32) else c)"

definition upper_char :: "char \<Rightarrow> char" where
  "upper_char c = (if 97 \<le> (of_char c :: nat) \<and> (of_char c :: nat) \<le> 122
                   then char_of ((of_char c :: nat) - 32) else c)"

definition lower :: "string \<Rightarrow> string" where
  "lower s = map lower_char s"

definition upper :: "string \<Rightarrow> string" where
  "upper s = map upper_char s"

definition digit_chars :: string where
  "digit_chars = ''0123456789''"

definition isdigit :: "string \<Rightarrow> bool" where
  "isdigit s \<longleftrightarrow> s \<noteq> [] \<and> list_all (\<lambda>c. c \<in> set digit_chars) s"

text \<open>Decimal text of an integer (\<open>str(n)\<close>, \<open>f\"{n}\"\<close>) and \<open>int(s)\<close> of a digit string.\<close>

definition digit_char :: "nat \<Rightarrow> char" where
  "digit_char d = digit_chars ! d"

fun show_nat :: "nat \<Rightarrow> string" where
  "show_nat n = (if n < 10 then [digit_char n] else show_nat (n div 10) @ [digit_char (n mod 10)])"

declare show_nat.simps [simp del]

definition show_int :: "int \<Rightarrow> string" where
  "show_int i = (if i < 0 then ''-'' @ show_nat (nat (- i)) else show_nat (nat i))"

definition digit_val :: "char \<Rightarrow> nat" where
  "digit_val c = of_char c - 48"

definition parse_nat :: "string \<Rightarrow> nat" where
  "parse_nat s = foldl (\<lambda>n c. n * 10 + digit_val c) 0 s"

text \<open>
  \<open>int(s)\<close>: surrounding white space, one sign, digits with single underscores between
  them; anything else raises.
\<close>

definition py_int :: "string \<Rightarrow> int res" where
  "py_int s =
     (let t = strip s;
          neg = startswith t ''-'';
          body = (if startswith t ''-'' \<or> startswith t ''+'' then drop 1 t else t);
          groups = split_char CHR ''_'' body
      in if list_all isdigit groups
         then Inr ((if neg then -1 else 1) * int (parse_nat (concat groups)))
         else Inl (Exc ValueErr (''invalid literal for int() with base 10: '' @ s)))"

text \<open>\<open>str(v)\<close>, \<open>int(v)\<close> and \<open>float(v)\<close> on a dynamic value.\<close>

fun py_str :: "prims \<Rightarrow> pyval \<Rightarrow> string" where
  "py_str P (PStr s) = s"
| "py_str P (PInt i) = show_int i"
| "py_str P (PBool b) = (if b then ''True'' else ''False'')"
| "py_str P PNone = ''None''"
| "py_str P v = p_repr P v"

fun py_int_of :: "pyval \<Rightarrow> int res" where
  "py_int_of (PInt i) = Inr i"
| "py_int_of (PBool b) = Inr (if b then 1 else 0)"
| "py_int_of (PFloat (Fin r)) = Inr (if r < 0 then - \<lfloor>- r\<rfloor> else \<lfloor>r\<rfloor>)"
| "py_int_of (PFloat NaN) = Inl (Exc ValueErr ''cannot convert float NaN to integer'')"
| "py_int_of (PFloat f) = Inl (Exc OverflowErr ''cannot convert float infinity to integer'')"
| "py_int_of (PStr s) = py_int s"
| "py_int_of v = Inl (Exc TypeErr ''int() argument must be a string or a real number'')"

fun py_float_of :: "prims \<Rightarrow> pyval \<Rightarrow> pyfloat res" where
  "py_float_of P (PFloat f) = Inr f"
| "py_float_of P (PInt i) = Inr (p_float_of_int P i)"
| "py_float_of P (PBool b) = Inr (Fin (if b then 1 else 0))"
| "py_float_of P (PStr s) = p_float_of_str P s"
| "py_float_of P v = Inl (Exc TypeErr ''float() argument must be a string or a real number'')"

fun join :: "string \<Rightarrow> string list \<Rightarrow> string" where
  "join sep [] = []"
| "join sep [x] = x"
| "join sep (x # y # xs) = x @ sep @ join sep (y # xs)"


lemma startswith_iff: "startswith s p \<longleftrightarrow> prefix p s"
  by (metis startswith_def append_eq_conv_conj append_take_drop_id prefix_def)

lemma startswith_append [simp]: "startswith (p @ s) p"
  by (simp add: startswith_def)

lemma startswith_Nil [simp]: "startswith s []"
  by (simp add: startswith_def)

lemma split_once_Some:
  "split_once sep s = Some (a, b) \<Longrightarrow> s = a @ sep @ b"
proof (induction s arbitrary: a b)
  case Nil
  then show ?case by (simp split: if_splits)
next
  case (Cons c s)
  show ?case
  proof (cases "startswith (c # s) sep")
    case True
    with Cons.prems have "a = []" "b = drop (length sep) (c # s)" by simp_all
    with True show ?thesis
      by (metis append_Nil append_take_drop_id startswith_def)
  next
    case False
    with Cons.prems obtain a' where "split_once sep s = Some (a', b)" "a = c # a'"
      by (auto split: option.splits)
    with Cons.IH show ?thesis by simp
  qed
qed

lemma split_once_fresh:
  "x \<notin> set a \<Longrightarrow> split_once [x] (a @ x # b) = Some (a, b)"
  by (induction a) (auto simp: startswith_def)

lemma split_once_None_iff: "split_once [x] s = None \<longleftrightarrow> x \<notin> set s"
  by (induction s) (auto simp: startswith_def)

lemma contains_char: "contains s [x] \<longleftrightarrow> x \<in> set s"
  by (induction s) (auto simp: startswith_def)

lemma contains_append: "contains (a @ p @ b) p"
proof (induction a)
  case Nil
  show ?case
    using startswith_append [of p b] by (cases p) auto
next
  case (Cons x a)
  then show ?case by (cases p) auto
qed

lemma split_char_nonempty [simp]: "split_char c s \<noteq> []"
  by (induction s) (auto split: list.splits)

lemma join_split_char: "join [c] (split_char c s) = s"
proof (induction s)
  case Nil
  show ?case by simp
next
  case (Cons x s)
  obtain w ws where ws: "split_char c s = w # ws"
    by (cases "split_char c s") auto
  with Cons.IH show ?case by (cases ws) auto
qed

lemma split_char_fresh: "c \<notin> set s \<Longrightarrow> split_char c s = [s]"
  by (induction s) auto

lemma split_char_append:
  "c \<notin> set w \<Longrightarrow> split_char c (w @ c # s) = w # split_char c s"
  by (induction w) auto

lemma split_char_fields: "w \<in> set (split_char c s) \<Longrightarrow> c \<notin> set w"
  by (induction s arbitrary: w) (auto split: if_splits list.splits)

section \<open>Decimal text\<close>

lemma digit_char_all:
  "\<forall>d\<in>set [0..<10]. digit_char d \<in> set digit_chars \<and> digit_val (digit_char d) = d"
  by code_simp

lemma digit_val_char: "d < 10 \<Longrightarrow> digit_val (digit_char d) = d"
  using digit_char_all by simp

lemma digit_char_in: "d < 10 \<Longrightarrow> digit_char d \<in> set digit_chars"
  using digit_char_all by simp

lemma parse_nat_snoc: "parse_nat (s @ [c]) = parse_nat s * 10 + digit_val c"
  by (simp add: parse_nat_def)

lemma parse_show_nat [simp]: "parse_nat (show_nat n) = n"
proof (induction n rule: show_nat.induct)
  case (1 n)
  show ?case
  proof (cases "n < 10")
    case True
    then show ?thesis
      by (subst show_nat.simps) (simp add: parse_nat_def digit_val_char)
  next
    case False
    with 1 have "parse_nat (show_nat (n div 10)) = n div 10" by simp
    with False show ?thesis
      by (subst show_nat.simps) (simp add: parse_nat_snoc digit_val_char)
  qed
qed

lemma show_nat_digits: "isdigit (show_nat n)"
proof (induction n rule: show_nat.induct)
  case (1 n)
  then show ?case
    by (subst show_nat.simps) (auto simp: isdigit_def digit_char_in list_all_iff)
qed

lemma show_nat_inj: "show_nat m = show_nat n \<longleftrightarrow> m = n"
  by (metis parse_show_nat)

lemma show_nat_fresh: "c \<notin> set digit_chars \<Longrightarrow> c \<notin> set (show_nat n)"
  using show_nat_digits [of n] by (auto simp: isdigit_def list_all_iff)

lemma show_int_nat: "0 \<le> i \<Longrightarrow> show_int i = show_nat (nat i)"
  by (simp add: show_int_def)

lemma show_int_fresh: "c \<notin> set digit_chars \<Longrightarrow> c \<noteq> CHR ''-'' \<Longrightarrow> c \<notin> set (show_int i)"
  by (simp add: show_int_def show_nat_fresh)

lemma show_int_inj: "show_int i = show_int j \<longleftrightarrow> i = j"
proof -
  have minus: "CHR ''-'' \<notin> set (show_nat n)" for n
    by (rule show_nat_fresh) (simp add: digit_chars_def)
  show ?thesis
  proof (cases "i < 0 \<longleftrightarrow> j < 0")
    case True
    then show ?thesis
      by (auto simp: show_int_def show_nat_inj)
  next
    case False
    have "show_int i \<noteq> show_int j"
    proof
      assume eq: "show_int i = show_int j"
      have "(CHR ''-'' \<in> set (show_int i)) = (i < 0)" "(CHR ''-'' \<in> set (show_int j)) = (j < 0)"
        using minus by (auto simp: show_int_def)
      with eq False show False by simp
    qed
    with False show ?thesis by auto
  qed
qed

lemma whitespace_not_digit: "\<forall>c\<in>set whitespace. c \<notin> set digit_chars \<and> c \<noteq> CHR ''-''"
  by code_simp

lemma underscore_not_digit: "CHR ''_'' \<notin> set digit_chars" "CHR ''-'' \<notin> set digit_chars"
    "CHR ''+'' \<notin> set digit_chars" "CHR '':'' \<notin> set digit_chars" "CHR ''#'' \<notin> set digit_chars"
  by (code_simp, code_simp, code_simp, code_simp, code_simp)

lemma dropWhile_none: "(\<And>x. x \<in> set xs \<Longrightarrow> \<not> P x) \<Longrightarrow> dropWhile P xs = xs"
  by (cases xs) auto

lemma strip_set_none: "(\<And>c. c \<in> set s \<Longrightarrow> c \<notin> set cs) \<Longrightarrow> strip_set cs s = s"
  using dropWhile_none [of s "\<lambda>c. c \<in> set cs"] dropWhile_none [of "rev s" "\<lambda>c. c \<in> set cs"]
  by (simp add: strip_set_def lstrip_set_def rstrip_set_def)

lemma isdigit_set: "isdigit s \<Longrightarrow> c \<in> set s \<Longrightarrow> c \<in> set digit_chars"
  by (auto simp: isdigit_def list_all_iff)

lemma strip_show_int [simp]: "strip (show_int i) = show_int i"
  unfolding strip_def
proof (rule strip_set_none)
  fix c assume "c \<in> set (show_int i)"
  then have "c \<in> set digit_chars \<or> c = CHR ''-''"
    using show_int_fresh by blast
  then show "c \<notin> set whitespace" using whitespace_not_digit by blast
qed

lemma show_nat_no_sign:
  "\<not> startswith (show_nat n) ''-''" "\<not> startswith (show_nat n) ''+''"
proof -
  have "c \<notin> set (show_nat n)" if "c = CHR ''-'' \<or> c = CHR ''+''" for c
    using that show_nat_fresh underscore_not_digit by blast
  then show "\<not> startswith (show_nat n) ''-''" "\<not> startswith (show_nat n) ''+''"
    by (cases "show_nat n"; auto simp: startswith_def)+
qed

lemma show_nat_groups: "split_char CHR ''_'' (show_nat n) = [show_nat n]"
  by (rule split_char_fresh) (rule show_nat_fresh, rule underscore_not_digit)

lemma py_int_show_int [simp]: "py_int (show_int i) = Inr i"
proof (cases "i < 0")
  case True
  then have s: "show_int i = CHR ''-'' # show_nat (nat (- i))"
    by (simp add: show_int_def)
  have "startswith (CHR ''-'' # t) ''-''" for t by (simp add: startswith_def)
  then show ?thesis
    using True by (simp add: py_int_def strip_show_int [of i, unfolded s] s show_nat_groups show_nat_digits)
next
  case False
  then have s: "show_int i = show_nat (nat i)"
    by (simp add: show_int_def)
  show ?thesis
    using False
    by (simp add: py_int_def strip_show_int [of i, unfolded s] s show_nat_groups show_nat_digits
        show_nat_no_sign)
qed

section \<open>Interfaces shared by several components\<close>

text \<open>
  A keyed store: what every dictionary, cache and key-value backend of the program
  promises its clients.
\<close>

locale keyed_store =
  fixes get :: "'s \<Rightarrow> 'k \<Rightarrow> 'v option"
    and put :: "'s \<Rightarrow> 'k \<Rightarrow> 'v \<Rightarrow> 's"
    and invar :: "'s \<Rightarrow> bool"
  assumes get_put: "invar s \<Longrightarrow> get (put s k v) k' = (if k' = k then Some v else get s k')"
    and invar_put: "invar s \<Longrightarrow> invar (put s k v)"
begin

definition put_all :: "'s \<Rightarrow> ('k \<times> 'v) list \<Rightarrow> 's" where
  "put_all s kvs = foldl (\<lambda>s (k, v). put s k v) s kvs"

lemma invar_put_all: "invar s \<Longrightarrow> invar (put_all s kvs)"
  by (induction kvs arbitrary: s) (auto simp: put_all_def invar_put)

lemma get_put_all:
  "invar s \<Longrightarrow> get (put_all s kvs) k =
     (case map_of (rev kvs) k of None \<Rightarrow> get s k | Some v \<Rightarrow> Some v)"
proof (induction kvs arbitrary: s)
  case Nil
  then show ?case by (simp add: put_all_def)
next
  case (Cons p kvs)
  obtain k' v where p: "p = (k', v)" by (cases p)
  have "put_all s (p # kvs) = put_all (put s k' v) kvs"
    by (simp add: put_all_def p)
  with Cons show ?case
    by (auto simp: p invar_put get_put map_add_def split: option.splits)
qed

lemma put_idem: "invar s \<Longrightarrow> get s k = Some v \<Longrightarrow> get (put s k v) k' = get s k'"
  by (simp add: get_put)

lemma put_commute:
  "invar s \<Longrightarrow> k \<noteq> j \<Longrightarrow> get (put (put s k v) j w) i = get (put (put s j w) k v) i"
  by (simp add: get_put invar_put)

end

interpretation dict_store: keyed_store dget "\<lambda>d k v. dset k v d" wf_dict
  by unfold_locales auto

end
