(* ===== verification/Ids.thy ===== *)
theory Ids
  imports Prelude
begin

text \<open>
  The identifier layer, \<^verbatim>\<open>arch/contract/event/next.py\<close>: the 64-bit snowflake generator
  (\<open>ToposGenerator\<close>), the 32-bit differential phase identifier (\<open>PhaseIdGenerator\<close>),
  their decoders, and the XOR parity that ties a topos, a phase and a nexus identifier.

  The wall clock is an argument: the list of millisecond readings \<open>time.time()\<close> will
  return, consumed from the front. A call that would still be waiting for a reading when
  the list ends is \<open>None\<close>.
\<close>

unbundle bit_operations_syntax

section \<open>Topos identifiers\<close>

record topos_gen =
  worker_id :: int
  datacenter_id :: int
  sequence :: int
  epoch :: int
  last_timestamp :: int

definition topos_epoch :: int where
  "topos_epoch = 1767225600000"

definition topos_init :: "int \<Rightarrow> int \<Rightarrow> topos_gen" where
  "topos_init vertex_id manifold_id =
     \<lparr>worker_id = vertex_id AND 0x1F, datacenter_id = manifold_id AND 0x1F,
      sequence = 0, epoch = topos_epoch, last_timestamp = -1\<rparr>"

fun spin_clock :: "int \<Rightarrow> int \<Rightarrow> int list \<Rightarrow> (int \<times> int list) option" where
  "spin_clock lst ts cs =
     (if ts \<le> lst then (case cs of [] \<Rightarrow> None | c # cs' \<Rightarrow> spin_clock lst c cs')
      else Some (ts, cs))"

declare spin_clock.simps [simp del]

text \<open>The reading used by one call: a small step back sleeps and reads again, a large one raises.\<close>

definition read_clock :: "topos_gen \<Rightarrow> int list \<Rightarrow> (int res \<times> int list) option" where
  "read_clock g cs =
     (case cs of [] \<Rightarrow> None
      | ts # cs1 \<Rightarrow>
          if ts < last_timestamp g then
            (if last_timestamp g - ts \<le> 5 then
               (case cs1 of [] \<Rightarrow> None | ts2 # cs2 \<Rightarrow> Some (Inr ts2, cs2))
             else Some (Inl (Exc GenericErr
                    (''Clock moved backwards significantly! Refusing to generate id for '' @
                     show_int (last_timestamp g - ts) @ '' milliseconds'')), cs1))
          else Some (Inr ts, cs1))"

text \<open>Sequence number and final reading: a full millisecond waits for the next one.\<close>

definition next_sequence :: "topos_gen \<Rightarrow> int \<Rightarrow> int list \<Rightarrow> (int \<times> int \<times> int list) option" where
  "next_sequence g ts cs =
     (if ts = last_timestamp g then
        (let sq = (sequence g + 1) AND 0xFFF in
         if sq = 0 then map_option (\<lambda>(ts', cs'). (sq, ts', cs')) (spin_clock (last_timestamp g) ts cs)
         else Some (sq, ts, cs))
      else Some (0, ts, cs))"

definition compose_topos :: "topos_gen \<Rightarrow> int \<Rightarrow> int \<Rightarrow> int" where
  "compose_topos g ts sq =
     (let time_delta = (ts - epoch g) AND 0x1FFFFFFFFFF
      in ((push_bit 22 time_delta OR push_bit 17 (datacenter_id g)) OR push_bit 12 (worker_id g)) OR sq)"

definition topos_generate :: "topos_gen \<Rightarrow> int list \<Rightarrow> (int res \<times> topos_gen \<times> int list) option" where
  "topos_generate g cs =
     (case read_clock g cs of None \<Rightarrow> None
      | Some (Inl e, cs1) \<Rightarrow> Some (Inl e, g, cs1)
      | Some (Inr ts, cs1) \<Rightarrow>
          (case next_sequence g ts cs1 of None \<Rightarrow> None
           | Some (sq, ts', cs2) \<Rightarrow>
               Some (Inr (compose_topos g ts' sq),
                     g\<lparr>sequence := sq, last_timestamp := ts'\<rparr>, cs2)))"

definition next_id :: "topos_gen \<Rightarrow> int list \<Rightarrow> (string res \<times> topos_gen \<times> int list) option" where
  "next_id g cs = map_option (\<lambda>(r, g', cs'). (bind_res r (\<lambda>i. Inr (show_int i)), g', cs')) (topos_generate g cs)"

record parsed_id =
  timestamp_ms :: int
  worker_info :: string
  seq_no :: int

definition parse_id :: "string \<Rightarrow> parsed_id res" where
  "parse_id snowflake_id =
     bind_res (py_int snowflake_id) (\<lambda>sid.
       Inr \<lparr>timestamp_ms = (drop_bit 22 sid AND 0x1FFFFFFFFFF) + 1767225600000,
            worker_info = show_int (drop_bit 17 sid AND 0x1F) @ '':'' @ show_int (drop_bit 12 sid AND 0x1F),
            seq_no = sid AND 0xFFF\<rparr>)"

text \<open>
  \<open>uuid4\<close>: a seeded identifier is the MD5 of the seed; otherwise the topos id takes the
  upper and random bits the lower 64 bits; any exception falls back to the standard
  UUIDv4. MD5, the random bits and the fallback are arguments.
\<close>

definition uuid4 ::
  "(string \<Rightarrow> int) \<Rightarrow> int \<Rightarrow> int \<Rightarrow> topos_gen \<Rightarrow> int list \<Rightarrow> string option \<Rightarrow> (int \<times> topos_gen \<times> int list) option"
where
  "uuid4 md5 rand64 std_uuid g cs seed =
     (case seed of
        Some (c # s) \<Rightarrow> Some (md5 (c # s), g, cs)
      | _ \<Rightarrow>
        (case topos_generate g cs of None \<Rightarrow> None
         | Some (Inl e, g', cs') \<Rightarrow> Some (std_uuid, g', cs')
         | Some (Inr t, g', cs') \<Rightarrow>
             (let u = push_bit 64 t OR rand64
              in Some (if 0 \<le> u \<and> u < 2 ^ 128 then u else std_uuid, g', cs'))))"

section \<open>Phase identifiers\<close>

record phase_gen =
  prev_topo :: int
  prev_press :: int
  phase_epoch :: int
  phase_tick :: int
  current_anchor :: int

definition phase_init :: phase_gen where
  "phase_init = \<lparr>prev_topo = 0, prev_press = 0, phase_epoch = 0, phase_tick = 0,
      current_anchor = 0\<rparr>"

definition pack_phase :: "int \<Rightarrow> int \<Rightarrow> int \<Rightarrow> int \<Rightarrow> int \<Rightarrow> int \<Rightarrow> int" where
  "pack_phase ep tk ts tm ps pm =
     (((((push_bit 31 ep OR push_bit 24 tk) OR push_bit 23 ts) OR push_bit 12 tm)
        OR push_bit 11 ps) OR pm) AND 0xFFFFFFFF"

definition phase_generate :: "phase_gen \<Rightarrow> int \<Rightarrow> int \<Rightarrow> bool \<Rightarrow> int option \<Rightarrow> int \<times> phase_gen" where
  "phase_generate g current_topo current_press rupture injected_tick =
     (let ep = (if rupture then phase_epoch g XOR 1 else phase_epoch g);
          tk = (case injected_tick of Some t \<Rightarrow> t AND 0x7F | None \<Rightarrow> (phase_tick g + 1) AND 0x7F);
          d_topo = current_topo - prev_topo g;
          topo_sign = (if d_topo \<ge> 0 then 1 else 0);
          topo_mag = min \<bar>d_topo\<bar> 0x7FF;
          d_press = current_press - prev_press g;
          press_sign = (if d_press \<ge> 0 then 1 else 0);
          press_mag = min \<bar>d_press\<bar> 0x7FF
      in (pack_phase ep tk topo_sign topo_mag press_sign press_mag,
          g\<lparr>prev_topo := current_topo, prev_press := current_press, phase_epoch := ep, phase_tick := tk\<rparr>))"

record parsed_phase =
  pp_epoch :: int
  pp_tick :: int
  pp_d_topo :: int
  pp_d_press :: int

definition parse_phase_id :: "int \<Rightarrow> parsed_phase" where
  "parse_phase_id phase_id =
     (let ep = drop_bit 31 phase_id AND 1;
          tk = drop_bit 24 phase_id AND 0x7F;
          topo_sign = drop_bit 23 phase_id AND 1;
          topo_mag = drop_bit 12 phase_id AND 0x7FF;
          press_sign = drop_bit 11 phase_id AND 1;
          press_mag = phase_id AND 0x7FF
      in \<lparr>pp_epoch = ep, pp_tick = tk,
          pp_d_topo = (if topo_sign \<noteq> 0 then topo_mag else - topo_mag),
          pp_d_press = (if press_sign \<noteq> 0 then press_mag else - press_mag)\<rparr>)"

section \<open>Nexus parity\<close>

datatype id_arg = IdStr string | IdInt int

fun id_to_int :: "id_arg \<Rightarrow> int res" where
  "id_to_int (IdStr s) = py_int s"
| "id_to_int (IdInt i) = Inr i"

definition low32 :: "int \<Rightarrow> int" where
  "low32 x = x AND 0xFFFFFFFF"

definition generate_nexus_id :: "id_arg \<Rightarrow> int \<Rightarrow> int res" where
  "generate_nexus_id topos_id phase_id =
     bind_res (id_to_int topos_id) (\<lambda>t. Inr (low32 t XOR low32 phase_id))"

datatype parity_result =
    ParityChecked bool
  | ParityRecovered int string

definition verify_parity :: "id_arg option \<Rightarrow> int option \<Rightarrow> int option \<Rightarrow> parity_result res" where
  "verify_parity topos_id phase_id nexus_id =
     bind_res (case topos_id of None \<Rightarrow> Inr None
               | Some a \<Rightarrow> bind_res (id_to_int a) (\<lambda>t. Inr (Some (low32 t)))) (\<lambda>t.
     (case (t, map_option low32 phase_id, map_option low32 nexus_id) of
        (Some t, Some p, Some n) \<Rightarrow> Inr (ParityChecked ((t XOR p) = n))
      | (None, Some p, Some n) \<Rightarrow> Inr (ParityRecovered (p XOR n) ''topos_id_low32'')
      | (Some t, None, Some n) \<Rightarrow> Inr (ParityRecovered (t XOR n) ''phase_id'')
      | (Some t, Some p, None) \<Rightarrow> Inr (ParityRecovered (t XOR p) ''nexus_id'')
      | _ \<Rightarrow> Inl (Exc ValueErr ''At least two identification IDs are required for parity recovery'')))"

record parity_triplet =
  pt_topos_id :: string
  pt_phase_id :: int
  pt_nexus_id :: int

definition generate_parity_triplet ::
  "topos_gen \<Rightarrow> phase_gen \<Rightarrow> int list \<Rightarrow> int \<Rightarrow> int \<Rightarrow> bool
     \<Rightarrow> (parity_triplet res \<times> topos_gen \<times> phase_gen \<times> int list) option"
where
  "generate_parity_triplet g pg cs topo press rupture =
     (case topos_generate g cs of None \<Rightarrow> None
      | Some (Inl e, g', cs') \<Rightarrow> Some (Inl e, g', pg, cs')
      | Some (Inr t, g', cs') \<Rightarrow>
          (case phase_generate pg topo press rupture None of (p, pg') \<Rightarrow>
             Some (bind_res (generate_nexus_id (IdInt t) p) (\<lambda>n.
                     Inr \<lparr>pt_topos_id = show_int t, pt_phase_id = p, pt_nexus_id = n\<rparr>),
                   g', pg', cs')))"


section \<open>Fields of a packed identifier\<close>

lemma mask_eqs:
  "(0x1F::int) = mask 5" "(0xFFF::int) = mask 12" "(0x1FFFFFFFFFF::int) = mask 41"
  "(0x7F::int) = mask 7" "(0x7FF::int) = mask 11" "(0xFFFFFFFF::int) = mask 32"
  by (simp_all add: mask_eq_exp_minus_1)

lemma and_masks:
  "(x::int) AND 0x1F = x mod 2 ^ 5" "x AND 0xFFF = x mod 2 ^ 12"
  "x AND 0x1FFFFFFFFFF = x mod 2 ^ 41" "x AND 0x7F = x mod 2 ^ 7"
  "x AND 0x7FF = x mod 2 ^ 11" "x AND 0xFFFFFFFF = x mod 2 ^ 32" "x AND 1 = x mod 2"
  by (simp_all only: mask_eqs take_bit_eq_mask [symmetric] take_bit_eq_mod and_one_eq)

lemma or_push_add: "0 \<le> b \<Longrightarrow> b < 2 ^ n \<Longrightarrow> push_bit n (a::int) OR b = a * 2 ^ n + b"
proof -
  assume "0 \<le> b" "b < 2 ^ n"
  then have b: "take_bit n b = b" by (simp add: take_bit_int_eq_self)
  have "push_bit n a OR b = concat_bit n b a"
    by (simp add: concat_bit_def b or.commute)
  then show ?thesis
    by (simp add: concat_bit_eq b push_bit_eq_mult)
qed

definition wf_topos :: "topos_gen \<Rightarrow> bool" where
  "wf_topos g \<longleftrightarrow>
     0 \<le> worker_id g \<and> worker_id g < 32 \<and> 0 \<le> datacenter_id g \<and> datacenter_id g < 32 \<and>
     0 \<le> sequence g \<and> sequence g < 4096 \<and> epoch g = topos_epoch"

definition in_range :: "int \<Rightarrow> bool" where
  "in_range ts \<longleftrightarrow> topos_epoch \<le> ts \<and> ts < topos_epoch + 2 ^ 41"

lemma compose_topos_sum:
  assumes "wf_topos g" "0 \<le> sq" "sq < 4096"
  shows "compose_topos g ts sq =
     ((ts - epoch g) mod 2 ^ 41) * 2 ^ 22 + (datacenter_id g * 2 ^ 17 + (worker_id g * 2 ^ 12 + sq))"
proof -
  have w: "push_bit 12 (worker_id g) OR sq = worker_id g * 2 ^ 12 + sq"
    by (rule or_push_add) (use assms in simp_all)
  have d: "push_bit 17 (datacenter_id g) OR (worker_id g * 2 ^ 12 + sq) =
      datacenter_id g * 2 ^ 17 + (worker_id g * 2 ^ 12 + sq)"
    by (rule or_push_add) (use assms in \<open>simp_all add: wf_topos_def\<close>)
  have t: "push_bit 22 x OR (datacenter_id g * 2 ^ 17 + (worker_id g * 2 ^ 12 + sq)) =
      x * 2 ^ 22 + (datacenter_id g * 2 ^ 17 + (worker_id g * 2 ^ 12 + sq))" for x
    by (rule or_push_add) (use assms in \<open>simp_all add: wf_topos_def\<close>)
  show ?thesis
    by (simp only: compose_topos_def Let_def or.assoc w d t and_masks)
qed

lemma topos_init_wf: "wf_topos (topos_init v m)"
  by (simp add: wf_topos_def topos_init_def and_masks)

lemma spin_clock_gt: "spin_clock lst ts cs = Some (ts', cs') \<Longrightarrow> lst < ts'"
  by (induction lst ts cs rule: spin_clock.induct)
     (subst (asm) spin_clock.simps, auto split: if_splits list.splits)

lemma next_sequence_range:
  "wf_topos g \<Longrightarrow> next_sequence g ts cs = Some (sq, ts', cs') \<Longrightarrow> 0 \<le> sq \<and> sq < 4096"
  by (auto simp: next_sequence_def and_masks Let_def split: if_splits)

lemma next_sequence_advances:
  assumes "wf_topos g" "next_sequence g ts cs = Some (sq, ts', cs')" "last_timestamp g \<le> ts"
  shows "last_timestamp g < ts' \<or> (ts' = last_timestamp g \<and> sq = sequence g + 1)"
proof (cases "ts = last_timestamp g")
  case True
  show ?thesis
  proof (cases "(sequence g + 1) AND 0xFFF = 0")
    case True': True
    with True assms(2) obtain cs'' where "spin_clock (last_timestamp g) ts cs = Some (ts', cs'')"
      by (auto simp: next_sequence_def Let_def)
    then show ?thesis by (auto dest: spin_clock_gt)
  next
    case False
    from assms(1) have "sequence g + 1 \<le> 4096" by (simp add: wf_topos_def)
    moreover have "sequence g + 1 \<noteq> 4096" using False by (auto simp: and_masks)
    ultimately have "sequence g + 1 < 4096" by simp
    with False True assms(1,2) show ?thesis
      by (auto simp: next_sequence_def Let_def and_masks wf_topos_def)
  qed
next
  case False
  with assms show ?thesis by (auto simp: next_sequence_def)
qed

text \<open>One successful call: which reading it used and what it left behind.\<close>

lemma topos_generate_cases:
  assumes "topos_generate g cs = Some (Inr i, g', cs')"
  obtains ts cs1 sq where "read_clock g cs = Some (Inr ts, cs1)"
    "next_sequence g ts cs1 = Some (sq, last_timestamp g', cs')"
    "g' = g\<lparr>sequence := sq, last_timestamp := last_timestamp g'\<rparr>"
    "i = compose_topos g (last_timestamp g') sq"
  using assms
  by (auto simp: topos_generate_def split: option.splits prod.splits sum.splits)

lemma topos_generate_wf:
  assumes "wf_topos g" "topos_generate g cs = Some (Inr i, g', cs')"
  shows "wf_topos g'" "i = compose_topos g' (last_timestamp g') (sequence g')"
    "worker_id g' = worker_id g" "datacenter_id g' = datacenter_id g"
proof -
  obtain ts cs1 sq where n: "next_sequence g ts cs1 = Some (sq, last_timestamp g', cs')"
    and g': "g' = g\<lparr>sequence := sq, last_timestamp := last_timestamp g'\<rparr>"
    and i: "i = compose_topos g (last_timestamp g') sq"
    using topos_generate_cases [OF assms(2)] .
  have sq: "0 \<le> sq \<and> sq < 4096" by (rule next_sequence_range [OF assms(1) n])
  have f: "sequence g' = sq" "worker_id g' = worker_id g" "datacenter_id g' = datacenter_id g"
    "epoch g' = epoch g"
    by (subst g', simp)+
  then show "worker_id g' = worker_id g" "datacenter_id g' = datacenter_id g" by simp_all
  show "wf_topos g'" using assms(1) sq by (simp add: wf_topos_def f)
  show "i = compose_topos g' (last_timestamp g') (sequence g')"
    by (simp add: i f compose_topos_def)
qed

lemma in_range_delta: "in_range ts \<Longrightarrow> (ts - topos_epoch) mod 2 ^ 41 = ts - topos_epoch"
  by (rule mod_pos_pos_trivial) (simp_all add: in_range_def)

lemma compose_topos_in_range:
  assumes "wf_topos g" "in_range ts" "0 \<le> sq" "sq < 4096"
  shows "compose_topos g ts sq =
     (ts - topos_epoch) * 2 ^ 22 + (datacenter_id g * 2 ^ 17 + (worker_id g * 2 ^ 12 + sq))"
  using assms compose_topos_sum [of g sq ts] in_range_delta [OF assms(2)]
  by (simp add: wf_topos_def)

lemma div_field: "0 \<le> b \<Longrightarrow> b < m \<Longrightarrow> (a * m + b) div m = (a::int)"
  by simp

lemma mod_field: "0 \<le> b \<Longrightarrow> b < m \<Longrightarrow> (a * m + b) mod m = (b::int)"
  by simp

text \<open>The fields of a composed identifier, read back with the shifts of \<open>parse_id\<close>.\<close>

lemma compose_topos_fields:
  assumes g: "wf_topos g" and ts: "in_range ts" and sq: "0 \<le> sq" "sq < 4096"
  defines "i \<equiv> compose_topos g ts sq"
  shows "drop_bit 22 i AND 0x1FFFFFFFFFF = ts - topos_epoch"
    and "drop_bit 17 i AND 0x1F = datacenter_id g"
    and "drop_bit 12 i AND 0x1F = worker_id g"
    and "i AND 0xFFF = sq"
    and "0 \<le> i" and "i < 2 ^ 63"
proof -
  let ?d = "datacenter_id g" and ?w = "worker_id g" and ?t = "ts - topos_epoch"
  have b: "0 \<le> ?d" "?d < 32" "0 \<le> ?w" "?w < 32" and t: "0 \<le> ?t" "?t < 2 ^ 41"
    using g ts by (auto simp: wf_topos_def in_range_def)
  have i: "i = ?t * 2 ^ 22 + (?d * 2 ^ 17 + (?w * 2 ^ 12 + sq))"
    unfolding i_def by (rule compose_topos_in_range [OF g ts sq])
  have i17: "i = (?t * 32 + ?d) * 2 ^ 17 + (?w * 2 ^ 12 + sq)" by (simp add: i)
  have i12: "i = ((?t * 32 + ?d) * 32 + ?w) * 2 ^ 12 + sq" by (simp add: i)
  have "i div 2 ^ 22 = ?t" unfolding i by (rule div_field) (use b sq in simp_all)
  then show "drop_bit 22 i AND 0x1FFFFFFFFFF = ?t"
    using in_range_delta [OF ts] by (simp add: drop_bit_eq_div and_masks)
  have "i div 2 ^ 17 = ?t * 32 + ?d" unfolding i17 by (rule div_field) (use b sq in simp_all)
  then show "drop_bit 17 i AND 0x1F = ?d"
    using mod_field [of ?d 32 ?t] b by (simp add: drop_bit_eq_div and_masks)
  have "i div 2 ^ 12 = (?t * 32 + ?d) * 32 + ?w" unfolding i12 by (rule div_field) (use sq in simp_all)
  then show "drop_bit 12 i AND 0x1F = ?w"
    using mod_field [of ?w 32 "?t * 32 + ?d"] b by (simp add: drop_bit_eq_div and_masks)
  show "i AND 0xFFF = sq"
    unfolding and_masks i12 by (rule mod_field) (use sq in simp_all)
  show "0 \<le> i" "i < 2 ^ 63" using b t sq by (simp_all add: i)
qed

text \<open>A generated topos identifier is a non-negative 63-bit number, and decoding its
  decimal text gives back the millisecond, the two node fields and the sequence number the
  generator used, for every reading inside the 41-bit range after the epoch.\<close>

theorem topos_id_roundtrip:
  assumes "wf_topos g" and "topos_generate g cs = Some (Inr i, g', cs')"
    and "in_range (last_timestamp g')"
  shows "0 \<le> i \<and> i < 2 ^ 63 \<and>
    parse_id (show_int i) =
      Inr \<lparr>timestamp_ms = last_timestamp g',
           worker_info = show_int (datacenter_id g) @ '':'' @ show_int (worker_id g),
           seq_no = sequence g'\<rparr>"
proof -
  note g' = topos_generate_wf [OF assms(1,2)]
  have sq: "0 \<le> sequence g'" "sequence g' < 4096"
    using g'(1) by (simp_all add: wf_topos_def)
  note f = compose_topos_fields [OF g'(1) assms(3) sq]
  show ?thesis
    using f g'(3,4) by (simp add: parse_id_def g'(2) topos_epoch_def)
qed

text \<open>Sample data for the witnesses: a fresh generator and a clock that ticks.\<close>

definition sample_gen :: topos_gen where
  "sample_gen = topos_init 3 7"

definition sample_clock :: "int list" where
  "sample_clock = [topos_epoch + 5, topos_epoch + 5, topos_epoch + 6]"

theorem topos_id_roundtrip_witness:
  "\<exists>i g' cs'. topos_generate sample_gen sample_clock = Some (Inr i, g', cs') \<and>
     parse_id (show_int i) =
      Inr \<lparr>timestamp_ms = topos_epoch + 5, worker_info = ''7:3'', seq_no = 0\<rparr>"
proof -
  have gen: "topos_generate sample_gen sample_clock =
      Some (Inr 21901312, sample_gen\<lparr>sequence := 0, last_timestamp := topos_epoch + 5\<rparr>, tl sample_clock)"
    by code_simp
  have wf: "wf_topos sample_gen" unfolding sample_gen_def by (rule topos_init_wf)
  have "show_int (datacenter_id sample_gen) @ '':'' @ show_int (worker_id sample_gen) = ''7:3''"
    by code_simp
  then show ?thesis
    using topos_id_roundtrip [OF wf gen] gen by (auto simp: in_range_def)
qed

section \<open>Identifiers never repeat on a monotone clock\<close>

fun topos_ids :: "nat \<Rightarrow> topos_gen \<Rightarrow> int list \<Rightarrow> int list" where
  "topos_ids 0 g cs = []"
| "topos_ids (Suc n) g cs =
     (case topos_generate g cs of
        Some (Inr i, g', cs') \<Rightarrow> i # topos_ids n g' cs'
      | _ \<Rightarrow> [])"

lemma spin_clock_suffix: "spin_clock lst ts cs = Some (ts', cs') \<Longrightarrow> suffix (ts' # cs') (ts # cs)"
proof (induction lst ts cs rule: spin_clock.induct)
  case (1 lst ts cs)
  show ?case
  proof (cases "ts \<le> lst")
    case True
    with 1(2) obtain c cs2 where "cs = c # cs2" "spin_clock lst c cs2 = Some (ts', cs')"
      by (subst (asm) spin_clock.simps) (auto split: list.splits)
    with 1(1) True show ?thesis by (auto intro: suffix_ConsI)
  next
    case False
    with 1(2) show ?thesis by (subst (asm) spin_clock.simps) simp
  qed
qed

text \<open>On a clock that does not run backwards a call uses one of the readings and leaves a rest
  of the list.\<close>

lemma topos_generate_monotone:
  assumes "wf_topos g" "sorted (last_timestamp g # cs)"
    and gen: "topos_generate g cs = Some (Inr i, g', cs')"
  shows "sorted (last_timestamp g' # cs')" "set cs' \<subseteq> set cs" "last_timestamp g' \<in> set cs"
    "last_timestamp g < last_timestamp g' \<or>
       (last_timestamp g' = last_timestamp g \<and> sequence g' = sequence g + 1)"
proof -
  obtain ts cs1 sq where r: "read_clock g cs = Some (Inr ts, cs1)"
    and n: "next_sequence g ts cs1 = Some (sq, last_timestamp g', cs')"
    and g': "g' = g\<lparr>sequence := sq, last_timestamp := last_timestamp g'\<rparr>"
    using topos_generate_cases [OF gen] .
  from r assms(2) have cs: "cs = ts # cs1" "last_timestamp g \<le> ts"
    by (auto simp: read_clock_def split: list.splits if_splits)
  have suf: "suffix (last_timestamp g' # cs') cs"
    using n unfolding cs
    by (auto simp: next_sequence_def Let_def split: if_splits dest: spin_clock_suffix)
  then show "set cs' \<subseteq> set cs" "last_timestamp g' \<in> set cs"
    by (auto simp: suffix_def)
  show "sorted (last_timestamp g' # cs')"
    using suf assms(2) by (auto simp: suffix_def sorted_append)
  have "sequence g' = sq" by (subst g') simp
  then show "last_timestamp g < last_timestamp g' \<or>
       (last_timestamp g' = last_timestamp g \<and> sequence g' = sequence g + 1)"
    using next_sequence_advances [OF assms(1) n cs(2)] by auto
qed

lemma compose_topos_less:
  assumes "wf_topos g" "wf_topos g'" "worker_id g' = worker_id g" "datacenter_id g' = datacenter_id g"
    and "in_range (last_timestamp g)" "in_range (last_timestamp g')"
    and "last_timestamp g < last_timestamp g' \<or>
       (last_timestamp g' = last_timestamp g \<and> sequence g' = sequence g + 1)"
  shows "compose_topos g (last_timestamp g) (sequence g)
      < compose_topos g' (last_timestamp g') (sequence g')"
proof -
  note c = compose_topos_in_range [OF assms(1) assms(5)] compose_topos_in_range [OF assms(2) assms(6)]
  show ?thesis
    using assms by (auto simp: c wf_topos_def)
qed

lemma topos_ids_above:
  assumes "wf_topos g" "sorted (last_timestamp g # cs)" "in_range (last_timestamp g)"
    and "list_all in_range cs" and "j \<in> set (topos_ids n g cs)"
  shows "compose_topos g (last_timestamp g) (sequence g) < j"
  using assms
proof (induction n arbitrary: g cs)
  case 0
  then show ?case by simp
next
  case (Suc n)
  from Suc.prems(5) obtain i g' cs' where gen: "topos_generate g cs = Some (Inr i, g', cs')"
    and j: "j = i \<or> j \<in> set (topos_ids n g' cs')"
    by (cases "topos_generate g cs") (auto split: prod.splits sum.splits)
  note m = topos_generate_monotone [OF Suc.prems(1,2) gen]
  note w = topos_generate_wf [OF Suc.prems(1) gen]
  have r: "in_range (last_timestamp g')" "list_all in_range cs'"
    using Suc.prems(4) m(2,3) by (auto simp: list_all_iff)
  have lt: "compose_topos g (last_timestamp g) (sequence g) < i"
    unfolding w(2) by (rule compose_topos_less [OF Suc.prems(1) w(1,3,4) Suc.prems(3) r(1) m(4)])
  show ?case
  proof (cases "j = i")
    case True
    with lt show ?thesis by simp
  next
    case False
    with j have "compose_topos g' (last_timestamp g') (sequence g') < j"
      using Suc.IH [OF w(1) m(1) r] by blast
    with lt w(2) show ?thesis by simp
  qed
qed

text \<open>C38. Any number of successive calls on a clock that does not run backwards yields strictly
  increasing identifiers, so no identifier is issued twice by one node.\<close>

theorem topos_ids_strictly_increasing:
  assumes "wf_topos g" "sorted (last_timestamp g # cs)" "list_all in_range cs"
  shows "sorted_wrt (<) (topos_ids n g cs)"
  using assms
proof (induction n arbitrary: g cs)
  case 0
  then show ?case by simp
next
  case (Suc n)
  show ?case
  proof (cases "\<exists>i g' cs'. topos_generate g cs = Some (Inr i, g', cs')")
    case False
    then show ?thesis by (auto split: option.splits prod.splits sum.splits)
  next
    case True
    then obtain i g' cs' where gen: "topos_generate g cs = Some (Inr i, g', cs')" by blast
    note m = topos_generate_monotone [OF Suc.prems(1,2) gen]
    note w = topos_generate_wf [OF Suc.prems(1) gen]
    have r: "in_range (last_timestamp g')" "list_all in_range cs'"
      using Suc.prems(3) m(2,3) by (auto simp: list_all_iff)
    have "\<forall>j\<in>set (topos_ids n g' cs'). i < j"
      using topos_ids_above [OF w(1) m(1) r] w(2) by simp
    with Suc.IH [OF w(1) m(1) r(2)] gen show ?thesis by simp
  qed
qed

theorem topos_ids_strictly_increasing_witness:
  "length (topos_ids 3 sample_gen sample_clock) = 3 \<and>
   sorted_wrt (<) (topos_ids 3 sample_gen sample_clock)"
proof
  have wf: "wf_topos sample_gen" unfolding sample_gen_def by (rule topos_init_wf)
  have "sorted (last_timestamp sample_gen # sample_clock)" "list_all in_range sample_clock"
    by code_simp+
  then show "sorted_wrt (<) (topos_ids 3 sample_gen sample_clock)"
    by (rule topos_ids_strictly_increasing [OF wf])
qed code_simp

text \<open>The sleep after a small step back is not checked: when the second reading is still behind,
  the generator moves its clock back and can issue an identifier it issued before.\<close>

theorem topos_id_repeats_after_unchecked_sleep:
  "\<exists>i. topos_ids 3 sample_gen [topos_epoch + 5, topos_epoch + 6, topos_epoch + 4, topos_epoch + 5]
       = [i, i + 2 ^ 22, i]"
  by (rule exI [of _ 21901312]) code_simp

section \<open>Phase identifiers and parity\<close>

lemma div_int_unique_field: "q * m \<le> i \<Longrightarrow> i < q * m + m \<Longrightarrow> i div m = (q::int)"
  by (metis add_diff_cancel_left' diff_ge_0_iff_ge diff_less_eq div_field add_diff_eq
      mult.commute add.commute le_add_diff_inverse)

lemma pack_phase_sum:
  assumes "ep \<in> {0, 1}" "0 \<le> tk" "tk < 128" "ts \<in> {0, 1}" "0 \<le> tm" "tm < 2048"
    and "ps \<in> {0, 1}" "0 \<le> pm" "pm < 2048"
  shows "pack_phase ep tk ts tm ps pm =
    ep * 2 ^ 31 + (tk * 2 ^ 24 + (ts * 2 ^ 23 + (tm * 2 ^ 12 + (ps * 2 ^ 11 + pm))))"
proof -
  have b: "0 \<le> ep" "ep \<le> 1" "0 \<le> ts" "ts \<le> 1" "0 \<le> ps" "ps \<le> 1" using assms by auto
  have 1: "push_bit 11 ps OR pm = ps * 2 ^ 11 + pm" by (rule or_push_add) (use assms in simp_all)
  have 2: "push_bit 12 tm OR (ps * 2 ^ 11 + pm) = tm * 2 ^ 12 + (ps * 2 ^ 11 + pm)"
    by (rule or_push_add) (use assms b in simp_all)
  have 3: "push_bit 23 ts OR (tm * 2 ^ 12 + (ps * 2 ^ 11 + pm)) =
      ts * 2 ^ 23 + (tm * 2 ^ 12 + (ps * 2 ^ 11 + pm))"
    by (rule or_push_add) (use assms b in simp_all)
  have 4: "push_bit 24 tk OR (ts * 2 ^ 23 + (tm * 2 ^ 12 + (ps * 2 ^ 11 + pm))) =
      tk * 2 ^ 24 + (ts * 2 ^ 23 + (tm * 2 ^ 12 + (ps * 2 ^ 11 + pm)))"
    by (rule or_push_add) (use assms b in simp_all)
  have 5: "push_bit 31 ep OR (tk * 2 ^ 24 + (ts * 2 ^ 23 + (tm * 2 ^ 12 + (ps * 2 ^ 11 + pm)))) =
      ep * 2 ^ 31 + (tk * 2 ^ 24 + (ts * 2 ^ 23 + (tm * 2 ^ 12 + (ps * 2 ^ 11 + pm))))"
    by (rule or_push_add) (use assms b in simp_all)
  have "(ep * 2 ^ 31 + (tk * 2 ^ 24 + (ts * 2 ^ 23 + (tm * 2 ^ 12 + (ps * 2 ^ 11 + pm))))) mod 2 ^ 32 =
     ep * 2 ^ 31 + (tk * 2 ^ 24 + (ts * 2 ^ 23 + (tm * 2 ^ 12 + (ps * 2 ^ 11 + pm))))"
    by (rule mod_pos_pos_trivial) (use assms b in simp_all)
  then show ?thesis
    by (simp only: pack_phase_def or.assoc 1 2 3 4 5 and_masks)
qed

lemma pack_phase_fields:
  assumes h: "ep \<in> {0, 1}" "0 \<le> tk" "tk < 128" "ts \<in> {0, 1}" "0 \<le> tm" "tm < 2048"
    and h': "ps \<in> {0, 1}" "0 \<le> pm" "pm < 2048"
  defines "i \<equiv> pack_phase ep tk ts tm ps pm"
  shows "0 \<le> i" "i < 2 ^ 32" "drop_bit 31 i AND 1 = ep" "drop_bit 24 i AND 0x7F = tk"
    "drop_bit 23 i AND 1 = ts" "drop_bit 12 i AND 0x7FF = tm" "drop_bit 11 i AND 1 = ps"
    "i AND 0x7FF = pm"
proof -
  have b: "0 \<le> ep" "ep \<le> 1" "0 \<le> ts" "ts \<le> 1" "0 \<le> ps" "ps \<le> 1" using h h' by auto
  have i: "i = ep * 2 ^ 31 + (tk * 2 ^ 24 + (ts * 2 ^ 23 + (tm * 2 ^ 12 + (ps * 2 ^ 11 + pm))))"
    unfolding i_def by (rule pack_phase_sum [OF h h'])
  have n: "0 \<le> tk" "tk < 128" "0 \<le> tm" "tm < 2048" "0 \<le> pm" "pm < 2048" using h h' by auto
  have d31: "i div 2 ^ 31 = ep"
    by (rule div_int_unique_field) (use b n in \<open>simp_all add: i\<close>)
  have d24: "i div 2 ^ 24 = ep * 128 + tk"
    by (rule div_int_unique_field) (use b n in \<open>simp_all add: i\<close>)
  have d23: "i div 2 ^ 23 = (ep * 128 + tk) * 2 + ts"
    by (rule div_int_unique_field) (use b n in \<open>simp_all add: i\<close>)
  have d12: "i div 2 ^ 12 = ((ep * 128 + tk) * 2 + ts) * 2048 + tm"
    by (rule div_int_unique_field) (use b n in \<open>simp_all add: i\<close>)
  have d11: "i div 2 ^ 11 = (((ep * 128 + tk) * 2 + ts) * 2048 + tm) * 2 + ps"
    by (rule div_int_unique_field) (use b n in \<open>simp_all add: i\<close>)
  have i11: "i = ((((ep * 128 + tk) * 2 + ts) * 2048 + tm) * 2 + ps) * 2048 + pm"
    by (simp add: i)
  show "0 \<le> i" "i < 2 ^ 32" using b n by (simp_all add: i)
  show "drop_bit 31 i AND 1 = ep"
    using b by (simp add: drop_bit_eq_div and_masks d31 [simplified])
  show "drop_bit 24 i AND 0x7F = tk"
    using n mod_field [of tk 128 ep] by (simp add: drop_bit_eq_div and_masks d24 [simplified])
  show "drop_bit 23 i AND 1 = ts"
    using b mod_field [of ts 2 "ep * 128 + tk"]
    by (simp add: drop_bit_eq_div and_masks d23 [simplified])
  show "drop_bit 12 i AND 0x7FF = tm"
    using n mod_field [of tm 2048 "(ep * 128 + tk) * 2 + ts"]
    by (simp add: drop_bit_eq_div and_masks d12 [simplified])
  show "drop_bit 11 i AND 1 = ps"
    using b mod_field [of ps 2 "((ep * 128 + tk) * 2 + ts) * 2048 + tm"]
    by (simp add: drop_bit_eq_div and_masks d11 [simplified])
  show "i AND 0x7FF = pm"
    unfolding and_masks i11
    using n mod_field [of pm 2048 "(((ep * 128 + tk) * 2 + ts) * 2048 + tm) * 2 + ps"] by simp
qed

definition wf_phase :: "phase_gen \<Rightarrow> bool" where
  "wf_phase g \<longleftrightarrow> phase_epoch g \<in> {0, 1} \<and> 0 \<le> phase_tick g \<and> phase_tick g < 128"

definition clamp11 :: "int \<Rightarrow> int" where
  "clamp11 d = max (- 2047) (min 2047 d)"

lemma phase_init_wf: "wf_phase phase_init"
  by (simp add: wf_phase_def phase_init_def)

text \<open>A generated phase identifier fits 32 bits, the generator stays well formed, and decoding
  the identifier gives the epoch bit, the tick and both displacements, saturated to eleven
  bits with their sign.\<close>

theorem phase_id_roundtrip:
  assumes "wf_phase g" and "phase_generate g topo press rupture tick = (i, g')"
  shows "wf_phase g' \<and> 0 \<le> i \<and> i < 2 ^ 32 \<and>
    parse_phase_id i =
      \<lparr>pp_epoch = phase_epoch g', pp_tick = phase_tick g',
       pp_d_topo = clamp11 (topo - prev_topo g), pp_d_press = clamp11 (press - prev_press g)\<rparr>"
proof -
  let ?ts = "if topo - prev_topo g \<ge> 0 then 1 else 0 :: int"
    and ?tm = "min \<bar>topo - prev_topo g\<bar> 0x7FF"
    and ?ps = "if press - prev_press g \<ge> 0 then 1 else 0 :: int"
    and ?pm = "min \<bar>press - prev_press g\<bar> 0x7FF"
  have g': "phase_epoch g' = (if rupture then phase_epoch g XOR 1 else phase_epoch g)"
    "phase_tick g' = (case tick of Some t \<Rightarrow> t AND 0x7F | None \<Rightarrow> (phase_tick g + 1) AND 0x7F)"
    "i = pack_phase (phase_epoch g') (phase_tick g') ?ts ?tm ?ps ?pm"
    using assms(2) by (auto simp: phase_generate_def Let_def)
  have ep: "phase_epoch g' \<in> {0, 1}" using assms(1) by (auto simp: g' wf_phase_def)
  have tk: "0 \<le> phase_tick g'" "phase_tick g' < 128"
    by (auto simp: g' and_masks split: option.splits)
  have sg: "?ts \<in> {0, 1}" "?ps \<in> {0, 1}" "0 \<le> ?tm" "?tm < 2048" "0 \<le> ?pm" "?pm < 2048" by auto
  note f = pack_phase_fields [OF ep tk sg(1,3,4,2,5,6), folded g'(3)]
  have "parse_phase_id i =
      \<lparr>pp_epoch = phase_epoch g', pp_tick = phase_tick g',
       pp_d_topo = (if ?ts \<noteq> 0 then ?tm else - ?tm), pp_d_press = (if ?ps \<noteq> 0 then ?pm else - ?pm)\<rparr>"
    by (simp only: parse_phase_id_def Let_def f)
  moreover have "(if ?ts \<noteq> 0 then ?tm else - ?tm) = clamp11 (topo - prev_topo g)"
    "(if ?ps \<noteq> 0 then ?pm else - ?pm) = clamp11 (press - prev_press g)"
    by (auto simp: clamp11_def)
  ultimately show ?thesis
    using f(1,2) ep tk by (simp add: wf_phase_def)
qed

theorem phase_id_roundtrip_witness:
  "parse_phase_id (fst (phase_generate phase_init (-5) 9000 True None)) =
     \<lparr>pp_epoch = 1, pp_tick = 1, pp_d_topo = -5, pp_d_press = 2047\<rparr>"
proof -
  obtain i g' where e: "phase_generate phase_init (-5) 9000 True None = (i, g')"
    by (cases "phase_generate phase_init (-5) 9000 True None") auto
  have "g' = snd (phase_generate phase_init (-5) 9000 True None)" by (simp add: e)
  also have "\<dots> = \<lparr>prev_topo = -5, prev_press = 9000, phase_epoch = 1, phase_tick = 1, current_anchor = 0\<rparr>"
    by code_simp
  finally have g': "g' = \<dots>" .
  have p0: "prev_topo phase_init = 0" "prev_press phase_init = 0" by (simp_all add: phase_init_def)
  show ?thesis
    using g' phase_id_roundtrip [OF phase_init_wf e] by (simp add: e clamp11_def p0)
qed

lemma low32_take_bit: "low32 x = take_bit 32 x"
  by (simp only: low32_def mask_eqs take_bit_eq_mask)

lemma low32_simps [simp]:
  "low32 (low32 x) = low32 x" "low32 (low32 x XOR low32 y) = low32 x XOR low32 y"
  by (simp_all add: low32_take_bit)

lemma xor_cancel: "(a::int) XOR (a XOR b) = b" "b XOR (a XOR b) = a"
  by (simp_all add: xor.assoc [symmetric]) (simp add: xor.commute [of b a] xor.assoc)

text \<open>XOR parity: a nexus identifier made from a topos and a phase identifier verifies, every
  other value of its 32 bits is rejected, and each of the three identifiers is recovered
  (in its low 32 bits) from the other two.\<close>

theorem parity_recovers_any_one:
  assumes "id_to_int a = Inr t" and "generate_nexus_id a p = Inr n"
  shows "verify_parity (Some a) (Some p) (Some m) = Inr (ParityChecked (low32 m = n)) \<and>
    verify_parity None (Some p) (Some n) = Inr (ParityRecovered (low32 t) ''topos_id_low32'') \<and>
    verify_parity (Some a) None (Some n) = Inr (ParityRecovered (low32 p) ''phase_id'') \<and>
    verify_parity (Some a) (Some p) None = Inr (ParityRecovered n ''nexus_id'')"
proof -
  have n: "n = low32 t XOR low32 p" using assms by (simp add: generate_nexus_id_def)
  show ?thesis
    by (intro conjI) (simp_all add: verify_parity_def n assms(1) xor_cancel eq_commute)
qed

theorem parity_recovers_any_one_witness:
  "\<exists>n. generate_nexus_id (IdStr (show_int 21901312)) 77 = Inr n \<and>
     verify_parity (Some (IdStr (show_int 21901312))) None (Some n) = Inr (ParityRecovered 77 ''phase_id'')"
proof -
  have a: "id_to_int (IdStr (show_int 21901312)) = Inr 21901312" by simp
  have n: "generate_nexus_id (IdStr (show_int 21901312)) 77 = Inr (low32 21901312 XOR low32 77)"
    by (simp add: generate_nexus_id_def a)
  have "low32 77 = 77" by code_simp
  then have "verify_parity (Some (IdStr (show_int 21901312))) None (Some (low32 21901312 XOR low32 77)) =
      Inr (ParityRecovered 77 ''phase_id'')"
    using parity_recovers_any_one [OF a n] by metis
  with n show ?thesis by blast
qed

end
