(* ===== verification/FsmContract.thy ===== *)
theory FsmContract
  imports Prelude
begin

text \<open>
  The shared FSM vocabulary, \<^verbatim>\<open>arch/contract/fsm.py\<close>: resource URIs, JSON paths, dynamic
  parameters, output projection, and the records of the compiled graph.
\<close>

section \<open>Constants and enumerations\<close>

definition MAX_BLOB_BYTES :: int where "MAX_BLOB_BYTES = 2048"
definition CAS_PREFIX :: string where "CAS_PREFIX = ''blob:''"
definition BRANCH_PREFIX :: string where "BRANCH_PREFIX = ''branch:''"
definition END_TOKEN :: string where "END_TOKEN = ''END''"
definition RETURN_TOKEN :: string where "RETURN_TOKEN = ''RETURN''"

definition ASL_CHOICE_OP_MAP :: "(string, string) dict" where
  "ASL_CHOICE_OP_MAP =
     [(''StringEquals'', ''==''), (''NumericEquals'', ''==''), (''BooleanEquals'', ''==''),
      (''NumericGreaterThanEquals'', ''>=''), (''NumericLessThanEquals'', ''<=''),
      (''NumericGreaterThan'', ''>''), (''NumericLessThan'', ''<''),
      (''StringNotEquals'', ''!=''), (''NumericNotEquals'', ''!='')]"

datatype node_type = PROJECTOR | OPERSIG | ACT | PENDING | REFLECT | TENSION | ROUTER

fun node_type_value :: "node_type \<Rightarrow> string" where
  "node_type_value PROJECTOR = ''projector''"
| "node_type_value OPERSIG = ''opersig''"
| "node_type_value ACT = ''act''"
| "node_type_value PENDING = ''pending''"
| "node_type_value REFLECT = ''reflect''"
| "node_type_value TENSION = ''tension''"
| "node_type_value ROUTER = ''router''"

datatype edge_mode = DIRECT | CONDITIONAL | FALLBACK

text \<open>The keys of the compact graph (\<open>CompactKey\<close>).\<close>

definition K_META :: string where "K_META = ''_m''"
definition K_ENTRY :: string where "K_ENTRY = ''ep''"
definition K_TRACE :: string where "K_TRACE = ''tr''"
definition K_VERSION :: string where "K_VERSION = ''v''"
definition K_GRAPH :: string where "K_GRAPH = ''g''"
definition K_TYPE :: string where "K_TYPE = ''t''"
definition K_ATTRS :: string where "K_ATTRS = ''a''"
definition K_NEXT :: string where "K_NEXT = ''nx''"
definition K_FALLBACK :: string where "K_FALLBACK = ''fb''"
definition K_RULES :: string where "K_RULES = ''rl''"
definition K_IF_COND :: string where "K_IF_COND = ''if''"
definition K_DEFAULT_NEXT :: string where "K_DEFAULT_NEXT = ''dn''"

lemmas compact_keys = K_META_def K_ENTRY_def K_TRACE_def K_VERSION_def K_GRAPH_def K_TYPE_def
  K_ATTRS_def K_NEXT_def K_FALLBACK_def K_RULES_def K_IF_COND_def K_DEFAULT_NEXT_def

section \<open>Resource URIs\<close>

definition NATIVE_MCP_SCHEMES :: "string list" where
  "NATIVE_MCP_SCHEMES = [''mcp'', ''fiber'', ''tool'', ''sidecar'']"

definition POLYGLOT_OPERSIG_SCHEMES :: "string list" where
  "POLYGLOT_OPERSIG_SCHEMES = [''fn'', ''py'', ''http'', ''https'', ''exec'']"

record parsed_resource =
  raw_uri :: string
  scheme :: string
  target :: string
  target_id :: string
  node_kind :: node_type
  model_hint :: "string option"

definition is_native_mcp :: "parsed_resource \<Rightarrow> bool" where
  "is_native_mcp r \<longleftrightarrow>
     node_kind r \<in> {OPERSIG, PENDING} \<and>
     (scheme r \<in> set NATIVE_MCP_SCHEMES \<or> scheme r = [])"

definition is_polyglot_opersig :: "parsed_resource \<Rightarrow> bool" where
  "is_polyglot_opersig r \<longleftrightarrow>
     node_kind r = OPERSIG \<and> scheme r \<in> set POLYGLOT_OPERSIG_SCHEMES"

definition uri_parts :: "string \<Rightarrow> string \<times> string" where
  "uri_parts raw =
     (case split_once ''://'' raw of
        Some (scheme_part, rest) \<Rightarrow>
          (let sch = strip (lower scheme_part)
           in (sch, if sch \<in> {''http'', ''https'', ''exec''} then strip rest else strip_set ''/'' rest))
      | None \<Rightarrow> ([], strip_set ''/'' raw))"

definition uri_target_id :: "string \<Rightarrow> string" where
  "uri_target_id tgt =
     (if contains tgt ''/'' then last (split_char CHR ''/'' (rstrip_set ''/'' tgt)) else tgt)"

definition keyword_node_type :: "string \<Rightarrow> node_type" where
  "keyword_node_type lower_raw =
     (if contains lower_raw ''reflect'' then REFLECT
      else if contains lower_raw ''tension'' then TENSION
      else if contains lower_raw ''pending'' then PENDING
      else if contains lower_raw ''llm'' then PROJECTOR
      else if contains lower_raw ''sidecar'' \<or> contains lower_raw ''tool'' \<or> contains lower_raw ''mcp''
        then OPERSIG
      else if contains lower_raw ''io'' \<or> contains lower_raw ''act'' then ACT
      else OPERSIG)"

definition model_of :: "string list \<Rightarrow> string \<Rightarrow> string option" where
  "model_of reserved tgt = (if tgt \<noteq> [] \<and> tgt \<notin> set reserved then Some tgt else None)"

definition mk_resource ::
  "string \<Rightarrow> string \<Rightarrow> string \<Rightarrow> string \<Rightarrow> node_type \<Rightarrow> string option \<Rightarrow> parsed_resource" where
  "mk_resource raw sch tgt tid nt mh =
     \<lparr>raw_uri = raw, scheme = sch, target = tgt, target_id = tid, node_kind = nt, model_hint = mh\<rparr>"

definition parse_resource_uri :: "string \<Rightarrow> parsed_resource" where
  "parse_resource_uri resource_uri =
     (let raw = strip resource_uri;
          (sch, tgt) = uri_parts raw;
          tid = uri_target_id tgt
      in if sch = ''llm'' then
           mk_resource raw sch tgt tgt PROJECTOR (model_of [''default'', ''llm_proxy''] tgt)
         else if sch = ''reflect'' then
           mk_resource raw sch tgt tgt REFLECT (model_of [''default'', ''reflect_llm''] tgt)
         else if sch = ''tension'' then
           mk_resource raw sch tgt tgt TENSION (model_of [''default''] tgt)
         else if sch \<in> set NATIVE_MCP_SCHEMES \<and> sch \<noteq> ''fiber'' then
           mk_resource raw sch tgt tid OPERSIG None
         else if sch \<in> set POLYGLOT_OPERSIG_SCHEMES then
           mk_resource raw sch tgt tid OPERSIG None
         else if sch = ''pending'' then
           mk_resource raw sch tgt tid PENDING None
         else if sch \<in> {''act'', ''io'', ''noop''} then
           mk_resource raw sch tgt tid ACT None
         else
           mk_resource raw (if sch = [] then ''fiber'' else sch) tgt tid
             (keyword_node_type (lower raw)) None)"

section \<open>JSON paths, dynamic parameters and projection\<close>

fun walk_path :: "pyval \<Rightarrow> string list \<Rightarrow> pyval" where
  "walk_path cur [] = cur"
| "walk_path cur (part # parts) =
     (case cur of
        PDict d \<Rightarrow> (case dget d part of Some v \<Rightarrow> walk_path v parts | None \<Rightarrow> PNone)
      | PList xs \<Rightarrow>
          (if isdigit part \<and> parse_nat part < length xs
           then walk_path (xs ! parse_nat part) parts else PNone)
      | _ \<Rightarrow> PNone)"

definition extract_json_path :: "pyval \<Rightarrow> string option \<Rightarrow> pyval" where
  "extract_json_path data path =
     (case (path, data) of
        (Some (c # p), PDict d) \<Rightarrow>
          (case dget d (c # p) of
             Some v \<Rightarrow> v
           | None \<Rightarrow>
               (let clean = lstrip_set ''$.'' (c # p)
                in case dget d clean of
                     Some v \<Rightarrow> v
                   | None \<Rightarrow> walk_path data (split_char CHR ''.'' clean)))
      | _ \<Rightarrow> PNone)"

definition resolve_param :: "pydict \<Rightarrow> pydict \<Rightarrow> string \<times> pyval \<Rightarrow> pydict" where
  "resolve_param meta_ctx resolved kv =
     (case kv of (k, PStr v) \<Rightarrow>
        if endswith k ''.$'' then
          (let clean_key = take (length k - 2) k;
               val = extract_json_path (PDict meta_ctx) (Some v)
           in dset clean_key (if val \<noteq> PNone then val else dget_or meta_ctx v (PStr v)) resolved)
        else dset k (PStr v) resolved
      | (k, v) \<Rightarrow> dset k v resolved)"

definition resolve_dynamic_params :: "pydict \<Rightarrow> pydict \<Rightarrow> pydict" where
  "resolve_dynamic_params params meta_ctx = foldl (resolve_param meta_ctx) [] params"

text \<open>A path argument of dynamic type: falsy is no path, text is a path, the rest raises.\<close>

fun path_arg :: "pyval \<Rightarrow> string option res" where
  "path_arg (PStr s) = Inr (Some s)"
| "path_arg (PList xs) = (if xs = [] then Inr None else Inl (Exc TypeErr ''unhashable type: list''))"
| "path_arg (PDict d) = (if d = [] then Inr None else Inl (Exc TypeErr ''unhashable type: dict''))"
| "path_arg v = (if truthy v then Inl (Exc AttributeErr ''object has no attribute lstrip'') else Inr None)"

definition project_key :: "pyval \<Rightarrow> pydict \<Rightarrow> pyval \<Rightarrow> pydict res" where
  "project_key payload meta key_path =
     bind_res (path_arg key_path) (\<lambda>p.
       (let val = extract_json_path payload p in
        case (p, val) of
          (None, _) \<Rightarrow> Inr meta
        | (Some _, PNone) \<Rightarrow> Inr meta
        | (Some kp, _) \<Rightarrow> Inr (dset (last (split_char CHR ''.'' kp)) val (dset kp val meta))))"

fun project_keys :: "pyval \<Rightarrow> pydict \<Rightarrow> pyval list \<Rightarrow> pydict res" where
  "project_keys payload meta [] = Inr meta"
| "project_keys payload meta (k # ks) =
     bind_res (project_key payload meta k) (\<lambda>m. project_keys payload m ks)"

definition apply_projection ::
  "pyval \<Rightarrow> pydict option \<Rightarrow> pydict option \<Rightarrow> (pydict \<times> pydict) res" where
  "apply_projection raw_output projection base_meta =
     (let payload = (case raw_output of PDict d \<Rightarrow> PDict d | v \<Rightarrow> PDict [(''data'', v)]);
          proj = (case projection of None \<Rightarrow> [] | Some p \<Rightarrow> p);
          base = (case base_meta of None \<Rightarrow> [] | Some m \<Rightarrow> m)
      in bind_res (iter_val (dget_or proj ''extract_keys'' (PList []))) (\<lambda>ks.
         bind_res (project_keys payload base ks) (\<lambda>meta.
           (let op = dget_or proj ''offload_path'' PNone in
            bind_res (path_arg op) (\<lambda>path.
              (let tgt = (if truthy op then extract_json_path payload path else payload)
               in Inr (meta, case tgt of PDict d \<Rightarrow> d | v \<Rightarrow> [(''data'', v)])))))))"

section \<open>Graph records\<close>

record projection_config =
  pc_offload_path :: "string option"
  pc_extract_keys :: "string list"

record agent_attributes =
  io_ref :: "string option"
  pressure :: pyfloat
  max_failures :: int
  allow_parallel :: bool

definition default_attributes :: agent_attributes where
  "default_attributes = \<lparr>io_ref = None, pressure = Fin 0, max_failures = 3, allow_parallel = False\<rparr>"

record edge_relation =
  e_target :: string
  e_type :: edge_mode
  e_condition :: "string option"

definition external_or_terminal :: "string \<Rightarrow> bool" where
  "external_or_terminal t \<longleftrightarrow>
     t \<in> {END_TOKEN, RETURN_TOKEN} \<or>
     startswith t CAS_PREFIX \<or> startswith t BRANCH_PREFIX \<or> startswith t (RETURN_TOKEN @ ''#'')"

definition is_external_or_terminal :: "edge_relation \<Rightarrow> bool" where
  "is_external_or_terminal e = external_or_terminal (e_target e)"

record fragment =
  frag_id :: string
  frag_type :: node_type
  attributes :: agent_attributes
  relations :: "edge_relation list"

record fragment_sig =
  entry_point :: string
  nodes :: "(string, fragment) dict"
  sig_meta :: pydict

record compiled_bundle =
  root_hash :: string
  root_blob :: pydict
  cas_store :: "(string, pydict) dict"
  total_root_bytes :: int

section \<open>Resource URIs: what each scheme means\<close>

lemma rstrip_set_id: "s = [] \<or> last s \<notin> set cs \<Longrightarrow> rstrip_set cs s = s"
  by (cases s rule: rev_cases) (auto simp: rstrip_set_def)

lemma lstrip_set_id: "s = [] \<or> hd s \<notin> set cs \<Longrightarrow> lstrip_set cs s = s"
  by (cases s) (auto simp: lstrip_set_def)

lemma strip_set_id: "s = [] \<or> (hd s \<notin> set cs \<and> last s \<notin> set cs) \<Longrightarrow> strip_set cs s = s"
  by (auto simp: strip_set_def lstrip_set_id rstrip_set_id)

lemma split_scheme:
  "CHR '':'' \<notin> set a \<Longrightarrow> split_once ''://'' (a @ ''://'' @ b) = Some (a, b)"
  by (induction a) (auto simp: startswith_def)

text \<open>A tidy URI: a lower-case scheme without blanks, a target without outer slashes or blanks.\<close>

definition tidy_scheme :: "string \<Rightarrow> bool" where
  "tidy_scheme sch \<longleftrightarrow> sch \<noteq> [] \<and> lower sch = sch \<and> CHR '':'' \<notin> set sch \<and> strip sch = sch
     \<and> hd sch \<notin> set whitespace"

definition tidy_target :: "string \<Rightarrow> bool" where
  "tidy_target t \<longleftrightarrow> t \<noteq> [] \<and> hd t \<noteq> CHR ''/'' \<and> last t \<noteq> CHR ''/'' \<and> last t \<notin> set whitespace
     \<and> hd t \<notin> set whitespace"

lemma uri_parts_tidy:
  assumes "tidy_scheme sch" "tidy_target t"
  shows "strip (sch @ ''://'' @ t) = sch @ ''://'' @ t"
    and "uri_parts (sch @ ''://'' @ t) = (sch, t)"
proof -
  have t: "strip t = t" "strip_set ''/'' t = t"
    using assms(2) by (auto simp: strip_def tidy_target_def intro!: strip_set_id)
  have s: "split_once ''://'' (sch @ ''://'' @ t) = Some (sch, t)"
    by (rule split_scheme) (use assms(1) in \<open>simp add: tidy_scheme_def\<close>)
  have l: "lower sch = sch" "strip sch = sch" using assms(1) by (simp_all add: tidy_scheme_def)
  show "strip (sch @ ''://'' @ t) = sch @ ''://'' @ t"
    unfolding strip_def
    by (rule strip_set_id) (use assms in \<open>auto simp: tidy_scheme_def tidy_target_def\<close>)
  show "uri_parts (sch @ ''://'' @ t) = (sch, t)"
    unfolding uri_parts_def by (simp only: s option.case prod.case l Let_def t if_cancel)
qed

text \<open>The node kind a known scheme stands for, and the model hint of the cognitive schemes.\<close>

definition scheme_kind :: "string \<Rightarrow> node_type option" where
  "scheme_kind sch =
     (if sch = ''llm'' then Some PROJECTOR
      else if sch = ''reflect'' then Some REFLECT
      else if sch = ''tension'' then Some TENSION
      else if sch \<in> {''mcp'', ''tool'', ''sidecar'', ''fn'', ''py'', ''http'', ''https'', ''exec''} then Some OPERSIG
      else if sch = ''pending'' then Some PENDING
      else if sch \<in> {''act'', ''io'', ''noop''} then Some ACT
      else None)"

text \<open>A tidy URI with a known scheme is classified by its scheme alone, keeps its target
  (so \<open>llm://openai/gpt-4o\<close> keeps provider and model), hints the model exactly for the
  cognitive schemes with a target that is not reserved, and is a native MCP or polyglot
  operation exactly when its scheme is one.\<close>

theorem parse_resource_uri_scheme:
  assumes "tidy_scheme sch" "tidy_target t" "scheme_kind sch = Some k"
  defines "r \<equiv> parse_resource_uri (sch @ ''://'' @ t)"
  shows "scheme r = sch \<and> target r = t \<and> node_kind r = k \<and>
    model_hint r =
      (if sch = ''llm'' \<and> t \<notin> {''default'', ''llm_proxy''} \<or>
          sch = ''reflect'' \<and> t \<notin> {''default'', ''reflect_llm''} \<or>
          sch = ''tension'' \<and> t \<noteq> ''default'' then Some t else None) \<and>
    is_native_mcp r = (sch \<in> {''mcp'', ''tool'', ''sidecar''}) \<and>
    is_polyglot_opersig r = (sch \<in> {''fn'', ''py'', ''http'', ''https'', ''exec''})"
proof -
  have t: "t \<noteq> []" using assms(2) by (simp add: tidy_target_def)
  have "sch = ''llm'' \<and> k = PROJECTOR \<or> sch = ''reflect'' \<and> k = REFLECT \<or>
    sch = ''tension'' \<and> k = TENSION \<or> sch = ''mcp'' \<and> k = OPERSIG \<or> sch = ''tool'' \<and> k = OPERSIG \<or>
    sch = ''sidecar'' \<and> k = OPERSIG \<or> sch = ''fn'' \<and> k = OPERSIG \<or> sch = ''py'' \<and> k = OPERSIG \<or>
    sch = ''http'' \<and> k = OPERSIG \<or> sch = ''https'' \<and> k = OPERSIG \<or> sch = ''exec'' \<and> k = OPERSIG \<or>
    sch = ''pending'' \<and> k = PENDING \<or> sch = ''act'' \<and> k = ACT \<or> sch = ''io'' \<and> k = ACT \<or>
    sch = ''noop'' \<and> k = ACT"
    using assms(3) by (simp add: scheme_kind_def split: if_splits)
  then show ?thesis
    using t
    unfolding r_def parse_resource_uri_def uri_parts_tidy [OF assms(1,2)] Let_def prod.case
    by (elim disjE conjE; simp add: mk_resource_def model_of_def is_native_mcp_def is_polyglot_opersig_def
        NATIVE_MCP_SCHEMES_def POLYGLOT_OPERSIG_SCHEMES_def)
qed

theorem parse_resource_uri_scheme_witness:
  "model_hint (parse_resource_uri ''llm://openai/gpt-4o'') = Some ''openai/gpt-4o'' \<and>
   node_kind (parse_resource_uri ''llm://openai/gpt-4o'') = PROJECTOR"
proof -
  have h: "tidy_scheme ''llm''" "tidy_target ''openai/gpt-4o''" "scheme_kind ''llm'' = Some PROJECTOR"
    by (simp_all add: tidy_scheme_def tidy_target_def scheme_kind_def strip_def strip_set_def
        lstrip_set_def rstrip_set_def whitespace_def lower_def lower_char_def)
  show ?thesis using parse_resource_uri_scheme [OF h] by simp
qed

section \<open>JSON paths: reading back what was written\<close>

text \<open>Writing a value under a path of keys, creating the inner dictionaries: the specification
  the reader is compared with.\<close>

fun put_path :: "string list \<Rightarrow> pyval \<Rightarrow> pydict \<Rightarrow> pydict" where
  "put_path [] v d = d"
| "put_path [k] v d = dset k v d"
| "put_path (k # k' # ks) v d =
     dset k (PDict (put_path (k' # ks) v (case dget d k of Some (PDict d') \<Rightarrow> d' | _ \<Rightarrow> []))) d"

definition path_text :: "string list \<Rightarrow> string" where
  "path_text ks = ''$.'' @ join ''.'' ks"

definition plain_keys :: "string list \<Rightarrow> bool" where
  "plain_keys ks \<longleftrightarrow> ks \<noteq> [] \<and> list_all (\<lambda>k. CHR ''.'' \<notin> set k) ks \<and>
     hd ks \<noteq> [] \<and> hd (hd ks) \<noteq> CHR ''$''"

lemma walk_put_path: "ks \<noteq> [] \<Longrightarrow> walk_path (PDict (put_path ks v d)) ks = v"
  by (induction ks v d rule: put_path.induct) simp_all

lemma split_join:
  "ks \<noteq> [] \<Longrightarrow> list_all (\<lambda>k. c \<notin> set k) ks \<Longrightarrow> split_char c (join [c] ks) = ks"
  by (induction "[c]" ks rule: join.induct) (auto simp: split_char_append split_char_fresh)

lemma lstrip_path_text:
  assumes "plain_keys ks"
  shows "lstrip_set ''$.'' (path_text ks) = join ''.'' ks"
proof -
  obtain c k ks' where ks: "ks = (c # k) # ks'" and c: "c \<noteq> CHR ''$''" "c \<noteq> CHR ''.''"
    using assms by (cases ks; cases "hd ks") (auto simp: plain_keys_def)
  obtain r where r: "join ''.'' ks = c # r" using ks by (cases ks') auto
  then show ?thesis using c by (simp add: path_text_def lstrip_set_def)
qed

lemma dget_put_path_top:
  "ks \<noteq> [] \<Longrightarrow> k' \<noteq> hd ks \<Longrightarrow> dget (put_path ks v d) k' = dget d k'"
  by (cases ks rule: remdups_adj.cases) simp_all

lemma join_eq_head: "ks \<noteq> [] \<Longrightarrow> join [c] ks = hd ks \<Longrightarrow> list_all (\<lambda>k. c \<notin> set k) ks \<Longrightarrow> ks = [hd ks]"
  using split_join [of ks c] split_char_fresh [of c "hd ks"] by (cases ks) auto

text \<open>Reading a dotted path returns exactly the value stored under that path of keys, whatever
  else the document holds, as long as no top-level key spells the whole path (such a key
  takes precedence in the code).\<close>

theorem extract_json_path_put:
  assumes "plain_keys ks" and "\<not> dhas d (path_text ks)" and "\<not> dhas d (join ''.'' ks)"
  shows "extract_json_path (PDict (put_path ks v d)) (Some (path_text ks)) = v"
proof -
  let ?d = "put_path ks v d" and ?c = "join ''.'' ks"
  have ks: "ks \<noteq> []" "list_all (\<lambda>k. CHR ''.'' \<notin> set k) ks" using assms(1) by (auto simp: plain_keys_def)
  have "CHR ''.'' \<in> set (path_text ks)" by (simp add: path_text_def)
  then have "path_text ks \<noteq> hd ks" using ks by (cases ks) auto
  then have top: "dget ?d (path_text ks) = None"
    using dget_put_path_top [OF ks(1)] assms(2) by (simp add: dhas_def)
  have walk: "walk_path (PDict ?d) (split_char CHR ''.'' ?c) = v"
    using walk_put_path ks split_join by simp
  have clean: "(case dget ?d ?c of Some w \<Rightarrow> w | None \<Rightarrow> walk_path (PDict ?d) (split_char CHR ''.'' ?c)) = v"
  proof (cases "?c = hd ks")
    case True
    then have k1: "ks = [hd ks]" using join_eq_head ks by simp
    have "?d = dset (hd ks) v d" by (subst k1) simp
    with True show ?thesis by simp
  next
    case False
    then show ?thesis
      using dget_put_path_top [OF ks(1) False] assms(3) walk by (simp add: dhas_def)
  qed
  have "path_text ks = CHR ''$'' # CHR ''.'' # ?c" by (simp add: path_text_def)
  then show ?thesis
    using top clean lstrip_path_text [OF assms(1)] by (simp add: extract_json_path_def Let_def)
qed

theorem extract_json_path_put_witness:
  "extract_json_path (PDict (put_path [''a'', ''b''] (PInt 7) [(''a'', PInt 1)])) (Some ''$.a.b'') = PInt 7"
proof -
  have "plain_keys [''a'', ''b'']" "\<not> dhas [(''a'', PInt 1)] (path_text [''a'', ''b''])"
    "\<not> dhas [(''a'', PInt 1)] (join ''.'' [''a'', ''b''])"
    by (simp_all add: plain_keys_def dhas_def path_text_def)
  from extract_json_path_put [OF this] show ?thesis by (simp add: path_text_def)
qed

section \<open>Dynamic parameters\<close>

definition static_param :: "string \<times> pyval \<Rightarrow> bool" where
  "static_param kv \<longleftrightarrow> \<not> (endswith (fst kv) ''.$'' \<and> is_str (snd kv))"

definition param_key :: "string \<times> pyval \<Rightarrow> string" where
  "param_key kv = (if static_param kv then fst kv else take (length (fst kv) - 2) (fst kv))"

definition param_value :: "pydict \<Rightarrow> string \<times> pyval \<Rightarrow> pyval" where
  "param_value meta kv =
     (case snd kv of
        PStr v \<Rightarrow>
          if static_param kv then PStr v
          else if extract_json_path (PDict meta) (Some v) \<noteq> PNone
          then extract_json_path (PDict meta) (Some v)
          else dget_or meta v (PStr v)
      | w \<Rightarrow> w)"

lemma resolve_param_eq:
  "resolve_param meta res kv = dset (param_key kv) (param_value meta kv) res"
  by (cases kv; cases "snd kv")
     (auto simp: resolve_param_def param_key_def param_value_def static_param_def Let_def)

lemma resolve_params_fold:
  "dget (foldl (resolve_param meta) res ps) k =
     (case map_of (rev (map (\<lambda>kv. (param_key kv, param_value meta kv)) ps)) k of
        None \<Rightarrow> dget res k | Some v \<Rightarrow> Some v)"
  by (induction ps arbitrary: res)
     (auto simp: resolve_param_eq map_add_def split: option.splits)

text \<open>When no two parameters resolve to the same key, every parameter appears once under its
  resolved key: a static one unchanged, a dynamic one with the value its path has in the
  context, and with the path text itself when the context has none.\<close>

theorem resolve_dynamic_params_value:
  assumes "distinct (map param_key ps)" and "kv \<in> set ps"
  shows "dget (resolve_dynamic_params ps meta) (param_key kv) = Some (param_value meta kv)"
proof -
  let ?al = "map (\<lambda>kv. (param_key kv, param_value meta kv)) ps"
  have "distinct (map fst (rev ?al))" using assms(1) by (simp add: rev_map [symmetric] comp_def)
  moreover have "(param_key kv, param_value meta kv) \<in> set (rev ?al)" using assms(2) by auto
  ultimately have "map_of (rev ?al) (param_key kv) = Some (param_value meta kv)"
    by (rule map_of_is_SomeI)
  then show ?thesis
    by (simp add: resolve_dynamic_params_def resolve_params_fold)
qed

theorem resolve_dynamic_params_value_witness:
  "dget (resolve_dynamic_params [(''q.$'', PStr ''$.user''), (''n'', PInt 2)] [(''user'', PStr ''ann'')]) ''q''
     = Some (PStr ''ann'')"
proof -
  let ?ps = "[(''q.$'', PStr ''$.user''), (''n'', PInt 2)]" and ?m = "[(''user'', PStr ''ann'')]"
  have h: "distinct (map param_key ?ps)" "(''q.$'', PStr ''$.user'') \<in> set ?ps"
    by (simp_all add: param_key_def static_param_def endswith_def)
  have "param_key (''q.$'', PStr ''$.user'') = ''q''"
    "param_value ?m (''q.$'', PStr ''$.user'') = PStr ''ann''"
    by (simp_all add: param_key_def static_param_def endswith_def param_value_def
        extract_json_path_def lstrip_set_def)
  then show ?thesis using resolve_dynamic_params_value [OF h, of ?m] by simp
qed

lemma resolve_dynamic_params_wf: "wf_dict (resolve_dynamic_params ps meta)"
proof -
  have "wf_dict r \<Longrightarrow> wf_dict (foldl (resolve_param meta) r ps)" for r
    by (induction ps arbitrary: r) (auto simp: resolve_param_eq)
  then show ?thesis by (simp add: resolve_dynamic_params_def)
qed

end
