(* ===== verification/StateAdapters.thy ===== *)
theory StateAdapters
  imports FsmContract
begin

text \<open>
  The payload builders at the WASM boundary: \<^verbatim>\<open>arch/bound/adapter/state.py\<close>
  (\<open>StateAdapter\<close>, which guards every 32-bit field) and \<^verbatim>\<open>arch/bound/adapter/fsm.py\<close>
  (\<open>FsmAdapter\<close>, calldata and snapshot builders and the reply parser).
\<close>

section \<open>StateAdapter\<close>

definition opt_int :: "int option \<Rightarrow> pyval" where
  "opt_int v = (case v of None \<Rightarrow> PNone | Some i \<Rightarrow> PInt i)"

definition opt_str :: "string option \<Rightarrow> pyval" where
  "opt_str v = (case v of None \<Rightarrow> PNone | Some s \<Rightarrow> PStr s)"

definition str_list :: "string list \<Rightarrow> pyval" where
  "str_list xs = PList (map PStr xs)"

definition uint32 :: "int \<Rightarrow> bool" where
  "uint32 i \<longleftrightarrow> 0 \<le> i \<and> i \<le> 4294967295"

definition assert_uint32 :: "int option \<Rightarrow> string \<Rightarrow> unit res" where
  "assert_uint32 val name =
     (case val of
        Some i \<Rightarrow>
          if uint32 i then Inr ()
          else Inl (Exc ValueErr (''[FFI Type Error] '' @ squote @ name @ squote @ '' must be a uint32, got '' @ show_int i))
      | None \<Rightarrow> Inr ())"

definition build_topos_context :: "int \<Rightarrow> int option \<Rightarrow> int option \<Rightarrow> pydict res" where
  "build_topos_context timestamp injected_anchor injected_tick =
     bind_res (assert_uint32 injected_tick ''injected_tick'') (\<lambda>_.
       Inr [(''timestamp'', PInt timestamp), (''injected_anchor'', opt_int injected_anchor),
            (''injected_tick'', opt_int injected_tick)])"

definition build_parity_triplet :: "string \<Rightarrow> int option \<Rightarrow> int option \<Rightarrow> pydict res" where
  "build_parity_triplet topos_id phase_id nexus_id =
     bind_res (assert_uint32 phase_id ''phase_id'') (\<lambda>_.
     bind_res (assert_uint32 nexus_id ''nexus_id'') (\<lambda>_.
       Inr [(''topos_id'', PStr topos_id), (''phase_id'', opt_int phase_id), (''nexus_id'', opt_int nexus_id)]))"

definition build_parity_request :: "int option \<Rightarrow> int option \<Rightarrow> int option \<Rightarrow> pydict res" where
  "build_parity_request topos_id_low32 phase_id nexus_id =
     bind_res (assert_uint32 topos_id_low32 ''topos_id_low32'') (\<lambda>_.
     bind_res (assert_uint32 phase_id ''phase_id'') (\<lambda>_.
     bind_res (assert_uint32 nexus_id ''nexus_id'') (\<lambda>_.
       Inr [(''topos_id_low32'', opt_int topos_id_low32), (''phase_id'', opt_int phase_id),
            (''nexus_id'', opt_int nexus_id)])))"

definition or_zero :: "int option \<Rightarrow> pyval" where
  "or_zero v = (case v of None \<Rightarrow> PInt 0 | Some i \<Rightarrow> PInt i)"

definition build_repo_commit :: "int option \<Rightarrow> int option \<Rightarrow> string \<Rightarrow> pydict res" where
  "build_repo_commit nexus_id parent_nexus_id parent_commit_id =
     bind_res (assert_uint32 nexus_id ''nexus_id'') (\<lambda>_.
     bind_res (assert_uint32 parent_nexus_id ''parent_nexus_id'') (\<lambda>_.
       Inr [(''nexus_id'', opt_int nexus_id), (''parent_nexus_id'', or_zero parent_nexus_id),
            (''parent_commit_id'', PStr parent_commit_id)]))"

text \<open>\<open>{str(k): str(v) for k, v in (repos or {}).items()}\<close> on a dictionary with string keys.\<close>

definition safe_map :: "prims \<Rightarrow> pydict \<Rightarrow> pydict" where
  "safe_map P d = map (\<lambda>(k, v). (k, PStr (py_str P v))) d"

definition build_anchor_commit ::
  "prims \<Rightarrow> pydict \<Rightarrow> int option \<Rightarrow> string \<Rightarrow> pydict \<Rightarrow> pydict \<Rightarrow> pydict res" where
  "build_anchor_commit P parity parent_nexus_id parent_commit_id repos cached_states =
     bind_res (assert_uint32 parent_nexus_id ''parent_nexus_id'') (\<lambda>_.
       Inr [(''parity'', PDict parity), (''parent_nexus_id'', or_zero parent_nexus_id),
            (''parent_commit_id'', PStr parent_commit_id), (''repos'', PDict (safe_map P repos)),
            (''cached_states'', PDict (safe_map P cached_states))])"

definition build_inscribe_payload ::
  "int option \<Rightarrow> int option \<Rightarrow> string \<Rightarrow> string list \<Rightarrow> string list \<Rightarrow> int option \<Rightarrow> string list option \<Rightarrow> pydict res" where
  "build_inscribe_payload nexus_id parent_nexus_id parent_commit_id signers signatures threshold allowed_signers =
     bind_res (assert_uint32 nexus_id ''nexus_id'') (\<lambda>_.
     bind_res (assert_uint32 parent_nexus_id ''parent_nexus_id'') (\<lambda>_.
     bind_res (assert_uint32 threshold ''threshold'') (\<lambda>_.
       Inr [(''nexus_id'', opt_int nexus_id), (''parent_nexus_id'', opt_int parent_nexus_id),
            (''parent_commit_id'', PStr parent_commit_id), (''signers'', str_list signers),
            (''signatures'', str_list signatures), (''threshold'', opt_int threshold),
            (''allowed_signers'', case allowed_signers of None \<Rightarrow> PNone | Some a \<Rightarrow> str_list a)])))"

definition build_seal_epoch_payload ::
  "prims \<Rightarrow> pydict \<Rightarrow> int option \<Rightarrow> string \<Rightarrow> pydict \<Rightarrow> pydict \<Rightarrow> pyfloat \<Rightarrow> string list \<Rightarrow> string list
     \<Rightarrow> int option \<Rightarrow> string list option \<Rightarrow> pydict res" where
  "build_seal_epoch_payload P parity parent_nexus_id self_parent_state repos cached_states timestamp
       signers signatures threshold allowed_signers =
     bind_res (assert_uint32 parent_nexus_id ''parent_nexus_id'') (\<lambda>_.
     bind_res (assert_uint32 threshold ''threshold'') (\<lambda>_.
       Inr [(''parity'', PDict parity), (''parent_nexus_id'', opt_int parent_nexus_id),
            (''self_parent_state'', PStr self_parent_state), (''repos'', PDict (safe_map P repos)),
            (''cached_states'', PDict (safe_map P cached_states)), (''timestamp'', PFloat timestamp),
            (''signers'', str_list signers), (''signatures'', str_list signatures),
            (''threshold'', opt_int threshold),
            (''allowed_signers'', case allowed_signers of None \<Rightarrow> PNone | Some a \<Rightarrow> str_list a)]))"

definition valid_kinds :: "string list" where
  "valid_kinds = [''CORE'', ''SYMLINK'', ''ANCHOR'']"

definition build_trans_rule :: "string \<Rightarrow> string \<Rightarrow> string \<Rightarrow> pydict res" where
  "build_trans_rule src dest kind =
     (if kind \<notin> set valid_kinds
      then Inl (Exc ValueErr (''[Schema Error] Invalid NodeType '' @ kind))
      else Inr [(''src'', PStr src), (''dest'', PStr dest), (''kind'', PStr kind)])"

definition build_core_node :: "string \<Rightarrow> string \<Rightarrow> pydict \<Rightarrow> pydict" where
  "build_core_node name content children =
     [(''name'', PStr name), (''kind'', PStr ''CORE''), (''content'', PStr content),
      (''ref_target'', PNone), (''children'', PDict children)]"

definition build_symlink_node :: "string \<Rightarrow> string \<Rightarrow> pydict \<Rightarrow> pydict" where
  "build_symlink_node name ref_target children =
     [(''name'', PStr name), (''kind'', PStr ''SYMLINK''), (''content'', PNone),
      (''ref_target'', PStr ref_target), (''children'', PDict children)]"

definition build_evolution_context :: "pydict \<Rightarrow> pydict list \<Rightarrow> pydict" where
  "build_evolution_context phase_root external_rules =
     (let root = (if phase_root = [] \<or> \<not> dhas phase_root ''name'' \<or> \<not> dhas phase_root ''kind''
                  then build_core_node ''root'' ''default_empty_state'' phase_root
                  else phase_root)
      in [(''phase_root'', PDict root), (''external_rules'', PList (map PDict external_rules))])"

definition build_transition_payload :: "string \<Rightarrow> pydict \<Rightarrow> pydict \<Rightarrow> pydict" where
  "build_transition_payload intent_action intent_payload evolution_ctx =
     [(''intent_action'', PStr intent_action), (''intent_payload'', PDict intent_payload),
      (''evolution_ctx'', PDict evolution_ctx)]"

definition core_children :: "prims \<Rightarrow> pydict \<Rightarrow> pydict" where
  "core_children P d = map (\<lambda>(k, v). (k, PDict (build_core_node k (py_str P v) []))) d"

definition adapt_swarm_to_phase_root :: "prims \<Rightarrow> string \<Rightarrow> pydict \<Rightarrow> pydict" where
  "adapt_swarm_to_phase_root P commit_hash agents =
     build_core_node ''swarm_root'' commit_hash (core_children P agents)"

definition adapt_ecosystem_to_phase_root :: "string \<Rightarrow> string \<Rightarrow> pydict" where
  "adapt_ecosystem_to_phase_root epoch_state proposal_ipfs_hash =
     build_core_node ''ecosystem_root'' epoch_state
       [(''pending_proposal'', PDict (build_symlink_node ''pending_proposal'' proposal_ipfs_hash []))]"

definition adapt_provenance_to_phase_root :: "prims \<Rightarrow> string \<Rightarrow> pydict \<Rightarrow> pydict" where
  "adapt_provenance_to_phase_root P commit_hash repos =
     build_core_node ''provenance_root'' commit_hash (core_children P repos)"

section \<open>FsmAdapter\<close>

definition build_step_calldata :: "string \<Rightarrow> int \<Rightarrow> pydict \<Rightarrow> string list \<Rightarrow> pydict" where
  "build_step_calldata curr_node step_cost meta_ctx call_stack =
     [(''op'', PStr ''STEP''), (''curr_node'', PStr curr_node), (''step_cost'', PInt step_cost),
      (''meta_ctx'', PDict meta_ctx), (''call_stack'', str_list call_stack)]"

definition build_fork_calldata ::
  "string \<Rightarrow> int \<Rightarrow> pyfloat list option \<Rightarrow> pydict \<Rightarrow> string list \<Rightarrow> pydict" where
  "build_fork_calldata curr_node step_cost fuel_ratios meta_ctx call_stack =
     [(''op'', PStr ''FORK''), (''curr_node'', PStr curr_node), (''step_cost'', PInt step_cost),
      (''meta_ctx'', PDict meta_ctx), (''call_stack'', str_list call_stack)] @
     (case fuel_ratios of None \<Rightarrow> [] | Some rs \<Rightarrow> [(''fuel_ratios'', PList (map PFloat rs))])"

definition build_hitl_park_calldata :: "string \<Rightarrow> pydict \<Rightarrow> string list \<Rightarrow> pydict" where
  "build_hitl_park_calldata curr_node meta_ctx call_stack =
     [(''op'', PStr ''HITL_PARK''), (''curr_node'', PStr curr_node), (''step_cost'', PInt 0),
      (''meta_ctx'', PDict meta_ctx), (''call_stack'', str_list call_stack)]"

definition build_merge_calldata :: "string \<Rightarrow> pydict list \<Rightarrow> pydict" where
  "build_merge_calldata join_node arriving_cursors =
     [(''op'', PStr ''MERGE''), (''curr_node'', PStr join_node), (''step_cost'', PInt 0),
      (''arriving_cursors'', PList (map PDict arriving_cursors)), (''meta_ctx'', PDict []),
      (''call_stack'', PList [])]"

definition build_runtime_snapshot :: "pydict \<Rightarrow> pydict \<Rightarrow> pydict" where
  "build_runtime_snapshot branches barriers =
     [(''branches'', PDict branches), (''barriers'', PDict barriers)]"

definition build_catalog_snapshot :: "string list \<Rightarrow> pydict \<Rightarrow> pydict" where
  "build_catalog_snapshot valid_mcp_uris verified_subgraphs =
     [(''valid_mcp_uris'', str_list valid_mcp_uris), (''verified_subgraphs'', PDict verified_subgraphs)]"

definition build_fsm_payload :: "string \<Rightarrow> pyval \<Rightarrow> pydict \<Rightarrow> string \<Rightarrow> pydict" where
  "build_fsm_payload target_address calldata state_snapshot vm_target =
     [(''vm_target'', PStr vm_target), (''target_address'', PStr target_address),
      (''calldata'', calldata), (''state_snapshot'', PDict state_snapshot)]"

definition build_compile_payload :: "string \<Rightarrow> pydict \<Rightarrow> pydict \<Rightarrow> pydict" where
  "build_compile_payload trace_id compact_ir catalog_snapshot =
     build_fsm_payload trace_id (PDict compact_ir) catalog_snapshot ''FSM_COMPILE''"

text \<open>The reply of the interpreter: the outer JSON text, with an inner \<open>output\<close> text unpacked beside it.\<close>

definition parse_broker_output :: "prims \<Rightarrow> string \<Rightarrow> pyval" where
  "parse_broker_output P exec_result_output =
     (if exec_result_output = [] then PDict []
      else case p_loads P exec_result_output of
        None \<Rightarrow> PDict []
      | Some (PDict outer) \<Rightarrow>
          (case dget outer ''output'' of
             Some (PStr s) \<Rightarrow>
               PDict (dset ''parsed_output'' (case p_loads P s of None \<Rightarrow> PDict [] | Some v \<Rightarrow> v) outer)
           | _ \<Rightarrow> PDict outer)
      | Some v \<Rightarrow> v)"

section \<open>Every 32-bit field that leaves the adapter is in range\<close>

lemma assert_uint32_Inr: "assert_uint32 v n = Inr () \<longleftrightarrow> (\<forall>i. v = Some i \<longrightarrow> uint32 i)"
  by (auto simp: assert_uint32_def split: option.splits)

lemma assert_uint32_total: "\<exists>m. assert_uint32 v n = (if \<forall>i. v = Some i \<longrightarrow> uint32 i then Inr () else Inl (Exc ValueErr m))"
  by (auto simp: assert_uint32_def split: option.splits)

definition uint32_field :: "pydict \<Rightarrow> string \<Rightarrow> bool" where
  "uint32_field d k \<longleftrightarrow> (\<forall>i. dget d k = Some (PInt i) \<longrightarrow> uint32 i)"

lemmas builder_defs = build_topos_context_def build_parity_triplet_def build_parity_request_def
  build_repo_commit_def build_anchor_commit_def build_inscribe_payload_def build_seal_epoch_payload_def

lemma uint32_0: "uint32 0"
  by (simp add: uint32_def)

definition guarded :: "pydict res \<Rightarrow> string list \<Rightarrow> bool" where
  "guarded r ks =
     (case r of Inl e \<Rightarrow> kind_of_exc e = ValueErr | Inr d \<Rightarrow> list_all (uint32_field d) ks)"

lemma guarded_bind_assert:
  "((\<And>i. v = Some i \<Longrightarrow> uint32 i) \<Longrightarrow> guarded r ks) \<Longrightarrow> guarded (bind_res (assert_uint32 v n) (\<lambda>_. r)) ks"
  by (auto simp: assert_uint32_def guarded_def split: option.splits if_splits)


lemma build_trans_rule_kind:
  "build_trans_rule s t k = Inr r \<Longrightarrow> dget r ''kind'' = Some (PStr k) \<and> k \<in> {''CORE'', ''SYMLINK'', ''ANCHOR''}"
  by (auto simp: build_trans_rule_def valid_kinds_def split: if_splits)

text \<open>A context always carries a root node with a name and a kind, wrapping what lacks them.\<close>

lemma build_evolution_context_root:
  "\<exists>root. dget (build_evolution_context pr rs) ''phase_root'' = Some (PDict root) \<and>
     dhas root ''name'' \<and> dhas root ''kind''"
  by (auto simp: build_evolution_context_def build_core_node_def dhas_def Let_def)

text \<open>A parked branch is never charged.\<close>

lemma hitl_park_free: "dget (build_hitl_park_calldata n m c) ''step_cost'' = Some (PInt 0)"
  by (simp add: build_hitl_park_calldata_def)

text \<open>The reply parser gives back an inner document that was encoded by the same codec.\<close>

lemma parse_broker_output_roundtrip:
  assumes "p_loads P (p_dumps P (PDict outer)) = Some (PDict outer)"
    and "p_dumps P (PDict outer) \<noteq> []"
    and "dget outer ''output'' = Some (PStr (p_dumps P inner))"
    and "p_loads P (p_dumps P inner) = Some inner"
  shows "\<exists>d. parse_broker_output P (p_dumps P (PDict outer)) = PDict d \<and>
     dget d ''parsed_output'' = Some inner \<and>
     (\<forall>k. k \<noteq> ''parsed_output'' \<longrightarrow> dget d k = dget outer k)"
  using assms by (simp add: parse_broker_output_def)

end
