(* ===== verification/WasmVm.thy ===== *)
theory WasmVm
  imports StateAdapters
begin

text \<open>
  The WASM host side: resource policies (\<^verbatim>\<open>node/runtime/wasm/quota.py\<close>) and the FSM
  interpreter (\<^verbatim>\<open>state/inter/fsm.py\<close>): module cache, construction, the C-string reader,
  target resolution and the \<open>execute\<close> entry point. The \<open>wasmtime\<close> package is not part of
  the repository: loading a module, instantiating it and running \<open>execute_router\<close> on an
  input text are arguments.
\<close>

section \<open>Quota\<close>

datatype tier = STANDARD | SYSTEM | UNLIMITED

record quota_policy =
  max_memory_bytes :: int
  cpu_fuel_quota :: int
  tier_of :: tier

definition quota_standard :: quota_policy where
  "quota_standard = \<lparr>max_memory_bytes = 64 * 1024 * 1024, cpu_fuel_quota = 10000000, tier_of = STANDARD\<rparr>"

definition quota_system :: quota_policy where
  "quota_system = \<lparr>max_memory_bytes = 256 * 1024 * 1024, cpu_fuel_quota = 2000000000, tier_of = SYSTEM\<rparr>"

definition quota_custom :: "int \<Rightarrow> int \<Rightarrow> quota_policy" where
  "quota_custom mem_mb fuel = \<lparr>max_memory_bytes = mem_mb * 1024 * 1024, cpu_fuel_quota = fuel, tier_of = UNLIMITED\<rparr>"

text \<open>The store of an instance: its fuel (None when fuel cannot be read) and memory limit.\<close>

record vm_store =
  store_fuel :: "int option"
  store_memory_limit :: int

definition apply_to_store :: "quota_policy \<Rightarrow> vm_store \<Rightarrow> vm_store" where
  "apply_to_store pol st = st\<lparr>store_memory_limit := max_memory_bytes pol, store_fuel := Some (cpu_fuel_quota pol)\<rparr>"

definition inject_emergency_fuel :: "quota_policy \<Rightarrow> vm_store \<Rightarrow> int \<Rightarrow> (quota_policy \<times> vm_store) res" where
  "inject_emergency_fuel pol st additional_fuel =
     (case store_fuel st of
        None \<Rightarrow> Inl (Exc GenericErr ''WasmtimeError'')
      | Some current_fuel \<Rightarrow>
          Inr (pol\<lparr>cpu_fuel_quota := cpu_fuel_quota pol + additional_fuel\<rparr>,
               st\<lparr>store_fuel := Some (current_fuel + additional_fuel)\<rparr>))"

record vm_metrics =
  mem_usage_bytes :: int
  mem_limit_bytes :: int
  fuel_consumed :: int
  fuel_remaining :: int

definition inspect_metrics :: "quota_policy \<Rightarrow> vm_store \<Rightarrow> int \<Rightarrow> vm_metrics" where
  "inspect_metrics pol st pages =
     (let rem = (case store_fuel st of None \<Rightarrow> 0 | Some f \<Rightarrow> f)
      in \<lparr>mem_usage_bytes = pages * 65536, mem_limit_bytes = max_memory_bytes pol,
          fuel_consumed = cpu_fuel_quota pol - rem, fuel_remaining = rem\<rparr>)"

section \<open>Module cache and construction\<close>

record 'm module_cache =
  engine_ready :: bool
  modules :: "(string, 'm) dict"

definition get_cached_module ::
  "(string \<Rightarrow> bool) \<Rightarrow> (string \<Rightarrow> 'm res) \<Rightarrow> string \<Rightarrow> ('m module_cache, 'm) prog" where
  "get_cached_module path_exists from_file wasm_path c =
     (let c1 = c\<lparr>engine_ready := True\<rparr> in
      case dget (modules c1) wasm_path of
        Some m \<Rightarrow> (Inr m, c1)
      | None \<Rightarrow>
          if \<not> path_exists wasm_path
          then (Inl (Exc FileNotFoundErr (''WASM Artifact not found: '' @ wasm_path)), c1)
          else (case from_file wasm_path of
                  Inl e \<Rightarrow> (Inl e, c1)
                | Inr m \<Rightarrow> (Inr m, c1\<lparr>modules := dset wasm_path m (modules c1)\<rparr>)))"

text \<open>\<open>_ensure_engine_started\<close> on a fresh object: any exception is rewrapped as \<open>ExecutionError\<close>.
  \<open>instantiate\<close> stands for linking and for reading the three required exports.\<close>

definition ensure_engine_started ::
  "(string \<Rightarrow> bool) \<Rightarrow> (string \<Rightarrow> 'm res) \<Rightarrow> ('m \<Rightarrow> bool res) \<Rightarrow> string \<Rightarrow> ('m module_cache, 'm) prog" where
  "ensure_engine_started path_exists from_file instantiate wasm_path c =
     (case bindp (get_cached_module path_exists from_file wasm_path)
            (\<lambda>m. lift_res (bind_res (instantiate m) (\<lambda>exports_ok.
                   if exports_ok then Inr m
                   else Inl (Exc ExecutionErr (''fsm.wasm missing required exports: '' @ squote @ ''alloc'' @ squote @ '', '' @ squote @ ''dealloc'' @ squote @ '', or '' @
                      squote @ ''execute_router'' @ squote))))) c of
        (Inl e, c') \<Rightarrow> (Inl (Exc ExecutionErr (''Failed to initialize fsm.wasm engine: '' @ msg_of_exc e)), c')
      | (Inr m, c') \<Rightarrow> (Inr m, c'))"

definition fsm_interpreter_init ::
  "bool \<Rightarrow> (string \<Rightarrow> bool) \<Rightarrow> (string \<Rightarrow> 'm res) \<Rightarrow> ('m \<Rightarrow> bool res) \<Rightarrow> string \<Rightarrow> ('m module_cache, 'm) prog" where
  "fsm_interpreter_init has_wasmtime path_exists from_file instantiate wasm_path =
     (if \<not> has_wasmtime
      then raise (Exc ImportErr (''The '' @ squote @ ''wasmtime'' @ squote @ '' package is required. Please install it.''))
      else ensure_engine_started path_exists from_file instantiate wasm_path)"

section \<open>Reading a NUL-terminated string from linear memory\<close>

definition mem_read :: "char list \<Rightarrow> nat \<Rightarrow> nat \<Rightarrow> char list" where
  "mem_read mem start stop = take (stop - start) (drop start mem)"

definition NUL :: char where
  "NUL = CHR 0x00"

text \<open>\<open>chunk.find(b'\x00')\<close> and the bytes before it: None when there is no NUL in the chunk.\<close>

definition before_nul :: "char list \<Rightarrow> char list option" where
  "before_nul chunk = (if NUL \<in> set chunk then Some (takeWhile (\<lambda>c. c \<noteq> NUL) chunk) else None)"

partial_function (option) read_c_string :: "char list \<Rightarrow> nat \<Rightarrow> nat \<Rightarrow> char list \<Rightarrow> char list option" where
  "read_c_string mem chunk_size curr_ptr acc =
     (let chunk = mem_read mem curr_ptr (curr_ptr + chunk_size) in
      case before_nul chunk of
        Some s \<Rightarrow> Some (acc @ s)
      | None \<Rightarrow> read_c_string mem chunk_size (curr_ptr + chunk_size) (acc @ chunk))"

section \<open>Execute\<close>

record exec_result =
  er_success :: bool
  er_output :: "string option"
  er_error :: "exc option"

definition resolve_fsm_target :: "string \<Rightarrow> pydict \<Rightarrow> string" where
  "resolve_fsm_target vm_target calldata =
     (let t = upper vm_target in
      if t \<in> {''FSM_COMPILE'', ''FSM_STEP'', ''FSM_SANDBOX'', ''HOST_BRIDGE''} then t
      else if t = ''COMPILE'' then ''FSM_COMPILE''
      else if t = ''STEP'' then ''FSM_STEP''
      else if dhas calldata ''_m'' \<and> dhas calldata ''g'' then ''FSM_COMPILE''
      else if dhas calldata ''op'' \<and> dhas calldata ''curr_node'' then ''FSM_STEP''
      else ''FSM_STEP'')"

text \<open>\<open>str\<close> arguments are decoded when they hold JSON; what is not a dict in the end becomes empty.\<close>

definition sanitize_arg :: "prims \<Rightarrow> pyval \<Rightarrow> pydict" where
  "sanitize_arg P v =
     (let w = (case v of
                 PStr s \<Rightarrow> if strip s = [] then PStr s
                           else (case p_loads P s of None \<Rightarrow> PStr s | Some x \<Rightarrow> x)
               | x \<Rightarrow> x)
      in case w of PDict d \<Rightarrow> d | _ \<Rightarrow> [])"

definition fuel_limit_of :: "quota_policy \<Rightarrow> pydict \<Rightarrow> pydict \<Rightarrow> int res" where
  "fuel_limit_of pol context calldata =
     (let default_quota = (if tier_of pol = STANDARD then cpu_fuel_quota pol else 30000000)
      in py_int_of (dget_or context ''fuel'' (dget_or calldata ''fuel'' (PInt default_quota))))"

text \<open>The reply of the router, turned into an \<open>ExecutionResult\<close>.\<close>

definition decode_reply :: "prims \<Rightarrow> string \<Rightarrow> exec_result res" where
  "decode_reply P result_str =
     (case p_loads P result_str of
        None \<Rightarrow> Inl (Exc JsonDecodeErr ''Expecting value'')
      | Some v \<Rightarrow>
          bind_res (as_dict v) (\<lambda>result_data.
            bind_res (py_int_of (dget_or result_data ''gas_used'' (PInt 0))) (\<lambda>gas_used.
              (let success = truthy (dget_or result_data ''success'' (PBool False));
                   revert_reason = dget_or result_data ''revert_reason'' PNone;
                   response = PDict
                     [(''success'', PBool success), (''gas_used'', PInt gas_used),
                      (''state_root'', dget_or result_data ''state_root'' (PStr ''0x0'')),
                      (''output'', dget_or result_data ''output'' (PStr ''{}'')),
                      (''logs'', dget_or result_data ''logs'' (PList [])),
                      (''state_diff'', dget_or result_data ''state_diff'' (PDict [])),
                      (''revert_reason'', revert_reason)]
               in Inr \<lparr>er_success = success, er_output = Some (p_dumps P response),
                       er_error = (if success then None
                                   else Some (Exc ExecutionErr
                                     (if truthy revert_reason then py_str P revert_reason
                                      else ''FSM Execution Reverted'')))\<rparr>))))"

definition fsm_execute ::
  "prims \<Rightarrow> quota_policy \<Rightarrow> (string \<Rightarrow> string option res) \<Rightarrow> string \<Rightarrow> string \<Rightarrow> pyval \<Rightarrow> pyval \<Rightarrow> pyval \<Rightarrow> exec_result res" where
  "fsm_execute P pol router vm_target target_address calldata0 state_snapshot0 context0 =
     (let calldata = sanitize_arg P calldata0;
          state_snapshot = sanitize_arg P state_snapshot0;
          context = sanitize_arg P context0
      in bind_res (fuel_limit_of pol context calldata) (\<lambda>fuel_limit.
           (let inner_payload =
                  [(''target_address'', if target_address \<noteq> [] then PStr target_address
                                        else dget_or context ''stream_id'' (PStr ''root'')),
                   (''calldata'', PDict calldata), (''gas_limit'', PInt fuel_limit),
                   (''state_snapshot'', PDict state_snapshot)];
                unified_input = PDict [(''vm_target'', PStr (resolve_fsm_target vm_target calldata)),
                                       (''payload'', PDict inner_payload)];
                outcome = bind_res (router (p_dumps P unified_input)) (\<lambda>reply.
                  case reply of
                    None \<Rightarrow> Inl (Exc ExecutionErr ''WASM Execution returned null pointer.'')
                  | Some result_str \<Rightarrow> decode_reply P result_str)
            in case outcome of
                 Inr r \<Rightarrow> Inr r
               | Inl e \<Rightarrow> Inr \<lparr>er_success = False, er_output = None,
                                er_error = Some (Exc ExecutionErr (''fsm Fatal: '' @ msg_of_exc e))\<rparr>)))"

section \<open>Quota accounting\<close>

lemma metrics_balance:
  "fuel_consumed (inspect_metrics pol st pages) + fuel_remaining (inspect_metrics pol st pages)
     = cpu_fuel_quota pol"
  by (simp add: inspect_metrics_def Let_def)

lemma inject_keeps_consumed:
  "inject_emergency_fuel pol st a = Inr (pol', st') \<Longrightarrow>
     fuel_consumed (inspect_metrics pol' st' pages) = fuel_consumed (inspect_metrics pol st pages)"
  by (auto simp: inject_emergency_fuel_def inspect_metrics_def Let_def split: option.splits)

section \<open>Module cache\<close>

lemma get_cached_module_hit:
  "dget (modules c) w = Some m \<Longrightarrow> get_cached_module ex ff w c = (Inr m, c\<lparr>engine_ready := True\<rparr>)"
  by (simp add: get_cached_module_def Let_def)

lemma get_cached_module_once:
  assumes "get_cached_module ex ff w c = (Inr m, c')"
  shows "dget (modules c') w = Some m \<and> (\<forall>w'. w' \<noteq> w \<longrightarrow> dget (modules c') w' = dget (modules c) w')"
  using assms by (auto simp: get_cached_module_def Let_def split: option.splits if_splits sum.splits)

lemma get_cached_module_failure:
  "get_cached_module ex ff w c = (Inl e, c') \<Longrightarrow> modules c' = modules c"
  by (auto simp: get_cached_module_def Let_def split: option.splits if_splits sum.splits)

text \<open>A module is compiled at most once: after a successful load every later request for the same
  artifact returns the same module and leaves the cache unchanged, even if the file has been
  removed or would now load differently.\<close>

theorem module_compiled_once:
  assumes "get_cached_module ex ff w c = (Inr m, c')"
  shows "get_cached_module ex' ff' w c' = (Inr m, c')"
proof -
  have "dget (modules c') w = Some m" using get_cached_module_once [OF assms] by simp
  moreover have "engine_ready c'"
    using assms by (auto simp: get_cached_module_def Let_def split: option.splits if_splits sum.splits)
  ultimately show ?thesis by (simp add: get_cached_module_hit)
qed

theorem module_compiled_once_witness:
  "get_cached_module (\<lambda>_. False) (\<lambda>_. Inl (Exc GenericErr [])) ''fsm.wasm''
     \<lparr>engine_ready = True, modules = [(''fsm.wasm'', 7 :: nat)]\<rparr>
   = (Inr 7, \<lparr>engine_ready = True, modules = [(''fsm.wasm'', 7)]\<rparr>)"
proof -
  have "get_cached_module (\<lambda>_. True) (\<lambda>_. Inr 7) ''fsm.wasm'' \<lparr>engine_ready = False, modules = []\<rparr>
      = (Inr 7, \<lparr>engine_ready = True, modules = [(''fsm.wasm'', 7 :: nat)]\<rparr>)"
    by (simp add: get_cached_module_def)
  then show ?thesis by (rule module_compiled_once)
qed

text \<open>The constructor never lets \<open>FileNotFoundError\<close> through.\<close>

lemma init_error_kind:
  assumes "fsm_interpreter_init wt ex ff inst w c = (Inl e, c')"
  shows "kind_of_exc e = (if wt then ExecutionErr else ImportErr)"
  using assms
  by (auto simp: fsm_interpreter_init_def ensure_engine_started_def raise_def split: if_splits prod.splits sum.splits)

lemma init_missing_artifact:
  assumes "wt" "\<not> ex w" "dget (modules c) w = None"
  shows "\<exists>m. fsm_interpreter_init wt ex ff inst w c = (Inl (Exc ExecutionErr m), c\<lparr>engine_ready := True\<rparr>)"
  using assms
  by (simp add: fsm_interpreter_init_def ensure_engine_started_def get_cached_module_def bindp_def Let_def)

section \<open>The C-string reader\<close>

lemma takeWhile_take_hit:
  "x \<in> set (take n xs) \<Longrightarrow> takeWhile (\<lambda>c. c \<noteq> x) (take n xs) = takeWhile (\<lambda>c. c \<noteq> x) xs"
  using takeWhile_append1 [of x "take n xs" "\<lambda>c. c \<noteq> x" "drop n xs"] by simp

lemma takeWhile_take_miss:
  "x \<notin> set (take n xs) \<Longrightarrow>
     takeWhile (\<lambda>c. c \<noteq> x) xs = take n xs @ takeWhile (\<lambda>c. c \<noteq> x) (drop n xs)"
  using takeWhile_append2 [of "take n xs" "\<lambda>c. c \<noteq> x" "drop n xs"] by fastforce

lemma read_c_string_acc:
  assumes "0 < chunk_size" and "NUL \<in> set (drop ptr mem)"
  shows "read_c_string mem chunk_size ptr acc = Some (acc @ takeWhile (\<lambda>c. c \<noteq> NUL) (drop ptr mem))"
  using assms
proof (induction "length mem - ptr" arbitrary: ptr acc rule: less_induct)
  case less
  let ?rest = "drop ptr mem"
  have unf: "read_c_string mem chunk_size ptr acc =
      (case before_nul (take chunk_size ?rest) of
         Some s \<Rightarrow> Some (acc @ s)
       | None \<Rightarrow> read_c_string mem chunk_size (ptr + chunk_size) (acc @ take chunk_size ?rest))"
    by (subst read_c_string.simps) (simp add: mem_read_def Let_def)
  show ?case
  proof (cases "NUL \<in> set (take chunk_size ?rest)")
    case True
    then show ?thesis by (simp add: unf before_nul_def takeWhile_take_hit)
  next
    case False
    have nul: "NUL \<in> set (drop (ptr + chunk_size) mem)"
      using less.prems(2) False append_take_drop_id [of chunk_size ?rest]
      by (metis Un_iff add.commute drop_drop set_append)
    have "ptr < length mem"
    proof (rule ccontr)
      assume "\<not> ptr < length mem"
      with less.prems(2) show False by simp
    qed
    then have "length mem - (ptr + chunk_size) < length mem - ptr"
      using less.prems(1) by simp
    from less.hyps [OF this less.prems(1) nul] False show ?thesis
      using takeWhile_take_miss [OF False]
      by (simp add: unf before_nul_def add.commute)
  qed
qed

text \<open>C40. The chunked reader returns exactly the bytes from the pointer up to the first NUL, for every
  chunk size and wherever the string crosses chunk boundaries, and it always returns when
  there is a NUL at or after the pointer.\<close>

theorem read_c_string_correct:
  assumes "0 < chunk_size" and "NUL \<in> set (drop ptr mem)"
  shows "read_c_string mem chunk_size ptr [] = Some (takeWhile (\<lambda>c. c \<noteq> NUL) (drop ptr mem))"
  using read_c_string_acc [OF assms, of "[]"] by simp

theorem read_c_string_correct_witness:
  "read_c_string (''xxhello'' @ [NUL] @ ''zz'') 2 2 [] = Some ''hello''"
proof -
  have "(0::nat) < 2" "NUL \<in> set (drop 2 (''xxhello'' @ [NUL] @ ''zz''))" by (simp_all add: NUL_def)
  from read_c_string_correct [OF this] show ?thesis by (simp add: NUL_def)
qed

text \<open>Without a NUL up to the end of the memory the loop never leaves: reading past the end yields
  empty chunks for ever.\<close>

lemma read_c_string_no_nul:
  assumes "NUL \<notin> set (drop ptr mem)"
  shows "read_c_string mem chunk_size ptr acc = None"
proof -
  have "NUL \<in> set (drop p m)" if "read_c_string m n p a = Some r" for m n p a r
  proof (rule read_c_string.raw_induct [where P = "\<lambda>m n p a r. NUL \<in> set (drop p m)", OF _ that])
    fix f m n p a r
    assume IH: "\<And>m n p a r. f m n p a = Some r \<Longrightarrow> NUL \<in> set (drop p m)"
      and eq: "(let chunk = mem_read m p (p + n) in
         case before_nul chunk of Some s \<Rightarrow> Some (a @ s) | None \<Rightarrow> f m n (p + n) (a @ chunk)) = Some r"
    show "NUL \<in> set (drop p m)"
    proof (cases "before_nul (mem_read m p (p + n))")
      case None
      with eq have "NUL \<in> set (drop (p + n) m)" by (auto simp: Let_def dest: IH)
      then show ?thesis by (metis add.commute drop_drop in_set_dropD)
    next
      case (Some s)
      then show ?thesis by (auto simp: before_nul_def mem_read_def split: if_splits dest: in_set_takeD)
    qed
  qed
  with assms show ?thesis by (cases "read_c_string mem chunk_size ptr acc") auto
qed

section \<open>Execute never raises once the fuel limit is known\<close>

definition well_shaped :: "exec_result \<Rightarrow> bool" where
  "well_shaped r \<longleftrightarrow>
     (if er_success r then er_output r \<noteq> None \<and> er_error r = None
      else (case er_error r of Some e \<Rightarrow> kind_of_exc e = ExecutionErr | None \<Rightarrow> False))"

lemma decode_reply_shape: "decode_reply P t = Inr r \<Longrightarrow> well_shaped r"
  by (auto simp: decode_reply_def well_shaped_def bind_res_Inr Let_def split: option.splits if_splits)

text \<open>Once the fuel limit converts to an integer, \<open>execute\<close> returns a result for every behaviour of
  the router (trap, null pointer, malformed JSON, revert): a success carries an output and
  no error, and every failure carries an \<open>ExecutionError\<close>.\<close>

theorem fsm_execute_total:
  assumes "fuel_limit_of pol (sanitize_arg P ctx) (sanitize_arg P cd) = Inr fl"
  shows "\<exists>r. fsm_execute P pol router t addr cd snap ctx = Inr r \<and> well_shaped r"
proof -
  let ?fatal = "\<lambda>e. \<lparr>er_success = False, er_output = None,
         er_error = Some (Exc ExecutionErr (''fsm Fatal: '' @ msg_of_exc e))\<rparr>"
  let ?out = "\<lambda>x. bind_res (router x) (\<lambda>reply. case reply of
        None \<Rightarrow> Inl (Exc ExecutionErr ''WASM Execution returned null pointer.'')
      | Some result_str \<Rightarrow> decode_reply P result_str)"
  have ok: "well_shaped r" if "?out x = Inr r" for x r
    using that by (auto simp: bind_res_Inr intro: decode_reply_shape split: option.splits)
  have "\<exists>r. (case ?out x of Inr r \<Rightarrow> Inr r | Inl e \<Rightarrow> Inr (?fatal e)) = Inr r \<and> well_shaped r" for x
    by (cases "?out x") (simp_all add: ok, simp add: well_shaped_def)
  then show ?thesis
    unfolding fsm_execute_def Let_def assms bind_res_simps by blast
qed

definition sample_prims :: prims where
  "sample_prims = \<lparr>p_sha256 = id, p_canon = (\<lambda>_. ''x''), p_dumps = (\<lambda>_. ''{}''), p_loads = (\<lambda>_. Some (PDict [])),
     p_float_of_int = (\<lambda>i. Fin (of_int i)), p_float_of_str = (\<lambda>s. Inl (Exc ValueErr s)), p_repr = (\<lambda>_. ''?'')\<rparr>"

theorem fsm_execute_total_witness:
  "\<exists>r. fsm_execute sample_prims quota_standard (\<lambda>_. Inr None) ''STEP'' ''b'' (PDict []) (PDict []) (PDict []) = Inr r \<and>
     \<not> er_success r"
proof -
  have h: "fuel_limit_of quota_standard (sanitize_arg sample_prims (PDict [])) (sanitize_arg sample_prims (PDict []))
      = Inr 10000000"
    by (simp add: fuel_limit_of_def sanitize_arg_def quota_standard_def dget_or_def)
  obtain r where r: "fsm_execute sample_prims quota_standard (\<lambda>_. Inr None) ''STEP'' ''b'' (PDict []) (PDict []) (PDict []) = Inr r"
    using fsm_execute_total [OF h, of "\<lambda>_. Inr None" "''STEP''" "''b''" "PDict []"] by blast
  then have "\<not> er_success r" by (auto simp: fsm_execute_def h Let_def)
  with r show ?thesis by blast
qed

end
