(* ===== verification/FsmCompiler.thy ===== *)
theory FsmCompiler
  imports WasmVm
begin

text \<open>
  The ASL compiler, \<^verbatim>\<open>arch/xor/fsm/compiler.py\<close>: it reads a state-machine document, moves the
  heavy task data into a content-addressed pool, validates the graph and projects it to the
  compact form the runtime executes. The document is a dynamic value, so every access that
  can raise in Python is a branch here. Two things of the \<open>pydantic\<close> package are arguments:
  validating and dumping a \<open>VCRConfig\<close>, and dumping a free-form dictionary field; the types
  and bounds the sources declare on the other models are checked as declared.
\<close>

record pydantic =
  pd_vcr :: "pydict \<Rightarrow> pydict res"
  pd_dump :: "pydict \<Rightarrow> pydict"

section \<open>Choice rules\<close>

definition choice_ops :: "string list" where
  "choice_ops = [''>='', ''<='', ''!='', ''=='', ''>'', ''<'']"

text \<open>The first operator of the list that occurs anywhere, with the text around its first occurrence.\<close>

fun split_first_op :: "string list \<Rightarrow> string \<Rightarrow> (string \<times> string \<times> string) option" where
  "split_first_op [] s = None"
| "split_first_op (op # ops) s =
     (case split_once op s of Some (l, r) \<Rightarrow> Some (l, op, r) | None \<Rightarrow> split_first_op ops s)"

definition quote_chars :: string where
  "quote_chars = [CHR 0x27, CHR 0x22]"

definition normalize_if_expr :: "string \<Rightarrow> string" where
  "normalize_if_expr expr =
     (case split_first_op choice_ops expr of
        Some (lhs, op, rhs) \<Rightarrow> strip lhs @ op @ strip_set quote_chars (strip rhs)
      | None \<Rightarrow> strip expr)"

definition choice_keys :: "prims \<Rightarrow> pydict \<Rightarrow> string list" where
  "choice_keys P c =
     (case dget c ''Variable'' of
        Some v \<Rightarrow> [strip (py_str P v)]
      | None \<Rightarrow>
          (case dget c ''if'' of
             Some v \<Rightarrow>
               (case split_first_op choice_ops (normalize_if_expr (py_str P v)) of
                  Some (lhs, _, _) \<Rightarrow>
                    (let l = strip lhs in [if startswith l ''$.'' then l else ''$.'' @ l])
                | None \<Rightarrow> [])
           | None \<Rightarrow> []))"

definition state_choice_keys :: "prims \<Rightarrow> pyval \<Rightarrow> string list res" where
  "state_choice_keys P s =
     bind_res (as_dict s) (\<lambda>s_def.
       if dget s_def ''Type'' = Some (PStr ''Choice'') then
         bind_res (iter_val (dget_or s_def ''Choices'' (PList []))) (\<lambda>cs.
         bind_res (map_res as_dict cs) (\<lambda>ds. Inr (concat (map (choice_keys P) ds))))
       else Inr [])"

definition scan_choice_variables :: "prims \<Rightarrow> pydict \<Rightarrow> string list res" where
  "scan_choice_variables P states =
     bind_res (map_res (state_choice_keys P) (dvalues states)) (\<lambda>kss.
       Inr (sort (remdups (''$._score'' # concat kss))))"

fun first_asl_op :: "(string, string) dict \<Rightarrow> pydict \<Rightarrow> (string \<times> pyval) option" where
  "first_asl_op [] c = None"
| "first_asl_op ((asl, symb) # ops) c =
     (case dget c asl of Some v \<Rightarrow> Some (symb, v) | None \<Rightarrow> first_asl_op ops c)"

definition parse_choice_condition :: "prims \<Rightarrow> pydict \<Rightarrow> string" where
  "parse_choice_condition P choice =
     (case dget choice ''if'' of
        Some v \<Rightarrow> normalize_if_expr (py_str P v)
      | None \<Rightarrow>
          (let var = py_str P (dget_or choice ''Variable'' (PStr [])) in
           case first_asl_op ASL_CHOICE_OP_MAP choice of
             Some (symb, PBool b) \<Rightarrow> var @ symb @ (if b then ''true'' else ''false'')
           | Some (symb, v) \<Rightarrow> var @ symb @ py_str P v
           | None \<Rightarrow> var @ ''==''))"

section \<open>Models with declared types\<close>

fun check_str :: "pyval \<Rightarrow> string res" where
  "check_str (PStr s) = Inr s"
| "check_str v = Inl (Exc ValidationErr ''Input should be a valid string'')"

fun check_opt_str :: "pyval \<Rightarrow> string option res" where
  "check_opt_str PNone = Inr None"
| "check_opt_str (PStr s) = Inr (Some s)"
| "check_opt_str v = Inl (Exc ValidationErr ''Input should be a valid string'')"

fun unit_interval :: "pyfloat \<Rightarrow> bool" where
  "unit_interval (Fin r) = (0 \<le> r \<and> r \<le> 1)"
| "unit_interval f = False"

definition mk_attributes :: "string option \<Rightarrow> pyfloat \<Rightarrow> int \<Rightarrow> bool \<Rightarrow> agent_attributes res" where
  "mk_attributes ref pr mf ap =
     (if unit_interval pr \<and> 1 \<le> mf
      then Inr \<lparr>io_ref = ref, pressure = pr, max_failures = mf, allow_parallel = ap\<rparr>
      else Inl (Exc ValidationErr ''AgentAttributes''))"

definition mk_edge :: "pyval \<Rightarrow> edge_mode \<Rightarrow> string option \<Rightarrow> edge_relation res" where
  "mk_edge tgt mode cond =
     bind_res (check_str tgt) (\<lambda>t. Inr \<lparr>e_target = t, e_type = mode, e_condition = cond\<rparr>)"

fun add_new :: "'a list \<Rightarrow> 'a list \<Rightarrow> 'a list" where
  "add_new acc [] = acc"
| "add_new acc (x # xs) = add_new (if x \<in> set acc then acc else acc @ [x]) xs"

definition build_projection_config :: "pyval \<Rightarrow> string list \<Rightarrow> projection_config option res" where
  "build_projection_config proj_raw auto_keys =
     bind_res
       (case proj_raw of
          PDict p \<Rightarrow> bind_res (iter_val (dget_or p ''extract_keys'' (PList []))) (\<lambda>ks.
                       Inr (dget_or p ''offload_path'' PNone, add_new [] ks))
        | _ \<Rightarrow> Inr (PNone, []))
       (\<lambda>(offload_path, user_keys).
          (let merged = add_new user_keys (map PStr auto_keys) in
           if \<not> truthy offload_path \<and> merged = [] then Inr None
           else bind_res (check_opt_str offload_path) (\<lambda>op.
                bind_res (map_res check_str merged) (\<lambda>ks.
                  Inr (Some \<lparr>pc_offload_path = op, pc_extract_keys = ks\<rparr>)))))"

definition dump_projection :: "projection_config \<Rightarrow> pydict" where
  "dump_projection pc =
     (case pc_offload_path pc of None \<Rightarrow> [] | Some p \<Rightarrow> [(''offload_path'', PStr p)]) @
     (if pc_extract_keys pc = [] then [] else [(''extract_keys'', str_list (pc_extract_keys pc))])"

text \<open>\<open>TaskIOSpec(...).model_dump(exclude_none=True, exclude_defaults=True)\<close>.\<close>

definition dump_task_io ::
  "pydantic \<Rightarrow> string \<Rightarrow> string \<Rightarrow> pydict \<Rightarrow> pydict option \<Rightarrow> projection_config option \<Rightarrow> pydict \<Rightarrow> pydict" where
  "dump_task_io D uri result_path call_params vcr proj extras =
     (if uri = [] then [] else [(''resource_uri'', PStr uri)]) @
     (if result_path = ''$'' then [] else [(''result_path'', PStr result_path)]) @
     (if call_params = [] then [] else [(''call_params'', PDict (pd_dump D call_params))]) @
     (case vcr of None \<Rightarrow> [] | Some v \<Rightarrow> [(''vcr'', PDict v)]) @
     (case proj of None \<Rightarrow> [] | Some p \<Rightarrow> [(''projection'', PDict (dump_projection p))]) @
     (if extras = [] then [] else [(''extras'', PDict (pd_dump D extras))])"

fun extract_catch_target :: "pyval \<Rightarrow> pyval" where
  "extract_catch_target (PStr s) = (if strip s = [] then PNone else PStr (strip s))"
| "extract_catch_target (PList (PDict d # _)) = dget_or d ''Next'' PNone"
| "extract_catch_target (PDict d) = dget_or d ''Next'' PNone"
| "extract_catch_target _ = PNone"

section \<open>Building the fragment signature\<close>

type_synonym cas_pool = "(string, pydict) dict"

definition inscribe_blob :: "prims \<Rightarrow> pydict \<Rightarrow> string \<Rightarrow> cas_pool \<Rightarrow> string \<times> cas_pool" where
  "inscribe_blob P data pfx pool =
     (let ptr = pfx @ take 16 (p_sha256 P (p_canon P (PDict data))) in (ptr, dset ptr data pool))"

definition inscribe_io :: "prims \<Rightarrow> pydict \<Rightarrow> cas_pool \<Rightarrow> string option \<times> cas_pool" where
  "inscribe_io P io_spec pl =
     (if io_spec = [] then (None, pl)
      else case inscribe_blob P io_spec CAS_PREFIX pl of (p, pl') \<Rightarrow> (Some p, pl'))"

fun uri_text :: "pyval \<Rightarrow> string res" where
  "uri_text (PStr s) = Inr s"
| "uri_text v = (if truthy v then Inl (Exc AttributeErr ''object has no attribute strip'') else Inr [])"

definition next_edges :: "pydict \<Rightarrow> edge_relation list res" where
  "next_edges state_def =
     (case dget state_def ''Next'' of
        None \<Rightarrow> Inr []
      | Some (PList ts) \<Rightarrow> map_res (\<lambda>t. mk_edge t DIRECT None) ts
      | Some t \<Rightarrow> map_res (\<lambda>t. mk_edge t DIRECT None) [t])"

definition catch_edges :: "pydict \<Rightarrow> edge_relation list res" where
  "catch_edges state_def =
     (let fb = extract_catch_target (dget_or state_def ''Catch'' PNone) in
      if truthy fb then map_res (\<lambda>t. mk_edge t FALLBACK None) [fb] else Inr [])"

text \<open>\<open>dict(v)\<close>: a copy of a dictionary, or one built from a sequence of pairs.\<close>

definition pair_of :: "pyval \<Rightarrow> (string \<times> pyval) res" where
  "pair_of v = bind_res (iter_val v) (\<lambda>kv. case kv of
       [PStr k, x] \<Rightarrow> Inr (k, x)
     | _ \<Rightarrow> Inl (Exc ValueErr ''dictionary update sequence element''))"

fun dict_of :: "pyval \<Rightarrow> pydict res" where
  "dict_of (PDict d) = Inr d"
| "dict_of v = bind_res (iter_val v) (\<lambda>xs. bind_res (map_res pair_of xs) (\<lambda>ps. Inr (dmerge [] ps)))"

definition dpop :: "pydict \<Rightarrow> string \<Rightarrow> pyval \<Rightarrow> pyval" where
  "dpop d k v = dget_or d k v"

text \<open>Inscribing the I/O specification, then the attributes and the edges.\<close>

definition seal_task ::
  "prims \<Rightarrow> string \<Rightarrow> pydict \<Rightarrow> node_type \<Rightarrow> pyfloat \<Rightarrow> int \<Rightarrow> bool \<Rightarrow> pydict \<Rightarrow> cas_pool
     \<Rightarrow> (fragment \<times> cas_pool) res" where
  "seal_task P state_name state_def kind pr mf ap io_spec pool =
     (case inscribe_io P io_spec pool of (ref, pool') \<Rightarrow>
      bind_res (mk_attributes ref pr mf ap) (\<lambda>attrs.
      bind_res (next_edges state_def) (\<lambda>nx.
      bind_res (catch_edges state_def) (\<lambda>fb.
        Inr (\<lparr>frag_id = state_name, frag_type = kind, attributes = attrs, relations = nx @ fb\<rparr>, pool')))))"

text \<open>A Task state: its fragment and the pool with its I/O specification inscribed.\<close>

definition task_fragment ::
  "prims \<Rightarrow> pydantic \<Rightarrow> string list \<Rightarrow> string \<Rightarrow> pydict \<Rightarrow> cas_pool \<Rightarrow> (fragment \<times> cas_pool) res" where
  "task_fragment P D auto_keys state_name state_def pool =
     (let uri_val = dget_or state_def ''Resource'' (PStr []) in
      bind_res (uri_text uri_val) (\<lambda>uri.
      (let parsed = parse_resource_uri uri in
      bind_res (dict_of (dget_or state_def ''Parameters'' (PDict []))) (\<lambda>params0.
      (let params1 = (case model_hint parsed of
                        Some m \<Rightarrow> if dhas params0 ''model'' then params0 else dset ''model'' (PStr m) params0
                      | None \<Rightarrow> params0) in
      bind_res (dict_of (dpop params1 ''__fiber_extensions'' (PDict []))) (\<lambda>ext.
      (let raw_params = ddel ''__fiber_extensions'' params1;
           vcr_raw = dpop ext ''VCR'' PNone;
           proj_raw = dpop ext ''Projection'' PNone;
           extras = ddel ''allow_parallel'' (ddel ''max_failures'' (ddel ''pressure''
                      (ddel ''Projection'' (ddel ''VCR'' ext)))) in
      bind_res (py_float_of P (dpop ext ''pressure'' (PFloat (Fin 0)))) (\<lambda>pr.
      bind_res (py_int_of (dpop ext ''max_failures'' (PInt 3))) (\<lambda>mf.
      (let ap = truthy (dpop ext ''allow_parallel'' (PBool False)) in
      bind_res (build_projection_config proj_raw auto_keys) (\<lambda>proj.
      bind_res (case vcr_raw of PDict v \<Rightarrow> bind_res (pd_vcr D v) (\<lambda>x. Inr (Some x)) | _ \<Rightarrow> Inr None) (\<lambda>vcr.
      bind_res (check_str uri_val) (\<lambda>uri'.
      bind_res (check_str (dget_or state_def ''ResultPath'' (PStr ''$''))) (\<lambda>rp.
        seal_task P state_name state_def (node_kind parsed) pr mf ap
          (dump_task_io D uri' rp raw_params vcr proj extras) pool))))))))))))))"

definition choice_edge :: "prims \<Rightarrow> pyval \<Rightarrow> edge_relation res" where
  "choice_edge P c =
     bind_res (as_dict c) (\<lambda>choice.
       (let cond = parse_choice_condition P choice in
        case dget choice ''Next'' of
          None \<Rightarrow> Inl (Exc KeyErr ''Next'')
        | Some t \<Rightarrow> mk_edge t CONDITIONAL (Some cond)))"

definition choice_fragment :: "prims \<Rightarrow> string \<Rightarrow> pydict \<Rightarrow> fragment res" where
  "choice_fragment P state_name state_def =
     bind_res (iter_val (dget_or state_def ''Choices'' (PList []))) (\<lambda>cs.
     bind_res (map_res (choice_edge P) cs) (\<lambda>es.
     bind_res (case dget state_def ''Default'' of
                 None \<Rightarrow> Inr [] | Some t \<Rightarrow> map_res (\<lambda>t. mk_edge t DIRECT None) [t]) (\<lambda>ds.
       Inr \<lparr>frag_id = state_name, frag_type = ROUTER, attributes = default_attributes,
            relations = es @ ds\<rparr>)))"

definition end_fragment :: "string \<Rightarrow> fragment" where
  "end_fragment state_name =
     \<lparr>frag_id = state_name, frag_type = ACT, attributes = default_attributes,
      relations = [\<lparr>e_target = END_TOKEN, e_type = DIRECT, e_condition = None\<rparr>]\<rparr>"

definition add_state ::
  "prims \<Rightarrow> pydantic \<Rightarrow> string list \<Rightarrow> string \<times> pyval \<Rightarrow> (string, fragment) dict \<times> cas_pool
     \<Rightarrow> ((string, fragment) dict \<times> cas_pool) res" where
  "add_state P D auto_keys st acc =
     (case st of (name, v) \<Rightarrow> (case acc of (ns, pool) \<Rightarrow>
        bind_res (as_dict v) (\<lambda>state_def.
          (let ty = dget_or state_def ''Type'' PNone in
           if ty = PStr ''Task'' then
             bind_res (task_fragment P D auto_keys name state_def pool) (\<lambda>(f, pool').
               Inr (dset name f ns, pool'))
           else if ty = PStr ''Choice'' then
             bind_res (choice_fragment P name state_def) (\<lambda>f. Inr (dset name f ns, pool))
           else if ty = PStr ''Succeed'' \<or> ty = PStr ''Fail'' then
             Inr (dset name (end_fragment name) ns, pool)
           else Inr (ns, pool)))))"

fun add_states ::
  "prims \<Rightarrow> pydantic \<Rightarrow> string list \<Rightarrow> pydict \<Rightarrow> (string, fragment) dict \<times> cas_pool
     \<Rightarrow> ((string, fragment) dict \<times> cas_pool) res" where
  "add_states P D auto_keys [] acc = Inr acc"
| "add_states P D auto_keys (st # sts) acc =
     bind_res (add_state P D auto_keys st acc) (add_states P D auto_keys sts)"

definition bad_edges :: "fragment_sig \<Rightarrow> (string \<times> string) list" where
  "bad_edges sig =
     concat (map (\<lambda>(fid, f). map (\<lambda>e. (fid, e_target e))
       (filter (\<lambda>e. \<not> is_external_or_terminal e \<and> \<not> dhas (nodes sig) (e_target e)) (relations f))) (nodes sig))"

definition validate_phase :: "fragment_sig \<Rightarrow> unit res" where
  "validate_phase sig =
     (if \<not> dhas (nodes sig) (entry_point sig)
      then Inl (Exc ValueErr (''Entry point '' @ squote @ entry_point sig @ squote @ '' is missing in nodes.''))
      else case bad_edges sig of
        [] \<Rightarrow> Inr ()
      | (fid, tgt) # _ \<Rightarrow>
          Inl (Exc ValueErr (''Fragment '' @ squote @ fid @ squote @ '' points to unknown target '' @
                             squote @ tgt @ squote @ ''.'')))"

definition build_fragment_sig :: "prims \<Rightarrow> pydantic \<Rightarrow> pydict \<Rightarrow> string \<Rightarrow> (fragment_sig \<times> cas_pool) res" where
  "build_fragment_sig P D asl_schema trace_id =
     bind_res (as_dict (dget_or asl_schema ''States'' (PDict []))) (\<lambda>states.
     bind_res (scan_choice_variables P states) (\<lambda>auto_keys.
     bind_res (check_str (dget_or asl_schema ''StartAt'' (PStr ''unknown_entry''))) (\<lambda>start_at.
     bind_res (add_states P D auto_keys states ([], [])) (\<lambda>(ns, pool).
       (let sig = \<lparr>entry_point = start_at, nodes = ns,
                   sig_meta = [(K_TRACE, PStr trace_id),
                               (K_VERSION, dget_or asl_schema ''Version'' (PStr ''1.0''))]\<rparr>
        in bind_res (validate_phase sig) (\<lambda>_. Inr (sig, pool)))))))"

section \<open>Projection to the compact graph\<close>

definition dump_attributes :: "agent_attributes \<Rightarrow> pydict" where
  "dump_attributes a =
     (case io_ref a of None \<Rightarrow> [] | Some r \<Rightarrow> [(''io_ref'', PStr r)]) @
     (if pressure a = Fin 0 then [] else [(''pressure'', PFloat (pressure a))]) @
     (if max_failures a = 3 then [] else [(''max_failures'', PInt (max_failures a))]) @
     (if allow_parallel a then [(''allow_parallel'', PBool True)] else [])"

definition edges_of :: "edge_mode \<Rightarrow> fragment \<Rightarrow> edge_relation list" where
  "edges_of m f = filter (\<lambda>e. e_type e = m) (relations f)"

definition project_spec :: "fragment \<Rightarrow> pydict" where
  "project_spec f =
     (let attrs = dump_attributes (attributes f);
          cond_edges = edges_of CONDITIONAL f;
          direct_edges = edges_of DIRECT f;
          fallback_edges = edges_of FALLBACK f
      in [(K_TYPE, PStr (node_type_value (frag_type f)))] @
         (if attrs = [] then [] else [(K_ATTRS, PDict attrs)]) @
         (case fallback_edges of [] \<Rightarrow> [] | e # _ \<Rightarrow> [(K_FALLBACK, PStr (e_target e))]) @
         (if frag_type f = ROUTER then
            [(K_RULES, PList (map (\<lambda>e. PDict [(K_IF_COND, opt_str (e_condition e)), (K_NEXT, PStr (e_target e))])
                cond_edges)),
             (K_DEFAULT_NEXT, PStr (case direct_edges of [] \<Rightarrow> END_TOKEN | e # _ \<Rightarrow> e_target e))]
          else
            [(K_NEXT, case direct_edges of
                        [] \<Rightarrow> PStr END_TOKEN
                      | [e] \<Rightarrow> PStr (e_target e)
                      | es \<Rightarrow> str_list (map e_target es))]))"

definition project_compact_blob :: "fragment_sig \<Rightarrow> pydict" where
  "project_compact_blob sig =
     [(K_META, PDict (dmerge [(K_ENTRY, PStr (entry_point sig))] (sig_meta sig))),
      (K_GRAPH, PDict (map (\<lambda>(fid, f). (fid, PDict (project_spec f))) (nodes sig)))]"

section \<open>Compilation\<close>

record 'm fsm_compiler =
  byte_limit :: int
  use_wasm_linker :: bool
  pool :: cas_pool
  module_state :: "'m module_cache"

record 'm vm_env =
  has_wasmtime :: bool
  path_exists :: "string \<Rightarrow> bool"
  from_file :: "string \<Rightarrow> 'm res"
  instantiate :: "'m \<Rightarrow> bool res"
  router :: "'m \<Rightarrow> string \<Rightarrow> string option res"

definition finalize_bundle_from_wasm :: "prims \<Rightarrow> string \<Rightarrow> ('m fsm_compiler, compiled_bundle) prog" where
  "finalize_bundle_from_wasm P wasm_output_str fc =
     (case parse_broker_output P wasm_output_str of
        PDict parsed \<Rightarrow>
          if \<not> truthy (dget_or parsed ''success'' (PBool False)) then
            (let rr = dget_or parsed ''revert_reason'' PNone in
             case (if truthy rr then rr else PStr ''Unknown WASM Compile Error'') of
               PStr reason \<Rightarrow>
                 (Inl (if contains reason ''E_BLOB_OVERFLOW'' then Exc OverflowErr reason
                       else Exc ValueErr (''[FSM Static Sandbox Rejected] '' @ reason)), fc)
             | _ \<Rightarrow> (Inl (Exc TypeErr ''revert_reason is not a string''), fc))
          else
            (case (dget parsed ''state_root'', dget_or parsed ''state_diff'' (PDict []),
                   dget_or parsed ''parsed_output'' (PDict [])) of
               (Some (PStr rh), PDict state_diff, PDict inner_out) \<Rightarrow>
                 (case map_res (\<lambda>(k, v). bind_res (as_dict v) (\<lambda>d. Inr (k, d))) state_diff of
                    Inl e \<Rightarrow> (Inl e, fc)
                  | Inr diff \<Rightarrow>
                      (let fc1 = fc\<lparr>pool := dmerge (pool fc) diff\<rparr>;
                           root = dget_or diff rh [];
                           raw_len = int (length (p_canon P (PDict root)))
                       in case py_int_of (dget_or inner_out ''total_root_bytes'' (PInt raw_len)) of
                            Inl e \<Rightarrow> (Inl e, fc1)
                          | Inr total_bytes \<Rightarrow>
                              if total_bytes > byte_limit fc1
                              then (Inl (Exc OverflowErr (''Compiled FSM graph ('' @ show_int total_bytes @ ''B) exceeds '' @
                                     show_int (byte_limit fc1) @ ''B limit.'')), fc1)
                              else (Inr \<lparr>root_hash = rh, root_blob = root, cas_store = pool fc1,
                                         total_root_bytes = total_bytes\<rparr>, fc1)))
             | (None, _, _) \<Rightarrow> (Inl (Exc KeyErr ''state_root''), fc)
             | _ \<Rightarrow> (Inl (Exc AttributeErr ''malformed compile result''), fc))
      | _ \<Rightarrow> (Inl (Exc AttributeErr ''object has no attribute get''), fc))"

definition fallback_python_compile :: "prims \<Rightarrow> pydict \<Rightarrow> ('m fsm_compiler, compiled_bundle) prog" where
  "fallback_python_compile P raw_ir fc =
     (let n = int (length (p_canon P (PDict raw_ir))) in
      if n > byte_limit fc
      then (Inl (Exc OverflowErr (''Compiled FSM graph ('' @ show_int n @ ''B) exceeds '' @
                show_int (byte_limit fc) @ ''B limit. Modularize sub-branches via '' @ squote @
                BRANCH_PREFIX @ ''<hash>'' @ squote @ '' targets.'')), fc)
      else (case inscribe_blob P raw_ir BRANCH_PREFIX (pool fc) of (rh, pl) \<Rightarrow>
              (Inr \<lparr>root_hash = rh, root_blob = raw_ir, cas_store = pl, total_root_bytes = n\<rparr>,
               fc\<lparr>pool := pl\<rparr>)))"

definition compile_via_wasm ::
  "prims \<Rightarrow> 'm vm_env \<Rightarrow> pydict \<Rightarrow> string \<Rightarrow> ('m fsm_compiler, compiled_bundle) prog" where
  "compile_via_wasm P V raw_ir trace_id fc =
     (case fsm_interpreter_init (has_wasmtime V) (path_exists V) (from_file V) (instantiate V) ''fsm.wasm''
             (module_state fc) of
        (Inl e, ms) \<Rightarrow> (Inl e, fc\<lparr>module_state := ms\<rparr>)
      | (Inr m, ms) \<Rightarrow>
          (case fsm_execute P quota_system (router V m) ''FSM_COMPILE'' trace_id (PDict raw_ir) (PDict [])
                  (PDict [(''fuel'', PInt 2000)]) of
             Inl e \<Rightarrow> (Inl e, fc\<lparr>module_state := ms\<rparr>)
           | Inr res \<Rightarrow>
               (case er_output res of
                  Some (c # out) \<Rightarrow> finalize_bundle_from_wasm P (c # out) (fc\<lparr>module_state := ms\<rparr>)
                | _ \<Rightarrow> (Inl (Exc ValueErr (''FSM WASM Compile Failed: '' @
                           (case er_error res of None \<Rightarrow> ''None'' | Some e \<Rightarrow> msg_of_exc e))),
                         fc\<lparr>module_state := ms\<rparr>))))"

definition compile_from_asl ::
  "prims \<Rightarrow> pydantic \<Rightarrow> 'm vm_env \<Rightarrow> pydict \<Rightarrow> string \<Rightarrow> ('m fsm_compiler, compiled_bundle) prog" where
  "compile_from_asl P D V asl_schema trace_id fc0 =
     (case build_fragment_sig P D asl_schema trace_id of
        Inl e \<Rightarrow> (Inl e, fc0\<lparr>pool := []\<rparr>)
      | Inr (sig, pl) \<Rightarrow>
          (let fc = fc0\<lparr>pool := pl\<rparr>; raw_ir = project_compact_blob sig in
           if use_wasm_linker fc \<and> byte_limit fc = MAX_BLOB_BYTES then
             (case compile_via_wasm P V raw_ir trace_id fc of
                (Inl e, fc') \<Rightarrow>
                  if kind_of_exc e \<in> {FileNotFoundErr, ImportErr}
                  then fallback_python_compile P raw_ir fc' else (Inl e, fc')
              | r \<Rightarrow> r)
           else fallback_python_compile P raw_ir fc))"

definition acompile_from_asl ::
  "prims \<Rightarrow> pydantic \<Rightarrow> (pydict \<Rightarrow> exec_result res) \<Rightarrow> pydict \<Rightarrow> string \<Rightarrow> ('m fsm_compiler, compiled_bundle) prog" where
  "acompile_from_asl P D broker asl_schema trace_id fc0 =
     (case build_fragment_sig P D asl_schema trace_id of
        Inl e \<Rightarrow> (Inl e, fc0\<lparr>pool := []\<rparr>)
      | Inr (sig, pl) \<Rightarrow>
          (let fc = fc0\<lparr>pool := pl\<rparr> in
           case broker (build_compile_payload trace_id (project_compact_blob sig) []) of
             Inl e \<Rightarrow> (Inl e, fc)
           | Inr res \<Rightarrow>
               (case er_output res of
                  Some (c # out) \<Rightarrow> finalize_bundle_from_wasm P (c # out) fc
                | _ \<Rightarrow> (Inl (Exc ValueErr (''FSM Broker Compile Failed: '' @
                           (case er_error res of None \<Rightarrow> ''None'' | Some e \<Rightarrow> msg_of_exc e))), fc))))"

section \<open>What a compiled graph promises\<close>

text \<open>The targets a compact node names, as the runtime reads them.\<close>

fun target_list :: "pyval \<Rightarrow> string list" where
  "target_list (PStr s) = [s]"
| "target_list (PList vs) = concat (map target_list vs)"
| "target_list (PDict d) = (case dget d K_NEXT of Some (PStr s) \<Rightarrow> [s] | _ \<Rightarrow> [])"
| "target_list v = []"

definition spec_targets :: "pydict \<Rightarrow> string list" where
  "spec_targets spec =
     concat (map (\<lambda>k. target_list (dget_or spec k PNone)) [K_NEXT, K_RULES, K_DEFAULT_NEXT, K_FALLBACK])"

definition closed_blob :: "pydict \<Rightarrow> bool" where
  "closed_blob blob =
     (case (dget_or blob K_META PNone, dget_or blob K_GRAPH PNone) of
        (PDict m, PDict g) \<Rightarrow>
          (case dget_or m K_ENTRY PNone of PStr e \<Rightarrow> dhas g e | _ \<Rightarrow> False) \<and>
          list_all (\<lambda>(n, v). case v of
              PDict spec \<Rightarrow> list_all (\<lambda>t. external_or_terminal t \<or> dhas g t) (spec_targets spec)
            | _ \<Rightarrow> False) g
      | _ \<Rightarrow> False)"

lemma target_list_strs [simp]: "target_list (str_list xs) = xs"
  by (induction xs) (auto simp: str_list_def)

lemma target_list_rules:
  "concat (map (target_list \<circ> (\<lambda>e. PDict [(K_IF_COND, opt_str (e_condition e)), (K_NEXT, PStr (e_target e))])) es) =
     map e_target es"
  by (induction es) (auto simp: compact_keys)

lemma edges_of_sub: "e \<in> set (edges_of m f) \<Longrightarrow> e \<in> set (relations f)"
  by (simp add: edges_of_def)

lemma dget_or_Cons: "dget_or ((a, b) # d) k v = (if k = a then b else dget_or d k v)"
  by (simp add: dget_or_def)

lemma dget_or_Nil: "dget_or [] k v = v"
  by (simp add: dget_or_def)

lemmas key_eval = compact_keys dget_or_Cons dget_or_Nil

lemma hd_in_edges: "edges_of m f = e # es \<Longrightarrow> e \<in> set (relations f)"
  by (metis edges_of_sub list.set_intros(1))

lemma spec_targets_project:
  assumes "t \<in> set (spec_targets (project_spec f))"
  shows "t = END_TOKEN \<or> t \<in> e_target ` set (relations f)"
proof -
  have spec: "set (spec_targets (project_spec f)) \<subseteq>
      {END_TOKEN} \<union> e_target ` (set (edges_of CONDITIONAL f) \<union> set (edges_of DIRECT f) \<union> set (edges_of FALLBACK f))"
    by (cases "edges_of FALLBACK f"; cases "edges_of DIRECT f";
        cases "tl (edges_of DIRECT f)")
      (auto simp: spec_targets_def project_spec_def Let_def key_eval target_list_rules [unfolded compact_keys]
        split: list.splits if_splits)
  with assms show ?thesis using edges_of_sub by fastforce
qed

lemma validate_phase_Inr:
  assumes "validate_phase sig = Inr ()"
  shows "dhas (nodes sig) (entry_point sig)"
    and "(n, f) \<in> set (nodes sig) \<Longrightarrow> e \<in> set (relations f) \<Longrightarrow>
           external_or_terminal (e_target e) \<or> dhas (nodes sig) (e_target e)"
proof -
  from assms show "dhas (nodes sig) (entry_point sig)"
    by (auto simp: validate_phase_def split: if_splits)
  from assms have "bad_edges sig = []"
    by (auto simp: validate_phase_def split: if_splits list.splits prod.splits)
  then show "external_or_terminal (e_target e) \<or> dhas (nodes sig) (e_target e)"
    if "(n, f) \<in> set (nodes sig)" "e \<in> set (relations f)"
    using that by (fastforce simp: bad_edges_def filter_empty_conv is_external_or_terminal_def)
qed

lemma dhas_map_snd: "dhas (map (\<lambda>(k, v). (k, h v)) d) k \<longleftrightarrow> dhas d k"
  by (induction d) (auto simp: dhas_def)

lemma closed_project:
  assumes v: "validate_phase sig = Inr ()" and m: "dget (rev (sig_meta sig)) K_ENTRY = None"
  shows "closed_blob (project_compact_blob sig)"
proof -
  let ?g = "map (\<lambda>(fid, f). (fid, PDict (project_spec f))) (nodes sig)"
  have ent: "dget_or (dmerge [(K_ENTRY, PStr (entry_point sig))] (sig_meta sig)) K_ENTRY PNone = PStr (entry_point sig)"
    using m by (simp add: dget_or_def dget_dmerge)
  have tgt: "external_or_terminal t \<or> dhas ?g t"
    if "(n, f) \<in> set (nodes sig)" "t \<in> set (spec_targets (project_spec f))" for n f t
    using spec_targets_project [OF that(2)] validate_phase_Inr(2) [OF v that(1)]
    by (auto simp: dhas_map_snd external_or_terminal_def)
  show ?thesis
    using ent tgt validate_phase_Inr(1) [OF v]
    by (auto simp: closed_blob_def project_compact_blob_def dget_or_Cons dhas_map_snd list_all_iff
        K_META_def K_GRAPH_def split: prod.splits)
qed

text \<open>
  The pool is content-addressed: an entry is stored under the digest of its own canonical
  text, and every reference a fragment carries has an entry.
\<close>

definition cas_ok :: "prims \<Rightarrow> cas_pool \<Rightarrow> bool" where
  "cas_ok P pl \<longleftrightarrow>
     (\<forall>(k, d) \<in> set pl. \<exists>pfx \<in> {CAS_PREFIX, BRANCH_PREFIX}.
        k = pfx @ take 16 (p_sha256 P (p_canon P (PDict d))))"

definition refs_ok :: "(string, fragment) dict \<Rightarrow> cas_pool \<Rightarrow> bool" where
  "refs_ok ns pl \<longleftrightarrow>
     (\<forall>(n, f) \<in> set ns. case io_ref (attributes f) of None \<Rightarrow> True | Some r \<Rightarrow> dhas pl r)"

lemma cas_ok_inscribe:
  "cas_ok P pl \<Longrightarrow> pfx \<in> {CAS_PREFIX, BRANCH_PREFIX} \<Longrightarrow> inscribe_blob P d pfx pl = (r, pl') \<Longrightarrow> cas_ok P pl'"
  using set_dset by (fastforce simp: cas_ok_def inscribe_blob_def Let_def)

lemma inscribe_blob_get:
  "inscribe_blob P d pfx pl = (r, pl') \<Longrightarrow>
     dget pl' r = Some d \<and> (\<forall>k. dhas pl k \<longrightarrow> dhas pl' k)"
  by (auto simp: inscribe_blob_def Let_def)

lemma refs_ok_mono: "refs_ok ns pl \<Longrightarrow> (\<And>k. dhas pl k \<Longrightarrow> dhas pl' k) \<Longrightarrow> refs_ok ns pl'"
  by (fastforce simp: refs_ok_def split: option.splits)

lemma refs_ok_dset:
  "refs_ok ns pl \<Longrightarrow> (case io_ref (attributes f) of None \<Rightarrow> True | Some r \<Rightarrow> dhas pl r) \<Longrightarrow> refs_ok (dset n f ns) pl"
  using set_dset [of n f ns] by (fastforce simp: refs_ok_def)

lemma mk_attributes_io: "mk_attributes ref pr mf ap = Inr a \<Longrightarrow> io_ref a = ref"
  by (auto simp: mk_attributes_def split: if_splits)

lemma task_fragment_pool:
  assumes "task_fragment P D ak n sd pl = Inr (f, pl')"
  shows "(pl' = pl \<and> io_ref (attributes f) = None) \<or>
         (\<exists>d r. inscribe_blob P d CAS_PREFIX pl = (r, pl') \<and> io_ref (attributes f) = Some r)"
proof -
  from assms obtain kind pr mf ap sp where "seal_task P n sd kind pr mf ap sp pl = Inr (f, pl')"
    unfolding task_fragment_def Let_def by (auto simp only: bind_res_Inr)
  then obtain ref attrs where
      io: "inscribe_io P sp pl = (ref, pl')"
    and at: "mk_attributes ref pr mf ap = Inr attrs" and f: "attributes f = attrs"
    by (auto simp: seal_task_def bind_res_Inr split: prod.splits)
  from mk_attributes_io [OF at] f have ref: "io_ref (attributes f) = ref" by simp
  show ?thesis
    using io unfolding ref
    by (cases "inscribe_blob P sp CAS_PREFIX pl") (auto simp: inscribe_io_def split: if_splits)
qed

lemma choice_fragment_io: "choice_fragment P n sd = Inr f \<Longrightarrow> io_ref (attributes f) = None"
  by (auto simp: choice_fragment_def bind_res_Inr default_attributes_def)

lemma end_fragment_io: "io_ref (attributes (end_fragment n)) = None"
  by (simp add: end_fragment_def default_attributes_def)

lemma add_state_ok:
  assumes "add_state P D ak st (ns, pl) = Inr (ns', pl')" "refs_ok ns pl" "cas_ok P pl"
  shows "refs_ok ns' pl' \<and> cas_ok P pl'"
proof -
  obtain n v where st: "st = (n, v)" by (cases st)
  from assms(1) obtain sd where "as_dict v = Inr sd"
    by (auto simp: add_state_def st bind_res_Inr)
  with assms(1) consider
      (task) f where "task_fragment P D ak n sd pl = Inr (f, pl')" "ns' = dset n f ns"
    | (choice) f where "choice_fragment P n sd = Inr f" "ns' = dset n f ns" "pl' = pl"
    | (final) "ns' = dset n (end_fragment n) ns" "pl' = pl"
    | (skip) "ns' = ns" "pl' = pl"
    by (auto simp: add_state_def st bind_res_Inr Let_def split: if_splits)
  then show ?thesis
  proof cases
    case task
    then show ?thesis
      using task_fragment_pool [OF task(1)] assms(2,3) inscribe_blob_get [of P _ CAS_PREFIX pl]
        cas_ok_inscribe [of P pl CAS_PREFIX] refs_ok_mono [of ns pl pl']
      by (fastforce intro!: refs_ok_dset simp: dhas_def split: option.splits)
  next
    case choice
    then show ?thesis
      using assms(2,3) by (simp add: refs_ok_dset choice_fragment_io)
  next
    case final
    then show ?thesis
      using assms(2,3) by (simp add: refs_ok_dset end_fragment_io)
  next
    case skip
    then show ?thesis using assms(2,3) by simp
  qed
qed

lemma add_states_ok:
  assumes "add_states P D ak sts acc = Inr (ns', pl')" "refs_ok (fst acc) (snd acc)" "cas_ok P (snd acc)"
  shows "refs_ok ns' pl' \<and> cas_ok P pl'"
  using assms
proof (induction sts arbitrary: acc)
  case Nil
  then show ?case by simp
next
  case (Cons st sts)
  then obtain acc1 where a: "add_state P D ak st acc = Inr acc1" "add_states P D ak sts acc1 = Inr (ns', pl')"
    by (auto simp: bind_res_Inr)
  from a(1) have "refs_ok (fst acc1) (snd acc1) \<and> cas_ok P (snd acc1)"
    using add_state_ok [of P D ak st "fst acc" "snd acc"] Cons.prems by (cases acc1) simp
  with a(2) Cons.IH show ?case by blast
qed

lemma build_fragment_sig_ok:
  assumes "build_fragment_sig P D asl tr = Inr (sig, pl)"
  shows "refs_ok (nodes sig) pl" "cas_ok P pl" "closed_blob (project_compact_blob sig)"
proof -
  from assms obtain st ak ns ver where a: "add_states P D ak st ([], []) = Inr (ns, pl)"
    and s: "nodes sig = ns" "sig_meta sig = [(K_TRACE, PStr tr), (K_VERSION, ver)]"
    and v: "validate_phase sig = Inr ()"
    by (auto simp: build_fragment_sig_def bind_res_Inr Let_def)
  show "refs_ok (nodes sig) pl" "cas_ok P pl"
    using add_states_ok [OF a] s by (simp_all add: refs_ok_def cas_ok_def)
  show "closed_blob (project_compact_blob sig)"
    using closed_project [OF v] s(2) by (simp add: compact_keys)
qed

definition python_path :: "'m fsm_compiler \<Rightarrow> bool" where
  "python_path fc \<longleftrightarrow> \<not> (use_wasm_linker fc \<and> byte_limit fc = MAX_BLOB_BYTES)"

text \<open>Every reference an attribute block of the compact graph carries.\<close>

definition blob_refs :: "pydict \<Rightarrow> string list" where
  "blob_refs blob =
     (case dget_or blob K_GRAPH PNone of
        PDict g \<Rightarrow> concat (map (\<lambda>(n, v). case v of
            PDict spec \<Rightarrow> (case dget_or spec K_ATTRS PNone of
                PDict a \<Rightarrow> (case dget a ''io_ref'' of Some (PStr r) \<Rightarrow> [r] | _ \<Rightarrow> [])
              | _ \<Rightarrow> [])
          | _ \<Rightarrow> []) g)
      | _ \<Rightarrow> [])"

lemma project_spec_attrs:
  "dget_or (project_spec f) K_ATTRS PNone =
     (if dump_attributes (attributes f) = [] then PNone else PDict (dump_attributes (attributes f)))"
  by (cases "edges_of FALLBACK f") (auto simp: project_spec_def Let_def key_eval)

lemma dump_attributes_ref:
  "dget (dump_attributes a) ''io_ref'' = (case io_ref a of None \<Rightarrow> None | Some r \<Rightarrow> Some (PStr r))"
  by (auto simp: dump_attributes_def split: option.splits)

lemma blob_refs_project:
  assumes "refs_ok (nodes sig) pl" "r \<in> set (blob_refs (project_compact_blob sig))"
  shows "dhas pl r"
proof -
  from assms(2) obtain n f where nf: "(n, f) \<in> set (nodes sig)" and "io_ref (attributes f) = Some r"
    by (auto simp: blob_refs_def project_compact_blob_def dget_or_Cons K_META_def K_GRAPH_def
        project_spec_attrs dump_attributes_ref split: if_splits option.splits)
  with assms(1) show ?thesis by (fastforce simp: refs_ok_def)
qed

lemma fallback_Inr:
  assumes "fallback_python_compile P ir fc = (Inr b, fc')"
  shows "total_root_bytes b \<le> byte_limit fc \<and> total_root_bytes b = int (length (p_canon P (PDict ir))) \<and>
    root_blob b = ir \<and> dget (cas_store b) (root_hash b) = Some ir \<and> cas_store b = pool fc' \<and>
    inscribe_blob P ir BRANCH_PREFIX (pool fc) = (root_hash b, cas_store b)"
  using assms
  by (auto simp: fallback_python_compile_def Let_def inscribe_blob_get split: if_splits prod.splits)

lemma finalize_Inr:
  assumes "finalize_bundle_from_wasm P out fc = (Inr b, fc')"
  shows "total_root_bytes b \<le> byte_limit fc \<and> cas_store b = pool fc'"
  using assms
  by (auto simp: finalize_bundle_from_wasm_def Let_def
      split: pyval.splits if_splits option.splits sum.splits)

lemma compile_via_wasm_Inr:
  assumes "compile_via_wasm P V ir tr fc = (Inr b, fc')"
  shows "total_root_bytes b \<le> byte_limit fc \<and> cas_store b = pool fc'"
  using assms
  by (auto simp: compile_via_wasm_def dest!: finalize_Inr
      split: prod.splits sum.splits option.splits list.splits)

lemma finalize_limit: "byte_limit (snd (finalize_bundle_from_wasm P out fc)) = byte_limit fc"
  by (simp add: finalize_bundle_from_wasm_def Let_def split: pyval.split option.split sum.split)

lemma compile_via_wasm_limit: "byte_limit (snd (compile_via_wasm P V ir tr fc)) = byte_limit fc"
  by (auto simp: compile_via_wasm_def finalize_limit split: prod.split sum.split option.split list.split)

text \<open>
  C1. A bundle the compiler returns fits the byte limit. When the graph is projected in Python
  the bundle's root is stored under its own digest, the graph it holds is closed (the entry
  point and every Next, Choice, Default and Catch target is a node of the graph, a terminal
  token or a pointer to another blob), every I/O reference in it resolves in the bundle's
  store, and every entry of the store is keyed by the digest of its content.
\<close>

theorem compile_from_asl_sound:
  assumes "compile_from_asl P D V asl tr fc = (Inr b, fc')"
  shows "total_root_bytes b \<le> byte_limit fc \<and>
    (python_path fc \<longrightarrow>
       total_root_bytes b = int (length (p_canon P (PDict (root_blob b)))) \<and>
       dget (cas_store b) (root_hash b) = Some (root_blob b) \<and>
       closed_blob (root_blob b) \<and>
       (\<forall>r \<in> set (blob_refs (root_blob b)). dhas (cas_store b) r) \<and>
       cas_ok P (cas_store b))"
proof -
  from assms obtain sig pl where sig: "build_fragment_sig P D asl tr = Inr (sig, pl)"
    by (auto simp: compile_from_asl_def split: sum.splits)
  let ?ir = "project_compact_blob sig" and ?fc = "fc\<lparr>pool := pl\<rparr>"
  note ok = build_fragment_sig_ok [OF sig]
  show ?thesis
  proof (cases "python_path fc")
    case True
    with assms sig have "fallback_python_compile P ?ir ?fc = (Inr b, fc')"
      by (auto simp: compile_from_asl_def python_path_def)
    note b = fallback_Inr [OF this]
    have "\<forall>r \<in> set (blob_refs (root_blob b)). dhas (cas_store b) r"
      using blob_refs_project [OF ok(1)] b inscribe_blob_get [of P ?ir BRANCH_PREFIX pl] by simp
    moreover have "cas_ok P (cas_store b)"
      using cas_ok_inscribe [OF ok(2), of BRANCH_PREFIX ?ir "root_hash b" "cas_store b"] b by simp
    moreover have "total_root_bytes b \<le> byte_limit fc" using b by simp
    ultimately show ?thesis using b ok(3) by metis
  next
    case False
    with assms sig have "compile_via_wasm P V ?ir tr ?fc = (Inr b, fc') \<or>
        (\<exists>fc1. fallback_python_compile P ?ir fc1 = (Inr b, fc') \<and> fc1 = snd (compile_via_wasm P V ?ir tr ?fc))"
      by (auto simp: compile_from_asl_def python_path_def Let_def split: prod.splits sum.splits if_splits)
    then have "total_root_bytes b \<le> byte_limit fc"
      using compile_via_wasm_Inr fallback_Inr compile_via_wasm_limit [of P V ?ir tr ?fc] by fastforce
    with False show ?thesis by simp
  qed
qed

definition sample_pydantic :: pydantic where
  "sample_pydantic = \<lparr>pd_vcr = Inr, pd_dump = id\<rparr>"

definition sample_compiler :: "unit fsm_compiler" where
  "sample_compiler = \<lparr>byte_limit = 4096, use_wasm_linker = True, pool = [],
     module_state = \<lparr>engine_ready = False, modules = []\<rparr>\<rparr>"

definition sample_vm :: "bool \<Rightarrow> unit vm_env" where
  "sample_vm wt = \<lparr>has_wasmtime = wt, path_exists = (\<lambda>_. False), from_file = (\<lambda>_. Inr ()),
     instantiate = (\<lambda>_. Inr True), router = (\<lambda>_ _. Inr None)\<rparr>"

definition sample_asl :: pydict where
  "sample_asl = [(''StartAt'', PStr ''a''),
     (''States'', PDict
       [(''a'', PDict [(''Type'', PStr ''Task''), (''Resource'', PStr ''act://x''), (''Next'', PStr ''b''),
                       (''Catch'', PStr ''c'')]),
        (''b'', PDict [(''Type'', PStr ''Choice''),
            (''Choices'', PList [PDict [(''Variable'', PStr ''$.ok''), (''BooleanEquals'', PBool True), (''Next'', PStr ''c'')]]),
            (''Default'', PStr ''RETURN'')]),
        (''c'', PDict [(''Type'', PStr ''Succeed'')])])]"

lemma sample_compiles:
  "\<not> isl (fst (compile_from_asl sample_prims sample_pydantic (sample_vm True) sample_asl ''t'' sample_compiler))"
  by code_simp

theorem compile_from_asl_sound_witness:
  "\<exists>b fc'. compile_from_asl sample_prims sample_pydantic (sample_vm True) sample_asl ''t'' sample_compiler = (Inr b, fc') \<and>
     total_root_bytes b \<le> 4096 \<and> closed_blob (root_blob b) \<and>
     dget (cas_store b) (root_hash b) = Some (root_blob b)"
proof -
  obtain b fc' where c: "compile_from_asl sample_prims sample_pydantic (sample_vm True) sample_asl ''t'' sample_compiler = (Inr b, fc')"
    using sample_compiles by (metis isl_def prod.collapse sum.exhaust_sel)
  have "python_path sample_compiler" "byte_limit sample_compiler = 4096"
    by (simp_all add: python_path_def sample_compiler_def MAX_BLOB_BYTES_def)
  with compile_from_asl_sound [OF c] c show ?thesis by auto
qed

text \<open>
  When the linker is enabled and the wasm runtime cannot be used, what the compiler does
  depends on which part is missing. Without the \<open>wasmtime\<close> package the Python projector is
  used. With the package but without the \<open>fsm.wasm\<close> artifact the interpreter wraps the missing
  file in an execution error, which the compiler does not catch: it raises, and the projector
  is not reached.
\<close>

theorem compile_without_artifact:
  assumes "\<not> python_path fc" "build_fragment_sig P D asl tr = Inr (sig, pl)"
    and "dget (modules (module_state fc)) ''fsm.wasm'' = None" "\<not> path_exists V ''fsm.wasm''"
  shows "\<exists>fc1 m. compile_from_asl P D V asl tr fc =
      (if has_wasmtime V then (Inl (Exc ExecutionErr m), fc1)
       else fallback_python_compile P (project_compact_blob sig) fc1)"
proof (cases "has_wasmtime V")
  case True
  obtain m where
    "fsm_interpreter_init (has_wasmtime V) (path_exists V) (from_file V) (instantiate V) ''fsm.wasm'' (module_state fc)
       = (Inl (Exc ExecutionErr m), (module_state fc)\<lparr>engine_ready := True\<rparr>)"
    using init_missing_artifact [of "has_wasmtime V" "path_exists V" "''fsm.wasm''" "module_state fc"] True assms(3,4)
    by metis
  with True assms show ?thesis
    by (auto simp: compile_from_asl_def compile_via_wasm_def python_path_def)
next
  case False
  then obtain m ms where
    "fsm_interpreter_init (has_wasmtime V) (path_exists V) (from_file V) (instantiate V) ''fsm.wasm'' (module_state fc)
       = (Inl (Exc ImportErr m), ms)"
    by (auto simp: fsm_interpreter_init_def raise_def)
  with False assms show ?thesis
    by (auto simp: compile_from_asl_def compile_via_wasm_def python_path_def)
qed

lemma sample_builds: "\<not> isl (build_fragment_sig sample_prims sample_pydantic sample_asl ''t'')"
  by code_simp

theorem compile_without_artifact_witness:
  "\<exists>fc1 m. compile_from_asl sample_prims sample_pydantic (sample_vm True) sample_asl ''t''
       (sample_compiler\<lparr>byte_limit := 2048\<rparr>) = (Inl (Exc ExecutionErr m), fc1)"
proof -
  obtain sig pl where "build_fragment_sig sample_prims sample_pydantic sample_asl ''t'' = Inr (sig, pl)"
    using sample_builds by (metis isl_def old.prod.exhaust sum.exhaust_sel)
  from compile_without_artifact [OF _ this, of "sample_compiler\<lparr>byte_limit := 2048\<rparr>" "sample_vm True"]
  show ?thesis
    by (auto simp: python_path_def sample_compiler_def MAX_BLOB_BYTES_def sample_vm_def)
qed

end
