(* ===== verification/AnchorDriver.thy ===== *)
theory AnchorDriver
  imports Prelude
begin

text \<open>
  Storage drivers of the anchor ledger, \<^verbatim>\<open>state/anchor/driver.py\<close>, and the key scheme of
  \<^verbatim>\<open>state/anchor/key.py\<close>. A byte string is a list of 8-bit characters, ordered
  lexicographically; the keys the program writes are ASCII, so \<open>encode\<close> is the identity.

  The FoundationDB driver is modelled on its in-memory backend. The RocksDB driver only
  passes calls to the \<open>rocksdict\<close> package; its own loop, \<open>scan_prefix\<close>, is modelled over an
  arbitrary cursor.
\<close>

type_synonym bytes = string

section \<open>Keys\<close>

definition stream_fuel :: "string \<Rightarrow> string" where
  "stream_fuel tenant_id = ''fuel_ledger:'' @ tenant_id"

definition stream_mcp :: "string \<Rightarrow> string" where
  "stream_mcp handle_id = ''mcp_bridge:'' @ handle_id"

definition stream_pta_fallback :: "string \<Rightarrow> string" where
  "stream_pta_fallback tx_hash = ''pta_tx:'' @ take 8 tx_hash"

definition key_commit :: "string \<Rightarrow> string" where
  "key_commit commit_hash = ''commit:'' @ commit_hash"

definition key_blob :: "string \<Rightarrow> string" where
  "key_blob blob_hash = ''blob:'' @ blob_hash"

definition key_ref :: "string \<Rightarrow> string" where
  "key_ref stream_id = ''ref:'' @ stream_id"

definition mempool_logic :: string where "mempool_logic = ''ledger:mempool:logic_streams''"
definition mempool_objects :: string where "mempool_objects = ''ledger:mempool:objects''"
definition mempool_heads :: string where "mempool_heads = ''ledger:mempool:heads''"

definition ack_channel :: "string \<Rightarrow> string" where
  "ack_channel req_id = ''ledger:ack:'' @ req_id"

definition pta_pointer :: "string \<Rightarrow> int \<Rightarrow> string" where
  "pta_pointer tx_hash output_index = tx_hash @ '':'' @ show_int output_index"

lemma pta_pointer_inj:
  assumes "pta_pointer h i = pta_pointer h' j" "CHR '':'' \<notin> set h" "CHR '':'' \<notin> set h'"
  shows "h = h' \<and> i = j"
proof -
  have "split_once '':'' (pta_pointer h i) = Some (h, show_int i)"
    "split_once '':'' (pta_pointer h' j) = Some (h', show_int j)"
    using assms(2,3) by (simp_all add: pta_pointer_def split_once_fresh)
  with assms(1) have "(h, show_int i) = (h', show_int j)" by (metis option.inject)
  then show ?thesis by (simp add: show_int_inj)
qed

section \<open>The upper bound of a prefix\<close>

definition FF :: char where "FF = CHR 0xFF"

definition succ_char :: "char \<Rightarrow> char" where
  "succ_char c = char_of ((of_char c :: nat) + 1)"

definition strinc :: "bytes \<Rightarrow> bytes res" where
  "strinc pfx =
     (let stripped = rstrip_set [FF] pfx in
      if stripped = [] then Inl (Exc ValueErr ''Prefix must contain at least one byte not equal to 0xFF'')
      else Inr (butlast stripped @ [succ_char (last stripped)]))"

lemma char_le_FF: "c \<le> FF"
proof -
  have "(of_char FF :: nat) = 255" by (simp add: FF_def)
  moreover have "(of_char c :: nat) < 256" by simp
  then have "(of_char c :: nat) \<le> 255" by linarith
  ultimately show ?thesis by (simp add: less_eq_char_def)
qed

lemma succ_char_less: "c \<noteq> FF \<Longrightarrow> of_char (succ_char c) = (of_char c :: nat) + 1"
proof -
  assume "c \<noteq> FF"
  then have "c < FF" using char_le_FF [of c] by simp
  then have "(of_char c :: nat) < 255" by (simp add: less_char_def FF_def)
  then show ?thesis by (simp add: succ_char_def)
qed

lemma between_succ: "c \<noteq> FF \<Longrightarrow> c \<le> d \<and> d < succ_char c \<longleftrightarrow> d = c"
  using succ_char_less [of c] by (auto simp: less_char_def less_eq_char_def less_Suc_eq_le
      intro: of_char_eqI [where ?'a = nat, OF antisym])

lemma FF_run_le: "replicate n FF \<le> (k :: bytes) \<longleftrightarrow> prefix (replicate n FF) k"
proof (induction n arbitrary: k)
  case 0
  show ?case by simp
next
  case (Suc n)
  show ?case
  proof (cases k)
    case Nil
    then show ?thesis by simp
  next
    case (Cons c ks)
    have "\<not> FF < c" using char_le_FF [of c] by simp
    with Suc Cons show ?thesis by auto
  qed
qed

lemma range_prefix:
  assumes "c \<noteq> FF"
  shows "q @ c # replicate n FF \<le> k \<and> k < q @ [succ_char c] \<longleftrightarrow> prefix (q @ c # replicate n FF) k"
proof (induction q arbitrary: k)
  case Nil
  show ?case
  proof (cases k)
    case Nil
    then show ?thesis by simp
  next
    case (Cons d ks)
    have "c < succ_char c" using succ_char_less [OF assms] by (simp add: less_char_def)
    then show ?thesis
      using between_succ [OF assms, of d] FF_run_le [of n ks] Cons by auto
  qed
next
  case (Cons x q)
  show ?case
  proof (cases k)
    case Nil
    then show ?thesis by simp
  next
    case (Cons d ks)
    then show ?thesis using Cons.IH [of ks] by (cases "x = d") auto
  qed
qed

lemma rstrip_FF: "\<exists>n. pfx = rstrip_set [FF] pfx @ replicate n FF"
proof (induction pfx rule: rev_induct)
  case Nil
  show ?case by (simp add: rstrip_set_def)
next
  case (snoc c pfx)
  show ?case
  proof (cases "c = FF")
    case True
    then have "rstrip_set [FF] (pfx @ [c]) = rstrip_set [FF] pfx" by (simp add: rstrip_set_def)
    with snoc True show ?thesis by (metis append.assoc replicate_append_same replicate_Suc)
  next
    case False
    then show ?thesis by (simp add: rstrip_set_def)
  qed
qed

lemma rstrip_FF_last: "rstrip_set [FF] pfx \<noteq> [] \<Longrightarrow> last (rstrip_set [FF] pfx) \<noteq> FF"
  using hd_dropWhile [of "\<lambda>c. c \<in> set [FF]" "rev pfx"] by (simp add: rstrip_set_def last_rev)

lemma strinc_Inr:
  assumes "strinc pfx = Inr e"
  shows "pfx \<le> k \<and> k < e \<longleftrightarrow> startswith k pfx"
proof -
  let ?s = "rstrip_set [FF] pfx"
  from assms have ne: "?s \<noteq> []" and e: "e = butlast ?s @ [succ_char (last ?s)]"
    by (auto simp: strinc_def Let_def split: if_splits)
  obtain n where n: "pfx = ?s @ replicate n FF" using rstrip_FF by blast
  have p: "pfx = butlast ?s @ last ?s # replicate n FF"
    using n ne by (metis append.assoc append_Cons append_Nil append_butlast_last_id)
  show ?thesis
    using range_prefix [OF rstrip_FF_last [OF ne], of "butlast ?s" n k] p e
    by (simp add: startswith_iff)
qed

lemma strinc_Inl: "isl (strinc pfx) \<longleftrightarrow> set pfx \<subseteq> {FF}"
  by (auto simp: strinc_def Let_def rstrip_set_def)

section \<open>The FoundationDB driver\<close>

definition basename :: "string \<Rightarrow> string" where
  "basename p = last (split_char CHR ''/'' p)"

record fdb_driver =
  fdb_path :: string
  fdb_prefix :: bytes
  last_versionstamp :: bytes
  commit_seq :: int
  emulated_kv :: "(bytes, bytes) dict"

definition fdb_init :: "string \<Rightarrow> fdb_driver" where
  "fdb_init target_path =
     (let base = basename (rstrip_set [CHR ''/'', CHR 0x5C] target_path);
          subspace_name = (if base = [] then ''adb'' else base)
      in \<lparr>fdb_path = target_path, fdb_prefix = ''xphi:'' @ subspace_name @ '':'',
          last_versionstamp = replicate 10 (CHR 0x00), commit_seq = 0, emulated_kv = []\<rparr>)"

definition to_fdb_key :: "fdb_driver \<Rightarrow> bytes \<Rightarrow> bytes" where
  "to_fdb_key d key = fdb_prefix d @ key"

definition from_fdb_key :: "fdb_driver \<Rightarrow> bytes \<Rightarrow> bytes" where
  "from_fdb_key d fdb_key = drop (length (fdb_prefix d)) fdb_key"

definition fdb_get :: "fdb_driver \<Rightarrow> bytes \<Rightarrow> bytes option" where
  "fdb_get d key = dget (emulated_kv d) (to_fdb_key d key)"

text \<open>\<open>struct.pack(">QH", n, 0)\<close>: eight bytes of the counter and two zero bytes, big-endian.\<close>

definition be_bytes :: "nat \<Rightarrow> nat \<Rightarrow> bytes" where
  "be_bytes w n = map (\<lambda>i. char_of (n div 256 ^ (w - 1 - i))) [0..<w]"

definition pack_versionstamp :: "int \<Rightarrow> bytes res" where
  "pack_versionstamp n =
     (if 0 \<le> n \<and> n < 2 ^ 64 then Inr (be_bytes 8 (nat n) @ be_bytes 2 0)
      else Inl (Exc ValueErr ''int too large to convert''))"

definition fdb_put :: "bytes \<Rightarrow> bytes \<Rightarrow> (fdb_driver, unit) prog" where
  "fdb_put key value d =
     (let d1 = d\<lparr>emulated_kv := dset (to_fdb_key d key) value (emulated_kv d),
                 commit_seq := commit_seq d + 1\<rparr>
      in case pack_versionstamp (commit_seq d1) of
           Inl e \<Rightarrow> (Inl e, d1)
         | Inr vs \<Rightarrow> (Inr (), d1\<lparr>last_versionstamp := vs\<rparr>))"

fun scan_keys :: "bytes \<Rightarrow> bytes \<Rightarrow> bytes list \<Rightarrow> bytes list" where
  "scan_keys lo hi [] = []"
| "scan_keys lo hi (k # ks) =
     (if hi \<le> k then [] else if lo \<le> k then k # scan_keys lo hi ks else scan_keys lo hi ks)"

definition fdb_scan_prefix :: "fdb_driver \<Rightarrow> bytes \<Rightarrow> (bytes \<times> bytes) list res" where
  "fdb_scan_prefix d pfx =
     (let start_key = to_fdb_key d pfx in
      bind_res (strinc start_key) (\<lambda>end_key.
        map_res (\<lambda>k. case dget (emulated_kv d) k of
                       None \<Rightarrow> Inl (Exc KeyErr k) | Some v \<Rightarrow> Inr (from_fdb_key d k, v))
          (scan_keys start_key end_key (sort (dkeys (emulated_kv d))))))"

definition clear_subspace :: "fdb_driver \<Rightarrow> fdb_driver res" where
  "clear_subspace d = bind_res (strinc (fdb_prefix d)) (\<lambda>_. Inr (d\<lparr>emulated_kv := []\<rparr>))"

definition fdb_close :: "fdb_driver \<Rightarrow> fdb_driver" where
  "fdb_close d = d\<lparr>emulated_kv := []\<rparr>"

section \<open>Dictionary and namespace views of a driver\<close>

definition drv_contains :: "('d \<Rightarrow> bytes \<Rightarrow> bytes option) \<Rightarrow> 'd \<Rightarrow> bytes \<Rightarrow> bool" where
  "drv_contains get d key \<longleftrightarrow> get d key \<noteq> None"

definition drv_getitem :: "('d \<Rightarrow> bytes \<Rightarrow> bytes option) \<Rightarrow> 'd \<Rightarrow> bytes \<Rightarrow> bytes res" where
  "drv_getitem get d key = (case get d key of None \<Rightarrow> Inl (Exc KeyErr key) | Some v \<Rightarrow> Inr v)"

definition split_namespace :: "bytes \<Rightarrow> string \<times> string" where
  "split_namespace key =
     (if contains key '':'' then (case split_once '':'' key of Some p \<Rightarrow> p | None \<Rightarrow> (key, []))
      else (''default'', key))"

section \<open>Cursors\<close>

text \<open>
  The seek iterator over the driver's generator. Once started, the generator holds the sorted
  snapshot of the keys it has not looked at; values are read when they are yielded.
\<close>

record seek_iter =
  it_gen :: "(bytes \<times> bytes \<times> bytes list) option"
  current_key :: "bytes option"
  current_val :: "bytes option"
  is_valid :: bool

definition new_iter :: seek_iter where
  "new_iter = \<lparr>it_gen = None, current_key = None, current_val = None, is_valid = False\<rparr>"

definition iter_next :: "fdb_driver \<Rightarrow> seek_iter \<Rightarrow> seek_iter res" where
  "iter_next d it =
     (case it_gen it of
        None \<Rightarrow> Inr (it\<lparr>is_valid := False\<rparr>)
      | Some (lo, hi, ks) \<Rightarrow>
          (case scan_keys lo hi ks of
             [] \<Rightarrow> Inr \<lparr>it_gen = Some (lo, hi, []), current_key = None, current_val = None, is_valid = False\<rparr>
           | k # _ \<Rightarrow>
               (case dget (emulated_kv d) k of
                  None \<Rightarrow> Inl (Exc KeyErr k)
                | Some v \<Rightarrow> Inr \<lparr>it_gen = Some (lo, hi, tl (dropWhile (\<lambda>x. \<not> lo \<le> x) ks)),
                                  current_key = Some (from_fdb_key d k), current_val = Some v, is_valid = True\<rparr>)))"

definition iter_seek :: "fdb_driver \<Rightarrow> bytes \<Rightarrow> seek_iter \<Rightarrow> seek_iter res" where
  "iter_seek d pfx it =
     (let start_key = to_fdb_key d pfx in
      bind_res (strinc start_key) (\<lambda>end_key.
        iter_next d (it\<lparr>it_gen := Some (start_key, end_key, sort (dkeys (emulated_kv d)))\<rparr>)))"

text \<open>
  The loop of \<open>RocksAnchorDriver.scan_prefix\<close>, over a cursor given by its four methods. The
  value None is a loop that never ends.
\<close>

partial_function (option) cursor_scan ::
  "('it \<Rightarrow> bool) \<Rightarrow> ('it \<Rightarrow> bytes) \<Rightarrow> ('it \<Rightarrow> bytes) \<Rightarrow> ('it \<Rightarrow> 'it) \<Rightarrow> bytes \<Rightarrow> 'it \<Rightarrow> (bytes \<times> bytes) list option"
  where [code]:
  "cursor_scan valid key val nxt pfx it =
     (if valid it then
        (if \<not> startswith (key it) pfx then Some []
         else Option.bind (cursor_scan valid key val nxt pfx (nxt it)) (\<lambda>rest. Some ((key it, val it) # rest)))
      else Some [])"

section \<open>The RocksDB driver and the factory\<close>

record 'db rocks_driver =
  rocks_path :: string
  rocks_db :: 'db
  is_sealer :: bool

definition rocks_init :: "(string \<Rightarrow> 'db res) \<Rightarrow> (string \<Rightarrow> 'db res) \<Rightarrow> string \<Rightarrow> 'db rocks_driver res" where
  "rocks_init open_rw open_ro target_path =
     (case open_rw target_path of
        Inr db \<Rightarrow> Inr \<lparr>rocks_path = target_path, rocks_db = db, is_sealer = True\<rparr>
      | Inl e \<Rightarrow>
          (let error_msg = lower (msg_of_exc e) in
           if contains error_msg ''lock'' \<or> contains error_msg ''temporarily unavailable''
           then bind_res (open_ro target_path) (\<lambda>db.
                  Inr \<lparr>rocks_path = target_path, rocks_db = db, is_sealer = False\<rparr>)
           else Inl e))"

definition rocks_catch_up ::
  "('db \<Rightarrow> 'db) option \<Rightarrow> (string \<Rightarrow> 'db res) \<Rightarrow> ('db rocks_driver, unit) prog" where
  "rocks_catch_up sync open_ro d =
     (if is_sealer d then (Inr (), d)
      else case sync of
        Some f \<Rightarrow> (Inr (), d\<lparr>rocks_db := f (rocks_db d)\<rparr>)
      | None \<Rightarrow> (case open_ro (rocks_path d) of
                   Inl e \<Rightarrow> (Inl e, d) | Inr db \<Rightarrow> (Inr (), d\<lparr>rocks_db := db\<rparr>)))"

datatype backend = Rocks string | Fdb fdb_driver

definition mount :: "string option \<Rightarrow> string \<Rightarrow> backend res" where
  "mount env target_path =
     (let backend = lower (case env of None \<Rightarrow> ''rocksdb'' | Some v \<Rightarrow> v) in
      if backend = ''rocksdb'' then Inr (Rocks target_path)
      else if backend \<in> {''fdb'', ''foundationdb''} then Inr (Fdb (fdb_init target_path))
      else Inl (Exc ValueErr (''Unsupported anchor driver: '' @ backend)))"

section \<open>What a driver promises\<close>

text \<open>
  The contract the store and the oracle use: a keyed store whose prefix scan lists exactly the
  matching entries, once each, in key order.
\<close>

lemma sorted_alist_unique:
  fixes xs ys :: "('k::linorder \<times> 'v) list"
  assumes "sorted (map fst xs)" "distinct (map fst xs)" "sorted (map fst ys)" "distinct (map fst ys)"
    and "map_of xs = map_of ys"
  shows "xs = ys"
proof -
  have s: "set xs = set ys"
    using assms(2,4,5) by (metis map_of_eq_Some_iff subrelI subset_antisym)
  show ?thesis
  proof (rule map_sorted_distinct_set_unique [of fst])
    show "inj_on fst (set xs \<union> set ys)"
      using assms(2) s by (simp add: distinct_map)
  qed (use assms s in auto)
qed

locale anchor_driver = keyed_store get put invar
  for get :: "'d \<Rightarrow> bytes \<Rightarrow> bytes option" and put :: "'d \<Rightarrow> bytes \<Rightarrow> bytes \<Rightarrow> 'd" and invar :: "'d \<Rightarrow> bool" +
  fixes scan :: "'d \<Rightarrow> bytes \<Rightarrow> (bytes \<times> bytes) list"
  assumes scan_sorted: "invar d \<Longrightarrow> sorted (map fst (scan d p))"
    and scan_distinct: "invar d \<Longrightarrow> distinct (map fst (scan d p))"
    and scan_get: "invar d \<Longrightarrow> map_of (scan d p) k = (if startswith k p then get d k else None)"
begin

lemma scan_mem: "invar d \<Longrightarrow> (k, v) \<in> set (scan d p) \<longleftrightarrow> startswith k p \<and> get d k = Some v"
  using map_of_eq_Some_iff [OF scan_distinct, of d p k v] by (auto simp: scan_get split: if_splits)

lemma scan_put_other:
  assumes "invar d" "\<not> startswith k p"
  shows "scan (put d k v) p = scan d p"
proof (rule sorted_alist_unique)
  show "map_of (scan (put d k v) p) = map_of (scan d p)"
    using assms by (auto simp: fun_eq_iff scan_get invar_put get_put)
qed (use assms in \<open>simp_all add: scan_sorted scan_distinct invar_put\<close>)

lemma scan_determined:
  assumes "invar d" "invar d'" "\<And>k. startswith k p \<Longrightarrow> get d k = get d' k"
  shows "scan d p = scan d' p"
proof (rule sorted_alist_unique)
  show "map_of (scan d p) = map_of (scan d' p)"
    using assms by (auto simp: fun_eq_iff scan_get)
qed (use assms in \<open>simp_all add: scan_sorted scan_distinct\<close>)

end

text \<open>A cursor: the entries it has yet to give, the current one first.\<close>

locale cursor =
  fixes valid :: "'it \<Rightarrow> bool"
    and key :: "'it \<Rightarrow> bytes" and val :: "'it \<Rightarrow> bytes"
    and nxt :: "'it \<Rightarrow> 'it"
    and ok :: "'it \<Rightarrow> bool" and rest :: "'it \<Rightarrow> (bytes \<times> bytes) list"
  assumes valid_rest: "ok it \<Longrightarrow> valid it \<longleftrightarrow> rest it \<noteq> []"
    and head_rest: "ok it \<Longrightarrow> rest it = (k, v) # r \<Longrightarrow> key it = k \<and> val it = v"
    and next_rest: "ok it \<Longrightarrow> rest it = kv # r \<Longrightarrow> ok (nxt it) \<and> rest (nxt it) = r"
begin

lemma scan_terminates:
  "ok it \<Longrightarrow> cursor_scan valid key val nxt p it = Some (takeWhile (\<lambda>(k, v). startswith k p) (rest it))"
proof (induction "rest it" arbitrary: it)
  case Nil
  then have "\<not> valid it" using valid_rest by force
  with Nil show ?case by (subst cursor_scan.simps) simp
next
  case (Cons kv r)
  obtain k v where kv: "kv = (k, v)" by (cases kv)
  have it: "valid it" "key it = k" "val it = v" "ok (nxt it)" "rest (nxt it) = r" "rest it = (k, v) # r"
    using Cons.hyps(2) Cons.prems head_rest [of it k v r] next_rest [of it kv r] valid_rest [of it]
    by (auto simp: kv)
  then have "cursor_scan valid key val nxt p (nxt it) = Some (takeWhile (\<lambda>(k, v). startswith k p) r)"
    using Cons.hyps(1) [of "nxt it"] by simp
  with it show ?case by (subst cursor_scan.simps) simp
qed

end

section \<open>The drivers meet the contract\<close>

definition fdb_ok :: "fdb_driver \<Rightarrow> bool" where
  "fdb_ok d \<longleftrightarrow> wf_dict (emulated_kv d) \<and> fdb_prefix d \<noteq> [] \<and> last (fdb_prefix d) \<noteq> FF \<and>
     list_all (\<lambda>k. startswith k (fdb_prefix d)) (dkeys (emulated_kv d))"

lemma fdb_ok_init: "fdb_ok (fdb_init p)"
  by (simp add: fdb_ok_def fdb_init_def Let_def dkeys_def FF_def)

lemma fdb_prefix_put [simp]: "fdb_prefix (snd (fdb_put k v d)) = fdb_prefix d"
  by (simp add: fdb_put_def Let_def split: sum.split)

lemma fdb_kv_put [simp]: "emulated_kv (snd (fdb_put k v d)) = dset (to_fdb_key d k) v (emulated_kv d)"
  by (simp add: fdb_put_def Let_def split: sum.split)

lemma fdb_ok_put: "fdb_ok d \<Longrightarrow> fdb_ok (snd (fdb_put k v d))"
  by (auto simp: fdb_ok_def list_all_iff to_fdb_key_def)

lemma fdb_get_put: "fdb_get (snd (fdb_put k v d)) k' = (if k' = k then Some v else fdb_get d k')"
  by (simp add: fdb_get_def to_fdb_key_def)

lemma strinc_prefixed:
  assumes "fdb_ok d"
  obtains e where "strinc (to_fdb_key d p) = Inr e"
proof -
  have "\<not> set (to_fdb_key d p) \<subseteq> {FF}"
    using assms last_in_set [of "fdb_prefix d"] unfolding fdb_ok_def to_fdb_key_def
    by (metis append_Nil2 set_append singletonD subsetD le_sup_iff)
  then have "\<not> isl (strinc (to_fdb_key d p))" using strinc_Inl by simp
  then show ?thesis using that by (cases "strinc (to_fdb_key d p)") auto
qed

lemma scan_keys_filter:
  "sorted ks \<Longrightarrow> scan_keys lo hi ks = filter (\<lambda>k. lo \<le> k \<and> k < hi) ks"
proof (induction ks)
  case (Cons k ks)
  show ?case
  proof (cases "hi \<le> k")
    case True
    with Cons.prems have "\<forall>x \<in> set (k # ks). \<not> x < hi" by auto
    then have "filter (\<lambda>x. lo \<le> x \<and> x < hi) (k # ks) = []" by (auto simp: filter_empty_conv)
    with True show ?thesis by simp
  next
    case False
    with Cons show ?thesis by auto
  qed
qed simp

definition fdb_scan :: "fdb_driver \<Rightarrow> bytes \<Rightarrow> (bytes \<times> bytes) list" where
  "fdb_scan d p = (case fdb_scan_prefix d p of Inl _ \<Rightarrow> [] | Inr xs \<Rightarrow> xs)"

definition raw_scan :: "fdb_driver \<Rightarrow> bytes \<Rightarrow> bytes list" where
  "raw_scan d p = filter (\<lambda>k. startswith k (to_fdb_key d p)) (sort (dkeys (emulated_kv d)))"

lemma raw_scan_mem: "k \<in> set (raw_scan d p) \<longleftrightarrow> startswith k (to_fdb_key d p) \<and> dhas (emulated_kv d) k"
  by (auto simp: raw_scan_def dhas_iff)

lemma fdb_scan_prefix_total:
  assumes "fdb_ok d"
  shows "fdb_scan_prefix d p =
    Inr (map (\<lambda>k. (from_fdb_key d k, the (dget (emulated_kv d) k))) (raw_scan d p))"
proof -
  obtain e where e: "strinc (to_fdb_key d p) = Inr e"
    using strinc_prefixed [OF assms] by blast
  have "scan_keys (to_fdb_key d p) e (sort (dkeys (emulated_kv d))) = raw_scan d p"
    by (simp add: scan_keys_filter raw_scan_def strinc_Inr [OF e])
  moreover have "map_res (\<lambda>k. case dget (emulated_kv d) k of None \<Rightarrow> Inl (Exc KeyErr k)
        | Some v \<Rightarrow> Inr (from_fdb_key d k, v)) ks =
      Inr (map (\<lambda>k. (from_fdb_key d k, the (dget (emulated_kv d) k))) ks)"
    if "\<forall>k \<in> set ks. dhas (emulated_kv d) k" for ks
    using that by (auto simp: map_res_Inr list_all2_map2 list_all2_same dhas_def)
  ultimately show ?thesis
    using e by (simp add: fdb_scan_prefix_def Let_def raw_scan_mem)
qed

lemma startswith_append_iff: "startswith (p @ k) (p @ q) \<longleftrightarrow> startswith k q"
  by (simp add: startswith_iff)

lemma raw_key:
  assumes "fdb_ok d" "k \<in> set (raw_scan d p)"
  shows "to_fdb_key d (from_fdb_key d k) = k" "startswith (from_fdb_key d k) p"
proof -
  from assms have "startswith k (fdb_prefix d)"
    by (auto simp: raw_scan_mem dhas_iff fdb_ok_def list_all_iff)
  then show *: "to_fdb_key d (from_fdb_key d k) = k"
    by (auto simp: to_fdb_key_def from_fdb_key_def startswith_iff prefix_def)
  show "startswith (from_fdb_key d k) p"
    using assms(2) * by (metis raw_scan_mem startswith_append_iff to_fdb_key_def)
qed

lemma append_le_iff: "p @ (k :: bytes) \<le> p @ k' \<longleftrightarrow> k \<le> k'"
  by (induction p) auto

lemma sorted_map_from:
  "\<forall>k \<in> set ks. to_fdb_key d (from_fdb_key d k) = k \<Longrightarrow> sorted ks \<Longrightarrow> sorted (map (from_fdb_key d) ks)"
  unfolding sorted_map
  by (induction ks) (auto simp: to_fdb_key_def, metis append_le_iff)

lemma fdb_scan_eq:
  assumes "fdb_ok d"
  shows "fdb_scan d p = map (\<lambda>k. (from_fdb_key d k, the (dget (emulated_kv d) k))) (raw_scan d p)"
  by (simp add: fdb_scan_def fdb_scan_prefix_total [OF assms])

lemma fdb_scan_keys:
  assumes "fdb_ok d"
  shows "sorted (map fst (fdb_scan d p))" "distinct (map fst (fdb_scan d p))"
proof -
  have keys: "map fst (fdb_scan d p) = map (from_fdb_key d) (raw_scan d p)"
    by (simp add: fdb_scan_eq [OF assms] comp_def)
  have "sorted (raw_scan d p)" "distinct (raw_scan d p)"
    using assms by (simp_all add: raw_scan_def sorted_filter [of id, simplified] fdb_ok_def wf_dict_def dkeys_def)
  then show "sorted (map fst (fdb_scan d p))" "distinct (map fst (fdb_scan d p))"
    using raw_key(1) [OF assms] sorted_map_from [of "raw_scan d p" d]
    by (auto simp: keys distinct_map inj_on_def) metis
qed

lemma fdb_scan_get:
  assumes "fdb_ok d"
  shows "map_of (fdb_scan d p) k = (if startswith k p then fdb_get d k else None)"
proof -
  have mem: "(k, v) \<in> set (fdb_scan d p) \<longleftrightarrow> startswith k p \<and> fdb_get d k = Some v" for v
  proof
    assume "(k, v) \<in> set (fdb_scan d p)"
    then obtain r where "r \<in> set (raw_scan d p)" "k = from_fdb_key d r" "v = the (dget (emulated_kv d) r)"
      by (auto simp: fdb_scan_eq [OF assms])
    then show "startswith k p \<and> fdb_get d k = Some v"
      using raw_key [OF assms] by (auto simp: fdb_get_def raw_scan_mem dhas_def)
  next
    assume a: "startswith k p \<and> fdb_get d k = Some v"
    then have "to_fdb_key d k \<in> set (raw_scan d p)"
      by (auto simp: raw_scan_mem to_fdb_key_def startswith_append_iff dhas_def fdb_get_def)
    with a show "(k, v) \<in> set (fdb_scan d p)"
      by (force simp: fdb_scan_eq [OF assms] fdb_get_def from_fdb_key_def to_fdb_key_def)
  qed
  show ?thesis
  proof (cases "map_of (fdb_scan d p) k")
    case None
    then have "(k, v) \<notin> set (fdb_scan d p)" for v by (simp add: map_of_eq_None_iff) force
    with None mem show ?thesis by (cases "fdb_get d k") auto
  next
    case (Some v)
    then show ?thesis using mem by (auto dest: map_of_SomeD)
  qed
qed

interpretation fdb: anchor_driver fdb_get "\<lambda>d k v. snd (fdb_put k v d)" fdb_ok fdb_scan
  by unfold_locales (simp_all add: fdb_get_put fdb_ok_put fdb_scan_keys fdb_scan_get)

section \<open>The seek iterator is a cursor\<close>

definition iter_rest :: "fdb_driver \<Rightarrow> seek_iter \<Rightarrow> (bytes \<times> bytes) list" where
  "iter_rest d it =
     (case (current_key it, current_val it) of (Some k, Some v) \<Rightarrow> [(k, v)] | _ \<Rightarrow> []) @
     (case it_gen it of None \<Rightarrow> []
      | Some (lo, hi, ks) \<Rightarrow> map (\<lambda>k. (from_fdb_key d k, the (dget (emulated_kv d) k))) (scan_keys lo hi ks))"

definition iter_ok :: "fdb_driver \<Rightarrow> seek_iter \<Rightarrow> bool" where
  "iter_ok d it \<longleftrightarrow>
     (is_valid it \<longleftrightarrow> current_key it \<noteq> None) \<and> (is_valid it \<longleftrightarrow> current_val it \<noteq> None) \<and>
     (case it_gen it of None \<Rightarrow> \<not> is_valid it
      | Some (lo, hi, ks) \<Rightarrow> list_all (dhas (emulated_kv d)) ks \<and> (\<not> is_valid it \<longrightarrow> scan_keys lo hi ks = []))"

definition advance :: "fdb_driver \<Rightarrow> seek_iter \<Rightarrow> seek_iter" where
  "advance d it = (case iter_next d it of Inl _ \<Rightarrow> it | Inr it' \<Rightarrow> it')"

lemma scan_keys_step:
  "scan_keys lo hi ks = k # r \<Longrightarrow>
     scan_keys lo hi (tl (dropWhile (\<lambda>x. \<not> lo \<le> x) ks)) = r \<and> k \<in> set ks \<and>
     set (tl (dropWhile (\<lambda>x. \<not> lo \<le> x) ks)) \<subseteq> set ks"
  by (induction ks) (auto split: if_splits)

lemma advance_rest:
  assumes gen: "it_gen it = Some (lo, hi, ks)" and ks: "list_all (dhas (emulated_kv d)) ks"
  shows "\<exists>it'. iter_next d it = Inr it' \<and> iter_ok d it' \<and>
    iter_rest d it' = map (\<lambda>k. (from_fdb_key d k, the (dget (emulated_kv d) k))) (scan_keys lo hi ks)"
proof (cases "scan_keys lo hi ks")
  case Nil
  with gen show ?thesis by (simp add: iter_next_def iter_ok_def iter_rest_def)
next
  case (Cons k r)
  note st = scan_keys_step [OF Cons]
  from st ks obtain v where "dget (emulated_kv d) k = Some v"
    by (auto simp: list_all_iff dhas_def)
  moreover have "list_all (dhas (emulated_kv d)) (tl (dropWhile (\<lambda>x. \<not> lo \<le> x) ks))"
    using ks st by (auto simp: list_all_iff)
  ultimately show ?thesis
    using gen Cons st by (simp add: iter_next_def iter_ok_def iter_rest_def)
qed

interpretation seek: cursor is_valid "\<lambda>it. the (current_key it)" "\<lambda>it. the (current_val it)"
    "advance d" "iter_ok d" "iter_rest d" for d :: fdb_driver
proof unfold_locales
  fix it k v kv r
  assume ok: "iter_ok d it"
  show "is_valid it = (iter_rest d it \<noteq> [])"
    using ok by (auto simp: iter_ok_def iter_rest_def split: option.splits)
  show "the (current_key it) = k \<and> the (current_val it) = v" if "iter_rest d it = (k, v) # r"
    using ok that by (auto simp: iter_ok_def iter_rest_def split: option.splits)
  show "iter_ok d (advance d it) \<and> iter_rest d (advance d it) = r" if "iter_rest d it = kv # r"
  proof -
    from ok that have v: "is_valid it"
      by (auto simp: iter_ok_def iter_rest_def split: option.splits)
    with ok obtain lo hi ks where g: "it_gen it = Some (lo, hi, ks)" "list_all (dhas (emulated_kv d)) ks"
      by (auto simp: iter_ok_def split: option.splits)
    from v ok that g have "r = map (\<lambda>k. (from_fdb_key d k, the (dget (emulated_kv d) k))) (scan_keys lo hi ks)"
      by (auto simp: iter_ok_def iter_rest_def split: option.splits)
    with advance_rest [OF g] show ?thesis by (auto simp: advance_def)
  qed
qed

lemma iter_seek_rest:
  assumes "fdb_ok d"
  shows "\<exists>it'. iter_seek d p it = Inr it' \<and> iter_ok d it' \<and> iter_rest d it' = fdb_scan d p"
proof -
  obtain e where e: "strinc (to_fdb_key d p) = Inr e"
    using strinc_prefixed [OF assms] by blast
  have "list_all (dhas (emulated_kv d)) (sort (dkeys (emulated_kv d)))"
    by (auto simp: list_all_iff dhas_iff)
  from advance_rest [OF _ this, of "it\<lparr>it_gen := Some (to_fdb_key d p, e, sort (dkeys (emulated_kv d)))\<rparr>" "to_fdb_key d p" e]
  show ?thesis
    using e by (auto simp: iter_seek_def Let_def fdb_scan_eq [OF assms] raw_scan_def scan_keys_filter strinc_Inr [OF e])
qed

section \<open>Properties\<close>

lemma be_bytes_Suc: "be_bytes (Suc w) n = char_of (n div 256 ^ w) # be_bytes w n"
proof -
  have "map f [0..<Suc w] = f 0 # map (\<lambda>i. f (Suc i)) [0..<w]" for f :: "nat \<Rightarrow> char"
    by (simp add: upt_conv_Cons map_Suc_upt [symmetric] comp_def del: upt_Suc)
  then show ?thesis by (simp add: be_bytes_def del: upt_Suc)
qed

lemma be_bytes_mod: "be_bytes w n = be_bytes w (n mod 256 ^ w)"
proof (induction w arbitrary: n)
  case 0
  show ?case by (simp add: be_bytes_def)
next
  case (Suc w)
  have "n mod 256 ^ Suc w = 256 ^ w * (n div 256 ^ w mod 256) + n mod 256 ^ w"
    unfolding power_Suc2 by (rule mod_mult2_eq)
  then have "n mod 256 ^ Suc w div 256 ^ w = n div 256 ^ w mod 256"
    by simp
  moreover have "n mod 256 ^ Suc w mod 256 ^ w = n mod 256 ^ w"
    by (simp add: mod_mod_cancel)
  ultimately show ?case
    using Suc.IH [of n] Suc.IH [of "n mod 256 ^ Suc w"] by (simp add: be_bytes_Suc)
qed

lemma be_bytes_less: "m < n \<Longrightarrow> n < 256 ^ w \<Longrightarrow> be_bytes w m < be_bytes w n"
proof (induction w arbitrary: m n)
  case 0
  then show ?case by simp
next
  case (Suc w)
  let ?q = "\<lambda>x. x div 256 ^ w" and ?r = "\<lambda>x. x mod (256 ^ w :: nat)"
  have lt: "?q m < 256" "?q n < 256"
    using Suc.prems by (auto simp: less_mult_imp_div_less)
  then have oc: "of_char (char_of (?q m) :: char) = ?q m" "of_char (char_of (?q n) :: char) = ?q n"
    by simp_all
  show ?case
  proof (cases "?q m = ?q n")
    case True
    have "?r m < ?r n"
    proof (rule ccontr)
      assume "\<not> ?r m < ?r n"
      then have "?q n * 256 ^ w + ?r n \<le> ?q m * 256 ^ w + ?r m" using True by simp
      with Suc.prems show False by (simp add: div_mult_mod_eq)
    qed
    then have "be_bytes w (?r m) < be_bytes w (?r n)"
      using Suc.IH by simp
    with True show ?thesis by (simp add: be_bytes_Suc flip: be_bytes_mod)
  next
    case False
    with Suc.prems have "?q m < ?q n" by (metis div_le_mono le_neq_implies_less less_imp_le)
    with oc show ?thesis by (simp add: be_bytes_Suc less_char_def)
  qed
qed

text \<open>
  The upper bound computed for a prefix is exact: a key lies between the prefix and the
  bound if and only if it starts with the prefix; the bound exists unless the prefix consists
  of 0xFF bytes only.
\<close>

theorem strinc_exact_bound:
  "case strinc pfx of
     Inl e \<Rightarrow> kind_of_exc e = ValueErr \<and> set pfx \<subseteq> {FF}
   | Inr e \<Rightarrow> \<not> set pfx \<subseteq> {FF} \<and> (\<forall>k. (pfx \<le> k \<and> k < e) = startswith k pfx)"
proof (cases "strinc pfx")
  case (Inl e)
  then have "kind_of_exc e = ValueErr" by (auto simp: strinc_def Let_def split: if_splits)
  with Inl strinc_Inl [of pfx] show ?thesis by simp
next
  case (Inr e)
  with strinc_Inl [of pfx] strinc_Inr [OF Inr] show ?thesis by simp
qed

definition put_all :: "fdb_driver \<Rightarrow> (bytes \<times> bytes) list \<Rightarrow> fdb_driver" where
  "put_all d kvs = foldl (\<lambda>d (k, v). snd (fdb_put k v d)) d kvs"

text \<open>
  C35. The driver is an ordered map: after any sequence of writes to a fresh driver a lookup
  gives the last value written under the key, and a prefix scan succeeds and lists exactly the
  keys with that prefix, in lexicographic order, each once, with its last value. Walking the
  seek iterator with the cursor loop lists the same entries, and ends.
\<close>

theorem fdb_driver_is_ordered_map:
  "\<exists>xs it. let d = put_all (fdb_init path) kvs in
     fdb_get d k = map_of (rev kvs) k \<and>
     fdb_scan_prefix d p = Inr xs \<and> sorted (map fst xs) \<and> distinct (map fst xs) \<and>
     map_of xs k = (if startswith k p then map_of (rev kvs) k else None) \<and>
     iter_seek d p new_iter = Inr it \<and>
     cursor_scan is_valid (\<lambda>i. the (current_key i)) (\<lambda>i. the (current_val i)) (advance d) p it = Some xs"
proof -
  let ?d = "put_all (fdb_init path) kvs"
  have pa: "?d = fdb.put_all (fdb_init path) kvs"
    by (simp add: put_all_def fdb.put_all_def)
  have ok: "fdb_ok ?d"
    unfolding pa by (rule fdb.invar_put_all) (rule fdb_ok_init)
  have "fdb_get (fdb_init path) j = None" for j
    by (simp add: fdb_get_def fdb_init_def Let_def)
  then have get: "fdb_get ?d j = map_of (rev kvs) j" for j
    unfolding pa using fdb.get_put_all [OF fdb_ok_init, of path kvs j] by (simp split: option.splits)
  obtain xs where xs: "fdb_scan_prefix ?d p = Inr xs" "fdb_scan ?d p = xs"
    using fdb_scan_prefix_total [OF ok] by (simp add: fdb_scan_def)
  obtain it where it: "iter_seek ?d p new_iter = Inr it" "iter_ok ?d it" "iter_rest ?d it = xs"
    using iter_seek_rest [OF ok] xs(2) by blast
  have "takeWhile (\<lambda>(k, v). startswith k p) xs = xs"
    using fdb.scan_mem [OF ok, of _ _ p] xs(2) by (auto simp: takeWhile_eq_all_conv)
  then have "cursor_scan is_valid (\<lambda>i. the (current_key i)) (\<lambda>i. the (current_val i)) (advance ?d) p it = Some xs"
    using seek.scan_terminates [OF it(2), of p] it(3) by simp
  then show ?thesis
    using xs it(1) get fdb.scan_sorted [OF ok, of p] fdb.scan_distinct [OF ok, of p] fdb.scan_get [OF ok, of p k]
    by (auto simp: Let_def)
qed

lemma be_bytes_zero: "be_bytes w 0 = replicate w (CHR 0x00)"
proof -
  have "char_of (0 :: nat) = CHR 0x00" by code_simp
  then show ?thesis by (simp add: be_bytes_def map_replicate_const)
qed

definition stamped :: "fdb_driver \<Rightarrow> bool" where
  "stamped d \<longleftrightarrow> 0 \<le> commit_seq d \<and> Inr (last_versionstamp d) = pack_versionstamp (commit_seq d)"

lemma stamped_init: "stamped (fdb_init p)"
  by (simp add: stamped_def fdb_init_def Let_def pack_versionstamp_def be_bytes_zero
      flip: replicate_add)

lemma append_less_same: "length a = length b \<Longrightarrow> (a :: bytes) < b \<Longrightarrow> a @ c < b @ c'"
  by (induction a b rule: list_induct2) auto

text \<open>
  Below the 64-bit limit of the commit counter every write succeeds and its versionstamp is
  above the previous one in byte order; a write past the limit raises, with the value already
  stored and the old stamp kept. A fresh driver starts from the zero stamp.
\<close>

theorem versionstamps_increase:
  assumes "stamped d"
  shows "stamped (fdb_init p) \<and>
    (case fdb_put k v d of
       (Inr _, d') \<Rightarrow> stamped d' \<and> last_versionstamp d < last_versionstamp d' \<and> commit_seq d + 1 < 2 ^ 64
     | (Inl e, d') \<Rightarrow> commit_seq d + 1 = 2 ^ 64 \<and> last_versionstamp d' = last_versionstamp d \<and>
                     fdb_get d' k = Some v)"
proof -
  note init = stamped_init [of p]
  from assms have b: "0 \<le> commit_seq d" "commit_seq d < 2 ^ 64"
    and s: "last_versionstamp d = be_bytes 8 (nat (commit_seq d)) @ be_bytes 2 0"
    by (auto simp: stamped_def pack_versionstamp_def split: if_splits)
  show ?thesis
  proof (cases "commit_seq d + 1 < 2 ^ 64")
    case True
    have "nat (commit_seq d + 1) < nat (2 ^ 64)" using True b(1) by (simp add: nat_less_eq_zless)
    then have lim: "nat (commit_seq d + 1) < 256 ^ 8" by simp
    have "be_bytes 8 (nat (commit_seq d)) < be_bytes 8 (nat (commit_seq d + 1))"
      using b by (intro be_bytes_less lim) simp
    then have "last_versionstamp d < be_bytes 8 (nat (commit_seq d + 1)) @ be_bytes 2 0"
      unfolding s by (intro append_less_same) (simp_all add: be_bytes_def)
    with True b init show ?thesis
      by (simp add: fdb_put_def Let_def stamped_def pack_versionstamp_def)
  next
    case False
    with b init show ?thesis
      by (simp add: fdb_put_def Let_def pack_versionstamp_def fdb_get_def to_fdb_key_def)
  qed
qed

theorem versionstamps_increase_witness:
  "last_versionstamp (fdb_init ''adb'') < last_versionstamp (snd (fdb_put ''k'' ''v'' (fdb_init ''adb'')))"
proof -
  note s = stamped_init [of "''adb''"]
  have c: "commit_seq (fdb_init ''adb'') = 0" by (simp add: fdb_init_def Let_def)
  obtain r d' where p: "fdb_put ''k'' ''v'' (fdb_init ''adb'') = (r, d')"
    by (metis surj_pair)
  from versionstamps_increase [OF s, of "''adb''" "''k''" "''v''"] c show ?thesis
    unfolding p by (cases r) simp_all
qed

lemma between_prefix:
  assumes "p \<le> k" "k \<le> k'" "startswith k' p"
  shows "startswith k (p :: bytes)"
proof (cases "strinc p")
  case (Inl e)
  then have "set p \<subseteq> {FF}" using strinc_Inl [of p] by simp
  then have "p = replicate (length p) FF" by (metis replicate_length_same singletonD subsetD)
  with assms(1) FF_run_le [of "length p" k] show ?thesis by (simp add: startswith_iff)
next
  case (Inr e)
  with assms strinc_Inr [OF Inr] show ?thesis by (meson order.strict_trans1)
qed

lemma takeWhile_prefix:
  "sorted (map fst xs) \<Longrightarrow> \<forall>(k, v) \<in> set xs. p \<le> k \<Longrightarrow>
     takeWhile (\<lambda>(k, v). startswith k p) xs = filter (\<lambda>(k, v). startswith k p) (xs :: (bytes \<times> bytes) list)"
proof (induction xs)
  case (Cons kv xs)
  obtain k v where kv: "kv = (k, v)" by (cases kv)
  have "filter (\<lambda>(k, v). startswith k p) xs = []" if "\<not> startswith k p"
    using Cons.prems that between_prefix [of p k] by (fastforce simp: kv filter_empty_conv)
  with Cons show ?case by (auto simp: kv)
qed simp

text \<open>
  The scan loop of the RocksDB driver ends, and over a cursor positioned as a seek to the
  prefix leaves it (every entry at or above the prefix, in key order) it yields exactly the
  entries whose key starts with the prefix.
\<close>

theorem rocks_scan_prefix_correct:
  assumes "cursor valid key val nxt ok rest" "ok it"
    and "rest it = filter (\<lambda>(k, v). p \<le> k) entries" "sorted (map fst entries)"
  shows "cursor_scan valid key val nxt p it = Some (filter (\<lambda>(k, v). startswith k p) entries)"
proof -
  have s: "sorted (map fst (rest it))"
    using assms(3,4) by (simp add: sorted_filter)
  have "cursor_scan valid key val nxt p it = Some (takeWhile (\<lambda>(k, v). startswith k p) (rest it))"
    by (rule cursor.scan_terminates [OF assms(1,2)])
  also have "takeWhile (\<lambda>(k, v). startswith k p) (rest it) = filter (\<lambda>(k, v). startswith k p) (rest it)"
    by (rule takeWhile_prefix [OF s]) (use assms(3) in auto)
  also have "\<dots> = filter (\<lambda>(k, v). startswith k p) entries"
  proof -
    have "startswith k p \<Longrightarrow> p \<le> k" for k :: bytes
      by (auto simp: startswith_iff prefix_def) (metis append_Nil2 append_le_iff Nil_le_Cons list.exhaust order_refl)
    then show ?thesis unfolding assms(3) by (auto intro: filter_cong)
  qed
  finally show ?thesis .
qed

definition sample_driver :: fdb_driver where
  "sample_driver = \<lparr>fdb_path = ''adb'', fdb_prefix = ''p:'', last_versionstamp = [], commit_seq = 3,
     emulated_kv = [(''p:b2'', ''y''), (''p:b1'', ''x''), (''p:b'', ''w''), (''p:a'', ''v'')]\<rparr>"

theorem rocks_scan_prefix_correct_witness:
  "let d = sample_driver in
   \<exists>it. iter_seek d ''b'' new_iter = Inr it \<and>
     cursor_scan is_valid (\<lambda>i. the (current_key i)) (\<lambda>i. the (current_val i)) (advance d) ''b'' it =
       Some (filter (\<lambda>(k, v). startswith k ''b'') [(''b'', ''w''), (''b1'', ''x''), (''b2'', ''y'')])"
proof -
  define d where "d = sample_driver"
  have ok: "fdb_ok d" and scan: "fdb_scan d ''b'' = [(''b'', ''w''), (''b1'', ''x''), (''b2'', ''y'')]"
    unfolding d_def by code_simp+
  obtain it where it: "iter_seek d ''b'' new_iter = Inr it" "iter_ok d it" "iter_rest d it = fdb_scan d ''b''"
    using iter_seek_rest [OF ok] by blast
  have "iter_rest d it = filter (\<lambda>(k, v). ''b'' \<le> k) [(''b'', ''w''), (''b1'', ''x''), (''b2'', ''y'')]"
    using it(3) scan by simp
  from rocks_scan_prefix_correct [OF seek.cursor_axioms it(2) this] it(1) show ?thesis
    unfolding d_def [symmetric] Let_def by simp
qed

end
