(* ===== verification/AnchorStore.thy ===== *)
theory AnchorStore
  imports AnchorDriver StateAdapters
begin

text \<open>
  The ledger, \<^verbatim>\<open>state/anchor/store.py\<close>, and its relay, \<^verbatim>\<open>state/anchor/mempool.py\<close>: objects
  are stored under the hash of their canonical text, a stream's head points to its last commit,
  the node that holds the lock (SEALER) writes and the others (PROPOSER) send their requests
  over the tunnel and wait for the acknowledgement.

  A \<open>host\<close> collects what the store is built on: the hash and the JSON codecs, the storage
  driver (any of the drivers of \<^verbatim>\<open>AnchorDriver\<close>), the Redis client behind the tunnel, the
  clock and the signature check of the \<open>nacl\<close> package.
\<close>

section \<open>Data\<close>

datatype anchor_role = SEALER | PROPOSER

record topos_blob =
  tb_action :: string
  from_state :: string
  to_state :: string
  tension :: pyfloat
  details :: string
  timestamp :: pyfloat

record phase_commit =
  stream_id :: string
  executable_payload :: pyval
  tension_at_seal :: pyfloat
  blob_hashes :: "string list"
  parent_hash :: "string option"
  sealed_at :: pyfloat

record logic_stream =
  ls_id :: string
  ls_action :: string
  ls_payload :: pyval
  ls_metadata :: pydict

record sealed_kernel =
  kernel_id :: string
  sk_stream_id :: string
  sk_payload :: pyval
  sk_tension :: pyfloat
  sk_signature :: string

definition asdict_blob :: "topos_blob \<Rightarrow> pydict" where
  "asdict_blob b = [(''action'', PStr (tb_action b)), (''from_state'', PStr (from_state b)),
     (''to_state'', PStr (to_state b)), (''tension'', PFloat (tension b)), (''details'', PStr (details b)),
     (''timestamp'', PFloat (timestamp b))]"

definition asdict_commit :: "phase_commit \<Rightarrow> pydict" where
  "asdict_commit c = [(''stream_id'', PStr (stream_id c)), (''executable_payload'', executable_payload c),
     (''tension_at_seal'', PFloat (tension_at_seal c)), (''blob_hashes'', str_list (blob_hashes c)),
     (''parent_hash'', opt_str (parent_hash c)), (''sealed_at'', PFloat (sealed_at c))]"

definition dump_kernel :: "sealed_kernel \<Rightarrow> pydict" where
  "dump_kernel k = [(''kernel_id'', PStr (kernel_id k)), (''stream_id'', PStr (sk_stream_id k)),
     (''executable_payload'', sk_payload k), (''tension_at_seal'', PFloat (sk_tension k)),
     (''signature'', PStr (sk_signature k))]"

text \<open>\<open>SealedKernel(**d)\<close>: every field is required, texts must be strings, the tension a number.\<close>

definition req_str :: "pydict \<Rightarrow> string \<Rightarrow> string res" where
  "req_str d k = (case dget d k of Some (PStr s) \<Rightarrow> Inr s | _ \<Rightarrow> Inl (Exc ValidationErr k))"

definition load_kernel :: "prims \<Rightarrow> pydict \<Rightarrow> sealed_kernel res" where
  "load_kernel P d =
     bind_res (req_str d ''kernel_id'') (\<lambda>kid.
     bind_res (req_str d ''stream_id'') (\<lambda>sid.
     bind_res (case dget d ''executable_payload'' of
                 None \<Rightarrow> Inl (Exc ValidationErr ''executable_payload'') | Some v \<Rightarrow> Inr v) (\<lambda>pay.
     bind_res (case dget d ''tension_at_seal'' of
                 None \<Rightarrow> Inl (Exc ValidationErr ''tension_at_seal'')
               | Some v \<Rightarrow> (case py_float_of P v of
                             Inl _ \<Rightarrow> Inl (Exc ValidationErr ''tension_at_seal'') | Inr f \<Rightarrow> Inr f)) (\<lambda>ten.
     bind_res (req_str d ''signature'') (\<lambda>sg.
       Inr \<lparr>kernel_id = kid, sk_stream_id = sid, sk_payload = pay, sk_tension = ten, sk_signature = sg\<rparr>)))))"

lemma load_dump_kernel [simp]: "load_kernel P (dump_kernel k) = Inr k"
  by (simp add: load_kernel_def dump_kernel_def req_str_def)

type_synonym fields = "(string, string) dict"

record ('d, 't) host =
  h_prims :: prims
  h_get :: "'d \<Rightarrow> bytes \<Rightarrow> bytes option"
  h_put :: "bytes \<Rightarrow> bytes \<Rightarrow> ('d, unit) prog"
  h_time :: "nat \<Rightarrow> pyfloat"
  h_verify :: "bytes \<Rightarrow> string \<Rightarrow> bool"
  h_produce :: "string \<Rightarrow> fields \<Rightarrow> ('t, unit) prog"
  h_blpop :: "string \<Rightarrow> ('t, string option) prog"
  h_delete :: "string \<Rightarrow> ('t, unit) prog"
  h_lpush :: "string \<Rightarrow> string \<Rightarrow> ('t, unit) prog"
  h_expire :: "string \<Rightarrow> ('t, unit) prog"
  h_xack :: "string \<Rightarrow> string \<Rightarrow> ('t, unit) prog"

record ('d, 't) anchor_store =
  db :: 'd
  role :: anchor_role
  has_broker :: bool
  consumer_running :: bool
  ticks :: nat
  tunnel :: 't

definition deterministic_hash :: "prims \<Rightarrow> pyval \<Rightarrow> string" where
  "deterministic_hash P data = p_sha256 P (p_canon P data)"

section \<open>The proposer's side of the relay\<close>

definition on_tunnel :: "('t, 'a) prog \<Rightarrow> (('d, 't) anchor_store, 'a) prog" where
  "on_tunnel m st = (case m (tunnel st) of (r, t) \<Rightarrow> (r, st\<lparr>tunnel := t\<rparr>))"

text \<open>\<open>try: m; except Exception: return v\<close>.\<close>

definition catch_with :: "'a \<Rightarrow> ('s, 'a) prog \<Rightarrow> ('s, 'a) prog" where
  "catch_with v m s = (case m s of (Inl _, s') \<Rightarrow> (Inr v, s') | r \<Rightarrow> r)"

definition take_ack :: "('d, 't) host \<Rightarrow> string \<Rightarrow> string \<Rightarrow> (('d, 't) anchor_store, pyval option) prog" where
  "take_ack H ack_key raw_val =
     bindp (on_tunnel (h_delete H ack_key)) (\<lambda>_.
       case p_loads (h_prims H) raw_val of
         Some v \<Rightarrow> ret (Some v)
       | None \<Rightarrow> raise (Exc JsonDecodeErr raw_val))"

definition wait_ack_sync :: "('d, 't) host \<Rightarrow> string \<Rightarrow> (('d, 't) anchor_store, pyval option) prog" where
  "wait_ack_sync H req_id =
     (let ack_key = ack_channel req_id in
      catch_with None
        (bindp (on_tunnel (h_blpop H ack_key)) (\<lambda>r.
           case r of Some raw_val \<Rightarrow> take_ack H ack_key raw_val | None \<Rightarrow> ret None)))"

text \<open>\<open>rounds\<close> is how often the deadline lets the loop wait.\<close>

fun poll_ack :: "('d, 't) host \<Rightarrow> string \<Rightarrow> nat \<Rightarrow> (('d, 't) anchor_store, pyval option) prog" where
  "poll_ack H ack_key 0 = ret None"
| "poll_ack H ack_key (Suc rounds) =
     bindp (on_tunnel (h_blpop H ack_key)) (\<lambda>r.
       case r of Some raw_val \<Rightarrow> take_ack H ack_key raw_val | None \<Rightarrow> poll_ack H ack_key rounds)"

definition wait_ack_async :: "('d, 't) host \<Rightarrow> string \<Rightarrow> nat \<Rightarrow> (('d, 't) anchor_store, pyval option) prog" where
  "wait_ack_async H req_id rounds = catch_with None (poll_ack H (ack_channel req_id) rounds)"

definition propose_object_sync ::
  "('d, 't) host \<Rightarrow> string \<Rightarrow> string \<Rightarrow> string \<Rightarrow> pyval \<Rightarrow> (('d, 't) anchor_store, string) prog" where
  "propose_object_sync H req_id obj_type obj_hash data =
     catch_with obj_hash
       (bindp (on_tunnel (h_produce H mempool_objects
          [(''req_id'', req_id), (''type'', obj_type), (''hash'', obj_hash), (''data'', p_dumps (h_prims H) data)])) (\<lambda>_.
        bindp (wait_ack_sync H req_id) (\<lambda>_. ret obj_hash)))"

definition propose_head_sync ::
  "('d, 't) host \<Rightarrow> string \<Rightarrow> string \<Rightarrow> string \<Rightarrow> (('d, 't) anchor_store, unit) prog" where
  "propose_head_sync H req_id sid commit_hash =
     catch_with ()
       (bindp (on_tunnel (h_produce H mempool_heads
          [(''req_id'', req_id), (''stream_id'', sid), (''commit_hash'', commit_hash)])) (\<lambda>_.
        bindp (wait_ack_sync H req_id) (\<lambda>_. ret ())))"

fun wire_text :: "prims \<Rightarrow> pyval \<Rightarrow> string" where
  "wire_text P (PDict d) = p_dumps P (PDict d)"
| "wire_text P (PList xs) = p_dumps P (PList xs)"
| "wire_text P v = py_str P v"

definition propose_stream_async ::
  "('d, 't) host \<Rightarrow> string \<Rightarrow> nat \<Rightarrow> logic_stream \<Rightarrow> (('d, 't) anchor_store, sealed_kernel option) prog" where
  "propose_stream_async H req_id rounds stream =
     catch_with None
       (bindp (on_tunnel (h_produce H mempool_logic
          [(''req_id'', req_id), (''id'', ls_id stream), (''action'', ls_action stream),
           (''payload'', wire_text (h_prims H) (ls_payload stream)),
           (''metadata'', p_dumps (h_prims H) (PDict (ls_metadata stream)))])) (\<lambda>_.
        bindp (wait_ack_async H req_id rounds) (\<lambda>ack.
          case ack of
            None \<Rightarrow> ret None
          | Some v \<Rightarrow>
              if \<not> truthy v then ret None
              else bindp (lift_res (as_dict v)) (\<lambda>ack_data.
                     if dget ack_data ''status'' = Some (PStr ''SEALED'') \<and> dhas ack_data ''kernel''
                     then bindp (lift_res (bind_res (as_dict (dget_or ack_data ''kernel'' PNone)) (load_kernel (h_prims H))))
                            (\<lambda>k. ret (Some k))
                     else ret None))))"

section \<open>The store\<close>

definition on_db :: "('d, 'a) prog \<Rightarrow> (('d, 't) anchor_store, 'a) prog" where
  "on_db m st = (case m (db st) of (r, d) \<Rightarrow> (r, st\<lparr>db := d\<rparr>))"

definition now :: "('d, 't) host \<Rightarrow> (('d, 't) anchor_store, pyfloat) prog" where
  "now H st = (Inr (h_time H (ticks st)), st\<lparr>ticks := ticks st + 1\<rparr>)"

definition object_key :: "string \<Rightarrow> string \<Rightarrow> bytes" where
  "object_key obj_type obj_hash = obj_type @ '':'' @ obj_hash"

definition put_object ::
  "('d, 't) host \<Rightarrow> string \<Rightarrow> string \<Rightarrow> pyval \<Rightarrow> (('d, 't) anchor_store, string) prog" where
  "put_object H req_id obj_type data st =
     (let obj_hash = deterministic_hash (h_prims H) data in
      if role st = SEALER then
        (let key = object_key obj_type obj_hash in
         if drv_contains (h_get H) (db st) key then (Inr obj_hash, st)
         else bindp (on_db (h_put H key (p_dumps (h_prims H) data))) (\<lambda>_. ret obj_hash) st)
      else propose_object_sync H req_id obj_type obj_hash data st)"

definition save_transition :: "('d, 't) host \<Rightarrow> string \<Rightarrow> topos_blob \<Rightarrow> (('d, 't) anchor_store, string) prog" where
  "save_transition H req_id blob = put_object H req_id ''blob'' (PDict (asdict_blob blob))"

definition update_head :: "('d, 't) host \<Rightarrow> string \<Rightarrow> string \<Rightarrow> string \<Rightarrow> (('d, 't) anchor_store, unit) prog" where
  "update_head H req_id sid commit_hash st =
     (if role st = SEALER then on_db (h_put H (key_ref sid) commit_hash) st
      else propose_head_sync H req_id sid commit_hash st)"

definition get_head_hash :: "('d, 't) host \<Rightarrow> string \<Rightarrow> ('d, 't) anchor_store \<Rightarrow> string option" where
  "get_head_hash H sid st =
     (if drv_contains (h_get H) (db st) (key_ref sid) then h_get H (db st) (key_ref sid) else None)"

definition save_kernel_unsafe ::
  "('d, 't) host \<Rightarrow> string \<Rightarrow> phase_commit \<Rightarrow> (('d, 't) anchor_store, string) prog" where
  "save_kernel_unsafe H req_id commit = put_object H req_id ''commit'' (PDict (asdict_commit commit))"

definition handle_warden_anomaly ::
  "('d, 't) host \<Rightarrow> string \<Rightarrow> string \<Rightarrow> string \<Rightarrow> (('d, 't) anchor_store, unit) prog" where
  "handle_warden_anomaly H req_id action det =
     bindp (now H) (\<lambda>t.
     bindp (save_transition H req_id
        \<lparr>tb_action = ''SYS_WARDEN_GUARD::'' @ action, from_state = ''host.python.sandbox'',
         to_state = ''host.os.kernel'', tension = Fin 1, details = det, timestamp = t\<rparr>) (\<lambda>_. ret ()))"

definition valid_count :: "('d, 't) host \<Rightarrow> bytes \<Rightarrow> string list \<Rightarrow> int" where
  "valid_count H canonical_bytes signatures = int (length (filter (h_verify H canonical_bytes) signatures))"

definition reject_epoch :: "('d, 't) host \<Rightarrow> string \<Rightarrow> string \<Rightarrow> (('d, 't) anchor_store, string) prog" where
  "reject_epoch H req_id error_msg =
     bindp (handle_warden_anomaly H req_id ''kernel.privilege_escalation_attempt'' error_msg)
       (\<lambda>_. raise (Exc PermissionErr error_msg))"

definition seal_system_epoch ::
  "('d, 't) host \<Rightarrow> string \<Rightarrow> phase_commit \<Rightarrow> string list \<Rightarrow> int \<Rightarrow> (('d, 't) anchor_store, string) prog" where
  "seal_system_epoch H req_id commit signatures threshold =
     (if signatures = [] then
        reject_epoch H req_id ''System Epoch Seal Rejected: No signatures provided.''
      else
        (let n = valid_count H (p_canon (h_prims H) (PDict (asdict_commit commit))) signatures in
         if n < threshold then
           reject_epoch H req_id (''Multi-Sig Threshold Failed: '' @ show_int n @ ''/'' @ show_int threshold @
             '' valid signatures.'')
         else save_kernel_unsafe H req_id commit))"

section \<open>The sealer's consumer\<close>

text \<open>\<open>loop\<close> tells whether an event loop is running; the task the code starts is alive while \<open>consumer_running\<close>.\<close>

definition start_sealer_consumer :: "bool \<Rightarrow> ('d, 't) anchor_store \<Rightarrow> ('d, 't) anchor_store" where
  "start_sealer_consumer loop st =
     (if consumer_running st then st else if loop then st\<lparr>consumer_running := True\<rparr> else st)"

definition ensure_sealer_consumer :: "bool \<Rightarrow> ('d, 't) anchor_store \<Rightarrow> ('d, 't) anchor_store" where
  "ensure_sealer_consumer loop st = (if consumer_running st then st else start_sealer_consumer loop st)"

definition stop_sealer_consumer :: "('d, 't) anchor_store \<Rightarrow> ('d, 't) anchor_store" where
  "stop_sealer_consumer st = st\<lparr>consumer_running := False\<rparr>"

definition initialize_consensus_node :: "bool \<Rightarrow> bool \<Rightarrow> 'd \<Rightarrow> 't \<Rightarrow> ('d, 't) anchor_store" where
  "initialize_consensus_node sealer loop d t =
     (let st = \<lparr>db = d, role = (if sealer then SEALER else PROPOSER), has_broker = sealer,
               consumer_running = False, ticks = 0, tunnel = t\<rparr>
      in if sealer then start_sealer_consumer loop st else st)"

text \<open>The class keeps one instance; \<open>close\<close> forgets it.\<close>

definition anchor_store_new ::
  "bool \<Rightarrow> bool \<Rightarrow> 'd \<Rightarrow> 't \<Rightarrow> ('d, 't) anchor_store option \<Rightarrow> ('d, 't) anchor_store option" where
  "anchor_store_new sealer loop d t inst =
     (case inst of None \<Rightarrow> Some (initialize_consensus_node sealer loop d t) | Some st \<Rightarrow> Some st)"

definition store_close ::
  "('d \<Rightarrow> 'd) \<Rightarrow> ('d, 't) anchor_store \<Rightarrow> ('d, 't) anchor_store \<times> ('d, 't) anchor_store option" where
  "store_close close_db st = (let st' = stop_sealer_consumer st in (st'\<lparr>db := close_db (db st')\<rparr>, None))"

definition propose_and_seal ::
  "('d, 't) host \<Rightarrow> string \<Rightarrow> nat \<Rightarrow> bool \<Rightarrow> logic_stream \<Rightarrow> (('d, 't) anchor_store, sealed_kernel option) prog" where
  "propose_and_seal H req_id rounds loop stream st0 =
     (if role st0 = PROPOSER then propose_stream_async H req_id rounds stream st0
      else
        (let st = ensure_sealer_consumer loop st0;
             parent = (case get_head_hash H (ls_id stream) st of Some (c # h) \<Rightarrow> c # h | _ \<Rightarrow> ''genesis'');
             final_root = ls_payload stream
         in (bindp (now H) (\<lambda>t1.
             bindp (save_transition H req_id
               \<lparr>tb_action = ls_action stream, from_state = ''logic.stream'', to_state = ''sealed.kernel'',
                tension = Fin 0, details = ''[TRANSITION] '' @ ls_id stream, timestamp = t1\<rparr>) (\<lambda>bh.
             bindp (now H) (\<lambda>t2.
             bindp (save_kernel_unsafe H req_id
               \<lparr>stream_id = ls_id stream, executable_payload = final_root, tension_at_seal = Fin 0,
                blob_hashes = [bh], parent_hash = Some parent, sealed_at = t2\<rparr>) (\<lambda>sg.
             bindp (update_head H req_id (ls_id stream) sg) (\<lambda>_.
               ret (Some \<lparr>kernel_id = ''ker_'' @ ls_id stream, sk_stream_id = ls_id stream, sk_payload = final_root,
                          sk_tension = Fin 0, sk_signature = sg\<rparr>))))))) st))"

definition send_ack_async :: "('d, 't) host \<Rightarrow> string \<Rightarrow> pydict \<Rightarrow> (('d, 't) anchor_store, unit) prog" where
  "send_ack_async H req_id reply =
     (if req_id = [] then ret ()
      else catch_with ()
        (bindp (on_tunnel (h_lpush H (ack_channel req_id) (p_dumps (h_prims H) (PDict reply)))) (\<lambda>_.
               on_tunnel (h_expire H (ack_channel req_id)))))"

definition field :: "fields \<Rightarrow> string \<Rightarrow> string res" where
  "field fs k = (case dget fs k of Some v \<Rightarrow> Inr v | None \<Rightarrow> Inl (Exc KeyErr k))"

definition loads_or :: "prims \<Rightarrow> string \<Rightarrow> pyval \<Rightarrow> pyval" where
  "loads_or P text v = (case p_loads P text of Some x \<Rightarrow> x | None \<Rightarrow> v)"

definition mk_stream :: "prims \<Rightarrow> fields \<Rightarrow> logic_stream res" where
  "mk_stream P fs =
     (let raw_payload = dget_or fs ''payload'' ''{}'';
          parsed_payload = loads_or P raw_payload (PStr raw_payload);
          parsed_meta = loads_or P (dget_or fs ''metadata'' ''{}'') (PDict [])
      in bind_res (field fs ''id'') (\<lambda>sid.
           case parsed_meta of
             PDict m \<Rightarrow> Inr \<lparr>ls_id = sid, ls_action = dget_or fs ''action'' ''default_action'',
                             ls_payload = parsed_payload, ls_metadata = m\<rparr>
           | _ \<Rightarrow> Inl (Exc ValidationErr ''metadata'')))"

text \<open>The body of the try block, by topic.\<close>

definition serve_message ::
  "('d, 't) host \<Rightarrow> nat \<Rightarrow> bool \<Rightarrow> string \<Rightarrow> fields \<Rightarrow> (('d, 't) anchor_store, unit) prog" where
  "serve_message H rounds loop stream_name fs st =
     (let req_id = dget_or fs ''req_id'' []; P = h_prims H in
      if stream_name = mempool_objects then
        bindp (lift_res (field fs ''type'')) (\<lambda>obj_type.
        bindp (lift_res (field fs ''data'')) (\<lambda>text.
        bindp (lift_res (case p_loads P text of Some v \<Rightarrow> Inr v | None \<Rightarrow> Inl (Exc JsonDecodeErr text))) (\<lambda>data.
        bindp (put_object H req_id obj_type data) (\<lambda>h.
          send_ack_async H req_id [(''status'', PStr ''OK''), (''hash'', PStr h)])))) st
      else if stream_name = mempool_heads then
        bindp (lift_res (field fs ''stream_id'')) (\<lambda>sid.
        bindp (lift_res (field fs ''commit_hash'')) (\<lambda>ch.
        bindp (update_head H req_id sid ch) (\<lambda>_.
          send_ack_async H req_id [(''status'', PStr ''OK'')]))) st
      else if stream_name = mempool_logic then
        (if \<not> has_broker st then send_ack_async H req_id [(''status'', PStr ''NO_WASM'')] st
         else
           bindp (lift_res (mk_stream P fs)) (\<lambda>ls.
           bindp (propose_and_seal H req_id rounds loop ls) (\<lambda>sealed.
             case sealed of
               Some k \<Rightarrow> send_ack_async H req_id [(''status'', PStr ''SEALED''), (''kernel'', PDict (dump_kernel k))]
             | None \<Rightarrow> send_ack_async H req_id [(''status'', PStr ''REJECTED'')])) st)
      else (Inr (), st))"

definition handle_message ::
  "('d, 't) host \<Rightarrow> nat \<Rightarrow> bool \<Rightarrow> string \<Rightarrow> string \<Rightarrow> fields \<Rightarrow> (('d, 't) anchor_store, unit) prog" where
  "handle_message H rounds loop stream_name msg_id fs st =
     (let req_id = dget_or fs ''req_id'' [];
          st1 = (case serve_message H rounds loop stream_name fs st of
                   (Inr _, st') \<Rightarrow> st'
                 | (Inl e, st') \<Rightarrow>
                     snd (send_ack_async H req_id [(''status'', PStr ''ERROR''), (''msg'', PStr (msg_of_exc e))] st'))
      in on_tunnel (h_xack H stream_name msg_id) st1)"

text \<open>One batch the consumer reads; an exception ends the batch and the loop goes on with the next.\<close>

fun consume_batch ::
  "('d, 't) host \<Rightarrow> nat \<Rightarrow> bool \<Rightarrow> (string \<times> string \<times> fields) list \<Rightarrow> (('d, 't) anchor_store, unit) prog" where
  "consume_batch H rounds loop [] = ret ()"
| "consume_batch H rounds loop ((topic, msg_id, fs) # ms) =
     bindp (handle_message H rounds loop topic msg_id fs) (\<lambda>_. consume_batch H rounds loop ms)"

section \<open>A ledger over any driver\<close>

lemma object_keys_distinct [simp]:
  "object_key ''commit'' h \<noteq> key_ref s" "key_ref s \<noteq> object_key ''commit'' h"
  "object_key ''blob'' h \<noteq> key_ref s" "key_ref s \<noteq> object_key ''blob'' h"
  "object_key ''blob'' h \<noteq> object_key ''commit'' h'" "object_key ''commit'' h' \<noteq> object_key ''blob'' h"
  "key_ref a = key_ref b \<longleftrightarrow> a = b"
  by (simp_all add: object_key_def key_ref_def)

text \<open>What the tunnel's operations leave alone.\<close>

definition store_core :: "('d, 't) anchor_store \<Rightarrow> 'd \<times> anchor_role" where
  "store_core st = (db st, role st)"

lemma core_on_tunnel: "store_core (snd (on_tunnel m st)) = store_core st"
  by (simp add: on_tunnel_def store_core_def split: prod.split)

lemma core_send_ack: "store_core (snd (send_ack_async H r d st)) = store_core st"
  by (auto simp: send_ack_async_def ret_def catch_with_def bindp_def on_tunnel_def store_core_def
      split: prod.split sum.split)

lemma core_handle_message:
  "store_core (snd (handle_message H rounds loop topic mid fs st)) =
     store_core (snd (serve_message H rounds loop topic fs st))"
proof -
  obtain r st1 where s: "serve_message H rounds loop topic fs st = (r, st1)"
    by (metis surj_pair)
  show ?thesis
    unfolding handle_message_def Let_def s by (cases r) (simp_all add: core_on_tunnel core_send_ack)
qed

text \<open>
  A host whose driver keeps the driver contract; \<open>room d n\<close> says that \<open>n\<close> more writes succeed.
\<close>

locale ledger_host = anchor_driver get put invar scan
  for get :: "'d \<Rightarrow> bytes \<Rightarrow> bytes option" and put :: "'d \<Rightarrow> bytes \<Rightarrow> bytes \<Rightarrow> 'd"
    and invar :: "'d \<Rightarrow> bool" and scan :: "'d \<Rightarrow> bytes \<Rightarrow> (bytes \<times> bytes) list" +
  fixes H :: "('d, 't) host" and room :: "'d \<Rightarrow> nat \<Rightarrow> bool"
  assumes host_get: "h_get H = get"
    and host_put: "snd (h_put H k v d) = put d k v"
    and room_put: "room d (Suc n) \<Longrightarrow> fst (h_put H k v d) = Inr () \<and> room (put d k v) n"
    and room_less: "room d (Suc n) \<Longrightarrow> room d n"
begin

text \<open>Writing an object only if its key is free.\<close>

definition ins :: "'d \<Rightarrow> bytes \<Rightarrow> bytes \<Rightarrow> 'd" where
  "ins d k v = (if get d k = None then put d k v else d)"

lemma get_ins:
  "invar d \<Longrightarrow> get (ins d k v) k' = (if k' = k \<and> get d k = None then Some v else get d k')"
  by (simp add: ins_def get_put)

lemma invar_ins: "invar d \<Longrightarrow> invar (ins d k v)"
  by (simp add: ins_def invar_put)

lemma ins_twice: "invar d \<Longrightarrow> ins (ins d k v) k v = ins d k v"
  by (auto simp: ins_def get_put)

lemma room_ins: "room d (Suc n) \<Longrightarrow> room (ins d k v) n"
  by (simp add: ins_def room_put room_less)

lemma put_eq: "room d (Suc n) \<Longrightarrow> h_put H k v d = (Inr (), put d k v)"
  by (metis host_put prod.collapse room_put)

lemma put_object_eq:
  assumes "role st = SEALER" "room (db st) (Suc n)"
  shows "put_object H r ty data st =
    (Inr (deterministic_hash (h_prims H) data),
     st\<lparr>db := ins (db st) (object_key ty (deterministic_hash (h_prims H) data)) (p_dumps (h_prims H) data)\<rparr>)"
  using assms
  by (simp add: put_object_def Let_def drv_contains_def host_get ins_def bindp_def on_db_def put_eq ret_def)

lemma update_head_eq:
  assumes "role st = SEALER" "room (db st) (Suc n)"
  shows "update_head H r sid c st = (Inr (), st\<lparr>db := put (db st) (key_ref sid) c\<rparr>)"
  using assms by (simp add: update_head_def on_db_def put_eq)

lemma get_head_hash_eq: "get_head_hash H sid st = get (db st) (key_ref sid)"
  by (simp add: get_head_hash_def drv_contains_def host_get)

text \<open>A rejected epoch writes no object but the anomaly blob.\<close>

lemma reject_epoch_eq:
  assumes "role st = SEALER" "room (db st) (Suc n)"
  shows "\<exists>h txt. fst (reject_epoch H r msg st) = Inl (Exc PermissionErr msg) \<and>
    db (snd (reject_epoch H r msg st)) = ins (db st) (object_key ''blob'' h) txt"
  using assms
  by (auto simp: reject_epoch_def handle_warden_anomaly_def save_transition_def bindp_def now_def
      put_object_eq [where n = n] ret_def raise_def)

definition sealed_commit :: "logic_stream \<Rightarrow> ('d, 't) anchor_store \<Rightarrow> phase_commit" where
  "sealed_commit ls st =
     \<lparr>stream_id = ls_id ls, executable_payload = ls_payload ls, tension_at_seal = Fin 0,
      blob_hashes = [deterministic_hash (h_prims H) (PDict (asdict_blob
        \<lparr>tb_action = ls_action ls, from_state = ''logic.stream'', to_state = ''sealed.kernel'',
         tension = Fin 0, details = ''[TRANSITION] '' @ ls_id ls, timestamp = h_time H (ticks st)\<rparr>))],
      parent_hash = Some (case get (db st) (key_ref (ls_id ls)) of Some (x # h) \<Rightarrow> x # h | _ \<Rightarrow> ''genesis''),
      sealed_at = h_time H (ticks st + 1)\<rparr>"

definition sealed_hash :: "logic_stream \<Rightarrow> ('d, 't) anchor_store \<Rightarrow> string" where
  "sealed_hash ls st = deterministic_hash (h_prims H) (PDict (asdict_commit (sealed_commit ls st)))"

lemma propose_and_seal_eq:
  assumes "role st = SEALER" "room (db st) 3"
  shows "fst (propose_and_seal H r rounds loop ls st) =
      Inr (Some \<lparr>kernel_id = ''ker_'' @ ls_id ls, sk_stream_id = ls_id ls, sk_payload = ls_payload ls, sk_tension = Fin 0,
                 sk_signature = sealed_hash ls st\<rparr>)" (is ?res)
    and "role (snd (propose_and_seal H r rounds loop ls st)) = SEALER" (is ?role)
    and "\<exists>bh txt. db (snd (propose_and_seal H r rounds loop ls st)) =
      put (ins (ins (db st) (object_key ''blob'' bh) txt)
        (object_key ''commit'' (sealed_hash ls st)) (p_dumps (h_prims H) (PDict (asdict_commit (sealed_commit ls st)))))
      (key_ref (ls_id ls)) (sealed_hash ls st)" (is ?db)
proof -
  have r3: "room (db st) (Suc (Suc (Suc 0)))" using assms(2) by (simp add: numeral_3_eq_3)
  have st: "role (ensure_sealer_consumer loop st) = SEALER" "db (ensure_sealer_consumer loop st) = db st"
      "ticks (ensure_sealer_consumer loop st) = ticks st"
    using assms(1) by (simp_all add: ensure_sealer_consumer_def start_sealer_consumer_def)
  note eqs = propose_and_seal_def Let_def bindp_def now_def save_transition_def save_kernel_unsafe_def
    put_object_eq [where n = "Suc (Suc 0)"] put_object_eq [where n = "Suc 0"] room_ins
    update_head_eq [where n = 0] ret_def get_head_hash_eq sealed_hash_def sealed_commit_def
  show ?res ?role using assms(1) r3 st by (simp_all add: eqs)
  show ?db using assms(1) r3 st by (auto simp: eqs)
qed

lemma handle_object_message:
  assumes "role st = SEALER" "room (db st) (Suc n)"
    and "dget fs ''type'' = Some ty" "dget fs ''data'' = Some txt" "p_loads (h_prims H) txt = Some data"
  shows "store_core (snd (handle_message H rounds loop mempool_objects mid fs st)) =
    (ins (db st) (object_key ty (deterministic_hash (h_prims H) data)) (p_dumps (h_prims H) data), SEALER)"
proof -
  let ?h = "deterministic_hash (h_prims H) data"
  let ?st = "st\<lparr>db := ins (db st) (object_key ty ?h) (p_dumps (h_prims H) data)\<rparr>"
  have "serve_message H rounds loop mempool_objects fs st =
      send_ack_async H (dget_or fs ''req_id'' []) [(''status'', PStr ''OK''), (''hash'', PStr ?h)] ?st"
    using assms by (simp add: serve_message_def Let_def bindp_def lift_res_def field_def put_object_eq [where n = n])
  then show ?thesis
    using assms(1) by (simp add: core_handle_message core_send_ack) (simp add: store_core_def)
qed

end

section \<open>The ledger over the FoundationDB driver\<close>

definition fdb_host :: "(unit, 't) host \<Rightarrow> (fdb_driver, 't) host" where
  "fdb_host B = \<lparr>h_prims = h_prims B, h_get = fdb_get, h_put = fdb_put, h_time = h_time B, h_verify = h_verify B,
     h_produce = h_produce B, h_blpop = h_blpop B, h_delete = h_delete B, h_lpush = h_lpush B, h_expire = h_expire B,
     h_xack = h_xack B\<rparr>"

definition fdb_room :: "fdb_driver \<Rightarrow> nat \<Rightarrow> bool" where
  "fdb_room d n \<longleftrightarrow> 0 \<le> commit_seq d \<and> commit_seq d + int n < 2 ^ 64"

interpretation ledger: ledger_host fdb_get "\<lambda>d k v. snd (fdb_put k v d)" fdb_ok fdb_scan "fdb_host B" fdb_room
  for B :: "(unit, 't) host"
  by unfold_locales (auto simp: fdb_host_def fdb_room_def fdb_put_def Let_def pack_versionstamp_def)

lemma host_prims [simp]: "h_prims (fdb_host B) = h_prims B"
  by (simp add: fdb_host_def)

definition head_or_genesis :: "string option \<Rightarrow> string" where
  "head_or_genesis h = (case h of Some (x # t) \<Rightarrow> x # t | _ \<Rightarrow> ''genesis'')"

lemma propose_and_seal_step:
  assumes "role st = SEALER" "fdb_ok (db st)" "fdb_room (db st) 3"
  shows "\<exists>k st' c. propose_and_seal (fdb_host B) r rounds loop ls st = (Inr (Some k), st') \<and>
    sk_stream_id k = ls_id ls \<and> sk_payload k = ls_payload ls \<and>
    stream_id c = ls_id ls \<and> executable_payload c = ls_payload ls \<and>
    parent_hash c = Some (head_or_genesis (get_head_hash (fdb_host B) (ls_id ls) st)) \<and>
    sk_signature k = deterministic_hash (h_prims B) (PDict (asdict_commit c)) \<and>
    get_head_hash (fdb_host B) (ls_id ls) st' = Some (sk_signature k) \<and>
    (let key = object_key ''commit'' (sk_signature k) in
     fdb_get (db st') key = (case fdb_get (db st) key of
        None \<Rightarrow> Some (p_dumps (h_prims B) (PDict (asdict_commit c))) | Some old \<Rightarrow> Some old)) \<and>
    (\<forall>sid. sid \<noteq> ls_id ls \<longrightarrow> get_head_hash (fdb_host B) sid st' = get_head_hash (fdb_host B) sid st) \<and>
    (\<forall>key v. key \<noteq> key_ref (ls_id ls) \<longrightarrow> fdb_get (db st) key = Some v \<longrightarrow> fdb_get (db st') key = Some v) \<and>
    role st' = SEALER \<and> fdb_ok (db st') \<and> c = ledger.sealed_commit B ls st"
proof -
  note eq = ledger.propose_and_seal_eq [OF assms(1,3), of B r rounds loop ls]
  let ?c = "ledger.sealed_commit B ls st" and ?h = "ledger.sealed_hash B ls st"
  let ?st' = "snd (propose_and_seal (fdb_host B) r rounds loop ls st)"
  obtain bh bt where d: "db ?st' = snd (fdb_put (key_ref (ls_id ls)) ?h
      (ledger.ins (ledger.ins (db st) (object_key ''blob'' bh) bt)
         (object_key ''commit'' ?h) (p_dumps (h_prims B) (PDict (asdict_commit ?c)))))"
    using eq(3) by auto
  have get: "fdb_get (db ?st') k = (if k = key_ref (ls_id ls) then Some ?h
      else if k = object_key ''commit'' ?h \<and> fdb_get (db st) k = None then Some (p_dumps (h_prims B) (PDict (asdict_commit ?c)))
      else if k = object_key ''blob'' bh \<and> fdb_get (db st) k = None then Some bt else fdb_get (db st) k)" for k
    unfolding d using assms(2)
    by (simp add: fdb_get_put ledger.get_ins ledger.invar_ins) (auto simp: object_key_def)
  have ok: "fdb_ok (db ?st')"
    unfolding d using assms(2) by (intro fdb_ok_put ledger.invar_ins)
  show ?thesis
  proof (intro exI conjI)
    show "propose_and_seal (fdb_host B) r rounds loop ls st =
        (Inr (Some \<lparr>kernel_id = ''ker_'' @ ls_id ls, sk_stream_id = ls_id ls, sk_payload = ls_payload ls,
                    sk_tension = Fin 0, sk_signature = ?h\<rparr>), ?st')"
      using eq(1) by (metis prod.collapse)
    show "?c = ?c" ..
    show "stream_id ?c = ls_id ls" "executable_payload ?c = ls_payload ls"
      "parent_hash ?c = Some (head_or_genesis (get_head_hash (fdb_host B) (ls_id ls) st))"
      by (simp_all add: ledger.sealed_commit_def head_or_genesis_def ledger.get_head_hash_eq)
  qed (use ok eq(2) in \<open>auto simp: ledger.sealed_hash_def ledger.get_head_hash_eq get Let_def split: option.split\<close>)
qed

text \<open>
  C2. Sealing a stream on the lock holder extends that stream's chain by one commit and touches
  nothing else: it succeeds, the commit it stores holds the payload and names the previous head
  (or genesis) as its parent, its key is the hash of its canonical text and it becomes the new
  head; the heads of other streams and every object already stored are unchanged.
\<close>

theorem propose_and_seal_extends_chain:
  assumes "role st = SEALER" "fdb_ok (db st)" "fdb_room (db st) 3"
  shows "\<exists>k st' c. propose_and_seal (fdb_host B) r rounds loop ls st = (Inr (Some k), st') \<and>
    sk_stream_id k = ls_id ls \<and> sk_payload k = ls_payload ls \<and>
    stream_id c = ls_id ls \<and> executable_payload c = ls_payload ls \<and>
    parent_hash c = Some (head_or_genesis (get_head_hash (fdb_host B) (ls_id ls) st)) \<and>
    sk_signature k = deterministic_hash (h_prims B) (PDict (asdict_commit c)) \<and>
    get_head_hash (fdb_host B) (ls_id ls) st' = Some (sk_signature k) \<and>
    (let key = object_key ''commit'' (sk_signature k) in
     fdb_get (db st') key = (case fdb_get (db st) key of
        None \<Rightarrow> Some (p_dumps (h_prims B) (PDict (asdict_commit c))) | Some old \<Rightarrow> Some old)) \<and>
    (\<forall>sid. sid \<noteq> ls_id ls \<longrightarrow> get_head_hash (fdb_host B) sid st' = get_head_hash (fdb_host B) sid st) \<and>
    (\<forall>key v. key \<noteq> key_ref (ls_id ls) \<longrightarrow> fdb_get (db st) key = Some v \<longrightarrow> fdb_get (db st') key = Some v) \<and>
    role st' = SEALER \<and> fdb_ok (db st')"
  using propose_and_seal_step [OF assms, of B r rounds loop ls]
  by (elim exE conjE) (intro exI conjI; assumption)

definition sample_codec :: prims where
  "sample_codec = \<lparr>p_sha256 = id, p_canon = (\<lambda>_. ''x''), p_dumps = (\<lambda>_. ''{}''), p_loads = (\<lambda>_. Some (PDict [])),
     p_float_of_int = (\<lambda>i. Fin (of_int i)), p_float_of_str = (\<lambda>s. Inl (Exc ValueErr s)), p_repr = (\<lambda>_. ''?'')\<rparr>"

definition sample_base :: "(unit, unit) host" where
  "sample_base = \<lparr>h_prims = sample_codec, h_get = (\<lambda>_ _. None), h_put = (\<lambda>_ _. ret ()), h_time = (\<lambda>n. Fin (of_nat n)),
     h_verify = (\<lambda>m sg. sg = ''good''), h_produce = (\<lambda>_ _. ret ()), h_blpop = (\<lambda>_. ret None), h_delete = (\<lambda>_. ret ()),
     h_lpush = (\<lambda>_ _. ret ()), h_expire = (\<lambda>_. ret ()), h_xack = (\<lambda>_ _. ret ())\<rparr>"

definition sample_store :: "(fdb_driver, unit) anchor_store" where
  "sample_store = initialize_consensus_node True False (fdb_init ''adb'') ()"

lemma sample_store_ok:
  "role sample_store = SEALER" "fdb_ok (db sample_store)" "n < 2 ^ 64 \<Longrightarrow> fdb_room (db sample_store) n"
proof -
  have "db sample_store = fdb_init ''adb''" "role sample_store = SEALER"
    by (simp_all add: sample_store_def initialize_consensus_node_def start_sealer_consumer_def)
  then show "role sample_store = SEALER" "fdb_ok (db sample_store)" "n < 2 ^ 64 \<Longrightarrow> fdb_room (db sample_store) n"
    using fdb_ok_init [of "''adb''"] by (simp_all add: fdb_room_def fdb_init_def Let_def)
qed

theorem propose_and_seal_extends_chain_witness:
  "\<exists>k st'. propose_and_seal (fdb_host sample_base) ''r'' 0 False
      \<lparr>ls_id = ''s'', ls_action = ''a'', ls_payload = PInt 7, ls_metadata = []\<rparr> sample_store = (Inr (Some k), st') \<and>
    sk_payload k = PInt 7 \<and> get_head_hash (fdb_host sample_base) ''s'' st' = Some (sk_signature k)"
  using propose_and_seal_extends_chain [OF sample_store_ok(1,2), of sample_base "''r''" 0 False
      "\<lparr>ls_id = ''s'', ls_action = ''a'', ls_payload = PInt 7, ls_metadata = []\<rparr>"] sample_store_ok(3) [of 3]
  by fastforce

lemma seal_system_epoch_cases:
  "\<exists>msg. seal_system_epoch H r c sigs threshold =
     (if sigs = [] \<or> valid_count H (p_canon (h_prims H) (PDict (asdict_commit c))) sigs < threshold
      then reject_epoch H r msg else save_kernel_unsafe H r c)"
  unfolding seal_system_epoch_def Let_def by (cases "sigs = []") auto

text \<open>
  A system epoch is sealed exactly when at least one signature is given and the number of
  valid ones reaches the threshold; then the commit is stored under its hash. Otherwise the call
  raises a permission error, and the only object it may have written is the anomaly blob: no
  commit and no head changes.
\<close>

theorem seal_system_epoch_authorised:
  assumes "role st = SEALER" "fdb_ok (db st)" "fdb_room (db st) 1"
  shows "case seal_system_epoch (fdb_host B) r c sigs threshold st of
     (Inr h, st') \<Rightarrow>
        sigs \<noteq> [] \<and> threshold \<le> int (length (filter (h_verify B (p_canon (h_prims B) (PDict (asdict_commit c)))) sigs)) \<and>
        h = deterministic_hash (h_prims B) (PDict (asdict_commit c)) \<and>
        fdb_get (db st') (object_key ''commit'' h) \<noteq> None
   | (Inl e, st') \<Rightarrow>
        (sigs = [] \<or> int (length (filter (h_verify B (p_canon (h_prims B) (PDict (asdict_commit c)))) sigs)) < threshold) \<and>
        kind_of_exc e = PermissionErr \<and>
        (\<forall>h. fdb_get (db st') (object_key ''commit'' h) = fdb_get (db st) (object_key ''commit'' h)) \<and>
        (\<forall>sid. get_head_hash (fdb_host B) sid st' = get_head_hash (fdb_host B) sid st)"
proof -
  have r1: "fdb_room (db st) (Suc 0)" using assms(3) by simp
  have vc: "valid_count (fdb_host B) x y = int (length (filter (h_verify B x) y))" for x y
    by (simp add: valid_count_def fdb_host_def)
  have rej: "case reject_epoch (fdb_host B) r msg st of
      (Inr h, st') \<Rightarrow> False
    | (Inl e, st') \<Rightarrow> kind_of_exc e = PermissionErr \<and>
        (\<forall>h. fdb_get (db st') (object_key ''commit'' h) = fdb_get (db st) (object_key ''commit'' h)) \<and>
        (\<forall>sid. get_head_hash (fdb_host B) sid st' = get_head_hash (fdb_host B) sid st)" for msg
    using ledger.reject_epoch_eq [OF assms(1) r1, of B r msg] assms(2)
    by (auto simp: ledger.get_head_hash_eq ledger.get_ins split: prod.splits)
  show ?thesis
  proof (cases "sigs = [] \<or> valid_count (fdb_host B) (p_canon (h_prims B) (PDict (asdict_commit c))) sigs < threshold")
    case True
    then obtain msg where "seal_system_epoch (fdb_host B) r c sigs threshold st = reject_epoch (fdb_host B) r msg st"
      using seal_system_epoch_cases [of "fdb_host B" r c sigs threshold] by auto
    with True rej [of msg] show ?thesis by (auto simp: vc split: prod.splits sum.splits)
  next
    case False
    then have "seal_system_epoch (fdb_host B) r c sigs threshold st = save_kernel_unsafe (fdb_host B) r c st"
      using seal_system_epoch_cases [of "fdb_host B" r c sigs threshold] by auto
    with False assms(1,2) r1 show ?thesis
      by (simp add: vc save_kernel_unsafe_def ledger.put_object_eq [where n = 0] ledger.get_ins)
  qed
qed

theorem seal_system_epoch_authorised_witness:
  "fst (seal_system_epoch (fdb_host sample_base) ''r''
      \<lparr>stream_id = ''s'', executable_payload = PNone, tension_at_seal = Fin 0, blob_hashes = [], parent_hash = None, sealed_at = Fin 0\<rparr>
      [''bad'', ''good''] 2 sample_store) \<noteq> Inr ''x''"
  using seal_system_epoch_authorised [OF sample_store_ok(1,2), where B = sample_base and r = "''r''" and c =
      "\<lparr>stream_id = ''s'', executable_payload = PNone, tension_at_seal = Fin 0, blob_hashes = [], parent_hash = None, sealed_at = Fin 0\<rparr>"
      and sigs = "[''bad'', ''good'']" and threshold = 2] sample_store_ok(3) [of 1]
  by (auto simp: sample_base_def split: prod.splits)

text \<open>
  The threshold counts signatures, not signers: one valid signature repeated as often as the
  threshold asks authorises the epoch.
\<close>

theorem multisig_counts_repetitions:
  assumes "role st = SEALER" "fdb_ok (db st)" "fdb_room (db st) 1" "0 < n"
    and "h_verify B (p_canon (h_prims B) (PDict (asdict_commit c))) sg"
  shows "\<exists>h st'. seal_system_epoch (fdb_host B) r c (replicate n sg) (int n) st = (Inr h, st')"
proof -
  have "valid_count (fdb_host B) (p_canon (h_prims B) (PDict (asdict_commit c))) (replicate n sg) = int n"
    using assms(5) by (simp add: valid_count_def fdb_host_def)
  then have "seal_system_epoch (fdb_host B) r c (replicate n sg) (int n) st = save_kernel_unsafe (fdb_host B) r c st"
    using seal_system_epoch_cases [of "fdb_host B" r c "replicate n sg" "int n"] assms(4) by auto
  with assms(1,3) show ?thesis
    by (simp add: save_kernel_unsafe_def ledger.put_object_eq [where n = 0])
qed

theorem multisig_counts_repetitions_witness:
  "\<exists>h st'. seal_system_epoch (fdb_host sample_base) ''r''
      \<lparr>stream_id = ''s'', executable_payload = PNone, tension_at_seal = Fin 0, blob_hashes = [], parent_hash = None, sealed_at = Fin 0\<rparr>
      (replicate 3 ''good'') 3 sample_store = (Inr h, st')"
  using multisig_counts_repetitions [OF sample_store_ok(1,2), where n = 3 and B = sample_base and c =
      "\<lparr>stream_id = ''s'', executable_payload = PNone, tension_at_seal = Fin 0, blob_hashes = [], parent_hash = None, sealed_at = Fin 0\<rparr>"
      and sg = "''good''" and r = "''r''"] sample_store_ok(3) [of 1]
  by (simp add: sample_base_def)

text \<open>
  The stream delivers at least once, and serving an object request twice is the same as
  serving it once: after the first delivery the object is stored under its hash, and a second
  delivery leaves the database as it is.
\<close>

theorem object_message_idempotent:
  assumes "role st = SEALER" "fdb_ok (db st)" "fdb_room (db st) 2"
    and "dget fs ''type'' = Some ty" "dget fs ''data'' = Some body" "p_loads (h_prims B) body = Some data"
  shows "let st1 = snd (handle_message (fdb_host B) rounds loop mempool_objects mid fs st);
             st2 = snd (handle_message (fdb_host B) rounds loop mempool_objects mid' fs st1)
         in fdb_get (db st1) (object_key ty (deterministic_hash (h_prims B) data)) \<noteq> None \<and> db st2 = db st1"
proof -
  let ?key = "object_key ty (deterministic_hash (h_prims B) data)" and ?val = "p_dumps (h_prims B) data"
  define st1 where "st1 = snd (handle_message (fdb_host B) rounds loop mempool_objects mid fs st)"
  have r2: "fdb_room (db st) (Suc (Suc 0))" using assms(3) by (simp add: numeral_2_eq_2)
  have st1: "role st1 = SEALER" "db st1 = ledger.ins (db st) ?key ?val"
    using ledger.handle_object_message [OF assms(1) r2, of fs ty body B data rounds loop mid] assms(4-6)
    by (simp_all add: st1_def store_core_def)
  then have "fdb_room (db st1) (Suc 0)" using ledger.room_ins [OF r2] by simp
  from ledger.handle_object_message [OF st1(1) this, of fs ty body B data rounds loop mid'] assms(4-6)
  have "db (snd (handle_message (fdb_host B) rounds loop mempool_objects mid' fs st1)) = db st1"
    using ledger.ins_twice [OF assms(2)] st1(2) by (simp add: store_core_def)
  moreover have "fdb_get (db st1) ?key \<noteq> None"
    using assms(2) by (simp add: st1(2) ledger.get_ins)
  ultimately show ?thesis by (simp add: st1_def Let_def)
qed

theorem object_message_idempotent_witness:
  "let fs = [(''req_id'', ''r''), (''type'', ''blob''), (''data'', ''{}'')];
       st1 = snd (handle_message (fdb_host sample_base) 0 False mempool_objects ''1-0'' fs sample_store);
       st2 = snd (handle_message (fdb_host sample_base) 0 False mempool_objects ''1-1'' fs st1)
   in db st2 = db st1"
proof -
  have "p_loads (h_prims sample_base) ''{}'' = Some (PDict [])"
    by (simp add: sample_base_def sample_codec_def)
  then show ?thesis
    using object_message_idempotent [OF sample_store_ok(1,2,3),
        where fs = "[(''req_id'', ''r''), (''type'', ''blob''), (''data'', ''{}'')]" and B = sample_base
          and ty = "''blob''" and body = "''{}''" and data = "PDict []" and rounds = 0 and loop = False
          and mid = "''1-0''" and mid' = "''1-1''"]
    by (simp add: Let_def)
qed

text \<open>
  The relay returns the sealer's kernel unchanged: when the request is accepted by the
  stream and the acknowledgement the sealer sends for a sealed kernel arrives within the
  deadline, the proposer's call returns exactly that kernel; when none arrives it returns None.
\<close>

theorem proposer_receives_kernel:
  assumes "role st = PROPOSER" "\<And>fs. h_produce H mempool_logic fs (tunnel st) = (Inr (), ta)"
    and "if arrives then h_blpop H (ack_channel r) ta =
             (Inr (Some (p_dumps (h_prims H) (PDict [(''status'', PStr ''SEALED''), (''kernel'', PDict (dump_kernel k))]))), tb)
         else h_blpop H (ack_channel r) ta = (Inr None, ta)"
    and "h_delete H (ack_channel r) tb = (Inr (), tc)"
    and "p_loads (h_prims H) (p_dumps (h_prims H) (PDict [(''status'', PStr ''SEALED''), (''kernel'', PDict (dump_kernel k))])) =
           Some (PDict [(''status'', PStr ''SEALED''), (''kernel'', PDict (dump_kernel k))])"
  shows "fst (propose_and_seal H r (Suc n) loop ls st) = Inr (if arrives then Some k else None)"
proof -
  have poll: "\<And>st. h_blpop H (ack_channel r) (tunnel st) = (Inr None, tunnel st) \<Longrightarrow> poll_ack H (ack_channel r) m st = (Inr None, st)" for m
    by (induction m) (simp_all add: ret_def bindp_def on_tunnel_def)
  show ?thesis
  proof (cases arrives)
    case True
    with assms show ?thesis
      by (simp add: propose_and_seal_def propose_stream_async_def wait_ack_async_def catch_with_def bindp_def
          on_tunnel_def take_ack_def ret_def lift_res_def dget_or_def dhas_def)
  next
    case False
    with assms(3) have "h_blpop H (ack_channel r) ta = (Inr None, ta)" by simp
    then have "poll_ack H (ack_channel r) (Suc n) (st\<lparr>tunnel := ta\<rparr>) = (Inr None, st\<lparr>tunnel := ta\<rparr>)"
      using poll [of "st\<lparr>tunnel := ta\<rparr>" "Suc n"] by (simp del: poll_ack.simps)
    with False assms(1,2) show ?thesis
      by (simp add: propose_and_seal_def propose_stream_async_def wait_ack_async_def catch_with_def bindp_def
          on_tunnel_def ret_def del: poll_ack.simps)
  qed
qed

definition sample_kernel :: sealed_kernel where
  "sample_kernel = \<lparr>kernel_id = ''ker_s'', sk_stream_id = ''s'', sk_payload = PInt 7, sk_tension = Fin 0, sk_signature = ''h''\<rparr>"

definition sample_proposer_host :: "(unit, unit) host" where
  "sample_proposer_host = sample_base\<lparr>
     h_prims := sample_codec\<lparr>p_loads := \<lambda>_. Some (PDict [(''status'', PStr ''SEALED''), (''kernel'', PDict (dump_kernel sample_kernel))])\<rparr>,
     h_blpop := \<lambda>_. ret (Some ''{}'')\<rparr>"

theorem proposer_receives_kernel_witness:
  "fst (propose_and_seal sample_proposer_host ''r'' 1 False
      \<lparr>ls_id = ''s'', ls_action = ''a'', ls_payload = PInt 7, ls_metadata = []\<rparr>
      (initialize_consensus_node False False () ())) = Inr (Some sample_kernel)"
  using proposer_receives_kernel [where st = "initialize_consensus_node False False () ()" and H = sample_proposer_host
      and ta = "()" and tb = "()" and tc = "()" and arrives = True and k = sample_kernel and r = "''r''" and n = 0
      and loop = False and ls = "\<lparr>ls_id = ''s'', ls_action = ''a'', ls_payload = PInt 7, ls_metadata = []\<rparr>"]
  by (simp add: sample_proposer_host_def sample_base_def sample_codec_def ret_def initialize_consensus_node_def)

end
