(* ===== verification/AnchorOracle.thy ===== *)
theory AnchorOracle
  imports AnchorStore
begin

text \<open>
  Queries on the sealed ledger, \<^verbatim>\<open>state/anchor/oracle.py\<close>. The loops walk the cursor of the
  driver after a seek; \<open>seek d p\<close> is what such a cursor still gives, in order, and
  \<^verbatim>\<open>AnchorDriver\<close> shows what that is. \<open>sync\<close> is the driver's catch-up call and \<open>invoke\<close> the wasm
  broker, which answers with its success flag and output.
\<close>

section \<open>Reading commits\<close>

definition sync_readonly_view :: "('d, unit) prog \<Rightarrow> ('d, 't) anchor_store \<Rightarrow> ('d, 't) anchor_store" where
  "sync_readonly_view sync st = (if role st \<noteq> PROPOSER then st else st\<lparr>db := snd (sync (db st))\<rparr>)"

definition json_loads :: "prims \<Rightarrow> string \<Rightarrow> pyval res" where
  "json_loads P s = (case p_loads P s of Some v \<Rightarrow> Inr v | None \<Rightarrow> Inl (Exc JsonDecodeErr s))"

definition get_raw_object ::
  "('d, 't) host \<Rightarrow> ('d, unit) prog \<Rightarrow> string \<Rightarrow> string \<Rightarrow> (('d, 't) anchor_store, pyval option) prog" where
  "get_raw_object H sync obj_type obj_hash st0 =
     (if obj_hash = [] then (Inr None, st0)
      else
        (let st = sync_readonly_view sync st0; key = object_key obj_type obj_hash in
         if drv_contains (h_get H) (db st) key
         then (bind_res (drv_getitem (h_get H) (db st) key) (\<lambda>text.
                 bind_res (json_loads (h_prims H) text) (\<lambda>v. Inr (Some v))), st)
         else (Inr None, st)))"

definition has_tx :: "pydict \<Rightarrow> bool" where
  "has_tx d \<longleftrightarrow> dhas d ''tx_hash'' \<and> dhas d ''outputs''"

fun first_tx :: "prims \<Rightarrow> pydict \<Rightarrow> string list \<Rightarrow> pydict option" where
  "first_tx P payload [] = None"
| "first_tx P payload (k # ks) =
     (case (case dget_or payload k PNone of
              PStr s \<Rightarrow> p_loads P s
            | v \<Rightarrow> Some v) of
        Some (PDict sub) \<Rightarrow> if has_tx sub then Some sub else first_tx P payload ks
      | _ \<Rightarrow> first_tx P payload ks)"

definition extract_tx_from_commit :: "prims \<Rightarrow> pyval \<Rightarrow> pydict option" where
  "extract_tx_from_commit P commit_data =
     (case commit_data of
        PDict c \<Rightarrow>
          (case (case dget_or c ''executable_payload'' PNone of PStr s \<Rightarrow> p_loads P s | v \<Rightarrow> Some v) of
             Some (PDict payload) \<Rightarrow>
               if has_tx payload then Some payload
               else first_tx P payload [''intent_payload'', ''tx'', ''content'']
           | _ \<Rightarrow> None)
      | _ \<Rightarrow> None)"

definition commit_prefix :: bytes where
  "commit_prefix = ''commit:''"

definition after_colon :: "bytes \<Rightarrow> string" where
  "after_colon key = (case split_once '':'' key of Some (_, h) \<Rightarrow> h | None \<Rightarrow> [])"

fun find_commit_loop :: "prims \<Rightarrow> string \<Rightarrow> (bytes \<times> bytes) list \<Rightarrow> string option" where
  "find_commit_loop P tgt [] = None"
| "find_commit_loop P tgt ((key, val) # rest) =
     (if \<not> startswith key commit_prefix then None
      else case p_loads P val of
        None \<Rightarrow> None
      | Some commit_data \<Rightarrow>
          (case extract_tx_from_commit P commit_data of
             Some tx \<Rightarrow> if dget tx ''tx_hash'' = Some (PStr tgt) then Some (after_colon key)
                        else find_commit_loop P tgt rest
           | None \<Rightarrow> find_commit_loop P tgt rest))"

definition find_commit_hash_by_tx ::
  "prims \<Rightarrow> ('d \<Rightarrow> bytes \<Rightarrow> (bytes \<times> bytes) list) \<Rightarrow> ('d, unit) prog \<Rightarrow> string
     \<Rightarrow> ('d, 't) anchor_store \<Rightarrow> string option \<times> ('d, 't) anchor_store" where
  "find_commit_hash_by_tx P seek sync target_tx_hash st0 =
     (let st = sync_readonly_view sync st0 in
      (find_commit_loop P target_tx_hash (seek (db st) commit_prefix), st))"

section \<open>Unspent outputs\<close>

record unspent_item =
  ui_tx_hash :: pyval
  ui_index :: nat
  ui_output :: pydict
  ui_metadata :: pyval
  ui_commit :: string

definition pointer_text :: "prims \<Rightarrow> pyval \<Rightarrow> pyval \<Rightarrow> string" where
  "pointer_text P tx_hash idx = py_str P tx_hash @ '':'' @ py_str P idx"

definition spent_of_input :: "prims \<Rightarrow> pyval \<Rightarrow> string list res" where
  "spent_of_input P inp =
     bind_res (as_dict inp) (\<lambda>i.
       case dget_or i ''pointer'' PNone of
         PStr s \<Rightarrow> Inr [s]
       | PDict p \<Rightarrow> Inr [pointer_text P (dget_or p ''tx_hash'' PNone) (dget_or p ''output_index'' PNone)]
       | _ \<Rightarrow> Inr [])"

definition spent_of_tx :: "prims \<Rightarrow> pydict \<Rightarrow> string list res" where
  "spent_of_tx P tx =
     bind_res (iter_val (dget_or tx ''inputs'' (PList []))) (\<lambda>is.
     bind_res (map_res (spent_of_input P) is) (\<lambda>ss. Inr (concat ss)))"

definition item_of_output ::
  "prims \<Rightarrow> string \<Rightarrow> string \<Rightarrow> string \<Rightarrow> pydict \<Rightarrow> nat \<times> pyval \<Rightarrow> (string \<times> unspent_item) list res" where
  "item_of_output P owner asset_type commit_hash tx io =
     (case io of (idx, out) \<Rightarrow>
        bind_res (as_dict out) (\<lambda>ov.
          if dget_or ov ''owner'' PNone = PStr owner \<and> dget_or ov ''asset_type'' PNone = PStr asset_type
          then (let tx_hash = dget_or tx ''tx_hash'' (PStr []) in
                Inr [(pointer_text P tx_hash (PInt (int idx)),
                      \<lparr>ui_tx_hash = tx_hash, ui_index = idx, ui_output = ov,
                       ui_metadata = dget_or tx ''metadata'' (PDict []), ui_commit = commit_hash\<rparr>)])
          else Inr []))"

definition items_of_tx ::
  "prims \<Rightarrow> string \<Rightarrow> string \<Rightarrow> string \<Rightarrow> pydict \<Rightarrow> (string \<times> unspent_item) list res" where
  "items_of_tx P owner asset_type commit_hash tx =
     bind_res (iter_val (dget_or tx ''outputs'' (PList []))) (\<lambda>os.
     bind_res (map_res (item_of_output P owner asset_type commit_hash tx) (enumerate 0 os)) (\<lambda>xs. Inr (concat xs)))"

type_synonym scan_state = "string list \<times> (string, unspent_item) dict"

fun unspent_loop ::
  "prims \<Rightarrow> string \<Rightarrow> string \<Rightarrow> (bytes \<times> bytes) list \<Rightarrow> scan_state \<Rightarrow> scan_state res" where
  "unspent_loop P owner asset_type [] acc = Inr acc"
| "unspent_loop P owner asset_type ((key, val) # rest) acc =
     (if \<not> startswith key commit_prefix then Inr acc
      else bind_res (json_loads P val) (\<lambda>commit_data.
        case extract_tx_from_commit P commit_data of
          None \<Rightarrow> unspent_loop P owner asset_type rest acc
        | Some tx \<Rightarrow>
            bind_res (spent_of_tx P tx) (\<lambda>sp.
            bind_res (items_of_tx P owner asset_type (after_colon key) tx) (\<lambda>its.
              unspent_loop P owner asset_type rest (fst acc @ sp, dmerge (snd acc) its)))))"

definition get_unspent_outputs ::
  "prims \<Rightarrow> ('d \<Rightarrow> bytes \<Rightarrow> (bytes \<times> bytes) list) \<Rightarrow> ('d, unit) prog \<Rightarrow> string \<Rightarrow> string
     \<Rightarrow> ('d, 't) anchor_store \<Rightarrow> (string \<times> unspent_item) list \<times> ('d, 't) anchor_store" where
  "get_unspent_outputs P seek sync owner asset_type st0 =
     (let st = sync_readonly_view sync st0 in
      (case unspent_loop P owner asset_type (seek (db st) commit_prefix) ([], []) of
         Inl _ \<Rightarrow> []
       | Inr (spent, cand) \<Rightarrow> filter (\<lambda>(ptr, item). ptr \<notin> set spent) cand, st))"

text \<open>Amounts are integers in every output the program writes; adding anything else raises.\<close>

definition amount_of :: "pydict \<Rightarrow> int res" where
  "amount_of out =
     (case dget_or out ''amount'' (PInt 0) of
        PInt i \<Rightarrow> Inr i | PBool b \<Rightarrow> Inr (if b then 1 else 0)
      | _ \<Rightarrow> Inl (Exc TypeErr ''unsupported operand type''))"

definition oracle_balance ::
  "prims \<Rightarrow> ('d \<Rightarrow> bytes \<Rightarrow> (bytes \<times> bytes) list) \<Rightarrow> ('d, unit) prog \<Rightarrow> string \<Rightarrow> string
     \<Rightarrow> (('d, 't) anchor_store, int) prog" where
  "oracle_balance P seek sync owner asset_type st =
     (case get_unspent_outputs P seek sync owner asset_type st of (items, st') \<Rightarrow>
        (bind_res (map_res (\<lambda>(ptr, item). amount_of (ui_output item)) items) (\<lambda>as. Inr (sum_list as)), st'))"

section \<open>Lineage\<close>

record lineage_result =
  lr_valid :: bool
  lr_rupture :: "pyval option"
  lr_genesis :: bool
  lr_trace :: "string list"

definition parity_request_of :: "prims \<Rightarrow> pydict \<Rightarrow> pydict res" where
  "parity_request_of P snapshot =
     bind_res (py_int_of (dget_or snapshot ''phase_id'' (PInt 0))) (\<lambda>phase_id.
     bind_res (py_int_of (dget_or snapshot ''nexus_id'' (PInt 0))) (\<lambda>nexus_id.
       build_parity_triplet (py_str P (dget_or snapshot ''topos_id'' (PStr ''0''))) (Some phase_id) (Some nexus_id)))"

text \<open>The broker's verdict: None when it failed, otherwise whether the parity holds or was recovered.\<close>

definition parity_verdict :: "prims \<Rightarrow> (string \<Rightarrow> bool \<times> string) \<Rightarrow> pydict \<Rightarrow> bool res" where
  "parity_verdict P invoke req =
     (case invoke (p_canon P (PDict req)) of (success, output) \<Rightarrow>
        if \<not> success then Inr False
        else bind_res (json_loads P output) (\<lambda>v.
             bind_res (as_dict v) (\<lambda>out.
               Inr (truthy (dget_or out ''is_valid'' (PBool False)) \<or> dhas out ''recovered_missing''))))"

fun lineage_loop ::
  "('d, 't) host \<Rightarrow> ('d, unit) prog \<Rightarrow> (string \<Rightarrow> bool \<times> string) \<Rightarrow> nat \<Rightarrow> pyval \<Rightarrow> string list
     \<Rightarrow> (('d, 't) anchor_store, lineage_result) prog" where
  "lineage_loop H sync invoke depth cur trace st =
     (if \<not> truthy cur \<or> cur = PStr ''genesis'' \<or> depth = 0
      then (Inr \<lparr>lr_valid = True, lr_rupture = None, lr_genesis = (cur = PStr ''genesis''), lr_trace = trace\<rparr>, st)
      else
        (let h = py_str (h_prims H) cur;
             rupture = \<lparr>lr_valid = False, lr_rupture = Some cur, lr_genesis = False, lr_trace = trace\<rparr> in
         case get_raw_object H sync ''commit'' h st of
           (Inl e, st1) \<Rightarrow> (Inl e, st1)
         | (Inr None, st1) \<Rightarrow> (Inr rupture, st1)
         | (Inr (Some v), st1) \<Rightarrow>
             if \<not> truthy v then (Inr rupture, st1)
             else (case bind_res (as_dict v) (\<lambda>snapshot.
                          bind_res (parity_request_of (h_prims H) snapshot) (\<lambda>req.
                          bind_res (parity_verdict (h_prims H) invoke req) (\<lambda>ok. Inr (snapshot, ok)))) of
                     Inl e \<Rightarrow> (Inl e, st1)
                   | Inr (snapshot, ok) \<Rightarrow>
                       if \<not> ok then (Inr rupture, st1)
                       else lineage_loop H sync invoke (depth - 1) (dget_or snapshot ''parent_hash'' PNone)
                              (trace @ [h]) st1)))"

declare lineage_loop.simps [simp del]

definition verify_kernel_lineage ::
  "('d, 't) host \<Rightarrow> ('d, unit) prog \<Rightarrow> (string \<Rightarrow> bool \<times> string) \<Rightarrow> string \<Rightarrow> int
     \<Rightarrow> (('d, 't) anchor_store, lineage_result) prog" where
  "verify_kernel_lineage H sync invoke start_commit_hash depth =
     lineage_loop H sync invoke (nat depth) (PStr start_commit_hash) []"

section \<open>Unspent outputs, read off the ledger\<close>

definition entry_tx :: "prims \<Rightarrow> bytes \<Rightarrow> pydict option" where
  "entry_tx P val = Option.bind (p_loads P val) (extract_tx_from_commit P)"

definition readable :: "prims \<Rightarrow> string \<Rightarrow> string \<Rightarrow> (bytes \<times> bytes) list \<Rightarrow> bool" where
  "readable P owner asset_type es =
     list_all (\<lambda>(key, val). p_loads P val \<noteq> None \<and>
       (case entry_tx P val of None \<Rightarrow> True
        | Some tx \<Rightarrow> \<not> isl (spent_of_tx P tx) \<and> \<not> isl (items_of_tx P owner asset_type (after_colon key) tx))) es"

definition spends :: "prims \<Rightarrow> pydict \<Rightarrow> string \<Rightarrow> bool" where
  "spends P tx ptr = (case spent_of_tx P tx of Inl _ \<Rightarrow> False | Inr sp \<Rightarrow> ptr \<in> set sp)"

definition creates :: "prims \<Rightarrow> string \<Rightarrow> string \<Rightarrow> string \<Rightarrow> pydict \<Rightarrow> string \<Rightarrow> bool" where
  "creates P owner asset_type h tx ptr =
     (case items_of_tx P owner asset_type h tx of Inl _ \<Rightarrow> False | Inr its \<Rightarrow> ptr \<in> set (dkeys its))"

lemma dkeys_dmerge: "set (dkeys (dmerge a b)) = set (dkeys a) \<union> set (dkeys b)"
proof (induction b arbitrary: a)
  case Nil
  show ?case by (simp add: dmerge_def dkeys_def)
next
  case (Cons p b)
  obtain k v where p: "p = (k, v)" by (cases p)
  have "dmerge a (p # b) = dmerge (dset k v a) b" by (simp add: dmerge_def p)
  with Cons show ?case by (auto simp: p dkeys_def [of "(k, v) # b"] simp flip: dkeys_def)
qed

lemma unspent_loop_spec:
  assumes "readable P owner ast es" "\<forall>(k, v) \<in> set es. startswith k commit_prefix"
  shows "\<exists>sp cand. unspent_loop P owner ast es acc = Inr (sp, cand) \<and>
    set sp = set (fst acc) \<union> {ptr. \<exists>(k, v) \<in> set es. \<exists>tx. entry_tx P v = Some tx \<and> spends P tx ptr} \<and>
    set (dkeys cand) = set (dkeys (snd acc)) \<union>
      {ptr. \<exists>(k, v) \<in> set es. \<exists>tx. entry_tx P v = Some tx \<and> creates P owner ast (after_colon k) tx ptr}"
  using assms
proof (induction es arbitrary: acc)
  case Nil
  show ?case by (cases acc) simp
next
  case (Cons e es)
  obtain k v where e: "e = (k, v)" by (cases e)
  from Cons.prems obtain c where c: "p_loads P v = Some c" by (auto simp: e readable_def)
  have hyp: "readable P owner ast es" "\<forall>(k, v) \<in> set es. startswith k commit_prefix" "startswith k commit_prefix"
    using Cons.prems by (auto simp: e readable_def)
  show ?case
  proof (cases "extract_tx_from_commit P c")
    case None
    then have "entry_tx P v = None" by (simp add: entry_tx_def c)
    with None Cons.IH [OF hyp(1,2), of acc] hyp(3) c show ?thesis
      by (simp add: e json_loads_def)
  next
    case (Some tx)
    then have tx: "entry_tx P v = Some tx" by (simp add: entry_tx_def c)
    from Cons.prems(1) tx obtain sp its where io: "spent_of_tx P tx = Inr sp"
        "items_of_tx P owner ast (after_colon k) tx = Inr its"
      by (auto simp: e readable_def isl_def split: sum.splits) (metis sum.exhaust)
    show ?thesis
      using Cons.IH [OF hyp(1,2), of "(fst acc @ sp, dmerge (snd acc) its)"] hyp(3) c Some tx io
      by (auto simp: e json_loads_def spends_def creates_def dkeys_dmerge)
  qed
qed

lemma commit_key_split: "startswith k commit_prefix \<Longrightarrow> k = key_commit (after_colon k)"
proof -
  assume "startswith k commit_prefix"
  then obtain h where k: "k = ''commit'' @ CHR '':'' # h"
    by (auto simp: startswith_iff commit_prefix_def prefix_def)
  have "split_once '':'' k = Some (''commit'', h)"
    unfolding k by (rule split_once_fresh) simp
  then show ?thesis by (simp add: after_colon_def key_commit_def k)
qed

lemma after_colon_commit [simp]: "after_colon (key_commit h) = h"
  using split_once_fresh [of "CHR '':''" "''commit''" h] by (simp add: after_colon_def key_commit_def)

lemma wf_dict_unspent:
  "unspent_loop P owner ast es acc = Inr (sp, cand) \<Longrightarrow> wf_dict (snd acc) \<Longrightarrow> wf_dict cand"
proof (induction es arbitrary: acc)
  case Nil
  then show ?case by simp
next
  case (Cons e es)
  obtain k v where e: "e = (k, v)" by (cases e)
  show ?case
  proof (cases "startswith k commit_prefix")
    case True
    with Cons.prems(1) obtain c where c: "json_loads P v = Inr c"
      by (auto simp: e bind_res_Inr)
    show ?thesis
    proof (cases "extract_tx_from_commit P c")
      case None
      with True c Cons show ?thesis by (simp add: e)
    next
      case (Some tx)
      with True c Cons show ?thesis by (auto simp: e bind_res_Inr)
    qed
  next
    case False
    with Cons.prems show ?thesis by (auto simp: e)
  qed
qed

text \<open>The transaction the ledger holds under a commit hash.\<close>

definition ledger_tx :: "prims \<Rightarrow> fdb_driver \<Rightarrow> string \<Rightarrow> pydict option" where
  "ledger_tx P d h = Option.bind (fdb_get d (key_commit h)) (entry_tx P)"

lemma scan_ledger_tx:
  assumes "fdb_ok d"
  shows "(\<exists>(k, v) \<in> set (fdb_scan d commit_prefix). \<exists>tx. entry_tx P v = Some tx \<and> Q (after_colon k) tx) \<longleftrightarrow>
    (\<exists>h tx. ledger_tx P d h = Some tx \<and> Q h tx)"
proof
  assume "\<exists>(k, v) \<in> set (fdb_scan d commit_prefix). \<exists>tx. entry_tx P v = Some tx \<and> Q (after_colon k) tx"
  then obtain k v tx where kv: "(k, v) \<in> set (fdb_scan d commit_prefix)" "entry_tx P v = Some tx" "Q (after_colon k) tx"
    by blast
  then have "startswith k commit_prefix" "fdb_get d k = Some v"
    using fdb.scan_mem [OF assms] by auto
  with commit_key_split [of k] kv(2,3) show "\<exists>h tx. ledger_tx P d h = Some tx \<and> Q h tx"
    by (auto simp: ledger_tx_def intro!: exI [of _ "after_colon k"])
next
  assume "\<exists>h tx. ledger_tx P d h = Some tx \<and> Q h tx"
  then obtain h tx v where "fdb_get d (key_commit h) = Some v" "entry_tx P v = Some tx" "Q h tx"
    by (auto simp: ledger_tx_def bind_eq_Some_conv)
  moreover have "startswith (key_commit h) commit_prefix"
    by (simp add: startswith_def key_commit_def commit_prefix_def)
  ultimately have "(key_commit h, v) \<in> set (fdb_scan d commit_prefix)" "Q (after_colon (key_commit h)) tx" "entry_tx P v = Some tx"
    using fdb.scan_mem [OF assms] by auto
  then show "\<exists>(k, v) \<in> set (fdb_scan d commit_prefix). \<exists>tx. entry_tx P v = Some tx \<and> Q (after_colon k) tx"
    by blast
qed


definition ledger_codec :: prims where
  "ledger_codec = \<lparr>p_sha256 = id, p_canon = (\<lambda>_. ''x''), p_dumps = (\<lambda>_. ''{}''),
     p_loads = (\<lambda>t. Some (PDict [(''executable_payload'', PDict (
        if t = ''mint'' then [(''tx_hash'', PStr ''a''), (''inputs'', PList []),
            (''outputs'', PList [PDict [(''amount'', PInt 5), (''owner'', PStr ''alice''), (''asset_type'', PStr ''fuel'')],
                               PDict [(''amount'', PInt 2), (''owner'', PStr ''alice''), (''asset_type'', PStr ''fuel'')]])]
        else [(''tx_hash'', PStr ''b''), (''inputs'', PList [PDict [(''pointer'', PStr ''a:0'')]]),
            (''outputs'', PList [PDict [(''amount'', PInt 5), (''owner'', PStr ''bob''), (''asset_type'', PStr ''fuel'')]])]))])),
     p_float_of_int = (\<lambda>i. Fin (of_int i)), p_float_of_str = (\<lambda>s. Inl (Exc ValueErr s)), p_repr = (\<lambda>_. ''?'')\<rparr>"

definition ledger_driver :: fdb_driver where
  "ledger_driver = \<lparr>fdb_path = ''adb'', fdb_prefix = ''p:'', last_versionstamp = [], commit_seq = 2,
     emulated_kv = [(''p:commit:1'', ''mint''), (''p:commit:2'', ''move'')]\<rparr>"


section \<open>Lineage of sealed commits\<close>

text \<open>
  \<open>linked P d h path\<close>: from the hash \<open>h\<close> the stored commits lead through \<open>path\<close> to genesis.
\<close>

fun linked :: "prims \<Rightarrow> fdb_driver \<Rightarrow> string \<Rightarrow> string list \<Rightarrow> bool" where
  "linked P d h [] = (h = ''genesis'')"
| "linked P d h (x # xs) =
     (h = x \<and> x \<noteq> [] \<and> x \<noteq> ''genesis'' \<and>
      (\<exists>c parent. Option.bind (fdb_get d (object_key ''commit'' x)) (p_loads P) = Some (PDict (asdict_commit c)) \<and>
         parent_hash c = Some parent \<and> linked P d parent xs))"

text \<open>The identifiers a stored commit does not have: the request is the same for every commit.\<close>

definition zero_triplet :: pydict where
  "zero_triplet = [(''topos_id'', PStr ''0''), (''phase_id'', PInt 0), (''nexus_id'', PInt 0)]"

lemma commit_parity_request: "parity_request_of P (asdict_commit c) = Inr zero_triplet"
  by (simp add: parity_request_of_def asdict_commit_def dget_or_def build_parity_triplet_def zero_triplet_def
      assert_uint32_def uint32_def opt_int_def)

lemma lineage_linked:
  assumes "linked (h_prims B) (db st) h path" "role st = SEALER"
    and "parity_verdict (h_prims B) invoke zero_triplet = Inr True"
  shows "lineage_loop (fdb_host B) sync invoke n (PStr h) trace st =
    (Inr \<lparr>lr_valid = True, lr_rupture = None, lr_genesis = (length path \<le> n),
          lr_trace = trace @ take n path\<rparr>, st)"
  using assms(1)
proof (induction path arbitrary: n h trace)
  case Nil
  then show ?case by (subst lineage_loop.simps) simp
next
  case (Cons x xs)
  show ?case
  proof (cases n)
    case 0
    with Cons.prems show ?thesis by (subst lineage_loop.simps) simp
  next
    case (Suc m)
    from Cons.prems obtain c parent t where x: "h = x" "x \<noteq> []" "x \<noteq> ''genesis''"
      and t: "fdb_get (db st) (object_key ''commit'' x) = Some t" "p_loads (h_prims B) t = Some (PDict (asdict_commit c))"
      and p: "parent_hash c = Some parent" "linked (h_prims B) (db st) parent xs"
      by (auto simp: bind_eq_Some_conv)
    have get: "h_get (fdb_host B) = fdb_get" by (simp add: fdb_host_def)
    have raw: "get_raw_object (fdb_host B) sync ''commit'' x st = (Inr (Some (PDict (asdict_commit c))), st)"
      using x t assms(2)
      by (simp add: get_raw_object_def sync_readonly_view_def drv_contains_def drv_getitem_def json_loads_def get)
    have par: "dget_or (asdict_commit c) ''parent_hash'' PNone = PStr parent"
      by (simp add: asdict_commit_def dget_or_def p(1) opt_str_def)
    have ne: "asdict_commit c \<noteq> []" by (simp add: asdict_commit_def)
    show ?thesis
      using Suc x Cons.IH [OF p(2), of m "trace @ [x]"] raw par ne assms(3)
      by (subst lineage_loop.simps) (simp add: Let_def commit_parity_request)
  qed
qed

lemma linked_mono:
  assumes "linked P d h path" "\<And>k v. fdb_get d (object_key ''commit'' k) = Some v \<Longrightarrow> fdb_get d' (object_key ''commit'' k) = Some v"
  shows "linked P d' h path"
  using assms(1)
proof (induction path arbitrary: h)
  case (Cons x xs)
  then show ?case using assms(2) [of x] by (auto simp: bind_eq_Some_conv)
qed simp

text \<open>
  The chain of a stream verifies from its new head: if the head's commits lead to genesis,
  then after one more seal (whose hash is new and whose stored text decodes to the commit) the
  lineage check from the new head succeeds, visits the new commit and then the old ones up to
  the depth, and reports genesis exactly when the depth covers them all. The check reads the
  links only: the parity request it sends is the same zero triplet for every commit.
\<close>

theorem sealed_chain_verifies:
  assumes st: "role st = SEALER" "fdb_ok (db st)" "fdb_room (db st) 3"
    and old: "linked (h_prims B) (db st) (head_or_genesis (get_head_hash (fdb_host B) (ls_id ls) st)) path"
    and seal: "propose_and_seal (fdb_host B) r rounds loop ls st = (Inr (Some k), st')"
    and fresh: "sk_signature k \<notin> {[], ''genesis''}" "fdb_get (db st) (object_key ''commit'' (sk_signature k)) = None"
    and codec: "p_loads (h_prims B) (p_dumps (h_prims B) (PDict (asdict_commit (ledger.sealed_commit B ls st)))) =
                  Some (PDict (asdict_commit (ledger.sealed_commit B ls st)))"
    and parity: "parity_verdict (h_prims B) invoke zero_triplet = Inr True"
  shows "fst (verify_kernel_lineage (fdb_host B) sync invoke (sk_signature k) depth st') =
    Inr \<lparr>lr_valid = True, lr_rupture = None, lr_genesis = (length path < nat depth),
         lr_trace = take (nat depth) (sk_signature k # path)\<rparr>"
proof -
  from propose_and_seal_step [OF st, of B r rounds loop ls] seal obtain c where
      par: "parent_hash c = Some (head_or_genesis (get_head_hash (fdb_host B) (ls_id ls) st))"
    and new: "fdb_get (db st') (object_key ''commit'' (sk_signature k)) = Some (p_dumps (h_prims B) (PDict (asdict_commit c)))"
    and keep: "\<forall>key v. key \<noteq> key_ref (ls_id ls) \<longrightarrow> fdb_get (db st) key = Some v \<longrightarrow> fdb_get (db st') key = Some v"
    and role: "role st' = SEALER" and c: "c = ledger.sealed_commit B ls st"
    using fresh(2) by (auto simp: Let_def)
  have "linked (h_prims B) (db st') (head_or_genesis (get_head_hash (fdb_host B) (ls_id ls) st)) path"
    by (rule linked_mono [OF old]) (use keep in auto)
  then have "linked (h_prims B) (db st') (sk_signature k) (sk_signature k # path)"
    using new par codec fresh(1) by (auto simp: c intro!: exI [of _ c])
  from lineage_linked [OF this role parity, of sync "nat depth" "[]"] show ?thesis
    by (auto simp: verify_kernel_lineage_def Suc_le_eq)
qed

definition first_commit :: phase_commit where
  "first_commit = \<lparr>stream_id = ''s'', executable_payload = PInt 7, tension_at_seal = Fin 0, blob_hashes = [''x''],
     parent_hash = Some ''genesis'', sealed_at = Fin 1\<rparr>"

definition lineage_base :: "(unit, unit) host" where
  "lineage_base = sample_base\<lparr>h_prims := sample_codec\<lparr>p_loads := \<lambda>t.
     Some (PDict (if t = ''ok'' then [(''is_valid'', PBool True)] else asdict_commit first_commit))\<rparr>\<rparr>"

definition first_stream :: logic_stream where
  "first_stream = \<lparr>ls_id = ''s'', ls_action = ''a'', ls_payload = PInt 7, ls_metadata = []\<rparr>"

lemma sample_store_empty: "fdb_get (db sample_store) k = None"
  by (simp add: sample_store_def initialize_consensus_node_def start_sealer_consumer_def fdb_get_def fdb_init_def Let_def)

lemma first_commit_sealed: "ledger.sealed_commit lineage_base first_stream sample_store = first_commit"
proof -
  have "ticks sample_store = 0"
    by (simp add: sample_store_def initialize_consensus_node_def start_sealer_consumer_def)
  then show ?thesis
    unfolding ledger.sealed_commit_def sample_store_empty first_stream_def first_commit_def
    by (simp add: fdb_host_def lineage_base_def sample_base_def sample_codec_def deterministic_hash_def)
qed

theorem sealed_chain_verifies_witness:
  "\<exists>k st'. propose_and_seal (fdb_host lineage_base) ''r'' 0 False first_stream sample_store = (Inr (Some k), st') \<and>
     fst (verify_kernel_lineage (fdb_host lineage_base) (ret ()) (\<lambda>_. (True, ''ok'')) (sk_signature k) 5 st') =
       Inr \<lparr>lr_valid = True, lr_rupture = None, lr_genesis = True, lr_trace = [sk_signature k]\<rparr>"
proof -
  have room: "fdb_room (db sample_store) 3" using sample_store_ok(3) [of 3] by simp
  have head: "get_head_hash (fdb_host lineage_base) (ls_id first_stream) sample_store = None"
    by (simp add: ledger.get_head_hash_eq sample_store_empty)
  obtain k st' where seal: "propose_and_seal (fdb_host lineage_base) ''r'' 0 False first_stream sample_store = (Inr (Some k), st')"
    and sg: "sk_signature k = deterministic_hash (h_prims lineage_base) (PDict (asdict_commit first_commit))"
    using propose_and_seal_step [OF sample_store_ok(1,2) room, of lineage_base "''r''" 0 False first_stream]
    by (auto simp: first_commit_sealed)
  have sg': "sk_signature k = ''x''"
    using sg by (simp add: deterministic_hash_def lineage_base_def sample_codec_def)
  have codec: "p_loads (h_prims lineage_base) (p_dumps (h_prims lineage_base) (PDict (asdict_commit (ledger.sealed_commit lineage_base first_stream sample_store)))) =
      Some (PDict (asdict_commit (ledger.sealed_commit lineage_base first_stream sample_store)))"
    unfolding first_commit_sealed by (simp add: lineage_base_def sample_codec_def)
  have parity: "parity_verdict (h_prims lineage_base) (\<lambda>_. (True, ''ok'')) zero_triplet = Inr True"
    by (simp add: parity_verdict_def json_loads_def lineage_base_def dget_or_def)
  have "linked (h_prims lineage_base) (db sample_store)
      (head_or_genesis (get_head_hash (fdb_host lineage_base) (ls_id first_stream) sample_store)) []"
    by (simp add: head head_or_genesis_def)
  from sealed_chain_verifies [OF sample_store_ok(1,2) room this seal _ _ codec parity, of "ret ()" 5]
  show ?thesis using seal by (auto simp: sg' sample_store_empty)
qed

end
