(* ===== verification/Pta.thy ===== *)
theory Pta
  imports AnchorOracle
begin

text \<open>
  Pointer-based token accounting, \<^verbatim>\<open>arch/bound/adapter/pta.py\<close>: signed transactions that
  consume outputs by pointer and produce new ones, over the ledger of \<^verbatim>\<open>AnchorStore\<close> and the
  queries of \<^verbatim>\<open>AnchorOracle\<close>. \<open>execute_transaction\<close> awaits the seal in the middle, and other
  transactions may run there; it is modelled in the two parts around the await, composed by
  \<open>execute_transaction\<close> for one caller and interleaved by the step relation at the end. The
  Ed25519 check of the \<open>nacl\<close> package is an argument.
\<close>

section \<open>Transactions\<close>

function merkle_level :: "(string \<Rightarrow> string) \<Rightarrow> string list \<Rightarrow> string list" where
  "merkle_level sha [] = []"
| "merkle_level sha [left] = [sha (left @ left)]"
| "merkle_level sha (left # right # rest) = sha (left @ right) # merkle_level sha rest"
  by pat_completeness auto
termination by (relation "measure (\<lambda>(sha, xs). length xs)") auto

lemma length_merkle_level: "length (merkle_level sha xs) = (length xs + 1) div 2"
  by (induction sha xs rule: merkle_level.induct) auto

function merkle_loop :: "(string \<Rightarrow> string) \<Rightarrow> string list \<Rightarrow> string" where
  "merkle_loop sha current_level =
     (if 1 < length current_level then merkle_loop sha (merkle_level sha current_level) else hd current_level)"
  by pat_completeness auto
termination by (relation "measure (\<lambda>(sha, xs). length xs)") (auto simp: length_merkle_level)

declare merkle_loop.simps [simp del]

definition compute_merkle_root :: "prims \<Rightarrow> string list \<Rightarrow> string" where
  "compute_merkle_root P tx_hashes = (if tx_hashes = [] then [] else merkle_loop (p_sha256 P) tx_hashes)"

record pta_ptr =
  ptr_tx_hash :: string
  ptr_output_index :: int

definition to_key :: "pta_ptr \<Rightarrow> string" where
  "to_key p = pta_pointer (ptr_tx_hash p) (ptr_output_index p)"

record pta_input =
  in_pointer :: pta_ptr
  in_signature :: string
  owner_address :: string

record anchor_part =
  handle_id :: string
  phase_status :: string
  anchor_payload :: pydict

record pta_output =
  amount :: int
  owner :: string
  asset_type :: string
  anchor :: "anchor_part option"

definition plain_output :: "int \<Rightarrow> string \<Rightarrow> string \<Rightarrow> pta_output" where
  "plain_output amt own asset = \<lparr>amount = amt, owner = own, asset_type = asset, anchor = None\<rparr>"

definition phase_anchor_output :: "int \<Rightarrow> string \<Rightarrow> string \<Rightarrow> string \<Rightarrow> pydict \<Rightarrow> pta_output" where
  "phase_anchor_output amt own handle status payload =
     \<lparr>amount = amt, owner = own, asset_type = ''mcp_state_anchor'',
      anchor = Some \<lparr>handle_id = handle, phase_status = status, anchor_payload = payload\<rparr>\<rparr>"

definition create_mcp_state_anchor :: "string \<Rightarrow> string \<Rightarrow> pydict option \<Rightarrow> pta_output" where
  "create_mcp_state_anchor handle status payload =
     phase_anchor_output 0 (''mcp_bridge_'' @ handle) handle (upper status)
       (case payload of None \<Rightarrow> [] | Some p \<Rightarrow> p)"

definition asdict_output :: "pta_output \<Rightarrow> pydict" where
  "asdict_output out =
     [(''amount'', PInt (amount out)), (''owner'', PStr (owner out)), (''asset_type'', PStr (asset_type out))] @
     (case anchor out of None \<Rightarrow> []
      | Some a \<Rightarrow> [(''handle_id'', PStr (handle_id a)), (''phase_status'', PStr (phase_status a)),
                    (''executable_payload'', PDict (anchor_payload a))])"

record pta_transaction =
  tx_inputs :: "pta_input list"
  tx_outputs :: "pta_output list"
  tx_metadata :: pydict
  timestamp_ms :: int
  tx_hash :: string

text \<open>\<open>json.dumps(v, sort_keys=True)\<close> prints every dictionary with its keys in order.\<close>

fun sort_keys :: "pyval \<Rightarrow> pyval" where
  "sort_keys (PList vs) = PList (map sort_keys vs)"
| "sort_keys (PDict d) = PDict (sort_key fst (map (\<lambda>(k, v). (k, sort_keys v)) d))"
| "sort_keys v = v"

definition compute_tx_hash :: "prims \<Rightarrow> pta_input list \<Rightarrow> pta_output list \<Rightarrow> pydict \<Rightarrow> int \<Rightarrow> string" where
  "compute_tx_hash P ins outs meta ts =
     p_sha256 P (p_dumps P (sort_keys (PDict
       [(''inputs'', PList (map (\<lambda>i. PDict [(''tx'', PStr (ptr_tx_hash (in_pointer i))),
                                         (''idx'', PInt (ptr_output_index (in_pointer i)))]) ins)),
        (''outputs'', PList (map (\<lambda>out. PDict (asdict_output out)) outs)),
        (''meta'', PDict meta), (''ts'', PInt ts)])))"

definition mk_transaction :: "prims \<Rightarrow> pta_input list \<Rightarrow> pta_output list \<Rightarrow> pydict \<Rightarrow> int \<Rightarrow> pta_transaction" where
  "mk_transaction P ins outs meta ts =
     \<lparr>tx_inputs = ins, tx_outputs = outs, tx_metadata = meta, timestamp_ms = ts,
      tx_hash = compute_tx_hash P ins outs meta ts\<rparr>"

definition tx_to_dict :: "pta_transaction \<Rightarrow> pydict" where
  "tx_to_dict tx =
     [(''tx_hash'', PStr (tx_hash tx)),
      (''inputs'', PList (map (\<lambda>i. PDict [(''pointer'', PStr (to_key (in_pointer i))),
         (''signature'', PStr (in_signature i)), (''owner'', PStr (owner_address i))]) (tx_inputs tx))),
      (''outputs'', PList (map (\<lambda>out. PDict (asdict_output out)) (tx_outputs tx))),
      (''metadata'', PDict (tx_metadata tx)), (''timestamp_ms'', PInt (timestamp_ms tx))]"

section \<open>Signatures\<close>

text \<open>\<open>sign\<close> is the signature of a message under the node's key.\<close>

definition sign_state_payload :: "prims \<Rightarrow> (string \<Rightarrow> string) \<Rightarrow> pydict \<Rightarrow> string" where
  "sign_state_payload P sign payload = sign (p_sha256 P (p_canon P (PDict payload)))"

text \<open>\<open>nacl key msg sig\<close> tells whether the package accepts the signature; own is the node's key.\<close>

definition verify_signature ::
  "prims \<Rightarrow> (string \<Rightarrow> string \<Rightarrow> string \<Rightarrow> bool) \<Rightarrow> string \<Rightarrow> bytes \<Rightarrow> string \<Rightarrow> string option \<Rightarrow> bool" where
  "verify_signature P nacl own canonical_bytes signature_hex pubkey_hex =
     nacl (case pubkey_hex of Some (c # k) \<Rightarrow> c # k | _ \<Rightarrow> own) (p_sha256 P canonical_bytes) signature_hex"

definition verify_ed25519_signature ::
  "prims \<Rightarrow> (string \<Rightarrow> string \<Rightarrow> string \<Rightarrow> bool) \<Rightarrow> string \<Rightarrow> string \<Rightarrow> string \<Rightarrow> string \<Rightarrow> bool" where
  "verify_ed25519_signature P nacl own payload signature_hex owner_addr =
     verify_signature P nacl own (p_canon P (PDict [(''payload'', PStr payload)])) signature_hex (Some owner_addr)"

section \<open>The adapter\<close>

record ('d, 't) pta =
  unfold_pool :: "(string, pta_output) dict"
  spent_mempool :: "string set"
  tx_commit_map :: "(string, string) dict"
  ledger_store :: "('d, 't) anchor_store"

record ('d, 't) pta_env =
  e_host :: "('d, 't) host"
  e_seek :: "'d \<Rightarrow> bytes \<Rightarrow> (bytes \<times> bytes) list"
  e_sync :: "('d, unit) prog"
  e_nacl :: "string \<Rightarrow> string \<Rightarrow> string \<Rightarrow> bool"
  e_own_key :: string
  e_invoke :: "string \<Rightarrow> bool \<times> string"

fun check_inputs ::
  "(string \<Rightarrow> string \<Rightarrow> string \<Rightarrow> bool) \<Rightarrow> string set \<Rightarrow> nat \<Rightarrow> pta_input list \<Rightarrow> unit res" where
  "check_inputs verify spent idx [] = Inr ()"
| "check_inputs verify spent idx (i # is) =
     (if owner_address i = [] then check_inputs verify spent (idx + 1) is
      else
        (let payload = to_key (in_pointer i) in
         if payload \<in> spent then Inl (Exc PermissionErr (''Double Spend Detected for input '' @ payload))
         else if \<not> verify payload (in_signature i) (owner_address i)
         then Inl (Exc PermissionErr (''Cryptographic Auth Failed for input index '' @ show_nat idx))
         else check_inputs verify spent (idx + 1) is))"

definition spent_keys :: "pta_transaction \<Rightarrow> string list" where
  "spent_keys tx = map (\<lambda>i. to_key (in_pointer i)) (tx_inputs tx)"

definition env_verify :: "('d, 't) pta_env \<Rightarrow> string \<Rightarrow> string \<Rightarrow> string \<Rightarrow> bool" where
  "env_verify E = verify_ed25519_signature (h_prims (e_host E)) (e_nacl E) (e_own_key E)"

text \<open>Up to the await: the checks, then every input is reserved.\<close>

definition begin_transaction ::
  "(string \<Rightarrow> string \<Rightarrow> string \<Rightarrow> bool) \<Rightarrow> pta_transaction \<Rightarrow> string set \<Rightarrow> unit res \<times> string set" where
  "begin_transaction verify tx spent =
     (case check_inputs verify spent 0 (tx_inputs tx) of
        Inl e \<Rightarrow> (Inl e, spent)
      | Inr _ \<Rightarrow> (Inr (), spent \<union> set (spent_keys tx)))"

definition pta_stream_id :: "pta_transaction \<Rightarrow> string option \<Rightarrow> string" where
  "pta_stream_id tx sid = (case sid of Some s \<Rightarrow> s | None \<Rightarrow> ''pta_tx_'' @ take 8 (tx_hash tx))"

definition produced :: "pta_transaction \<Rightarrow> (string \<times> pta_output) list" where
  "produced tx = map (\<lambda>(idx, out). (tx_hash tx @ '':'' @ show_nat idx, out)) (enumerate 0 (tx_outputs tx))"

text \<open>After the await, by what the seal gave: an exception, a kernel or nothing.\<close>

definition release :: "pta_transaction \<Rightarrow> ('d, 't) pta \<Rightarrow> ('d, 't) pta" where
  "release tx p = p\<lparr>spent_mempool := spent_mempool p - set (spent_keys tx)\<rparr>"

definition settle :: "pta_transaction \<Rightarrow> string \<Rightarrow> ('d, 't) pta \<Rightarrow> ('d, 't) pta" where
  "settle tx receipt p =
     p\<lparr>unfold_pool := dmerge (fold ddel (spent_keys tx) (unfold_pool p)) (produced tx),
       tx_commit_map := dset (tx_hash tx) receipt (tx_commit_map p)\<rparr>"

definition finish_transaction ::
  "pta_transaction \<Rightarrow> sealed_kernel option res \<Rightarrow> (('d, 't) pta, string) prog" where
  "finish_transaction tx sealed p =
     (case sealed of
        Inl e \<Rightarrow> (Inl e, release tx p)
      | Inr (Some k) \<Rightarrow> (Inr (tx_hash tx), settle tx (sk_signature k) p)
      | Inr None \<Rightarrow> (Inr (tx_hash tx), release tx p))"

definition execute_transaction ::
  "('d, 't) pta_env \<Rightarrow> string \<Rightarrow> nat \<Rightarrow> bool \<Rightarrow> pta_transaction \<Rightarrow> string option \<Rightarrow> (('d, 't) pta, string) prog" where
  "execute_transaction E req_id rounds loop tx sid p =
     (case begin_transaction (env_verify E) tx (spent_mempool p) of
        (Inl e, _) \<Rightarrow> (Inl e, p)
      | (Inr _, spent) \<Rightarrow>
          (let p1 = p\<lparr>spent_mempool := spent\<rparr>;
               stream = \<lparr>ls_id = pta_stream_id tx sid, ls_action = ''PTA_STATE_TRANSITION'',
                         ls_payload = PDict (tx_to_dict tx), ls_metadata = tx_metadata tx\<rparr>
           in case propose_and_seal (e_host E) req_id rounds loop stream (ledger_store p1) of
                (sealed, st') \<Rightarrow> finish_transaction tx sealed (p1\<lparr>ledger_store := st'\<rparr>)))"

definition resolve_commit_hash ::
  "('d, 't) pta_env \<Rightarrow> string \<Rightarrow> string option \<Rightarrow> ('d, 't) pta \<Rightarrow> string \<times> ('d, 't) pta" where
  "resolve_commit_hash E txh sid p =
     (case dget (tx_commit_map p) txh of
        Some c \<Rightarrow> (c, p)
      | None \<Rightarrow>
          (let target_stream = (case sid of Some s \<Rightarrow> s | None \<Rightarrow> ''pta_tx_'' @ take 8 txh) in
           case get_head_hash (e_host E) target_stream (ledger_store p) of
             Some (c # h) \<Rightarrow> (c # h, p\<lparr>tx_commit_map := dset txh (c # h) (tx_commit_map p)\<rparr>)
           | _ \<Rightarrow>
               (case find_commit_hash_by_tx (h_prims (e_host E)) (e_seek E) (e_sync E) txh (ledger_store p) of
                  (found, st') \<Rightarrow>
                    (let p1 = p\<lparr>ledger_store := st'\<rparr> in
                     case found of
                       Some (c # h) \<Rightarrow> (c # h, p1\<lparr>tx_commit_map := dset txh (c # h) (tx_commit_map p1)\<rparr>)
                     | _ \<Rightarrow> (txh, p1)))))"

section \<open>Balances and available inputs\<close>

definition confirmed_key :: "prims \<Rightarrow> unspent_item \<Rightarrow> string" where
  "confirmed_key P item = pointer_text P (ui_tx_hash item) (PInt (int (ui_index item)))"

definition own_pool :: "string list \<Rightarrow> string \<Rightarrow> string \<Rightarrow> (string, pta_output) dict \<Rightarrow> (string, pta_output) dict" where
  "own_pool confirmed own asset pool =
     filter (\<lambda>(key, out). key \<notin> set confirmed \<and> owner out = own \<and> asset_type out = asset) pool"

definition query_unspent ::
  "('d, 't) pta_env \<Rightarrow> string \<Rightarrow> string \<Rightarrow> ('d, 't) pta \<Rightarrow> unspent_item list \<times> ('d, 't) pta" where
  "query_unspent E own asset p =
     (case get_unspent_outputs (h_prims (e_host E)) (e_seek E) (e_sync E) own asset (ledger_store p) of
        (items, st') \<Rightarrow> (map snd items, p\<lparr>ledger_store := st'\<rparr>))"

definition pta_get_balance :: "('d, 't) pta_env \<Rightarrow> string \<Rightarrow> string \<Rightarrow> (('d, 't) pta, int) prog" where
  "pta_get_balance E own asset p0 =
     (case query_unspent E own asset p0 of (items, p) \<Rightarrow>
        (let P = h_prims (e_host E); keys = map (confirmed_key P) items in
         case map_res (\<lambda>item. amount_of (ui_output item)) items of
           Inl e \<Rightarrow> (Inl e, p)
         | Inr amts \<Rightarrow>
             (let oracle_sum = sum_list amts;
                  spent_sum = sum_list (map snd (filter (\<lambda>(key, a). key \<in> spent_mempool p) (zip keys amts)));
                  pool = fold ddel keys (unfold_pool p);
                  produced_sum = sum_list (map (\<lambda>(key, out). amount out) (own_pool keys own asset pool))
              in (Inr (oracle_sum - spent_sum + produced_sum), p\<lparr>unfold_pool := pool\<rparr>))))"

record available_input =
  av_tx_hash :: string
  av_index :: int
  av_amount :: int
  av_output :: pydict
  av_metadata :: pyval

definition confirmed_input :: "prims \<Rightarrow> unspent_item \<Rightarrow> available_input res" where
  "confirmed_input P item =
     bind_res (amount_of (ui_output item)) (\<lambda>a.
       Inr \<lparr>av_tx_hash = py_str P (ui_tx_hash item), av_index = int (ui_index item), av_amount = a,
            av_output = ui_output item, av_metadata = ui_metadata item\<rparr>)"

definition pool_input :: "string \<times> pta_output \<Rightarrow> available_input res" where
  "pool_input kv =
     (case kv of (key, out) \<Rightarrow>
        (case split_char CHR '':'' key of
           [h, idx] \<Rightarrow> bind_res (py_int idx) (\<lambda>n.
             Inr \<lparr>av_tx_hash = h, av_index = n, av_amount = amount out, av_output = asdict_output out,
                  av_metadata = PDict []\<rparr>)
         | _ \<Rightarrow> Inl (Exc ValueErr ''not enough values to unpack'')))"

definition get_available_inputs :: "('d, 't) pta_env \<Rightarrow> string \<Rightarrow> string \<Rightarrow> (('d, 't) pta, available_input list) prog" where
  "get_available_inputs E own asset p0 =
     (case query_unspent E own asset p0 of (items, p) \<Rightarrow>
        (let P = h_prims (e_host E); keys = map (confirmed_key P) items;
             free = filter (\<lambda>item. confirmed_key P item \<notin> spent_mempool p) items;
             pool = fold ddel keys (unfold_pool p); p1 = p\<lparr>unfold_pool := pool\<rparr>
         in (bind_res (map_res (confirmed_input P) free) (\<lambda>cs.
             bind_res (map_res pool_input (own_pool keys own asset pool)) (\<lambda>ps. Inr (cs @ ps))), p1)))"

definition verify_lineage :: "('d, 't) pta_env \<Rightarrow> string \<Rightarrow> int \<Rightarrow> ('d, 't) pta \<Rightarrow> bool \<times> ('d, 't) pta" where
  "verify_lineage E txh depth p =
     (case resolve_commit_hash E txh None p of (c, p1) \<Rightarrow>
        (case verify_kernel_lineage (e_host E) (e_sync E) (e_invoke E) c depth (ledger_store p1) of
           (Inl _, st') \<Rightarrow> (False, p1\<lparr>ledger_store := st'\<rparr>)
         | (Inr lr, st') \<Rightarrow> (lr_valid lr, p1\<lparr>ledger_store := st'\<rparr>)))"

section \<open>Interleaved transactions\<close>

text \<open>
  Transactions share one adapter. A step starts a transaction (which runs to its await), or
  ends one of the pending ones with what its seal gave. \<open>adm\<close> says which transactions are submitted.
\<close>

record ('d, 't) pta_run =
  adapter :: "('d, 't) pta"
  pending :: "pta_transaction list"
  sealed_txs :: "pta_transaction list"

inductive pta_step ::
  "(string \<Rightarrow> string \<Rightarrow> string \<Rightarrow> bool) \<Rightarrow> (pta_transaction \<Rightarrow> bool) \<Rightarrow> ('d, 't) pta_run \<Rightarrow> ('d, 't) pta_run \<Rightarrow> bool"
  for verify adm where
  started: "adm tx \<Longrightarrow> begin_transaction verify tx (spent_mempool (adapter s)) = (Inr (), sp) \<Longrightarrow>
     pta_step verify adm s (s\<lparr>adapter := (adapter s)\<lparr>spent_mempool := sp\<rparr>, pending := pending s @ [tx]\<rparr>)"
| rejected: "adm tx \<Longrightarrow> begin_transaction verify tx (spent_mempool (adapter s)) = (Inl e, sp) \<Longrightarrow>
     pta_step verify adm s (s\<lparr>adapter := (adapter s)\<lparr>spent_mempool := sp\<rparr>\<rparr>)"
| sealed: "pending s = a @ tx # b \<Longrightarrow> finish_transaction tx (Inr (Some k)) (adapter s) = (r, p) \<Longrightarrow>
     pta_step verify adm s (s\<lparr>adapter := p, pending := a @ b, sealed_txs := tx # sealed_txs s\<rparr>)"
| unsealed: "pending s = a @ tx # b \<Longrightarrow> outcome = Inr None \<or> outcome = Inl e \<Longrightarrow>
     finish_transaction tx outcome (adapter s) = (r, p) \<Longrightarrow>
     pta_step verify adm s (s\<lparr>adapter := p, pending := a @ b\<rparr>)"

inductive_cases pta_stepE: "pta_step verify adm s t"

definition fresh_run :: "('d, 't) anchor_store \<Rightarrow> ('d, 't) pta_run" where
  "fresh_run st = \<lparr>adapter = \<lparr>unfold_pool = [], spent_mempool = {}, tx_commit_map = [], ledger_store = st\<rparr>,
     pending = [], sealed_txs = []\<rparr>"

definition linear_tx :: "pta_transaction \<Rightarrow> bool" where
  "linear_tx tx \<longleftrightarrow> list_all (\<lambda>i. owner_address i \<noteq> []) (tx_inputs tx) \<and> distinct (spent_keys tx)"

definition claimed :: "('d, 't) pta_run \<Rightarrow> string list" where
  "claimed s = concat (map spent_keys (pending s @ sealed_txs s))"

definition run_inv :: "('d, 't) pta_run \<Rightarrow> bool" where
  "run_inv s \<longleftrightarrow> distinct (claimed s) \<and> set (claimed s) \<subseteq> spent_mempool (adapter s)"

lemma check_inputs_fresh:
  "check_inputs verify spent n is = Inr () \<Longrightarrow> list_all (\<lambda>i. owner_address i \<noteq> []) is \<Longrightarrow>
     \<forall>i \<in> set is. to_key (in_pointer i) \<notin> spent \<and> verify (to_key (in_pointer i)) (in_signature i) (owner_address i)"
proof (induction "is" arbitrary: n)
  case (Cons i "is")
  then have "check_inputs verify spent (n + 1) is = Inr ()" "to_key (in_pointer i) \<notin> spent"
      "verify (to_key (in_pointer i)) (in_signature i) (owner_address i)"
    by (simp_all add: Let_def split: if_split_asm)
  with Cons show ?case by simp
qed simp

lemma begin_transaction_Inr:
  "begin_transaction verify tx spent = (Inr (), sp) \<longleftrightarrow>
     check_inputs verify spent 0 (tx_inputs tx) = Inr () \<and> sp = spent \<union> set (spent_keys tx)"
  by (auto simp: begin_transaction_def split: sum.splits)

lemma begin_transaction_Inl: "begin_transaction verify tx spent = (Inl e, sp) \<Longrightarrow> sp = spent"
  by (auto simp: begin_transaction_def split: sum.splits)

lemma spent_finish:
  "spent_mempool (snd (finish_transaction tx outcome p)) =
     (case outcome of Inr (Some k) \<Rightarrow> spent_mempool p | _ \<Rightarrow> spent_mempool p - set (spent_keys tx))"
  by (simp add: finish_transaction_def release_def settle_def split: sum.split option.split)

lemma run_inv_step:
  assumes "pta_step verify linear_tx s t" "run_inv s"
  shows "run_inv t"
  using assms(1)
proof (cases rule: pta_step.cases)
  case (started tx sp)
  then have "\<forall>k \<in> set (spent_keys tx). k \<notin> spent_mempool (adapter s)" "distinct (spent_keys tx)"
    using check_inputs_fresh [of verify "spent_mempool (adapter s)" 0 "tx_inputs tx"]
    by (auto simp: begin_transaction_Inr linear_tx_def spent_keys_def)
  moreover have t: "claimed t = concat (map spent_keys (pending s)) @ spent_keys tx @ concat (map spent_keys (sealed_txs s))"
      "spent_mempool (adapter t) = spent_mempool (adapter s) \<union> set (spent_keys tx)"
    using started by (simp_all add: claimed_def begin_transaction_Inr)
  moreover have "distinct (concat (map spent_keys (pending s)) @ concat (map spent_keys (sealed_txs s)))"
      "set (concat (map spent_keys (pending s))) \<subseteq> spent_mempool (adapter s)"
      "set (concat (map spent_keys (sealed_txs s))) \<subseteq> spent_mempool (adapter s)"
    using assms(2) by (simp_all add: run_inv_def claimed_def)
  ultimately show ?thesis unfolding run_inv_def t by (auto simp del: set_concat)
next
  case (rejected tx e sp)
  with assms(2) show ?thesis by (auto simp: run_inv_def claimed_def dest!: begin_transaction_Inl)
next
  case (sealed a tx b k r p)
  then have "spent_mempool p = spent_mempool (adapter s)"
    using spent_finish [of tx "Inr (Some k)" "adapter s"] by simp
  with sealed assms(2) show ?thesis by (auto simp: run_inv_def claimed_def)
next
  case (unsealed a tx b outcome e r p)
  have "p = snd (finish_transaction tx outcome (adapter s))" by (simp add: unsealed(4))
  then have "spent_mempool p = spent_mempool (adapter s) - set (spent_keys tx)"
    using spent_finish [of tx outcome "adapter s"] unsealed(3) by (elim disjE) simp_all
  with unsealed assms(2) show ?thesis by (auto simp: run_inv_def claimed_def)
qed

lemma run_inv_reachable: "(pta_step verify linear_tx)\<^sup>*\<^sup>* s t \<Longrightarrow> run_inv s \<Longrightarrow> run_inv t"
  by (induction rule: rtranclp_induct) (auto intro: run_inv_step)


definition sample_tx :: "string \<Rightarrow> pta_transaction" where
  "sample_tx own = \<lparr>tx_inputs = [\<lparr>in_pointer = \<lparr>ptr_tx_hash = ''g'', ptr_output_index = 0\<rparr>, in_signature = ''s'', owner_address = own\<rparr>],
     tx_outputs = [], tx_metadata = [], timestamp_ms = 0, tx_hash = ''t''\<rparr>"

lemma one_step_sealed:
  fixes s :: "('d, 't) pta_run"
  assumes "adm tx" "begin_transaction verify tx (spent_mempool (adapter s)) = (Inr (), sp)" "pending s = []"
  shows "\<exists>t. (pta_step verify adm)\<^sup>*\<^sup>* s t \<and> pending t = [] \<and> sealed_txs t = tx # sealed_txs s \<and>
    spent_mempool (adapter t) = sp"
proof -
  define s1 where "s1 = s\<lparr>adapter := (adapter s)\<lparr>spent_mempool := sp\<rparr>, pending := [tx]\<rparr>"
  have 1: "pta_step verify adm s s1"
    using pta_step.started [where adm = adm and tx = tx and s = s and sp = sp and verify = verify] assms
    by (simp add: s1_def)
  obtain r p where f: "finish_transaction tx (Inr (Some (undefined :: sealed_kernel))) (adapter s1) = (r, p)"
    by (metis surj_pair)
  have 2: "pta_step verify adm s1 (s1\<lparr>adapter := p, pending := [], sealed_txs := tx # sealed_txs s1\<rparr>)"
    using pta_step.sealed [where s = s1 and a = "[]" and tx = tx and b = "[]" and verify = verify and adm = adm, OF _ f]
    by (simp add: s1_def)
  have "spent_mempool p = sp"
    using spent_finish [of tx "Inr (Some undefined)" "adapter s1"] f by (simp add: s1_def)
  with 1 2 show ?thesis
    by (intro exI [of _ "s1\<lparr>adapter := p, pending := [], sealed_txs := tx # sealed_txs s1\<rparr>"])
      (auto simp: s1_def)
qed


text \<open>
  The reservation covers owned inputs only: two transactions whose input names no owner are
  both accepted and sealed although they consume the same pointer, one after the other.
\<close>

theorem unowned_inputs_double_spend:
  "\<exists>s :: ('d, 't) pta_run. (pta_step verify (\<lambda>_. True))\<^sup>*\<^sup>* (fresh_run st) s \<and>
     sealed_txs s = [sample_tx [], sample_tx []] \<and> spent_keys (sample_tx []) = [''g:0'']"
proof -
  have b: "begin_transaction verify (sample_tx []) spent = (Inr (), spent \<union> set (spent_keys (sample_tx [])))" for spent
    by (simp add: begin_transaction_def sample_tx_def)
  obtain s1 :: "('d, 't) pta_run" where s1: "(pta_step verify (\<lambda>_. True))\<^sup>*\<^sup>* (fresh_run st) s1"
      "pending s1 = []" "sealed_txs s1 = sample_tx [] # sealed_txs (fresh_run st)"
    using one_step_sealed [of "\<lambda>_. True" "sample_tx []" verify "fresh_run st", OF _ b] by (auto simp: fresh_run_def)
  obtain s2 where s2: "(pta_step verify (\<lambda>_. True))\<^sup>*\<^sup>* s1 s2" "sealed_txs s2 = sample_tx [] # sealed_txs s1"
    using one_step_sealed [of "\<lambda>_. True" "sample_tx []" verify s1, OF _ b s1(2)] by auto
  have "show_int 0 = ''0''" by code_simp
  then have "spent_keys (sample_tx []) = [''g:0'']"
    by (simp add: spent_keys_def sample_tx_def to_key_def pta_pointer_def)
  with s1 s2 rtranclp_trans [OF s1(1) s2(1)] show ?thesis by (auto simp: fresh_run_def)
qed

section \<open>Executing on the sealer\<close>

lemma dget_fold_ddel: "dget (fold ddel ks d) k = (if k \<in> set ks then None else dget d k)"
  by (induction ks arbitrary: d) auto

lemma seal_keeps_room:
  assumes "role st = SEALER" "fdb_room (db st) (3 + n)"
  shows "fdb_room (db (snd (propose_and_seal (fdb_host B) r rounds loop ls st))) n"
proof -
  have r3: "fdb_room (db st) 3" using assms(2) by (simp add: fdb_room_def)
  have rm: "fdb_room (db st) (Suc (Suc (Suc n)))" using assms(2) by (simp add: fdb_room_def)
  obtain k v d where d: "db (snd (propose_and_seal (fdb_host B) r rounds loop ls st)) = snd (fdb_put k v d)"
      "fdb_room d (Suc n)"
    using ledger.propose_and_seal_eq(3) [OF assms(1) r3, of B r rounds loop ls] ledger.room_ins [OF ledger.room_ins [OF rm]]
    by blast
  show ?thesis unfolding d(1) using ledger.room_put [OF d(2)] by blast
qed

lemma execute_transaction_step:
  assumes "e_host E = fdb_host B" "role (ledger_store p) = SEALER" "fdb_ok (db (ledger_store p))"
    and "fdb_room (db (ledger_store p)) (3 + n)"
    and "check_inputs (env_verify E) (spent_mempool p) 0 (tx_inputs tx) = Inr ()"
  shows "\<exists>p' c h. execute_transaction E r rounds loop tx sid p = (Inr (tx_hash tx), p') \<and>
    executable_payload c = PDict (tx_to_dict tx) \<and> h = deterministic_hash (h_prims B) (PDict (asdict_commit c)) \<and>
    get_head_hash (fdb_host B) (pta_stream_id tx sid) (ledger_store p') = Some h \<and>
    fdb_get (db (ledger_store p')) (object_key ''commit'' h) =
      (case fdb_get (db (ledger_store p)) (object_key ''commit'' h) of
         None \<Rightarrow> Some (p_dumps (h_prims B) (PDict (asdict_commit c))) | Some old \<Rightarrow> Some old) \<and>
    resolve_commit_hash E (tx_hash tx) sid p' = (h, p') \<and>
    spent_mempool p' = spent_mempool p \<union> set (spent_keys tx) \<and>
    (\<forall>key. dget (unfold_pool p') key = (case map_of (rev (produced tx)) key of
        Some out \<Rightarrow> Some out
      | None \<Rightarrow> if key \<in> set (spent_keys tx) then None else dget (unfold_pool p) key)) \<and>
    role (ledger_store p') = SEALER \<and> fdb_ok (db (ledger_store p')) \<and> fdb_room (db (ledger_store p')) n"
proof -
  let ?ls = "\<lparr>ls_id = pta_stream_id tx sid, ls_action = ''PTA_STATE_TRANSITION'',
      ls_payload = PDict (tx_to_dict tx), ls_metadata = tx_metadata tx\<rparr>"
  have r3: "fdb_room (db (ledger_store p)) 3" using assms(4) by (simp add: fdb_room_def)
  obtain k st' c where seal: "propose_and_seal (fdb_host B) r rounds loop ?ls (ledger_store p) = (Inr (Some k), st')"
    and c: "executable_payload c = PDict (tx_to_dict tx)" "sk_signature k = deterministic_hash (h_prims B) (PDict (asdict_commit c))"
    and head: "get_head_hash (fdb_host B) (pta_stream_id tx sid) st' = Some (sk_signature k)"
    and obj: "fdb_get (db st') (object_key ''commit'' (sk_signature k)) =
      (case fdb_get (db (ledger_store p)) (object_key ''commit'' (sk_signature k)) of
        None \<Rightarrow> Some (p_dumps (h_prims B) (PDict (asdict_commit c))) | Some old \<Rightarrow> Some old)"
    and st': "role st' = SEALER" "fdb_ok (db st')"
    using propose_and_seal_step [OF assms(2,3) r3, of B r rounds loop ?ls] by (auto simp: Let_def)
  have room: "fdb_room (db st') n"
    using seal_keeps_room [OF assms(2,4), of B r rounds loop ?ls] by (simp add: seal)
  define p' where "p' = settle tx (sk_signature k)
      (p\<lparr>spent_mempool := spent_mempool p \<union> set (spent_keys tx), ledger_store := st'\<rparr>)"
  have ex: "execute_transaction E r rounds loop tx sid p = (Inr (tx_hash tx), p')"
    using assms(1,5) seal
    by (simp add: execute_transaction_def begin_transaction_def Let_def finish_transaction_def p'_def)
  have p': "ledger_store p' = st'" "spent_mempool p' = spent_mempool p \<union> set (spent_keys tx)"
      "dget (tx_commit_map p') (tx_hash tx) = Some (sk_signature k)"
    by (simp_all add: p'_def settle_def)
  have pool: "dget (unfold_pool p') key = (case map_of (rev (produced tx)) key of Some out \<Rightarrow> Some out
      | None \<Rightarrow> if key \<in> set (spent_keys tx) then None else dget (unfold_pool p) key)" for key
    by (simp add: p'_def settle_def dget_dmerge dget_fold_ddel split: option.split)
  show ?thesis
    by (intro exI [of _ p'] exI [of _ c] exI [of _ "sk_signature k"] conjI allI)
      (use ex c head obj st' room p' pool in \<open>simp_all add: resolve_commit_hash_def\<close>)
qed

text \<open>
  C31. A transaction whose checks pass runs to its end on the lock holder: it is sealed as the
  new head of its stream, its receipt is what the commit lookup returns from then on, its inputs
  are reserved and gone from the pool, its outputs are in the pool under their pointers, and the
  rest of the pool is as before. One whose checks fail changes nothing.
\<close>

theorem execute_transaction_outcome:
  assumes "e_host E = fdb_host B" "role (ledger_store p) = SEALER" "fdb_ok (db (ledger_store p))"
    and "fdb_room (db (ledger_store p)) 3"
  shows "case check_inputs (env_verify E) (spent_mempool p) 0 (tx_inputs tx) of
      Inl e \<Rightarrow> execute_transaction E r n loop tx sid p = (Inl e, p)
    | Inr _ \<Rightarrow> \<exists>p' receipt. execute_transaction E r n loop tx sid p = (Inr (tx_hash tx), p') \<and>
        get_head_hash (fdb_host B) (pta_stream_id tx sid) (ledger_store p') = Some receipt \<and>
        resolve_commit_hash E (tx_hash tx) sid p' = (receipt, p') \<and>
        spent_mempool p' = spent_mempool p \<union> set (spent_keys tx) \<and>
        (\<forall>key. dget (unfold_pool p') key = (case map_of (rev (produced tx)) key of
            Some out \<Rightarrow> Some out
          | None \<Rightarrow> if key \<in> set (spent_keys tx) then None else dget (unfold_pool p) key))"
proof (cases "check_inputs (env_verify E) (spent_mempool p) 0 (tx_inputs tx)")
  case (Inl e)
  then show ?thesis by (simp add: execute_transaction_def begin_transaction_def)
next
  case (Inr u)
  then have ck: "check_inputs (env_verify E) (spent_mempool p) 0 (tx_inputs tx) = Inr ()" by simp
  have room: "fdb_room (db (ledger_store p)) (3 + 0)" using assms(4) by simp
  from execute_transaction_step [OF assms(1-3) room ck, of r n loop sid] Inr show ?thesis
    by (auto simp del: split_paired_Ex)
qed

definition sample_env :: "(fdb_driver, unit) pta_env" where
  "sample_env = \<lparr>e_host = fdb_host sample_base, e_seek = fdb_scan, e_sync = ret (), e_nacl = (\<lambda>_ _ _. True),
     e_own_key = ''k'', e_invoke = (\<lambda>_. (True, ''ok''))\<rparr>"

theorem execute_transaction_outcome_witness:
  "\<exists>p'. execute_transaction sample_env ''r'' 0 False (sample_tx ''o'') None (adapter (fresh_run sample_store)) = (Inr ''t'', p') \<and>
     spent_mempool p' = set (spent_keys (sample_tx ''o''))"
proof -
  have p: "ledger_store (adapter (fresh_run sample_store)) = sample_store" "spent_mempool (adapter (fresh_run sample_store)) = {}"
    by (simp_all add: fresh_run_def)
  have c: "check_inputs (env_verify sample_env) {} 0 (tx_inputs (sample_tx ''o'')) = Inr ()"
    by (simp add: sample_tx_def env_verify_def verify_ed25519_signature_def verify_signature_def sample_env_def)
  have "tx_hash (sample_tx ''o'') = ''t''" by (simp add: sample_tx_def)
  moreover have "e_host sample_env = fdb_host sample_base" by (simp add: sample_env_def)
  ultimately show ?thesis
    using execute_transaction_outcome [where E = sample_env and B = sample_base and p = "adapter (fresh_run sample_store)"
        and tx = "sample_tx ''o''" and r = "''r''" and n = 0 and loop = False and sid = None]
      sample_store_ok(1,2) sample_store_ok(3) [of 3] c
    by (auto simp: p)
qed

section \<open>Balances\<close>

lemma sum_zip_filter:
  "length xs = length ys \<Longrightarrow>
     sum_list ys - sum_list (map snd (filter (\<lambda>(k, a). k \<in> S) (zip xs ys))) =
     (sum_list (map snd (filter (\<lambda>(k, a). k \<notin> S) (zip xs ys))) :: int)"
  by (induction xs ys rule: list_induct2) auto

lemma confirmed_amounts:
  assumes "map_res (\<lambda>item. amount_of (ui_output item)) items = Inr amts"
    and "map_res (confirmed_input P) (filter (\<lambda>item. f item \<notin> S) items) = Inr cs"
  shows "sum_list (map av_amount cs) = sum_list (map snd (filter (\<lambda>(k, a). k \<notin> S) (zip (map f items) amts)))"
  using assms
proof (induction items arbitrary: amts cs)
  case (Cons i "is")
  then obtain a as where a: "amount_of (ui_output i) = Inr a" "amts = a # as"
      "map_res (\<lambda>item. amount_of (ui_output item)) is = Inr as"
    by (auto simp: bind_res_Inr)
  show ?case
  proof (cases "f i \<in> S")
    case True
    with Cons a show ?thesis by auto
  next
    case False
    with Cons.prems(2) obtain c cs' where "confirmed_input P i = Inr c" "cs = c # cs'"
        "map_res (confirmed_input P) (filter (\<lambda>item. f item \<notin> S) is) = Inr cs'"
      by (auto simp: bind_res_Inr)
    moreover from this a(1) have "av_amount c = a" by (auto simp: confirmed_input_def)
    ultimately show ?thesis using False Cons.IH [OF a(3)] a(2) by simp
  qed
qed simp

lemma pool_amounts:
  "map_res pool_input kvs = Inr ps \<Longrightarrow> sum_list (map av_amount ps) = sum_list (map (\<lambda>(k, out). amount out) kvs)"
proof (induction kvs arbitrary: ps)
  case (Cons kv kvs)
  then obtain q qs where q: "pool_input kv = Inr q" "ps = q # qs" "map_res pool_input kvs = Inr qs"
    by (auto simp: bind_res_Inr)
  then have "av_amount q = (case kv of (k, out) \<Rightarrow> amount out)"
    by (auto simp: pool_input_def bind_res_Inr split: prod.splits list.splits)
  with Cons.IH [OF q(3)] q(2) show ?case by simp
qed simp

text \<open>
  The balance of an owner is what the owner can spend: whenever both queries answer on the
  same state, the balance is the sum of the amounts of the available inputs, confirmed outputs
  not reserved locally together with local outputs the ledger does not show yet, and both leave
  the adapter in the same state.
\<close>

theorem balance_is_spendable:
  assumes "pta_get_balance E own asset p = (Inr bal, p')" "get_available_inputs E own asset p = (Inr avail, p'')"
  shows "bal = sum_list (map av_amount avail) \<and> p' = p''"
proof -
  obtain items p1 where q: "query_unspent E own asset p = (items, p1)" by (metis surj_pair)
  let ?P = "h_prims (e_host E)" and ?pool = "fold ddel (map (confirmed_key (h_prims (e_host E))) items) (unfold_pool p1)"
  let ?keys = "map (confirmed_key ?P) items" and ?S = "spent_mempool p1"
  from assms(1) q obtain amts where am: "map_res (\<lambda>item. amount_of (ui_output item)) items = Inr amts"
    and t: "bal = sum_list amts - sum_list (map snd (filter (\<lambda>(key, a). key \<in> ?S) (zip ?keys amts))) +
        sum_list (map (\<lambda>(key, out). amount out) (own_pool ?keys own asset ?pool))"
    and p': "p' = p1\<lparr>unfold_pool := ?pool\<rparr>"
    by (auto simp: pta_get_balance_def Let_def split: sum.splits)
  from assms(2) q obtain cs ps where cs: "map_res (confirmed_input ?P) (filter (\<lambda>item. confirmed_key ?P item \<notin> ?S) items) = Inr cs"
    and ps: "map_res pool_input (own_pool ?keys own asset ?pool) = Inr ps" and av: "avail = cs @ ps"
    and p'': "p'' = p1\<lparr>unfold_pool := ?pool\<rparr>"
    by (auto simp: get_available_inputs_def Let_def bind_res_Inr)
  have "length ?keys = length amts" using map_res_length [OF am] by simp
  from sum_zip_filter [OF this, of ?S] show ?thesis
    using t p' p'' av confirmed_amounts [OF am cs] pool_amounts [OF ps] by simp
qed

definition ledger_env :: "(fdb_driver, unit) pta_env" where
  "ledger_env = sample_env\<lparr>e_host := fdb_host (sample_base\<lparr>h_prims := ledger_codec\<rparr>)\<rparr>"

definition ledger_pta :: "(fdb_driver, unit) pta" where
  "ledger_pta = \<lparr>unfold_pool = [(''c:0'', plain_output 9 ''alice'' ''fuel'')], spent_mempool = {}, tx_commit_map = [],
     ledger_store = initialize_consensus_node True False ledger_driver ()\<rparr>"

lemma ledger_pta_evaluates:
  "fst (pta_get_balance ledger_env ''alice'' ''fuel'' ledger_pta) = Inr 11"
  "\<not> isl (fst (get_available_inputs ledger_env ''alice'' ''fuel'' ledger_pta))"
  by code_simp+

theorem balance_is_spendable_witness:
  "\<exists>avail p'. get_available_inputs ledger_env ''alice'' ''fuel'' ledger_pta = (Inr avail, p') \<and>
     sum_list (map av_amount avail) = 11"
proof -
  obtain pb where b: "pta_get_balance ledger_env ''alice'' ''fuel'' ledger_pta = (Inr 11, pb)"
    using ledger_pta_evaluates(1) by (metis prod.collapse)
  obtain avail pa where a: "get_available_inputs ledger_env ''alice'' ''fuel'' ledger_pta = (Inr avail, pa)"
    using ledger_pta_evaluates(2) by (metis isl_def prod.collapse sum.exhaust_sel)
  from balance_is_spendable [OF b a] a show ?thesis by auto
qed

section \<open>The Merkle root\<close>

lemma merkle_level_duplicate:
  "odd (length xs) \<Longrightarrow> merkle_level sha (xs @ [last xs]) = merkle_level sha xs"
proof (induction sha xs rule: merkle_level.induct)
  case (3 sha left right rest)
  then have "rest \<noteq> []" by auto
  with 3 show ?case by simp
qed simp_all

text \<open>
  The Merkle root of transaction hashes is computed for every list, a single hash is its own
  root, and an odd level is padded with its last hash: a list of odd length above one has the
  same root as the list with its last hash repeated, so the root does not determine the list.
\<close>

theorem merkle_root_padding:
  assumes "xs \<noteq> []"
  shows "compute_merkle_root P xs =
     (case xs of [h] \<Rightarrow> h | _ \<Rightarrow> compute_merkle_root P (merkle_level (p_sha256 P) xs)) \<and>
   length (merkle_level (p_sha256 P) xs) = (length xs + 1) div 2 \<and>
   (odd (length xs) \<and> xs \<noteq> [hd xs] \<longrightarrow> compute_merkle_root P xs = compute_merkle_root P (xs @ [last xs]))"
proof -
  have ne: "merkle_level sha xs \<noteq> []" for sha
    using assms length_merkle_level [of sha xs] by (cases xs) auto
  have one: "merkle_loop sha [h] = h" for sha h by (simp add: merkle_loop.simps)
  have step: "1 < length ys \<Longrightarrow> merkle_loop sha ys = merkle_loop sha (merkle_level sha ys)" for sha ys
    by (simp add: merkle_loop.simps [of sha ys])
  have "compute_merkle_root P xs = compute_merkle_root P (xs @ [last xs])" if "odd (length xs)" "xs \<noteq> [hd xs]"
  proof -
    from assms that have "1 < length xs" by (cases xs) auto
    then show ?thesis
      using assms that step [of xs "p_sha256 P"] step [of "xs @ [last xs]" "p_sha256 P"]
      by (simp add: compute_merkle_root_def merkle_level_duplicate)
  qed
  moreover have "compute_merkle_root P xs =
      (case xs of [h] \<Rightarrow> h | _ \<Rightarrow> compute_merkle_root P (merkle_level (p_sha256 P) xs))"
    using assms ne step [of xs "p_sha256 P"]
    by (auto simp: compute_merkle_root_def one split: list.splits)
  ultimately show ?thesis by (simp add: length_merkle_level)
qed

theorem merkle_root_padding_witness:
  "compute_merkle_root sample_codec [''a'', ''b'', ''c''] = compute_merkle_root sample_codec [''a'', ''b'', ''c'', ''c'']"
  using merkle_root_padding [of "[''a'', ''b'', ''c'']" sample_codec] by force

end
