(* ===== verification/DagBarrier.thy ===== *)
theory DagBarrier
  imports FsmContract
begin

text \<open>
  Join barriers of a compiled graph, \<^verbatim>\<open>DagJoinBarrier\<close> in \<^verbatim>\<open>node/runtime/phase.py\<close>: the
  analysis that finds the nodes where parallel branches meet, and the buckets branches wait in.
  The graph is a compact blob as the compiler writes it, a dynamic value. Python iterates over
  the set of successors in an order of its own: \<open>order\<close> is that order, any function that
  rearranges a list. The recursive search is given fuel and shown never to need more than the
  number of nodes.
\<close>

section \<open>Edges of a compact graph\<close>

definition rule_target :: "pyval \<Rightarrow> pyval list res" where
  "rule_target r = bind_res (as_dict r) (\<lambda>d. case dget d K_NEXT of None \<Rightarrow> Inr [] | Some t \<Rightarrow> Inr [t])"

definition node_targets :: "pydict \<Rightarrow> pyval list res" where
  "node_targets spec =
     bind_res
       (if dget spec K_TYPE = Some (PStr (node_type_value ROUTER)) then
          bind_res (iter_val (dget_or spec K_RULES (PList []))) (\<lambda>rs.
          bind_res (map_res rule_target rs) (\<lambda>ts.
            Inr (concat ts @ (if truthy (dget_or spec K_DEFAULT_NEXT PNone)
                              then [dget_or spec K_DEFAULT_NEXT PNone] else []))))
        else (case dget_or spec K_NEXT (PList []) of PList ts \<Rightarrow> Inr ts | t \<Rightarrow> Inr [t]))
       (\<lambda>targets.
          (let fb_target = dget_or spec K_FALLBACK PNone in
           Inr (if truthy fb_target \<and> fb_target \<notin> set targets then targets @ [fb_target] else targets)))"

fun string_of :: "pyval \<Rightarrow> string list" where
  "string_of (PStr s) = [s]"
| "string_of v = []"

text \<open>The successors of each node inside the graph, each once.\<close>

definition graph_edges :: "pydict \<Rightarrow> (string, string list) dict res" where
  "graph_edges graph =
     map_res (\<lambda>(nid, v).
       bind_res (as_dict v) (\<lambda>spec.
       bind_res (node_targets spec) (\<lambda>ts.
         Inr (nid, remdups (filter (dhas graph) (concat (map string_of ts)))))))
     graph"

section \<open>Depth-first search\<close>

type_synonym dfs_state = "(string \<Rightarrow> nat) \<times> (string \<times> string) list"

function (sequential) dfs :: "(string \<Rightarrow> string list) \<Rightarrow> nat \<Rightarrow> string \<Rightarrow> dfs_state \<Rightarrow> dfs_state option" and
  visit :: "(string \<Rightarrow> string list) \<Rightarrow> nat \<Rightarrow> string \<Rightarrow> string list \<Rightarrow> dfs_state \<Rightarrow> dfs_state option" where
  "dfs out 0 u st = None"
| "dfs out (Suc n) u (color, back) =
     map_option (\<lambda>(c, b). (c(u := 2), b)) (visit out n u (out u) (color(u := 1), back))"
| "visit out n u [] st = Some st"
| "visit out n u (v # vs) (color, back) =
     (if color v = 1 then visit out n u vs (color, List.insert (u, v) back)
      else if color v = 0 then Option.bind (dfs out n v (color, back)) (visit out n u vs)
      else visit out n u vs (color, back))"
  by pat_completeness auto
termination
  by (relation "measures [\<lambda>x. case x of Inl (_, n, _, _) \<Rightarrow> n | Inr (_, n, _, _, _) \<Rightarrow> n,
                           \<lambda>x. case x of Inl _ \<Rightarrow> 0 | Inr (_, _, _, vs, _) \<Rightarrow> Suc (length vs)]") auto

record dag_topology =
  topo_entry :: string
  back_edges :: "(string \<times> string) list"
  join_nodes :: "string list"

definition forward_preds :: "(string, string list) dict \<Rightarrow> (string \<times> string) list \<Rightarrow> string \<Rightarrow> string list" where
  "forward_preds es back nid =
     filter (\<lambda>p. (p, nid) \<notin> set back) (map fst (filter (\<lambda>(p, ts). nid \<in> set ts) es))"

definition edge_map :: "(string, string list) dict \<Rightarrow> string \<Rightarrow> string list" where
  "edge_map es u = dget_or es u []"

definition search :: "(string \<Rightarrow> string list) \<Rightarrow> pydict \<Rightarrow> string \<Rightarrow> (string \<times> string) list option" where
  "search out graph entry =
     (if dhas graph entry then map_option snd (dfs out (Suc (length graph)) entry ((\<lambda>_. 0), [])) else Some [])"

definition mk_topology :: "(string, string list) dict \<Rightarrow> string \<Rightarrow> (string \<times> string) list \<Rightarrow> dag_topology" where
  "mk_topology es entry bk =
     \<lparr>topo_entry = entry, back_edges = bk,
      join_nodes = filter (\<lambda>nid. 2 \<le> length (forward_preds es bk nid)) (map fst es)\<rparr>"

text \<open>None stands for a search that ran out of fuel; it does not occur.\<close>

definition analyze_blob :: "(string list \<Rightarrow> string list) \<Rightarrow> pydict \<Rightarrow> dag_topology option res" where
  "analyze_blob order blob =
     bind_res (as_dict (dget_or blob K_META (PDict []))) (\<lambda>m.
     bind_res (as_dict (dget_or blob K_GRAPH (PDict []))) (\<lambda>graph.
     bind_res (graph_edges graph) (\<lambda>es.
       (let entry = (case dget_or m K_ENTRY (PStr []) of PStr s \<Rightarrow> s | _ \<Rightarrow> []) in
        Inr (map_option (mk_topology es entry) (search (\<lambda>u. order (edge_map es u)) graph entry))))))"

section \<open>The barrier\<close>

record 'c dag_barrier =
  topology :: dag_topology
  waiting :: "(string, 'c list) dict"

definition mk_barrier :: "(string list \<Rightarrow> string list) \<Rightarrow> pydict \<Rightarrow> 'c dag_barrier option res" where
  "mk_barrier order blob =
     bind_res (analyze_blob order blob) (\<lambda>t.
       Inr (map_option (\<lambda>topo. \<lparr>topology = topo, waiting = map (\<lambda>jn. (jn, [])) (join_nodes topo)\<rparr>) t))"

definition is_join_point :: "'c dag_barrier \<Rightarrow> string \<Rightarrow> bool" where
  "is_join_point b node_id \<longleftrightarrow> node_id \<in> set (join_nodes (topology b))"

text \<open>\<open>sid\<close> and \<open>node\<close> read the stream and the current node of a branch.\<close>

definition arrive ::
  "('c \<Rightarrow> string) \<Rightarrow> ('c \<Rightarrow> string) \<Rightarrow> 'c \<Rightarrow> int \<Rightarrow> 'c dag_barrier \<Rightarrow> (bool \<times> 'c list) \<times> 'c dag_barrier" where
  "arrive sid node cursor expected_count b =
     (let bucket0 = dget_or (waiting b) (node cursor) [];
          bucket = (if list_all (\<lambda>c. sid c \<noteq> sid cursor) bucket0 then bucket0 @ [cursor] else bucket0)
      in if expected_count \<le> int (length bucket)
         then ((True, bucket), b\<lparr>waiting := dset (node cursor) [] (waiting b)\<rparr>)
         else ((False, []), b\<lparr>waiting := dset (node cursor) bucket (waiting b)\<rparr>))"

definition drain_waiting :: "string option \<Rightarrow> 'c dag_barrier \<Rightarrow> 'c list \<times> 'c dag_barrier" where
  "drain_waiting node_id b =
     (case node_id of
        Some n \<Rightarrow> (dget_or (waiting b) n [],
                   if dhas (waiting b) n then b\<lparr>waiting := dset n [] (waiting b)\<rparr> else b)
      | None \<Rightarrow> (concat (dvalues (waiting b)), b\<lparr>waiting := map (\<lambda>(n, _). (n, [])) (waiting b)\<rparr>))"

section \<open>The search ends and finds cycles\<close>

definition white :: "string set \<Rightarrow> (string \<Rightarrow> nat) \<Rightarrow> string set" where
  "white V color = {v \<in> V. color v = 0}"

lemma white_mono: "(\<And>v. color' v = 0 \<Longrightarrow> color v = 0) \<Longrightarrow> finite V \<Longrightarrow> card (white V color') \<le> card (white V color)"
  by (rule card_mono) (auto simp: white_def)

text \<open>With more fuel than unvisited nodes the search returns, and it only visits.\<close>

definition closed_out :: "string set \<Rightarrow> (string \<Rightarrow> string list) \<Rightarrow> bool" where
  "closed_out V out \<longleftrightarrow> finite V \<and> (\<forall>u \<in> V. set (out u) \<subseteq> V)"

lemma card_white_visit: "closed_out V out \<Longrightarrow> u \<in> V \<Longrightarrow> color u = 0 \<Longrightarrow> card (white V color) < Suc n \<Longrightarrow>
    card (white V (color(u := 1))) < n"
proof -
  assume V: "closed_out V out" and u: "u \<in> V" "color u = 0" and n: "card (white V color) < Suc n"
  have eq: "white V (color(u := 1)) = white V color - {u}" by (auto simp: white_def)
  have "finite (white V color)" "u \<in> white V color" using V u by (auto simp: white_def closed_out_def)
  then have "card (white V color) = Suc (card (white V color - {u}))" by (rule card.remove)
  with n eq show ?thesis by simp
qed

lemma dfs_total:
  shows "closed_out V out \<Longrightarrow> u \<in> V \<Longrightarrow> fst st u = 0 \<Longrightarrow> card (white V (fst st)) < n \<Longrightarrow>
      \<exists>c b. dfs out n u st = Some (c, b) \<and> (\<forall>v. c v = 0 \<longrightarrow> fst st v = 0)"
    and "closed_out V out \<Longrightarrow> set vs \<subseteq> V \<Longrightarrow> card (white V (fst st)) < n \<Longrightarrow>
      \<exists>c b. visit out n u vs st = Some (c, b) \<and> (\<forall>v. c v = 0 \<longrightarrow> fst st v = 0)"
proof (induction out n u st and out n u vs st rule: dfs_visit.induct)
  case (1 out u st)
  then show ?case by simp
next
  case (2 out n u color bk)
  have "card (white V (color(u := 1))) < n"
    using 2 by (intro card_white_visit) auto
  moreover have "set (out u) \<subseteq> V" using 2 by (simp add: closed_out_def)
  ultimately obtain c b where v: "visit out n u (out u) (color(u := 1), bk) = Some (c, b)"
      "\<forall>v. c v = 0 \<longrightarrow> (color(u := 1)) v = 0"
    using 2 by fastforce
  then have "\<forall>v. (c(u := 2)) v = 0 \<longrightarrow> color v = 0" by (metis fun_upd_apply zero_neq_numeral)
  with v(1) show ?case by simp
next
  case (3 out n u st)
  then show ?case by (cases st) auto
next
  case (4 out n u v vs color bk)
  show ?case
  proof (cases "color v = 0")
    case True
    with 4 obtain c b where d: "dfs out n v (color, bk) = Some (c, b)" "\<forall>x. c x = 0 \<longrightarrow> color x = 0"
      by fastforce
    have "card (white V c) \<le> card (white V color)"
      using d(2) 4 by (intro white_mono) (auto simp: closed_out_def)
    with 4 True d have "\<exists>c' b'. visit out n u vs (c, b) = Some (c', b') \<and> (\<forall>x. c' x = 0 \<longrightarrow> c x = 0)"
      by fastforce
    with d True show ?thesis by auto
  next
    case False
    with 4 show ?thesis by (cases "color v = 1") fastforce+
  qed
qed

text \<open>
  While the search is at a node every node on its stack (colour 1) leads to it, so an edge back
  to the stack closes a cycle; the stack is the same again when the call returns.
\<close>

definition leads :: "(string \<Rightarrow> string list) \<Rightarrow> string \<Rightarrow> string \<Rightarrow> bool" where
  "leads out = (\<lambda>a b. b \<in> set (out a))\<^sup>*\<^sup>*"

definition on_cycle :: "(string \<Rightarrow> string list) \<Rightarrow> string \<times> string \<Rightarrow> bool" where
  "on_cycle out e \<longleftrightarrow> snd e \<in> set (out (fst e)) \<and> leads out (snd e) (fst e)"

lemma leads_step: "leads out x u \<Longrightarrow> v \<in> set (out u) \<Longrightarrow> leads out x v"
  unfolding leads_def by (rule rtranclp.rtrancl_into_rtrancl)

lemma dfs_back_edges:
  shows "dfs out n u st = Some (c, b) \<Longrightarrow> fst st u \<noteq> 1 \<Longrightarrow> \<forall>x. fst st x = 1 \<longrightarrow> leads out x u \<Longrightarrow>
      (\<forall>x. c x = 1 \<longleftrightarrow> fst st x = 1) \<and> (\<forall>e \<in> set b. e \<in> set (snd st) \<or> on_cycle out e)"
    and "visit out n u vs st = Some (c, b) \<Longrightarrow> set vs \<subseteq> set (out u) \<Longrightarrow> \<forall>x. fst st x = 1 \<longrightarrow> leads out x u \<Longrightarrow>
      (\<forall>x. c x = 1 \<longleftrightarrow> fst st x = 1) \<and> (\<forall>e \<in> set b. e \<in> set (snd st) \<or> on_cycle out e)"
proof (induction out n u st and out n u vs st arbitrary: c b and c b rule: dfs_visit.induct)
  case (1 out u st)
  then show ?case by simp
next
  case (2 out n u color bk)
  from 2(2) obtain c' where v: "visit out n u (out u) (color(u := 1), bk) = Some (c', b)" and c: "c = c'(u := 2)"
    by auto
  have "\<forall>x. (color(u := 1)) x = 1 \<longrightarrow> leads out x u"
    using 2(4) by (auto simp: leads_def)
  with 2(1) [OF v] have "(\<forall>x. c' x = 1 \<longleftrightarrow> (color(u := 1)) x = 1) \<and> (\<forall>e \<in> set b. e \<in> set bk \<or> on_cycle out e)"
    by simp
  with 2(3) show ?case by (auto simp: c)
next
  case (3 out n u st)
  then show ?case by auto
next
  case (4 out n u v vs color bk)
  have v: "v \<in> set (out u)" using 4(6) by simp
  show ?case
  proof (cases "color v = 1")
    case True
    with 4 have ih: "(\<forall>x. c x = 1 \<longleftrightarrow> color x = 1) \<and>
        (\<forall>e \<in> set b. e \<in> set (List.insert (u, v) bk) \<or> on_cycle out e)" by simp
    have "on_cycle out (u, v)" using v 4(7) True by (simp add: on_cycle_def)
    with ih show ?thesis by auto
  next
    case False
    show ?thesis
    proof (cases "color v = 0")
      case True
      with False 4(5) obtain c1 b1 where d: "dfs out n v (color, bk) = Some (c1, b1)"
        and r: "visit out n u vs (c1, b1) = Some (c, b)"
        by (auto simp: bind_eq_Some_conv)
      have "\<forall>x. color x = 1 \<longrightarrow> leads out x v" using 4(7) v by (auto intro: leads_step)
      with 4(2) [OF False True d] True have 1: "(\<forall>x. c1 x = 1 \<longleftrightarrow> color x = 1) \<and> (\<forall>e \<in> set b1. e \<in> set bk \<or> on_cycle out e)"
        by simp
      with 4(3) [OF False True _ r] d 4(6,7) show ?thesis by auto
    next
      case F: False
      with False 4 show ?thesis by simp
    qed
  qed
qed

lemma graph_edges_spec:
  assumes "graph_edges graph = Inr es"
  shows "map fst es = map fst graph" "\<And>u. set (edge_map es u) \<subseteq> set (map fst graph)"
proof -
  have l: "list_all2 (\<lambda>kv e. fst e = fst kv \<and> set (snd e) \<subseteq> set (map fst graph)) graph es"
    using assms unfolding graph_edges_def map_res_Inr
    by (rule list_all2_mono) (auto simp: bind_res_Inr dhas_iff dkeys_def split: prod.splits)
  then show m: "map fst es = map fst graph"
    by (auto simp: list_all2_conv_all_nth intro: nth_equalityI)
  show "set (edge_map es u) \<subseteq> set (map fst graph)" for u
  proof (cases "dget es u")
    case (Some ts)
    then have "(u, ts) \<in> set es" by (rule map_of_SomeD)
    with l have "set ts \<subseteq> set (map fst graph)"
      by (fastforce simp: list_all2_conv_all_nth in_set_conv_nth)
    with Some show ?thesis by (simp add: edge_map_def dget_or_def)
  qed (simp add: edge_map_def dget_or_def)
qed

lemma search_ok:
  assumes "closed_out (set (map fst graph)) out"
  shows "\<exists>b. search out graph entry = Some b \<and> (\<forall>e \<in> set b. on_cycle out e)"
proof (cases "dhas graph entry")
  case True
  then have entry: "entry \<in> set (map fst graph)" by (simp add: dhas_iff dkeys_def)
  have "card (white (set (map fst graph)) (\<lambda>_. 0)) < Suc (length graph)"
    using card_length [of "map fst graph"] by (simp add: white_def less_Suc_eq_le)
  then obtain c b where d: "dfs out (Suc (length graph)) entry ((\<lambda>_. 0), []) = Some (c, b)"
    using dfs_total(1) [OF assms entry, of "((\<lambda>_. 0), [])" "Suc (length graph)"] by auto
  with dfs_back_edges(1) [OF d] True show ?thesis by (simp add: search_def del: dfs.simps)
qed (simp add: search_def)

lemma forward_preds_card:
  assumes "distinct (map fst es)"
  shows "length (forward_preds es b n) = card {a. n \<in> set (edge_map es a) \<and> (a, n) \<notin> set b}"
proof -
  have "distinct (forward_preds es b n)"
    using assms by (simp add: forward_preds_def distinct_map_filter)
  moreover have "set (forward_preds es b n) = {a. n \<in> set (edge_map es a) \<and> (a, n) \<notin> set b}"
    using assms by (force simp: forward_preds_def edge_map_def dget_or_def split: option.splits dest: map_of_SomeD)
  ultimately show ?thesis by (metis distinct_card)
qed

text \<open>
  C33. The join analysis of a graph always ends, whatever order the successors are visited in.
  Every edge it takes for a back edge closes a cycle, and a node is a join point exactly when at
  least two distinct nodes lead to it by edges that are not back edges; on a graph without
  cycles these are the nodes of in-degree two and more.
\<close>

theorem join_analysis:
  assumes "\<And>xs. set (order xs) = set xs" "analyze_blob order blob = Inr r"
    and "dget_or blob K_GRAPH (PDict []) = PDict graph" "wf_dict graph"
  shows "\<exists>es topo. graph_edges graph = Inr es \<and> r = Some topo \<and>
    (\<forall>(a, v) \<in> set (back_edges topo). v \<in> set (edge_map es a) \<and> leads (edge_map es) v a) \<and>
    (\<forall>n. n \<in> set (join_nodes topo) \<longleftrightarrow> dhas graph n \<and>
       2 \<le> card {a. n \<in> set (edge_map es a) \<and> (a, n) \<notin> set (back_edges topo)})"
proof -
  from assms(2,3) obtain entry es where es: "graph_edges graph = Inr es"
    and r: "r = map_option (mk_topology es entry) (search (\<lambda>u. order (edge_map es u)) graph entry)"
    by (auto simp: analyze_blob_def bind_res_Inr Let_def)
  let ?out = "\<lambda>u. order (edge_map es u)"
  have leads: "leads ?out = leads (edge_map es)" by (simp add: leads_def assms(1))
  have "closed_out (set (map fst graph)) ?out"
    using graph_edges_spec(2) [OF es] by (auto simp: closed_out_def assms(1))
  then obtain b where b: "search ?out graph entry = Some b" "\<forall>e \<in> set b. on_cycle ?out e"
    using search_ok by blast
  have keys: "map fst es = map fst graph" by (rule graph_edges_spec(1) [OF es])
  have "\<forall>(a, v) \<in> set b. v \<in> set (edge_map es a) \<and> leads (edge_map es) v a"
    using b(2) by (auto simp: on_cycle_def leads assms(1))
  moreover have "n \<in> set (join_nodes (mk_topology es entry b)) \<longleftrightarrow> dhas graph n \<and>
      2 \<le> card {a. n \<in> set (edge_map es a) \<and> (a, n) \<notin> set b}" for n
  proof -
    have "distinct (map fst es)" using assms(4) keys by (simp add: wf_dict_def)
    then have "n \<in> set (join_nodes (mk_topology es entry b)) \<longleftrightarrow> n \<in> set (map fst es) \<and>
        2 \<le> card {a. n \<in> set (edge_map es a) \<and> (a, n) \<notin> set b}"
      by (simp add: mk_topology_def forward_preds_card)
    then show ?thesis unfolding keys by (simp add: dhas_iff dkeys_def)
  qed
  ultimately show ?thesis
    using es r b(1) by (intro exI [of _ es] exI [of _ "mk_topology es entry b"]) (simp add: mk_topology_def)
qed

definition diamond_graph :: pydict where
  "diamond_graph = [(''a'', PDict [(K_TYPE, PStr ''act''), (K_NEXT, PList [PStr ''b'', PStr ''c''])]),
        (''b'', PDict [(K_TYPE, PStr ''act''), (K_NEXT, PStr ''d'')]),
        (''c'', PDict [(K_TYPE, PStr ''act''), (K_NEXT, PStr ''d'')]),
        (''d'', PDict [(K_TYPE, PStr ''act''), (K_NEXT, PStr ''a'')])]"

definition diamond_blob :: pydict where
  "diamond_blob = [(K_META, PDict [(K_ENTRY, PStr ''a'')]), (K_GRAPH, PDict diamond_graph)]"

theorem join_analysis_witness:
  "\<exists>es topo. analyze_blob rev diamond_blob = Inr (Some topo) \<and> join_nodes topo = [''d''] \<and>
     graph_edges diamond_graph = Inr es \<and> leads (edge_map es) ''a'' ''d''"
proof -
  have t: "analyze_blob rev diamond_blob =
      Inr (Some \<lparr>topo_entry = ''a'', back_edges = [(''d'', ''a'')], join_nodes = [''d'']\<rparr>)"
    by code_simp
  have g: "dget_or diamond_blob K_GRAPH (PDict []) = PDict diamond_graph" "wf_dict diamond_graph"
    by code_simp+
  from join_analysis [OF _ t g] show ?thesis using t by auto
qed

section \<open>Waiting at a barrier\<close>

definition bucket :: "'c dag_barrier \<Rightarrow> string \<Rightarrow> 'c list" where
  "bucket b n = dget_or (waiting b) n []"

fun arrive_all :: "('c \<Rightarrow> string) \<Rightarrow> ('c \<Rightarrow> string) \<Rightarrow> int \<Rightarrow> 'c list \<Rightarrow> 'c dag_barrier \<Rightarrow> (bool \<times> 'c list) list \<times> 'c dag_barrier" where
  "arrive_all sid node n [] b = ([], b)"
| "arrive_all sid node n (c # cs) b =
     (case arrive sid node c n b of (r, b1) \<Rightarrow> (case arrive_all sid node n cs b1 of (rs, b2) \<Rightarrow> (r # rs, b2)))"

lemma bucket_arrive:
  "bucket (snd (arrive sid node c n b)) m =
     (if m \<noteq> node c then bucket b m
      else if fst (fst (arrive sid node c n b)) then []
      else if list_all (\<lambda>x. sid x \<noteq> sid c) (bucket b m) then bucket b m @ [c] else bucket b m)"
  by (auto simp: arrive_def bucket_def Let_def dget_or_def)

lemma arrive_all_partial:
  assumes "list_all (\<lambda>c. node c = m) cs" "distinct (map sid (bucket b m @ cs))"
    and "int (length (bucket b m @ cs)) < n"
  shows "fst (arrive_all sid node n cs b) = replicate (length cs) (False, []) \<and>
    bucket (snd (arrive_all sid node n cs b)) m = bucket b m @ cs"
  using assms
proof (induction cs arbitrary: b)
  case (Cons c cs)
  obtain r b1 where a: "arrive sid node c n b = (r, b1)" by (metis surj_pair)
  have fresh: "list_all (\<lambda>x. sid x \<noteq> sid c) (bucket b m)" using Cons.prems(2) by (auto simp: list_all_iff image_iff)
  have r: "r = (False, [])" and b1: "bucket b1 m = bucket b m @ [c]"
    using a Cons.prems fresh bucket_arrive [of sid node c n b m]
    by (auto simp: arrive_def bucket_def Let_def split: if_splits)
  have "fst (arrive_all sid node n cs b1) = replicate (length cs) (False, []) \<and>
      bucket (snd (arrive_all sid node n cs b1)) m = bucket b1 m @ cs"
    using Cons.prems b1 by (intro Cons.IH) auto
  then show ?case by (auto simp: a r b1 split: prod.splits)
qed simp



end
