(* ===== verification/PhaseRuntime.thy ===== *)
theory PhaseRuntime
  imports Pta DagBarrier FsmCompiler
begin

text \<open>
  The branch runtime, \<^verbatim>\<open>node/runtime/phase.py\<close>: cursors over a compiled graph whose moves are
  signed transactions. Every operation of \<^verbatim>\<open>BranchController\<close> is a program over one state, the
  adapter with its ledger, the blob cache, the barrier and the module cache of the interpreter.
  Arguments are the wasm engine and the broker, the signing key, the clock and the float
  operations of a fuel share.
\<close>

section \<open>Cursors\<close>

record branch_cursor =
  bc_stream :: string
  bc_pointer :: pta_ptr
  bc_blob :: string
  bc_node :: string
  bc_fuel :: int
  bc_owner :: string
  bc_meta :: pydict
  bc_stack :: "string list"
  bc_tick :: int

definition is_terminated :: "branch_cursor \<Rightarrow> bool" where
  "is_terminated c \<longleftrightarrow> bc_node c = END_TOKEN"

definition to_signed_input :: "prims \<Rightarrow> (string \<Rightarrow> string) \<Rightarrow> branch_cursor \<Rightarrow> pta_input" where
  "to_signed_input P sign c =
     \<lparr>in_pointer = bc_pointer c,
      in_signature = sign (p_sha256 P (p_canon P (PDict [(''payload'', PStr (to_key (bc_pointer c)))]))),
      owner_address = bc_owner c\<rparr>"

definition anchor_dict :: "branch_cursor \<Rightarrow> pydict" where
  "anchor_dict c =
     [(''blob_ref'', PStr (bc_blob c)), (''node'', PStr (bc_node c)), (''meta'', PDict (bc_meta c)),
      (''tick'', PInt (bc_tick c))] @
     (if bc_stack c = [] then [] else [(''stack'', str_list (bc_stack c))])"

definition to_anchor_output :: "prims \<Rightarrow> string \<Rightarrow> branch_cursor \<Rightarrow> pta_output res" where
  "to_anchor_output P status c =
     (let n = int (length (p_canon P (PDict (anchor_dict c)))) in
      if MAX_BLOB_BYTES < n
      then Inl (Exc OverflowErr (''Anchor payload ('' @ show_int n @ ''B) exceeds '' @ show_int MAX_BLOB_BYTES @ ''B limit.''))
      else Inr (phase_anchor_output (bc_fuel c) (bc_owner c) (bc_stream c) status (anchor_dict c)))"

text \<open>Fields of a stored payload; a field of another type than \<open>to_anchor_output\<close> writes is refused.\<close>

definition payload_str :: "pydict \<Rightarrow> string \<Rightarrow> string res" where
  "payload_str d k =
     (case dget d k of None \<Rightarrow> Inl (Exc KeyErr k) | Some (PStr s) \<Rightarrow> Inr s | _ \<Rightarrow> Inl (Exc TypeErr k))"

fun str_of_val :: "pyval \<Rightarrow> string res" where
  "str_of_val (PStr s) = Inr s"
| "str_of_val v = Inl (Exc TypeErr ''not a string'')"

definition from_anchor_output :: "pta_ptr \<Rightarrow> pta_output \<Rightarrow> string \<Rightarrow> int \<Rightarrow> branch_cursor res" where
  "from_anchor_output ptr out fallback_stream_id tck =
     (case anchor out of
        None \<Rightarrow> Inl (Exc AttributeErr ''executable_payload'')
      | Some a \<Rightarrow>
          (let payload = anchor_payload a in
           bind_res (payload_str payload ''blob_ref'') (\<lambda>blob.
           bind_res (payload_str payload ''node'') (\<lambda>node.
           bind_res (dict_of (dget_or payload ''meta'' (PDict []))) (\<lambda>meta.
           bind_res (iter_val (dget_or payload ''stack'' (PList []))) (\<lambda>vs.
           bind_res (map_res str_of_val vs) (\<lambda>stack.
           bind_res (py_int_of (dget_or payload ''tick'' (PInt tck))) (\<lambda>t.
             Inr \<lparr>bc_stream = (if handle_id a = [] then fallback_stream_id else handle_id a), bc_pointer = ptr,
                  bc_blob = blob, bc_node = node, bc_fuel = amount out, bc_owner = owner out, bc_meta = meta,
                  bc_stack = stack, bc_tick = t\<rparr>))))))))"

section \<open>The controller\<close>

text \<open>The float operations that share out fuel: the sum of ratios, a quotient, an integer times a float.\<close>

record float_ops =
  f_sum :: "pyfloat list \<Rightarrow> pyfloat"
  f_div :: "pyfloat \<Rightarrow> pyfloat \<Rightarrow> pyfloat"
  f_scale :: "int \<Rightarrow> pyfloat \<Rightarrow> pyfloat res"

record ('d, 't, 'm) rt_env =
  r_pta :: "('d, 't) pta_env"
  r_pubkey :: string
  r_sign :: "string \<Rightarrow> string"
  r_clock_ms :: "nat \<Rightarrow> int"
  r_req :: string
  r_rounds :: nat
  r_loop :: bool
  r_vm :: "'m vm_env"
  r_broker :: "(string \<Rightarrow> string \<Rightarrow> exec_result res) option"
  r_float :: float_ops
  r_order :: "string list \<Rightarrow> string list"

record ('d, 't, 'm) controller =
  rt_pta :: "('d, 't) pta"
  blob_cache :: "(string, pydict) dict"
  barrier :: "branch_cursor dag_barrier option"
  vm_cache :: "'m module_cache"

abbreviation env_host :: "('d, 't, 'm) rt_env \<Rightarrow> ('d, 't) host" where
  "env_host R \<equiv> e_host (r_pta R)"

abbreviation env_prims :: "('d, 't, 'm) rt_env \<Rightarrow> prims" where
  "env_prims R \<equiv> h_prims (env_host R)"

definition on_store :: "(('d, 't) anchor_store, 'a) prog \<Rightarrow> (('d, 't, 'm) controller, 'a) prog" where
  "on_store m s =
     (case m (ledger_store (rt_pta s)) of (r, st) \<Rightarrow> (r, s\<lparr>rt_pta := (rt_pta s)\<lparr>ledger_store := st\<rparr>\<rparr>))"

definition on_pta :: "(('d, 't) pta, 'a) prog \<Rightarrow> (('d, 't, 'm) controller, 'a) prog" where
  "on_pta m s = (case m (rt_pta s) of (r, p) \<Rightarrow> (r, s\<lparr>rt_pta := p\<rparr>))"

definition cache_and_inscribe_blob ::
  "('d, 't, 'm) rt_env \<Rightarrow> pydict \<Rightarrow> string \<Rightarrow> string option \<Rightarrow> (('d, 't, 'm) controller, string) prog" where
  "cache_and_inscribe_blob R blob_data pfx alias_key =
     bindp (on_store (put_object (env_host R) (r_req R) ''blob'' (PDict blob_data))) (\<lambda>raw_hash s.
       (let short_hash = take 16 raw_hash;
            short_ptr = pfx @ short_hash;
            c1 = dset raw_hash blob_data (dset (CAS_PREFIX @ raw_hash) blob_data
                   (dset (CAS_PREFIX @ short_hash) blob_data (dset short_ptr blob_data (blob_cache s))));
            c2 = (case alias_key of Some (c # k) \<Rightarrow> dset (c # k) blob_data c1 | _ \<Rightarrow> c1)
        in (Inr short_ptr, s\<lparr>blob_cache := c2\<rparr>)))"

text \<open>\<open>s.replace(old, "")\<close>, every occurrence from the left.\<close>

function remove_all :: "string \<Rightarrow> string \<Rightarrow> string" where
  "remove_all old s =
     (if old = [] then s
      else case s of [] \<Rightarrow> [] | c # cs \<Rightarrow>
        if startswith s old then remove_all old (drop (length old) s) else c # remove_all old cs)"
  by pat_completeness auto
termination by (relation "measure (\<lambda>(old, s). length s)") (auto simp: startswith_def)

declare remove_all.simps [simp del]

text \<open>
  Neither driver class has a \<open>keys\<close> method, so the search by prefix that follows a missed exact
  key raises.
\<close>

definition load_blob :: "('d, 't, 'm) rt_env \<Rightarrow> string \<Rightarrow> (('d, 't, 'm) controller, pydict) prog" where
  "load_blob R blob_hash s =
     (case dget (blob_cache s) blob_hash of
        Some b \<Rightarrow> (Inr b, s)
      | None \<Rightarrow>
          (let clean_hash = remove_all CAS_PREFIX (remove_all BRANCH_PREFIX blob_hash);
               exact_key = ''blob:'' @ clean_hash;
               H = env_host R; d = db (ledger_store (rt_pta s))
           in if drv_contains (h_get H) d exact_key
              then (case bind_res (drv_getitem (h_get H) d exact_key) (\<lambda>t. bind_res (json_loads (h_prims H) t) as_dict) of
                      Inl e \<Rightarrow> (Inl e, s)
                    | Inr loaded \<Rightarrow> (Inr loaded, s\<lparr>blob_cache := dset blob_hash loaded (blob_cache s)\<rparr>))
              else (Inl (Exc AttributeErr ''keys''), s)))"

definition get_node_spec :: "('d, 't, 'm) rt_env \<Rightarrow> branch_cursor \<Rightarrow> (('d, 't, 'm) controller, pydict) prog" where
  "get_node_spec R c =
     bindp (load_blob R (bc_blob c)) (\<lambda>blob.
     bindp (lift_res (as_dict (dget_or blob K_GRAPH (PDict [])))) (\<lambda>graph.
       (let spec = dget_or graph (bc_node c) PNone in
        if \<not> truthy spec
        then raise (Exc KeyErr (''Node '' @ squote @ bc_node c @ squote @ '' missing in blob '' @ squote @ bc_blob c @ squote))
        else lift_res (as_dict spec))))"

definition resolve_task_io :: "('d, 't, 'm) rt_env \<Rightarrow> pydict \<Rightarrow> (('d, 't, 'm) controller, pydict) prog" where
  "resolve_task_io R node_spec =
     bindp (lift_res (as_dict (dget_or node_spec K_ATTRS (PDict [])))) (\<lambda>attrs.
       case dget_or attrs ''io_ref'' PNone of
         PStr (c # r) \<Rightarrow> load_blob R (c # r)
       | v \<Rightarrow> if truthy v then raise (Exc AttributeErr ''replace'') else ret [])"

definition blob_entry :: "('d, 't, 'm) rt_env \<Rightarrow> string \<Rightarrow> (('d, 't, 'm) controller, string) prog" where
  "blob_entry R blob_hash =
     bindp (load_blob R blob_hash) (\<lambda>blob.
       case dget blob K_META of
         None \<Rightarrow> raise (Exc KeyErr K_META)
       | Some m \<Rightarrow> bindp (lift_res (as_dict m)) (\<lambda>d. lift_res (payload_str d K_ENTRY)))"

definition read_clock_ms :: "('d, 't, 'm) rt_env \<Rightarrow> (('d, 't, 'm) controller, int) prog" where
  "read_clock_ms R = on_store (\<lambda>st. (Inr (r_clock_ms R (ticks st)), st\<lparr>ticks := ticks st + 1\<rparr>))"

fun commit_heads ::
  "('d, 't, 'm) rt_env \<Rightarrow> string \<Rightarrow> string \<Rightarrow> nat \<Rightarrow> branch_cursor list \<Rightarrow> (('d, 't, 'm) controller, branch_cursor list) prog" where
  "commit_heads R txh commit_hash idx [] = ret []"
| "commit_heads R txh commit_hash idx (c # cs) =
     bindp (on_store (update_head (env_host R) (r_req R) (bc_stream c) commit_hash)) (\<lambda>_.
     bindp (commit_heads R txh commit_hash (idx + 1) cs) (\<lambda>rest.
       ret (c\<lparr>bc_pointer := \<lparr>ptr_tx_hash = txh, ptr_output_index = int idx\<rparr>\<rparr> # rest)))"

definition commit_transition ::
  "('d, 't, 'm) rt_env \<Rightarrow> branch_cursor list \<Rightarrow> branch_cursor list \<Rightarrow> string \<Rightarrow> string \<Rightarrow> pydict
     \<Rightarrow> (('d, 't, 'm) controller, branch_cursor list) prog" where
  "commit_transition R spent_cursors next_cursors status primary_stream_id meta =
     (let ins = map (to_signed_input (env_prims R) (r_sign R)) spent_cursors in
      bindp (lift_res (map_res (to_anchor_output (env_prims R) status) next_cursors)) (\<lambda>outs.
      bindp (read_clock_ms R) (\<lambda>ts.
      bindp (on_pta (execute_transaction (r_pta R) (r_req R) (r_rounds R) (r_loop R)
               (mk_transaction (env_prims R) ins outs meta ts) (Some primary_stream_id))) (\<lambda>txh.
      bindp (on_pta (\<lambda>p. case resolve_commit_hash (r_pta R) txh (Some primary_stream_id) p of (c, p') \<Rightarrow> (Inr c, p'))) (\<lambda>commit_hash.
        commit_heads R txh commit_hash 0 next_cursors)))))"

fun single :: "'a list \<Rightarrow> 'a res" where
  "single (x # _) = Inr x"
| "single [] = Inl (Exc IndexErr ''list index out of range'')"

fun inscribe_all :: "('d, 't, 'm) rt_env \<Rightarrow> (string \<times> pydict) list \<Rightarrow> (('d, 't, 'm) controller, unit) prog" where
  "inscribe_all R [] = ret ()"
| "inscribe_all R ((ptr_key, blob_data) # rest) =
     bindp (cache_and_inscribe_blob R blob_data
              (if startswith ptr_key BRANCH_PREFIX then BRANCH_PREFIX else CAS_PREFIX) (Some ptr_key))
       (\<lambda>_. inscribe_all R rest)"

definition set_barrier :: "('d, 't, 'm) rt_env \<Rightarrow> pydict \<Rightarrow> (('d, 't, 'm) controller, unit) prog" where
  "set_barrier R blob s =
     (case mk_barrier (r_order R) blob of
        Inl e \<Rightarrow> (Inl e, s)
      | Inr b \<Rightarrow> (Inr (), s\<lparr>barrier := b\<rparr>))"

definition mount_bundle_and_spawn ::
  "('d, 't, 'm) rt_env \<Rightarrow> compiled_bundle \<Rightarrow> string \<Rightarrow> int \<Rightarrow> pydict \<Rightarrow> (('d, 't, 'm) controller, branch_cursor) prog" where
  "mount_bundle_and_spawn R bundle base_stream_id initial_fuel initial_meta =
     bindp (inscribe_all R (cas_store bundle)) (\<lambda>_.
     bindp (cache_and_inscribe_blob R (root_blob bundle) BRANCH_PREFIX (Some (root_hash bundle))) (\<lambda>_.
     bindp (set_barrier R (root_blob bundle)) (\<lambda>_.
     bindp (case dget (root_blob bundle) K_META of
              None \<Rightarrow> raise (Exc KeyErr K_META)
            | Some m \<Rightarrow> bindp (lift_res (as_dict m)) (\<lambda>d. lift_res (payload_str d K_ENTRY))) (\<lambda>entry_node.
     bindp (commit_transition R []
       [\<lparr>bc_stream = base_stream_id, bc_pointer = \<lparr>ptr_tx_hash = [], ptr_output_index = 0\<rparr>,
         bc_blob = root_hash bundle, bc_node = entry_node, bc_fuel = initial_fuel, bc_owner = r_pubkey R,
         bc_meta = initial_meta, bc_stack = [], bc_tick = 1\<rparr>]
       ''GENESIS'' base_stream_id [(''stream_id'', PStr base_stream_id), (''event'', PStr ''GENESIS_SPAWN'')]) (\<lambda>res.
       lift_res (single res))))))"

section \<open>Steps\<close>

definition reject_step ::
  "('d, 't, 'm) rt_env \<Rightarrow> string \<Rightarrow> string \<Rightarrow> string \<Rightarrow> string \<Rightarrow> (('d, 't, 'm) controller, 'a) prog" where
  "reject_step R src dest reason tag =
     bindp (on_store (bindp (now (env_host R)) (\<lambda>t.
              save_transition (env_host R) (r_req R)
                \<lparr>tb_action = ''wasm.reject'', from_state = src, to_state = dest, tension = Fin 1, details = reason,
                 timestamp = t\<rparr>)))
       (\<lambda>_. raise (Exc PermissionErr (tag @ reason)))"

definition run_fsm_step ::
  "('d, 't, 'm) rt_env \<Rightarrow> branch_cursor \<Rightarrow> int \<Rightarrow> pydict \<Rightarrow> pydict \<Rightarrow> (('d, 't, 'm) controller, exec_result) prog" where
  "run_fsm_step R c step_cost meta active_blob s =
     (let V = r_vm R in
      case fsm_interpreter_init (has_wasmtime V) (path_exists V) (from_file V) (instantiate V) ''fsm.wasm'' (vm_cache s) of
        (Inl e, mc) \<Rightarrow> (Inl e, s\<lparr>vm_cache := mc\<rparr>)
      | (Inr m, mc) \<Rightarrow>
          (fsm_execute (env_prims R) quota_standard (router V m) ''FSM_STEP'' (bc_blob c)
             (PDict (build_step_calldata (bc_node c) step_cost meta (bc_stack c)))
             (PDict (build_runtime_snapshot [(bc_blob c, PDict active_blob)] []))
             (PDict [(''fuel'', PInt (bc_fuel c)), (''stream_id'', PStr (bc_stream c))]),
           s\<lparr>vm_cache := mc\<rparr>))"

text \<open>The verdict of the machine: target blob and node, kind of move, stack and remaining fuel.\<close>

definition step_verdict ::
  "prims \<Rightarrow> branch_cursor \<Rightarrow> int \<Rightarrow> pydict \<Rightarrow> (string \<times> string \<times> string \<times> string list \<times> int) res" where
  "step_verdict P c step_cost parsed =
     bind_res (case dget parsed ''parsed_output'' of None \<Rightarrow> Inl (Exc KeyErr ''parsed_output'') | Some v \<Rightarrow> as_dict v) (\<lambda>out.
     bind_res (iter_val (dget_or out ''call_stack'' (PList []))) (\<lambda>vs.
     bind_res (map_res str_of_val vs) (\<lambda>next_stack.
     bind_res (py_int_of (dget_or out ''remaining_fuel'' (PInt (bc_fuel c - step_cost)))) (\<lambda>rem_fuel.
       Inr (py_str P (dget_or out ''branch'' (PStr (bc_blob c))),
            py_str P (dget_or out ''curr_node'' (PStr END_TOKEN)),
            py_str P (dget_or out ''rule_kind'' (PStr ''CORE'')), next_stack, rem_fuel)))))"

definition transition_payload_of ::
  "branch_cursor \<Rightarrow> string \<Rightarrow> string \<Rightarrow> pydict res" where
  "transition_payload_of c next_node rule_kind =
     bind_res (build_trans_rule (bc_node c) next_node rule_kind) (\<lambda>trans_rule.
       (let child_node = (if rule_kind = ''SYMLINK'' then build_symlink_node (bc_node c) next_node []
                          else build_core_node (bc_node c) rule_kind []);
            phase_root = build_core_node (''root_'' @ bc_stream c) (bc_blob c) [(bc_node c, PDict child_node)]
        in Inr (build_transition_payload ''FSM_BRANCH_STEP''
                  [(''from'', PStr (bc_node c)), (''to'', PStr next_node), (''tick'', PInt (bc_tick c))]
                  (build_evolution_context phase_root [trans_rule]))))"

definition guard_transition ::
  "('d, 't, 'm) rt_env \<Rightarrow> branch_cursor \<Rightarrow> string \<Rightarrow> string \<Rightarrow> (('d, 't, 'm) controller, unit) prog" where
  "guard_transition R c next_node rule_kind =
     (case r_broker R of
        None \<Rightarrow> ret ()
      | Some invoke \<Rightarrow>
          bindp (lift_res (transition_payload_of c next_node rule_kind)) (\<lambda>payload.
            case invoke ''execute_transition'' (p_canon (env_prims R) (PDict payload)) of
              Inl e \<Rightarrow> if kind_of_exc e = NotImplementedErr then ret () else raise e
            | Inr res \<Rightarrow>
                if er_success res then ret ()
                else reject_step R (bc_node c) next_node
                       (case er_error res of None \<Rightarrow> ''None'' | Some e \<Rightarrow> msg_of_exc e) ''[WASM Rejected Transition] ''))"

definition execute_wasm_step ::
  "('d, 't, 'm) rt_env \<Rightarrow> branch_cursor \<Rightarrow> int \<Rightarrow> pydict
     \<Rightarrow> (('d, 't, 'm) controller, string \<times> string \<times> string \<times> string list \<times> int) prog" where
  "execute_wasm_step R c step_cost meta =
     bindp (load_blob R (bc_blob c)) (\<lambda>active_blob.
     bindp (run_fsm_step R c step_cost meta active_blob) (\<lambda>res.
       if \<not> er_success res \<or> er_output res = None \<or> er_output res = Some []
       then reject_step R (bc_node c) END_TOKEN
              (case er_error res of None \<Rightarrow> ''None'' | Some e \<Rightarrow> msg_of_exc e) ''[FSM WASM Rejected Transition] ''
       else
         bindp (lift_res (as_dict (parse_broker_output (env_prims R) (the (er_output res))))) (\<lambda>parsed.
           if \<not> truthy (dget_or parsed ''success'' (PBool False))
           then reject_step R (bc_node c) END_TOKEN
                  (let rr = dget_or parsed ''revert_reason'' PNone in
                   if truthy rr then py_str (env_prims R) rr else ''Unknown FSM Step Revert'')
                  ''[FSM WASM Rejected Transition] ''
           else
             bindp (lift_res (step_verdict (env_prims R) c step_cost parsed)) (\<lambda>(next_blob, node0, rule_kind, next_stack, rem_fuel).
             bindp (if node0 = [] \<and> next_blob \<noteq> bc_blob c then blob_entry R next_blob else ret node0) (\<lambda>next_node.
             bindp (guard_transition R c next_node rule_kind) (\<lambda>_.
               ret (next_blob, next_node, rule_kind, next_stack, rem_fuel)))))))"

definition exhausted :: "branch_cursor \<Rightarrow> int \<Rightarrow> exc" where
  "exhausted c step_cost =
     Exc RuntimeErr (''[Runtime:'' @ bc_stream c @ ''] Exhausted fuel ('' @ show_int (bc_fuel c) @ '' < '' @ show_int step_cost @ '')'')"

definition offload ::
  "('d, 't, 'm) rt_env \<Rightarrow> pydict \<Rightarrow> pydict \<Rightarrow> (('d, 't, 'm) controller, pydict) prog" where
  "offload R offload_data meta =
     (if offload_data = [] then ret meta
      else bindp (cache_and_inscribe_blob R offload_data CAS_PREFIX None) (\<lambda>ptr. ret (dset ''_last_ptr'' (PStr ptr) meta)))"

definition status_of :: "branch_cursor \<Rightarrow> string" where
  "status_of c = (if is_terminated c then ''SEALED'' else ''ACTIVE'')"

definition runtime_step ::
  "('d, 't, 'm) rt_env \<Rightarrow> branch_cursor \<Rightarrow> int \<Rightarrow> pydict \<Rightarrow> pydict \<Rightarrow> (('d, 't, 'm) controller, branch_cursor) prog" where
  "runtime_step R c step_cost meta_updates offload_data =
     (if is_terminated c then ret c
      else if bc_fuel c < step_cost then raise (exhausted c step_cost)
      else
        bindp (offload R offload_data (dmerge (bc_meta c) meta_updates)) (\<lambda>meta.
        bindp (execute_wasm_step R c step_cost meta) (\<lambda>(next_blob, next_node, rule_kind, next_stack, rem_fuel).
          (let draft = c\<lparr>bc_blob := next_blob, bc_node := next_node, bc_fuel := rem_fuel, bc_meta := meta,
                         bc_stack := next_stack, bc_tick := bc_tick c + 1\<rparr>
           in bindp (commit_transition R [c] [draft] (status_of draft) (bc_stream c)
                [(''stream_id'', PStr (bc_stream c)), (''from'', PStr (bc_node c)), (''to'', PStr next_node),
                 (''kind'', PStr rule_kind)]) (\<lambda>res. lift_res (single res))))))"

section \<open>Targets, forks and merges\<close>

definition pop_frame :: "string list \<Rightarrow> (string \<times> string \<times> string list) res" where
  "pop_frame stack =
     (case split_once ''#'' (last stack) of
        Some (parent_blob, ret_node) \<Rightarrow> Inr (parent_blob, ret_node, butlast stack)
      | None \<Rightarrow> Inl (Exc ValueErr ''not enough values to unpack''))"

definition resume_node :: "prims \<Rightarrow> pydict \<Rightarrow> string" where
  "resume_node P node_spec =
     (let fb = dget_or node_spec K_FALLBACK PNone; dn = dget_or node_spec K_DEFAULT_NEXT PNone in
      py_str P (if truthy fb then fb else if truthy dn then dn else PStr END_TOKEN))"

definition resolve_target ::
  "('d, 't, 'm) rt_env \<Rightarrow> branch_cursor \<Rightarrow> string \<Rightarrow> pydict
     \<Rightarrow> (('d, 't, 'm) controller, string \<times> string \<times> string \<times> string list) prog" where
  "resolve_target R c raw_target node_spec =
     (let stack = bc_stack c in
      if raw_target = RETURN_TOKEN \<or> startswith raw_target (RETURN_TOKEN @ ''#'') \<or> (raw_target = END_TOKEN \<and> stack \<noteq> []) then
        (if stack = [] then ret (bc_blob c, END_TOKEN, ''ANCHOR'', stack)
         else bindp (lift_res (pop_frame stack)) (\<lambda>(parent_blob, ret0, stack').
           (let ret_node = (case split_once ''#'' raw_target of Some (_, n) \<Rightarrow> n | None \<Rightarrow> ret0) in
            if ret_node = END_TOKEN \<and> stack' = [] then ret (parent_blob, END_TOKEN, ''ANCHOR'', stack')
            else ret (parent_blob, ret_node, ''SYMLINK'', stack'))))
      else if raw_target = END_TOKEN then ret (bc_blob c, END_TOKEN, ''ANCHOR'', stack)
      else if startswith raw_target BRANCH_PREFIX \<or> startswith raw_target CAS_PREFIX then
        bindp (case split_once ''#'' raw_target of
                 Some bn \<Rightarrow> ret bn
               | None \<Rightarrow> bindp (blob_entry R raw_target) (\<lambda>n. ret (raw_target, n))) (\<lambda>(target_blob, target_node).
          ret (target_blob, target_node, ''SYMLINK'', stack @ [bc_blob c @ ''#'' @ resume_node (env_prims R) node_spec]))
      else ret (bc_blob c, raw_target, ''CORE'', stack))"

definition fuel_share :: "float_ops \<Rightarrow> int \<Rightarrow> pyfloat \<Rightarrow> pyfloat \<Rightarrow> int res" where
  "fuel_share F total_fuel total_ratio r =
     (if total_ratio = Fin 0 then Inl (Exc ZeroDivisionErr ''float division by zero'')
      else bind_res (f_scale F total_fuel (f_div F r total_ratio)) (\<lambda>x. py_int_of (PFloat x)))"

definition slice_fuel :: "float_ops \<Rightarrow> int \<Rightarrow> nat \<Rightarrow> pyfloat list \<Rightarrow> int list res" where
  "slice_fuel F total_fuel count ratios =
     (if ratios = [] then
        (let base = total_fuel div int count; rem = total_fuel mod int count
         in Inr (map (\<lambda>i. base + (if int i < rem then 1 else 0)) [0..<count]))
      else bind_res (map_res (fuel_share F total_fuel (f_sum F ratios)) ratios) (\<lambda>sliced.
        case sliced of
          [] \<Rightarrow> Inl (Exc IndexErr ''list index out of range'')
        | x # xs \<Rightarrow> Inr ((x + (total_fuel - sum_list sliced)) # xs)))"

fun fork_drafts ::
  "('d, 't, 'm) rt_env \<Rightarrow> branch_cursor \<Rightarrow> pydict \<Rightarrow> pydict \<Rightarrow> nat \<Rightarrow> ((string \<times> pydict) \<times> int) list
     \<Rightarrow> (('d, 't, 'm) controller, branch_cursor list) prog" where
  "fork_drafts R parent base_meta node_spec idx [] = ret []"
| "fork_drafts R parent base_meta node_spec idx (((raw_target, b_meta), alloc_fuel) # rest) =
     bindp (resolve_target R parent raw_target node_spec) (\<lambda>(next_blob, next_node, _, next_stack).
     bindp (fork_drafts R parent base_meta node_spec (idx + 1) rest) (\<lambda>ds.
       ret (parent\<lparr>bc_stream := bc_stream parent @ ''/b'' @ show_nat idx, bc_blob := next_blob, bc_node := next_node,
                   bc_fuel := alloc_fuel, bc_meta := dmerge base_meta b_meta, bc_stack := next_stack,
                   bc_tick := bc_tick parent + 1\<rparr> # ds)))"

definition runtime_fork ::
  "('d, 't, 'm) rt_env \<Rightarrow> branch_cursor \<Rightarrow> (string \<times> pydict) list \<Rightarrow> pyfloat list \<Rightarrow> int \<Rightarrow> pydict
     \<Rightarrow> (('d, 't, 'm) controller, branch_cursor list) prog" where
  "runtime_fork R parent branch_targets fuel_ratios step_cost offload_data =
     (if length branch_targets < 2 then raise (Exc ValueErr ''fork() requires at least 2 branch targets.'')
      else if bc_fuel parent < step_cost then raise (exhausted parent step_cost)
      else
        bindp (offload R offload_data (bc_meta parent)) (\<lambda>base_meta.
        bindp (if is_terminated parent then ret [] else get_node_spec R parent) (\<lambda>node_spec.
        bindp (lift_res (slice_fuel (r_float R) (bc_fuel parent - step_cost) (length branch_targets) fuel_ratios)) (\<lambda>allocations.
        bindp (fork_drafts R parent base_meta node_spec 0 (zip branch_targets allocations)) (\<lambda>drafts.
          commit_transition R [parent] drafts ''FORKED'' (bc_stream parent)
            [(''event'', PStr ''MULTIVERSE_FORK''), (''parent_stream'', PStr (bc_stream parent)),
             (''fan_out'', PInt (int (length drafts)))])))))"

definition collapse_and_merge ::
  "('d, 't, 'm) rt_env \<Rightarrow> branch_cursor list \<Rightarrow> int \<Rightarrow> string \<Rightarrow> (('d, 't, 'm) controller, branch_cursor) prog" where
  "collapse_and_merge R cursors winner_idx merged_stream_id =
     (if cursors = [] \<or> \<not> (0 \<le> winner_idx \<and> winner_idx < int (length cursors))
      then raise (Exc ValueErr ''Invalid cursors or winner_idx for merge.'')
      else
        (let winner = cursors ! nat winner_idx;
             reclaimed_fuel = sum_list (map bc_fuel cursors);
             draft = winner\<lparr>bc_stream := merged_stream_id, bc_fuel := reclaimed_fuel, bc_tick := bc_tick winner + 1\<rparr>
         in bindp (commit_transition R cursors [draft] ''MERGED'' merged_stream_id
              [(''event'', PStr ''MULTIVERSE_COLLAPSE''), (''winner'', PStr (bc_stream winner)),
               (''reclaimed_fuel'', PInt reclaimed_fuel)]) (\<lambda>res. lift_res (single res))))"

section \<open>Restoring a cursor\<close>

definition ensure_barrier :: "('d, 't, 'm) rt_env \<Rightarrow> branch_cursor \<Rightarrow> (('d, 't, 'm) controller, branch_cursor) prog" where
  "ensure_barrier R c s =
     (case barrier s of
        Some _ \<Rightarrow> (Inr c, s)
      | None \<Rightarrow> bindp (load_blob R (bc_blob c)) (\<lambda>blob. bindp (set_barrier R blob) (\<lambda>_. ret c)) s)"

text \<open>\<open>PhaseAnchorOutput(**d)\<close>.\<close>

definition load_anchor_output :: "pydict \<Rightarrow> pta_output res" where
  "load_anchor_output d =
     bind_res (case dget d ''amount'' of Some (PInt a) \<Rightarrow> Inr a | _ \<Rightarrow> Inl (Exc TypeErr ''amount'')) (\<lambda>amt.
     bind_res (payload_str d ''owner'') (\<lambda>own.
     bind_res (str_of_val (dget_or d ''handle_id'' (PStr []))) (\<lambda>h.
     bind_res (str_of_val (dget_or d ''phase_status'' (PStr []))) (\<lambda>st.
     bind_res (as_dict (dget_or d ''executable_payload'' (PDict []))) (\<lambda>pl.
       Inr (phase_anchor_output amt own h st pl))))))"

fun find_output :: "string \<Rightarrow> string \<Rightarrow> bool \<Rightarrow> nat \<Rightarrow> pyval list \<Rightarrow> branch_cursor option res" where
  "find_output sid txh only idx [] = Inr None"
| "find_output sid txh only idx (v # vs) =
     bind_res (as_dict v) (\<lambda>d.
       if dget d ''handle_id'' = Some (PStr sid) \<or> only then
         bind_res (load_anchor_output d) (\<lambda>out.
         bind_res (from_anchor_output \<lparr>ptr_tx_hash = txh, ptr_output_index = int idx\<rparr> out sid 1) (\<lambda>c. Inr (Some c)))
       else find_output sid txh only (idx + 1) vs)"

definition restore_from_head ::
  "prims \<Rightarrow> string \<Rightarrow> string \<Rightarrow> string \<Rightarrow> branch_cursor res" where
  "restore_from_head P sid commit_hash text =
     bind_res (json_loads P text) (\<lambda>v.
     bind_res (as_dict v) (\<lambda>raw_commit.
     bind_res (case dget raw_commit ''executable_payload'' of
                 None \<Rightarrow> Inl (Exc KeyErr ''executable_payload'') | Some t \<Rightarrow> as_dict t) (\<lambda>tx.
     bind_res (payload_str tx ''tx_hash'') (\<lambda>txh.
     bind_res (case dget tx ''outputs'' of None \<Rightarrow> Inl (Exc KeyErr ''outputs'') | Some os \<Rightarrow> iter_val os) (\<lambda>outs.
     bind_res (find_output sid txh (length outs = 1) 0 outs) (\<lambda>found.
       case found of
         Some c \<Rightarrow> Inr c
       | None \<Rightarrow> Inl (Exc ValueErr (''[Runtime] Output for '' @ squote @ sid @ squote @ '' not found in commit '' @
                    squote @ take 8 commit_hash @ squote))))))))"

definition restore_cursor :: "('d, 't, 'm) rt_env \<Rightarrow> string \<Rightarrow> (('d, 't, 'm) controller, branch_cursor) prog" where
  "restore_cursor R pointer_or_stream s =
     (case (split_once '':'' pointer_or_stream, dget (unfold_pool (rt_pta s)) pointer_or_stream) of
        (Some (txh, idx_str), Some out) \<Rightarrow>
          bindp (lift_res (bind_res (py_int idx_str) (\<lambda>i.
            from_anchor_output \<lparr>ptr_tx_hash = txh, ptr_output_index = i\<rparr> out [] 1))) (ensure_barrier R) s
      | _ \<Rightarrow>
          (let H = env_host R; st = ledger_store (rt_pta s) in
           case get_head_hash H pointer_or_stream st of
             Some (c # h) \<Rightarrow>
               bindp (lift_res (bind_res (drv_getitem (h_get H) (db st) (''commit:'' @ c # h))
                  (restore_from_head (h_prims H) pointer_or_stream (c # h)))) (ensure_barrier R) s
           | _ \<Rightarrow> (Inl (Exc KeyErr (''[Runtime] Unknown stream or PTA pointer: '' @ squote @ pointer_or_stream @ squote)), s)))"

end
