(* ===== verification/CursorLedger.thy ===== *)
theory CursorLedger
  imports PhaseRuntime
begin

text \<open>
  What the branch runtime guarantees about cursors and fuel: shares of a fork, conservation of fuel
  from a fork to a merge, and that a committed cursor can be rebuilt from the ledger, by its pointer
  or by the name of its stream.
\<close>

section \<open>Cursor and payload\<close>

lemma map_res_str_list: "map_res str_of_val (map PStr xs) = Inr xs"
  by (induction xs) simp_all

lemma anchor_payload_fields:
  "dget (anchor_dict c) ''blob_ref'' = Some (PStr (bc_blob c))"
  "dget (anchor_dict c) ''node'' = Some (PStr (bc_node c))"
  "dget (anchor_dict c) ''meta'' = Some (PDict (bc_meta c))"
  "dget (anchor_dict c) ''tick'' = Some (PInt (bc_tick c))"
  "dget_or (anchor_dict c) ''stack'' (PList []) = str_list (bc_stack c)"
  by (simp_all add: anchor_dict_def dget_or_def str_list_def)

lemma to_anchor_output_Inr:
  "to_anchor_output P st c = Inr out \<longleftrightarrow>
     int (length (p_canon P (PDict (anchor_dict c)))) \<le> MAX_BLOB_BYTES \<and>
     out = phase_anchor_output (bc_fuel c) (bc_owner c) (bc_stream c) st (anchor_dict c)"
  by (auto simp: to_anchor_output_def Let_def)

lemma cursor_restored:
  assumes "to_anchor_output P st c = Inr out" "bc_stream c \<noteq> []"
  shows "from_anchor_output ptr out fb t = Inr (c\<lparr>bc_pointer := ptr\<rparr>)"
proof -
  have out: "out = phase_anchor_output (bc_fuel c) (bc_owner c) (bc_stream c) st (anchor_dict c)"
    using assms(1) by (simp add: to_anchor_output_Inr)
  have "dget_or (anchor_dict c) ''meta'' v = PDict (bc_meta c)" "dget_or (anchor_dict c) ''tick'' v = PInt (bc_tick c)" for v
    by (simp_all add: dget_or_def anchor_payload_fields)
  then show ?thesis
    unfolding out using assms(2)
    by (simp add: from_anchor_output_def phase_anchor_output_def payload_str_def anchor_payload_fields
        str_list_def map_res_str_list)
qed

section \<open>Fuel\<close>

lemma sum_indicator: "(\<Sum>i\<leftarrow>[0..<n]. if int i < r then 1 else 0 :: int) = max 0 (min r (int n))"
  by (induction n) auto

lemma slice_even:
  assumes "0 < n"
  shows "sum_list (map (\<lambda>i. f div int n + (if int i < f mod int n then 1 else 0)) [0..<n]) = (f :: int)"
proof -
  have "sum_list (map (\<lambda>i. f div int n + (if int i < f mod int n then 1 else 0)) [0..<n]) =
      int n * (f div int n) + (\<Sum>i\<leftarrow>[0..<n]. if int i < f mod int n then 1 else 0)"
    by (simp only: sum_list_addf sum_list_const_mult) (simp add: sum_list_triv)
  also have "\<dots> = int n * (f div int n) + f mod int n"
    using assms by (simp only: sum_indicator) (simp add: min_def max_def less_imp_le)
  finally show ?thesis by simp
qed

lemma slice_fuel_sum:
  assumes "slice_fuel F f n ratios = Inr xs" "0 < n"
  shows "sum_list xs = f" "length xs = (if ratios = [] then n else length ratios)"
proof -
  have "sum_list xs = f \<and> length xs = (if ratios = [] then n else length ratios)"
  proof (cases "ratios = []")
    case True
    with assms show ?thesis by (auto simp: slice_fuel_def Let_def slice_even)
next
    case False
    with assms(1) obtain ys where ys: "map_res (fuel_share F f (f_sum F ratios)) ratios = Inr ys"
      by (auto simp: slice_fuel_def bind_res_Inr)
    with False have "length ys = length ratios" "ys \<noteq> []" using map_res_length [OF ys] by auto
    with assms(1) False ys show ?thesis by (auto simp: slice_fuel_def split: list.splits)
  qed
  then show "sum_list xs = f" "length xs = (if ratios = [] then n else length ratios)" by simp_all
qed

text \<open>
  Fuel is shared out exactly: the shares add up to the fuel whether or not ratios are given
  (with ratios the first share takes the rounding), and without ratios every branch gets a
  share and two shares differ by at most one unit.
\<close>

theorem slice_fuel_exact:
  assumes "slice_fuel F f n ratios = Inr xs" "0 < n"
  shows "sum_list xs = f \<and> length xs = (if ratios = [] then n else length ratios) \<and>
    (ratios = [] \<longrightarrow> set xs \<subseteq> {f div int n, f div int n + 1})"
proof -
  have "set xs \<subseteq> {f div int n, f div int n + 1}" if "ratios = []"
    using assms(1) that by (auto simp: slice_fuel_def Let_def split: if_splits)
  with slice_fuel_sum [OF assms] show ?thesis by simp
qed

theorem slice_fuel_exact_witness:
  "slice_fuel \<lparr>f_sum = (\<lambda>_. Fin 1), f_div = (\<lambda>x _. x), f_scale = (\<lambda>n x. case x of Fin r \<Rightarrow> Inr (Fin (of_int n * r)) | _ \<Rightarrow> Inr x)\<rparr>
     10 3 [Fin (1/3), Fin (1/3), Fin (1/3)] = Inr [4, 3, 3] \<and> sum_list [4, 3, 3 :: int] = 10"
proof -
  have "slice_fuel \<lparr>f_sum = (\<lambda>_. Fin 1), f_div = (\<lambda>x _. x), f_scale = (\<lambda>n x. case x of Fin r \<Rightarrow> Inr (Fin (of_int n * r)) | _ \<Rightarrow> Inr x)\<rparr>
     10 3 [Fin (1/3), Fin (1/3), Fin (1/3)] = Inr [4, 3, 3]" by code_simp
  from this slice_fuel_exact [OF this] show ?thesis by simp
qed

section \<open>Committing cursors\<close>

definition committed :: "string \<Rightarrow> nat \<Rightarrow> branch_cursor list \<Rightarrow> branch_cursor list" where
  "committed txh n cs = map (\<lambda>(i, c). c\<lparr>bc_pointer := \<lparr>ptr_tx_hash = txh, ptr_output_index = int i\<rparr>\<rparr>) (enumerate n cs)"

lemma committed_simps [simp]:
  "committed txh n [] = []"
  "committed txh n (c # cs) = c\<lparr>bc_pointer := \<lparr>ptr_tx_hash = txh, ptr_output_index = int n\<rparr>\<rparr> # committed txh (Suc n) cs"
  "length (committed txh n cs) = length cs"
  by (simp_all add: committed_def)

lemma committed_nth:
  "i < length cs \<Longrightarrow> committed txh n cs ! i = (cs ! i)\<lparr>bc_pointer := \<lparr>ptr_tx_hash = txh, ptr_output_index = int (n + i)\<rparr>\<rparr>"
  by (simp add: committed_def nth_enumerate_eq)

lemma committed_fields [simp]:
  "map bc_fuel (committed txh n cs) = map bc_fuel cs"
  "map bc_stream (committed txh n cs) = map bc_stream cs"
  "map bc_tick (committed txh n cs) = map bc_tick cs"
  "map bc_owner (committed txh n cs) = map bc_owner cs"
  by (induction cs arbitrary: n) simp_all

lemma commit_heads_Inr:
  "commit_heads R txh ch n cs s = (Inr ds, s') \<Longrightarrow> ds = committed txh n cs"
  by (induction cs arbitrary: n s ds) (auto simp: bindp_eq_Inr ret_def)

lemma commit_transition_Inr:
  "commit_transition R spent nxt st sid meta s = (Inr ds, s') \<Longrightarrow>
     (\<exists>txh. ds = committed txh 0 nxt) \<and> (\<forall>c \<in> set nxt. \<exists>out. to_anchor_output (env_prims R) st c = Inr out)"
  by (auto simp: commit_transition_def Let_def bindp_eq_Inr lift_res_def map_res_Inr list_all2_conv_all_nth in_set_conv_nth
      dest!: commit_heads_Inr)

lemma fork_drafts_Inr:
  "fork_drafts R parent base spec n bts s = (Inr ds, s') \<Longrightarrow>
     map bc_fuel ds = map snd bts \<and> map bc_stream ds = map (\<lambda>i. bc_stream parent @ ''/b'' @ show_nat i) [n..<n + length bts] \<and>
     (\<forall>d \<in> set ds. bc_tick d = bc_tick parent + 1 \<and> bc_owner d = bc_owner parent)"
proof (induction bts arbitrary: n s ds s')
  case Nil
  then show ?case by (simp add: ret_def)
next
  case (Cons b bts)
  obtain t m f where b: "b = ((t, m), f)" by (metis surj_pair)
  from Cons.prems obtain x s1 es s2 where es: "fork_drafts R parent base spec (n + 1) bts s1 = (Inr es, s2)"
    and ds: "ds = parent\<lparr>bc_stream := bc_stream parent @ ''/b'' @ show_nat n, bc_blob := fst x, bc_node := fst (snd x),
                   bc_fuel := f, bc_meta := dmerge base m, bc_stack := snd (snd (snd x)),
                   bc_tick := bc_tick parent + 1\<rparr> # es"
    by (auto simp: b bindp_eq_Inr ret_def)
  have "[n..<n + length (b # bts)] = n # [Suc n..<Suc n + length bts]" by (subst upt_rec) simp
  with Cons.IH [OF es] ds show ?case by (simp add: b)
qed

lemma runtime_fork_Inr:
  assumes "runtime_fork R parent bts ratios cost off s = (Inr cs, s')" "length ratios \<le> length bts"
  shows "sum_list (map bc_fuel cs) = bc_fuel parent - cost"
    and "length cs = (if ratios = [] then length bts else length ratios)"
    and "map bc_stream cs = map (\<lambda>i. bc_stream parent @ ''/b'' @ show_nat i) [0..<length cs]"
    and "\<forall>c \<in> set cs. bc_tick c = bc_tick parent + 1 \<and> bc_owner c = bc_owner parent"
proof -
  from assms(1) obtain base spec allocs ds s1 s2 s3 txm txs where
      len: "2 \<le> length bts" and
      sl: "slice_fuel (r_float R) (bc_fuel parent - cost) (length bts) ratios = Inr allocs" and
      fd: "fork_drafts R parent base spec 0 (zip bts allocs) s1 = (Inr ds, s2)" and
      ct: "commit_transition R [parent] ds txs (bc_stream parent) txm s2 = (Inr cs, s')"
    by (auto simp: runtime_fork_def bindp_eq_Inr lift_res_def raise_def split: if_splits)
  from len have n: "0 < length bts" by linarith
  note sf = slice_fuel_sum [OF sl n]
  obtain txh where cs: "cs = committed txh 0 ds" using commit_transition_Inr [OF ct] by blast
  have zl: "length (zip bts allocs) = length allocs" "map snd (zip bts allocs) = allocs"
    using assms(2) sf(2) by (auto simp: map_snd_zip_take split: if_splits)
  note fd' = fork_drafts_Inr [OF fd, unfolded zl]
  have ld: "length ds = length allocs" using fd' by (metis length_map)
  show "sum_list (map bc_fuel cs) = bc_fuel parent - cost" using cs fd' sf(1) by simp
  show "length cs = (if ratios = [] then length bts else length ratios)" using cs ld sf(2) by simp
  show "map bc_stream cs = map (\<lambda>i. bc_stream parent @ ''/b'' @ show_nat i) [0..<length cs]"
    using cs ld fd' by simp
  show "\<forall>c \<in> set cs. bc_tick c = bc_tick parent + 1 \<and> bc_owner c = bc_owner parent"
    using cs fd' by (auto simp: committed_def in_set_enumerate_eq)
qed

lemma collapse_Inr:
  assumes "collapse_and_merge R cs w sid s = (Inr c, s')"
  shows "cs \<noteq> [] \<and> 0 \<le> w \<and> w < int (length cs)"
    and "bc_fuel c = sum_list (map bc_fuel cs) \<and> bc_stream c = sid \<and> bc_tick c = bc_tick (cs ! nat w) + 1 \<and>
      bc_node c = bc_node (cs ! nat w) \<and> bc_blob c = bc_blob (cs ! nat w) \<and> bc_meta c = bc_meta (cs ! nat w) \<and>
      bc_stack c = bc_stack (cs ! nat w) \<and> bc_owner c = bc_owner (cs ! nat w)"
  using assms
  by (auto simp: collapse_and_merge_def Let_def bindp_eq_Inr lift_res_def raise_def split: if_splits
      dest!: commit_transition_Inr)


section \<open>Committing on the sealer\<close>

lemma on_store_frame:
  "on_store m s = (r, s') \<Longrightarrow> blob_cache s' = blob_cache s \<and> barrier s' = barrier s \<and>
     unfold_pool (rt_pta s') = unfold_pool (rt_pta s) \<and> spent_mempool (rt_pta s') = spent_mempool (rt_pta s)"
  by (auto simp: on_store_def split: prod.splits)

text \<open>A signed input passes the checks when the package accepts the node's own signatures.\<close>

lemma signed_inputs_pass:
  assumes "\<forall>c \<in> set cs. bc_owner c = k \<and> to_key (bc_pointer c) \<notin> spent" "k \<noteq> []"
    and "\<forall>m. e_nacl E k m (sign m)"
  shows "check_inputs (env_verify E) spent n (map (to_signed_input (h_prims (e_host E)) sign) cs) = Inr ()"
  using assms(1)
proof (induction cs arbitrary: n)
  case (Cons c cs)
  obtain x y where "k = x # y" using assms(2) by (cases k) auto
  with Cons assms(3) show ?case
    by (simp add: to_signed_input_def env_verify_def verify_ed25519_signature_def verify_signature_def Let_def)
qed simp

section \<open>Recovery\<close>

abbreviation rt_store :: "('d, 't, 'm) controller \<Rightarrow> ('d, 't) anchor_store" where
  "rt_store s \<equiv> ledger_store (rt_pta s)"

lemma commit_heads_sealer:
  assumes "env_host R = fdb_host B" "role (rt_store s) = SEALER" "fdb_ok (db (rt_store s))"
    and "fdb_room (db (rt_store s)) (length cs)"
  shows "\<exists>s'. commit_heads R txh ch n cs s = (Inr (committed txh n cs), s') \<and> barrier s' = barrier s \<and>
    blob_cache s' = blob_cache s \<and> unfold_pool (rt_pta s') = unfold_pool (rt_pta s) \<and>
    spent_mempool (rt_pta s') = spent_mempool (rt_pta s) \<and> role (rt_store s') = SEALER \<and> fdb_ok (db (rt_store s')) \<and>
    (\<forall>k. fdb_get (db (rt_store s')) k = (if k \<in> key_ref ` bc_stream ` set cs then Some ch else fdb_get (db (rt_store s)) k))"
  using assms(2-4)
proof (induction cs arbitrary: n s)
  case Nil
  then show ?case by (simp add: ret_def)
next
  case (Cons c cs)
  let ?st = "(rt_store s)\<lparr>db := snd (fdb_put (key_ref (bc_stream c)) ch (db (rt_store s)))\<rparr>"
  let ?s = "s\<lparr>rt_pta := (rt_pta s)\<lparr>ledger_store := ?st\<rparr>\<rparr>"
  have room: "fdb_room (db (rt_store s)) (Suc (length cs))" using Cons.prems(3) by simp
  have up: "on_store (update_head (env_host R) (r_req R) (bc_stream c) ch) s = (Inr (), ?s)"
    using ledger.update_head_eq [OF Cons.prems(1) room] by (simp add: on_store_def assms(1))
  obtain s' where s': "commit_heads R txh ch (n + 1) cs ?s = (Inr (committed txh (n + 1) cs), s')"
      "barrier s' = barrier s" "blob_cache s' = blob_cache s" "unfold_pool (rt_pta s') = unfold_pool (rt_pta s)"
      "spent_mempool (rt_pta s') = spent_mempool (rt_pta s)"
      "role (rt_store s') = SEALER" "fdb_ok (db (rt_store s'))"
      "\<forall>k. fdb_get (db (rt_store s')) k =
         (if k \<in> key_ref ` bc_stream ` set cs then Some ch else fdb_get (db (rt_store ?s)) k)"
    using Cons.IH [of ?s "n + 1"] Cons.prems(1,2) ledger.room_put [OF room] fdb_ok_put by auto
  have "fdb_get (db (rt_store ?s)) k = (if k = key_ref (bc_stream c) then Some ch else fdb_get (db (rt_store s)) k)" for k
    using Cons.prems(2) by (simp add: fdb_get_put)
  then show ?case
    by (intro exI [of _ s']) (use s' in \<open>simp add: bindp_def up ret_def\<close>)
qed

lemma commit_transition_sealer:
  assumes "env_host R = fdb_host B" "role (rt_store s) = SEALER" "fdb_ok (db (rt_store s))"
    and "fdb_room (db (rt_store s)) (3 + length nxt)"
    and "map_res (to_anchor_output (h_prims B) st) nxt = Inr outs"
    and "tx = mk_transaction (h_prims B) (map (to_signed_input (h_prims B) (r_sign R)) spent) outs meta
           (r_clock_ms R (ticks (rt_store s)))"
    and "check_inputs (env_verify (r_pta R)) (spent_mempool (rt_pta s)) 0 (tx_inputs tx) = Inr ()"
  shows "\<exists>s' c h. commit_transition R spent nxt st sid meta s = (Inr (committed (tx_hash tx) 0 nxt), s') \<and>
    barrier s' = barrier s \<and> blob_cache s' = blob_cache s \<and>
    executable_payload c = PDict (tx_to_dict tx) \<and> h = deterministic_hash (h_prims B) (PDict (asdict_commit c)) \<and>
    (\<forall>d \<in> set nxt. get_head_hash (fdb_host B) (bc_stream d) (rt_store s') = Some h) \<and>
    fdb_get (db (rt_store s')) (object_key ''commit'' h) =
      (case fdb_get (db (rt_store s)) (object_key ''commit'' h) of
         None \<Rightarrow> Some (p_dumps (h_prims B) (PDict (asdict_commit c))) | Some old \<Rightarrow> Some old) \<and>
    spent_mempool (rt_pta s') = spent_mempool (rt_pta s) \<union> set (spent_keys tx) \<and>
    (\<forall>key. dget (unfold_pool (rt_pta s')) key = (case map_of (rev (produced tx)) key of
        Some out \<Rightarrow> Some out
      | None \<Rightarrow> if key \<in> set (spent_keys tx) then None else dget (unfold_pool (rt_pta s)) key))"
proof -
  let ?st = "(rt_store s)\<lparr>ticks := ticks (rt_store s) + 1\<rparr>"
  let ?s = "s\<lparr>rt_pta := (rt_pta s)\<lparr>ledger_store := ?st\<rparr>\<rparr>"
  have q: "role (rt_store ?s) = SEALER" "fdb_ok (db (rt_store ?s))" "fdb_room (db (rt_store ?s)) (3 + length nxt)"
      "check_inputs (env_verify (r_pta R)) (spent_mempool (rt_pta ?s)) 0 (tx_inputs tx) = Inr ()"
    using assms(2,3,4,7) by simp_all
  obtain p' c h where ex: "execute_transaction (r_pta R) (r_req R) (r_rounds R) (r_loop R) tx (Some sid) (rt_pta ?s) = (Inr (tx_hash tx), p')"
    and c: "executable_payload c = PDict (tx_to_dict tx)" "h = deterministic_hash (h_prims B) (PDict (asdict_commit c))"
    and obj: "fdb_get (db (ledger_store p')) (object_key ''commit'' h) =
      (case fdb_get (db (rt_store ?s)) (object_key ''commit'' h) of
         None \<Rightarrow> Some (p_dumps (h_prims B) (PDict (asdict_commit c))) | Some old \<Rightarrow> Some old)"
    and rc: "resolve_commit_hash (r_pta R) (tx_hash tx) (Some sid) p' = (h, p')"
    and sp: "spent_mempool p' = spent_mempool (rt_pta ?s) \<union> set (spent_keys tx)"
    and pool: "\<forall>key. dget (unfold_pool p') key = (case map_of (rev (produced tx)) key of
        Some out \<Rightarrow> Some out
      | None \<Rightarrow> if key \<in> set (spent_keys tx) then None else dget (unfold_pool (rt_pta ?s)) key)"
    and st': "role (ledger_store p') = SEALER" "fdb_ok (db (ledger_store p'))" "fdb_room (db (ledger_store p')) (length nxt)"
    using execute_transaction_step [OF assms(1) q, of "r_req R" "r_rounds R" "r_loop R" "Some sid"] by blast
  let ?s1 = "?s\<lparr>rt_pta := p'\<rparr>"
  obtain s' where s': "commit_heads R (tx_hash tx) h 0 nxt ?s1 = (Inr (committed (tx_hash tx) 0 nxt), s')"
      "barrier s' = barrier s" "blob_cache s' = blob_cache s" "unfold_pool (rt_pta s') = unfold_pool p'"
      "spent_mempool (rt_pta s') = spent_mempool p'"
      "\<forall>k. fdb_get (db (rt_store s')) k =
         (if k \<in> key_ref ` bc_stream ` set nxt then Some h else fdb_get (db (ledger_store p')) k)"
    using commit_heads_sealer [OF assms(1), of ?s1 "nxt" "tx_hash tx" h 0] st' by auto
  have run: "commit_transition R spent nxt st sid meta s = (Inr (committed (tx_hash tx) 0 nxt), s')"
    using assms(1,5,6) ex rc s'(1)
    by (simp add: commit_transition_def Let_def bindp_def lift_res_def read_clock_ms_def on_store_def on_pta_def)
  have us: "unfold_pool (rt_pta ?s) = unfold_pool (rt_pta s)" by simp
  have nk: "object_key ''commit'' h \<notin> key_ref ` bc_stream ` set nxt" by auto
  show ?thesis
    by (intro exI [of _ s'] exI [of _ c] exI [of _ h] conjI allI ballI)
      (use run s' c obj sp pool [unfolded us] nk in \<open>simp_all add: ledger.get_head_hash_eq\<close>)
qed

lemma produced_at:
  assumes "i < length (tx_outputs tx)"
  shows "map_of (rev (produced tx)) (to_key \<lparr>ptr_tx_hash = tx_hash tx, ptr_output_index = int i\<rparr>) = Some (tx_outputs tx ! i)"
proof -
  let ?k = "\<lambda>i. tx_hash tx @ '':'' @ show_nat i"
  have pr: "produced tx = map (\<lambda>i. (?k i, tx_outputs tx ! i)) [0..<length (tx_outputs tx)]"
    by (rule nth_equalityI) (simp_all add: produced_def nth_enumerate_eq)
  have "distinct (map fst (rev (produced tx)))"
    unfolding rev_map [symmetric] distinct_rev by (simp add: pr distinct_map inj_on_def show_nat_inj)
  moreover have "(?k i, tx_outputs tx ! i) \<in> set (rev (produced tx))" using assms by (auto simp: pr)
  ultimately show ?thesis by (simp add: to_key_def pta_pointer_def show_int_nat)
qed

lemma load_asdict_output:
  "load_anchor_output (asdict_output (phase_anchor_output a w h st d)) = Inr (phase_anchor_output a w h st d)"
  by (simp add: load_anchor_output_def asdict_output_def phase_anchor_output_def payload_str_def dget_or_def)

lemma find_output_at:
  assumes "list_all2 (\<lambda>c out. to_anchor_output P st c = Inr out) cs outs" "distinct (map bc_stream cs)"
    and "i < length cs" "bc_stream (cs ! i) \<noteq> []" "only \<longrightarrow> i = 0"
  shows "find_output (bc_stream (cs ! i)) txh only n (map (\<lambda>out. PDict (asdict_output out)) outs) =
    Inr (Some ((cs ! i)\<lparr>bc_pointer := \<lparr>ptr_tx_hash = txh, ptr_output_index = int (n + i)\<rparr>\<rparr>))"
  using assms
proof (induction arbitrary: i n rule: list_all2_induct)
  case (Cons c cs out outs)
  then have out: "out = phase_anchor_output (bc_fuel c) (bc_owner c) (bc_stream c) st (anchor_dict c)"
    by (simp add: to_anchor_output_Inr)
  have h: "dget (asdict_output out) ''handle_id'' = Some (PStr (bc_stream c))"
    by (simp add: out asdict_output_def phase_anchor_output_def)
  show ?case
  proof (cases i)
    case 0
    with Cons.prems cursor_restored [OF Cons.hyps(1)] h show ?thesis
      by (simp add: out load_asdict_output)
next
    case (Suc j)
    with Cons.prems have "bc_stream ((c # cs) ! i) \<noteq> bc_stream c" "j < length cs" "\<not> only"
      by (auto, metis imageI nth_mem)
    with Cons.IH [of j "n + 1"] Cons.prems h Suc show ?thesis by simp
  qed
qed simp

text \<open>What the hash function and the signing package promise: a digest is a non-empty text without
  colons (it is hexadecimal), and a signature made with the node's key verifies under it.\<close>

definition hex_digests :: "prims \<Rightarrow> bool" where
  "hex_digests P \<longleftrightarrow> (\<forall>x. p_sha256 P x \<noteq> [] \<and> CHR '':'' \<notin> set (p_sha256 P x))"

definition own_signatures :: "('d, 't, 'm) rt_env \<Rightarrow> bool" where
  "own_signatures R \<longleftrightarrow> r_pubkey R \<noteq> [] \<and> (\<forall>m. e_nacl (r_pta R) (r_pubkey R) m (r_sign R m))"

definition owned_unspent :: "('d, 't, 'm) rt_env \<Rightarrow> ('d, 't, 'm) controller \<Rightarrow> branch_cursor list \<Rightarrow> bool" where
  "owned_unspent R s cs \<longleftrightarrow>
     (\<forall>c \<in> set cs. bc_owner c = r_pubkey R \<and> to_key (bc_pointer c) \<notin> spent_mempool (rt_pta s))"

definition sealer_ready :: "(unit, 't) host \<Rightarrow> nat \<Rightarrow> (fdb_driver, 't, 'm) rt_env \<Rightarrow> (fdb_driver, 't, 'm) controller \<Rightarrow> bool" where
  "sealer_ready B n R s \<longleftrightarrow> env_host R = fdb_host B \<and> role (rt_store s) = SEALER \<and> fdb_ok (db (rt_store s)) \<and>
     fdb_room (db (rt_store s)) (3 + n)"

lemma commit_on_sealer:
  assumes "sealer_ready B (length nxt) R s" "own_signatures R" "owned_unspent R s spent"
    and "map_res (to_anchor_output (h_prims B) st) nxt = Inr outs"
    and tx_def: "tx = mk_transaction (h_prims B) (map (to_signed_input (h_prims B) (r_sign R)) spent) outs meta
           (r_clock_ms R (ticks (rt_store s)))"
  shows "\<exists>s' c h. commit_transition R spent nxt st sid meta s = (Inr (committed (tx_hash tx) 0 nxt), s') \<and>
    barrier s' = barrier s \<and> blob_cache s' = blob_cache s \<and>
    executable_payload c = PDict (tx_to_dict tx) \<and> h = deterministic_hash (h_prims B) (PDict (asdict_commit c)) \<and>
    (\<forall>d \<in> set nxt. get_head_hash (fdb_host B) (bc_stream d) (rt_store s') = Some h) \<and>
    fdb_get (db (rt_store s')) (object_key ''commit'' h) =
      (case fdb_get (db (rt_store s)) (object_key ''commit'' h) of
         None \<Rightarrow> Some (p_dumps (h_prims B) (PDict (asdict_commit c))) | Some old \<Rightarrow> Some old) \<and>
    spent_mempool (rt_pta s') = spent_mempool (rt_pta s) \<union> (\<lambda>c. to_key (bc_pointer c)) ` set spent \<and>
    (\<forall>key. dget (unfold_pool (rt_pta s')) key = (case map_of (rev (produced tx)) key of
        Some out \<Rightarrow> Some out
      | None \<Rightarrow> if key \<in> (\<lambda>c. to_key (bc_pointer c)) ` set spent then None else dget (unfold_pool (rt_pta s)) key))"
proof -
  have host: "env_host R = fdb_host B" "h_prims (env_host R) = h_prims B" using assms(1) by (simp_all add: sealer_ready_def)
  have ins: "tx_inputs tx = map (to_signed_input (h_prims B) (r_sign R)) spent" by (simp add: tx_def mk_transaction_def)
  have ck: "check_inputs (env_verify (r_pta R)) (spent_mempool (rt_pta s)) 0 (tx_inputs tx) = Inr ()"
    unfolding ins host(2) [symmetric]
    by (rule signed_inputs_pass [where k = "r_pubkey R"]) (use assms(2,3) in \<open>simp_all add: own_signatures_def owned_unspent_def\<close>)
  have keys: "set (spent_keys tx) = (\<lambda>c. to_key (bc_pointer c)) ` set spent"
    by (simp add: spent_keys_def ins to_signed_input_def image_image)
  have r: "role (rt_store s) = SEALER" "fdb_ok (db (rt_store s))" "fdb_room (db (rt_store s)) (3 + length nxt)"
    using assms(1) by (simp_all add: sealer_ready_def)
  from commit_transition_sealer [OF host(1) r assms(4) tx_def ck, of sid] show ?thesis unfolding keys .
qed

lemma tx_hash_digest: "\<exists>x. tx_hash (mk_transaction P ins outs meta ts) = p_sha256 P x"
  by (auto simp: mk_transaction_def compute_tx_hash_def)

lemma restore_by_pointer:
  assumes "dget (unfold_pool (rt_pta s)) (to_key \<lparr>ptr_tx_hash = txh, ptr_output_index = i\<rparr>) = Some out"
    and "to_anchor_output P st c = Inr out" "bc_stream c \<noteq> []" "CHR '':'' \<notin> set txh" "barrier s = Some b"
  shows "restore_cursor R (to_key \<lparr>ptr_tx_hash = txh, ptr_output_index = i\<rparr>) s =
    (Inr (c\<lparr>bc_pointer := \<lparr>ptr_tx_hash = txh, ptr_output_index = i\<rparr>\<rparr>), s)"
proof -
  have sp: "split_once '':'' (to_key \<lparr>ptr_tx_hash = txh, ptr_output_index = i\<rparr>) = Some (txh, show_int i)"
    using split_once_fresh [OF assms(4), of "show_int i"] by (simp add: to_key_def pta_pointer_def)
  show ?thesis
    unfolding restore_cursor_def sp assms(1)
    using cursor_restored [OF assms(2,3)] assms(5)
    by (simp add: bindp_def lift_res_def ensure_barrier_def)
qed

lemma restore_by_stream:
  assumes "env_host R = fdb_host B" "CHR '':'' \<notin> set sid" "get_head_hash (fdb_host B) sid (rt_store s) = Some h" "h \<noteq> []"
    and "fdb_get (db (rt_store s)) (object_key ''commit'' h) = Some body" "p_loads (h_prims B) body = Some (PDict (asdict_commit c))"
    and "executable_payload c = PDict (tx_to_dict tx)"
    and "find_output sid (tx_hash tx) (length (tx_outputs tx) = 1) 0 (map (\<lambda>out. PDict (asdict_output out)) (tx_outputs tx)) = Inr (Some d)"
    and "barrier s = Some b"
  shows "restore_cursor R sid s = (Inr d, s)"
proof -
  obtain x y where h: "h = x # y" using assms(4) by (cases h) auto
  have "split_once '':'' sid = None" using assms(2) by (simp add: split_once_None_iff)
  moreover have "drv_getitem (h_get (fdb_host B)) (db (rt_store s)) (''commit:'' @ h) = Inr body"
    using assms(5) by (simp add: drv_getitem_def fdb_host_def object_key_def)
  moreover have "restore_from_head (h_prims B) sid h body = Inr d"
    using assms(6-8)
    by (simp add: restore_from_head_def json_loads_def asdict_commit_def tx_to_dict_def payload_str_def)
  ultimately show ?thesis
    using assms(1,3,9) h
    by (simp add: restore_cursor_def Let_def bindp_def lift_res_def ensure_barrier_def)
qed


definition runtime_codec :: prims where
  "runtime_codec = sample_codec\<lparr>p_sha256 := \<lambda>_. ''d''\<rparr>"

definition runtime_base :: "(unit, unit) host" where
  "runtime_base = sample_base\<lparr>h_prims := runtime_codec\<rparr>"

definition runtime_env :: "('d, unit) host \<Rightarrow> ('d, unit, unit) rt_env" where
  "runtime_env H = \<lparr>r_pta = \<lparr>e_host = H, e_seek = (\<lambda>_ _. []), e_sync = ret (), e_nacl = (\<lambda>_ _ _. True), e_own_key = ''k'',
       e_invoke = (\<lambda>_. (True, ''ok''))\<rparr>,
     r_pubkey = ''k'', r_sign = id, r_clock_ms = int, r_req = ''r'', r_rounds = 0, r_loop = False, r_vm = sample_vm False,
     r_broker = None, r_float = \<lparr>f_sum = (\<lambda>_. Fin 1), f_div = (\<lambda>x _. x), f_scale = (\<lambda>n x. Inr x)\<rparr>, r_order = id\<rparr>"

definition empty_barrier :: "branch_cursor dag_barrier" where
  "empty_barrier = \<lparr>topology = \<lparr>topo_entry = ''a'', back_edges = [], join_nodes = []\<rparr>, waiting = []\<rparr>"

definition sample_cursor :: branch_cursor where
  "sample_cursor = \<lparr>bc_stream = ''s'', bc_pointer = \<lparr>ptr_tx_hash = ''g'', ptr_output_index = 0\<rparr>, bc_blob = ''b'', bc_node = ''a'',
     bc_fuel = 10, bc_owner = ''k'', bc_meta = [(''m'', PInt 1)], bc_stack = [''p#q''], bc_tick = 3\<rparr>"

definition sample_controller :: "('d, unit) anchor_store \<Rightarrow> ('d, unit, unit) controller" where
  "sample_controller st = \<lparr>rt_pta = \<lparr>unfold_pool = [], spent_mempool = {}, tx_commit_map = [], ledger_store = st\<rparr>,
     blob_cache = [(''b'', [(K_GRAPH, PDict [(''a'', PDict [(K_TYPE, PStr ''TASK'')])])])], barrier = Some empty_barrier,
     vm_cache = \<lparr>engine_ready = False, modules = []\<rparr>\<rparr>"


lemma fork_merge_evaluates:
  "let r = runtime_fork (runtime_env sample_base) sample_cursor [(''x'', []), (''y'', [])] [] 3 []
             (sample_controller (initialize_consensus_node True False () ()))
   in \<not> isl (fst r) \<and> \<not> isl (fst (collapse_and_merge (runtime_env sample_base) (projr (fst r)) 1 ''m'' (snd r)))"
  by code_simp


section \<open>Calls into another graph\<close>

lemma external_not_reserved:
  assumes "startswith raw BRANCH_PREFIX \<or> startswith raw CAS_PREFIX"
  shows "raw \<noteq> RETURN_TOKEN" "raw \<noteq> END_TOKEN" "\<not> startswith raw (RETURN_TOKEN @ ''#'')"
  using assms
  by (auto simp: BRANCH_PREFIX_def CAS_PREFIX_def RETURN_TOKEN_def END_TOKEN_def startswith_iff prefix_def)

lemma pop_pushed: "CHR ''#'' \<notin> set b \<Longrightarrow> pop_frame (st @ [b @ ''#'' @ n]) = Inr (b, n, st)"
  by (simp add: pop_frame_def split_once_fresh)

text \<open>
  A call into another graph and the return from it cancel: resolving an external target pushes
  one frame and moves to the target; RETURN (or END, which returns while frames remain) from
  there goes back to the calling graph at the caller's fallback or default successor, with the
  caller's stack, and RETURN#n goes to n instead.
\<close>

theorem call_then_return:
  assumes "resolve_target R c raw spec s = (Inr (b, n, k, st), s')"
    and "startswith raw BRANCH_PREFIX \<or> startswith raw CAS_PREFIX" "CHR ''#'' \<notin> set (bc_blob c)"
    and "callee = c\<lparr>bc_blob := b, bc_node := n, bc_stack := st\<rparr>"
  shows "k = ''SYMLINK'' \<and> length st = length (bc_stack c) + 1 \<and>
    (\<forall>t \<in> {RETURN_TOKEN, END_TOKEN}. \<exists>k'. resolve_target R callee t spec' s' =
       (Inr (bc_blob c, resume_node (env_prims R) spec, k', bc_stack c), s')) \<and>
    (\<forall>m. m \<noteq> END_TOKEN \<longrightarrow>
       resolve_target R callee (RETURN_TOKEN @ ''#'' @ m) spec' s' = (Inr (bc_blob c, m, ''SYMLINK'', bc_stack c), s'))"
proof -
  note nr = external_not_reserved [OF assms(2)]
  have res: "k = ''SYMLINK''" "st = bc_stack c @ [bc_blob c @ ''#'' @ resume_node (env_prims R) spec]"
    using assms(1,2) nr
    by (auto simp: resolve_target_def Let_def bindp_eq_Inr ret_def split: if_splits option.splits)
  have pf: "pop_frame st = Inr (bc_blob c, resume_node (env_prims R) spec, bc_stack c)" "st \<noteq> []"
    using pop_pushed [OF assms(3)] by (simp_all add: res(2))
  have tok: "split_once ''#'' RETURN_TOKEN = None" "split_once ''#'' END_TOKEN = None" "END_TOKEN \<noteq> RETURN_TOKEN"
    by (simp_all add: RETURN_TOKEN_def END_TOKEN_def startswith_def)
  have ret: "split_once ''#'' (RETURN_TOKEN @ ''#'' @ m) = Some (RETURN_TOKEN, m)" "RETURN_TOKEN @ ''#'' @ m \<noteq> END_TOKEN" for m
    using split_once_fresh [of "CHR ''#''" RETURN_TOKEN m] by (simp_all add: RETURN_TOKEN_def END_TOKEN_def)
  have sw: "startswith (RETURN_TOKEN @ ''#'' @ m) (RETURN_TOKEN @ ''#'')" for m
    using startswith_append [of "RETURN_TOKEN @ ''#''" m] by simp
  have "\<exists>k'. resolve_target R callee t spec' s' = (Inr (bc_blob c, resume_node (env_prims R) spec, k', bc_stack c), s')"
    if "t \<in> {RETURN_TOKEN, END_TOKEN}" for t
    using that pf tok by (auto simp: resolve_target_def assms(4) Let_def bindp_def lift_res_def ret_def)
  moreover have "resolve_target R callee (RETURN_TOKEN @ ''#'' @ m) spec' s' = (Inr (bc_blob c, m, ''SYMLINK'', bc_stack c), s')"
    if "m \<noteq> END_TOKEN" for m
    using that pf ret [of m] sw [of m]
    by (simp add: resolve_target_def assms(4) Let_def bindp_def lift_res_def ret_def del: append_Cons)
  ultimately show ?thesis using res by simp
qed

section \<open>Blobs\<close>

lemma remove_all_absent: "CHR '':'' \<notin> set s \<Longrightarrow> CHR '':'' \<in> set old \<Longrightarrow> remove_all old s = s"
proof (induction s)
  case Nil
  then show ?case by (simp add: remove_all.simps)
next
  case (Cons x s)
  then have "\<not> startswith (x # s) old" by (metis in_set_takeD startswith_def)
  with Cons show ?case by (subst remove_all.simps) auto
qed

lemma remove_all_prefix: "old \<noteq> [] \<Longrightarrow> remove_all old (old @ s) = remove_all old s"
  by (cases old, simp, subst remove_all.simps) (simp add: startswith_def)

lemma clean_pointer:
  assumes "CHR '':'' \<notin> set h"
  shows "remove_all CAS_PREFIX (remove_all BRANCH_PREFIX (CAS_PREFIX @ h)) = h"
    "remove_all CAS_PREFIX (remove_all BRANCH_PREFIX (BRANCH_PREFIX @ h)) = h"
    "remove_all CAS_PREFIX (remove_all BRANCH_PREFIX h) = h"
proof -
  have c: "CHR '':'' \<in> set CAS_PREFIX" "CHR '':'' \<in> set BRANCH_PREFIX" "BRANCH_PREFIX \<noteq> []" "CAS_PREFIX \<noteq> []"
    by (simp_all add: CAS_PREFIX_def BRANCH_PREFIX_def)
  have "remove_all BRANCH_PREFIX (CAS_PREFIX @ h) = CAS_PREFIX @ h"
    using remove_all_absent [OF assms c(2)]
    by (simp add: CAS_PREFIX_def remove_all.simps [of BRANCH_PREFIX] startswith_def) (simp add: BRANCH_PREFIX_def)
  then show "remove_all CAS_PREFIX (remove_all BRANCH_PREFIX (CAS_PREFIX @ h)) = h"
    "remove_all CAS_PREFIX (remove_all BRANCH_PREFIX (BRANCH_PREFIX @ h)) = h"
    "remove_all CAS_PREFIX (remove_all BRANCH_PREFIX h) = h"
    using c by (simp_all add: remove_all_prefix remove_all_absent [OF assms])
qed

text \<open>
  An inscribed blob is found: on the lock holder inscribing succeeds and returns the prefix with
  sixteen characters of the hash, and the blob is then read back under that pointer, under the full
  pointer and hash and under its alias. A node that starts with an empty cache still reads it by
  its full pointer, from the ledger, but the short pointer raises there.
\<close>

theorem inscribed_blob_found:
  assumes "sealer_ready B 0 R s" "hex_digests (h_prims B)"
    and "h = deterministic_hash (h_prims B) (PDict d)" "pfx \<in> {CAS_PREFIX, BRANCH_PREFIX}" "al \<noteq> []"
    and "fdb_get (db (rt_store s)) (object_key ''blob'' h) = None" "p_loads (h_prims B) (p_dumps (h_prims B) (PDict d)) = Some (PDict d)"
    and "take 16 h \<noteq> h" "fdb_get (db (rt_store s)) (object_key ''blob'' (take 16 h)) = None"
  shows "\<exists>s'. cache_and_inscribe_blob R d pfx (Some al) s = (Inr (pfx @ take 16 h), s') \<and>
    (\<forall>k \<in> {pfx @ take 16 h, CAS_PREFIX @ h, h, al}. load_blob R k s' = (Inr d, s')) \<and>
    fst (load_blob R (pfx @ h) (s'\<lparr>blob_cache := []\<rparr>)) = Inr d \<and>
    fst (load_blob R (pfx @ take 16 h) (s'\<lparr>blob_cache := []\<rparr>)) = Inl (Exc AttributeErr ''keys'')"
proof -
  have host: "env_host R = fdb_host B" and st: "role (rt_store s) = SEALER" "fdb_ok (db (rt_store s))" "fdb_room (db (rt_store s)) (Suc 0)"
    using assms(1) by (simp_all add: sealer_ready_def fdb_room_def)
  have hx: "CHR '':'' \<notin> set h" using assms(2,3) by (simp add: hex_digests_def deterministic_hash_def)
  then have hx16: "CHR '':'' \<notin> set (take 16 h)" by (meson in_set_takeD)
  let ?d = "ledger.ins (db (rt_store s)) (object_key ''blob'' h) (p_dumps (h_prims B) (PDict d))"
  obtain s' where s': "cache_and_inscribe_blob R d pfx (Some al) s = (Inr (pfx @ take 16 h), s')"
      "blob_cache s' = dset al d (dset h d (dset (CAS_PREFIX @ h) d (dset (CAS_PREFIX @ take 16 h) d (dset (pfx @ take 16 h) d (blob_cache s)))))"
      "db (rt_store s') = ?d"
    using ledger.put_object_eq [OF st(1,3), of B "r_req R" "''blob''" "PDict d"] assms(3,5)
    by (cases al) (auto simp: cache_and_inscribe_blob_def bindp_def on_store_def host Let_def)
  have get: "fdb_get ?d k = (if k = object_key ''blob'' h then Some (p_dumps (h_prims B) (PDict d)) else fdb_get (db (rt_store s)) k)" for k
    using assms(6) st(2) by (simp add: ledger.get_ins)
  have clean: "remove_all CAS_PREFIX (remove_all BRANCH_PREFIX (pfx @ x)) = x" if "CHR '':'' \<notin> set x" for x
    using assms(4) clean_pointer [OF that] by auto
  have H: "h_get (fdb_host B) = fdb_get" by (simp add: fdb_host_def)
  have long: "fst (load_blob R (pfx @ h) (s'\<lparr>blob_cache := []\<rparr>)) = Inr d"
    using get [of "object_key ''blob'' h"] assms(7)
    by (simp add: load_blob_def clean [OF hx] host H s'(3) drv_contains_def drv_getitem_def object_key_def json_loads_def)
  have "fdb_get ?d (object_key ''blob'' (take 16 h)) = None"
    using get [of "object_key ''blob'' (take 16 h)"] assms(8,9) by (simp add: object_key_def)
  then have short: "fst (load_blob R (pfx @ take 16 h) (s'\<lparr>blob_cache := []\<rparr>)) = Inl (Exc AttributeErr ''keys'')"
    by (simp add: load_blob_def clean [OF hx16] host H s'(3) drv_contains_def object_key_def)
  have "load_blob R k s' = (Inr d, s')" if "k \<in> {pfx @ take 16 h, CAS_PREFIX @ h, h, al}" for k
    using that by (auto simp: load_blob_def s'(2))
  with s'(1) long short show ?thesis by blast
qed

definition long_hash :: string where
  "long_hash = ''0123456789abcdef0''"

definition blob_base :: "(unit, unit) host" where
  "blob_base = sample_base\<lparr>h_prims := sample_codec\<lparr>p_sha256 := \<lambda>_. long_hash\<rparr>\<rparr>"

theorem inscribed_blob_found_witness:
  "\<exists>s'. cache_and_inscribe_blob (runtime_env (fdb_host blob_base)) [] CAS_PREFIX (Some ''al'') (sample_controller sample_store) =
       (Inr (CAS_PREFIX @ take 16 long_hash), s') \<and>
     load_blob (runtime_env (fdb_host blob_base)) ''al'' s' = (Inr [], s')"
proof -
  let ?R = "runtime_env (fdb_host blob_base)" and ?s = "sample_controller sample_store"
  have st: "rt_store ?s = sample_store" by (simp add: sample_controller_def)
  have R: "env_host ?R = fdb_host blob_base" by (simp add: runtime_env_def)
  have P: "p_sha256 (h_prims blob_base) x = long_hash" "p_loads (h_prims blob_base) y = Some (PDict [])" for x y
    by (simp_all add: blob_base_def sample_codec_def)
  have lh: "take 16 long_hash \<noteq> long_hash" "long_hash \<noteq> []" "CHR '':'' \<notin> set long_hash" by (simp_all add: long_hash_def)
  have empty: "fdb_get (db sample_store) k = None" for k
    by (simp add: sample_store_def initialize_consensus_node_def start_sealer_consumer_def fdb_init_def fdb_get_def Let_def)
  have "sealer_ready blob_base 0 ?R ?s"
    using sample_store_ok(1,2) sample_store_ok(3) [of 3] by (simp add: sealer_ready_def st R)
  then show ?thesis
    using inscribed_blob_found [where B = blob_base and R = ?R and s = ?s and h = long_hash and d = "[]" and pfx = CAS_PREFIX and al = "''al''"]
      lh by (auto simp: hex_digests_def P st empty deterministic_hash_def)
qed

theorem call_then_return_witness:
  "\<exists>st s'. resolve_target (runtime_env sample_base) sample_cursor ''branch:x#y'' [(K_FALLBACK, PStr ''z'')]
       (sample_controller (initialize_consensus_node True False () ())) = (Inr (''branch:x'', ''y'', ''SYMLINK'', st), s') \<and>
     (\<exists>k. resolve_target (runtime_env sample_base) (sample_cursor\<lparr>bc_blob := ''branch:x'', bc_node := ''y'', bc_stack := st\<rparr>) RETURN_TOKEN [] s' =
       (Inr (''b'', ''z'', k, bc_stack sample_cursor), s'))"
proof -
  let ?s = "sample_controller (initialize_consensus_node True False () ())"
  have run: "resolve_target (runtime_env sample_base) sample_cursor ''branch:x#y'' [(K_FALLBACK, PStr ''z'')] ?s =
      (Inr (''branch:x'', ''y'', ''SYMLINK'', [''p#q'', ''b#z'']), ?s)"
    by (simp add: resolve_target_def sample_cursor_def resume_node_def Let_def bindp_def ret_def startswith_def RETURN_TOKEN_def END_TOKEN_def
        BRANCH_PREFIX_def dget_or_def)
  have "resume_node (env_prims (runtime_env sample_base)) [(K_FALLBACK, PStr ''z'')] = ''z''" "bc_blob sample_cursor = ''b''"
    by (simp_all add: resume_node_def dget_or_def sample_cursor_def)
  moreover have "startswith ''branch:x#y'' BRANCH_PREFIX" by (simp add: BRANCH_PREFIX_def startswith_def)
  ultimately show ?thesis
    using call_then_return [OF run _ _ refl, of "[]"] run by auto
qed

end
