(* ===== verification/Traverser.thy ===== *)
theory Traverser
  imports CursorLedger
begin

text \<open>
  The graph traverser, \<^verbatim>\<open>node/runtime/fsm/traverser.py\<close>: a queue of cursors driven until it is
  empty or the tick limit is reached. Branches fork, wait at join nodes and merge, fail over to
  their fallback edge, or are parked until a person answers.

  The state holds the attributes of the traverser and the local variables of the loop, which keep
  their values when an exception is caught. The node executor and the arbiter are arguments; the
  executor may use the runtime. A branch list in the meta data is read as pairs of a target and a
  dictionary before the fork.
\<close>

section \<open>State\<close>

record traversal_result =
  final_cursor :: branch_cursor
  tr_root_hash :: string
  total_ticks :: nat
  reclaimed_fuel :: int
  visited_history :: "string list"
  parked_cursors :: "branch_cursor list"
  join_collapses :: nat

record ('d, 't, 'm) trav_env =
  t_rt :: "('d, 't, 'm) rt_env"
  node_executor :: "branch_cursor \<Rightarrow> pydict \<Rightarrow> pydict \<Rightarrow> (('d, 't, 'm) controller, pydict \<times> pydict \<times> int) prog"
  arbiter :: "branch_cursor list \<Rightarrow> int res"
  max_ticks :: int

record ('d, 't, 'm) traverser =
  runtime :: "('d, 't, 'm) controller"
  active_cursors :: "(string, branch_cursor) dict"
  parked :: "(string, branch_cursor) dict"
  run_queue :: "branch_cursor list"
  completed_terminals :: "branch_cursor list"
  history :: "string list"
  collapses :: nat
  expected_parallel :: int
  last_completed :: branch_cursor
  cursor :: branch_cursor

definition on_rt :: "(('d, 't, 'm) controller, 'a) prog \<Rightarrow> (('d, 't, 'm) traverser, 'a) prog" where
  "on_rt m s = (case m (runtime s) of (r, c) \<Rightarrow> (r, s\<lparr>runtime := c\<rparr>))"

definition modify :: "('s \<Rightarrow> 's) \<Rightarrow> ('s, unit) prog" where
  "modify f s = (Inr (), f s)"

definition visit_tag :: "branch_cursor \<Rightarrow> string \<Rightarrow> string" where
  "visit_tag c tag = bc_stream c @ '':'' @ bc_node c @ tag"

definition note_visit :: "branch_cursor \<Rightarrow> string \<Rightarrow> ('d, 't, 'm) traverser \<Rightarrow> ('d, 't, 'm) traverser" where
  "note_visit c tag s = s\<lparr>history := history s @ [visit_tag c tag]\<rparr>"

definition set_active :: "branch_cursor \<Rightarrow> ('d, 't, 'm) traverser \<Rightarrow> ('d, 't, 'm) traverser" where
  "set_active c s = s\<lparr>active_cursors := dset (bc_stream c) c (active_cursors s)\<rparr>"

definition drop_active :: "string \<Rightarrow> ('d, 't, 'm) traverser \<Rightarrow> ('d, 't, 'm) traverser" where
  "drop_active sid s = s\<lparr>active_cursors := ddel sid (active_cursors s)\<rparr>"

definition finish_cursor :: "branch_cursor \<Rightarrow> ('d, 't, 'm) traverser \<Rightarrow> ('d, 't, 'm) traverser" where
  "finish_cursor c s = drop_active (bc_stream c)
     (s\<lparr>last_completed := c, completed_terminals := completed_terminals s @ [c]\<rparr>)"

section \<open>Arbiter and fan-out\<close>

text \<open>Keys are compared by score, then by fuel.\<close>

definition key_less :: "pyfloat \<times> int \<Rightarrow> pyfloat \<times> int \<Rightarrow> bool" where
  "key_less k l = (if float_eq (fst k) (fst l) then snd k < snd l else float_less (fst k) (fst l))"

text \<open>\<open>max(range(n), key=...)\<close>: the first index whose key no later key exceeds.\<close>

fun max_index :: "('k \<Rightarrow> 'k \<Rightarrow> bool) \<Rightarrow> nat \<Rightarrow> 'k \<Rightarrow> nat \<Rightarrow> 'k list \<Rightarrow> nat" where
  "max_index lt best bk i [] = best"
| "max_index lt best bk i (k # ks) = (if lt bk k then max_index lt i k (i + 1) ks else max_index lt best bk (i + 1) ks)"

definition arbiter_key :: "prims \<Rightarrow> branch_cursor \<Rightarrow> (pyfloat \<times> int) res" where
  "arbiter_key P c = bind_res (py_float_of P (dget_or (bc_meta c) ''_score'' (PFloat (Fin 0)))) (\<lambda>f. Inr (f, bc_fuel c))"

definition default_arbiter :: "prims \<Rightarrow> branch_cursor list \<Rightarrow> int res" where
  "default_arbiter P cursors =
     bind_res (map_res (arbiter_key P) cursors) (\<lambda>keys.
       case keys of
         [] \<Rightarrow> Inl (Exc ValueErr ''max() iterable argument is empty'')
       | k # ks \<Rightarrow> Inr (int (max_index key_less 0 k 1 ks)))"

definition noop_executor :: "branch_cursor \<Rightarrow> pydict \<Rightarrow> pydict \<Rightarrow> (('d, 't, 'm) controller, pydict \<times> pydict \<times> int) prog" where
  "noop_executor c node_spec task_io = ret ([], [], 0)"

fun branch_target :: "pyval \<Rightarrow> (string \<times> pydict) res" where
  "branch_target (PList [PStr t, PDict m]) = Inr (t, m)"
| "branch_target v = Inl (Exc ValueErr ''branch target'')"

definition indexed_target :: "nat \<times> pyval \<Rightarrow> (string \<times> pydict) res" where
  "indexed_target iv = (case iv of (idx, v) \<Rightarrow>
     (case v of PStr t \<Rightarrow> Inr (t, [(''_branch_idx'', PInt (int idx))]) | _ \<Rightarrow> Inl (Exc AttributeErr ''startswith'')))"

definition pop_ratios :: "prims \<Rightarrow> pydict \<Rightarrow> pyfloat list res \<times> pydict" where
  "pop_ratios P meta =
     (let fallback = dget_or meta ''fuel_ratios'' PNone; m1 = ddel ''fuel_ratios'' meta;
          ratios = dget_or m1 ''_fork_ratios'' fallback; m2 = ddel ''_fork_ratios'' m1
      in case ratios of PList vs \<Rightarrow> (map_res (py_float_of P) vs, m2) | _ \<Rightarrow> (Inr [], m2))"

text \<open>The second component is the meta dictionary after the pops, which the caller's cursor shares.\<close>

definition detect_fanout_and_ratios ::
  "prims \<Rightarrow> pydict \<Rightarrow> pydict \<Rightarrow> ((string \<times> pydict) list \<times> pyfloat list) res \<times> pydict" where
  "detect_fanout_and_ratios P node_spec meta =
     (case pop_ratios P meta of (rr, m2) \<Rightarrow>
        (case rr of
           Inl e \<Rightarrow> (Inl e, m2)
         | Inr ratios \<Rightarrow>
             (let branches = dget_or m2 ''_fork_branches'' PNone; m3 = ddel ''_fork_branches'' m2;
                  nx = dget_or node_spec K_NEXT PNone;
                  static = (case nx of
                              PList vs \<Rightarrow> if 2 \<le> length vs
                                then bind_res (map_res indexed_target (enumerate 0 vs)) (\<lambda>ts. Inr (ts, ratios)) else Inr ([], [])
                            | _ \<Rightarrow> Inr ([], []))
              in case branches of
                   PList bs \<Rightarrow> if 2 \<le> length bs then (bind_res (map_res branch_target bs) (\<lambda>ts. Inr (ts, ratios)), m3)
                                else (static, m3)
                 | _ \<Rightarrow> (static, m3))))"

section \<open>Joins and fallbacks\<close>

definition choose_winner :: "('d, 't, 'm) trav_env \<Rightarrow> branch_cursor list \<Rightarrow> (('d, 't, 'm) traverser, int) prog" where
  "choose_winner T cs = lift_res (arbiter T cs)"

definition arrive_at_barrier ::
  "branch_cursor \<Rightarrow> int \<Rightarrow> branch_cursor dag_barrier \<Rightarrow> (('d, 't, 'm) traverser, bool \<times> branch_cursor list) prog" where
  "arrive_at_barrier c expected_count b s =
     (case arrive bc_stream bc_node c expected_count b of
        (r, b') \<Rightarrow> (Inr r, s\<lparr>runtime := (runtime s)\<lparr>barrier := Some b'\<rparr>\<rparr>))"

definition route_or_collapse_at_barrier ::
  "('d, 't, 'm) trav_env \<Rightarrow> string \<Rightarrow> branch_cursor \<Rightarrow> (('d, 't, 'm) traverser, bool) prog" where
  "route_or_collapse_at_barrier T base_stream_id c s =
     (case barrier (runtime s) of
        Some b \<Rightarrow>
          (if 1 < expected_parallel s \<and> is_join_point b (bc_node c) then
             bindp (arrive_at_barrier c (expected_parallel s) b) (\<lambda>(all_arrived, ready_cursors).
               if all_arrived then
                 bindp (modify (fold (\<lambda>rc. drop_active (bc_stream rc)) ready_cursors)) (\<lambda>_.
                 bindp (choose_winner T ready_cursors) (\<lambda>w.
                 bindp (on_rt (collapse_and_merge (t_rt T) ready_cursors w base_stream_id)) (\<lambda>merged.
                 bindp (modify (\<lambda>s. note_visit merged ''(MERGED)'' (set_active merged s))) (\<lambda>_.
                 bindp (modify (\<lambda>s. s\<lparr>run_queue := run_queue s @ [merged]\<rparr>)) (\<lambda>_. ret True)))))
               else ret False) s
           else (Inr False, s\<lparr>run_queue := run_queue s @ [c]\<rparr>))
      | None \<Rightarrow> (Inr False, s\<lparr>run_queue := run_queue s @ [c]\<rparr>))"

definition route :: "('d, 't, 'm) trav_env \<Rightarrow> string \<Rightarrow> branch_cursor \<Rightarrow> (('d, 't, 'm) traverser, unit) prog" where
  "route T base_stream_id c =
     bindp (route_or_collapse_at_barrier T base_stream_id c) (\<lambda>collapsed.
       if collapsed then modify (\<lambda>s. s\<lparr>collapses := collapses s + 1, expected_parallel := 1\<rparr>) else ret ())"

definition exc_text :: "prims \<Rightarrow> exc \<Rightarrow> string" where
  "exc_text P e = (if kind_of_exc e = KeyErr then p_repr P (PStr (msg_of_exc e)) else msg_of_exc e)"

definition fallback_fuel :: "string \<Rightarrow> branch_cursor \<Rightarrow> int" where
  "fallback_fuel error_reason c =
     (if contains error_reason ''Exhausted fuel'' \<or> contains error_reason ''FuelExhausted'' then 0 else bc_fuel c)"

definition transition_via_fallback ::
  "('d, 't, 'm) rt_env \<Rightarrow> branch_cursor \<Rightarrow> pydict \<Rightarrow> string \<Rightarrow> string \<Rightarrow> (('d, 't, 'm) controller, branch_cursor) prog" where
  "transition_via_fallback R c node_spec fb_target error_reason =
     bindp (resolve_target R c fb_target node_spec) (\<lambda>(next_blob, next_node, rule_kind, next_stack).
       (let fb_meta = dset ''_score'' (dget_or (bc_meta c) ''_score'' (PFloat (Fin 0)))
                        (dset ''_fallback_error'' (PStr error_reason) (bc_meta c));
            draft = c\<lparr>bc_blob := next_blob, bc_node := next_node, bc_fuel := fallback_fuel error_reason c, bc_meta := fb_meta,
                      bc_stack := next_stack, bc_tick := bc_tick c + 1\<rparr>
        in bindp (commit_transition R [c] [draft] (status_of draft) (bc_stream c)
             [(''stream_id'', PStr (bc_stream c)), (''from'', PStr (bc_node c)), (''to'', PStr next_node),
              (''kind'', PStr (''FALLBACK_'' @ rule_kind))]) (\<lambda>res. lift_res (single res))))"

section \<open>One tick\<close>

fun place_children :: "('d, 't, 'm) trav_env \<Rightarrow> string \<Rightarrow> branch_cursor list \<Rightarrow> (('d, 't, 'm) traverser, unit) prog" where
  "place_children T base_stream_id [] = ret ()"
| "place_children T base_stream_id (child # cs) =
     bindp (modify (\<lambda>s. note_visit child ''(FORK)'' (set_active child s))) (\<lambda>_.
     bindp (route T base_stream_id child) (\<lambda>_. place_children T base_stream_id cs))"

definition park :: "branch_cursor \<Rightarrow> ('d, 't, 'm) traverser \<Rightarrow> ('d, 't, 'm) traverser" where
  "park c s =
     (note_visit c ''(HITL_PARKED)'' (drop_active (bc_stream c) (s\<lparr>parked := dset (bc_stream c) c (parked s)\<rparr>)))
       \<lparr>last_completed := c\<rparr>"

text \<open>The body of the try block: None when it ends with \<open>continue\<close>.\<close>

definition fan_out ::
  "('d, 't, 'm) trav_env \<Rightarrow> string \<Rightarrow> (string \<times> pydict) list \<Rightarrow> pyfloat list \<Rightarrow> pydict \<Rightarrow> int \<Rightarrow> (('d, 't, 'm) traverser, unit) prog" where
  "fan_out T base_stream_id fanout_targets fuel_ratios offload_data step_cost s =
     (let c = cursor s in
      bindp (modify (drop_active (bc_stream c))) (\<lambda>_.
      bindp (on_rt (runtime_fork (t_rt T) c fanout_targets fuel_ratios step_cost offload_data)) (\<lambda>forked.
      bindp (modify (\<lambda>s. s\<lparr>expected_parallel := int (length forked)\<rparr>)) (\<lambda>_.
        place_children T base_stream_id forked))) s)"

definition try_body ::
  "('d, 't, 'm) trav_env \<Rightarrow> string \<Rightarrow> pydict \<Rightarrow> pydict \<Rightarrow> (('d, 't, 'm) traverser, branch_cursor option) prog" where
  "try_body T base_stream_id node_spec task_io s0 =
     (let c = cursor s0 in
      bindp (on_rt (node_executor T c node_spec task_io)) (\<lambda>(meta_updates, offload_data, step_cost).
        (let merged_meta = dmerge (bc_meta c) meta_updates in
         if truthy (dget_or merged_meta ''_hitl_yield'' PNone)
         then bindp (modify (park (c\<lparr>bc_meta := merged_meta\<rparr>))) (\<lambda>_. ret None)
         else
           (case detect_fanout_and_ratios (env_prims (t_rt T)) node_spec merged_meta of
              (found, meta) \<Rightarrow>
                bindp (modify (\<lambda>s. s\<lparr>cursor := c\<lparr>bc_meta := meta\<rparr>\<rparr>)) (\<lambda>_.
                bindp (lift_res found) (\<lambda>(fanout_targets, fuel_ratios).
                  if 2 \<le> length fanout_targets
                  then bindp (fan_out T base_stream_id fanout_targets fuel_ratios offload_data step_cost) (\<lambda>_. ret None)
                  else bindp (on_rt (runtime_step (t_rt T) (c\<lparr>bc_meta := meta\<rparr>) step_cost meta_updates offload_data))
                         (\<lambda>nc. ret (Some nc))))))) s0)"

text \<open>The handler: permission errors and nodes without a fallback edge raise again.\<close>

definition handle_fault ::
  "('d, 't, 'm) trav_env \<Rightarrow> pydict \<Rightarrow> exc \<Rightarrow> (('d, 't, 'm) traverser, branch_cursor) prog" where
  "handle_fault T node_spec e s =
     (let fb = dget_or node_spec K_FALLBACK PNone in
      if \<not> truthy fb \<or> kind_of_exc e = PermissionErr then (Inl e, s)
      else case fb of
             PStr fb_target \<Rightarrow>
               bindp (on_rt (transition_via_fallback (t_rt T) (cursor s) node_spec fb_target (exc_text (env_prims (t_rt T)) e))) (\<lambda>nc.
               bindp (modify (note_visit nc ''(FALLBACK)'')) (\<lambda>_. ret nc)) s
           | _ \<Rightarrow> (Inl (Exc AttributeErr ''startswith''), s))"

definition place_next :: "('d, 't, 'm) trav_env \<Rightarrow> string \<Rightarrow> branch_cursor \<Rightarrow> (('d, 't, 'm) traverser, unit) prog" where
  "place_next T base_stream_id nc =
     bindp (modify (set_active nc)) (\<lambda>_.
       if is_terminated nc then modify (finish_cursor nc) else route T base_stream_id nc)"

definition tick ::
  "('d, 't, 'm) trav_env \<Rightarrow> string \<Rightarrow> branch_cursor \<Rightarrow> (('d, 't, 'm) traverser, unit) prog" where
  "tick T base_stream_id c =
     bindp (modify (\<lambda>s. s\<lparr>cursor := c\<rparr>)) (\<lambda>_.
     bindp (on_rt (get_node_spec (t_rt T) c)) (\<lambda>node_spec.
     bindp (on_rt (resolve_task_io (t_rt T) node_spec)) (\<lambda>task_io s.
       case try_body T base_stream_id node_spec task_io s of
         (Inr None, s') \<Rightarrow> (Inr (), s')
       | (Inr (Some nc), s') \<Rightarrow> bindp (modify (note_visit nc [])) (\<lambda>_. place_next T base_stream_id nc) s'
       | (Inl e, s') \<Rightarrow> bindp (handle_fault T node_spec e) (place_next T base_stream_id) s')))"

section \<open>The loop\<close>

lemma finish_cursor_queue [simp]: "run_queue (finish_cursor c s) = run_queue s"
  by (simp add: finish_cursor_def drop_active_def)

function drive_loop :: "('d, 't, 'm) trav_env \<Rightarrow> string \<Rightarrow> nat \<Rightarrow> (('d, 't, 'm) traverser, nat) prog" where
  "drive_loop T base_stream_id n s =
     (case run_queue s of
        [] \<Rightarrow> (Inr n, s)
      | c # q \<Rightarrow>
          if max_ticks T \<le> int n then (Inr n, s)
          else if is_terminated c then drive_loop T base_stream_id n (finish_cursor c (s\<lparr>run_queue := q, cursor := c\<rparr>))
          else (case tick T base_stream_id c (s\<lparr>run_queue := q\<rparr>) of
                  (Inl e, s') \<Rightarrow> (Inl e, s')
                | (Inr _, s') \<Rightarrow> drive_loop T base_stream_id (n + 1) s'))"
  by pat_completeness auto

termination
  by (relation "measures [\<lambda>(T, b, n, s). nat (max_ticks T - int n), \<lambda>(T, b, n, s). length (run_queue s)]")
    auto

declare drive_loop.simps [simp del]

text \<open>Before the loop every initial cursor passes the barrier; after it parked runs keep the waiting branches, others merge what is left.\<close>

fun route_all :: "('d, 't, 'm) trav_env \<Rightarrow> string \<Rightarrow> branch_cursor list \<Rightarrow> (('d, 't, 'm) traverser, unit) prog" where
  "route_all T base_stream_id [] = ret ()"
| "route_all T base_stream_id (c # cs) = bindp (route T base_stream_id c) (\<lambda>_. route_all T base_stream_id cs)"

definition park_sibling :: "branch_cursor \<Rightarrow> ('d, 't, 'm) traverser \<Rightarrow> ('d, 't, 'm) traverser" where
  "park_sibling w s = drop_active (bc_stream w)
     (if dhas (parked s) (bc_stream w) then s else s\<lparr>parked := dset (bc_stream w) w (parked s)\<rparr>)"

definition park_waiting :: "('d, 't, 'm) traverser \<Rightarrow> ('d, 't, 'm) traverser" where
  "park_waiting s =
     (case barrier (runtime s) of
        None \<Rightarrow> s
      | Some b \<Rightarrow>
          if parked s = [] then s
          else (case drain_waiting None b of (ws, b') \<Rightarrow>
                  fold park_sibling ws (s\<lparr>runtime := (runtime s)\<lparr>barrier := Some b'\<rparr>\<rparr>)))"

definition unmerged_pool :: "('d, 't, 'm) traverser \<Rightarrow> branch_cursor list" where
  "unmerged_pool s = (if active_cursors s = [] then completed_terminals s else dvalues (active_cursors s))"

definition final_sweep :: "('d, 't, 'm) trav_env \<Rightarrow> string \<Rightarrow> (('d, 't, 'm) traverser, unit) prog" where
  "final_sweep T base_stream_id s =
     (if parked s = [] \<and> 2 \<le> length (unmerged_pool s) then
        bindp (choose_winner T (unmerged_pool s)) (\<lambda>w.
        bindp (on_rt (collapse_and_merge (t_rt T) (unmerged_pool s) w base_stream_id)) (\<lambda>m.
          modify (\<lambda>s. (note_visit m ''(FINAL_COLLAPSE)'' s)
            \<lparr>last_completed := m, collapses := collapses s + 1, active_cursors := []\<rparr>))) s
      else (Inr (), s))"

definition mk_result :: "string \<Rightarrow> nat \<Rightarrow> ('d, 't, 'm) traverser \<Rightarrow> traversal_result" where
  "mk_result rh n s =
     \<lparr>final_cursor = last_completed s, tr_root_hash = rh, total_ticks = n, reclaimed_fuel = bc_fuel (last_completed s),
      visited_history = history s, parked_cursors = dvalues (parked s), join_collapses = collapses s\<rparr>"

definition start_queue ::
  "branch_cursor list \<Rightarrow> bool \<Rightarrow> ('d, 't, 'm) traverser \<Rightarrow> ('d, 't, 'm) traverser" where
  "start_queue cs is_resumed s =
     s\<lparr>active_cursors := foldl (\<lambda>d c. dset (bc_stream c) c d) [] cs, parked := [], run_queue := [], completed_terminals := [],
       history := map (\<lambda>c. visit_tag c (if is_resumed then ''(RESUMED)'' else [])) cs, collapses := 0,
       expected_parallel := int (length cs), last_completed := hd cs\<rparr>"

definition drive_queue ::
  "('d, 't, 'm) trav_env \<Rightarrow> branch_cursor list \<Rightarrow> string \<Rightarrow> string \<Rightarrow> bool \<Rightarrow> (('d, 't, 'm) traverser, traversal_result) prog" where
  "drive_queue T initial_cursors base_stream_id rh is_resumed =
     (if initial_cursors = [] then raise (Exc IndexErr ''list index out of range'')
      else
        bindp (modify (start_queue initial_cursors is_resumed)) (\<lambda>_.
        bindp (route_all T base_stream_id initial_cursors) (\<lambda>_.
        bindp (drive_loop T base_stream_id 0) (\<lambda>n.
        bindp (modify park_waiting) (\<lambda>_.
        bindp (final_sweep T base_stream_id) (\<lambda>_ s. (Inr (mk_result rh n s), s)))))))"

section \<open>Entry points\<close>

definition traverse_bundle ::
  "('d, 't, 'm) trav_env \<Rightarrow> compiled_bundle \<Rightarrow> string \<Rightarrow> int \<Rightarrow> pydict \<Rightarrow> (('d, 't, 'm) traverser, traversal_result) prog" where
  "traverse_bundle T bundle base_stream_id initial_fuel initial_meta =
     bindp (on_rt (mount_bundle_and_spawn (t_rt T) bundle base_stream_id initial_fuel initial_meta)) (\<lambda>genesis.
       drive_queue T [genesis] base_stream_id (root_hash bundle) False)"

text \<open>The compiled modules are cached per process, for the compiler and the runtime alike.\<close>

definition traverser_run ::
  "('d, 't, 'm) trav_env \<Rightarrow> pydantic \<Rightarrow> pydict \<Rightarrow> string \<Rightarrow> int \<Rightarrow> pydict \<Rightarrow> (('d, 't, 'm) traverser, traversal_result) prog" where
  "traverser_run T D asl_schema base_stream_id initial_fuel initial_meta s =
     (case compile_from_asl (env_prims (t_rt T)) D (r_vm (t_rt T)) asl_schema base_stream_id
             \<lparr>byte_limit = MAX_BLOB_BYTES, use_wasm_linker = True, pool = [], module_state = vm_cache (runtime s)\<rparr> of
        (r, fc) \<Rightarrow>
          bindp (lift_res r) (\<lambda>bundle. traverse_bundle T bundle base_stream_id initial_fuel initial_meta)
            (s\<lparr>runtime := (runtime s)\<lparr>vm_cache := module_state fc\<rparr>\<rparr>))"

definition resumed_meta :: "pydict \<Rightarrow> pydict \<Rightarrow> pydict" where
  "resumed_meta resume_meta meta = dmerge (filter (\<lambda>(k, v). k \<noteq> ''_hitl_yield'') meta) resume_meta"

fun restore_all ::
  "('d, 't, 'm) rt_env \<Rightarrow> pydict \<Rightarrow> (branch_cursor + string) list \<Rightarrow> (('d, 't, 'm) controller, branch_cursor list) prog" where
  "restore_all R resume_meta [] = ret []"
| "restore_all R resume_meta (item # items) =
     bindp (case item of Inl c \<Rightarrow> ret c | Inr p \<Rightarrow> restore_cursor R p) (\<lambda>c.
     bindp (restore_all R resume_meta items) (\<lambda>cs. ret (c\<lparr>bc_meta := resumed_meta resume_meta (bc_meta c)\<rparr> # cs)))"

definition root_of_cursor :: "branch_cursor \<Rightarrow> string" where
  "root_of_cursor c =
     (case bc_stack c of
        [] \<Rightarrow> bc_blob c
      | frame # _ \<Rightarrow> (case split_once ''#'' frame of Some (b, _) \<Rightarrow> b | None \<Rightarrow> frame))"

definition drain_barrier :: "('d, 't, 'm) controller \<Rightarrow> ('d, 't, 'm) controller" where
  "drain_barrier s = s\<lparr>barrier := map_option (\<lambda>b. snd (drain_waiting None b)) (barrier s)\<rparr>"

definition mount_barrier :: "('d, 't, 'm) rt_env \<Rightarrow> string \<Rightarrow> (('d, 't, 'm) controller, unit) prog" where
  "mount_barrier R blob_hash s =
     (if barrier s = None then bindp (load_blob R blob_hash) (set_barrier R) s else (Inr (), s))"

definition traverser_resume ::
  "('d, 't, 'm) trav_env \<Rightarrow> (branch_cursor + string) list \<Rightarrow> string \<Rightarrow> pydict \<Rightarrow> (('d, 't, 'm) traverser, traversal_result) prog" where
  "traverser_resume T targets base_stream_id resume_meta =
     (if targets = [] then raise (Exc ValueErr ''resume() requires at least one BranchCursor or PTA pointer/stream ID.'')
      else
        bindp (on_rt (modify drain_barrier)) (\<lambda>_.
        bindp (on_rt (restore_all (t_rt T) resume_meta targets)) (\<lambda>restored.
          (let rh = root_of_cursor (hd restored) in
           bindp (on_rt (mount_barrier (t_rt T) rh)) (\<lambda>_.
             drive_queue T restored base_stream_id rh True)))))"

definition traverser_exit :: "('d, 't, 'm) trav_env \<Rightarrow> ('d, 't, 'm) traverser \<Rightarrow> ('d, 't, 'm) traverser" where
  "traverser_exit T s =
     (let dangling = map snd (filter (\<lambda>(sid, c). \<not> is_terminated c \<and> \<not> dhas (parked s) sid) (active_cursors s)) in
      if 2 \<le> length dangling then
        (case bindp (choose_winner T dangling) (\<lambda>w.
                on_rt (collapse_and_merge (t_rt T) dangling w (bc_stream (hd dangling) @ ''_reclaimed''))) s of
           (Inr r, s') \<Rightarrow> s'\<lparr>active_cursors := [(bc_stream r, r)]\<rparr>
         | (Inl e, s') \<Rightarrow> s')
      else s)"

section \<open>The loop is bounded\<close>

lemma drive_loop_ends:
  "drive_loop T b n s = (Inr m, s') \<Longrightarrow> int n \<le> max 0 (max_ticks T) \<Longrightarrow>
     n \<le> m \<and> int m \<le> max 0 (max_ticks T) \<and> (run_queue s' = [] \<or> max_ticks T \<le> int m)"
proof (induction T b n s arbitrary: m s' rule: drive_loop.induct)
  case (1 T b n s)
  show ?case
  proof (cases "run_queue s")
    case Nil
    with 1 show ?thesis by (simp add: drive_loop.simps)
  next
    case (Cons c q)
    show ?thesis
    proof (cases "max_ticks T \<le> int n")
      case True
      with 1 Cons show ?thesis by (simp add: drive_loop.simps [of T b n s])
    next
      case lim: False
      show ?thesis
      proof (cases "is_terminated c")
        case True
        with 1 Cons lim show ?thesis by (simp add: drive_loop.simps [of T b n s])
      next
        case False
        with 1(3) Cons lim obtain s1 where t: "tick T b c (s\<lparr>run_queue := q\<rparr>) = (Inr (), s1)"
            "drive_loop T b (n + 1) s1 = (Inr m, s')"
          by (auto simp: drive_loop.simps [of T b n s] split: prod.splits sum.splits)
        from 1(2) [OF Cons lim False t(1) [symmetric] refl t(2)] lim show ?thesis by simp
      qed
    qed
  qed
qed

lemma final_sweep_frame:
  "final_sweep T b s = (r, s') \<Longrightarrow> run_queue s' = run_queue s \<and> parked s' = parked s \<and>
     (parked s \<noteq> [] \<longrightarrow> s' = s)"
  by (auto simp: final_sweep_def bindp_def choose_winner_def lift_res_def on_rt_def modify_def note_visit_def
      split: if_splits prod.splits sum.splits)

lemma park_siblings:
  "run_queue (fold park_sibling ws s) = run_queue s" "runtime (fold park_sibling ws s) = runtime s"
  "dhas (parked (fold park_sibling ws s)) k \<longleftrightarrow> dhas (parked s) k \<or> k \<in> bc_stream ` set ws"
  "dhas (active_cursors (fold park_sibling ws s)) k \<longleftrightarrow> dhas (active_cursors s) k \<and> k \<notin> bc_stream ` set ws"
  "parked s \<noteq> [] \<Longrightarrow> parked (fold park_sibling ws s) \<noteq> []"
  by (induction ws arbitrary: s) (auto simp: park_sibling_def drop_active_def dhas_def)

lemma park_waiting_queue: "run_queue (park_waiting s) = run_queue s"
  by (simp add: park_waiting_def drain_waiting_def park_siblings split: option.split)

lemma drive_queue_Inr:
  assumes "drive_queue T cs b h res s = (Inr r, s')"
  obtains s0 s1 n s2 where "cs \<noteq> []" "route_all T b cs (start_queue cs res s) = (Inr (), s0)"
    "drive_loop T b 0 s0 = (Inr n, s1)" "final_sweep T b (park_waiting s1) = (Inr (), s')" "r = mk_result h n s'"
  using assms by (auto simp: drive_queue_def raise_def bindp_eq_Inr modify_def split: if_splits)

text \<open>
  C5. Driving a queue always ends, and within the tick limit: whatever the executor, the arbiter and
  the graph do, the traversal executes at most max_ticks nodes, and if it returns with branches
  still queued it used up the limit.
\<close>

theorem traversal_bounded:
  assumes "drive_queue T cs b h res s = (Inr r, s')"
  shows "int (total_ticks r) \<le> max 0 (max_ticks T) \<and>
    (run_queue s' \<noteq> [] \<longrightarrow> max_ticks T \<le> int (total_ticks r)) \<and>
    reclaimed_fuel r = bc_fuel (final_cursor r)"
proof -
  obtain s0 s1 n where l: "drive_loop T b 0 s0 = (Inr n, s1)" "final_sweep T b (park_waiting s1) = (Inr (), s')" "r = mk_result h n s'"
    using assms by (rule drive_queue_Inr)
  from final_sweep_frame [OF l(2)] have "run_queue s' = run_queue s1" by (simp add: park_waiting_queue)
  with drive_loop_ends [OF l(1)] l(3) show ?thesis by (auto simp: mk_result_def)
qed

section \<open>Parked runs\<close>

lemma park_waiting_parked: "parked (park_waiting s) = [] \<longleftrightarrow> parked s = []"
  by (simp add: park_waiting_def drain_waiting_def park_siblings split: option.split)

definition waiting_cursors :: "('d, 't, 'm) traverser \<Rightarrow> branch_cursor list" where
  "waiting_cursors s = (case barrier (runtime s) of None \<Rightarrow> [] | Some b \<Rightarrow> concat (dvalues (waiting b)))"

lemma park_waiting_collects:
  assumes "parked s \<noteq> []"
  shows "waiting_cursors (park_waiting s) = []"
    and "dhas (parked (park_waiting s)) k \<longleftrightarrow> dhas (parked s) k \<or> k \<in> bc_stream ` set (waiting_cursors s)"
    and "k \<in> bc_stream ` set (waiting_cursors s) \<Longrightarrow> \<not> dhas (active_cursors (park_waiting s)) k"
proof -
  have empty: "concat (dvalues (map (\<lambda>(n, _). (n, [])) w)) = []" for w :: "(string, branch_cursor list) dict"
    by (simp add: dvalues_def comp_def case_prod_unfold)
  show "waiting_cursors (park_waiting s) = []"
    "dhas (parked (park_waiting s)) k \<longleftrightarrow> dhas (parked s) k \<or> k \<in> bc_stream ` set (waiting_cursors s)"
    "k \<in> bc_stream ` set (waiting_cursors s) \<Longrightarrow> \<not> dhas (active_cursors (park_waiting s)) k"
    using assms
    by (cases "barrier (runtime s)"; simp add: park_waiting_def waiting_cursors_def drain_waiting_def park_siblings empty del: set_concat)+
qed


section \<open>Resuming\<close>

lemma dget_filter_key: "dget (filter (\<lambda>(k, v). k \<noteq> x) d) k = (if k = x then None else dget d k)"
  by (induction d) auto

lemma resumed_meta_get:
  "dget (resumed_meta rm m) k = (case dget (rev rm) k of Some v \<Rightarrow> Some v | None \<Rightarrow> if k = ''_hitl_yield'' then None else dget m k)"
  by (simp add: resumed_meta_def dget_dmerge dget_filter_key split: option.split)

lemma restore_all_Inr:
  "restore_all R rm items s = (Inr cs, s') \<Longrightarrow>
     list_all2 (\<lambda>item c. \<exists>c0 t t'. (case item of Inl d \<Rightarrow> c0 = d | Inr p \<Rightarrow> restore_cursor R p t = (Inr c0, t')) \<and>
       c = c0\<lparr>bc_meta := resumed_meta rm (bc_meta c0)\<rparr>) items cs"
proof (induction items arbitrary: s cs)
  case (Cons item items)
  then obtain c0 t ds where c: "(case item of Inl c \<Rightarrow> ret c | Inr p \<Rightarrow> restore_cursor R p) s = (Inr c0, t)"
      "restore_all R rm items t = (Inr ds, s')" "cs = c0\<lparr>bc_meta := resumed_meta rm (bc_meta c0)\<rparr> # ds"
    by (auto simp: bindp_eq_Inr ret_def)
  from c(1) have "\<exists>c1 t t'. (case item of Inl d \<Rightarrow> c1 = d | Inr p \<Rightarrow> restore_cursor R p t = (Inr c1, t')) \<and>
      c0\<lparr>bc_meta := resumed_meta rm (bc_meta c0)\<rparr> = c1\<lparr>bc_meta := resumed_meta rm (bc_meta c1)\<rparr>"
    by (cases item) (auto simp: ret_def)
  with Cons.IH [OF c(2)] c(3) show ?case by simp
qed (simp add: ret_def)

text \<open>
  Resuming gives every branch back as it was parked, without its stale yield flag: each restored
  cursor differs from the parked (or rebuilt) one in its meta data only, the flag is gone unless
  the caller sets it again, the caller's entries win and every other entry is kept.
\<close>

theorem resume_clears_yield:
  assumes "restore_all R rm items s = (Inr cs, s')" "i < length items" "items ! i = Inl c"
  shows "length cs = length items \<and> cs ! i = c\<lparr>bc_meta := bc_meta (cs ! i)\<rparr> \<and>
    (\<forall>k. dget (bc_meta (cs ! i)) k = (case dget (rev rm) k of Some v \<Rightarrow> Some v
       | None \<Rightarrow> if k = ''_hitl_yield'' then None else dget (bc_meta c) k))"
  using restore_all_Inr [OF assms(1)] assms(2,3)
  by (auto simp: list_all2_conv_all_nth resumed_meta_get split: option.split)

section \<open>Faults\<close>

lemma contains_infix: "contains (a @ b) p \<Longrightarrow> contains (x @ a @ b) p"
proof (induction x)
  case (Cons c x)
  then show ?case by (cases p) auto
qed simp

lemma exhausted_text: "contains (msg_of_exc (exhausted c cost)) ''Exhausted fuel''"
proof -
  have "msg_of_exc (exhausted c cost) =
      (''[Runtime:'' @ bc_stream c @ ''] '') @ ''Exhausted fuel'' @ ('' ('' @ show_int (bc_fuel c) @ '' < '' @ show_int cost @ '')'')"
    by (simp add: exhausted_def)
  then show ?thesis by (simp only: contains_append)
qed

lemma transition_via_fallback_Inr:
  assumes "transition_via_fallback R c spec fb reason s = (Inr nc, s')"
  shows "bc_fuel nc = fallback_fuel reason c \<and> bc_stream nc = bc_stream c \<and> bc_tick nc = bc_tick c + 1 \<and>
    dget (bc_meta nc) ''_fallback_error'' = Some (PStr reason)"
proof -
  from assms obtain d st sid m t ds where ct: "commit_transition R [c] [d] st sid m t = (Inr ds, s')" "single ds = Inr nc"
      "bc_fuel d = fallback_fuel reason c" "bc_stream d = bc_stream c" "bc_tick d = bc_tick c + 1"
      "dget (bc_meta d) ''_fallback_error'' = Some (PStr reason)"
    by (auto simp: transition_via_fallback_def Let_def bindp_eq_Inr lift_res_def)
  with commit_transition_Inr [OF ct(1)] show ?thesis by auto
qed

text \<open>
  The handler of a failed node never hides a refusal: it raises the exception again for a
  permission error or a node without fallback. Otherwise the branch it returns goes on one tick
  later, on its own stream, with the reason recorded; with no fuel when it ran out of fuel, with
  all its fuel when it failed for another reason.
\<close>

theorem fault_handling:
  assumes "handle_fault T spec e s = (r, s')"
  shows "case r of
      Inr nc \<Rightarrow> truthy (dget_or spec K_FALLBACK PNone) \<and> kind_of_exc e \<noteq> PermissionErr \<and>
        bc_stream nc = bc_stream (cursor s) \<and> bc_tick nc = bc_tick (cursor s) + 1 \<and>
        dget (bc_meta nc) ''_fallback_error'' = Some (PStr (exc_text (env_prims (t_rt T)) e)) \<and>
        bc_fuel nc \<in> {0, bc_fuel (cursor s)} \<and> (\<forall>c cost. e = exhausted c cost \<longrightarrow> bc_fuel nc = 0)
    | Inl e' \<Rightarrow> truthy (dget_or spec K_FALLBACK PNone) \<and> kind_of_exc e \<noteq> PermissionErr \<or> e' = e"
proof (cases r)
  case (Inl e')
  with assms show ?thesis by (auto simp: handle_fault_def Let_def split: if_splits)
next
  case (Inr nc)
  with assms have "\<not> (\<not> truthy (dget_or spec K_FALLBACK PNone) \<or> kind_of_exc e = PermissionErr)"
    by (auto simp: handle_fault_def Let_def split: if_splits)
  moreover from this Inr assms obtain fb rs rs' where
      "transition_via_fallback (t_rt T) (cursor s) spec fb (exc_text (env_prims (t_rt T)) e) rs = (Inr nc, rs')"
    by (auto simp: handle_fault_def Let_def bindp_eq_Inr on_rt_def modify_def ret_def split: pyval.splits prod.splits)
  from transition_via_fallback_Inr [OF this] have "bc_fuel nc = fallback_fuel (exc_text (env_prims (t_rt T)) e) (cursor s)"
      "bc_stream nc = bc_stream (cursor s) \<and> bc_tick nc = bc_tick (cursor s) + 1"
      "dget (bc_meta nc) ''_fallback_error'' = Some (PStr (exc_text (env_prims (t_rt T)) e))" by simp_all
  moreover have "bc_fuel nc = 0" if "e = exhausted c cost" for c cost
    using calculation exhausted_text [of c cost] that
    by (simp add: fallback_fuel_def exc_text_def) (simp add: exhausted_def)
  ultimately show ?thesis using Inr by (auto simp: fallback_fuel_def)
qed

section \<open>The arbiter\<close>

definition first_max :: "(pyfloat \<times> int) list \<Rightarrow> nat \<Rightarrow> bool" where
  "first_max xs m \<longleftrightarrow> m < length xs \<and> (\<forall>k \<in> set xs. \<not> key_less (xs ! m) k) \<and> (\<forall>j < m. key_less (xs ! j) (xs ! m))"

definition number :: "pyfloat \<times> int \<Rightarrow> bool" where
  "number k \<longleftrightarrow> fst k \<noteq> NaN"

lemma key_less_irrefl: "\<not> key_less x x"
  by (cases "fst x") (auto simp: key_less_def float_eq_def)

lemma key_less_order:
  assumes "number x" "number y" "number z"
  shows "key_less x y \<Longrightarrow> key_less y z \<Longrightarrow> key_less x z" "key_less x y \<or> key_less y x \<or> x = y"
proof -
  obtain a b c d e f where [simp]: "x = (a, b)" "y = (c, d)" "z = (e, f)" by (metis surj_pair)
  show "key_less x y \<Longrightarrow> key_less y z \<Longrightarrow> key_less x z" "key_less x y \<or> key_less y x \<or> x = y"
    using assms by (cases a; cases c; cases e; auto simp: key_less_def float_eq_def number_def split: if_splits)+
qed

lemma first_max_snoc:
  assumes "first_max ps m" "\<forall>k \<in> set (ps @ [k]). number k"
  shows "first_max (ps @ [k]) (if key_less (ps ! m) k then length ps else m)"
proof (cases "key_less (ps ! m) k")
  case False
  with assms show ?thesis by (auto simp: first_max_def nth_append)
next
  case True
  have mem: "number (ps ! m)" "number k" using assms by (auto simp: first_max_def)
  have "key_less x k" if "x \<in> set ps" for x
  proof -
    have nx: "number x" and "\<not> key_less (ps ! m) x" using assms that by (auto simp: first_max_def)
    then have "key_less x (ps ! m) \<or> x = ps ! m" using key_less_order(2) [OF nx mem(1) mem(1)] by auto
    with True show ?thesis using key_less_order(1) [OF nx mem] by auto
  qed
  moreover have "\<not> key_less k x" if "x \<in> set ps" for x
    using calculation [OF that] key_less_order(1) [of k x k] key_less_irrefl mem(2) assms(2) that by auto
  ultimately show ?thesis using True key_less_irrefl by (auto simp: first_max_def nth_append less_Suc_eq)
qed

lemma max_index_first_max:
  "first_max ps m \<Longrightarrow> bk = ps ! m \<Longrightarrow> \<forall>k \<in> set (ps @ ks). number k \<Longrightarrow>
     first_max (ps @ ks) (max_index key_less m bk (length ps) ks)"
proof (induction ks arbitrary: ps m bk)
  case (Cons k ks)
  have m: "m < length ps" using Cons.prems(1) by (simp add: first_max_def)
  have "first_max (ps @ [k]) (if key_less bk k then length ps else m)"
    using first_max_snoc [OF Cons.prems(1), of k] Cons.prems(2,3) by simp
  from Cons.IH [OF this, of "if key_less bk k then k else bk"] Cons.prems m show ?case
    by (auto simp: nth_append split: if_splits)
qed simp

text \<open>
  The default arbiter picks a winner: for any branches whose scores are numbers (none a NaN) it
  returns the index of the first branch with the highest score, fuel deciding ties, and with no
  branches it raises.
\<close>

theorem default_arbiter_first_max:
  assumes "map_res (arbiter_key P) cs = Inr keys" "\<forall>k \<in> set keys. fst k \<noteq> NaN"
  shows "if cs = [] then kind_of_exc (projl (default_arbiter P cs)) = ValueErr
    else \<exists>w. default_arbiter P cs = Inr (int w) \<and> w < length cs \<and>
      (\<forall>i < length cs. \<not> key_less (keys ! w) (keys ! i)) \<and> (\<forall>i < w. key_less (keys ! i) (keys ! w))"
proof (cases keys)
  case Nil
  with assms(1) map_res_length [OF assms(1)] show ?thesis by (simp add: default_arbiter_def)
next
  case (Cons k ks)
  have "first_max [k] 0" using key_less_irrefl by (simp add: first_max_def)
  from max_index_first_max [OF this, of k ks] assms(2) Cons
  have "first_max keys (max_index key_less 0 k 1 ks)" by (simp add: number_def)
  moreover have "default_arbiter P cs = Inr (int (max_index key_less 0 k 1 ks))" "length cs = length keys"
    using assms(1) map_res_length [OF assms(1)] Cons by (simp_all add: default_arbiter_def)
  ultimately obtain w where "first_max keys w" "default_arbiter P cs = Inr (int w)" "length cs = length keys" by blast
  moreover from this have "\<forall>i < length cs. \<not> key_less (keys ! w) (keys ! i)" by (simp add: first_max_def)
  moreover have "cs \<noteq> []" using Cons calculation by auto
  ultimately show ?thesis by (auto simp: first_max_def)
qed

section \<open>A linear run completes\<close>

lemma runtime_step_Inr:
  assumes "runtime_step R c cost mu off s = (Inr nc, s')"
  shows "bc_stream nc = bc_stream c"
proof (cases "is_terminated c")
  case True
  with assms show ?thesis by (simp add: runtime_step_def ret_def)
next
  case False
  with assms obtain d st sid m t ds where "commit_transition R [c] [d] st sid m t = (Inr ds, s')" "single ds = Inr nc"
      "bc_stream d = bc_stream c"
    by (auto simp: runtime_step_def Let_def bindp_eq_Inr lift_res_def raise_def split: if_splits)
  with commit_transition_Inr [OF this(1)] show ?thesis by auto
qed

text \<open>What a tick needs of the runtime and the executor to move a branch: one step, no yield, no fan-out.\<close>

definition advances ::
  "('d, 't, 'm) trav_env \<Rightarrow> branch_cursor \<Rightarrow> ('d, 't, 'm) controller \<Rightarrow> branch_cursor \<Rightarrow> ('d, 't, 'm) controller \<Rightarrow> bool" where
  "advances T c s nc s' \<longleftrightarrow> \<not> is_terminated c \<and>
     (\<exists>spec s1 io s2 mu off cost s3 ts rs meta.
        get_node_spec (t_rt T) c s = (Inr spec, s1) \<and> resolve_task_io (t_rt T) spec s1 = (Inr io, s2) \<and>
        node_executor T c spec io s2 = (Inr (mu, off, cost), s3) \<and>
        \<not> truthy (dget_or (dmerge (bc_meta c) mu) ''_hitl_yield'' PNone) \<and>
        detect_fanout_and_ratios (env_prims (t_rt T)) spec (dmerge (bc_meta c) mu) = (Inr (ts, rs), meta) \<and> length ts < 2 \<and>
        runtime_step (t_rt T) (c\<lparr>bc_meta := meta\<rparr>) cost mu off s3 = (Inr nc, s'))"

lemma advances_stream: "advances T c s nc s' \<Longrightarrow> bc_stream nc = bc_stream c"
  by (auto simp: advances_def dest!: runtime_step_Inr)

lemma tick_advances:
  assumes "advances T c (runtime s) nc rs'"
  shows "\<exists>cur. tick T b c s = place_next T b nc (note_visit nc [] (s\<lparr>cursor := cur, runtime := rs'\<rparr>))"
proof -
  from assms obtain spec s1 io s2 mu off cost s3 ts rs meta where
    a: "get_node_spec (t_rt T) c (runtime s) = (Inr spec, s1)" "resolve_task_io (t_rt T) spec s1 = (Inr io, s2)"
      "node_executor T c spec io s2 = (Inr (mu, off, cost), s3)"
      "\<not> truthy (dget_or (dmerge (bc_meta c) mu) ''_hitl_yield'' PNone)"
      "detect_fanout_and_ratios (env_prims (t_rt T)) spec (dmerge (bc_meta c) mu) = (Inr (ts, rs), meta)" "length ts < 2"
      "runtime_step (t_rt T) (c\<lparr>bc_meta := meta\<rparr>) cost mu off s3 = (Inr nc, rs')"
    by (auto simp: advances_def)
  have "tick T b c s = place_next T b nc (note_visit nc [] (s\<lparr>cursor := c\<lparr>bc_meta := meta\<rparr>, runtime := rs'\<rparr>))"
    using a by (simp add: tick_def try_body_def Let_def bindp_def modify_def on_rt_def lift_res_def ret_def)
  then show ?thesis by blast
qed

lemma drive_loop_done: "run_queue s = [] \<Longrightarrow> drive_loop T b n s = (Inr n, s)"
  by (simp add: drive_loop.simps [of T b n s])

definition downhill ::
  "('d, 't, 'm) trav_env \<Rightarrow> (branch_cursor \<Rightarrow> bool) \<Rightarrow> (('d, 't, 'm) controller \<Rightarrow> bool) \<Rightarrow> (branch_cursor \<Rightarrow> nat) \<Rightarrow> bool" where
  "downhill T G J rk \<longleftrightarrow> (\<forall>c s. G c \<and> J s \<and> \<not> is_terminated c \<longrightarrow>
     (\<exists>nc s'. advances T c s nc s' \<and> (is_terminated nc \<or> G nc \<and> J s' \<and> rk nc < rk c)))"

lemma linear_loop:
  assumes "downhill T G J rk" "G c" "J (runtime s)" "run_queue s = [c]" "expected_parallel s = 1" "\<not> is_terminated c"
    and "active_cursors s = [(bc_stream c, x)]" "int n + int (rk c) < max_ticks T"
  shows "\<exists>m s'. drive_loop T b n s = (Inr m, s') \<and> run_queue s' = [] \<and> n < m \<and> m \<le> n + rk c + 1 \<and>
    is_terminated (last_completed s') \<and> active_cursors s' = [] \<and>
    completed_terminals s' = completed_terminals s @ [last_completed s'] \<and> parked s' = parked s \<and> collapses s' = collapses s \<and>
    bc_stream (last_completed s') = bc_stream c"
  using assms(2-8)
proof (induction "rk c" arbitrary: c s x n rule: less_induct)
  case less
  from assms(1) less.prems obtain nc rs' where adv: "advances T c (runtime s) nc rs'"
    and nc: "is_terminated nc \<or> G nc \<and> J rs' \<and> rk nc < rk c"
    unfolding downhill_def by blast
  have str: "bc_stream nc = bc_stream c" using advances_stream [OF adv] .
  let ?s = "s\<lparr>run_queue := []\<rparr>"
  obtain cur where tk: "tick T b c ?s = place_next T b nc (note_visit nc [] (?s\<lparr>cursor := cur, runtime := rs'\<rparr>))"
    using tick_advances [of T c ?s nc rs' b] adv by auto
  let ?s1 = "set_active nc (note_visit nc [] (?s\<lparr>cursor := cur, runtime := rs'\<rparr>))"
  have act: "active_cursors ?s1 = [(bc_stream nc, nc)]" using less.prems(6) str by (simp add: set_active_def note_visit_def)
  have step: "drive_loop T b n s = (case tick T b c ?s of (Inl e, s') \<Rightarrow> (Inl e, s') | (Inr _, s') \<Rightarrow> drive_loop T b (n + 1) s')"
    using less.prems(3,5,7) by (simp add: drive_loop.simps [of T b n s])
  show ?case
  proof (cases "is_terminated nc")
    case True
    then have "tick T b c ?s = (Inr (), finish_cursor nc ?s1)"
      by (simp add: tk place_next_def bindp_def modify_def)
    moreover have "drive_loop T b (n + 1) (finish_cursor nc ?s1) = (Inr (n + 1), finish_cursor nc ?s1)"
      by (rule drive_loop_done) (simp add: set_active_def note_visit_def)
    ultimately show ?thesis
      using step True act str
      by (simp add: finish_cursor_def drop_active_def) (simp add: set_active_def note_visit_def)
  next
    case False
    let ?s2 = "?s1\<lparr>run_queue := [nc]\<rparr>"
    have "tick T b c ?s = (Inr (), ?s2)"
      using False less.prems(4)
      by (simp add: tk place_next_def bindp_def modify_def route_def route_or_collapse_at_barrier_def set_active_def note_visit_def ret_def
          split: option.split)
    moreover from False nc have g: "G nc" "J rs'" "rk nc < rk c" by simp_all
    moreover have s2: "J (runtime ?s2)" "run_queue ?s2 = [nc]" "expected_parallel ?s2 = 1" "active_cursors ?s2 = [(bc_stream nc, nc)]"
        "completed_terminals ?s2 = completed_terminals s" "parked ?s2 = parked s" "collapses ?s2 = collapses s"
      using g less.prems(4) act by (simp_all add: set_active_def note_visit_def)
    moreover have "int (n + 1) + int (rk nc) < max_ticks T" using g less.prems(7) by simp
    ultimately show ?thesis
      using less.hyps [OF g(3,1) s2(1-3) False s2(4), of "n + 1"] step str by fastforce
  qed
qed

text \<open>
  C6. A run without forks reaches its end: when each tick lets the runtime step the branch and every
  step either ends or lowers a rank, then a traversal of one branch within the tick limit returns,
  its final cursor is at END on the same stream, nothing is left active, queued or parked, and the
  number of ticks is at most the rank plus one.
\<close>

theorem linear_traversal_completes:
  assumes "downhill T G J rk" "G c" "J (runtime s)" "int (rk c) < max_ticks T"
  shows "\<exists>r s'. drive_queue T [c] b h res s = (Inr r, s') \<and> is_terminated (final_cursor r) \<and>
    bc_stream (final_cursor r) = bc_stream c \<and> total_ticks r \<le> rk c + 1 \<and> parked_cursors r = [] \<and>
    join_collapses r = 0 \<and> run_queue s' = [] \<and> active_cursors s' = []"
proof -
  let ?s0 = "start_queue [c] res s"
  let ?s1 = "?s0\<lparr>run_queue := [c]\<rparr>"
  have s1: "route_all T b [c] ?s0 = (Inr (), ?s1)"
    by (simp add: bindp_def route_def route_or_collapse_at_barrier_def start_queue_def ret_def split: option.split)
  have f: "J (runtime ?s1)" "run_queue ?s1 = [c]" "expected_parallel ?s1 = 1" "active_cursors ?s1 = [(bc_stream c, c)]"
      "completed_terminals ?s1 = []" "parked ?s1 = []" "collapses ?s1 = 0"
    using assms(3) by (simp_all add: start_queue_def)
  obtain m s' where l: "drive_loop T b 0 ?s1 = (Inr m, s')" "run_queue s' = []" "m \<le> rk c + 1"
      "is_terminated (last_completed s')" "active_cursors s' = []" "length (completed_terminals s') \<le> 1" "parked s' = []"
      "collapses s' = 0" "bc_stream (last_completed s') = bc_stream c"
  proof (cases "is_terminated c")
    case True
    let ?s2 = "finish_cursor c (?s1\<lparr>run_queue := [], cursor := c\<rparr>)"
    have "drive_loop T b 0 ?s1 = drive_loop T b 0 ?s2"
      using True assms(4) by (simp add: drive_loop.simps [of T b 0 ?s1])
    also have "\<dots> = (Inr 0, ?s2)" by (simp add: drive_loop.simps)
    finally show ?thesis using that [of 0 ?s2] True f by (simp add: finish_cursor_def drop_active_def)
  next
    case False
    from linear_loop [OF assms(1,2) f(1-3) False f(4), of 0 b] assms(4) f(5-7) that show ?thesis by auto
  qed
  have "park_waiting s' = s'" using l(7) by (simp add: park_waiting_def split: option.split)
  moreover have "final_sweep T b s' = (Inr (), s')" using l(5,6) by (simp add: final_sweep_def unmerged_pool_def)
  ultimately have "drive_queue T [c] b h res s = (Inr (mk_result h m s'), s')"
    using s1 l(1) by (simp add: drive_queue_def bindp_def modify_def)
  with l show ?thesis by (auto simp: mk_result_def dvalues_def)
qed

section \<open>Runs\<close>

text \<open>A machine that answers every step with success and no next node, so that the branch ends.\<close>

definition step_codec :: prims where
  "step_codec = sample_codec\<lparr>p_loads := \<lambda>_. Some (PDict [(''success'', PBool True), (''output'', PStr ''o'')])\<rparr>"

definition step_vm :: "unit vm_env" where
  "step_vm = \<lparr>has_wasmtime = True, path_exists = (\<lambda>_. True), from_file = (\<lambda>_. Inr ()), instantiate = (\<lambda>_. Inr True),
     router = (\<lambda>_ _. Inr (Some ''{}''))\<rparr>"

definition sample_trav :: "pydict \<Rightarrow> (unit, unit, unit) trav_env" where
  "sample_trav updates = \<lparr>t_rt = (runtime_env (sample_base\<lparr>h_prims := step_codec\<rparr>))\<lparr>r_vm := step_vm\<rparr>,
     node_executor = (\<lambda>_ _ _. ret (updates, [], 4)), arbiter = default_arbiter step_codec, max_ticks = 5\<rparr>"

definition join_graph :: pydict where
  "join_graph = [(''a'', PDict [(K_TYPE, PStr ''TASK''), (K_NEXT, PList [PStr ''END'', PStr ''j''])]),
     (''b'', PDict [(K_TYPE, PStr ''TASK''), (K_NEXT, PList [PStr ''j''])]),
     (''j'', PDict [(K_TYPE, PStr ''TASK''), (K_NEXT, PList [PStr ''END''])])]"

definition join_blob :: pydict where
  "join_blob = [(K_META, PDict [(K_ENTRY, PStr ''a'')]), (K_GRAPH, PDict join_graph)]"

definition cursor_at :: "string \<Rightarrow> int \<Rightarrow> branch_cursor" where
  "cursor_at n f = sample_cursor\<lparr>bc_node := n, bc_stack := [], bc_fuel := f\<rparr>"

definition sample_traverser :: "(unit, unit, unit) traverser" where
  "sample_traverser =
     \<lparr>runtime = (sample_controller (initialize_consensus_node True False () ()))
        \<lparr>blob_cache := [(''b'', join_blob)], barrier := (case mk_barrier id join_blob of Inr b \<Rightarrow> b | Inl e \<Rightarrow> None)\<rparr>,
      active_cursors = [], parked = [], run_queue = [], completed_terminals = [], history = [], collapses = 0,
      expected_parallel = 1, last_completed = cursor_at ''a'' 10, cursor = cursor_at ''a'' 10\<rparr>"

lemma stranded_evaluates:
  "let r = drive_queue (sample_trav []) [cursor_at ''a'' 10] ''s'' ''b'' False sample_traverser in
   \<not> isl (fst r) \<and> parked_cursors (projr (fst r)) = [] \<and> run_queue (snd r) = [] \<and>
   reclaimed_fuel (projr (fst r)) = 3 \<and> total_ticks (projr (fst r)) = 1 \<and>
   map bc_node (waiting_cursors (snd r)) = [''j''] \<and> map bc_fuel (waiting_cursors (snd r)) = [3]"
  by code_simp

text \<open>
  A sibling that ends early strands the branches that wait for it: there is a run, a fork into
  END and a join node, that returns with nothing queued and nothing parked while a branch with
  half of the fuel is still waiting at the barrier; the final cursor holds the other half only.
\<close>

theorem waiting_branch_stranded:
  "\<exists>r s'. drive_queue (sample_trav []) [cursor_at ''a'' 10] ''s'' ''b'' False sample_traverser = (Inr r, s') \<and>
     parked_cursors r = [] \<and> run_queue s' = [] \<and> map bc_node (waiting_cursors s') = [''j''] \<and>
     map bc_fuel (waiting_cursors s') = [3] \<and> reclaimed_fuel r = 3"
proof -
  obtain r s' where run: "drive_queue (sample_trav []) [cursor_at ''a'' 10] ''s'' ''b'' False sample_traverser = (Inr r, s')"
    using stranded_evaluates unfolding Let_def returns_iff by blast
  show ?thesis using stranded_evaluates by (simp add: run)
qed

theorem traversal_bounded_witness:
  "\<exists>r s'. drive_queue (sample_trav []) [cursor_at ''a'' 10] ''s'' ''b'' False sample_traverser = (Inr r, s') \<and> total_ticks r \<le> 5"
proof -
  obtain r s' where run: "drive_queue (sample_trav []) [cursor_at ''a'' 10] ''s'' ''b'' False sample_traverser = (Inr r, s')"
    using stranded_evaluates unfolding Let_def returns_iff by blast
  from traversal_bounded [OF run] run show ?thesis by (auto simp: sample_trav_def)
qed

lemma parked_evaluates:
  "let T = sample_trav [(''_hitl_yield'', PBool True)]; s = sample_traverser\<lparr>run_queue := [cursor_at ''a'' 10]\<rparr>; r = drive_loop T ''s'' 0 s in
   fst r = Inr 1 \<and> parked (snd r) \<noteq> [] \<and> fst (final_sweep T ''s'' (park_waiting (snd r))) = Inr ()"
  by code_simp


theorem resume_clears_yield_witness:
  "\<exists>cs s'. restore_all (t_rt (sample_trav [])) [(''ok'', PBool True)] [Inl (sample_cursor\<lparr>bc_meta := [(''_hitl_yield'', PBool True)]\<rparr>)]
       (runtime sample_traverser) = (Inr cs, s') \<and> dget (bc_meta (cs ! 0)) ''_hitl_yield'' = None"
proof -
  obtain cs s' where r: "restore_all (t_rt (sample_trav [])) [(''ok'', PBool True)] [Inl (sample_cursor\<lparr>bc_meta := [(''_hitl_yield'', PBool True)]\<rparr>)]
       (runtime sample_traverser) = (Inr cs, s')"
    by (simp add: bindp_def ret_def)
  from resume_clears_yield [OF r, of 0] r show ?thesis by auto
qed

lemma fault_evaluates:
  "\<not> isl (fst (handle_fault (sample_trav []) [(K_FALLBACK, PStr ''b'')] (exhausted (cursor_at ''a'' 2) 4)
      (sample_traverser\<lparr>cursor := cursor_at ''a'' 2\<rparr>)))"
  by code_simp

theorem fault_handling_witness:
  "\<exists>nc s'. handle_fault (sample_trav []) [(K_FALLBACK, PStr ''b'')] (exhausted (cursor_at ''a'' 2) 4)
      (sample_traverser\<lparr>cursor := cursor_at ''a'' 2\<rparr>) = (Inr nc, s') \<and> bc_fuel nc = 0"
proof -
  obtain nc s' where h: "handle_fault (sample_trav []) [(K_FALLBACK, PStr ''b'')] (exhausted (cursor_at ''a'' 2) 4)
      (sample_traverser\<lparr>cursor := cursor_at ''a'' 2\<rparr>) = (Inr nc, s')"
    using fault_evaluates unfolding returns_iff by blast
  from fault_handling [OF h] h show ?thesis by auto
qed

theorem default_arbiter_first_max_witness:
  "default_arbiter step_codec [cursor_at ''a'' 2, (cursor_at ''b'' 1)\<lparr>bc_meta := [(''_score'', PInt 3)]\<rparr>, cursor_at ''c'' 9] = Inr 1 \<and>
   \<not> key_less (Fin 3, 1) (Fin 0, 9)"
proof -
  let ?cs = "[cursor_at ''a'' 2, (cursor_at ''b'' 1)\<lparr>bc_meta := [(''_score'', PInt 3)]\<rparr>, cursor_at ''c'' 9]"
  have k: "map_res (arbiter_key step_codec) ?cs = Inr [(Fin 0, 2), (Fin 3, 1), (Fin 0, 9)]" by code_simp
  have d: "default_arbiter step_codec ?cs = Inr 1" by code_simp
  from default_arbiter_first_max [OF k] d show ?thesis by (auto simp: less_Suc_eq)
qed

lemma linear_step_evaluates:
  "let T = sample_trav []; c = cursor_at ''j'' 10; s = runtime sample_traverser;
       a = get_node_spec (t_rt T) c s; b = resolve_task_io (t_rt T) (projr (fst a)) (snd a);
       d = detect_fanout_and_ratios (env_prims (t_rt T)) (projr (fst a)) (bc_meta c);
       e = runtime_step (t_rt T) (c\<lparr>bc_meta := snd d\<rparr>) 4 [] [] (snd b)
   in \<not> isl (fst a) \<and> \<not> isl (fst b) \<and> fst d = Inr ([], []) \<and> \<not> isl (fst e) \<and> is_terminated (projr (fst e)) \<and>
      \<not> is_terminated c \<and> \<not> truthy (dget_or (bc_meta c) ''_hitl_yield'' PNone)"
  by code_simp

lemma linear_step_advances:
  "\<exists>nc s'. advances (sample_trav []) (cursor_at ''j'' 10) (runtime sample_traverser) nc s' \<and> is_terminated nc"
proof -
  let ?T = "sample_trav []" and ?c = "cursor_at ''j'' 10" and ?s = "runtime sample_traverser"
  obtain spec s1 where a: "get_node_spec (t_rt ?T) ?c ?s = (Inr spec, s1)"
    using linear_step_evaluates unfolding Let_def returns_iff by blast
  obtain io s2 where b: "resolve_task_io (t_rt ?T) spec s1 = (Inr io, s2)"
    using linear_step_evaluates a unfolding Let_def returns_iff by auto
  obtain meta where d: "detect_fanout_and_ratios (env_prims (t_rt ?T)) spec (bc_meta ?c) = (Inr ([], []), meta)"
    using linear_step_evaluates a unfolding Let_def by (metis fst_conv prod.collapse sum.sel(2))
  obtain nc s' where e: "runtime_step (t_rt ?T) (?c\<lparr>bc_meta := meta\<rparr>) 4 [] [] s2 = (Inr nc, s')" "is_terminated nc"
    using linear_step_evaluates a b d unfolding Let_def returns_iff by auto
  have n: "node_executor ?T ?c spec io s2 = (Inr ([], [], 4), s2)" by (simp add: sample_trav_def ret_def)
  have "advances ?T ?c ?s nc s'"
    unfolding advances_def using linear_step_evaluates a b d e n unfolding Let_def by (fastforce simp: dmerge_def)
  with e(2) show ?thesis by blast
qed

theorem linear_traversal_completes_witness:
  "\<exists>r s'. drive_queue (sample_trav []) [cursor_at ''j'' 10] ''s'' ''b'' False sample_traverser = (Inr r, s') \<and>
     is_terminated (final_cursor r) \<and> total_ticks r \<le> 1"
proof -
  have "downhill (sample_trav []) (\<lambda>c. c = cursor_at ''j'' 10) (\<lambda>s. s = runtime sample_traverser) (\<lambda>_. 0)"
    using linear_step_advances by (auto simp: downhill_def)
  from linear_traversal_completes [OF this refl refl, of "''s''" "''b''" False] show ?thesis
    by (auto simp: sample_trav_def)
qed

end
