(* ===== verification/Billing.thy ===== *)
theory Billing
  imports CursorLedger
begin

text \<open>
  Fuel billing, \<^verbatim>\<open>node/rpc/handler/fuel.py\<close>: a tenant's fuel outputs are consumed by an
  optimistic transaction, retried when another task reserved one of the inputs first. What other
  tasks do to the shared adapter while this one sleeps before attempt \<open>n\<close> is the argument
  \<open>b_others\<close>; parameters of a request are read with their defaults.
\<close>

section \<open>Model\<close>

record consume_result =
  cr_status :: string
  cr_tx_hash :: string
  cr_consumed :: int

record ('d, 't) billing_env =
  b_pta :: "('d, 't) pta_env"
  b_pubkey :: string
  b_sign :: "string \<Rightarrow> string"
  b_clock_ms :: "nat \<Rightarrow> int"
  b_req :: string
  b_rounds :: nat
  b_loop :: bool
  b_others :: "nat \<Rightarrow> ('d, 't) pta \<Rightarrow> ('d, 't) pta"

definition MAX_OCC_RETRIES :: nat where
  "MAX_OCC_RETRIES = 4"

abbreviation bill_prims :: "('d, 't) billing_env \<Rightarrow> prims" where
  "bill_prims E \<equiv> h_prims (e_host (b_pta E))"

definition av_pointer :: "available_input \<Rightarrow> pta_ptr" where
  "av_pointer item = \<lparr>ptr_tx_hash = av_tx_hash item, ptr_output_index = av_index item\<rparr>"

definition signed_item :: "('d, 't) billing_env \<Rightarrow> available_input \<Rightarrow> pta_input" where
  "signed_item E item =
     \<lparr>in_pointer = av_pointer item,
      in_signature = sign_state_payload (bill_prims E) (b_sign E) [(''payload'', PStr (to_key (av_pointer item)))],
      owner_address = b_pubkey E\<rparr>"

text \<open>The inner loop: items in order until their amounts reach what is needed.\<close>

fun pick_items :: "int \<Rightarrow> int \<Rightarrow> available_input list \<Rightarrow> available_input list \<times> int" where
  "pick_items need acc [] = ([], acc)"
| "pick_items need acc (item # items) =
     (let acc' = acc + av_amount item in
      if need \<le> acc' then ([item], acc') else (case pick_items need acc' items of (ps, a) \<Rightarrow> (item # ps, a)))"

definition consume_outputs :: "string \<Rightarrow> int \<Rightarrow> int \<Rightarrow> pta_output list" where
  "consume_outputs tenant_id accumulated actual_consume =
     (let change = accumulated - actual_consume in
      (if 0 < change then [plain_output change tenant_id ''fuel''] else []) @
      [plain_output actual_consume ''system_treasury'' ''fuel''])"

definition bill_clock :: "('d, 't) billing_env \<Rightarrow> (('d, 't) pta, int) prog" where
  "bill_clock E p =
     (let st = ledger_store p in
      (Inr (b_clock_ms E (ticks st)), p\<lparr>ledger_store := st\<lparr>ticks := ticks st + 1\<rparr>\<rparr>))"

definition charge ::
  "('d, 't) billing_env \<Rightarrow> string \<Rightarrow> int \<Rightarrow> string \<Rightarrow> string \<Rightarrow> available_input list \<Rightarrow> (('d, 't) pta, string) prog" where
  "charge E tenant_id actual_consume trace_id action_label available_outputs =
     (case pick_items actual_consume 0 available_outputs of (picked, accumulated) \<Rightarrow>
        bindp (bill_clock E) (\<lambda>ts.
          execute_transaction (b_pta E) (b_req E) (b_rounds E) (b_loop E)
            (mk_transaction (bill_prims E) (map (signed_item E) picked) (consume_outputs tenant_id accumulated actual_consume)
              [(''action'', PStr action_label), (''trace_id'', PStr trace_id)] ts)
            (Some (stream_fuel tenant_id))))"

text \<open>\<open>left\<close> attempts remain after this one.\<close>

fun try_consume ::
  "('d, 't) billing_env \<Rightarrow> string \<Rightarrow> int \<Rightarrow> string \<Rightarrow> string \<Rightarrow> nat \<Rightarrow> nat \<Rightarrow> (('d, 't) pta, consume_result) prog" where
  "try_consume E tenant_id consumed_fuel trace_id action_label attempt left p =
     (case get_available_inputs (b_pta E) tenant_id ''fuel'' p of
        (Inl e, p1) \<Rightarrow> (Inl e, p1)
      | (Inr available_outputs, p1) \<Rightarrow>
          (let total_available = sum_list (map av_amount available_outputs) in
           if total_available \<le> 0 then
             (case left of
                Suc n \<Rightarrow> if 0 < attempt
                  then try_consume E tenant_id consumed_fuel trace_id action_label (attempt + 1) n (b_others E attempt p1)
                  else (Inr \<lparr>cr_status = ''SUCCESS'', cr_tx_hash = [], cr_consumed = 0\<rparr>, p1)
              | 0 \<Rightarrow> (Inr \<lparr>cr_status = ''SUCCESS'', cr_tx_hash = [], cr_consumed = 0\<rparr>, p1))
           else
             (let actual_consume = min consumed_fuel total_available in
              case charge E tenant_id actual_consume trace_id action_label available_outputs p1 of
                (Inr txh, p2) \<Rightarrow> (Inr \<lparr>cr_status = ''SUCCESS'', cr_tx_hash = txh, cr_consumed = actual_consume\<rparr>, p2)
              | (Inl e, p2) \<Rightarrow>
                  if kind_of_exc e \<noteq> PermissionErr then (Inl e, p2)
                  else (case left of
                          Suc n \<Rightarrow> if contains (msg_of_exc e) ''Double Spend''
                            then try_consume E tenant_id consumed_fuel trace_id action_label (attempt + 1) n (b_others E attempt p2)
                            else (Inr \<lparr>cr_status = ''DROPPED_CONTENTION'', cr_tx_hash = [], cr_consumed = 0\<rparr>, p2)
                        | 0 \<Rightarrow> (Inr \<lparr>cr_status = ''DROPPED_CONTENTION'', cr_tx_hash = [], cr_consumed = 0\<rparr>, p2)))))"

declare try_consume.simps [simp del]

definition try_consume_with_occ ::
  "('d, 't) billing_env \<Rightarrow> string \<Rightarrow> int \<Rightarrow> string \<Rightarrow> string \<Rightarrow> (('d, 't) pta, consume_result) prog" where
  "try_consume_with_occ E tenant_id consumed_fuel trace_id action_label =
     try_consume E tenant_id consumed_fuel trace_id action_label 0 (MAX_OCC_RETRIES - 1)"

definition execute_direct_fuel_consume ::
  "('d, 't) billing_env \<Rightarrow> string \<Rightarrow> int \<Rightarrow> string \<Rightarrow> ('d, 't) pta \<Rightarrow> ('d, 't) pta" where
  "execute_direct_fuel_consume E tenant_id consumed_fuel trace_id p =
     (if consumed_fuel \<le> 0 \<or> tenant_id \<in> {''anonymous'', ''internal_system'', ''unknown''} then p
      else snd (try_consume_with_occ E tenant_id consumed_fuel trace_id ''direct_consume'' p))"

datatype rpc_reply = RpcError int string | RpcConsumed consume_result

definition handle_fuel_consume ::
  "('d, 't) billing_env \<Rightarrow> string option \<Rightarrow> int \<Rightarrow> string \<Rightarrow> ('d, 't) pta \<Rightarrow> rpc_reply \<times> ('d, 't) pta" where
  "handle_fuel_consume E tenant_id consumed_fuel trace_id p =
     (case tenant_id of
        Some (c # t) \<Rightarrow>
          (if consumed_fuel \<le> 0 then (RpcError 400 ''Invalid consume parameters'', p)
           else (case try_consume_with_occ E (c # t) consumed_fuel trace_id ''queue_consume'' p of
                   (Inr res, p') \<Rightarrow> (RpcConsumed res, p')
                 | (Inl e, p') \<Rightarrow> (RpcError 500 ''Internal fuel consume error'', p')))
      | _ \<Rightarrow> (RpcError 400 ''Invalid consume parameters'', p))"

section \<open>A charge is balanced\<close>

lemma pick_items_prefix:
  "pick_items need acc items = (ps, a) \<Longrightarrow> prefix ps items \<and> a = acc + sum_list (map av_amount ps)"
  by (induction items arbitrary: acc ps a) (fastforce simp: Let_def split: if_splits prod.splits)+

lemma pick_items_enough:
  "pick_items need acc items = (ps, a) \<Longrightarrow> need \<le> acc + sum_list (map av_amount items) \<Longrightarrow> items \<noteq> [] \<Longrightarrow> need \<le> a"
proof (induction items arbitrary: acc ps a)
  case (Cons x xs)
  show ?case
  proof (cases "need \<le> acc + av_amount x")
    case True
    with Cons show ?thesis by (simp add: Let_def)
  next
    case False
    with Cons.prems(2) have "xs \<noteq> []" by auto
    with Cons False show ?thesis by (auto simp: Let_def split: prod.splits)
  qed
qed simp

lemma pick_items_minimal:
  "pick_items need acc items = (ps, a) \<Longrightarrow> acc < need \<Longrightarrow> sum_list (map av_amount (butlast ps)) + acc < need"
proof (induction items arbitrary: acc ps a)
  case (Cons x xs)
  show ?case
  proof (cases "need \<le> acc + av_amount x")
    case True
    with Cons.prems show ?thesis by (auto simp: Let_def)
  next
    case False
    then obtain qs where q: "pick_items need (acc + av_amount x) xs = (qs, a)" "ps = x # qs"
      using Cons.prems by (auto simp: Let_def split: prod.splits)
    from Cons.IH [OF q(1)] False q(2) Cons.prems(2) show ?thesis by (cases qs) auto
  qed
qed simp

text \<open>
  C28. A charge moves fuel and creates none: of the available inputs it consumes a shortest prefix
  that covers the charge, the change and the treasury's part add up to what is consumed, no
  output is negative, and the treasury gets the amount asked for or all there is.
\<close>

theorem charge_balanced:
  assumes "pick_items need 0 items = (picked, accumulated)" "need = min requested (sum_list (map av_amount items))"
    and "0 < requested" "0 < sum_list (map av_amount items)"
  shows "prefix picked items \<and> sum_list (map amount (consume_outputs tenant accumulated need)) = sum_list (map av_amount picked) \<and>
    (\<forall>out \<in> set (consume_outputs tenant accumulated need). 0 < amount out) \<and>
    sum_list (map av_amount (butlast picked)) < need \<and> need \<le> requested \<and>
    last (consume_outputs tenant accumulated need) = plain_output need ''system_treasury'' ''fuel''"
proof -
  note p = pick_items_prefix [OF assms(1)]
  have need: "0 < need" "need \<le> requested" using assms(2-4) by simp_all
  have "items \<noteq> []" using assms(4) by auto
  then have "need \<le> accumulated" using pick_items_enough [OF assms(1)] assms(2) by simp
  moreover have "sum_list (map av_amount (butlast picked)) < need" using pick_items_minimal [OF assms(1)] need by simp
  ultimately show ?thesis using p need by (auto simp: consume_outputs_def Let_def plain_output_def)
qed

theorem charge_balanced_witness:
  "sum_list (map amount (consume_outputs ''t'' 8 6)) = 8"
proof -
  let ?it = "\<lambda>n. \<lparr>av_tx_hash = ''h'', av_index = 0, av_amount = n, av_output = [], av_metadata = PNone\<rparr>"
  have "pick_items 6 0 [?it 5, ?it 3, ?it 4] = ([?it 5, ?it 3], 8)" by simp
  from charge_balanced [OF this, of 6 "''t''"] show ?thesis by simp
qed

section \<open>Retries\<close>

text \<open>The result of the one charge that went through, on the inputs available then.\<close>

definition charged ::
  "('d, 't) billing_env \<Rightarrow> string \<Rightarrow> int \<Rightarrow> string \<Rightarrow> string \<Rightarrow> consume_result \<Rightarrow> ('d, 't) pta \<Rightarrow> bool" where
  "charged E t req tr lb res p' \<longleftrightarrow> (\<exists>p0 items p1. get_available_inputs (b_pta E) t ''fuel'' p0 = (Inr items, p1) \<and>
     0 < sum_list (map av_amount items) \<and> cr_consumed res = min req (sum_list (map av_amount items)) \<and>
     charge E t (cr_consumed res) tr lb items p1 = (Inr (cr_tx_hash res), p'))"

lemma try_consume_cases:
  assumes "try_consume E t req tr lb n left p = (Inr res, p')"
  shows "cr_status res = ''SUCCESS'' \<and> charged E t req tr lb res p' \<or>
    cr_status res \<in> {''SUCCESS'', ''DROPPED_CONTENTION''} \<and> cr_consumed res = 0 \<and> cr_tx_hash res = []"
  using assms
proof (induction E t req tr lb n left p arbitrary: res p' rule: try_consume.induct)
  case (1 E t req tr lb n left p)
  obtain ri p1 where av: "get_available_inputs (b_pta E) t ''fuel'' p = (ri, p1)" by (metis surj_pair)
  from 1(3) av obtain items where ri: "ri = Inr items" by (cases ri) (auto simp: try_consume.simps [of E t])
  let ?tot = "sum_list (map av_amount items)"
  show ?case
  proof (cases "?tot \<le> 0")
    case True
    show ?thesis
    proof (cases left)
      case 0
      with 1(3) av ri True show ?thesis by (auto simp: try_consume.simps [of E t])
    next
      case (Suc m)
      show ?thesis
      proof (cases "0 < n")
        case False
        with 1(3) av ri True Suc show ?thesis by (auto simp: try_consume.simps [of E t])
      next
        case pos: True
        with 1(3) av ri True Suc have "try_consume E t req tr lb (n + 1) m (b_others E n p1) = (Inr res, p')"
          by (simp add: try_consume.simps [of E t _ _ _ n "Suc m" p])
        with 1(1) [OF av [symmetric] ri refl True Suc pos] show ?thesis by blast
      qed
    qed
  next
    case False
    obtain rc p2 where ch: "charge E t (min req ?tot) tr lb items p1 = (rc, p2)" by (metis surj_pair)
    show ?thesis
    proof (cases rc)
      case (Inr txh)
      with 1(3) av ri False ch have "res = \<lparr>cr_status = ''SUCCESS'', cr_tx_hash = txh, cr_consumed = min req ?tot\<rparr>" "p' = p2"
        by (auto simp: try_consume.simps [of E t])
      with Inr ch av ri False show ?thesis
        unfolding charged_def by (intro disjI1 conjI exI [of _ p] exI [of _ items] exI [of _ p1]) simp_all
    next
      case (Inl e)
      with 1(3) av ri False ch have perm: "\<not> kind_of_exc e \<noteq> PermissionErr"
        by (auto simp: try_consume.simps [of E t] split: if_splits)
      show ?thesis
      proof (cases left)
        case 0
        with 1(3) av ri False ch Inl perm show ?thesis by (auto simp: try_consume.simps [of E t])
      next
        case (Suc m)
        show ?thesis
        proof (cases "contains (msg_of_exc e) ''Double Spend''")
          case no: False
          with 1(3) av ri False ch Inl perm Suc show ?thesis by (auto simp: try_consume.simps [of E t])
        next
          case yes: True
          with 1(3) av ri False ch Inl perm Suc have "try_consume E t req tr lb (n + 1) m (b_others E n p2) = (Inr res, p')"
            by (simp add: try_consume.simps [of E t _ _ _ n "Suc m" p] Let_def)
          with 1(2) [OF av [symmetric] ri refl False refl ch [symmetric] Inl perm Suc yes] show ?thesis by blast
        qed
      qed
    qed
  qed
qed


section \<open>Without contention\<close>

text \<open>Between transactions no pointer of the local pool is reserved, and its keys are pointer texts.\<close>

definition pool_free :: "('d, 't) pta \<Rightarrow> bool" where
  "pool_free p \<longleftrightarrow> (\<forall>k \<in> fst ` set (unfold_pool p). k \<notin> spent_mempool p \<and>
     (\<exists>h i. k = h @ '':'' @ show_int i \<and> CHR '':'' \<notin> set h))"

lemma confirmed_input_key:
  "confirmed_input P item = Inr av \<Longrightarrow> to_key (av_pointer av) = confirmed_key P item"
  by (auto simp: confirmed_input_def confirmed_key_def pointer_text_def to_key_def pta_pointer_def av_pointer_def bind_res_Inr)

lemma pool_input_key:
  assumes "pool_input (k, out) = Inr av" "k = h @ '':'' @ show_int i" "CHR '':'' \<notin> set h"
  shows "to_key (av_pointer av) = k"
proof -
  have "CHR '':'' \<notin> set (show_int i)"
    by (rule show_int_fresh) (simp_all add: digit_chars_def)
  then have "split_char CHR '':'' k = [h, show_int i]"
    using split_char_append [OF assms(3), of "show_int i"] by (simp add: assms(2) split_char_fresh)
  with assms(1,2) show ?thesis by (auto simp: pool_input_def to_key_def pta_pointer_def av_pointer_def)
qed

lemma set_fold_ddel: "set (fold ddel ks d) \<subseteq> set d"
proof (induction ks arbitrary: d)
  case (Cons k ks)
  have "set (ddel k d) \<subseteq> set d" by (induction d) auto
  with Cons [of "ddel k d"] show ?case by auto
qed simp

lemma query_unspent_frame:
  assumes "query_unspent E own asset p = (items, p1)"
  shows "unfold_pool p1 = unfold_pool p \<and> spent_mempool p1 = spent_mempool p \<and>
    (role (ledger_store p) = SEALER \<longrightarrow> ledger_store p1 = ledger_store p)"
  using assms by (auto simp: query_unspent_def get_unspent_outputs_def Let_def sync_readonly_view_def split: sum.splits prod.splits)

lemma available_unreserved:
  assumes "get_available_inputs E own asset p = (Inr items, p1)" "pool_free p"
  shows "\<forall>av \<in> set items. to_key (av_pointer av) \<notin> spent_mempool p" "spent_mempool p1 = spent_mempool p"
    "role (ledger_store p) = SEALER \<Longrightarrow> ledger_store p1 = ledger_store p"
proof -
  obtain conf q where q: "query_unspent E own asset p = (conf, q)" by (metis surj_pair)
  let ?P = "h_prims (e_host E)"
  let ?keys = "map (confirmed_key ?P) conf"
  from assms(1) q obtain cs ps where cs: "map_res (confirmed_input ?P) (filter (\<lambda>item. confirmed_key ?P item \<notin> spent_mempool q) conf) = Inr cs"
    and ps: "map_res pool_input (own_pool ?keys own asset (fold ddel ?keys (unfold_pool q))) = Inr ps"
    and items: "items = cs @ ps" and p1: "p1 = q\<lparr>unfold_pool := fold ddel ?keys (unfold_pool q)\<rparr>"
    by (auto simp: get_available_inputs_def Let_def bind_res_Inr)
  note fr = query_unspent_frame [OF q]
  have "to_key (av_pointer av) \<notin> spent_mempool p" if "av \<in> set cs" for av
  proof -
    from map_res_mem [OF cs that] obtain item where "confirmed_key ?P item \<notin> spent_mempool q" "confirmed_input ?P item = Inr av" by auto
    with confirmed_input_key fr show ?thesis by metis
  qed
  moreover have "to_key (av_pointer av) \<notin> spent_mempool p" if av: "av \<in> set ps" for av
  proof -
    obtain k out where ko: "(k, out) \<in> set (own_pool ?keys own asset (fold ddel ?keys (unfold_pool q)))" "pool_input (k, out) = Inr av"
      using map_res_mem [OF ps av] by auto
    then have "k \<in> fst ` set (unfold_pool p)"
      using set_fold_ddel [of ?keys "unfold_pool q"] fr by (force simp: own_pool_def)
    with assms(2) pool_input_key [OF ko(2)] show ?thesis unfolding pool_free_def by metis
  qed
  ultimately show "\<forall>av \<in> set items. to_key (av_pointer av) \<notin> spent_mempool p" by (auto simp: items)
  show "spent_mempool p1 = spent_mempool p" "role (ledger_store p) = SEALER \<Longrightarrow> ledger_store p1 = ledger_store p"
    using fr by (simp_all add: p1)
qed

lemma signed_items_pass:
  assumes "\<forall>av \<in> set items. to_key (av_pointer av) \<notin> spent" "b_pubkey E \<noteq> []" "\<forall>m. e_nacl (b_pta E) (b_pubkey E) m (b_sign E m)"
  shows "check_inputs (env_verify (b_pta E)) spent n (map (signed_item E) items) = Inr ()"
  using assms(1)
proof (induction items arbitrary: n)
  case (Cons av items)
  obtain x y where "b_pubkey E = x # y" using assms(2) by (cases "b_pubkey E") auto
  with Cons assms(3) show ?case
    by (simp add: signed_item_def sign_state_payload_def env_verify_def verify_ed25519_signature_def verify_signature_def Let_def)
qed simp

text \<open>
  Without contention billing succeeds at the first attempt: on the lock holder, when no
  transaction is pending and the tenant has fuel, the charge is sealed as the head of the tenant's
  fuel stream, consumes the amount asked for or all there is, and reserves exactly the pointers it
  used.
\<close>

theorem billing_uncontended:
  assumes "e_host (b_pta E) = fdb_host B" "role (ledger_store p) = SEALER" "fdb_ok (db (ledger_store p))"
    and "fdb_room (db (ledger_store p)) 3" "b_pubkey E \<noteq> []" "\<forall>m. e_nacl (b_pta E) (b_pubkey E) m (b_sign E m)"
    and "pool_free p" "get_available_inputs (b_pta E) t ''fuel'' p = (Inr items, p1)" "0 < sum_list (map av_amount items)" "0 < req"
  shows "\<exists>txh p' receipt picked. try_consume_with_occ E t req tr lb p =
      (Inr \<lparr>cr_status = ''SUCCESS'', cr_tx_hash = txh, cr_consumed = min req (sum_list (map av_amount items))\<rparr>, p') \<and>
    prefix picked items \<and> spent_mempool p' = spent_mempool p \<union> (\<lambda>av. to_key (av_pointer av)) ` set picked \<and>
    get_head_hash (fdb_host B) (stream_fuel t) (ledger_store p') = Some receipt \<and>
    resolve_commit_hash (b_pta E) txh (Some (stream_fuel t)) p' = (receipt, p')"
proof -
  note av = available_unreserved [OF assms(8,7)]
  let ?need = "min req (sum_list (map av_amount items))"
  obtain picked acc where pk: "pick_items ?need 0 items = (picked, acc)" by (metis surj_pair)
  have pre: "prefix picked items" using pick_items_prefix [OF pk] by simp
  let ?p2 = "p1\<lparr>ledger_store := (ledger_store p1)\<lparr>ticks := ticks (ledger_store p1) + 1\<rparr>\<rparr>"
  let ?tx = "mk_transaction (bill_prims E) (map (signed_item E) picked) (consume_outputs t acc ?need)
      [(''action'', PStr lb), (''trace_id'', PStr tr)] (b_clock_ms E (ticks (ledger_store p1)))"
  have st: "ledger_store p1 = ledger_store p" using av(3) assms(2) by simp
  have ck: "check_inputs (env_verify (b_pta E)) (spent_mempool ?p2) 0 (tx_inputs ?tx) = Inr ()"
    using signed_items_pass [OF _ assms(5,6), of picked "spent_mempool p"] av(1,2) set_mono_prefix [OF pre]
    by (auto simp: mk_transaction_def)
  have q: "role (ledger_store ?p2) = SEALER" "fdb_ok (db (ledger_store ?p2))" "fdb_room (db (ledger_store ?p2)) (3 + 0)"
    using assms(2-4) by (simp_all add: st)
  obtain p' h where ex: "execute_transaction (b_pta E) (b_req E) (b_rounds E) (b_loop E) ?tx (Some (stream_fuel t)) ?p2 = (Inr (tx_hash ?tx), p')"
      "get_head_hash (fdb_host B) (pta_stream_id ?tx (Some (stream_fuel t))) (ledger_store p') = Some h"
      "resolve_commit_hash (b_pta E) (tx_hash ?tx) (Some (stream_fuel t)) p' = (h, p')"
      "spent_mempool p' = spent_mempool ?p2 \<union> set (spent_keys ?tx)"
    using execute_transaction_step [OF assms(1) q ck, of "b_req E" "b_rounds E" "b_loop E" "Some (stream_fuel t)"] by blast
  have "charge E t ?need tr lb items p1 = (Inr (tx_hash ?tx), p')"
    using ex(1) by (simp add: charge_def pk bindp_def bill_clock_def Let_def)
  then have "try_consume_with_occ E t req tr lb p =
      (Inr \<lparr>cr_status = ''SUCCESS'', cr_tx_hash = tx_hash ?tx, cr_consumed = ?need\<rparr>, p')"
    using assms(8,9) by (simp add: try_consume_with_occ_def try_consume.simps [of E t req tr lb 0] Let_def)
  moreover have "set (spent_keys ?tx) = (\<lambda>av. to_key (av_pointer av)) ` set picked"
    by (simp add: spent_keys_def mk_transaction_def signed_item_def image_image)
  ultimately show ?thesis using ex pre av(2) by (auto simp: pta_stream_id_def)
qed

definition bill_env :: "(fdb_driver, unit) billing_env" where
  "bill_env = \<lparr>b_pta = ledger_env, b_pubkey = ''k'', b_sign = id, b_clock_ms = int, b_req = ''r'', b_rounds = 0, b_loop = False,
     b_others = (\<lambda>_ p. p)\<rparr>"

lemma bill_evaluates:
  "let r = get_available_inputs ledger_env ''alice'' ''fuel'' ledger_pta in
   \<not> isl (fst r) \<and> sum_list (map av_amount (projr (fst r))) = 11"
  "unfold_pool ledger_pta = [(''c:0'', plain_output 9 ''alice'' ''fuel'')]" "spent_mempool ledger_pta = {}"
  by code_simp+

theorem billing_uncontended_witness:
  "\<exists>txh p'. try_consume_with_occ bill_env ''alice'' 5 ''tr'' ''lb'' ledger_pta =
      (Inr \<lparr>cr_status = ''SUCCESS'', cr_tx_hash = txh, cr_consumed = 5\<rparr>, p')"
proof -
  have E: "b_pta bill_env = ledger_env" "e_host ledger_env = fdb_host (sample_base\<lparr>h_prims := ledger_codec\<rparr>)"
      "b_pubkey bill_env \<noteq> []" "\<forall>m. e_nacl (b_pta bill_env) (b_pubkey bill_env) m (b_sign bill_env m)"
    by (simp_all add: bill_env_def ledger_env_def sample_env_def)
  have st: "role (ledger_store ledger_pta) = SEALER" "db (ledger_store ledger_pta) = ledger_driver"
    by (simp_all add: ledger_pta_def initialize_consensus_node_def start_sealer_consumer_def)
  have ok: "fdb_ok ledger_driver" "fdb_room ledger_driver 3"
    by (code_simp, simp add: fdb_room_def ledger_driver_def)
  have free: "pool_free ledger_pta"
  proof -
    have "''c:0'' = ''c'' @ '':'' @ show_int 0" by code_simp
    then show ?thesis unfolding pool_free_def bill_evaluates by (auto intro!: exI [of _ "''c''"])
  qed
  obtain items p1 where av: "get_available_inputs ledger_env ''alice'' ''fuel'' ledger_pta = (Inr items, p1)"
      "sum_list (map av_amount items) = 11"
    using bill_evaluates(1) unfolding Let_def returns_iff by auto
  show ?thesis
    using billing_uncontended [where E = bill_env and B = "sample_base\<lparr>h_prims := ledger_codec\<rparr>" and p = ledger_pta and t = "''alice''"
        and items = items and ?p1.0 = p1 and req = 5 and tr = "''tr''" and lb = "''lb''"] E st ok free av by auto
qed

lemma handle_evaluates:
  "fst (handle_fuel_consume bill_env (Some ''alice'') 0 ''tr'' ledger_pta) = RpcError 400 ''Invalid consume parameters''"
  by (simp add: handle_fuel_consume_def)


end
