(* ===== verification/Channel.thy ===== *)
theory Channel
  imports Prelude
begin

text \<open>
  The channel pipeline, \<^verbatim>\<open>state/phase/channel.py\<close>: handlers in order, reads travel up, writes down
  to the transport. Handlers are the classes of the file; a handler's own state is in its
  constructor. A future is a number into \<open>futures\<close>; the scopes and messages of the log are not
  modelled. Bytes are \<open>char list\<close>s.
  Request ids are strings, so a \<open>_req_id\<close> of another type matches none (an unhashable one, on
  which Python raises, is not told apart).
\<close>

section \<open>State\<close>

datatype message = MBytes string | MVal pyval

datatype outcome = Pending | Done message | Failed exc | Sent

record bridge =
  pending_requests :: "(string, nat) dict"
  seq_no :: nat
  ctx_index :: "nat option"

datatype handler = HPlain | HCodec string | HTracer | HFlow string | HBridge bridge

record transport =
  paused :: bool
  sent :: "string list"

record pipeline =
  handlers :: "handler list"
  transport :: "transport option"
  attributes :: pydict
  pending_tasks :: int
  futures :: "outcome list"
  unhandled :: "exc list"

definition HIGH_WATERMARK :: int where "HIGH_WATERMARK = 1000"
definition LOW_WATERMARK :: int where "LOW_WATERMARK = 500"

definition new_pipeline :: pipeline where
  "new_pipeline = \<lparr>handlers = [], transport = None, attributes = [], pending_tasks = 0, futures = [], unhandled = []\<rparr>"

definition add_last :: "handler \<Rightarrow> pipeline \<Rightarrow> pipeline" where
  "add_last h p = p\<lparr>handlers := handlers p @ [h]\<rparr>"

definition set_attr :: "string \<Rightarrow> pyval \<Rightarrow> pipeline \<Rightarrow> pipeline" where
  "set_attr k v p = p\<lparr>attributes := dset k v (attributes p)\<rparr>"

definition get_attr :: "string \<Rightarrow> pyval \<Rightarrow> pipeline \<Rightarrow> pyval" where
  "get_attr k v p = dget_or (attributes p) k v"

definition set_handler :: "nat \<Rightarrow> handler \<Rightarrow> pipeline \<Rightarrow> pipeline" where
  "set_handler i h p = p\<lparr>handlers := (handlers p)[i := h]\<rparr>"

text \<open>\<open>fut.set_result\<close> and \<open>fut.set_exception\<close> unless the future is done.\<close>

definition resolve_future :: "nat \<Rightarrow> outcome \<Rightarrow> pipeline \<Rightarrow> pipeline" where
  "resolve_future f r p =
     (if f < length (futures p) \<and> futures p ! f = Pending then p\<lparr>futures := (futures p)[f := r]\<rparr> else p)"

definition set_paused :: "bool \<Rightarrow> pipeline \<Rightarrow> pipeline" where
  "set_paused b p = p\<lparr>transport := map_option (\<lambda>t. t\<lparr>paused := b\<rparr>) (transport p)\<rparr>"

section \<open>Framing\<close>

text \<open>The frames a buffer holds, each ended by a newline, and what is left.\<close>

fun split_frames :: "string \<Rightarrow> string \<Rightarrow> string list \<times> string" where
  "split_frames acc [] = ([], acc)"
| "split_frames acc (c # cs) =
     (if c = CHR 0x0A then (case split_frames [] cs of (fs, rest) \<Rightarrow> (acc # fs, rest)) else split_frames (acc @ [c]) cs)"

section \<open>Events up the pipeline\<close>

text \<open>\<open>k\<close> handlers are still above; the one reached has index \<open>length - k\<close>.\<close>

definition bridge_exception :: "nat \<Rightarrow> bridge \<Rightarrow> exc \<Rightarrow> pipeline \<Rightarrow> pipeline option" where
  "bridge_exception i b e p =
     (case get_attr ''current_req_id'' PNone p of
        PStr (c # r) \<Rightarrow>
          (case dget (pending_requests b) (c # r) of
             Some f \<Rightarrow> Some (set_attr ''current_req_id'' PNone (resolve_future f (Failed e)
               (set_handler i (HBridge (b\<lparr>pending_requests := ddel (c # r) (pending_requests b)\<rparr>)) p)))
           | None \<Rightarrow> None)
      | _ \<Rightarrow> None)"

fun process_exception :: "nat \<Rightarrow> exc \<Rightarrow> pipeline \<Rightarrow> pipeline" where
  "process_exception 0 e p = p\<lparr>unhandled := unhandled p @ [e]\<rparr>"
| "process_exception (Suc k) e p =
     (let i = length (handlers p) - Suc k in
      case handlers p ! i of
        HBridge b \<Rightarrow> (case bridge_exception i b e p of Some p' \<Rightarrow> p' | None \<Rightarrow> process_exception k e p)
      | _ \<Rightarrow> process_exception k e p)"

definition bridge_read :: "nat \<Rightarrow> bridge \<Rightarrow> message \<Rightarrow> pipeline \<Rightarrow> pipeline option" where
  "bridge_read i b m p =
     (let drop = (\<lambda>r. HBridge (b\<lparr>pending_requests := ddel r (pending_requests b)\<rparr>));
          by_id = (case m of
             MVal (PDict d) \<Rightarrow>
               (case dget d ''_req_id'' of
                  Some (PStr r) \<Rightarrow>
                    (case dget (pending_requests b) r of
                       Some f \<Rightarrow> Some (resolve_future f (Done m) (set_handler i (drop r) p))
                     | None \<Rightarrow> None)
                | _ \<Rightarrow> None)
           | _ \<Rightarrow> None)
      in case get_attr ''current_req_id'' PNone p of
           PStr (c # r) \<Rightarrow>
             (case dget (pending_requests b) (c # r) of
                Some f \<Rightarrow> Some (set_attr ''current_req_id'' PNone (resolve_future f (Done m) (set_handler i (drop (c # r)) p)))
              | None \<Rightarrow> by_id)
         | _ \<Rightarrow> by_id)"

definition finish_read :: "nat \<Rightarrow> pipeline \<Rightarrow> pipeline" where
  "finish_read k p =
     (if k = 0 \<and> 0 < pending_tasks p then
        (let p1 = p\<lparr>pending_tasks := pending_tasks p - 1\<rparr> in
         if pending_tasks p1 = LOW_WATERMARK then set_paused False p1 else p1)
      else p)"

text \<open>
  The codec handler: \<open>rd\<close> and \<open>ex\<close> pass a message and an exception on. The remainder is stored before
  a frame is passed on, and nothing above the codec writes its buffer, so it is set once.
\<close>

definition codec_frame ::
  "prims \<Rightarrow> (message \<Rightarrow> pipeline \<Rightarrow> pipeline) \<Rightarrow> (exc \<Rightarrow> pipeline \<Rightarrow> pipeline) \<Rightarrow> string \<Rightarrow> pipeline \<Rightarrow> pipeline" where
  "codec_frame P rd ex f p =
     (if strip f = [] then p
      else case p_loads P f of
             Some v \<Rightarrow> rd (MVal v) p
           | None \<Rightarrow> ex (Exc ValueErr ''JSON Parsing failed'') p)"

definition codec_read ::
  "prims \<Rightarrow> (message \<Rightarrow> pipeline \<Rightarrow> pipeline) \<Rightarrow> (exc \<Rightarrow> pipeline \<Rightarrow> pipeline) \<Rightarrow> nat \<Rightarrow> string \<Rightarrow> message \<Rightarrow> pipeline \<Rightarrow> pipeline" where
  "codec_read P rd ex i buf m p =
     (case m of
        MBytes bs \<Rightarrow> (case split_frames [] (buf @ bs) of (fs, rest) \<Rightarrow> fold (codec_frame P rd ex) fs (set_handler i (HCodec rest) p))
      | _ \<Rightarrow> rd m p)"

definition codec_write :: "prims \<Rightarrow> message \<Rightarrow> message" where
  "codec_write P m = (case m of MVal (PDict d) \<Rightarrow> MBytes (p_dumps P (PDict d) @ [CHR 0x0A]) | _ \<Rightarrow> m)"

fun process_read :: "prims \<Rightarrow> nat \<Rightarrow> message \<Rightarrow> pipeline \<Rightarrow> pipeline" where
  "process_read P 0 m p = p"
| "process_read P (Suc k) m p =
     (let i = length (handlers p) - Suc k in
      finish_read k
        (case handlers p ! i of
           HCodec buf \<Rightarrow> codec_read P (process_read P k) (process_exception k) i buf m p
         | HBridge b \<Rightarrow> (case bridge_read i b m p of Some p' \<Rightarrow> p' | None \<Rightarrow> process_read P k m p)
         | _ \<Rightarrow> process_read P k m p))"

definition fire_channel_read :: "prims \<Rightarrow> message \<Rightarrow> pipeline \<Rightarrow> pipeline" where
  "fire_channel_read P m p =
     (let p1 = p\<lparr>pending_tasks := pending_tasks p + 1\<rparr>;
          p2 = (if HIGH_WATERMARK \<le> pending_tasks p1 then set_paused True p1 else p1)
      in process_read P (length (handlers p2)) m p2)"

definition fire_exception_caught :: "exc \<Rightarrow> pipeline \<Rightarrow> pipeline" where
  "fire_exception_caught e p = process_exception (length (handlers p)) e p"

text \<open>Activation stores the flow id (\<open>uid\<close> is the random part) and the context of the bridge.\<close>

definition flow_active :: "string \<Rightarrow> string \<Rightarrow> pipeline \<Rightarrow> pipeline" where
  "flow_active uid client_id = set_attr ''flow_id'' (PStr (''flow_'' @ client_id @ ''_'' @ take 8 uid))"

definition bridge_active :: "nat \<Rightarrow> bridge \<Rightarrow> pipeline \<Rightarrow> pipeline" where
  "bridge_active i b = set_handler i (HBridge (b\<lparr>ctx_index := Some i\<rparr>))"

fun process_channel_active :: "string \<Rightarrow> nat \<Rightarrow> pipeline \<Rightarrow> pipeline" where
  "process_channel_active uid 0 p = p"
| "process_channel_active uid (Suc k) p =
     (let i = length (handlers p) - Suc k in
      process_channel_active uid k
        (case handlers p ! i of
           HFlow client_id \<Rightarrow> flow_active uid client_id p
         | HBridge b \<Rightarrow> bridge_active i b p
         | _ \<Rightarrow> p))"

definition close_requests :: "nat \<Rightarrow> bridge \<Rightarrow> pipeline \<Rightarrow> pipeline" where
  "close_requests i b p =
     set_handler i (HBridge (b\<lparr>pending_requests := []\<rparr>))
       (fold (\<lambda>(r, f). resolve_future f (Failed (Exc ConnectionErr (''Channel closed while waiting for '' @ r))))
          (pending_requests b) p)"

fun process_channel_inactive :: "nat \<Rightarrow> pipeline \<Rightarrow> pipeline" where
  "process_channel_inactive 0 p = p"
| "process_channel_inactive (Suc k) p =
     (let i = length (handlers p) - Suc k in
      process_channel_inactive k (case handlers p ! i of HBridge b \<Rightarrow> close_requests i b p | _ \<Rightarrow> p))"

definition fire_channel_active :: "string \<Rightarrow> pipeline \<Rightarrow> pipeline" where
  "fire_channel_active uid p = process_channel_active uid (length (handlers p)) p"

definition fire_channel_inactive :: "pipeline \<Rightarrow> pipeline" where
  "fire_channel_inactive p = process_channel_inactive (length (handlers p)) p"

section \<open>Writes down the pipeline\<close>

text \<open>\<open>process_write k\<close> enters handler \<open>k - 1\<close>; below the first handler is the transport.\<close>

fun process_write :: "prims \<Rightarrow> nat \<Rightarrow> message \<Rightarrow> pipeline \<Rightarrow> outcome \<times> pipeline" where
  "process_write P 0 m p =
     (case (transport p, m) of
        (Some t, MBytes bs) \<Rightarrow> (Sent, p\<lparr>transport := Some (t\<lparr>sent := sent t @ [bs]\<rparr>)\<rparr>)
      | _ \<Rightarrow> (Failed (Exc ValueErr ''Transport is not ready or msg is not bytes''), p))"
| "process_write P (Suc k) m p =
     process_write P k
       (case handlers p ! k of HCodec _ \<Rightarrow> codec_write P m | _ \<Rightarrow> m) p"

section \<open>Requests\<close>

definition clear_current :: "string \<Rightarrow> pipeline \<Rightarrow> pipeline" where
  "clear_current req_id p =
     (if get_attr ''current_req_id'' PNone p = PStr req_id then set_attr ''current_req_id'' PNone p else p)"

definition forget_request :: "nat \<Rightarrow> string \<Rightarrow> pipeline \<Rightarrow> pipeline" where
  "forget_request i req_id p =
     clear_current req_id
       (case handlers p ! i of
          HBridge b \<Rightarrow> set_handler i (HBridge (b\<lparr>pending_requests := ddel req_id (pending_requests b)\<rparr>)) p
        | _ \<Rightarrow> p)"

text \<open>Up to the wait: the request id and the future that is awaited, or the exception of the write.\<close>

definition begin_request :: "prims \<Rightarrow> nat \<Rightarrow> pydict \<Rightarrow> (pipeline, string \<times> nat) prog" where
  "begin_request P i payload p =
     (case handlers p ! i of
        HBridge b \<Rightarrow>
          (case ctx_index b of
             None \<Rightarrow> (Inl (Exc ConnectionErr ''Pipeline is not active yet.''), p)
           | Some ci \<Rightarrow>
               (let n = seq_no b + 1; req_id = ''req_'' @ show_nat n; f = length (futures p);
                    b' = b\<lparr>seq_no := n, pending_requests := dset req_id f (pending_requests b)\<rparr>;
                    p1 = set_attr ''current_req_id'' (PStr req_id) (set_handler i (HBridge b') (p\<lparr>futures := futures p @ [Pending]\<rparr>))
                in case process_write P ci (MVal (PDict payload)) p1 of
                     (Failed e, p2) \<Rightarrow> (Inl e, forget_request i req_id p2)
                   | (_, p2) \<Rightarrow> (Inr (req_id, f), p2)))
      | _ \<Rightarrow> (Inl (Exc AttributeErr ''request''), p))"

text \<open>After the wait: the reply, or the exception of the future or of the timeout.\<close>

definition end_request :: "nat \<Rightarrow> string \<Rightarrow> nat \<Rightarrow> (pipeline, message) prog" where
  "end_request i req_id f p =
     (case futures p ! f of
        Done m \<Rightarrow> (Inr m, p)
      | Failed e \<Rightarrow> (Inl e, forget_request i req_id p)
      | _ \<Rightarrow> (Inl (Exc GenericErr ''TimeoutError''), forget_request i req_id p))"

section \<open>Framing does not depend on how the bytes arrive\<close>

lemma split_frames_append:
  "split_frames acc (xs @ ys) = (case split_frames acc xs of (fs, r) \<Rightarrow> case split_frames r ys of (gs, r') \<Rightarrow> (fs @ gs, r'))"
  by (induction acc xs rule: split_frames.induct) (auto split: prod.splits)

lemma split_frames_acc: "CHR 0x0A \<notin> set acc \<Longrightarrow> split_frames [] (acc @ s) = split_frames acc s"
proof -
  have "CHR 0x0A \<notin> set acc \<Longrightarrow> split_frames pre (acc @ s) = split_frames (pre @ acc) s" for pre
    by (induction acc arbitrary: pre) auto
  then show "CHR 0x0A \<notin> set acc \<Longrightarrow> split_frames [] (acc @ s) = split_frames acc s" by simp
qed

lemma split_frames_rest: "split_frames acc s = (fs, r) \<Longrightarrow> CHR 0x0A \<notin> set acc \<Longrightarrow> CHR 0x0A \<notin> set r"
  by (induction acc s arbitrary: fs r rule: split_frames.induct) (auto split: if_splits prod.splits)

lemma split_frames_line: "CHR 0x0A \<notin> set f \<Longrightarrow> split_frames [] (f @ CHR 0x0A # s) = (case split_frames [] s of (fs, r) \<Rightarrow> (f # fs, r))"
  using split_frames_acc [of f "CHR 0x0A # s"] by simp

abbreviation deliver :: "prims \<Rightarrow> nat \<Rightarrow> string \<Rightarrow> pipeline \<Rightarrow> pipeline" where
  "deliver P k \<equiv> codec_frame P (process_read P k) (process_exception k)"

text \<open>A handler below the ones an event still passes is neither read nor changed.\<close>

lemma length_helpers [simp]:
  "length (handlers (set_attr k v p)) = length (handlers p)" "length (handlers (resolve_future f r p)) = length (handlers p)"
  "length (handlers (set_handler i h p)) = length (handlers p)" "length (handlers (finish_read n p)) = length (handlers p)"
  by (simp_all add: set_attr_def resolve_future_def set_handler_def finish_read_def set_paused_def Let_def)

lemma bridge_read_set:
  "i \<noteq> j \<Longrightarrow> bridge_read j b m (set_handler i h p) = map_option (set_handler i h) (bridge_read j b m p)"
  by (auto simp: bridge_read_def Let_def get_attr_def set_handler_def set_attr_def resolve_future_def list_update_swap
      split: pyval.splits list.splits option.splits message.splits)

lemma bridge_exception_set:
  "i \<noteq> j \<Longrightarrow> bridge_exception j b e (set_handler i h p) = map_option (set_handler i h) (bridge_exception j b e p)"
  by (auto simp: bridge_exception_def Let_def get_attr_def set_handler_def set_attr_def resolve_future_def list_update_swap
      split: pyval.splits list.splits option.splits)

lemma finish_read_set: "finish_read n (set_handler i h p) = set_handler i h (finish_read n p)"
  by (simp add: finish_read_def set_handler_def set_paused_def Let_def)

lemma nth_set_handler: "i \<noteq> j \<Longrightarrow> handlers (set_handler i h p) ! j = handlers p ! j"
  by (simp add: set_handler_def)

lemma bridge_read_length: "bridge_read j b m p = Some q \<Longrightarrow> length (handlers q) = length (handlers p)"
  by (auto simp: bridge_read_def Let_def split: pyval.splits list.splits option.splits message.splits)

lemma bridge_exception_length: "bridge_exception j b e p = Some q \<Longrightarrow> length (handlers q) = length (handlers p)"
  by (auto simp: bridge_exception_def Let_def split: pyval.splits list.splits option.splits)

lemma process_exception_length [simp]: "length (handlers (process_exception k e p)) = length (handlers p)"
  by (induction k) (auto simp: Let_def split: handler.splits option.splits dest: bridge_exception_length)

lemma fold_length: "(\<And>x q. length (handlers (f x q)) = length (handlers q)) \<Longrightarrow> length (handlers (fold f xs p)) = length (handlers p)"
  by (induction xs arbitrary: p) simp_all

lemma process_read_length [simp]: "length (handlers (process_read P k m p)) = length (handlers p)"
proof (induction k arbitrary: m p)
  case (Suc k)
  have fr: "length (handlers (deliver P k f q)) = length (handlers q)" for f q
    using Suc by (simp add: codec_frame_def split: option.split)
  show ?case
    using Suc
    by (auto simp: Let_def codec_read_def fold_length [OF fr] split: handler.split option.split message.split prod.split dest: bridge_read_length)
qed simp

lemma process_exception_set:
  "i + k < length (handlers p) \<Longrightarrow> process_exception k e (set_handler i h p) = set_handler i h (process_exception k e p)"
proof (induction k)
  case 0
  then show ?case by (simp add: set_handler_def)
next
  case (Suc k)
  let ?j = "length (handlers p) - Suc k"
  have j: "i \<noteq> ?j" using Suc.prems by simp
  from Suc j show ?case
    by (auto simp: Let_def nth_set_handler bridge_exception_set split: handler.split option.split)
qed

lemma fold_set:
  assumes "\<And>x q. length (handlers q) = n \<Longrightarrow> f x (set_handler i h q) = set_handler i h (f x q)"
    and "\<And>x q. length (handlers (f x q)) = length (handlers q)" "length (handlers p) = n"
  shows "fold f xs (set_handler i h p) = set_handler i h (fold f xs p)"
  using assms(3)
proof (induction xs arbitrary: p)
  case (Cons x xs)
  with assms(1,2) show ?case by simp
qed simp

lemma process_read_set:
  "i + k < length (handlers p) \<Longrightarrow> process_read P k m (set_handler i h p) = set_handler i h (process_read P k m p)"
proof (induction k arbitrary: m p)
  case (Suc k)
  let ?j = "length (handlers p) - Suc k"
  have j: "i \<noteq> ?j" using Suc.prems by simp
  let ?f = "deliver P k"
  have fl: "length (handlers (?f x q)) = length (handlers q)" for x q by (simp add: codec_frame_def split: option.split)
  have fs: "?f x (set_handler i h q) = set_handler i h (?f x q)" if "length (handlers q) = length (handlers p)" for x q
    using Suc that by (simp add: codec_frame_def process_exception_set split: option.split)
  have fo: "fold ?f xs (set_handler ?j hh (set_handler i h p)) = set_handler i h (fold ?f xs (set_handler ?j hh p))" for xs hh
  proof -
    have "set_handler ?j hh (set_handler i h p) = set_handler i h (set_handler ?j hh p)"
      using j by (simp add: set_handler_def list_update_swap)
    then show ?thesis using fold_set [of "length (handlers p)" ?f i h, OF fs fl] by simp
  qed
  show ?case
    using Suc j
    by (auto simp: Let_def codec_read_def nth_set_handler bridge_read_set finish_read_set fo split: handler.split option.split message.split prod.split)
qed simp

declare process_read.simps(2) [simp del]

lemma process_read_codec:
  assumes "handlers p ! i = HCodec buf" "length (handlers p) = i + Suc k" "0 < k"
  shows "process_read P (Suc k) (MBytes bs) p =
    (case split_frames [] (buf @ bs) of (fs, rest) \<Rightarrow> fold (deliver P k) fs (set_handler i (HCodec rest) p))"
proof -
  have "finish_read k q = q" for q using assms(3) by (simp add: finish_read_def)
  then show ?thesis using assms(1,2) by (simp add: Let_def process_read.simps(2) codec_read_def)
qed

lemma deliver_length [simp]: "length (handlers (deliver P k f p)) = length (handlers p)"
  by (simp add: codec_frame_def split: option.split)

lemma fold_deliver_set:
  assumes "i + k < length (handlers p)"
  shows "fold (deliver P k) fs (set_handler i h p) = set_handler i h (fold (deliver P k) fs p)"
proof (rule fold_set [where n = "length (handlers p)"])
  show "deliver P k x (set_handler i h q) = set_handler i h (deliver P k x q)" if "length (handlers q) = length (handlers p)" for x q
    using assms that by (simp add: codec_frame_def process_read_set process_exception_set split: option.split)
qed simp_all

lemma fold_deliver_length [simp]: "length (handlers (fold (deliver P k) fs p)) = length (handlers p)"
  by (rule fold_length) simp

lemma set_handler_twice [simp]: "set_handler i h (set_handler i g p) = set_handler i h p"
  by (simp add: set_handler_def)

lemma nth_set_handler_same [simp]: "i < length (handlers p) \<Longrightarrow> handlers (set_handler i h p) ! i = h"
  by (simp add: set_handler_def)

lemma codec_step:
  assumes "handlers p ! i = HCodec buf" "length (handlers p) = i + Suc k" "0 < k" "CHR 0x0A \<notin> set buf"
  shows "process_read P (Suc k) (MBytes (a @ b)) p = process_read P (Suc k) (MBytes b) (process_read P (Suc k) (MBytes a) p)"
    and "\<exists>buf'. handlers (process_read P (Suc k) (MBytes a) p) ! i = HCodec buf' \<and> CHR 0x0A \<notin> set buf'"
proof -
  obtain fs r where fa: "split_frames [] (buf @ a) = (fs, r)" by (metis surj_pair)
  obtain gs r' where fb: "split_frames r b = (gs, r')" by (metis surj_pair)
  have r: "CHR 0x0A \<notin> set r" using split_frames_rest [OF fa] by simp
  have i: "i < length (handlers p)" "i + k < length (handlers p)" using assms(2) by simp_all
  let ?q = "fold (deliver P k) fs (set_handler i (HCodec r) p)"
  have q: "process_read P (Suc k) (MBytes a) p = ?q" using process_read_codec [OF assms(1-3), of P a] by (simp add: fa)
  have q': "?q = set_handler i (HCodec r) (fold (deliver P k) fs p)" using fold_deliver_set [OF i(2)] .
  have hq: "handlers ?q ! i = HCodec r" using i(1) by (simp add: q')
  have "process_read P (Suc k) (MBytes b) ?q = fold (deliver P k) gs (set_handler i (HCodec r') ?q)"
    using process_read_codec [OF hq, of k P b] assms(2,3) split_frames_acc [OF r, of b] fb by simp
  also have "\<dots> = fold (deliver P k) gs (fold (deliver P k) fs (set_handler i (HCodec r') p))"
    using i(2) by (simp add: q' fold_deliver_set)
  also have "\<dots> = process_read P (Suc k) (MBytes (a @ b)) p"
    using process_read_codec [OF assms(1-3), of P "a @ b"] split_frames_append [of "[]" "buf @ a" b] fa fb by simp
  finally show "process_read P (Suc k) (MBytes (a @ b)) p = process_read P (Suc k) (MBytes b) (process_read P (Suc k) (MBytes a) p)"
    by (simp add: q)
  show "\<exists>buf'. handlers (process_read P (Suc k) (MBytes a) p) ! i = HCodec buf' \<and> CHR 0x0A \<notin> set buf'"
    using q hq r by simp
qed

lemma codec_chunks:
  assumes "handlers p ! i = HCodec buf" "length (handlers p) = i + Suc k" "0 < k" "CHR 0x0A \<notin> set buf" "cs \<noteq> []"
  shows "fold (\<lambda>c. process_read P (Suc k) (MBytes c)) cs p = process_read P (Suc k) (MBytes (concat cs)) p"
  using assms(1,2,4,5)
proof (induction cs arbitrary: p buf)
  case (Cons c cs)
  show ?case
  proof (cases "cs = []")
    case True
    then show ?thesis by simp
  next
    case False
    obtain buf' where b: "handlers (process_read P (Suc k) (MBytes c) p) ! i = HCodec buf'" "CHR 0x0A \<notin> set buf'"
      using codec_step(2) [OF Cons.prems(1,2) assms(3) Cons.prems(3)] by blast
    from Cons.IH [OF b(1) _ b(2) False] Cons.prems(2) codec_step(1) [OF Cons.prems(1,2) assms(3) Cons.prems(3), of P c "concat cs"]
    show ?thesis by simp
  qed
qed simp

lemma frames_of_lines:
  "\<forall>f \<in> set fs. CHR 0x0A \<notin> set f \<Longrightarrow> split_frames [] (concat (map (\<lambda>f. f @ [CHR 0x0A]) fs)) = (fs, [])"
  by (induction fs) (auto simp: split_frames_line)

text \<open>
  C29. Messages survive the wire whole and in order: what one side's codec writes for a list of
  dictionaries, cut into chunks anywhere, is delivered by the other side's codec to the handlers
  above it as exactly those dictionaries, one after the other, and nothing stays in the buffer.
\<close>

theorem codec_round_trip:
  assumes "\<forall>d \<in> set ds. p_loads P (p_dumps P (PDict d)) = Some (PDict d) \<and> CHR 0x0A \<notin> set (p_dumps P (PDict d)) \<and>
      strip (p_dumps P (PDict d)) \<noteq> []"
    and "handlers p ! i = HCodec []" "length (handlers p) = i + Suc k" "0 < k"
    and "cs \<noteq> []" "concat cs = concat (map (\<lambda>d. p_dumps P (PDict d) @ [CHR 0x0A]) ds)"
  shows "(\<forall>d \<in> set ds. \<forall>q t. handlers q ! 0 = HCodec [] \<and> transport q = Some t \<longrightarrow>
        process_write P 1 (MVal (PDict d)) q = (Sent, q\<lparr>transport := Some (t\<lparr>sent := sent t @ [p_dumps P (PDict d) @ [CHR 0x0A]]\<rparr>)\<rparr>)) \<and>
    fold (\<lambda>c. process_read P (Suc k) (MBytes c)) cs p = fold (\<lambda>d. process_read P k (MVal (PDict d))) ds p"
proof -
  have w: "process_write P 1 (MVal (PDict d)) q = (Sent, q\<lparr>transport := Some (t\<lparr>sent := sent t @ [p_dumps P (PDict d) @ [CHR 0x0A]]\<rparr>)\<rparr>)"
    if "handlers q ! 0 = HCodec []" "transport q = Some t" for q t d
    using that by (simp add: codec_write_def)
  have "split_frames [] (concat cs) = (map (\<lambda>d. p_dumps P (PDict d)) ds, [])"
    using frames_of_lines [of "map (\<lambda>d. p_dumps P (PDict d)) ds"] assms(1,6) by (simp add: comp_def)
  then have "fold (\<lambda>c. process_read P (Suc k) (MBytes c)) cs p =
      fold (deliver P k) (map (\<lambda>d. p_dumps P (PDict d)) ds) (set_handler i (HCodec []) p)"
    using codec_chunks [OF assms(2-4) _ assms(5)] process_read_codec [OF assms(2-4), of P "concat cs"] by simp
  also have "set_handler i (HCodec []) p = p"
    using assms(2) list_update_id [of "handlers p" i] by (simp add: set_handler_def)
  also have "fold (deliver P k) (map (\<lambda>d. p_dumps P (PDict d)) ds) p = fold (\<lambda>d. process_read P k (MVal (PDict d))) ds p"
    using assms(1) by (induction ds arbitrary: p) (simp_all add: codec_frame_def)
  finally show ?thesis using w by blast
qed

section \<open>Requests\<close>

text \<open>What closing makes of a future: a connection error, unless it was settled before.\<close>

definition closed_outcome :: "outcome \<Rightarrow> outcome \<Rightarrow> bool" where
  "closed_outcome a b = (if a = Pending then (\<exists>r. b = Failed (Exc ConnectionErr (''Channel closed while waiting for '' @ r))) else b = a)"

definition fail_request :: "string \<times> nat \<Rightarrow> pipeline \<Rightarrow> pipeline" where
  "fail_request rf = resolve_future (snd rf) (Failed (Exc ConnectionErr (''Channel closed while waiting for '' @ fst rf)))"

lemma fail_request_fields [simp]:
  "handlers (fail_request rf p) = handlers p" "length (futures (fail_request rf p)) = length (futures p)"
  by (simp_all add: fail_request_def resolve_future_def)

lemma fail_request_settled: "futures p ! f \<noteq> Pending \<Longrightarrow> futures (fail_request rf p) ! f = futures p ! f"
  by (auto simp: fail_request_def resolve_future_def nth_list_update)

lemma fold_fail_fields [simp]:
  "handlers (fold fail_request rs p) = handlers p" "length (futures (fold fail_request rs p)) = length (futures p)"
  by (induction rs arbitrary: p) simp_all

lemma fold_fail_settled: "futures p ! f \<noteq> Pending \<Longrightarrow> futures (fold fail_request rs p) ! f = futures p ! f"
  by (induction rs arbitrary: p) (simp_all add: fail_request_settled)

lemma fold_fail_closed:
  "f < length (futures p) \<Longrightarrow> (r, f) \<in> set rs \<Longrightarrow> closed_outcome (futures p ! f) (futures (fold fail_request rs p) ! f)"
proof (induction rs arbitrary: p)
  case (Cons x rs)
  let ?p = "fail_request x p"
  have step: "futures p ! f = Pending \<Longrightarrow> snd x \<noteq> f \<Longrightarrow> futures ?p ! f = Pending"
    "futures p ! f = Pending \<Longrightarrow> snd x = f \<Longrightarrow> futures ?p ! f = Failed (Exc ConnectionErr (''Channel closed while waiting for '' @ fst x))"
    using Cons.prems(1) by (auto simp: fail_request_def resolve_future_def)
  consider "futures p ! f \<noteq> Pending" | "futures p ! f = Pending" "snd x = f" | "futures p ! f = Pending" "snd x \<noteq> f" by blast
  then show ?case
  proof cases
    case 1
    then show ?thesis using fold_fail_settled [of p f "x # rs"] by (simp add: closed_outcome_def)
  next
    case 2
    then show ?thesis using fold_fail_settled [of ?p f rs] step(2) by (simp add: closed_outcome_def)
  next
    case 3
    then have "(r, f) \<in> set rs" using Cons.prems(2) by auto
    then show ?thesis using Cons.IH [of ?p] Cons.prems(1) 3 step(1) by simp
  qed
qed simp

lemma close_requests_fold:
  "close_requests i b p = set_handler i (HBridge (b\<lparr>pending_requests := []\<rparr>)) (fold fail_request (pending_requests b) p)"
proof -
  have "(\<lambda>(r, f). resolve_future f (Failed (Exc ConnectionErr (''Channel closed while waiting for '' @ r)))) = fail_request"
    by (intro ext) (simp add: fail_request_def case_prod_unfold)
  then show ?thesis by (simp add: close_requests_def)
qed

lemma close_requests_fields:
  "length (handlers (close_requests i b p)) = length (handlers p)" "length (futures (close_requests i b p)) = length (futures p)"
  "j \<noteq> i \<Longrightarrow> handlers (close_requests i b p) ! j = handlers p ! j"
  "futures p ! f \<noteq> Pending \<Longrightarrow> futures (close_requests i b p) ! f = futures p ! f"
  by (simp_all add: close_requests_fold set_handler_def fold_fail_settled)

lemma closed_outcome_trans: "closed_outcome a b \<Longrightarrow> closed_outcome b c \<Longrightarrow> closed_outcome a c"
  by (auto simp: closed_outcome_def split: if_splits)

lemma fail_request_outcome:
  "f < length (futures p) \<Longrightarrow> futures (fail_request rf p) ! f = futures p ! f \<or> closed_outcome (futures p ! f) (futures (fail_request rf p) ! f)"
  by (auto simp: fail_request_def resolve_future_def closed_outcome_def nth_list_update)

lemma fold_fail_outcome:
  "f < length (futures p) \<Longrightarrow>
    futures (fold fail_request rs p) ! f = futures p ! f \<or> closed_outcome (futures p ! f) (futures (fold fail_request rs p) ! f)"
proof (induction rs arbitrary: p)
  case (Cons x rs)
  from Cons.IH [of "fail_request x p"] Cons.prems fail_request_outcome [OF Cons.prems, of x]
  show ?case by (auto intro: closed_outcome_trans)
qed simp

lemma close_requests_outcome:
  "f < length (futures p) \<Longrightarrow>
    futures (close_requests i b p) ! f = futures p ! f \<or> closed_outcome (futures p ! f) (futures (close_requests i b p) ! f)"
  using fold_fail_outcome [of f p] by (simp add: close_requests_fold set_handler_def)

lemma inactive_keeps:
  "j + k < length (handlers p) \<Longrightarrow> handlers (process_channel_inactive k p) ! j = handlers p ! j"
  "futures p ! f \<noteq> Pending \<Longrightarrow> futures (process_channel_inactive k p) ! f = futures p ! f"
  by (induction k arbitrary: p) (auto simp: Let_def close_requests_fields split: handler.split)

lemma inactive_closes:
  assumes "handlers p ! i = HBridge b" "i < length (handlers p)" "length (handlers p) \<le> i + k" "k \<le> length (handlers p)"
    and "f < length (futures p)" "(r, f) \<in> set (pending_requests b)"
  shows "handlers (process_channel_inactive k p) ! i = HBridge (b\<lparr>pending_requests := []\<rparr>) \<and>
    closed_outcome (futures p ! f) (futures (process_channel_inactive k p) ! f)"
  using assms
proof (induction k arbitrary: p)
  case (Suc k)
  let ?j = "length (handlers p) - Suc k"
  let ?p = "case handlers p ! ?j of HBridge b \<Rightarrow> close_requests ?j b p | _ \<Rightarrow> p"
  have len: "length (handlers ?p) = length (handlers p)" "length (futures ?p) = length (futures p)"
    by (simp_all add: close_requests_fields split: handler.split)
  have eq: "process_channel_inactive (Suc k) p = process_channel_inactive k ?p" by (simp add: Let_def)
  show ?case
  proof (cases "i = ?j")
    case True
    then have p: "?p = close_requests i b p" using Suc.prems(1) by simp
    have c: "closed_outcome (futures p ! f) (futures ?p ! f)"
      using fold_fail_closed [OF Suc.prems(5,6)] by (simp only: p) (simp add: close_requests_fold set_handler_def)
    then have "futures (process_channel_inactive k ?p) ! f = futures ?p ! f"
      by (intro inactive_keeps(2)) (auto simp: closed_outcome_def split: if_splits)
    moreover have "handlers (process_channel_inactive k ?p) ! i = handlers ?p ! i"
      using True Suc.prems(2,4) len by (intro inactive_keeps(1)) simp
    moreover have "handlers ?p ! i = HBridge (b\<lparr>pending_requests := []\<rparr>)"
      using Suc.prems(2) by (simp only: p) (simp add: close_requests_fold)
    ultimately show ?thesis using c by (simp only: eq)
  next
    case False
    have hi: "handlers ?p ! i = HBridge b"
      using False Suc.prems(1) by (simp add: close_requests_fields split: handler.split)
    have st: "futures p ! f \<noteq> Pending \<Longrightarrow> futures ?p ! f = futures p ! f"
      by (simp add: close_requests_fields split: handler.split)
    have ih: "handlers (process_channel_inactive k ?p) ! i = HBridge (b\<lparr>pending_requests := []\<rparr>) \<and>
        closed_outcome (futures ?p ! f) (futures (process_channel_inactive k ?p) ! f)"
      using Suc.IH [OF hi] Suc.prems len False by (simp only: len)
    have "futures ?p ! f = futures p ! f \<or> closed_outcome (futures p ! f) (futures ?p ! f)"
      using close_requests_outcome [OF Suc.prems(5)] by (auto split: handler.split)
    with ih show ?thesis using closed_outcome_trans by (auto simp only: eq)
  qed
qed simp


text \<open>
  C30. No request waits on a closed channel: when the channel becomes inactive, every bridge of the
  pipeline forgets its requests, and the future of each is settled: with a connection error, or
  with the result it had.
\<close>

theorem close_settles_requests:
  assumes "handlers p ! i = HBridge b" "i < length (handlers p)" "(r, f) \<in> set (pending_requests b)" "f < length (futures p)"
  shows "handlers (fire_channel_inactive p) ! i = HBridge (b\<lparr>pending_requests := []\<rparr>) \<and>
    closed_outcome (futures p ! f) (futures (fire_channel_inactive p) ! f)"
  using inactive_closes [OF assms(1,2) _ _ assms(4,3), of "length (handlers p)"] assms(2)
  by (simp add: fire_channel_inactive_def)

lemma process_write_keeps:
  "process_write P k m p = (r, q) \<Longrightarrow> q = p\<lparr>transport := transport q\<rparr>"
  by (induction P k m p rule: process_write.induct) (auto split: option.splits message.splits prod.splits)

lemma attr_set_same [simp]: "get_attr k v (set_attr k w p) = w"
  by (simp add: get_attr_def set_attr_def dget_or_def)

lemma begin_request_inv:
  assumes "begin_request P i payload p = (Inr (req_id, f), q)" "i < length (handlers p)"
  obtains b where "handlers p ! i = HBridge b" "f = length (futures p)" "req_id = ''req_'' @ show_nat (seq_no b + 1)"
    "handlers q = (handlers p)[i := HBridge (b\<lparr>seq_no := seq_no b + 1, pending_requests := dset req_id f (pending_requests b)\<rparr>)]"
    "futures q = futures p @ [Pending]" "attributes q = dset ''current_req_id'' (PStr req_id) (attributes p)"
proof -
  from assms(1) obtain b where b: "handlers p ! i = HBridge b"
    by (auto simp: begin_request_def split: handler.splits)
  from assms(1) b obtain ci where ci: "ctx_index b = Some ci"
    by (auto simp: begin_request_def split: option.splits)
  let ?r = "''req_'' @ show_nat (seq_no b + 1)"
  let ?b = "b\<lparr>seq_no := seq_no b + 1, pending_requests := dset ?r (length (futures p)) (pending_requests b)\<rparr>"
  let ?p = "set_attr ''current_req_id'' (PStr ?r) (set_handler i (HBridge ?b) (p\<lparr>futures := futures p @ [Pending]\<rparr>))"
  obtain o' p2 where w: "process_write P ci (MVal (PDict payload)) ?p = (o', p2)" by (metis surj_pair)
  have q: "q = p2" "req_id = ?r" "f = length (futures p)"
    using assms(1) b ci w by (auto simp: begin_request_def Let_def split: outcome.splits)
  have k: "p2 = ?p\<lparr>transport := transport p2\<rparr>" using process_write_keeps [OF w] .
  show ?thesis
  proof
    show "handlers q = (handlers p)[i := HBridge (b\<lparr>seq_no := seq_no b + 1, pending_requests := dset req_id f (pending_requests b)\<rparr>)]"
      using q by (subst q(1), subst k) (simp add: set_attr_def set_handler_def)
    show "futures q = futures p @ [Pending]" by (subst q(1), subst k) (simp add: set_attr_def set_handler_def)
    show "attributes q = dset ''current_req_id'' (PStr req_id) (attributes p)"
      using q by (subst q(1), subst k) (simp add: set_attr_def set_handler_def)
  qed (use b q in simp_all)
qed

lemma bridge_takes_reply:
  fixes P :: prims and m :: message
  assumes "handlers p ! i = HBridge b" "i < length (handlers p)" "get_attr ''current_req_id'' PNone p = PStr (c # r)"
    "dget (pending_requests b) (c # r) = Some f" "f < length (futures p)" "futures p ! f = Pending"
  defines "q \<equiv> process_read P (length (handlers p) - i) m p"
  shows "futures q = (futures p)[f := Done m]" "get_attr ''current_req_id'' PNone q = PNone"
    "handlers q = (handlers p)[i := HBridge (b\<lparr>pending_requests := ddel (c # r) (pending_requests b)\<rparr>)]"
proof -
  obtain k where k: "length (handlers p) - i = Suc k" "length (handlers p) - Suc k = i"
    using assms(2) by (metis Suc_diff_Suc diff_diff_cancel less_imp_le)
  let ?q = "set_attr ''current_req_id'' PNone (resolve_future f (Done m)
    (set_handler i (HBridge (b\<lparr>pending_requests := ddel (c # r) (pending_requests b)\<rparr>)) p))"
  have "q = finish_read k ?q"
    using assms(1,3,4) k by (simp add: q_def process_read.simps(2) Let_def bridge_read_def)
  then show "futures q = (futures p)[f := Done m]" "get_attr ''current_req_id'' PNone q = PNone"
    "handlers q = (handlers p)[i := HBridge (b\<lparr>pending_requests := ddel (c # r) (pending_requests b)\<rparr>)]"
    using assms(5,6)
    by (simp_all add: finish_read_def Let_def set_paused_def set_attr_def get_attr_def dget_or_def resolve_future_def set_handler_def)
qed

text \<open>
  A request gets its reply: after the request was written, the next message that reaches the
  bridge is what the request returns, and no trace of the request stays behind.
\<close>

theorem request_gets_reply:
  fixes P :: prims and m :: message
  assumes "begin_request P i payload p = (Inr (req_id, f), q)" "i < length (handlers p)"
  defines "q' \<equiv> process_read P (length (handlers q) - i) m q"
  shows "end_request i req_id f q' = (Inr m, q') \<and> get_attr ''current_req_id'' PNone q' = PNone \<and>
    (\<exists>b. handlers q' ! i = HBridge b \<and> dget (pending_requests b) req_id = None)"
proof -
  from begin_request_inv [OF assms(1,2)] obtain b where b: "f = length (futures p)" "req_id = ''req_'' @ show_nat (seq_no b + 1)"
    "handlers q = (handlers p)[i := HBridge (b\<lparr>seq_no := seq_no b + 1, pending_requests := dset req_id f (pending_requests b)\<rparr>)]"
    "futures q = futures p @ [Pending]" "attributes q = dset ''current_req_id'' (PStr req_id) (attributes p)" by blast
  let ?b = "b\<lparr>seq_no := seq_no b + 1, pending_requests := dset req_id f (pending_requests b)\<rparr>"
  obtain c r where cr: "req_id = c # r" using b(2) by simp
  have h: "handlers q ! i = HBridge ?b" "i < length (handlers q)" using b(3) assms(2) by simp_all
  have a: "get_attr ''current_req_id'' PNone q = PStr (c # r)" using b(5) cr by (simp add: get_attr_def dget_or_def)
  have d: "dget (pending_requests ?b) (c # r) = Some f" using cr by simp
  have f: "f < length (futures q)" "futures q ! f = Pending" using b(1,4) by simp_all
  note t = bridge_takes_reply [OF h a d f, of P m, folded q'_def]
  show ?thesis using t h(2) f(1) cr by (simp add: end_request_def)
qed

text \<open>
  Replies are not matched to requests: with two requests outstanding on one channel, the next
  message, whatever request it names, answers the second one, and the first keeps waiting.
\<close>

theorem reply_goes_to_last_request:
  fixes P :: prims and m :: message
  assumes "begin_request P i a p = (Inr (r1, f1), p1)" "begin_request P i b p1 = (Inr (r2, f2), p2)" "i < length (handlers p)"
  defines "q \<equiv> process_read P (length (handlers p2) - i) m p2"
  shows "futures q ! f2 = Done m \<and> futures q ! f1 = Pending"
proof -
  from begin_request_inv [OF assms(1,3)] have 1: "f1 = length (futures p)" "futures p1 = futures p @ [Pending]"
    "length (handlers p1) = length (handlers p)" by (metis length_list_update)+
  have i: "i < length (handlers p1)" using 1 assms(3) by simp
  from begin_request_inv [OF assms(2) i] obtain bb where b: "f2 = length (futures p1)" "r2 = ''req_'' @ show_nat (seq_no bb + 1)"
    "handlers p2 = (handlers p1)[i := HBridge (bb\<lparr>seq_no := seq_no bb + 1, pending_requests := dset r2 f2 (pending_requests bb)\<rparr>)]"
    "futures p2 = futures p1 @ [Pending]" "attributes p2 = dset ''current_req_id'' (PStr r2) (attributes p1)" by blast
  let ?b = "bb\<lparr>seq_no := seq_no bb + 1, pending_requests := dset r2 f2 (pending_requests bb)\<rparr>"
  obtain c r where cr: "r2 = c # r" using b(2) by simp
  have h: "handlers p2 ! i = HBridge ?b" "i < length (handlers p2)" using b(3) i by simp_all
  have g: "get_attr ''current_req_id'' PNone p2 = PStr (c # r)" using b(5) cr by (simp add: get_attr_def dget_or_def)
  have d: "dget (pending_requests ?b) (c # r) = Some f2" using cr by simp
  have f: "f2 < length (futures p2)" "futures p2 ! f2 = Pending" using b(1,4) by simp_all
  have "futures q = (futures p2)[f2 := Done m]" using bridge_takes_reply(1) [OF h g d f] by (simp add: q_def)
  then show ?thesis using 1 b(1,4) by (simp add: nth_append)
qed

section \<open>Back pressure\<close>

lemma split_frames_none: "CHR 0x0A \<notin> set s \<Longrightarrow> split_frames acc s = ([], acc @ s)"
  by (induction acc s rule: split_frames.induct) auto

lemma read_partial:
  fixes P :: prims
  assumes "handlers p = HCodec buf # h # hs" "CHR 0x0A \<notin> set buf" "CHR 0x0A \<notin> set c" "transport p = Some t"
  defines "q \<equiv> fire_channel_read P (MBytes c) p"
  shows "handlers q = HCodec (buf @ c) # h # hs" "pending_tasks q = pending_tasks p + 1"
    "transport q = Some (if HIGH_WATERMARK \<le> pending_tasks p + 1 then t\<lparr>paused := True\<rparr> else t)"
  using assms(1-4) split_frames_none [of "buf @ c" "[]"]
  by (simp_all add: q_def fire_channel_read_def Let_def process_read.simps(2) codec_read_def set_paused_def finish_read_def set_handler_def)

text \<open>
  Reads are counted in chunks and uncounted in messages: chunks that end no line raise the count
  of pending tasks for good, so a message that comes in a thousand pieces pauses the transport, and
  with the transport paused its last piece is never read.
\<close>

theorem partial_chunks_pause_reading:
  fixes P :: prims
  assumes "handlers p = HCodec buf # h # hs" "CHR 0x0A \<notin> set buf" "\<forall>c \<in> set cs. CHR 0x0A \<notin> set c" "transport p = Some t"
  defines "q \<equiv> fold (\<lambda>c. fire_channel_read P (MBytes c)) cs p"
  shows "pending_tasks q = pending_tasks p + int (length cs) \<and>
    (cs \<noteq> [] \<and> HIGH_WATERMARK \<le> pending_tasks p + int (length cs) \<longrightarrow> (\<exists>t'. transport q = Some t' \<and> paused t'))"
  unfolding q_def using assms(1-4)
proof (induction cs arbitrary: p buf t)
  case (Cons c cs)
  let ?p = "fire_channel_read P (MBytes c) p"
  have c: "CHR 0x0A \<notin> set c" using Cons.prems(3) by simp
  note r = read_partial [OF Cons.prems(1,2) c Cons.prems(4), of P]
  from Cons.IH [OF r(1) _ _ r(3)] Cons.prems(2,3) c
  show ?case using r(2,3) by (cases "cs = []") auto
qed simp

section \<open>Witnesses\<close>

text \<open>A codec for dictionaries with one text value, enough for the samples.\<close>

definition wire_dumps :: "pyval \<Rightarrow> string" where
  "wire_dumps v = (case v of PDict [(k, PStr s)] \<Rightarrow> k @ '':'' @ s | _ \<Rightarrow> ''?'')"

definition wire_loads :: "string \<Rightarrow> pyval option" where
  "wire_loads t = (case dropWhile (\<lambda>c. c \<noteq> CHR '':'') t of [] \<Rightarrow> None | _ # s \<Rightarrow> Some (PDict [(takeWhile (\<lambda>c. c \<noteq> CHR '':'') t, PStr s)]))"

definition wire_prims :: prims where
  "wire_prims = \<lparr>p_sha256 = id, p_canon = wire_dumps, p_dumps = wire_dumps, p_loads = wire_loads,
     p_float_of_int = (\<lambda>i. Fin (of_int i)), p_float_of_str = (\<lambda>s. Inl (Exc ValueErr s)), p_repr = wire_dumps\<rparr>"

definition sample_bridge :: bridge where
  "sample_bridge = \<lparr>pending_requests = [(''req_1'', 0)], seq_no = 1, ctx_index = Some 1\<rparr>"

definition sample_pipeline :: pipeline where
  "sample_pipeline = fire_channel_active ''0123456789'' (add_last (HBridge \<lparr>pending_requests = [], seq_no = 0, ctx_index = None\<rparr>)
     (add_last (HCodec []) (new_pipeline\<lparr>transport := Some \<lparr>paused = False, sent = []\<rparr>\<rparr>)))"

lemma sample_pipeline_eq:
  "sample_pipeline = \<lparr>handlers = [HCodec [], HBridge \<lparr>pending_requests = [], seq_no = 0, ctx_index = Some 1\<rparr>],
     transport = Some \<lparr>paused = False, sent = []\<rparr>, attributes = [], pending_tasks = 0, futures = [], unhandled = []\<rparr>"
  by (simp add: sample_pipeline_def fire_channel_active_def add_last_def new_pipeline_def bridge_active_def set_handler_def eval_nat_numeral)

theorem codec_round_trip_witness:
  "fold (\<lambda>c. process_read wire_prims 2 (MBytes c)) [''a:'', ''b'' @ [CHR 0x0A] @ ''c:'', ''d'' @ [CHR 0x0A]] sample_pipeline =
   fold (\<lambda>d. process_read wire_prims 1 (MVal (PDict d))) [[(''a'', PStr ''b'')], [(''c'', PStr ''d'')]] sample_pipeline"
  using codec_round_trip [of "[[(''a'', PStr ''b'')], [(''c'', PStr ''d'')]]" wire_prims sample_pipeline 0 1
      "[''a:'', ''b'' @ [CHR 0x0A] @ ''c:'', ''d'' @ [CHR 0x0A]]"]
  by (simp add: sample_pipeline_eq wire_prims_def wire_dumps_def wire_loads_def whitespace_def strip_def strip_set_def lstrip_set_def rstrip_set_def
      numeral_2_eq_2)

theorem close_settles_requests_witness:
  "let p = sample_pipeline\<lparr>handlers := [HCodec [], HBridge sample_bridge], futures := [Pending]\<rparr> in
   handlers (fire_channel_inactive p) ! 1 = HBridge (sample_bridge\<lparr>pending_requests := []\<rparr>) \<and>
   closed_outcome (futures p ! 0) (futures (fire_channel_inactive p) ! 0)"
  using close_settles_requests [of "sample_pipeline\<lparr>handlers := [HCodec [], HBridge sample_bridge], futures := [Pending]\<rparr>" 1 sample_bridge "''req_1''" 0]
  by (simp add: sample_bridge_def Let_def)

lemma sample_request:
  "\<exists>q. begin_request wire_prims 1 [(''a'', PStr ''b'')] sample_pipeline = (Inr (''req_'' @ show_nat 1, 0), q)"
  by (simp add: sample_pipeline_eq begin_request_def Let_def set_attr_def set_handler_def codec_write_def)

theorem request_gets_reply_witness:
  "\<exists>q. begin_request wire_prims 1 [(''a'', PStr ''b'')] sample_pipeline = (Inr (''req_'' @ show_nat 1, 0), q) \<and>
     (let q' = process_read wire_prims (length (handlers q) - 1) (MVal (PInt 5)) q in
      end_request 1 (''req_'' @ show_nat 1) 0 q' = (Inr (MVal (PInt 5)), q'))"
  using sample_request request_gets_reply [of wire_prims 1 "[(''a'', PStr ''b'')]" sample_pipeline "''req_'' @ show_nat 1" 0 _ "MVal (PInt 5)"]
  by (auto simp: sample_pipeline_eq)

lemma sample_requests:
  "\<exists>p1 p2 r2. begin_request wire_prims 1 [(''a'', PStr ''b'')] sample_pipeline = (Inr (''req_'' @ show_nat 1, 0), p1) \<and>
     begin_request wire_prims 1 [(''a'', PStr ''b'')] p1 = (Inr (r2, 1), p2)"
  by (simp add: sample_pipeline_eq begin_request_def Let_def set_attr_def set_handler_def codec_write_def)

theorem reply_goes_to_last_request_witness:
  "\<exists>p1 p2 r2. begin_request wire_prims 1 [(''a'', PStr ''b'')] sample_pipeline = (Inr (''req_'' @ show_nat 1, 0), p1) \<and>
     begin_request wire_prims 1 [(''a'', PStr ''b'')] p1 = (Inr (r2, 1), p2) \<and>
     futures (process_read wire_prims (length (handlers p2) - 1) (MVal (PDict [(''_req_id'', PStr ''req_1'')])) p2) ! 0 = Pending"
proof -
  obtain p1 p2 r2 where "begin_request wire_prims 1 [(''a'', PStr ''b'')] sample_pipeline = (Inr (''req_'' @ show_nat 1, 0), p1)"
    "begin_request wire_prims 1 [(''a'', PStr ''b'')] p1 = (Inr (r2, 1), p2)" using sample_requests by blast
  with reply_goes_to_last_request [OF this, of "MVal (PDict [(''_req_id'', PStr ''req_1'')])"]
  show ?thesis by (auto simp: sample_pipeline_eq)
qed

theorem partial_chunks_pause_reading_witness:
  "\<exists>t. transport (fold (\<lambda>c. fire_channel_read wire_prims (MBytes c)) (replicate 1000 ''a'') sample_pipeline) = Some t \<and> paused t"
  using partial_chunks_pause_reading [of sample_pipeline "[]" "HBridge \<lparr>pending_requests = [], seq_no = 0, ctx_index = Some 1\<rparr>" "[]"
      "replicate 1000 ''a''" "\<lparr>paused = False, sent = []\<rparr>" wire_prims]
  by (simp add: sample_pipeline_eq HIGH_WATERMARK_def)

end
