(* ===== verification/EpochCommit.thy ===== *)
theory EpochCommit
  imports Pta
begin

text \<open>
  The epoch commit, \<^verbatim>\<open>state/phase/commit.py\<close>: every repository is inscribed under one nexus id, the
  states of the others are carried over, the epoch is sealed by the wasm engine and recorded in the
  registry of the ledger.

  Arguments are the runner of a repository (it makes the physical commit), the broker, the artefacts
  read from disk, the signing key and the clock; \<open>ep_compact\<close> is \<open>json.dumps\<close> with sorted keys and
  no white space. The registry holds what this module writes: states in a snapshot are strings and
  the fields of a sealed commit have their declared types; anything else raises here. The lock file
  is written for other programs and its errors are caught, so it is left out.
\<close>

section \<open>Model\<close>

record attractor =
  at_name :: string
  at_path :: string
  at_runner :: "string \<Rightarrow> string \<Rightarrow> bool \<Rightarrow> string option \<Rightarrow> string res"

record ('d, 't) epoch_env =
  ep_host :: "('d, 't) host"
  ep_invoke :: "string \<Rightarrow> string \<Rightarrow> string + string"
  ep_files :: "(string \<times> bytes) list"
  ep_compact :: "pyval \<Rightarrow> string"
  ep_clock :: int
  ep_sign :: "string \<Rightarrow> string"
  ep_pubkey :: string
  ep_req :: "string \<Rightarrow> string"

abbreviation ep_prims :: "('d, 't) epoch_env \<Rightarrow> prims" where
  "ep_prims E \<equiv> h_prims (ep_host E)"

definition ERA_DEPTH :: nat where
  "ERA_DEPTH = 3"

definition wasm_manifest :: "('d, 't) epoch_env \<Rightarrow> pydict" where
  "wasm_manifest E = dmerge [] (map (\<lambda>(k, b). (k, PStr (p_sha256 (ep_prims E) b))) (ep_files E))"

definition build_wasm_chain_state :: "('d, 't) epoch_env \<Rightarrow> string \<Rightarrow> pyval \<Rightarrow> string \<Rightarrow> string \<times> string \<times> pydict" where
  "build_wasm_chain_state E prev_chain_hash nexus_id anchor_parent =
     (let P = ep_prims E;
          manifest = wasm_manifest E;
          wasm_root = p_sha256 P (ep_compact E (PDict manifest));
          chain_input = prev_chain_hash @ '':'' @ py_str P nexus_id @ '':'' @ anchor_parent @ '':'' @ wasm_root
      in (wasm_root, p_sha256 P chain_input, manifest))"

text \<open>\<open>d[k] = s\<close> if the string is not empty.\<close>

definition add_text :: "string \<Rightarrow> string \<Rightarrow> pydict \<Rightarrow> pydict" where
  "add_text k s d = (if s = [] then d else dset k (PStr s) d)"

definition tag_text :: "string option \<Rightarrow> string" where
  "tag_text tag = (case tag of None \<Rightarrow> [] | Some t \<Rightarrow> t)"

definition inscribe ::
  "('d, 't) epoch_env \<Rightarrow> attractor \<Rightarrow> pyval \<Rightarrow> pyval \<Rightarrow> string \<Rightarrow> string \<Rightarrow> bool \<Rightarrow> string option \<Rightarrow> string \<Rightarrow> string
     \<Rightarrow> (('d, 't) anchor_store, string) prog" where
  "inscribe E a nexus_id parent_nexus_id parent_commit_id message apply tag chain_hash wasm_root =
     (let model_dict = add_text ''wasm_root'' wasm_root (add_text ''chain_hash'' chain_hash
            (add_text ''version_tag'' (tag_text tag)
              [(''nexus_id'', nexus_id), (''parent_nexus_id'', parent_nexus_id), (''parent_commit_id'', PStr parent_commit_id)]));
          json_payload = ep_compact E (PDict model_dict);
          full_message = message @ [CHR 0x0A, CHR 0x0A] @ json_payload
      in bindp (lift_res (at_runner a (at_path a) full_message apply tag)) (\<lambda>new_commit_id.
           if apply then
             bindp (now (ep_host E)) (\<lambda>t.
             bindp (save_transition (ep_host E) (ep_req E (''blob:'' @ at_name a))
               \<lparr>tb_action = ''align.commit::'' @ at_name a, from_state = parent_commit_id, to_state = new_commit_id,
                tension = Fin 1, details = json_payload, timestamp = t\<rparr>) (\<lambda>_. ret new_commit_id))
           else ret new_commit_id))"

definition registry_key :: "attractor \<Rightarrow> bytes" where
  "registry_key a = ''legacy_registry:'' @ at_name a"

definition load_history :: "('d, 't) epoch_env \<Rightarrow> attractor \<Rightarrow> ('d, 't) anchor_store \<Rightarrow> pyval" where
  "load_history E a st =
     (case h_get (ep_host E) (db st) (registry_key a) of
        Some raw_data \<Rightarrow>
          (case p_loads (ep_prims E) raw_data of
             Some (PDict d) \<Rightarrow> dget_or d ''history'' (PList [])
           | _ \<Rightarrow> PList [])
      | None \<Rightarrow> PList [])"

fun as_list :: "pyval \<Rightarrow> pyval list res" where
  "as_list (PList xs) = Inr xs"
| "as_list v = Inl (Exc TypeErr ''history'')"

fun as_text :: "pyval \<Rightarrow> string res" where
  "as_text (PStr s) = Inr s"
| "as_text v = Inl (Exc TypeErr ''state'')"

text \<open>\<open>snapshot.get(k, {})\<close>.\<close>

definition sub_dict :: "pydict \<Rightarrow> string \<Rightarrow> pydict res" where
  "sub_dict snapshot k = as_dict (dget_or snapshot k (PDict []))"

fun resolve_in :: "string \<Rightarrow> pyval list \<Rightarrow> string option res" where
  "resolve_in repo_name [] = Inr None"
| "resolve_in repo_name (v # vs) =
     bind_res (as_dict v) (\<lambda>snapshot.
     bind_res (sub_dict snapshot ''repos'') (\<lambda>repos.
       case dget repos repo_name of
         Some h \<Rightarrow> bind_res (as_text h) (\<lambda>s. Inr (Some s))
       | None \<Rightarrow>
           bind_res (sub_dict snapshot ''cached_states'') (\<lambda>cached.
             case dget cached repo_name of
               Some h \<Rightarrow> bind_res (as_text h) (\<lambda>s. Inr (Some s))
             | None \<Rightarrow> resolve_in repo_name vs)))"

definition resolve :: "('d, 't) epoch_env \<Rightarrow> attractor \<Rightarrow> string \<Rightarrow> ('d, 't) anchor_store \<Rightarrow> string res" where
  "resolve E a repo_name st =
     bind_res (as_list (load_history E a st)) (\<lambda>history.
     bind_res (resolve_in repo_name (rev (drop (length history - ERA_DEPTH) history))) (\<lambda>r.
       Inr (case r of Some s \<Rightarrow> s | None \<Rightarrow> head_or_genesis (get_head_hash (ep_host E) repo_name st))))"

definition project :: "(string, string) dict \<Rightarrow> (string, string) dict" where
  "project states = states"

section \<open>The commit\<close>

definition init_request :: "('d, 't) epoch_env \<Rightarrow> nat \<Rightarrow> string option \<Rightarrow> pydict" where
  "init_request E n tag = add_text ''version_tag'' (tag_text tag)
     [(''ts'', PInt (ep_clock E)), (''topo'', PInt 1), (''press'', PInt (int n)), (''rupture'', PBool False), (''injected_tick'', PNone)]"

text \<open>What the first half of the commit reads.\<close>

record epoch =
  eo_parity :: pydict
  eo_nexus :: pyval
  eo_history :: "pyval list"
  eo_last :: "pydict option"
  eo_parent_nexus :: pyval
  eo_anchor_parent :: string
  eo_root :: string
  eo_chain :: string

text \<open>\<open>history[-1] if history else None\<close>; every later use also asks whether the snapshot is true.\<close>

definition last_snapshot :: "pyval list \<Rightarrow> pydict option res" where
  "last_snapshot history =
     (if history = [] \<or> \<not> truthy (List.last history) then Inr None
      else bind_res (as_dict (List.last history)) (\<lambda>d. Inr (Some d)))"

definition read_epoch ::
  "('d, 't) epoch_env \<Rightarrow> attractor \<Rightarrow> pydict \<Rightarrow> ('d, 't) anchor_store \<Rightarrow> epoch res" where
  "read_epoch E mgr parity st =
     bind_res (as_list (load_history E mgr st)) (\<lambda>history.
     bind_res (last_snapshot history) (\<lambda>last_snap.
     bind_res (case last_snap of
                 Some snap \<Rightarrow> bind_res (sub_dict snap ''parity'') (\<lambda>d. Inr (dget_or d ''nexus_id'' (PInt 0)))
               | None \<Rightarrow> Inr (PInt 0)) (\<lambda>parent_nexus_id.
     bind_res (resolve E mgr (at_name mgr) st) (\<lambda>anchor_parent_state.
       let nexus_id = dget_or parity ''nexus_id'' PNone;
           prev_chain_hash = (case last_snap of
             Some snap \<Rightarrow> py_str (ep_prims E) (dget_or snap ''chain_hash'' (PStr ''genesis'')) | None \<Rightarrow> ''genesis'');
           chain = build_wasm_chain_state E prev_chain_hash nexus_id anchor_parent_state
       in Inr \<lparr>eo_parity = parity, eo_nexus = nexus_id, eo_history = history, eo_last = last_snap,
               eo_parent_nexus = parent_nexus_id, eo_anchor_parent = anchor_parent_state,
               eo_root = fst chain, eo_chain = fst (snd chain)\<rparr>))))"

fun inscribe_all ::
  "('d, 't) epoch_env \<Rightarrow> attractor \<Rightarrow> epoch \<Rightarrow> string \<Rightarrow> bool \<Rightarrow> string option \<Rightarrow> attractor list \<Rightarrow> (string, string) dict
     \<Rightarrow> (('d, 't) anchor_store, (string, string) dict) prog" where
  "inscribe_all E mgr eo message apply tag [] states = ret states"
| "inscribe_all E mgr eo message apply tag (r # rs) states =
     bindp (\<lambda>st. (resolve E mgr (at_name r) st, st)) (\<lambda>parent_state.
     bindp (inscribe E r (eo_nexus eo) (eo_parent_nexus eo) parent_state message apply tag (eo_chain eo) (eo_root eo)) (\<lambda>h.
       inscribe_all E mgr eo message apply tag rs (dset (at_name r) h states)))"

definition carried_states :: "string \<Rightarrow> pydict option \<Rightarrow> (string, string) dict \<Rightarrow> pydict res" where
  "carried_states anchor_name last_snap current =
     (case last_snap of
        None \<Rightarrow> Inr []
      | Some snap \<Rightarrow>
          bind_res (sub_dict snap ''repos'') (\<lambda>repos.
          bind_res (sub_dict snap ''cached_states'') (\<lambda>cached.
            Inr (filter (\<lambda>(name, _). \<not> dhas current name \<and> name \<noteq> anchor_name) (dmerge (dmerge [] repos) cached)))))"

fun int_arg :: "pyval \<Rightarrow> int option res" where
  "int_arg (PInt i) = Inr (Some i)"
| "int_arg PNone = Inr None"
| "int_arg v = Inl (Exc TypeErr ''parent_nexus_id'')"

definition texts :: "(string, string) dict \<Rightarrow> pydict" where
  "texts d = map (\<lambda>(k, v). (k, PStr v)) d"

text \<open>The signature of the epoch and the payload for the engine.\<close>

definition epoch_payload ::
  "('d, 't) epoch_env \<Rightarrow> epoch \<Rightarrow> (string, string) dict \<Rightarrow> pydict \<Rightarrow> (string \<times> pydict) res" where
  "epoch_payload E eo current cached =
     (let P = ep_prims E in
      bind_res (int_arg (eo_parent_nexus eo)) (\<lambda>parent_nexus_id.
      bind_res (build_anchor_commit P (eo_parity eo) parent_nexus_id (eo_anchor_parent eo) (texts current) cached) (\<lambda>d.
        let signature_hex = sign_state_payload P (ep_sign E) d in
        bind_res (build_seal_epoch_payload P (eo_parity eo) parent_nexus_id (eo_anchor_parent eo) (texts current) cached
            (p_float_of_int P (ep_clock E)) [ep_pubkey E] [signature_hex] (Some 1) None) (\<lambda>payload.
          Inr (signature_hex, payload)))))"

definition set_repo :: "string \<Rightarrow> pyval \<Rightarrow> pydict \<Rightarrow> pydict" where
  "set_repo name v payload =
     (case dget payload ''repos'' of
        Some (PDict r) \<Rightarrow> dset ''repos'' (PDict (dset name v r)) payload
      | _ \<Rightarrow> payload)"

definition final_snapshot :: "attractor \<Rightarrow> epoch \<Rightarrow> pydict \<Rightarrow> pydict \<Rightarrow> pydict res" where
  "final_snapshot mgr eo sealed_data seal_payload =
     bind_res (case dget sealed_data ''anchor_result'' of
                 None \<Rightarrow> Inr seal_payload
               | Some r \<Rightarrow>
                   bind_res (as_dict r) (\<lambda>d.
                     case dget d ''commit_hash'' of
                       None \<Rightarrow> Inl (Exc KeyErr ''commit_hash'')
                     | Some v \<Rightarrow> Inr (set_repo (at_name mgr) v seal_payload))) (\<lambda>payload.
       Inr (dset ''wasm_root'' (PStr (eo_root eo)) (dset ''chain_hash'' (PStr (eo_chain eo)) payload)))"

definition commit_fields :: "string list" where
  "commit_fields = [''stream_id'', ''executable_payload'', ''tension_at_seal'', ''blob_hashes'', ''parent_hash'', ''sealed_at'']"

fun as_float :: "pyval \<Rightarrow> pyfloat res" where
  "as_float (PFloat f) = Inr f"
| "as_float v = Inl (Exc TypeErr ''float'')"

fun opt_text :: "pyval \<Rightarrow> string option res" where
  "opt_text PNone = Inr None"
| "opt_text (PStr s) = Inr (Some s)"
| "opt_text v = Inl (Exc TypeErr ''parent_hash'')"

definition required :: "pydict \<Rightarrow> string \<Rightarrow> pyval res" where
  "required d k = (case dget d k of Some v \<Rightarrow> Inr v | None \<Rightarrow> Inl (Exc TypeErr k))"

text \<open>\<open>PhaseCommit(**d)\<close>; \<open>t\<close> is the time for a missing \<open>sealed_at\<close>.\<close>

definition load_commit :: "pyfloat \<Rightarrow> pyval \<Rightarrow> phase_commit res" where
  "load_commit t v =
     (case v of
        PDict d \<Rightarrow>
          if \<not> set (dkeys d) \<subseteq> set commit_fields then Inl (Exc TypeErr ''unexpected keyword argument'')
          else
            bind_res (bind_res (required d ''stream_id'') as_text) (\<lambda>sid.
            bind_res (required d ''executable_payload'') (\<lambda>payload.
            bind_res (bind_res (required d ''tension_at_seal'') as_float) (\<lambda>tens.
            bind_res (bind_res (bind_res (required d ''blob_hashes'') as_list) (map_res as_text)) (\<lambda>hashes.
            bind_res (opt_text (dget_or d ''parent_hash'' PNone)) (\<lambda>parent.
            bind_res (as_float (dget_or d ''sealed_at'' (PFloat t))) (\<lambda>tm.
              Inr \<lparr>stream_id = sid, executable_payload = payload, tension_at_seal = tens, blob_hashes = hashes,
                   parent_hash = parent, sealed_at = tm\<rparr>))))))
      | _ \<Rightarrow> Inl (Exc TypeErr ''argument after ** must be a mapping''))"

definition link_parent :: "('d, 't) host \<Rightarrow> ('d, 't) anchor_store \<Rightarrow> phase_commit \<Rightarrow> phase_commit" where
  "link_parent H st c =
     (case parent_hash c of
        Some (_ # _) \<Rightarrow> c
      | _ \<Rightarrow> c\<lparr>parent_hash := Some (head_or_genesis (get_head_hash H ''global_era_anchor'' st))\<rparr>)"

fun update_heads :: "('d, 't) epoch_env \<Rightarrow> (string, string) dict \<Rightarrow> (('d, 't) anchor_store, unit) prog" where
  "update_heads E [] = ret ()"
| "update_heads E ((name, h) # rest) =
     bindp (update_head (ep_host E) (ep_req E (''head:'' @ name)) name h) (\<lambda>_. update_heads E rest)"

text \<open>\<open>try: m; except PermissionError: return\<close>.\<close>

definition catch_permission :: "('s, unit) prog \<Rightarrow> ('s, unit) prog" where
  "catch_permission m s =
     (case m s of
        (Inl e, s') \<Rightarrow> if kind_of_exc e = PermissionErr then (Inr (), s') else (Inl e, s')
      | r \<Rightarrow> r)"

definition fix_era ::
  "('d, 't) epoch_env \<Rightarrow> (string, string) dict \<Rightarrow> string \<Rightarrow> phase_commit \<Rightarrow> (('d, 't) anchor_store, unit) prog" where
  "fix_era E current signature_hex commit st =
     (if role st = PROPOSER then
        bindp (put_object (ep_host E) (ep_req E ''proposal'') ''commit_proposal'' (PDict (asdict_commit commit))) (\<lambda>_. ret ()) st
      else catch_permission
        (bindp (seal_system_epoch (ep_host E) (ep_req E ''seal'') commit [signature_hex] 1) (\<lambda>commit_hash.
         bindp (update_head (ep_host E) (ep_req E ''era'') ''global_era_anchor'' commit_hash) (\<lambda>_.
           update_heads E current))) st)"

definition record_epoch ::
  "('d, 't) epoch_env \<Rightarrow> attractor \<Rightarrow> epoch \<Rightarrow> (string, string) dict \<Rightarrow> string \<Rightarrow> pydict \<Rightarrow> string
     \<Rightarrow> (('d, 't) anchor_store, unit) prog" where
  "record_epoch E mgr eo current signature_hex seal_payload seal_output =
     (let P = ep_prims E; H = ep_host E in
      bindp (lift_res (case p_loads P seal_output of Some v \<Rightarrow> as_dict v | None \<Rightarrow> Inl (Exc JsonDecodeErr seal_output))) (\<lambda>sealed_data.
      bindp (lift_res (final_snapshot mgr eo sealed_data seal_payload)) (\<lambda>snapshot.
      bindp (catch_with () (on_db (h_put H (registry_key mgr)
          (p_dumps P (PDict [(''history'', PList (eo_history eo @ [PDict snapshot]))]))))) (\<lambda>_.
      bindp (now H) (\<lambda>t.
      bindp (lift_res (load_commit t (dget_or sealed_data ''kernel_commit'' PNone))) (\<lambda>commit st.
        fix_era E current signature_hex (link_parent H st commit) st))))))"

definition anchor_commit ::
  "('d, 't) epoch_env \<Rightarrow> attractor list \<Rightarrow> attractor \<Rightarrow> string \<Rightarrow> bool \<Rightarrow> string option \<Rightarrow> (('d, 't) anchor_store, unit) prog" where
  "anchor_commit E repos mgr message apply tag =
     (let P = ep_prims E in
      case ep_invoke E ''init_epoch'' (p_canon P (PDict (init_request E (length repos) tag))) of
        Inl _ \<Rightarrow> ret ()
      | Inr init_output \<Rightarrow>
          bindp (lift_res (case p_loads P init_output of Some v \<Rightarrow> as_dict v | None \<Rightarrow> Inl (Exc JsonDecodeErr init_output))) (\<lambda>parity.
          bindp (\<lambda>st. (read_epoch E mgr parity st, st)) (\<lambda>eo.
          bindp (inscribe_all E mgr eo message apply tag repos []) (\<lambda>current.
          bindp (lift_res (carried_states (at_name mgr) (eo_last eo) current)) (\<lambda>cached.
          bindp (lift_res (epoch_payload E eo current cached)) (\<lambda>(signature_hex, seal_payload).
            case ep_invoke E ''seal_epoch'' (p_canon P (PDict seal_payload)) of
              Inl _ \<Rightarrow> ret ()
            | Inr seal_output \<Rightarrow>
                if apply then record_epoch E mgr eo current signature_hex seal_payload seal_output else ret ()))))))"


section \<open>What every stage keeps\<close>

definition keeps :: "('s \<Rightarrow> bool) \<Rightarrow> ('s, 'a) prog \<Rightarrow> bool" where
  "keeps I m \<longleftrightarrow> (\<forall>s. I s \<longrightarrow> I (snd (m s)))"

lemma keeps_bindp [intro]: "keeps I m \<Longrightarrow> (\<And>x. keeps I (f x)) \<Longrightarrow> keeps I (bindp m f)"
  unfolding keeps_def bindp_def by (metis (mono_tags, lifting) old.prod.case prod.collapse snd_conv sum.case_eq_if)

lemma keeps_pure [intro, simp]: "keeps I (ret x)" "keeps I (lift_res r)" "keeps I (\<lambda>s. (f s, s))"
  by (simp_all add: keeps_def ret_def lift_res_def)

lemma keeps_catch [intro]: "keeps I m \<Longrightarrow> keeps I (catch_with v m)"
  by (auto simp: keeps_def catch_with_def split: prod.split sum.split)

lemma inscribe_dry [simp]: "keeps I (inscribe E a n pn pc msg False tag ch wr)"
  by (auto simp: inscribe_def Let_def)

lemma inscribe_all_dry: "keeps I (inscribe_all E mgr eo msg False tag rs states)"
  by (induction rs arbitrary: states) (auto intro!: keeps_bindp)

lemma anchor_commit_dry: "keeps I (anchor_commit E repos mgr msg False tag)"
  unfolding anchor_commit_def Let_def
  by (auto split: sum.split simp: inscribe_all_dry intro!: keeps_bindp)

text \<open>
  A dry run changes nothing: without \<open>apply\<close> the ledger is the same afterwards, whatever the
  repositories, the engine and the registry answer.
\<close>

theorem dry_run_pure: "snd (anchor_commit E repos mgr message False tag st) = st"
  using anchor_commit_dry [of "\<lambda>s. s = st"] by (simp add: keeps_def)

lemma keeps_lift: "(\<And>x. r = Inr x \<Longrightarrow> keeps I (f x)) \<Longrightarrow> keeps I (bindp (lift_res r) f)"
  by (cases r) (simp_all add: keeps_def bindp_def lift_res_def)

lemma keeps_dep: "(\<And>s. keeps I (m s)) \<Longrightarrow> keeps I (\<lambda>s. m s s)"
  by (simp add: keeps_def)

lemma keeps_now [intro, simp]: "(\<And>s n. I (s\<lparr>ticks := n\<rparr>) = I s) \<Longrightarrow> keeps I (now H)"
  by (simp add: keeps_def now_def)

section \<open>The era is never fixed\<close>

definition keys_as :: "bytes set \<Rightarrow> fdb_driver \<Rightarrow> (fdb_driver, 't) anchor_store \<Rightarrow> bool" where
  "keys_as K d st \<longleftrightarrow> role st = SEALER \<and> fdb_ok (db st) \<and> (\<forall>k \<in> K. fdb_get (db st) k = fdb_get d k)"

abbreviation heads_as :: "fdb_driver \<Rightarrow> (fdb_driver, 't) anchor_store \<Rightarrow> bool" where
  "heads_as \<equiv> keys_as (range key_ref)"

lemma keys_ticks [simp]: "keys_as K d (s\<lparr>ticks := n\<rparr>) = keys_as K d s"
  by (simp add: keys_as_def)

lemma snd_on_db: "snd (on_db m st) = st\<lparr>db := snd (m (db st))\<rparr>"
  by (simp add: on_db_def split: prod.split)

lemma keys_role: "keys_as K d s \<Longrightarrow> role s = SEALER"
  by (simp add: keys_as_def)

lemma keys_put: "k \<notin> K \<Longrightarrow> keeps (keys_as K d) (on_db (h_put (fdb_host B) k v))"
  by (auto simp: keeps_def keys_as_def snd_on_db fdb_get_put fdb_ok_put fdb_host_def)

lemma keys_put_object:
  assumes "\<And>h. object_key ty h \<notin> K"
  shows "keeps (keys_as K d) (put_object (fdb_host B) r ty data)"
proof -
  have "keeps (keys_as K d) (bindp (on_db (h_put (fdb_host B) (object_key ty h) t)) (\<lambda>_. ret x))" for h t and x :: string
    by (intro keeps_bindp keys_put assms keeps_pure)
  then show ?thesis by (auto simp: keeps_def put_object_def Let_def dest: keys_role)
qed

lemma keys_head: "key_ref sid \<notin> K \<Longrightarrow> keeps (keys_as K d) (update_head (fdb_host B) r sid c)"
  using keys_put [of "key_ref sid" K d B c] by (auto simp: keeps_def update_head_def keys_as_def)

text \<open>Keys that no blob has are not touched by inscribing.\<close>

definition no_blob :: "bytes set \<Rightarrow> bool" where
  "no_blob K \<longleftrightarrow> (\<forall>h. object_key ''blob'' h \<notin> K)"

lemma no_blob_sets [simp]: "no_blob (range key_ref)" "no_blob {registry_key mgr}"
  by (auto simp: no_blob_def registry_key_def object_key_def key_ref_def)

lemma keys_blob: "no_blob K \<Longrightarrow> keeps (keys_as K d) (save_transition (fdb_host B) r b)"
  by (auto simp: save_transition_def no_blob_def intro: keys_put_object)

lemma keys_inscribe:
  "ep_host E = fdb_host B \<Longrightarrow> no_blob K \<Longrightarrow> keeps (keys_as K d) (inscribe E a n pn pc msg apply tag ch wr)"
  by (auto simp: inscribe_def Let_def intro!: keeps_bindp keys_blob)

lemma keys_inscribe_all:
  "ep_host E = fdb_host B \<Longrightarrow> no_blob K \<Longrightarrow> keeps (keys_as K d) (inscribe_all E mgr eo msg apply tag rs states)"
  by (induction rs arbitrary: states) (auto intro!: keeps_bindp keys_inscribe)

lemma keys_reject: "no_blob K \<Longrightarrow> keeps (keys_as K d) (reject_epoch (fdb_host B) r msg)"
  by (auto simp: reject_epoch_def handle_warden_anomaly_def raise_def intro!: keeps_bindp keys_blob)

lemma reject_raises: "\<exists>e. fst (reject_epoch H r msg s) = Inl e"
  by (auto simp: reject_epoch_def bindp_def raise_def split: prod.split sum.split)

lemma heads_rejected:
  assumes "ep_host E = fdb_host B" "\<not> h_verify B (p_canon (h_prims B) (PDict (asdict_commit c))) sg"
  shows "keeps (heads_as d) (fix_era E current sg c)"
proof -
  have v: "valid_count (fdb_host B) (p_canon (h_prims B) (PDict (asdict_commit c))) [sg] = 0"
    using assms(2) by (simp add: valid_count_def fdb_host_def)
  obtain msg where rej: "seal_system_epoch (fdb_host B) (ep_req E ''seal'') c [sg] 1 = reject_epoch (fdb_host B) (ep_req E ''seal'') msg"
    using seal_system_epoch_cases [of "fdb_host B" "ep_req E ''seal''" c "[sg]" 1] v by auto
  have "snd (fix_era E current sg c s) = snd (reject_epoch (fdb_host B) (ep_req E ''seal'') msg s)" if "role s = SEALER" for s
    using that reject_raises [of "fdb_host B" "ep_req E ''seal''" msg s]
    by (auto simp: fix_era_def assms(1) rej catch_permission_def bindp_def split: prod.split sum.split)
  then show ?thesis using keys_reject [of "range key_ref"] by (simp add: keeps_def keys_as_def)
qed

lemma heads_record_epoch:
  assumes "ep_host E = fdb_host B" "\<And>c. \<not> h_verify B (p_canon (h_prims B) (PDict (asdict_commit c))) sg"
  shows "keeps (heads_as d) (record_epoch E mgr eo current sg payload out)"
proof -
  have reg: "keeps (heads_as d) (on_db (h_put (fdb_host B) (registry_key mgr) t))" for t
    by (rule keys_put) (auto simp: registry_key_def key_ref_def)
  show ?thesis
    unfolding record_epoch_def Let_def assms(1)
    by (rule keeps_lift, rule keeps_lift, rule keeps_bindp, rule keeps_catch, rule reg, rule keeps_bindp, rule keeps_now,
        rule keys_ticks, rule keeps_lift, rule keeps_dep, rule heads_rejected [OF assms])
qed

text \<open>
  The signature of an epoch does not match what it is checked against: it is made over the anchor
  commit and verified over the kernel commit. If a signature is only accepted for the text it was
  made for, and the hash tells dictionaries with different keys apart, no epoch commit on the
  sealer ever moves a head, although its registry entry is written.
\<close>

theorem epoch_never_moves_heads:
  assumes "ep_host E = fdb_host B" "role st = SEALER" "fdb_ok (db st)"
    and "\<And>m sg. h_verify B m sg = verify_signature (h_prims B) nacl own m sg None"
    and "\<And>m m'. nacl own m (ep_sign E m') \<Longrightarrow> m = m'"
    and "\<And>a b. p_sha256 (h_prims B) (p_canon (h_prims B) (PDict a)) = p_sha256 (h_prims B) (p_canon (h_prims B) (PDict b)) \<Longrightarrow>
        set (dkeys a) = set (dkeys b)"
  shows "get_head_hash (fdb_host B) sid (snd (anchor_commit E repos mgr message apply tag st)) = get_head_hash (fdb_host B) sid st"
proof -
  have nv: "\<not> h_verify B (p_canon (h_prims B) (PDict (asdict_commit c))) sg"
    if p: "epoch_payload E eo current cached = Inr (sg, payload)" for eo current cached sg payload c
  proof
    assume h: "h_verify B (p_canon (h_prims B) (PDict (asdict_commit c))) sg"
    from p obtain pn d where d: "build_anchor_commit (h_prims B) (eo_parity eo) pn (eo_anchor_parent eo) (texts current) cached = Inr d"
      "sg = sign_state_payload (h_prims B) (ep_sign E) d"
      by (auto simp: epoch_payload_def Let_def bind_res_Inr assms(1))
    then have "''parity'' \<in> set (dkeys d)" by (auto simp: build_anchor_commit_def bind_res_Inr dkeys_def)
    moreover have "nacl own (p_sha256 (h_prims B) (p_canon (h_prims B) (PDict (asdict_commit c))))
        (ep_sign E (p_sha256 (h_prims B) (p_canon (h_prims B) (PDict d))))"
      using h unfolding assms(4) d(2) verify_signature_def sign_state_payload_def by simp
    then have "set (dkeys (asdict_commit c)) = set (dkeys d)" by (rule assms(6) [OF assms(5)])
    ultimately have "''parity'' \<in> set (dkeys (asdict_commit c))" by simp
    then show False by (simp add: asdict_commit_def dkeys_def)
  qed
  have body: "keeps (heads_as (db st)) (case sp of (sg, payload) \<Rightarrow>
      case ep_invoke E ''seal_epoch'' (p_canon (ep_prims E) (PDict payload)) of
        Inl _ \<Rightarrow> ret ()
      | Inr out \<Rightarrow> if apply then record_epoch E mgr eo current sg payload out else ret ())"
    if "epoch_payload E eo current cached = Inr sp" for eo current cached sp
  proof (cases sp)
    case (Pair sg payload)
    have "keeps (heads_as (db st)) (record_epoch E mgr eo current sg payload out)" for out
      by (rule heads_record_epoch [OF assms(1)]) (rule nv [OF that [unfolded Pair]])
    then show ?thesis by (simp add: Pair split: sum.split)
  qed
  have "keeps (heads_as (db st)) (anchor_commit E repos mgr message apply tag)"
  proof (cases "ep_invoke E ''init_epoch'' (p_canon (ep_prims E) (PDict (init_request E (length repos) tag)))")
    case (Inr out)
    show ?thesis
      unfolding anchor_commit_def Let_def Inr sum.case
      by (rule keeps_lift, rule keeps_bindp, rule keeps_pure, rule keeps_bindp, rule keys_inscribe_all [OF assms(1)], simp,
          rule keeps_lift, rule keeps_lift, rule body)
  qed (simp add: anchor_commit_def Let_def)
  moreover have "heads_as (db st) st" using assms(2,3) by (simp add: keys_as_def)
  ultimately show ?thesis by (simp add: keeps_def ledger.get_head_hash_eq keys_as_def)
qed

section \<open>The registry\<close>

text \<open>
  The snapshots the module writes: the fresh and the carried states are strings under different
  names, and the nexus id is a 32-bit number.
\<close>

definition state_dict :: "pydict \<Rightarrow> bool" where
  "state_dict d \<longleftrightarrow> wf_dict d \<and> (\<forall>v \<in> set (dvalues d). is_str v)"

definition good_parity :: "pydict \<Rightarrow> bool" where
  "good_parity parity \<longleftrightarrow> (case dget_or parity ''nexus_id'' (PInt 0) of PInt i \<Rightarrow> uint32 i | PNone \<Rightarrow> True | _ \<Rightarrow> False)"

definition snapshot_ok :: "pydict \<Rightarrow> bool" where
  "snapshot_ok s \<longleftrightarrow> (\<exists>repos cached parity. dget s ''repos'' = Some (PDict repos) \<and> dget s ''cached_states'' = Some (PDict cached) \<and>
     dget s ''parity'' = Some (PDict parity) \<and> state_dict repos \<and> state_dict cached \<and> good_parity parity \<and>
     set (dkeys repos) \<inter> set (dkeys cached) = {})"

definition snap_state :: "pydict \<Rightarrow> string \<Rightarrow> string option" where
  "snap_state s name = (case resolve_in name [PDict s] of Inr r \<Rightarrow> r | Inl _ \<Rightarrow> None)"

lemma state_dict_text: "state_dict d \<Longrightarrow> dget d k = Some v \<Longrightarrow> \<exists>t. v = PStr t"
  by (metis dvalues_def is_str.elims(2) map_of_SomeD image_eqI list.set_map snd_conv state_dict_def)

fun text_of :: "pyval \<Rightarrow> string" where
  "text_of (PStr s) = s"
| "text_of v = []"

lemma resolve_in_one:
  assumes "dget s ''repos'' = Some (PDict repos)" "dget s ''cached_states'' = Some (PDict cached)" "state_dict repos" "state_dict cached"
  shows "resolve_in name (PDict s # vs) =
    (case dget (dmerge cached repos) name of Some v \<Rightarrow> Inr (Some (text_of v)) | None \<Rightarrow> resolve_in name vs)"
proof -
  have m: "dget (dmerge cached repos) name = (case dget repos name of Some v \<Rightarrow> Some v | None \<Rightarrow> dget cached name)"
    using assms(3) by (simp add: dget_dmerge state_dict_def wf_dget_rev split: option.split)
  show ?thesis
    using assms state_dict_text [OF assms(3), of name] state_dict_text [OF assms(4), of name]
    by (auto simp: m sub_dict_def dget_or_def split: option.splits)
qed

lemma resolve_in_ok: "\<forall>v \<in> set vs. \<exists>s. v = PDict s \<and> snapshot_ok s \<Longrightarrow> \<exists>r. resolve_in name vs = Inr r"
proof (induction vs)
  case (Cons v vs)
  then obtain s repos cached where s: "v = PDict s" "dget s ''repos'' = Some (PDict repos)" "dget s ''cached_states'' = Some (PDict cached)"
    "state_dict repos" "state_dict cached" by (auto simp: snapshot_ok_def)
  from Cons resolve_in_one [OF s(2-5), of name vs] show ?case by (auto simp del: resolve_in.simps simp: s(1) split: option.splits)
qed simp

definition history_ok :: "('d, 't) epoch_env \<Rightarrow> attractor \<Rightarrow> pydict list \<Rightarrow> ('d, 't) anchor_store \<Rightarrow> bool" where
  "history_ok E mgr snaps st \<longleftrightarrow> load_history E mgr st = PList (map PDict snaps) \<and> (\<forall>s \<in> set snaps. snapshot_ok s)"

lemma resolve_ok: "history_ok E mgr snaps st \<Longrightarrow> \<exists>h. resolve E mgr name st = Inr h"
proof -
  assume h: "history_ok E mgr snaps st"
  have "\<exists>r. resolve_in name (rev (drop n (map PDict snaps))) = Inr r" for n
    using h by (intro resolve_in_ok) (auto simp: history_ok_def dest!: in_set_dropD)
  then obtain r where "resolve_in name (rev (drop (length snaps - ERA_DEPTH) (map PDict snaps))) = Inr r" by blast
  then show ?thesis using h by (simp add: resolve_def history_ok_def)
qed

text \<open>
  The newest snapshot answers for every repository it knows, whether it was committed in that
  epoch or carried over.
\<close>

theorem resolve_newest:
  assumes "history_ok E mgr (snaps @ [s]) st" "snap_state s name = Some h"
  shows "resolve E mgr name st = Inr h"
proof -
  have "resolve_in name [PDict s] = Inr (Some h)"
    using assms(2) by (auto simp: snap_state_def split: sum.splits)
  then have "resolve_in name (PDict s # vs) = Inr (Some h)" for vs
    by (auto simp: bind_res_Inr bind_res_def split: option.splits sum.splits)
  moreover have "rev (drop (length (map PDict (snaps @ [s])) - ERA_DEPTH) (map PDict (snaps @ [s]))) =
      PDict s # rev (drop (length snaps + 1 - ERA_DEPTH) (map PDict snaps))"
    by (simp add: ERA_DEPTH_def)
  ultimately show ?thesis using assms(1) by (simp add: resolve_def history_ok_def del: resolve_in.simps)
qed

lemma inscribe_ok:
  assumes "ep_host E = fdb_host B" "role st = SEALER" "fdb_room (db st) (Suc n)"
    and "\<exists>h. at_runner a (at_path a) m True tag = Inr h"
    and "m = msg @ [CHR 0x0A, CHR 0x0A] @ ep_compact E (PDict (add_text ''wasm_root'' wr (add_text ''chain_hash'' ch
      (add_text ''version_tag'' (tag_text tag) [(''nexus_id'', nx), (''parent_nexus_id'', pn), (''parent_commit_id'', PStr pc)]))))"
  shows "\<exists>h st'. inscribe E a nx pn pc msg True tag ch wr st = (Inr h, st') \<and> role st' = SEALER \<and> fdb_room (db st') n"
  using assms
  by (auto simp: inscribe_def Let_def bindp_def lift_res_def now_def save_transition_def ledger.put_object_eq [where n = n]
      ret_def ledger.room_ins)

lemma inscribe_all_ok:
  assumes "ep_host E = fdb_host B" "\<forall>r \<in> set rs. \<forall>m. \<exists>h. at_runner r (at_path r) m True tag = Inr h"
    and "role st = SEALER" "fdb_ok (db st)" "fdb_room (db st) (length rs + n)" "history_ok E mgr snaps st" "wf_dict states"
  shows "\<exists>states' st'. inscribe_all E mgr eo msg True tag rs states st = (Inr states', st') \<and> role st' = SEALER \<and>
    fdb_room (db st') n \<and> wf_dict states' \<and> set (dkeys states') = set (dkeys states) \<union> at_name ` set rs \<and>
    length states' \<le> length states + length rs"
  using assms(2-)
proof (induction rs arbitrary: st states)
  case (Cons r rs)
  obtain pc where pc: "resolve E mgr (at_name r) st = Inr pc" using resolve_ok [OF Cons.prems(5)] by blast
  let ?i = "inscribe E r (eo_nexus eo) (eo_parent_nexus eo) pc msg True tag (eo_chain eo) (eo_root eo)"
  have rm: "fdb_room (db st) (Suc (length rs + n))" using Cons.prems(4) by simp
  obtain h st1 where st1: "?i st = (Inr h, st1)" "role st1 = SEALER" "fdb_room (db st1) (length rs + n)"
    using inscribe_ok [OF assms(1) Cons.prems(2) rm _ refl] Cons.prems(1) by (meson list.set_intros(1))
  have "keys_as {registry_key mgr} (db st) st1"
    using keys_inscribe [OF assms(1) no_blob_sets(2), unfolded keeps_def] Cons.prems(2,3) st1(1) by (metis keys_as_def snd_conv)
  then have k: "fdb_ok (db st1)" "fdb_get (db st1) (registry_key mgr) = fdb_get (db st) (registry_key mgr)"
    by (simp_all add: keys_as_def)
  have h1: "history_ok E mgr snaps st1"
    using Cons.prems(5) k(2) by (simp add: history_ok_def load_history_def assms(1) ledger.host_get)
  have "length (dset (at_name r) h states) \<le> Suc (length states)" by (induction states) auto
  then show ?case
    using Cons.IH [OF _ st1(2) k(1) st1(3) h1, of "dset (at_name r) h states"] Cons.prems(1,6) st1(1) pc
    by (auto simp: bindp_def)
qed (simp add: ret_def)

text \<open>Reading the epoch and the payload always succeeds on such a history.\<close>

definition history_last :: "pydict list \<Rightarrow> pydict option" where
  "history_last snaps = (if snaps = [] then None else Some (List.last snaps))"

definition chain_of :: "('d, 't) epoch_env \<Rightarrow> pydict list \<Rightarrow> pydict \<Rightarrow> string \<Rightarrow> string \<Rightarrow> string" where
  "chain_of E snaps parity parent wr =
     p_sha256 (ep_prims E) ((case history_last snaps of None \<Rightarrow> ''genesis''
        | Some s \<Rightarrow> py_str (ep_prims E) (dget_or s ''chain_hash'' (PStr ''genesis''))) @ '':'' @
      py_str (ep_prims E) (dget_or parity ''nexus_id'' PNone) @ '':'' @ parent @ '':'' @ wr)"

lemma snapshot_ok_nonempty: "snapshot_ok s \<Longrightarrow> s \<noteq> []"
  by (auto simp: snapshot_ok_def)

lemma last_snapshot_ok:
  assumes "\<forall>s \<in> set snaps. snapshot_ok s"
  shows "last_snapshot (map PDict snaps) = Inr (history_last snaps)"
proof (cases "snaps = []")
  case False
  then have "snapshot_ok (List.last snaps)" using assms by simp
  with False snapshot_ok_nonempty show ?thesis by (auto simp: last_snapshot_def history_last_def last_map)
qed (simp add: last_snapshot_def history_last_def)

lemma read_epoch_ok:
  assumes "history_ok E mgr snaps st"
  shows "\<exists>eo. read_epoch E mgr parity st = Inr eo \<and> eo_parity eo = parity \<and> eo_history eo = map PDict snaps \<and>
    eo_last eo = history_last snaps \<and> resolve E mgr (at_name mgr) st = Inr (eo_anchor_parent eo) \<and>
    eo_chain eo = chain_of E snaps parity (eo_anchor_parent eo) (eo_root eo) \<and>
    (\<exists>pn. int_arg (eo_parent_nexus eo) = Inr pn \<and> (\<forall>i. pn = Some i \<longrightarrow> uint32 i))"
proof -
  have l: "as_list (load_history E mgr st) = Inr (map PDict snaps)" "last_snapshot (map PDict snaps) = Inr (history_last snaps)"
    using assms last_snapshot_ok by (simp_all add: history_ok_def)
  obtain h where h: "resolve E mgr (at_name mgr) st = Inr h" using resolve_ok [OF assms] by blast
  have p: "\<exists>v pn. (case history_last snaps of Some snap \<Rightarrow> bind_res (sub_dict snap ''parity'') (\<lambda>d. Inr (dget_or d ''nexus_id'' (PInt 0)))
      | None \<Rightarrow> Inr (PInt 0)) = Inr v \<and> int_arg v = Inr pn \<and> (\<forall>i. pn = Some i \<longrightarrow> uint32 i)"
  proof (cases "snaps = []")
    case False
    then have "snapshot_ok (List.last snaps)" using assms by (simp add: history_ok_def)
    then obtain parity where "dget (List.last snaps) ''parity'' = Some (PDict parity)" "good_parity parity"
      by (auto simp: snapshot_ok_def)
    with False show ?thesis
      by (auto simp: history_last_def sub_dict_def dget_or_def good_parity_def split: pyval.splits option.splits)
  qed (auto simp: history_last_def uint32_def)
  then show ?thesis
    by (auto simp: read_epoch_def l h Let_def build_wasm_chain_state_def chain_of_def)
qed

lemma texts_safe: "safe_map P (texts d) = texts d"
  by (induction d) (auto simp: safe_map_def texts_def)

lemma state_dict_safe: "state_dict d \<Longrightarrow> safe_map P d = d"
proof (induction d)
  case (Cons x d)
  then show ?case by (cases x; cases "snd x") (auto simp: safe_map_def state_dict_def wf_dict_def dvalues_def)
qed (simp add: safe_map_def)

lemma state_dict_texts: "wf_dict d \<Longrightarrow> state_dict (texts d)"
  by (auto simp: state_dict_def wf_dict_def texts_def dvalues_def comp_def case_prod_unfold)

lemma dkeys_texts [simp]: "dkeys (texts d) = dkeys d"
  by (simp add: dkeys_def texts_def case_prod_unfold)

lemma state_dictI: "wf_dict d \<Longrightarrow> (\<And>k v. dget d k = Some v \<Longrightarrow> is_str v) \<Longrightarrow> state_dict d"
  by (auto simp: state_dict_def dvalues_def wf_dict_def)

lemma snap_state_eq:
  assumes "dget s ''repos'' = Some (PDict repos)" "dget s ''cached_states'' = Some (PDict cached)" "state_dict repos" "state_dict cached"
  shows "snap_state s n = map_option text_of (case dget repos n of Some v \<Rightarrow> Some v | None \<Rightarrow> dget cached n)"
  using resolve_in_one [OF assms, of n "[]"] assms(3)
  by (simp add: snap_state_def dget_dmerge state_dict_def wf_dget_rev del: resolve_in.simps(2) split: option.split)

lemma carried_states_ok:
  assumes "\<forall>s. snap = Some s \<longrightarrow> snapshot_ok s"
  shows "\<exists>cached. carried_states name snap current = Inr cached \<and> state_dict cached \<and>
    set (dkeys cached) \<inter> (insert name (set (dkeys current))) = {} \<and>
    (\<forall>s n h. snap = Some s \<longrightarrow> snap_state s n = Some h \<longrightarrow> n \<noteq> name \<longrightarrow> n \<notin> set (dkeys current) \<longrightarrow> dget cached n = Some (PStr h))"
proof (cases snap)
  case None
  then show ?thesis by (simp add: carried_states_def state_dict_def dkeys_def dvalues_def)
next
  case (Some s)
  then obtain repos cached where s: "dget s ''repos'' = Some (PDict repos)" "dget s ''cached_states'' = Some (PDict cached)"
    "state_dict repos" "state_dict cached" "set (dkeys repos) \<inter> set (dkeys cached) = {}"
    using assms by (auto simp: snapshot_ok_def)
  let ?c = "filter (\<lambda>(n, _). \<not> dhas current n \<and> n \<noteq> name) (dmerge (dmerge [] repos) cached)"
  have g: "dget ?c n = (if n \<in> set (dkeys current) \<or> n = name then None
      else case dget cached n of Some v \<Rightarrow> Some v | None \<Rightarrow> dget repos n)" for n
    using s(3,4) by (simp add: dget_filter dget_dmerge state_dict_def wf_dget_rev dhas_iff split: option.split)
  have t: "is_str v" if "dget ?c n = Some v" for n v
    using that state_dict_text [OF s(3), of n] state_dict_text [OF s(4), of n] by (auto simp: g split: if_splits option.splits)
  have "dget ?c n = Some (PStr h)" if "snap_state s n = Some h" "n \<noteq> name" "n \<notin> set (dkeys current)" for n h
  proof -
    have "dget repos n = None \<or> dget cached n = None" using s(5) by (metis disjoint_iff dkeys_dget)
    then show ?thesis
      using that state_dict_text [OF s(3), of n] state_dict_text [OF s(4), of n]
      by (auto simp: g snap_state_eq [OF s(1-4)] split: option.splits)
  qed
  moreover have "set (dkeys ?c) \<inter> insert name (set (dkeys current)) = {}" by (auto simp: dkeys_dget g)
  moreover have "state_dict ?c" by (intro state_dictI wf_dict_filter t) simp_all
  ultimately show ?thesis
    using Some by (simp add: carried_states_def sub_dict_def dget_or_def s(1,2))
qed

lemma epoch_payload_ok:
  assumes "int_arg (eo_parent_nexus eo) = Inr pn" "\<forall>i. pn = Some i \<longrightarrow> uint32 i" "state_dict cached"
  shows "\<exists>sg payload. epoch_payload E eo current cached = Inr (sg, payload) \<and> dget payload ''repos'' = Some (PDict (texts current)) \<and>
    dget payload ''cached_states'' = Some (PDict cached) \<and> dget payload ''parity'' = Some (PDict (eo_parity eo))"
proof -
  have "assert_uint32 pn ''parent_nexus_id'' = Inr ()" "assert_uint32 (Some 1) ''threshold'' = Inr ()"
    using assms(2) by (simp_all add: assert_uint32_Inr uint32_def)
  then show ?thesis
    using assms(1) state_dict_safe [OF assms(3)]
    by (simp add: epoch_payload_def Let_def build_anchor_commit_def build_seal_epoch_payload_def texts_safe)
qed

text \<open>What is expected of the engine's answer to a seal request.\<close>

definition good_seal :: "pydict \<Rightarrow> bool" where
  "good_seal sealed \<longleftrightarrow> (\<forall>t. \<not> isl (load_commit t (dget_or sealed ''kernel_commit'' PNone))) \<and>
     (\<forall>r. dget sealed ''anchor_result'' = Some r \<longrightarrow> (\<exists>d h. r = PDict d \<and> dget d ''commit_hash'' = Some (PStr h)))"

lemma state_dict_dset: "state_dict d \<Longrightarrow> state_dict (dset k (PStr h) d)"
proof (intro state_dictI)
  assume d: "state_dict d"
  then show "wf_dict (dset k (PStr h) d)" by (simp add: state_dict_def)
  show "is_str v" if "dget (dset k (PStr h) d) k' = Some v" for k' v
    using that state_dict_text [OF d, of k'] by (auto split: if_splits)
qed

lemma final_snapshot_ok:
  assumes "good_seal sealed" "dget payload ''repos'' = Some (PDict repos)" "dget payload ''cached_states'' = Some (PDict cached)"
    "dget payload ''parity'' = Some (PDict parity)" "state_dict repos" "state_dict cached" "good_parity parity"
    "set (dkeys cached) \<inter> insert (at_name mgr) (set (dkeys repos)) = {}"
  shows "\<exists>s repos'. final_snapshot mgr eo sealed payload = Inr s \<and> snapshot_ok s \<and> dget s ''chain_hash'' = Some (PStr (eo_chain eo)) \<and>
    dget s ''wasm_root'' = Some (PStr (eo_root eo)) \<and> dget s ''repos'' = Some (PDict repos') \<and> state_dict repos' \<and>
    dget s ''cached_states'' = Some (PDict cached) \<and> (\<forall>n. n \<noteq> at_name mgr \<longrightarrow> dget repos' n = dget repos n) \<and>
    set (dkeys repos) \<subseteq> set (dkeys repos')"
proof (cases "dget sealed ''anchor_result''")
  case None
  then show ?thesis using assms by (auto simp: final_snapshot_def snapshot_ok_def)
next
  case (Some r)
  then obtain d h where r: "r = PDict d" "dget d ''commit_hash'' = Some (PStr h)" using assms(1) by (auto simp: good_seal_def)
  let ?r = "dset (at_name mgr) (PStr h) repos"
  have "state_dict ?r" "set (dkeys ?r) \<inter> set (dkeys cached) = {}" using assms(5,8) state_dict_dset by auto
  then show ?thesis using assms Some r by (simp add: final_snapshot_def set_repo_def snapshot_ok_def subset_insertI)
qed

lemma update_heads_ok:
  assumes "ep_host E = fdb_host B"
  shows "role st = SEALER \<Longrightarrow> fdb_room (db st) (length hs + n) \<Longrightarrow> \<exists>st'. update_heads E hs st = (Inr (), st')"
proof (induction hs arbitrary: st)
  case (Cons x hs)
  obtain name h where x: "x = (name, h)" by (cases x)
  have rm: "fdb_room (db st) (Suc (length hs + n))" using Cons.prems(2) by simp
  let ?st = "st\<lparr>db := snd (fdb_put (key_ref name) h (db st))\<rparr>"
  have "update_head (fdb_host B) r name h st = (Inr (), ?st)" for r
    using ledger.update_head_eq [OF Cons.prems(1) rm] by simp
  moreover have "fdb_room (db ?st) (length hs + n)" using ledger.room_put [OF rm, of B] by simp
  ultimately show ?case using Cons.IH [of ?st] Cons.prems(1) by (simp add: x bindp_def assms)
qed (simp add: ret_def)

lemma fix_era_ok:
  assumes "ep_host E = fdb_host B" "role st = SEALER" "fdb_room (db st) (length current + 2)"
  shows "\<exists>st'. fix_era E current sg c st = (Inr (), st')"
proof -
  let ?r = "ep_req E ''seal''"
  have rm: "fdb_room (db st) (Suc (Suc (length current)))" using assms(3) by simp
  obtain msg where sc: "seal_system_epoch (fdb_host B) ?r c [sg] 1 = reject_epoch (fdb_host B) ?r msg \<or>
      seal_system_epoch (fdb_host B) ?r c [sg] 1 = save_kernel_unsafe (fdb_host B) ?r c"
    using seal_system_epoch_cases [of "fdb_host B" ?r c "[sg]" 1] by metis
  then show ?thesis
  proof
    assume "seal_system_epoch (fdb_host B) ?r c [sg] 1 = reject_epoch (fdb_host B) ?r msg"
    moreover obtain s' where "reject_epoch (fdb_host B) ?r msg st = (Inl (Exc PermissionErr msg), s')"
      using ledger.reject_epoch_eq [OF assms(2) rm] by (metis prod.collapse)
    ultimately show ?thesis using assms(1,2) by (simp add: fix_era_def catch_permission_def bindp_def)
  next
    assume a: "seal_system_epoch (fdb_host B) ?r c [sg] 1 = save_kernel_unsafe (fdb_host B) ?r c"
    obtain h s1 where s1: "save_kernel_unsafe (fdb_host B) ?r c st = (Inr h, s1)" "role s1 = SEALER" "fdb_room (db s1) (Suc (length current))"
      using ledger.put_object_eq [OF assms(2) rm, of B ?r] ledger.room_ins [OF rm] assms(2) by (simp add: save_kernel_unsafe_def)
    let ?s2 = "s1\<lparr>db := snd (fdb_put (key_ref ''global_era_anchor'') h (db s1))\<rparr>"
    have s2: "update_head (fdb_host B) (ep_req E ''era'') ''global_era_anchor'' h s1 = (Inr (), ?s2)"
      using ledger.update_head_eq [OF s1(2,3)] by simp
    obtain s3 where "update_heads E current ?s2 = (Inr (), s3)"
      using update_heads_ok [OF assms(1), of ?s2 current 0] ledger.room_put [OF s1(3), of B] s1(2) by auto
    with s1(1) s2 a assms(1,2) show ?thesis by (simp add: fix_era_def catch_permission_def bindp_def)
  qed
qed

lemma registry_untouched: "ep_host E = fdb_host B \<Longrightarrow> keeps (keys_as {registry_key mgr} d) (update_heads E hs)"
  by (induction hs rule: update_heads.induct) (auto intro!: keeps_bindp keys_head simp: registry_key_def key_ref_def)

lemma fix_era_registry:
  assumes "ep_host E = fdb_host B"
  shows "keeps (keys_as {registry_key mgr} d) (fix_era E current sg c)"
proof -
  let ?K = "keys_as {registry_key mgr} d" and ?r = "ep_req E ''seal''"
  have ks: "keeps ?K (save_kernel_unsafe (fdb_host B) ?r c)"
    unfolding save_kernel_unsafe_def by (rule keys_put_object) (simp add: registry_key_def object_key_def)
  have ss: "keeps ?K (seal_system_epoch (fdb_host B) ?r c [sg] 1)"
    using seal_system_epoch_cases [of "fdb_host B" ?r c "[sg]" 1] ks keys_reject [OF no_blob_sets(2)] by metis
  let ?m = "bindp (seal_system_epoch (fdb_host B) ?r c [sg] 1) (\<lambda>h.
    bindp (update_head (fdb_host B) (ep_req E ''era'') ''global_era_anchor'' h) (\<lambda>_. update_heads E current))"
  have m: "keeps ?K ?m"
    by (intro keeps_bindp ss keys_head registry_untouched [OF assms]) (simp add: registry_key_def key_ref_def)
  have "snd (fix_era E current sg c s) = snd (?m s)" if "role s = SEALER" for s
    using that by (simp add: fix_era_def assms catch_permission_def split: prod.split sum.split)
  with m show ?thesis by (simp add: keeps_def keys_as_def)
qed

lemma record_epoch_ok:
  assumes E: "ep_host E = fdb_host B" and st: "role st = SEALER" "fdb_ok (db st)" "fdb_room (db st) (length current + 3)"
    and s: "p_loads (h_prims B) out = Some (PDict sealed)" "good_seal sealed" "final_snapshot mgr eo sealed payload = Inr s"
  shows "\<exists>st'. record_epoch E mgr eo current sg payload out st = (Inr (), st') \<and>
    fdb_get (db st') (registry_key mgr) = Some (p_dumps (h_prims B) (PDict [(''history'', PList (eo_history eo @ [PDict s]))]))"
proof -
  let ?v = "p_dumps (h_prims B) (PDict [(''history'', PList (eo_history eo @ [PDict s]))])"
  let ?d = "snd (fdb_put (registry_key mgr) ?v (db st))"
  let ?st = "st\<lparr>db := ?d, ticks := ticks st + 1\<rparr>"
  have rm: "fdb_room (db st) (Suc (length current + 2))" using st(3) by (simp add: numeral_3_eq_3)
  have p: "h_put (fdb_host B) (registry_key mgr) ?v (db st) = (Inr (), ?d)" by (rule ledger.put_eq [OF rm])
  obtain c where c: "load_commit (h_time (fdb_host B) (ticks st)) (dget_or sealed ''kernel_commit'' PNone) = Inr c"
    using s(2) by (metis good_seal_def isl_def sum.collapse(2))
  have eq: "record_epoch E mgr eo current sg payload out st = fix_era E current sg (link_parent (fdb_host B) ?st c) ?st"
    by (simp add: record_epoch_def Let_def E bindp_def lift_res_def s(1,3) catch_with_def on_db_def p now_def c)
  have rm2: "fdb_room (db ?st) (length current + 2)" using ledger.room_put [OF rm, of B] by simp
  have ok: "fdb_ok (db ?st)" using st(2) by (simp add: fdb_ok_put)
  obtain st' where st': "fix_era E current sg (link_parent (fdb_host B) ?st c) ?st = (Inr (), st')"
    using fix_era_ok [OF E _ rm2] st(1) by auto
  have "keys_as {registry_key mgr} ?d ?st" using st(1) ok by (simp add: keys_as_def)
  then have "keys_as {registry_key mgr} ?d st'"
    using fix_era_registry [OF E] st' unfolding keeps_def by (metis snd_conv)
  moreover have "fdb_get ?d (registry_key mgr) = Some ?v" using st(2) by (simp add: fdb_get_put)
  ultimately show ?thesis using eq st' by (simp add: keys_as_def)
qed

lemma epoch_snapshot:
  assumes "\<forall>s \<in> set snaps. snapshot_ok s" "int_arg (eo_parent_nexus eo) = Inr pn" "\<forall>i. pn = Some i \<longrightarrow> uint32 i"
    and "good_parity (eo_parity eo)" "good_seal sealed" "wf_dict cur"
  shows "\<exists>cached sg payload s. carried_states (at_name mgr) (history_last snaps) cur = Inr cached \<and>
    epoch_payload E eo cur cached = Inr (sg, payload) \<and> final_snapshot mgr eo sealed payload = Inr s \<and> snapshot_ok s \<and>
    dget s ''chain_hash'' = Some (PStr (eo_chain eo)) \<and> dget s ''wasm_root'' = Some (PStr (eo_root eo)) \<and>
    (\<forall>n \<in> set (dkeys cur). snap_state s n \<noteq> None) \<and>
    (\<forall>l n h. history_last snaps = Some l \<and> snap_state l n = Some h \<and> n \<noteq> at_name mgr \<and> n \<notin> set (dkeys cur) \<longrightarrow>
       snap_state s n = Some h)"
proof -
  have "\<forall>s. history_last snaps = Some s \<longrightarrow> snapshot_ok s" using assms(1) by (simp add: history_last_def)
  from carried_states_ok [OF this, of "at_name mgr" cur] obtain cached where
    c: "carried_states (at_name mgr) (history_last snaps) cur = Inr cached" "state_dict cached"
      "set (dkeys cached) \<inter> insert (at_name mgr) (set (dkeys cur)) = {}"
      "\<forall>s n h. history_last snaps = Some s \<longrightarrow> snap_state s n = Some h \<longrightarrow> n \<noteq> at_name mgr \<longrightarrow> n \<notin> set (dkeys cur) \<longrightarrow> dget cached n = Some (PStr h)"
    by blast
  obtain sg payload where p: "epoch_payload E eo cur cached = Inr (sg, payload)" "dget payload ''repos'' = Some (PDict (texts cur))"
    "dget payload ''cached_states'' = Some (PDict cached)" "dget payload ''parity'' = Some (PDict (eo_parity eo))"
    using epoch_payload_ok [OF assms(2,3) c(2)] by blast
  have dj: "set (dkeys cached) \<inter> insert (at_name mgr) (set (dkeys (texts cur))) = {}" using c(3) by simp
  obtain s repos' where s: "final_snapshot mgr eo sealed payload = Inr s" "snapshot_ok s" "dget s ''chain_hash'' = Some (PStr (eo_chain eo))"
    "dget s ''wasm_root'' = Some (PStr (eo_root eo))" "dget s ''repos'' = Some (PDict repos')" "state_dict repos'"
    "dget s ''cached_states'' = Some (PDict cached)" "\<forall>n. n \<noteq> at_name mgr \<longrightarrow> dget repos' n = dget (texts cur) n"
    "set (dkeys (texts cur)) \<subseteq> set (dkeys repos')"
    using final_snapshot_ok [OF assms(5) p(2-4) state_dict_texts [OF assms(6)] c(2) assms(4) dj] by blast
  note ss = snap_state_eq [OF s(5,7,6) c(2)]
  have "\<forall>n \<in> set (dkeys cur). snap_state s n \<noteq> None"
    using s(9) ss by (auto simp: dkeys_dget split: option.split)
  moreover have "snap_state s n = Some h"
    if "history_last snaps = Some l" "snap_state l n = Some h" "n \<noteq> at_name mgr" "n \<notin> set (dkeys cur)" for l n h
  proof -
    have "dget (texts cur) n = None" using that(4) dkeys_dget [of n "texts cur"] by simp
    then show ?thesis using that c(4) s(8) by (simp add: ss)
  qed
  ultimately show ?thesis using c(1) p(1) s(1-4) by blast
qed


section \<open>Witnesses\<close>

text \<open>A canonical text that spells the keys of a dictionary, and a codec that answers every text with one document.\<close>

fun enc_key :: "string \<Rightarrow> string" where
  "enc_key [] = ''0''"
| "enc_key (c # k) = CHR ''1'' # c # enc_key k"

definition enc_keys :: "pyval \<Rightarrow> string" where
  "enc_keys v = (case v of PDict d \<Rightarrow> concat (map enc_key (dkeys d)) | _ \<Rightarrow> [])"

lemma enc_key_eq: "enc_key k @ x = enc_key k' @ y \<longleftrightarrow> k = k' \<and> x = y"
proof (induction k arbitrary: k')
  case Nil
  then show ?case by (cases k') auto
next
  case (Cons c k)
  then show ?case by (cases k') auto
qed

lemma enc_keys_inj: "enc_keys (PDict a) = enc_keys (PDict b) \<Longrightarrow> dkeys a = dkeys b"
proof -
  have "concat (map enc_key xs) = concat (map enc_key ys) \<Longrightarrow> xs = ys" for xs ys
  proof (induction xs arbitrary: ys)
    case Nil
    then show ?case by (cases ys; cases "hd ys") auto
  next
    case (Cons x xs)
    show ?case
    proof (cases ys)
      case Nil
      then show ?thesis using Cons.prems by (cases x) auto
    next
      case (Cons y zs)
      then show ?thesis using Cons.prems Cons.IH [of zs] by (simp add: enc_key_eq)
    qed
  qed
  then show "enc_keys (PDict a) = enc_keys (PDict b) \<Longrightarrow> dkeys a = dkeys b" by (simp add: enc_keys_def)
qed

definition reply_doc :: pydict where
  "reply_doc = [(''kernel_commit'', PDict [(''stream_id'', PStr ''era''), (''executable_payload'', PNone),
     (''tension_at_seal'', PFloat (Fin 0)), (''blob_hashes'', PList [])])]"

definition epoch_base :: "pydict \<Rightarrow> (unit, unit) host" where
  "epoch_base doc = sample_base\<lparr>h_prims := sample_codec\<lparr>p_canon := enc_keys, p_loads := (\<lambda>_. Some (PDict doc))\<rparr>, h_verify := (\<lambda>m sg. sg = m)\<rparr>"

definition epoch_sample :: "pydict \<Rightarrow> (fdb_driver, unit) epoch_env" where
  "epoch_sample doc = \<lparr>ep_host = fdb_host (epoch_base doc), ep_invoke = (\<lambda>_ _. Inr ''o''), ep_files = [(''a.wasm'', ''w'')],
     ep_compact = (\<lambda>_. ''{}''), ep_clock = 7, ep_sign = id, ep_pubkey = ''k'', ep_req = id\<rparr>"

definition sample_repo :: "string \<Rightarrow> attractor" where
  "sample_repo name = \<lparr>at_name = name, at_path = name, at_runner = (\<lambda>_ _ _ _. Inr ''c1'')\<rparr>"

lemma epoch_sample_prims:
  "ep_host (epoch_sample doc) = fdb_host (epoch_base doc)" "p_loads (h_prims (epoch_base doc)) t = Some (PDict doc)"
  "p_sha256 (h_prims (epoch_base doc)) = id" "p_canon (h_prims (epoch_base doc)) = enc_keys" "ep_sign (epoch_sample doc) = id"
  "h_verify (epoch_base doc) m sg = (sg = m)" "ep_invoke (epoch_sample doc) o' p = Inr ''o''"
  by (simp_all add: epoch_sample_def epoch_base_def sample_base_def sample_codec_def)

lemma sample_history: "history_ok (epoch_sample doc) mgr [] sample_store"
proof -
  have "fdb_get (db sample_store) k = None" for k
    by (simp add: sample_store_def initialize_consensus_node_def start_sealer_consumer_def fdb_init_def fdb_get_def Let_def)
  then show ?thesis by (simp add: history_ok_def load_history_def epoch_sample_prims ledger.host_get)
qed


theorem resolve_newest_witness:
  "let s = [(''repos'', PDict [(''r'', PStr ''h'')]), (''cached_states'', PDict []), (''parity'', PDict [])];
       E = epoch_sample [(''history'', PList [PDict s])];
       st = sample_store\<lparr>db := snd (fdb_put (registry_key (sample_repo ''era'')) ''x'' (db sample_store))\<rparr>
   in resolve E (sample_repo ''era'') ''r'' st = Inr ''h''"
proof -
  let ?s = "[(''repos'', PDict [(''r'', PStr ''h'')]), (''cached_states'', PDict []), (''parity'', PDict [])]"
  let ?E = "epoch_sample [(''history'', PList [PDict ?s])]"
  let ?st = "sample_store\<lparr>db := snd (fdb_put (registry_key (sample_repo ''era'')) ''x'' (db sample_store))\<rparr>"
  have "snapshot_ok ?s" by (auto simp: snapshot_ok_def state_dict_def dvalues_def dkeys_def good_parity_def dget_or_def uint32_def wf_dict_def)
  then have "history_ok ?E (sample_repo ''era'') ([] @ [?s]) ?st"
    using sample_store_ok(2) by (simp add: history_ok_def load_history_def epoch_sample_prims ledger.host_get fdb_get_put dget_or_def)
  from resolve_newest [OF this, of "''r''" "''h''"] show ?thesis
    by (simp add: Let_def snap_state_def sub_dict_def dget_or_def)
qed

theorem epoch_never_moves_heads_witness:
  "get_head_hash (fdb_host (epoch_base reply_doc)) ''r''
     (snd (anchor_commit (epoch_sample reply_doc) [sample_repo ''r''] (sample_repo ''era'') ''m'' True None sample_store)) =
   get_head_hash (fdb_host (epoch_base reply_doc)) ''r'' sample_store"
proof -
  have k: "set (dkeys a) = set (dkeys b)"
    if "p_sha256 (h_prims (epoch_base reply_doc)) (p_canon (h_prims (epoch_base reply_doc)) (PDict a)) =
        p_sha256 (h_prims (epoch_base reply_doc)) (p_canon (h_prims (epoch_base reply_doc)) (PDict b))" for a b
    using enc_keys_inj [OF that [unfolded epoch_sample_prims id_apply]] by simp
  have v: "h_verify (epoch_base reply_doc) m sg = verify_signature (h_prims (epoch_base reply_doc)) (\<lambda>_ m sg. sg = m) ''k'' m sg None" for m sg
    by (simp add: epoch_sample_prims verify_signature_def)
  have n: "m = m'" if "ep_sign (epoch_sample reply_doc) m' = m" for m m'
    using that by (simp add: epoch_sample_prims)
  show ?thesis
    by (rule epoch_never_moves_heads [OF epoch_sample_prims(1) sample_store_ok(1,2) v n k])
qed

end
