(* ===== verification/Settlement.thy ===== *)
theory Settlement
  imports Prelude
begin

text \<open>
  Mandates, receipts and settlement payloads, \<^verbatim>\<open>arch/bound/adapter/settlement.py\<close>. The models allow
  extra fields (\<^verbatim>\<open>DynamicSurgeModel\<close>), kept in the field \<open>extra\<close> of a record. Arguments are what
  pydantic makes of a value for an integer field, the compact JSON text, the clock in milliseconds,
  and Ed25519: signing with a key and checking a signature under a public key, where a key or signature
  that is not hexadecimal fails the check.
\<close>

section \<open>Models\<close>

record mandate_constraints =
  max_spend_usdc :: string
  expiration_ts :: int
  mc_extra :: pydict

record mandate_payload =
  mp_protocol :: string
  requester_id :: string
  target_action :: string
  constraints :: mandate_constraints
  issued_at :: int
  mp_metadata :: "pydict option"
  mp_extra :: pydict

record authorization =
  signer_pub :: string
  au_signature :: string
  au_extra :: pydict

record mandate_result =
  mandate :: mandate_payload
  authorization :: authorization
  mr_extra :: pydict

record payment_invoice =
  pi_status :: string
  payment_protocol :: string
  pay_to :: string
  pi_amount_usdc :: string
  resource_id :: string
  pi_timestamp :: int

record settlement_receipt =
  receipt_id :: string
  receipt_type :: string
  sr_tx_hash :: string
  network :: string
  amount_usdc :: string
  payer_wallet :: string
  settled_at :: int
  sr_extra :: pydict

record transaction_receipt =
  job_id :: string
  tr_topos_id :: string
  parity_hash :: string
  tr_fuel_consumed :: int
  settlement_status :: string

record settlement_payload =
  batch_id :: string
  state_root :: string
  attestations :: "string list"
  gas_used :: int
  sp_timestamp :: int

text \<open>\<open>model_dump(exclude_none=True)\<close>: the declared fields in order, then the extra ones.\<close>

definition not_none :: "pydict \<Rightarrow> pydict" where
  "not_none d = filter (\<lambda>(_, v). v \<noteq> PNone) d"

definition dump_constraints :: "mandate_constraints \<Rightarrow> pydict" where
  "dump_constraints c = not_none ([(''max_spend_usdc'', PStr (max_spend_usdc c)), (''expiration_ts'', PInt (expiration_ts c))] @ mc_extra c)"

definition dump_mandate :: "mandate_payload \<Rightarrow> pydict" where
  "dump_mandate m = not_none ([(''protocol'', PStr (mp_protocol m)), (''requester_id'', PStr (requester_id m)),
     (''target_action'', PStr (target_action m)), (''constraints'', PDict (dump_constraints (constraints m))),
     (''issued_at'', PInt (issued_at m)),
     (''metadata'', case mp_metadata m of None \<Rightarrow> PNone | Some d \<Rightarrow> PDict d)] @ mp_extra m)"

definition dump_authorization :: "authorization \<Rightarrow> pydict" where
  "dump_authorization a = not_none ([(''signer_pub'', PStr (signer_pub a)), (''signature'', PStr (au_signature a))] @ au_extra a)"

definition dump_result :: "mandate_result \<Rightarrow> pydict" where
  "dump_result r = not_none ([(''mandate'', PDict (dump_mandate (mandate r))),
     (''authorization'', PDict (dump_authorization (authorization r)))] @ mr_extra r)"

definition dump_receipt :: "settlement_receipt \<Rightarrow> pydict" where
  "dump_receipt r = not_none ([(''receipt_id'', PStr (receipt_id r)), (''receipt_type'', PStr (receipt_type r)),
     (''tx_hash'', PStr (sr_tx_hash r)), (''network'', PStr (network r)), (''amount_usdc'', PStr (amount_usdc r)),
     (''payer_wallet'', PStr (payer_wallet r)), (''settled_at'', PInt (settled_at r))] @ sr_extra r)"

text \<open>Validation of keyword arguments: declared fields are required with their types, others are kept.\<close>

definition str_field :: "pydict \<Rightarrow> string \<Rightarrow> string res" where
  "str_field d k = (case dget d k of Some (PStr s) \<Rightarrow> Inr s | _ \<Rightarrow> Inl (Exc ValidationErr k))"

definition int_field :: "(pyval \<Rightarrow> int option) \<Rightarrow> pydict \<Rightarrow> string \<Rightarrow> int res" where
  "int_field pint d k =
     (case dget d k of
        Some v \<Rightarrow> (case pint v of Some i \<Rightarrow> Inr i | None \<Rightarrow> Inl (Exc ValidationErr k))
      | None \<Rightarrow> Inl (Exc ValidationErr k))"

definition dict_field :: "pydict \<Rightarrow> string \<Rightarrow> pydict res" where
  "dict_field d k = (case dget d k of Some (PDict x) \<Rightarrow> Inr x | _ \<Rightarrow> Inl (Exc ValidationErr k))"

definition opt_dict_field :: "pydict \<Rightarrow> string \<Rightarrow> pydict option res" where
  "opt_dict_field d k =
     (case dget d k of
        None \<Rightarrow> Inr None
      | Some PNone \<Rightarrow> Inr None
      | Some (PDict x) \<Rightarrow> Inr (Some x)
      | _ \<Rightarrow> Inl (Exc ValidationErr k))"

definition extra_fields :: "string list \<Rightarrow> pydict \<Rightarrow> pydict" where
  "extra_fields declared d = filter (\<lambda>(k, _). k \<notin> set declared) d"

definition constraint_fields :: "string list" where
  "constraint_fields = [''max_spend_usdc'', ''expiration_ts'']"

definition mandate_fields :: "string list" where
  "mandate_fields = [''protocol'', ''requester_id'', ''target_action'', ''constraints'', ''issued_at'', ''metadata'']"

definition authorization_fields :: "string list" where
  "authorization_fields = [''signer_pub'', ''signature'']"

definition result_fields :: "string list" where
  "result_fields = [''mandate'', ''authorization'']"

definition receipt_fields :: "string list" where
  "receipt_fields = [''receipt_id'', ''receipt_type'', ''tx_hash'', ''network'', ''amount_usdc'', ''payer_wallet'', ''settled_at'']"

definition load_constraints :: "(pyval \<Rightarrow> int option) \<Rightarrow> pydict \<Rightarrow> mandate_constraints res" where
  "load_constraints pint d =
     bind_res (str_field d ''max_spend_usdc'') (\<lambda>spend.
     bind_res (int_field pint d ''expiration_ts'') (\<lambda>expires.
       Inr \<lparr>max_spend_usdc = spend, expiration_ts = expires, mc_extra = extra_fields constraint_fields d\<rparr>))"

definition load_mandate :: "(pyval \<Rightarrow> int option) \<Rightarrow> pydict \<Rightarrow> mandate_payload res" where
  "load_mandate pint d =
     bind_res (str_field d ''protocol'') (\<lambda>proto.
     bind_res (str_field d ''requester_id'') (\<lambda>req.
     bind_res (str_field d ''target_action'') (\<lambda>act.
     bind_res (bind_res (dict_field d ''constraints'') (load_constraints pint)) (\<lambda>cons.
     bind_res (int_field pint d ''issued_at'') (\<lambda>issued.
     bind_res (opt_dict_field d ''metadata'') (\<lambda>meta.
       Inr \<lparr>mp_protocol = proto, requester_id = req, target_action = act, constraints = cons, issued_at = issued,
            mp_metadata = meta, mp_extra = extra_fields mandate_fields d\<rparr>))))))"

definition load_authorization :: "pydict \<Rightarrow> authorization res" where
  "load_authorization d =
     bind_res (str_field d ''signer_pub'') (\<lambda>pub.
     bind_res (str_field d ''signature'') (\<lambda>sg.
       Inr \<lparr>signer_pub = pub, au_signature = sg, au_extra = extra_fields authorization_fields d\<rparr>))"

definition load_result :: "(pyval \<Rightarrow> int option) \<Rightarrow> pydict \<Rightarrow> mandate_result res" where
  "load_result pint d =
     bind_res (bind_res (dict_field d ''mandate'') (load_mandate pint)) (\<lambda>m.
     bind_res (bind_res (dict_field d ''authorization'') load_authorization) (\<lambda>a.
       Inr \<lparr>mandate = m, authorization = a, mr_extra = extra_fields result_fields d\<rparr>))"

definition load_receipt :: "(pyval \<Rightarrow> int option) \<Rightarrow> pydict \<Rightarrow> settlement_receipt res" where
  "load_receipt pint d =
     bind_res (str_field d ''receipt_id'') (\<lambda>rid.
     bind_res (str_field d ''receipt_type'') (\<lambda>rtype.
     bind_res (str_field d ''tx_hash'') (\<lambda>txh.
     bind_res (str_field d ''network'') (\<lambda>net.
     bind_res (str_field d ''amount_usdc'') (\<lambda>am.
     bind_res (str_field d ''payer_wallet'') (\<lambda>payer.
     bind_res (int_field pint d ''settled_at'') (\<lambda>ts.
       Inr \<lparr>receipt_id = rid, receipt_type = rtype, sr_tx_hash = txh, network = net, amount_usdc = am,
            payer_wallet = payer, settled_at = ts, sr_extra = extra_fields receipt_fields d\<rparr>)))))))"

section \<open>MandateAdapter\<close>

record signer =
  sk_sign :: "string \<Rightarrow> string"
  sk_pub :: string

definition mandate_digest :: "prims \<Rightarrow> (pyval \<Rightarrow> string) \<Rightarrow> mandate_payload \<Rightarrow> string" where
  "mandate_digest P cjson m = p_sha256 P (cjson (PDict (dump_mandate m)))"

text \<open>\<open>t1\<close> and \<open>t2\<close> are the two readings of the clock.\<close>

definition build_ap2_mandate ::
  "prims \<Rightarrow> (pyval \<Rightarrow> string) \<Rightarrow> int \<Rightarrow> int \<Rightarrow> string \<Rightarrow> string \<Rightarrow> string \<Rightarrow> signer \<Rightarrow> int \<Rightarrow> pydict \<Rightarrow> mandate_result" where
  "build_ap2_mandate P cjson t1 t2 requester target spend key validity_ms kwargs =
     (let payload = \<lparr>mp_protocol = ''AP2-v1.0'', requester_id = requester, target_action = target,
            constraints = \<lparr>max_spend_usdc = spend, expiration_ts = t1 + validity_ms, mc_extra = []\<rparr>,
            issued_at = t2, mp_metadata = (if kwargs = [] then None else Some kwargs), mp_extra = []\<rparr>
      in \<lparr>mandate = payload,
          authorization = \<lparr>signer_pub = sk_pub key, au_signature = sk_sign key (mandate_digest P cjson payload), au_extra = []\<rparr>,
          mr_extra = []\<rparr>)"

definition verify_mandate_signature ::
  "prims \<Rightarrow> (pyval \<Rightarrow> string) \<Rightarrow> (string \<Rightarrow> string \<Rightarrow> string \<Rightarrow> bool) \<Rightarrow> mandate_result \<Rightarrow> bool" where
  "verify_mandate_signature P cjson ed r =
     ed (signer_pub (authorization r)) (mandate_digest P cjson (mandate r)) (au_signature (authorization r))"

definition issue_deferred_receipt :: "prims \<Rightarrow> int \<Rightarrow> mandate_result \<Rightarrow> settlement_receipt" where
  "issue_deferred_receipt P ts r =
     (let pseudo_hash = ''0x_offchain_'' @ take 16 (p_sha256 P (au_signature (authorization r)))
      in \<lparr>receipt_id = ''cap_'' @ take 12 (drop 12 pseudo_hash), receipt_type = ''DEFERRED_ALLOWANCE'', sr_tx_hash = pseudo_hash,
          network = ''xphi/rollup-offchain'', amount_usdc = max_spend_usdc (constraints (mandate r)),
          payer_wallet = requester_id (mandate r), settled_at = ts, sr_extra = []\<rparr>)"

text \<open>A wallet that does not simulate is its transfer function; \<open>now_text\<close> is the text of the clock.\<close>

definition pull_or_mock :: "prims \<Rightarrow> (string \<Rightarrow> string \<Rightarrow> string res) option \<Rightarrow> string \<Rightarrow> string \<Rightarrow> string \<Rightarrow> string \<Rightarrow> string res" where
  "pull_or_mock P wallet tag address am now_text =
     (case wallet of
        Some transfer \<Rightarrow> transfer address am
      | None \<Rightarrow> Inr (''0x'' @ p_sha256 P (tag @ address @ ''_'' @ am @ ''_'' @ now_text)))"

definition process_deferred_pull ::
  "prims \<Rightarrow> (string \<Rightarrow> string \<Rightarrow> string res) option \<Rightarrow> string \<Rightarrow> int \<Rightarrow> string \<Rightarrow> string \<Rightarrow> settlement_receipt res" where
  "process_deferred_pull P wallet now_text ts agent_wallet_address accrued_amount_usdc =
     bind_res (pull_or_mock P wallet ''pull_'' agent_wallet_address accrued_amount_usdc now_text) (\<lambda>txh.
       Inr \<lparr>receipt_id = ''rcpt_pull_'' @ take 12 (drop 2 txh), receipt_type = ''ONCHAIN_PULL'', sr_tx_hash = txh,
            network = ''base-sepolia'', amount_usdc = accrued_amount_usdc, payer_wallet = agent_wallet_address,
            settled_at = ts, sr_extra = []\<rparr>)"

definition build_payment_invoice :: "int \<Rightarrow> string \<Rightarrow> string \<Rightarrow> string \<Rightarrow> payment_invoice" where
  "build_payment_invoice ts payee_address am resource =
     \<lparr>pi_status = ''HTTP_402_PAYMENT_REQUIRED'', payment_protocol = ''base-sepolia'', pay_to = payee_address,
      pi_amount_usdc = am, resource_id = resource, pi_timestamp = ts\<rparr>"

definition process_instant_settlement ::
  "prims \<Rightarrow> (string \<Rightarrow> string \<Rightarrow> string res) option \<Rightarrow> string \<Rightarrow> int \<Rightarrow> payment_invoice \<Rightarrow> string \<Rightarrow> settlement_receipt res" where
  "process_instant_settlement P wallet now_text ts invoice agent_wallet_address =
     bind_res (pull_or_mock P wallet ''push_'' (pay_to invoice) (pi_amount_usdc invoice) now_text) (\<lambda>txh.
       Inr \<lparr>receipt_id = ''rcpt_push_'' @ take 12 (drop 2 txh), receipt_type = ''INSTANT_PUSH'', sr_tx_hash = txh,
            network = payment_protocol invoice, amount_usdc = pi_amount_usdc invoice, payer_wallet = agent_wallet_address,
            settled_at = ts, sr_extra = []\<rparr>)"

definition embed_economy_state :: "pydict \<Rightarrow> mandate_result option \<Rightarrow> settlement_receipt option \<Rightarrow> pydict" where
  "embed_economy_state base_cached_states m r =
     (let s1 = (case m of Some x \<Rightarrow> dset ''ap2_mandate'' (PDict (dump_result x)) base_cached_states | None \<Rightarrow> base_cached_states)
      in case r of Some x \<Rightarrow> dset ''settlement_receipt'' (PDict (dump_receipt x)) s1 | None \<Rightarrow> s1)"

section \<open>ClearingAdapter\<close>

fun is_number :: "pyval \<Rightarrow> bool" where
  "is_number (PInt _) = True"
| "is_number (PFloat _) = True"
| "is_number (PBool _) = True"
| "is_number _ = False"

text \<open>The cost itself is only logged; computing it raises for a value that is not a number.\<close>

definition finalize_settlement ::
  "prims \<Rightarrow> (pyval \<Rightarrow> int option) \<Rightarrow> int \<Rightarrow> pydict \<Rightarrow> pydict \<Rightarrow> transaction_receipt res" where
  "finalize_settlement P pint secs entangled_state cost_metrics =
     bind_res (as_dict (dget_or entangled_state ''parity'' (PDict []))) (\<lambda>parity.
       let topos = dget_or parity ''topos_id'' (PStr (''unknown_batch_'' @ show_int secs));
           phase = dget_or parity ''phase_id'' (PInt 0);
           fuel = dget_or cost_metrics ''fuel_consumed'' (PInt 0)
       in if \<not> is_number fuel then Inl (Exc TypeErr ''unsupported operand type(s) for /'')
          else (case pint fuel of
                  None \<Rightarrow> Inl (Exc ValidationErr ''fuel_consumed'')
                | Some n \<Rightarrow> Inr \<lparr>job_id = py_str P topos, tr_topos_id = py_str P topos,
                             parity_hash = py_str P (dget_or entangled_state ''state_hash'' phase),
                             tr_fuel_consumed = n, settlement_status = ''COMMITTED_TO_NEXUS''\<rparr>))"

definition generate_settlement_payload :: "int \<Rightarrow> transaction_receipt \<Rightarrow> string list option \<Rightarrow> settlement_payload" where
  "generate_settlement_payload secs receipt attests =
     \<lparr>batch_id = job_id receipt, state_root = parity_hash receipt,
      attestations = (case attests of Some a \<Rightarrow> a | None \<Rightarrow> []), gas_used = tr_fuel_consumed receipt, sp_timestamp = secs\<rparr>"

section \<open>Reading back what was written\<close>

text \<open>Extra fields that a model can hold: none of them declared, none of them None, all of them distinct.\<close>

definition extra_ok :: "string list \<Rightarrow> pydict \<Rightarrow> bool" where
  "extra_ok declared e \<longleftrightarrow> (\<forall>(k, v) \<in> set e. k \<notin> set declared \<and> v \<noteq> PNone)"

lemma not_none_extra: "extra_ok ks e \<Longrightarrow> not_none e = e"
  by (auto simp: not_none_def extra_ok_def filter_id_conv)

lemma extra_fields_extra: "extra_ok ks e \<Longrightarrow> extra_fields ks e = e"
  by (auto simp: extra_fields_def extra_ok_def filter_id_conv)

lemma dget_extra: "extra_ok ks e \<Longrightarrow> k \<in> set ks \<Longrightarrow> dget e k = None"
  by (auto simp: extra_ok_def map_of_eq_None_iff)

lemma not_none_Cons [simp]: "not_none ((k, v) # d) = (if v = PNone then not_none d else (k, v) # not_none d)"
  by (simp add: not_none_def)

lemma extra_fields_Cons [simp]: "extra_fields ks ((k, v) # d) = (if k \<in> set ks then extra_fields ks d else (k, v) # extra_fields ks d)"
  by (simp add: extra_fields_def)

definition result_ok :: "mandate_result \<Rightarrow> bool" where
  "result_ok r \<longleftrightarrow> extra_ok result_fields (mr_extra r) \<and> extra_ok mandate_fields (mp_extra (mandate r)) \<and>
     extra_ok constraint_fields (mc_extra (constraints (mandate r))) \<and> extra_ok authorization_fields (au_extra (authorization r))"

definition int_id :: "(pyval \<Rightarrow> int option) \<Rightarrow> bool" where
  "int_id pint \<longleftrightarrow> (\<forall>i. pint (PInt i) = Some i)"

lemmas field_defs = str_field_def int_field_def dict_field_def opt_dict_field_def int_id_def

lemma load_dump_constraints:
  assumes "int_id pint" "extra_ok constraint_fields (mc_extra c)"
  shows "load_constraints pint (dump_constraints c) = Inr c"
  using assms(1) not_none_extra [OF assms(2)] extra_fields_extra [OF assms(2)]
  by (simp add: load_constraints_def dump_constraints_def field_defs constraint_fields_def)

lemma load_dump_authorization:
  assumes "extra_ok authorization_fields (au_extra a)"
  shows "load_authorization (dump_authorization a) = Inr a"
  using not_none_extra [OF assms] extra_fields_extra [OF assms]
  by (simp add: load_authorization_def dump_authorization_def field_defs authorization_fields_def)

lemma load_dump_mandate:
  assumes "int_id pint" "extra_ok mandate_fields (mp_extra m)" "extra_ok constraint_fields (mc_extra (constraints m))"
  shows "load_mandate pint (dump_mandate m) = Inr m"
proof -
  have "dget (mp_extra m) ''metadata'' = None" using dget_extra [OF assms(2)] by (simp add: mandate_fields_def)
  then show ?thesis
    using assms(1) load_dump_constraints [OF assms(1,3)] not_none_extra [OF assms(2)] extra_fields_extra [OF assms(2)]
    by (cases "mp_metadata m") (simp_all add: load_mandate_def dump_mandate_def field_defs mandate_fields_def)
qed

text \<open>What \<open>model_dump\<close> writes for a signed mandate is read back as the same mandate.\<close>

lemma load_dump_result:
  assumes "int_id pint" "result_ok r"
  shows "load_result pint (dump_result r) = Inr r"
proof -
  have e: "extra_ok result_fields (mr_extra r)" using assms(2) by (simp add: result_ok_def)
  show ?thesis
    using assms load_dump_mandate [OF assms(1), of "mandate r"] load_dump_authorization [of "authorization r"]
      not_none_extra [OF e] extra_fields_extra [OF e]
    by (simp add: result_ok_def load_result_def dump_result_def field_defs result_fields_def)
qed

end
