(* ===== verification/Validator.thy ===== *)
theory Validator
  imports Settlement Pta
begin

text \<open>
  Payment and attestation checks, \<^verbatim>\<open>node/rpc/handler/validator.py\<close>: whether a receipt pays for a call,
  and whether an administrator's one-time password authorises a signature. Arguments are the price
  cache, the deployment environment, the clock, the database row of a user, AES-GCM, HMAC-SHA1 under a
  base32 secret and the node's signature of some bytes. The margin calculation is float arithmetic and
  left out.
\<close>

section \<open>Receipts\<close>

record ('d, 't) validator_env =
  v_pta :: "('d, 't) pta_env"
  v_deploy :: string
  v_price :: "string \<Rightarrow> string option res"
  v_clock_ms :: int
  v_ed :: "string \<Rightarrow> string \<Rightarrow> string \<Rightarrow> bool"
  v_int :: "pyval \<Rightarrow> int option"
  v_json :: "pyval \<Rightarrow> string"
  v_fmt4 :: "pyfloat \<Rightarrow> string"

abbreviation v_prims :: "('d, 't) validator_env \<Rightarrow> prims" where
  "v_prims V \<equiv> h_prims (e_host (v_pta V))"

definition rpc_error :: "int \<Rightarrow> string \<Rightarrow> pydict" where
  "rpc_error code msg = [(''error'', PBool True), (''code'', PInt code), (''message'', PStr msg)]"

definition granted :: "string \<Rightarrow> pyfloat \<Rightarrow> pydict" where
  "granted kind fee = [(''status'', PStr ''VALIDATED''), (''clearance'', PStr ''GRANTED''), (''type'', PStr kind), (''fee_deducted'', PFloat fee)]"

text \<open>The literal 0.002 as the double it denotes.\<close>

definition GENESIS_FLOOR_PRICE_USD :: pyfloat where
  "GENESIS_FLOOR_PRICE_USD = Fin (1152921504606847 / 576460752303423488)"

definition required_fee :: "('d, 't) validator_env \<Rightarrow> pyval \<Rightarrow> pyfloat" where
  "required_fee V target_server_id =
     (if truthy target_server_id then
        (case v_price V (''eco:price_tag:'' @ py_str (v_prims V) target_server_id) of
           Inr (Some cached_price) \<Rightarrow>
             (case p_float_of_str (v_prims V) cached_price of Inr f \<Rightarrow> f | Inl _ \<Rightarrow> GENESIS_FLOOR_PRICE_USD)
         | _ \<Rightarrow> GENESIS_FLOOR_PRICE_USD)
      else GENESIS_FLOOR_PRICE_USD)"

text \<open>\<open>a in v and b in v\<close>.\<close>

definition both_in :: "string \<Rightarrow> string \<Rightarrow> pyval \<Rightarrow> bool res" where
  "both_in a b v = bind_res (py_in a v) (\<lambda>x. if x then py_in b v else Inr False)"

fun as_kwargs :: "pyval \<Rightarrow> pydict res" where
  "as_kwargs (PDict d) = Inr d"
| "as_kwargs v = Inl (Exc TypeErr ''argument after ** must be a mapping'')"

definition check_mandate :: "('d, 't) validator_env \<Rightarrow> pyfloat \<Rightarrow> pyval \<Rightarrow> pydict res" where
  "check_mandate V fee payload =
     bind_res (bind_res (as_kwargs payload) (load_result (v_int V))) (\<lambda>m.
       if \<not> verify_mandate_signature (v_prims V) (v_json V) (v_ed V) m
       then Inr (rpc_error 402 ''AP2 Mandate Rejected: Invalid Cryptographic Signature'')
       else if expiration_ts (constraints (mandate m)) < v_clock_ms V
       then Inr (rpc_error 402 ''AP2 Mandate Expired: Time-to-live exceeded'')
       else bind_res (p_float_of_str (v_prims V) (max_spend_usdc (constraints (mandate m)))) (\<lambda>max_spend.
         if float_less max_spend fee
         then Inr (rpc_error 402 (''Payment Required: Mandate limit exceeded. Required fee is $'' @ v_fmt4 V fee))
         else Inr (granted ''AP2_MANDATE'' fee)))"

definition check_receipt :: "('d, 't) validator_env \<Rightarrow> pyfloat \<Rightarrow> pyval \<Rightarrow> (('d, 't) pta, pydict) prog" where
  "check_receipt V fee payload =
     bindp (lift_res (bind_res (as_kwargs payload) (load_receipt (v_int V)))) (\<lambda>receipt p.
       case verify_lineage (v_pta V) (sr_tx_hash receipt) 2 p of (_, p') \<Rightarrow>
         lift_res (bind_res (py_float_of (v_prims V) (dget_or (sr_extra receipt) ''amount_usd'' (PFloat (Fin 0)))) (\<lambda>actual_balance.
           if float_less actual_balance fee
           then Inr (rpc_error 402 (''Payment Required: Insufficient Receipt value. Required: $'' @ v_fmt4 V fee))
           else Inr (granted ''FUEL_RECEIPT'' fee))) p')"

definition error_reply :: "exc \<Rightarrow> pydict" where
  "error_reply e =
     (case kind_of_exc e of
        JsonDecodeErr \<Rightarrow> rpc_error 400 ''Malformed receipt: Invalid JSON''
      | ValidationErr \<Rightarrow> rpc_error 422 ''Malformed receipt structure: Schema mismatch''
      | _ \<Rightarrow> rpc_error 500 ''Internal Billing Validation Error'')"

definition decode_receipt :: "prims \<Rightarrow> pyval \<Rightarrow> pyval res" where
  "decode_receipt P receipt_data =
     (case receipt_data of
        PStr s \<Rightarrow> (case p_loads P s of Some v \<Rightarrow> Inr v | None \<Rightarrow> Inl (Exc JsonDecodeErr s))
      | v \<Rightarrow> Inr v)"

definition check_payload :: "('d, 't) validator_env \<Rightarrow> pyfloat \<Rightarrow> pyval \<Rightarrow> (('d, 't) pta, pydict) prog" where
  "check_payload V fee receipt_data =
     bindp (lift_res (decode_receipt (v_prims V) receipt_data)) (\<lambda>payload.
     bindp (lift_res (both_in ''authorization'' ''mandate'' payload)) (\<lambda>is_mandate.
       if is_mandate then lift_res (check_mandate V fee payload)
       else bindp (lift_res (both_in ''receipt_id'' ''tx_hash'' payload)) (\<lambda>is_receipt.
         if is_receipt then check_receipt V fee payload
         else ret (rpc_error 400 ''Unknown receipt format: Payload missing required cryptographic bounds''))))"

definition mock_reply :: "('d, 't) validator_env \<Rightarrow> pyfloat \<Rightarrow> pyval \<Rightarrow> pydict option" where
  "mock_reply V fee receipt_data =
     (if v_deploy V \<in> {''test'', ''e2e'', ''local''} then
        (if receipt_data = PStr ''valid_receipt'' then Some (granted ''MOCK_E2E'' fee)
         else if receipt_data = PStr ''invalid_receipt''
         then Some (rpc_error 402 (''Payment Required: Insufficient balance. Required: $'' @ v_fmt4 V fee))
         else None)
      else None)"

definition handle_fuel_receipt_validate :: "('d, 't) validator_env \<Rightarrow> pydict \<Rightarrow> ('d, 't) pta \<Rightarrow> pydict \<times> ('d, 't) pta" where
  "handle_fuel_receipt_validate V params p =
     (let receipt_data = dget_or params ''fuel_receipt'' PNone;
          fee = required_fee V (dget_or params ''target_server_id'' PNone)
      in if \<not> truthy receipt_data then (rpc_error 401 ''Payment receipt is missing'', p)
         else (case mock_reply V fee receipt_data of
                 Some d \<Rightarrow> (d, p)
               | None \<Rightarrow>
                   (case check_payload V fee receipt_data p of
                      (Inr d, p') \<Rightarrow> (d, p')
                    | (Inl e, p') \<Rightarrow> (error_reply e, p'))))"

section \<open>One-time passwords\<close>

record attest_env =
  a_row :: "pyval \<Rightarrow> (string \<times> string \<times> string) option res"
  a_decrypt :: "string \<times> string \<times> string \<Rightarrow> string res"
  a_mac :: "string \<Rightarrow> int \<Rightarrow> string res"
  a_secs :: int
  a_sign :: "bytes \<Rightarrow> string"
  a_prims :: prims

text \<open>\<open>s.zfill(n)\<close>: zeros go after a sign.\<close>

definition zfill :: "nat \<Rightarrow> string \<Rightarrow> string" where
  "zfill n s =
     (case s of
        c # r \<Rightarrow> if c = CHR ''-'' \<or> c = CHR ''+'' then c # replicate (n - length s) CHR ''0'' @ r
                else replicate (n - length s) CHR ''0'' @ s
      | [] \<Rightarrow> replicate n CHR ''0'')"

definition be_value :: "string \<Rightarrow> nat" where
  "be_value bs = foldl (\<lambda>n c. n * 256 + of_char c) 0 bs"

definition totp_code :: "string \<Rightarrow> string" where
  "totp_code h =
     (let off = of_char (h ! 19) mod 16
      in zfill 6 (show_nat ((be_value (take 4 (drop off h)) mod 2 ^ 31) mod 1000000)))"

fun any_totp :: "(int \<Rightarrow> string res) \<Rightarrow> string \<Rightarrow> int list \<Rightarrow> bool res" where
  "any_totp mac token [] = Inr False"
| "any_totp mac token (n # ns) =
     (if n < 0 then Inl (Exc GenericErr ''argument out of range'')
      else bind_res (mac n) (\<lambda>h. if totp_code h = token then Inr True else any_totp mac token ns))"

definition totp_verify :: "attest_env \<Rightarrow> string \<Rightarrow> pyval \<Rightarrow> int \<Rightarrow> bool res" where
  "totp_verify A secret token window =
     (let intervals = a_secs A div 30
      in any_totp (a_mac A secret) (zfill 6 (py_str (a_prims A) token)) (map (\<lambda>i. intervals + i) [- window..window]))"

definition hex_val :: "char \<Rightarrow> nat option" where
  "hex_val c =
     (let n = of_char (lower_char c) :: nat in
      if 48 \<le> n \<and> n \<le> 57 then Some (n - 48) else if 97 \<le> n \<and> n \<le> 102 then Some (n - 87) else None)"

text \<open>\<open>bytes.fromhex(s)\<close>: white space may stand between bytes.\<close>

fun fromhex :: "string \<Rightarrow> bytes res" where
  "fromhex [] = Inr []"
| "fromhex [c] = (if c \<in> {CHR 0x09, CHR 0x0A, CHR 0x0B, CHR 0x0C, CHR 0x0D, CHR 0x20} then Inr []
                  else Inl (Exc ValueErr ''non-hexadecimal number found in fromhex() arg''))"
| "fromhex (c # d # cs) =
     (if c \<in> {CHR 0x09, CHR 0x0A, CHR 0x0B, CHR 0x0C, CHR 0x0D, CHR 0x20} then fromhex (d # cs)
      else (case (hex_val c, hex_val d) of
              (Some a, Some b) \<Rightarrow> bind_res (fromhex cs) (\<lambda>bs. Inr (char_of (16 * a + b) # bs))
            | _ \<Rightarrow> Inl (Exc ValueErr ''non-hexadecimal number found in fromhex() arg'')))"

definition attest_error :: "int \<Rightarrow> string \<Rightarrow> pydict" where
  "attest_error code msg = [(''error'', PBool True), (''code'', PInt code), (''message'', PStr msg)]"

text \<open>The try block: None when the checks pass, the refusal otherwise.\<close>

definition attest_checks :: "attest_env \<Rightarrow> pyval \<Rightarrow> pyval \<Rightarrow> pyval \<Rightarrow> pydict option res" where
  "attest_checks A user_id otp_code require_totp =
     bind_res (a_row A user_id) (\<lambda>row.
       case row of
         None \<Rightarrow> Inr (Some (attest_error (- 32000) (''Unregistered Admin: '' @ py_str (a_prims A) user_id)))
       | Some r \<Rightarrow>
           bind_res (a_decrypt A r) (\<lambda>secret.
             if truthy require_totp then
               (if \<not> truthy otp_code then Inr (Some (attest_error (- 32000) ''Invalid or Expired TOTP.''))
                else bind_res (totp_verify A secret otp_code 1) (\<lambda>ok.
                  Inr (if ok then None else Some (attest_error (- 32000) ''Invalid or Expired TOTP.''))))
             else Inr None))"

definition handle_attestation :: "attest_env \<Rightarrow> pydict \<Rightarrow> pydict res" where
  "handle_attestation A params =
     (case dget_or params ''payload_hash'' (PStr []) of
        PStr payload_hash_hex \<Rightarrow>
          (case attest_checks A (dget_or params ''user_id'' PNone) (dget_or params ''otp_code'' PNone) (dget_or params ''require_totp'' (PBool True)) of
             Inl _ \<Rightarrow> Inr (attest_error (- 500) ''Internal Crypto Error.'')
           | Inr (Some d) \<Rightarrow> Inr d
           | Inr None \<Rightarrow>
               bind_res (fromhex payload_hash_hex) (\<lambda>bs. Inr [(''success'', PBool True), (''signature'', PStr (a_sign A bs))]))
      | _ \<Rightarrow> Inl (Exc TypeErr ''payload_hash''))"

section \<open>What a grant means\<close>

lemma granted_not_error [simp]:
  "granted k fee \<noteq> rpc_error c m" "rpc_error c m \<noteq> granted k fee" "granted k f = granted k' f' \<longleftrightarrow> k = k' \<and> f = f'"
  by (simp_all add: granted_def rpc_error_def)

lemma granted_not_reply [simp]: "error_reply e \<noteq> granted k f"
  by (simp add: error_reply_def split: exc_kind.split)

lemma handle_mandate:
  assumes "v_deploy V \<notin> {''test'', ''e2e'', ''local''}" "dget params ''fuel_receipt'' = Some (PDict d)"
    "dhas d ''authorization''" "dhas d ''mandate''"
  shows "fst (handle_fuel_receipt_validate V params p) =
    (case check_mandate V (required_fee V (dget_or params ''target_server_id'' PNone)) (PDict d) of Inr r \<Rightarrow> r | Inl e \<Rightarrow> error_reply e)"
proof -
  have "d \<noteq> []" using assms(3) by (auto simp: dhas_def)
  then show ?thesis
    using assms by (auto simp: handle_fuel_receipt_validate_def Let_def dget_or_def mock_reply_def check_payload_def
        decode_receipt_def both_in_def bindp_def lift_res_def split: sum.split)
qed


text \<open>
  A receipt is not checked: any payload with the fields of a settlement receipt that also states an
  amount of its own, \<open>amount_usd\<close>, is cleared if that amount covers the fee, whatever the ledger
  knows of its transaction.
\<close>

theorem forged_receipt_granted:
  assumes "v_deploy V \<notin> {''test'', ''e2e'', ''local''}" "dget params ''fuel_receipt'' = Some (PDict d)" "\<not> dhas d ''mandate''"
    "load_receipt (v_int V) d = Inr r" "dget (sr_extra r) ''amount_usd'' = Some (PFloat x)"
  defines "fee \<equiv> required_fee V (dget_or params ''target_server_id'' PNone)"
  assumes "\<not> float_less x fee"
  shows "fst (handle_fuel_receipt_validate V params p) = granted ''FUEL_RECEIPT'' fee"
proof -
  have k: "dhas d ''receipt_id''" "dhas d ''tx_hash''"
    using assms(4) by (auto simp: load_receipt_def bind_res_Inr str_field_def dhas_def split: option.splits)
  then have "d \<noteq> []" by (auto simp: dhas_def)
  then show ?thesis
    using assms k by (auto simp: handle_fuel_receipt_validate_def Let_def dget_or_def mock_reply_def check_payload_def
        decode_receipt_def both_in_def bindp_def lift_res_def check_receipt_def split: prod.split)
qed

text \<open>
  A mandate that the adapter builds is accepted: with a working key pair it clears every call whose fee
  its limit covers until it expires, also after it was dumped and loaded again.
\<close>

theorem built_mandate_granted:
  fixes requester target spend :: string and key :: signer and kwargs params :: pydict and t2 :: int
  assumes "v_deploy V \<notin> {''test'', ''e2e'', ''local''}" "int_id (v_int V)"
    and "\<And>msg. v_ed V (sk_pub key) msg (sk_sign key msg)"
    and "v_clock_ms V \<le> t1 + validity" "p_float_of_str (v_prims V) spend = Inr x"
  defines "m \<equiv> build_ap2_mandate (v_prims V) (v_json V) t1 t2 requester target spend key validity kwargs"
    and "fee \<equiv> required_fee V (dget_or params ''target_server_id'' PNone)"
  assumes "dget params ''fuel_receipt'' = Some (PDict (dump_result m))" "\<not> float_less x fee"
  shows "fst (handle_fuel_receipt_validate V params p) = granted ''AP2_MANDATE'' fee"
proof -
  have "result_ok m" by (simp add: m_def build_ap2_mandate_def Let_def result_ok_def extra_ok_def)
  then have l: "load_result (v_int V) (dump_result m) = Inr m"
    by (rule load_dump_result [OF assms(2)])
  have k: "dhas (dump_result m) ''authorization''" "dhas (dump_result m) ''mandate''"
    by (simp_all add: dump_result_def dhas_def)
  have "verify_mandate_signature (v_prims V) (v_json V) (v_ed V) m"
    using assms(3) by (simp add: m_def build_ap2_mandate_def Let_def verify_mandate_signature_def)
  moreover have "expiration_ts (constraints (mandate m)) = t1 + validity" "max_spend_usdc (constraints (mandate m)) = spend"
    by (simp_all add: m_def build_ap2_mandate_def Let_def)
  ultimately show ?thesis
    using assms(4,5,9) l by (simp add: handle_mandate [OF assms(1,8) k] check_mandate_def fee_def)
qed

section \<open>One-time passwords\<close>

lemma show_nat_length: "n < 10 ^ Suc k \<Longrightarrow> length (show_nat n) \<le> Suc k"
proof (induction k arbitrary: n)
  case 0
  then show ?case by (simp add: show_nat.simps)
next
  case (Suc k)
  show ?case
  proof (cases "n < 10")
    case False
    have "n div 10 < 10 ^ Suc k" using Suc.prems by (simp add: less_mult_imp_div_less mult.commute)
    from Suc.IH [OF this] False show ?thesis by (subst show_nat.simps) simp
  qed (simp add: show_nat.simps)
qed

lemma zfill_digits: "list_all (\<lambda>c. c \<in> set digit_chars) s \<Longrightarrow> length s \<le> n \<Longrightarrow>
  length (zfill n s) = n \<and> list_all (\<lambda>c. c \<in> set digit_chars) (zfill n s)"
proof -
  assume s: "list_all (\<lambda>c. c \<in> set digit_chars) s" "length s \<le> n"
  have "CHR ''0'' \<in> set digit_chars" "CHR ''-'' \<notin> set digit_chars" "CHR ''+'' \<notin> set digit_chars"
    by (simp_all add: digit_chars_def)
  then show ?thesis using s by (cases s) (auto simp: zfill_def list_all_iff)
qed

text \<open>
  The code of an interval always has six digits.
\<close>

theorem totp_code_six_digits: "length (totp_code h) = 6 \<and> list_all (\<lambda>c. c \<in> set digit_chars) (totp_code h)"
  unfolding totp_code_def Let_def
  by (rule zfill_digits) (use show_nat_digits show_nat_length [of _ 5] in \<open>auto simp: isdigit_def\<close>)

lemma any_totp_True: "any_totp mac token ns = Inr True \<Longrightarrow> \<exists>n \<in> set ns. 0 \<le> n \<and> (\<exists>h. mac n = Inr h \<and> totp_code h = token)"
  by (induction ns) (auto simp: bind_res_Inr split: if_splits)

lemma attest_checks_refusal: "attest_checks A u code req = Inr (Some d) \<Longrightarrow> dget d ''success'' = None"
  by (auto simp: attest_checks_def bind_res_Inr attest_error_def split: option.splits if_splits)

lemma attest_checks_pass:
  assumes "attest_checks A u code req = Inr None"
  shows "\<exists>row secret. a_row A u = Inr (Some row) \<and> a_decrypt A row = Inr secret \<and>
    (truthy req \<longrightarrow> (\<exists>n h. \<bar>n - a_secs A div 30\<bar> \<le> 1 \<and> a_mac A secret n = Inr h \<and> zfill 6 (py_str (a_prims A) code) = totp_code h))"
proof -
  from assms obtain row secret where r: "a_row A u = Inr (Some row)" "a_decrypt A row = Inr secret"
    by (auto simp: attest_checks_def bind_res_Inr split: option.splits)
  have "\<exists>n h. \<bar>n - a_secs A div 30\<bar> \<le> 1 \<and> a_mac A secret n = Inr h \<and> zfill 6 (py_str (a_prims A) code) = totp_code h" if "truthy req"
  proof -
    have "totp_verify A secret code 1 = Inr True"
      using assms r that by (auto simp: attest_checks_def bind_res_Inr split: if_splits)
    from any_totp_True [OF this [unfolded totp_verify_def Let_def]] show ?thesis by force
  qed
  with r show ?thesis by blast
qed

text \<open>
  A signature is issued only to a registered administrator whose stored secret decrypts, over the
  bytes of the given hash; and unless the caller waived it, only with the code of the current interval or
  of one beside it.
\<close>

theorem attestation_sound:
  assumes "handle_attestation A params = Inr r" "dget r ''success'' = Some (PBool True)"
  shows "\<exists>row secret t bs. a_row A (dget_or params ''user_id'' PNone) = Inr (Some row) \<and> a_decrypt A row = Inr secret \<and>
    dget_or params ''payload_hash'' (PStr []) = PStr t \<and> fromhex t = Inr bs \<and> dget r ''signature'' = Some (PStr (a_sign A bs)) \<and>
    (truthy (dget_or params ''require_totp'' (PBool True)) \<longrightarrow>
       (\<exists>n h. \<bar>n - a_secs A div 30\<bar> \<le> 1 \<and> a_mac A secret n = Inr h \<and>
          zfill 6 (py_str (a_prims A) (dget_or params ''otp_code'' PNone)) = totp_code h))"
proof -
  obtain t where t: "dget_or params ''payload_hash'' (PStr []) = PStr t"
    using assms(1) by (auto simp: handle_attestation_def split: pyval.splits)
  let ?c = "attest_checks A (dget_or params ''user_id'' PNone) (dget_or params ''otp_code'' PNone) (dget_or params ''require_totp'' (PBool True))"
  have h: "handle_attestation A params = (case ?c of Inl _ \<Rightarrow> Inr (attest_error (- 500) ''Internal Crypto Error.'') | Inr (Some d) \<Rightarrow> Inr d
      | Inr None \<Rightarrow> bind_res (fromhex t) (\<lambda>bs. Inr [(''success'', PBool True), (''signature'', PStr (a_sign A bs))]))"
    by (simp add: handle_attestation_def t)
  have "?c = Inr None"
    using assms attest_checks_refusal by (auto simp: h attest_error_def split: sum.splits option.splits)
  moreover from this obtain bs where "fromhex t = Inr bs" "r = [(''success'', PBool True), (''signature'', PStr (a_sign A bs))]"
    using assms(1) by (auto simp: h bind_res_Inr)
  ultimately show ?thesis using attest_checks_pass t by fastforce
qed

section \<open>Witnesses\<close>

definition sample_validator :: "(fdb_driver, unit) validator_env" where
  "sample_validator = \<lparr>v_pta = sample_env\<lparr>e_host := fdb_host (sample_base\<lparr>h_prims := sample_codec\<lparr>p_float_of_str := (\<lambda>_. Inr (Fin 5))\<rparr>\<rparr>)\<rparr>,
     v_deploy = ''prod'', v_price = (\<lambda>_. Inr None), v_clock_ms = 7, v_ed = (\<lambda>pub m sg. sg = pub @ m),
     v_int = (\<lambda>v. case v of PInt i \<Rightarrow> Some i | _ \<Rightarrow> None), v_json = (\<lambda>_. ''{}''), v_fmt4 = (\<lambda>_. ''0.0020'')\<rparr>"

definition sample_key :: signer where
  "sample_key = \<lparr>sk_sign = (\<lambda>m. ''ab'' @ m), sk_pub = ''ab''\<rparr>"

lemma sample_validator_fee: "required_fee sample_validator PNone = GENESIS_FLOOR_PRICE_USD" "\<not> float_less (Fin 5) GENESIS_FLOOR_PRICE_USD"
  by (simp_all add: required_fee_def GENESIS_FLOOR_PRICE_USD_def)

theorem built_mandate_granted_witness:
  "fst (handle_fuel_receipt_validate sample_validator
     [(''fuel_receipt'', PDict (dump_result (build_ap2_mandate (v_prims sample_validator) (v_json sample_validator) 5 5 ''r'' ''t'' ''5'' sample_key 10 [])))]
     (adapter (fresh_run sample_store))) = granted ''AP2_MANDATE'' GENESIS_FLOOR_PRICE_USD"
  using built_mandate_granted [of sample_validator sample_key 5 10 "''5''" "Fin 5"
      "[(''fuel_receipt'', PDict (dump_result (build_ap2_mandate (v_prims sample_validator) (v_json sample_validator) 5 5 ''r'' ''t'' ''5'' sample_key 10 [])))]"
      5 "''r''" "''t''" "[]" "adapter (fresh_run sample_store)"] sample_validator_fee
  by (simp add: dget_or_def int_id_def sample_key_def) (simp add: sample_validator_def)


definition forged_receipt :: pydict where
  "forged_receipt = [(''receipt_id'', PStr ''x''), (''receipt_type'', PStr ''x''), (''tx_hash'', PStr ''none''), (''network'', PStr ''x''),
     (''amount_usdc'', PStr ''0''), (''payer_wallet'', PStr ''x''), (''settled_at'', PInt 0), (''amount_usd'', PFloat (Fin 5))]"

theorem forged_receipt_granted_witness:
  "fst (handle_fuel_receipt_validate sample_validator [(''fuel_receipt'', PDict forged_receipt)] (adapter (fresh_run sample_store))) =
     granted ''FUEL_RECEIPT'' GENESIS_FLOOR_PRICE_USD"
proof -
  have d: "v_deploy sample_validator \<notin> {''test'', ''e2e'', ''local''}" by (simp add: sample_validator_def)
  have l: "load_receipt (v_int sample_validator) forged_receipt = Inr \<lparr>receipt_id = ''x'', receipt_type = ''x'', sr_tx_hash = ''none'',
      network = ''x'', amount_usdc = ''0'', payer_wallet = ''x'', settled_at = 0, sr_extra = [(''amount_usd'', PFloat (Fin 5))]\<rparr>"
    by (simp add: load_receipt_def str_field_def int_field_def forged_receipt_def extra_fields_def receipt_fields_def sample_validator_def)
  have m: "\<not> dhas forged_receipt ''mandate''" by (simp add: forged_receipt_def dhas_def)
  from forged_receipt_granted [OF d _ m l, of "[(''fuel_receipt'', PDict forged_receipt)]" "Fin 5"] show ?thesis
    by (simp add: dget_or_def sample_validator_fee)
qed

definition sample_attest :: attest_env where
  "sample_attest = \<lparr>a_row = (\<lambda>_. Inr (Some (''s'', ''n'', ''c''))), a_decrypt = (\<lambda>_. Inr ''key''),
     a_mac = (\<lambda>_ _. Inr (replicate 20 (CHR 0x00))), a_secs = 60, a_sign = (\<lambda>bs. bs), a_prims = sample_codec\<rparr>"

lemma zero_mac_code: "totp_code (replicate 20 (CHR 0x00)) = ''000000''"
proof -
  have r: "take 4 (replicate 20 (CHR 0x00)) = replicate 4 (CHR 0x00)" by simp
  have "be_value (replicate 4 (CHR 0x00)) = 0" by (simp add: be_value_def numeral_eq_Suc)
  moreover have "show_nat 0 = ''0''" by (simp add: show_nat.simps digit_char_def digit_chars_def)
  moreover have "zfill 6 ''0'' = ''000000''" by (simp add: zfill_def numeral_eq_Suc)
  moreover have "replicate 20 (CHR 0x00) ! 19 = CHR 0x00" by simp
  ultimately show ?thesis by (simp add: totp_code_def r)
qed

lemma sample_attest_evaluates:
  "handle_attestation sample_attest [(''user_id'', PStr ''u''), (''otp_code'', PStr ''000000''), (''payload_hash'', PStr ''00'')] =
     Inr [(''success'', PBool True), (''signature'', PStr [CHR 0x00])]"
proof -
  have h: "hex_val CHR ''0'' = Some 0" by (simp add: hex_val_def lower_char_def)
  have z: "zfill 6 ''000000'' = ''000000''" by (simp add: zfill_def)
  have "totp_verify sample_attest ''key'' (PStr ''000000'') 1 = Inr True"
    by (simp add: totp_verify_def sample_attest_def zero_mac_code z upto.simps)
  then show ?thesis
    by (simp add: handle_attestation_def attest_checks_def h char_of_def dget_or_def) (simp add: sample_attest_def h char_of_def)
qed

theorem attestation_sound_witness:
  "\<exists>row h n. a_row sample_attest (PStr ''u'') = Inr (Some row) \<and> \<bar>n - 2\<bar> \<le> 1 \<and> a_mac sample_attest ''key'' n = Inr h \<and> zfill 6 ''000000'' = totp_code h"
  using attestation_sound [OF sample_attest_evaluates] by (auto simp: dget_or_def sample_attest_def)

end
