(* ===== verification/Transition.thy ===== *)
theory Transition
  imports Settlement StateAdapters Pta
begin

text \<open>
  The WASM gateway and the topology transitions that run on it, \<^verbatim>\<open>node/runtime/wasm/gateway.py\<close> and
  \<^verbatim>\<open>state/topos/transition.py\<close>. The gateway module (\<^verbatim>\<open>execute_gateway\<close> and its memory) is an argument: it
  takes the bytes of a request and gives a pointer, 0 for a panic, and a pointer is read to a text or
  fails. Futures an object has created are numbered; the last one is its current future. The Greek symbols
  of a state are given by their UTF-8 bytes.
\<close>

section \<open>GatewayWasm\<close>

datatype gateway_fault = MemoryBoundaryError string | GatewayRuptureError string | EngineError exc

record gateway =
  g_prims :: prims
  g_json :: "pyval \<Rightarrow> string"
  g_execute :: "string \<Rightarrow> nat res"
  g_read :: "nat \<Rightarrow> string res"

definition MAX_INPUT_SIZE :: nat where
  "MAX_INPUT_SIZE = 1024 * 1024"

definition read_c_string_fast :: "gateway \<Rightarrow> nat \<Rightarrow> gateway_fault + string" where
  "read_c_string_fast G ptr =
     (case g_read G ptr of
        Inr s \<Rightarrow> Inr s
      | Inl e \<Rightarrow> Inl (GatewayRuptureError (''C-String direct read failed: '' @ msg_of_exc e)))"

definition invoke_raw_ffi :: "gateway \<Rightarrow> string \<Rightarrow> gateway_fault + string" where
  "invoke_raw_ffi G payload_str =
     (let payload_bytes = payload_str @ [CHR 0x00] in
      if MAX_INPUT_SIZE < length payload_bytes
      then Inl (MemoryBoundaryError (''Payload exceeds boundary ('' @ show_nat MAX_INPUT_SIZE @ ''B).''))
      else (case g_execute G payload_bytes of
              Inl e \<Rightarrow> Inl (EngineError e)
            | Inr ptr \<Rightarrow> if ptr = 0 then Inl (GatewayRuptureError ''Gateway Panic: Null pointer returned.'')
                        else read_c_string_fast G ptr))"

definition reverted :: "string \<Rightarrow> pydict" where
  "reverted reason = [(''success'', PBool False), (''revert_reason'', PStr reason)]"

definition safe_invoke :: "gateway \<Rightarrow> pydict \<Rightarrow> pydict" where
  "safe_invoke G payload_dict =
     (case invoke_raw_ffi G (g_json G (PDict payload_dict)) of
        Inl (MemoryBoundaryError _) \<Rightarrow> reverted ''Memory Boundary Exceeded''
      | Inl (GatewayRuptureError m) \<Rightarrow> reverted m
      | Inl (EngineError _) \<Rightarrow> reverted ''Internal Execution Error''
      | Inr res_str \<Rightarrow>
          (case p_loads (g_prims G) res_str of
             Some (PDict receipt) \<Rightarrow> receipt
           | _ \<Rightarrow> reverted ''Internal Execution Error''))"

definition evaluate_intent :: "gateway \<Rightarrow> int \<Rightarrow> pyfloat \<Rightarrow> string \<Rightarrow> int list \<Rightarrow> pydict" where
  "evaluate_intent G dimension base_friction raw_payload state_vector =
     safe_invoke G [(''target_module'', PStr ''intent_parser''), (''dimension'', PInt dimension),
       (''base_friction'', PFloat base_friction), (''raw_payload'', PStr raw_payload),
       (''state_vector'', PList (map PInt state_vector))]"

definition execute_transaction_fsm :: "gateway \<Rightarrow> pydict \<Rightarrow> pydict \<Rightarrow> pydict" where
  "execute_transaction_fsm G fsm_state event =
     safe_invoke G [(''target_module'', PStr ''transaction_fsm''), (''fsm_state'', PDict fsm_state), (''event'', PDict event)]"

definition execute_clearing_fsm :: "gateway \<Rightarrow> pydict \<Rightarrow> pydict \<Rightarrow> pydict" where
  "execute_clearing_fsm G fsm_state event =
     safe_invoke G [(''target_module'', PStr ''clearing_fsm''), (''fsm_state'', PDict fsm_state), (''event'', PDict event)]"

definition execute_flow_transition_fsm :: "gateway \<Rightarrow> pydict \<Rightarrow> pydict \<Rightarrow> pydict" where
  "execute_flow_transition_fsm G fsm_state event =
     safe_invoke G [(''target_module'', PStr ''flow_transition_fsm''), (''fsm_state'', PDict fsm_state), (''event'', PDict event)]"

section \<open>FlowTransition\<close>

datatype edge_flow = ZERO | COLLAPSED | COHERENT | FRAGMENTED | ANCHOR

fun edge_value :: "edge_flow \<Rightarrow> string" where
  "edge_value ZERO = ''ZERO''"
| "edge_value COLLAPSED = ''COLLAPSED''"
| "edge_value COHERENT = ''COHERENT''"
| "edge_value FRAGMENTED = ''FRAGMENTED''"
| "edge_value ANCHOR = ''ANCHOR''"

fun edge_symbol :: "edge_flow \<Rightarrow> string" where
  "edge_symbol ZERO = ''0''"
| "edge_symbol COLLAPSED = [CHR 0xCE, CHR 0xA6, CHR 0xE2, CHR 0x81, CHR 0xBB]"
| "edge_symbol COHERENT = [CHR 0xCE, CHR 0xA6, CHR 0xE2, CHR 0x81, CHR 0xBA]"
| "edge_symbol FRAGMENTED = [CHR 0xCE, CHR 0xA6, CHR 0xE1, CHR 0xB6, CHR 0xA0]"
| "edge_symbol ANCHOR = [CHR 0xCE, CHR 0xA8, CHR 0xE1, CHR 0xB4, CHR 0xB0]"

text \<open>The enum called on a value: looked up by value, anything else is refused.\<close>

definition edge_of :: "pyval \<Rightarrow> edge_flow res" where
  "edge_of v =
     (case find (\<lambda>e. v = PStr (edge_value e)) [ZERO, COLLAPSED, COHERENT, FRAGMENTED, ANCHOR] of
        Some e \<Rightarrow> Inr e
      | None \<Rightarrow> Inl (Exc ValueErr ''not a valid EdgeFlow''))"

datatype fut = Pending | Resolved pyval | Cancelled

record mem_entry =
  me_event :: string
  previous_state :: string
  new_state :: "string option"

record flow_transition =
  ft_id :: string
  ft_origin :: string
  edge :: edge_flow
  reflective :: bool
  reversible :: bool
  memory :: "mem_entry list"
  anchored_target :: pyval
  futures :: "fut list"

type_synonym 'a ft_prog = "(flow_transition, 'a) prog"

definition reset_future :: "flow_transition \<Rightarrow> flow_transition" where
  "reset_future s =
     (case rev (futures s) of
        Pending # fs \<Rightarrow> s\<lparr>futures := rev fs @ [Cancelled, Pending]\<rparr>
      | _ \<Rightarrow> s\<lparr>futures := futures s @ [Pending]\<rparr>)"

definition new_transition :: "string \<Rightarrow> string \<Rightarrow> flow_transition" where
  "new_transition i org =
     reset_future \<lparr>ft_id = i, ft_origin = org, edge = ZERO, reflective = True, reversible = True, memory = [],
       anchored_target = PNone, futures = []\<rparr>"

definition set_result :: "pyval \<Rightarrow> flow_transition \<Rightarrow> flow_transition" where
  "set_result v s =
     (case rev (futures s) of
        Pending # fs \<Rightarrow> s\<lparr>futures := rev fs @ [Resolved v]\<rparr>
      | _ \<Rightarrow> s)"

definition record_event :: "string \<Rightarrow> edge_flow option \<Rightarrow> flow_transition \<Rightarrow> flow_transition" where
  "record_event message state_change s =
     (let entry = \<lparr>me_event = message, previous_state = edge_symbol (edge s), new_state = map_option edge_symbol state_change\<rparr>
      in s\<lparr>edge := (case state_change of Some e \<Rightarrow> e | None \<Rightarrow> edge s), memory := memory s @ [entry]\<rparr>)"

definition handle_command :: "prims \<Rightarrow> pyval \<Rightarrow> unit ft_prog" where
  "handle_command P c =
     bindp (lift_res (as_dict c)) (\<lambda>cmd s.
       let ctype = dget_or cmd ''command_type'' PNone in
       if ctype = PStr ''ResolveAnchorCmd'' then
         (Inr (), record_event (''Anchored state to '' @ py_str P (dget_or cmd ''resource_address'' PNone)) None
            (set_result (dget_or cmd ''success'' (PBool True)) s))
       else if ctype = PStr ''FractureCmd'' then (Inr (), set_result (dget_or cmd ''success'' (PBool False)) s)
       else if ctype = PStr ''ResetCmd'' then
         (Inr (), record_event ''Reversible exit declared. Returned to 0.'' None (reset_future s))
       else if ctype = PStr ''HaltFsmCmd'' then
         (Inl (Exc PermissionErr (''FSM Halted: '' @ py_str P (dget_or cmd ''reason'' (PStr ''Invalid FSM Transition'')))), s)
       else (Inr (), s))"

definition fsm_state_of :: "flow_transition \<Rightarrow> pydict" where
  "fsm_state_of s =
     [(''origin'', PStr (ft_origin s)), (''edge'', PStr (edge_value (edge s))), (''reflective'', PBool (reflective s)),
      (''reversible'', PBool (reversible s)), (''anchored_target'', anchored_target s)]"

definition apply_event :: "gateway \<Rightarrow> pydict \<Rightarrow> unit ft_prog" where
  "apply_event G event s =
     (let receipt = execute_flow_transition_fsm G (fsm_state_of s) event in
      if \<not> truthy (dget_or receipt ''success'' PNone)
      then (Inl (Exc RuntimeErr (''FSM Panic: '' @ py_str (g_prims G) (dget_or receipt ''revert_reason'' PNone))), s)
      else bindp (lift_res (as_dict (dget_or receipt ''next_fsm_state'' (PDict [])))) (\<lambda>nxt.
           bindp (lift_res (edge_of (dget_or nxt ''edge'' (PStr (edge_value (edge s)))))) (\<lambda>e.
           bindp (\<lambda>s. (Inr (), s\<lparr>edge := e, anchored_target := dget_or nxt ''anchored_target'' PNone\<rparr>)) (\<lambda>_.
             case dget receipt ''command'' of
               Some c \<Rightarrow> if truthy c then handle_command (g_prims G) c else ret ()
             | None \<Rightarrow> ret ()))) s)"

definition note_event :: "string \<Rightarrow> unit ft_prog" where
  "note_event m = (\<lambda>s. (Inr (), record_event m None s))"

definition bind_phase :: "gateway \<Rightarrow> edge_flow \<Rightarrow> unit ft_prog" where
  "bind_phase G target_phase =
     bindp (apply_event G [(''event_type'', PStr ''Bind''), (''target_phase'', PStr (edge_value target_phase))]) (\<lambda>_.
       note_event (''Bound to phase '' @ edge_symbol target_phase))"

definition lambda_text :: string where "lambda_text = [CHR 0xCE, CHR 0xBB]"
definition tau_text :: string where "tau_text = [CHR 0xCF, CHR 0x84]"

definition threshold_test :: "gateway \<Rightarrow> pyfloat \<Rightarrow> pyfloat \<Rightarrow> bool ft_prog" where
  "threshold_test G lmbda tau =
     bindp (apply_event G [(''event_type'', PStr ''ThresholdTest''), (''lmbda'', PFloat lmbda), (''tau'', PFloat tau)]) (\<lambda>_ s.
       (Inr (edge s = COHERENT),
        record_event (''Threshold test: '' @ lambda_text @ ''('' @ py_str (g_prims G) (PFloat lmbda) @ '') vs '' @ tau_text @ ''('' @
          py_str (g_prims G) (PFloat tau) @ '')'') (Some (edge s)) s))"

definition reach_anchor :: "gateway \<Rightarrow> string \<Rightarrow> unit ft_prog" where
  "reach_anchor G resource_address =
     apply_event G [(''event_type'', PStr ''ReachAnchor''), (''resource_address'', PStr resource_address)]"

definition fracture_topology :: "gateway \<Rightarrow> pyfloat \<Rightarrow> pyfloat \<Rightarrow> bool \<Rightarrow> unit ft_prog" where
  "fracture_topology G lmbda tau force_collapse =
     bindp (apply_event G [(''event_type'', PStr ''FractureTopology''), (''lmbda'', PFloat lmbda), (''tau'', PFloat tau),
              (''force_collapse'', PBool force_collapse)]) (\<lambda>_.
       note_event (''Topology fractured (force='' @ py_str (g_prims G) (PBool force_collapse) @ '')''))"

definition unbind_and_reset :: "gateway \<Rightarrow> unit ft_prog" where
  "unbind_and_reset G = apply_event G [(''event_type'', PStr ''UnbindAndReset'')]"

fun join_lines :: "string list \<Rightarrow> string" where
  "join_lines [] = []"
| "join_lines [l] = l"
| "join_lines (l # ls) = l @ [CHR 0x0A] @ join_lines ls"

definition trace_line :: "mem_entry \<Rightarrow> string" where
  "trace_line m = ''['' @ (case new_state m of Some n \<Rightarrow> n | None \<Rightarrow> previous_state m) @ ''] '' @ me_event m"

text \<open>
  \<open>await_convergence\<close> waits for future \<open>f\<close>, the current one when it was called. It goes on when that
  future is done, or, when it is still pending, because the timeout passed: \<open>wait_for\<close> then cancels
  it. A cancelled future raises \<open>CancelledError\<close>, which \<open>except Exception\<close> does not catch.
\<close>

definition cancelled_error :: exc where
  "cancelled_error = Exc GenericErr ''CancelledError''"

definition await_convergence :: "gateway \<Rightarrow> nat \<Rightarrow> string ft_prog" where
  "await_convergence G f s =
     (case futures s ! f of
        Resolved success \<Rightarrow>
          (let trace = join_lines (map trace_line (memory s))
           in (Inr (if truthy success then trace
                    else trace @ [CHR 0x0A] @ ''[SYSTEM COLLAPSED] Execution fractured before reaching anchor.''), s))
      | Cancelled \<Rightarrow> (Inl cancelled_error, s)
      | Pending \<Rightarrow>
          bindp (fracture_topology G (Fin 0) (Fin 1) True) (\<lambda>_. ret ''Execution failed: Timeout reached without convergence.'')
            (s\<lparr>futures := (futures s)[f := Cancelled]\<rparr>))"

section \<open>TransitionManager and EpochSealer\<close>

record topology_residue =
  edge_state :: string
  trajectory_trace :: string
  tr_receipt :: "transaction_receipt option"

record seal_env =
  se_prims :: prims
  se_sign :: "string \<Rightarrow> string"
  se_pubkey :: string
  se_now :: pyfloat
  se_secs :: int
  se_int :: "pyval \<Rightarrow> int option"
  se_invoke :: "string \<Rightarrow> string \<Rightarrow> bool \<times> string"

definition generate_seal_payload :: "seal_env \<Rightarrow> pydict \<Rightarrow> string \<Rightarrow> string res" where
  "generate_seal_payload S entangled_state parent_commit_id =
     (let P = se_prims S in
      bind_res (as_dict (dget_or entangled_state ''parity'' (PDict []))) (\<lambda>parity.
      bind_res (as_dict (dget_or entangled_state ''repos'' (PDict []))) (\<lambda>repos.
      bind_res (build_anchor_commit P parity (Some 0) parent_commit_id repos []) (\<lambda>d.
      bind_res (build_seal_epoch_payload P parity (Some 0) parent_commit_id repos [] (se_now S)
          [se_pubkey S] [sign_state_payload P (se_sign S) d] (Some 1) (Some [se_pubkey S])) (\<lambda>payload.
        Inr (p_canon P (PDict payload)))))))"

definition task_state :: "flow_transition \<Rightarrow> pydict" where
  "task_state s =
     [(''parity'', PDict [(''topos_id'', PStr (''task_'' @ ft_id s)), (''phase_id'', PInt 0), (''nexus_id'', PInt 0)]),
      (''repos'', PDict [])]"

text \<open>Reading the signatures out of the broker's reply, which nothing uses afterwards.\<close>

definition seal_signatures :: "prims \<Rightarrow> bool \<times> string \<Rightarrow> pyval res" where
  "seal_signatures P reply =
     (case reply of
        (True, output) \<Rightarrow>
          (case p_loads P output of
             None \<Rightarrow> Inr (PList [])
           | Some v \<Rightarrow> bind_res (as_dict v) (\<lambda>d. Inr (dget_or d ''signatures'' (PList []))))
      | (False, _) \<Rightarrow> Inr (PList []))"

definition manager_settle :: "gateway \<Rightarrow> seal_env \<Rightarrow> pyfloat \<Rightarrow> int \<Rightarrow> topology_residue ft_prog" where
  "manager_settle G S cost fuel_consumed s =
     bindp (lift_res (generate_seal_payload S (task_state s) ''genesis'')) (\<lambda>canonical_payload.
     bindp (lift_res (seal_signatures (se_prims S) (se_invoke S ''seal_epoch'' canonical_payload))) (\<lambda>signatures.
     bindp (lift_res (finalize_settlement (se_prims S) (se_int S) (se_secs S) (task_state s)
              [(''fuel_consumed'', PInt fuel_consumed), (''accumulated_cost'', PFloat cost)])) (\<lambda>receipt.
     bindp (reach_anchor G (''urn:surgent:resource:resolved_task_'' @ ft_id s)) (\<lambda>_ s'.
       (Inr \<lparr>edge_state = edge_value (edge s'), trajectory_trace = edge_symbol (edge s'), tr_receipt = Some receipt\<rparr>, s'))))) s"

section \<open>The gateway answers every request\<close>

lemma reverted_not_success [simp]: "\<not> truthy (dget_or (reverted m) ''success'' PNone)" "dget (reverted m) ''success'' = Some (PBool False)"
  by (simp_all add: reverted_def dget_or_def)

text \<open>
  The gateway never raises: a request is answered by the receipt of the module, read whole as a
  dictionary, or by a refusal that says success False; a request that does not fit the input buffer is
  refused without running the module.
\<close>

theorem gateway_answers:
  "(\<exists>m. safe_invoke G d = reverted m) \<or>
   (\<exists>ptr text. g_execute G (g_json G (PDict d) @ [CHR 0x00]) = Inr ptr \<and> 0 < ptr \<and> g_read G ptr = Inr text \<and>
      p_loads (g_prims G) text = Some (PDict (safe_invoke G d)) \<and> length (g_json G (PDict d)) < 1048576)"
  by (auto simp: safe_invoke_def invoke_raw_ffi_def Let_def read_c_string_fast_def MAX_INPUT_SIZE_def
      split: sum.split gateway_fault.split option.split pyval.split)

text \<open>
  A request longer than the input buffer gets the same refusal whatever the module would do.
\<close>

theorem oversized_refused:
  assumes "1048576 \<le> length (g_json G (PDict d))"
  shows "safe_invoke G d = [(''success'', PBool False), (''revert_reason'', PStr ''Memory Boundary Exceeded'')]"
  using assms by (simp add: safe_invoke_def invoke_raw_ffi_def MAX_INPUT_SIZE_def reverted_def)

section \<open>Futures\<close>

definition future_inv :: "flow_transition \<Rightarrow> bool" where
  "future_inv s \<longleftrightarrow> futures s \<noteq> [] \<and> Pending \<notin> set (butlast (futures s))"

text \<open>What every operation keeps: futures that are done, the log so far, and the fields nothing writes.\<close>

definition extends :: "flow_transition \<Rightarrow> flow_transition \<Rightarrow> bool" where
  "extends s t \<longleftrightarrow>
     length (futures s) \<le> length (futures t) \<and>
     (\<forall>i < length (futures s). futures s ! i \<noteq> Pending \<longrightarrow> futures t ! i = futures s ! i) \<and>
     prefix (memory s) (memory t) \<and>
     ft_id t = ft_id s \<and> ft_origin t = ft_origin s \<and> reflective t = reflective s \<and> reversible t = reversible s"

definition sound_op :: "'a ft_prog \<Rightarrow> bool" where
  "sound_op m \<longleftrightarrow> (\<forall>s. future_inv s \<longrightarrow> future_inv (snd (m s)) \<and> extends s (snd (m s)))"

lemma extends_refl [simp]: "extends s s"
  by (simp add: extends_def)

lemma extends_trans: "extends s t \<Longrightarrow> extends t u \<Longrightarrow> extends s u"
  unfolding extends_def by (auto intro: prefix_order.trans)

lemma sound_bindp [intro]: "sound_op m \<Longrightarrow> (\<And>x. sound_op (f x)) \<Longrightarrow> sound_op (bindp m f)"
  unfolding sound_op_def bindp_def by (auto split: prod.split sum.split) (metis extends_trans snd_conv)+

lemma sound_pure [intro, simp]: "sound_op (ret x)" "sound_op (lift_res r)" "sound_op (\<lambda>s. (r, s))"
  by (simp_all add: sound_op_def ret_def lift_res_def)

lemma last_future: "futures s \<noteq> [] \<Longrightarrow> futures s = butlast (futures s) @ [last (futures s)]"
  by simp

lemma rev_Cons_iff: "rev xs = y # ys \<longleftrightarrow> xs = rev ys @ [y]"
  by (metis rev.simps(2) rev_rev_ident)

lemma future_inv_snoc: "future_inv s \<longleftrightarrow> (\<exists>fs f. futures s = fs @ [f] \<and> Pending \<notin> set fs)"
  unfolding future_inv_def by (metis append_butlast_last_id butlast_snoc snoc_eq_iff_butlast)

lemma reset_future_eq:
  "futures s = fs @ [f] \<Longrightarrow> reset_future s = s\<lparr>futures := fs @ [if f = Pending then Cancelled else f, Pending]\<rparr>"
  by (cases f) (simp_all add: reset_future_def)

lemma set_result_eq:
  "futures s = fs @ [f] \<Longrightarrow> set_result v s = s\<lparr>futures := fs @ [if f = Pending then Resolved v else f]\<rparr>"
  by (cases f) (simp_all add: set_result_def)

lemma reset_future_sound: "future_inv s \<Longrightarrow> future_inv (reset_future s) \<and> extends s (reset_future s)"
  by (auto simp: future_inv_snoc reset_future_eq extends_def nth_append less_Suc_eq)

lemma set_result_sound: "future_inv s \<Longrightarrow> future_inv (set_result v s) \<and> extends s (set_result v s)"
  by (auto simp: future_inv_snoc set_result_eq extends_def nth_append less_Suc_eq)

lemma record_event_sound: "future_inv s \<Longrightarrow> future_inv (record_event m c s) \<and> extends s (record_event m c s)"
  by (auto simp: future_inv_def record_event_def Let_def extends_def)

lemma record_event_sound_after:
  "future_inv s \<and> extends s0 s \<Longrightarrow> future_inv (record_event m c s) \<and> extends s0 (record_event m c s)"
  using record_event_sound extends_trans by blast

lemma sound_handle_command [intro]: "sound_op (handle_command P c)"
proof -
  have "sound_op (lift_res (as_dict c))" by simp
  then show ?thesis
    unfolding handle_command_def
    by (rule sound_bindp)
      (auto simp: sound_op_def Let_def reset_future_sound set_result_sound intro!: record_event_sound_after)
qed

lemma sound_apply_event [intro]: "sound_op (apply_event G ev)"
proof -
  have w: "sound_op (\<lambda>s. (Inr (), s\<lparr>edge := e, anchored_target := t\<rparr>))" for e t
    by (auto simp: sound_op_def future_inv_def extends_def)
  have "sound_op (\<lambda>s. apply_event G ev s)"
    unfolding sound_op_def
  proof (intro allI impI)
    fix s assume s: "future_inv s"
    let ?r = "execute_flow_transition_fsm G (fsm_state_of s) ev"
    have "sound_op (bindp (lift_res (as_dict (dget_or ?r ''next_fsm_state'' (PDict [])))) (\<lambda>nxt.
           bindp (lift_res (edge_of (dget_or nxt ''edge'' (PStr (edge_value (edge s)))))) (\<lambda>e.
           bindp (\<lambda>s. (Inr (), s\<lparr>edge := e, anchored_target := dget_or nxt ''anchored_target'' PNone\<rparr>)) (\<lambda>_.
             case dget ?r ''command'' of
               Some c \<Rightarrow> if truthy c then handle_command (g_prims G) c else ret ()
             | None \<Rightarrow> ret ()))))"
      by (auto intro!: sound_bindp w split: option.split)
    with s show "future_inv (snd (apply_event G ev s)) \<and> extends s (snd (apply_event G ev s))"
      by (auto simp: apply_event_def Let_def sound_op_def)
  qed
  then show ?thesis by simp
qed

lemma sound_record [intro]: "sound_op (\<lambda>s. (r s, record_event (m s) (c s) s))"
  by (simp add: sound_op_def record_event_sound)

lemma sound_note [intro]: "sound_op (note_event m)"
  unfolding note_event_def by (rule sound_record)

lemma sound_operations [intro]:
  "sound_op (bind_phase G e)" "sound_op (threshold_test G l t)" "sound_op (reach_anchor G a)"
  "sound_op (fracture_topology G l t b)" "sound_op (unbind_and_reset G)"
  unfolding bind_phase_def threshold_test_def reach_anchor_def fracture_topology_def unbind_and_reset_def
  by (intro sound_bindp sound_apply_event sound_note sound_record)+

lemma sound_settle [intro]: "sound_op (manager_settle G S cost fuel)"
  unfolding sound_op_def manager_settle_def
proof (intro allI impI)
  show "future_inv (snd (bindp (lift_res a) (\<lambda>x. bindp (lift_res (b x)) (\<lambda>y. bindp (lift_res c) (\<lambda>z. bindp (reach_anchor G u) (\<lambda>_ s'. (f z s', s'))))) s)) \<and>
    extends s (snd (bindp (lift_res a) (\<lambda>x. bindp (lift_res (b x)) (\<lambda>y. bindp (lift_res c) (\<lambda>z. bindp (reach_anchor G u) (\<lambda>_ s'. (f z s', s'))))) s))"
    if "future_inv s" for s and a :: "string res" and b :: "string \<Rightarrow> pyval res" and c :: "transaction_receipt res" and u
      and f :: "transaction_receipt \<Rightarrow> flow_transition \<Rightarrow> topology_residue res"
  proof -
    have g: "sound_op (\<lambda>s'. (f z s', s'))" for z by (simp add: sound_op_def)
    have "sound_op (bindp (lift_res a) (\<lambda>x. bindp (lift_res (b x)) (\<lambda>y. bindp (lift_res c) (\<lambda>z. bindp (reach_anchor G u) (\<lambda>_ s'. (f z s', s'))))))"
      by (intro sound_bindp sound_pure sound_operations g)
    with that show ?thesis by (simp add: sound_op_def)
  qed
qed

lemma sound_await:
  assumes "future_inv s" "f < length (futures s)" "futures s ! f = Pending \<longrightarrow> Suc f = length (futures s)"
  shows "future_inv (snd (await_convergence G f s)) \<and> extends s (snd (await_convergence G f s))"
proof (cases "futures s ! f")
  case Pending
  let ?s = "s\<lparr>futures := (futures s)[f := Cancelled]\<rparr>"
  from assms Pending have s: "future_inv ?s" "extends s ?s"
    by (auto simp: future_inv_snoc extends_def list_update_append nth_list_update)
  have "sound_op (bindp (fracture_topology G (Fin 0) (Fin 1) True) (\<lambda>_. ret ''Execution failed: Timeout reached without convergence.''))"
    by (intro sound_bindp sound_operations sound_pure)
  with s show ?thesis using extends_trans by (auto simp: await_convergence_def Pending sound_op_def)
qed (simp_all add: await_convergence_def Let_def assms)

text \<open>
  One call on a transition, with the state it leaves, whether it returns or raises. \<open>f\<close> in the last rule
  is the future an await was started on; it goes on when the future is done or the timeout passed.
\<close>

inductive ft_step :: "gateway \<Rightarrow> flow_transition \<Rightarrow> flow_transition \<Rightarrow> bool" for G where
  step_bind: "ft_step G s (snd (bind_phase G e s))"
| step_threshold: "ft_step G s (snd (threshold_test G l t s))"
| step_reach: "ft_step G s (snd (reach_anchor G a s))"
| step_fracture: "ft_step G s (snd (fracture_topology G l t b s))"
| step_reset: "ft_step G s (snd (unbind_and_reset G s))"
| step_record: "ft_step G s (record_event m c s)"
| step_settle: "ft_step G s (snd (manager_settle G S cost fuel s))"
| step_await: "f < length (futures s) \<Longrightarrow> ft_step G s (snd (await_convergence G f s))"

lemma pending_is_last: "future_inv s \<Longrightarrow> f < length (futures s) \<Longrightarrow> futures s ! f = Pending \<Longrightarrow> Suc f = length (futures s)"
  by (auto simp: future_inv_snoc nth_append less_Suc_eq split: if_splits) (metis nth_mem)

lemma ft_step_sound: "ft_step G s t \<Longrightarrow> future_inv s \<Longrightarrow> future_inv t \<and> extends s t"
proof (induction rule: ft_step.induct)
  case (step_await f s)
  then show ?case using sound_await pending_is_last by blast
qed (use sound_operations sound_settle record_event_sound in \<open>auto simp: sound_op_def\<close>)

text \<open>
  C13. Whatever the gateway answers and in whatever order the calls of a transition happen, every future but
  the current one is done; a future that is done never changes again; the log only grows; and the identity of the
  transition stays as it was created.
\<close>

theorem futures_settle_once:
  assumes "(ft_step G)\<^sup>*\<^sup>* (new_transition i org) s" "(ft_step G)\<^sup>*\<^sup>* s t"
  shows "Pending \<notin> set (butlast (futures t)) \<and> prefix (memory s) (memory t) \<and> ft_id t = i \<and>
    (\<forall>k < length (futures s). futures s ! k \<noteq> Pending \<longrightarrow> k < length (futures t) \<and> futures t ! k = futures s ! k)"
proof -
  have init: "future_inv (new_transition i org)" "ft_id (new_transition i org) = i"
    by (simp_all add: future_inv_def new_transition_def reset_future_def)
  have steps: "(ft_step G)\<^sup>*\<^sup>* a b \<Longrightarrow> future_inv a \<Longrightarrow> future_inv b \<and> extends a b" for a b
  proof (induction rule: rtranclp_induct)
    case (step y z)
    then show ?case using ft_step_sound extends_trans by blast
  qed simp
  from steps [OF assms(1) init(1)] have s: "future_inv s" "ft_id s = i" by (auto simp: extends_def init)
  from steps [OF assms(2) this(1)] have t: "future_inv t" "extends s t" by auto
  with s show ?thesis by (auto simp: future_inv_def extends_def)
qed

section \<open>Settling a task\<close>

lemma edge_of_value [simp]: "edge_of (PStr (edge_value e)) = Inr e"
  by (cases e) (simp_all add: edge_of_def)

lemma apply_event_refused:
  "\<not> truthy (dget_or (execute_flow_transition_fsm G (fsm_state_of s) ev) ''success'' PNone) \<Longrightarrow>
     \<exists>m. apply_event G ev s = (Inl (Exc RuntimeErr m), s)"
  by (simp add: apply_event_def)

text \<open>An answer that moves the edge to \<open>e\<close> and resolves the anchor.\<close>

definition anchors :: "pydict \<Rightarrow> edge_flow \<Rightarrow> pyval \<Rightarrow> pyval \<Rightarrow> bool" where
  "anchors receipt e tgt addr \<longleftrightarrow>
     truthy (dget_or receipt ''success'' PNone) \<and>
     (\<exists>nxt cmd. dget receipt ''next_fsm_state'' = Some (PDict nxt) \<and> dget nxt ''edge'' = Some (PStr (edge_value e)) \<and>
        dget_or nxt ''anchored_target'' PNone = tgt \<and> dget receipt ''command'' = Some (PDict cmd) \<and>
        dget cmd ''command_type'' = Some (PStr ''ResolveAnchorCmd'') \<and> truthy (dget_or cmd ''success'' (PBool True)) \<and>
        dget_or cmd ''resource_address'' PNone = addr)"

lemma apply_event_anchors:
  assumes "anchors (execute_flow_transition_fsm G (fsm_state_of s) ev) e tgt addr" "futures s = fs @ [Pending]"
  shows "\<exists>v. truthy v \<and> apply_event G ev s = (Inr (), record_event (''Anchored state to '' @ py_str (g_prims G) addr) None
      (s\<lparr>edge := e, anchored_target := tgt, futures := fs @ [Resolved v]\<rparr>))"
proof -
  from assms(1) obtain nxt cmd where r: "truthy (dget_or (execute_flow_transition_fsm G (fsm_state_of s) ev) ''success'' PNone)"
      "dget (execute_flow_transition_fsm G (fsm_state_of s) ev) ''next_fsm_state'' = Some (PDict nxt)"
      "dget nxt ''edge'' = Some (PStr (edge_value e))" "dget_or nxt ''anchored_target'' PNone = tgt"
      "dget (execute_flow_transition_fsm G (fsm_state_of s) ev) ''command'' = Some (PDict cmd)"
      "dget cmd ''command_type'' = Some (PStr ''ResolveAnchorCmd'')" "truthy (dget_or cmd ''success'' (PBool True))"
      "dget_or cmd ''resource_address'' PNone = addr"
    by (auto simp: anchors_def)
  then have "truthy (PDict cmd)" by (cases cmd) auto
  with r assms(2) show ?thesis
    by (intro exI [of _ "dget_or cmd ''success'' (PBool True)"])
      (simp add: apply_event_def bindp_def prog_simps handle_command_def dget_or_def [of _ "''next_fsm_state''"]
        dget_or_def [of _ "''edge''"] dget_or_def [of _ "''command_type''"] set_result_eq)
qed

lemma seal_payload_total: "\<exists>text. generate_seal_payload S (task_state s) p = Inr text"
  by (simp add: generate_seal_payload_def Let_def task_state_def dget_or_def build_anchor_commit_def build_seal_epoch_payload_def
      assert_uint32_def uint32_def)

lemma seal_signatures_total:
  "\<forall>v. p_loads P (snd reply) = Some v \<longrightarrow> is_dict v \<Longrightarrow> \<exists>sigs. seal_signatures P reply = Inr sigs"
proof -
  assume d: "\<forall>v. p_loads P (snd reply) = Some v \<longrightarrow> is_dict v"
  obtain ok out where reply: "reply = (ok, out)" by (cases reply)
  show ?thesis
  proof (cases "p_loads P out")
    case (Some v)
    with d reply have "is_dict v" by simp
    with Some show ?thesis by (cases v; cases ok) (simp_all add: seal_signatures_def reply)
  qed (cases ok, simp_all add: seal_signatures_def reply)
qed

text \<open>
  Settling a task whose future is pending, with a gateway that accepts the anchor, returns the
  residue with a receipt for exactly the fuel it was given, and resolves the future, so whoever awaits it gets the
  log and no collapse. This holds whether or not the broker sealed the epoch: the receipt says
  committed either way.
\<close>

theorem settlement_converges:
  fixes S :: seal_env
  assumes "futures s = fs @ [Pending]" "se_int S (PInt fuel) = Some fuel"
    and "\<And>text v. p_loads (se_prims S) (snd (se_invoke S ''seal_epoch'' text)) = Some v \<Longrightarrow> is_dict v"
    and "anchors (execute_flow_transition_fsm G (fsm_state_of s) [(''event_type'', PStr ''ReachAnchor''),
      (''resource_address'', PStr (''urn:surgent:resource:resolved_task_'' @ ft_id s))]) e tgt addr"
  shows "\<exists>t receipt. manager_settle G S cost fuel s =
      (Inr \<lparr>edge_state = edge_value e, trajectory_trace = edge_symbol e, tr_receipt = Some receipt\<rparr>, t) \<and>
    job_id receipt = ''task_'' @ ft_id s \<and> tr_fuel_consumed receipt = fuel \<and> settlement_status receipt = ''COMMITTED_TO_NEXUS'' \<and>
    edge t = e \<and> anchored_target t = tgt \<and>
    await_convergence G (length fs) t = (Inr (join_lines (map trace_line (memory t))), t)"
proof -
  obtain raw where raw: "generate_seal_payload S (task_state s) ''genesis'' = Inr raw" using seal_payload_total by blast
  obtain sigs where sigs: "seal_signatures (se_prims S) (se_invoke S ''seal_epoch'' raw) = Inr sigs"
    using seal_signatures_total assms(3) by blast
  obtain v where v: "truthy v" "reach_anchor G (''urn:surgent:resource:resolved_task_'' @ ft_id s) s =
      (Inr (), record_event (''Anchored state to '' @ py_str (g_prims G) addr) None
      (s\<lparr>edge := e, anchored_target := tgt, futures := fs @ [Resolved v]\<rparr>))"
    using apply_event_anchors [OF assms(4,1)] by (auto simp: reach_anchor_def)
  have f: "finalize_settlement (se_prims S) (se_int S) (se_secs S) (task_state s)
      [(''fuel_consumed'', PInt fuel), (''accumulated_cost'', PFloat cost)] =
      Inr \<lparr>job_id = ''task_'' @ ft_id s, tr_topos_id = ''task_'' @ ft_id s, parity_hash = show_int 0, tr_fuel_consumed = fuel,
        settlement_status = ''COMMITTED_TO_NEXUS''\<rparr>"
    by (simp add: finalize_settlement_def task_state_def dget_or_def assms(2))
  show ?thesis using v(2)
    by (simp add: manager_settle_def bindp_def prog_simps raw sigs f v(1) record_event_def await_convergence_def)
qed

text \<open>
  An await that times out cancels the future it waited for: awaiting that future again raises, whatever
  the fracture did, until a reset makes a new one.
\<close>

theorem timeout_cancels_future:
  assumes "future_inv s" "f < length (futures s)" "futures s ! f = Pending" "snd (await_convergence G f s) = t"
  shows "await_convergence G f t = (Inl cancelled_error, t)"
proof -
  let ?s = "s\<lparr>futures := (futures s)[f := Cancelled]\<rparr>"
  have "Suc f = length (futures s)" using assms pending_is_last by blast
  with assms(1-3) have s: "future_inv ?s" by (auto simp: future_inv_snoc list_update_append)
  have "sound_op (bindp (fracture_topology G (Fin 0) (Fin 1) True) (\<lambda>_. ret ''Execution failed: Timeout reached without convergence.''))"
    by (intro sound_bindp sound_operations sound_pure)
  with s have "extends ?s t" using assms(3,4) by (auto simp: sound_op_def await_convergence_def)
  with assms(2) have "futures t ! f = Cancelled" by (auto simp: extends_def)
  then show ?thesis by (simp add: await_convergence_def)
qed

section \<open>Witnesses\<close>

definition sample_anchor_receipt :: pydict where
  "sample_anchor_receipt = [(''success'', PBool True), (''next_fsm_state'', PDict [(''edge'', PStr ''ANCHOR'')]),
     (''command'', PDict [(''command_type'', PStr ''ResolveAnchorCmd'')])]"

definition sample_gateway :: gateway where
  "sample_gateway = \<lparr>g_prims = sample_codec\<lparr>p_loads := \<lambda>_. Some (PDict sample_anchor_receipt)\<rparr>,
     g_json = (\<lambda>_. ''{}''), g_execute = (\<lambda>_. Inr 8), g_read = (\<lambda>_. Inr ''reply'')\<rparr>"

definition sample_sealer :: seal_env where
  "sample_sealer = \<lparr>se_prims = sample_codec\<lparr>p_loads := \<lambda>_. None\<rparr>, se_sign = (\<lambda>m. m), se_pubkey = ''ab'', se_now = Fin 1, se_secs = 1,
     se_int = (\<lambda>v. case v of PInt i \<Rightarrow> Some i | _ \<Rightarrow> None), se_invoke = (\<lambda>_ _. (False, ''no engine''))\<rparr>"

lemma sample_gateway_answer: "execute_flow_transition_fsm sample_gateway fs ev = sample_anchor_receipt"
  by (simp add: execute_flow_transition_fsm_def safe_invoke_def invoke_raw_ffi_def read_c_string_fast_def MAX_INPUT_SIZE_def sample_gateway_def)

lemma sample_anchors: "anchors sample_anchor_receipt ANCHOR PNone PNone"
  by (simp add: anchors_def sample_anchor_receipt_def dget_or_def)

theorem settlement_converges_witness:
  "\<exists>t receipt. manager_settle sample_gateway sample_sealer (Fin 0) 40 (new_transition ''7'' ''o'') =
      (Inr \<lparr>edge_state = ''ANCHOR'', trajectory_trace = edge_symbol ANCHOR, tr_receipt = Some receipt\<rparr>, t) \<and>
     tr_fuel_consumed receipt = 40 \<and> settlement_status receipt = ''COMMITTED_TO_NEXUS'' \<and>
     await_convergence sample_gateway 0 t = (Inr (join_lines (map trace_line (memory t))), t)"
  using settlement_converges [of "new_transition ''7'' ''o''" "[]" sample_sealer 40 sample_gateway ANCHOR PNone PNone "Fin 0"]
  by (simp add: sample_gateway_answer sample_anchors) (auto simp: new_transition_def reset_future_def sample_sealer_def)

lemma sample_reached:
  "(ft_step sample_gateway)\<^sup>*\<^sup>* (new_transition ''7'' ''o'') (snd (reach_anchor sample_gateway ''a'' (new_transition ''7'' ''o'')))"
  by (rule r_into_rtranclp) (rule step_reach)

theorem futures_settle_once_witness:
  "Pending \<notin> set (butlast (futures (snd (reach_anchor sample_gateway ''a'' (new_transition ''7'' ''o'')))))"
  using futures_settle_once [OF sample_reached rtranclp.rtrancl_refl] by blast

theorem oversized_refused_witness:
  "safe_invoke (sample_gateway\<lparr>g_json := \<lambda>_. replicate 1048576 CHR ''a''\<rparr>) [] =
     [(''success'', PBool False), (''revert_reason'', PStr ''Memory Boundary Exceeded'')]"
  by (rule oversized_refused) simp

theorem timeout_cancels_future_witness:
  "await_convergence sample_gateway 0 (snd (await_convergence sample_gateway 0 (new_transition ''7'' ''o''))) =
     (Inl cancelled_error, snd (await_convergence sample_gateway 0 (new_transition ''7'' ''o'')))"
  by (rule timeout_cancels_future [of "new_transition ''7'' ''o''"]) (simp_all add: new_transition_def reset_future_def future_inv_def)

end
