(* ===== verification/Gan.thy ===== *)
theory Gan
  imports Prelude
begin

text \<open>
  The actor nodes of a topology and the workflows built on them, \<^verbatim>\<open>state/topos/node/gan.py\<close> and
  \<^verbatim>\<open>state/topos/workflow.py\<close>. Every node runs one task; tasks interleave at their awaits. A system maps
  node numbers to nodes; an action is what one task, or a caller of a node's methods, does
  between two awaits, and is undefined where the code could not be at that point. A handler is seen
  through what it ends with; what it does to nodes on the way are actions of their own. The log of a
  system lists the calls of \<open>_dispatch_message\<close>.

  Classes of messages are their names; \<open>w_sub\<close> is the subclass relation. Nodes are mounted while they
  have no task or their task is done.
\<close>

section \<open>Messages and nodes\<close>

record gmsg =
  gm_name :: string
  gm_bubble :: bool
  gm_class :: "string option"
  gm_status :: string
  gm_text :: string
  gm_sender :: "nat option"

datatype task_pc = NoTask | Created | Waiting | Dispatching gmsg | Closing "nat list" | Awaiting nat "nat list" | Finished

record gnode =
  gn_name :: string
  gn_parent :: "nat option"
  gn_children :: "nat list"
  gn_queue :: "gmsg option list"
  gn_running :: bool
  gn_pc :: task_pc
  gn_routes :: "(string \<times> string) list option"
  gn_rules :: "(string, string) dict"

record gan_sys =
  gs_node :: "nat \<Rightarrow> gnode"
  gs_log :: "(nat \<times> gmsg) list"

definition upd :: "nat \<Rightarrow> (gnode \<Rightarrow> gnode) \<Rightarrow> gan_sys \<Rightarrow> gan_sys" where
  "upd n f s = s\<lparr>gs_node := (gs_node s)(n := f (gs_node s n))\<rparr>"

text \<open>A node as its constructor leaves it; the routes of a plain node are None.\<close>

definition new_node :: "string \<Rightarrow> (string \<times> string) list option \<Rightarrow> (string, string) dict \<Rightarrow> gnode" where
  "new_node nm routes rules = \<lparr>gn_name = nm, gn_parent = None, gn_children = [], gn_queue = [], gn_running = False, gn_pc = NoTask,
     gn_routes = routes, gn_rules = rules\<rparr>"

definition post_message :: "nat \<Rightarrow> gmsg \<Rightarrow> gan_sys \<Rightarrow> gan_sys" where
  "post_message n m s = upd n (\<lambda>g. g\<lparr>gn_queue := gn_queue g @ [Some (m\<lparr>gm_sender := Some n\<rparr>)]\<rparr>) s"

definition stop :: "nat \<Rightarrow> gan_sys \<Rightarrow> gan_sys" where
  "stop n s = (if gn_running (gs_node s n) then upd n (\<lambda>g. g\<lparr>gn_running := False, gn_queue := gn_queue g @ [None]\<rparr>) s else s)"

definition mount :: "nat \<Rightarrow> nat \<Rightarrow> gan_sys \<Rightarrow> gan_sys" where
  "mount p c s = upd c (\<lambda>g. g\<lparr>gn_pc := Created\<rparr>) (upd p (\<lambda>g. g\<lparr>gn_children := List.insert c (gn_children g)\<rparr>)
     (upd c (\<lambda>g. g\<lparr>gn_parent := Some p\<rparr>) s))"

text \<open>\<open>unmount\<close> up to its await of the child's task.\<close>

definition unmount :: "nat \<Rightarrow> nat \<Rightarrow> gan_sys \<Rightarrow> gan_sys" where
  "unmount p c s =
     (if c \<in> set (gn_children (gs_node s p))
      then stop c (upd c (\<lambda>g. g\<lparr>gn_parent := None\<rparr>) (upd p (\<lambda>g. g\<lparr>gn_children := removeAll c (gn_children g)\<rparr>) s))
      else s)"

definition begin_teardown :: "nat \<Rightarrow> gan_sys \<Rightarrow> gan_sys" where
  "begin_teardown n s = upd n (\<lambda>g. g\<lparr>gn_running := False, gn_pc := Closing (gn_children g)\<rparr>) s"

definition teardown_step :: "nat \<Rightarrow> gan_sys \<Rightarrow> gan_sys option" where
  "teardown_step n s =
     (case gn_pc (gs_node s n) of
        Closing [] \<Rightarrow> Some (upd n (\<lambda>g. g\<lparr>gn_pc := Finished\<rparr>) s)
      | Closing (c # cs) \<Rightarrow>
          Some (upd n (\<lambda>g. g\<lparr>gn_pc := (if c \<in> set (gn_children (gs_node s n)) \<and> gn_pc (gs_node s c) \<noteq> NoTask then Awaiting c cs else Closing cs)\<rparr>)
                 (unmount n c s))
      | Awaiting c cs \<Rightarrow> if gn_pc (gs_node s c) = Finished then Some (upd n (\<lambda>g. g\<lparr>gn_pc := Closing cs\<rparr>) s) else None
      | _ \<Rightarrow> None)"

text \<open>The head of the loop.\<close>

definition loop_head :: "nat \<Rightarrow> gan_sys \<Rightarrow> gan_sys" where
  "loop_head n s = (if gn_running (gs_node s n) then upd n (\<lambda>g. g\<lparr>gn_pc := Waiting\<rparr>) s else begin_teardown n s)"

section \<open>Workflows\<close>

record wf_env =
  w_sub :: "string \<Rightarrow> string \<Rightarrow> bool"

definition workflow_message :: "string \<Rightarrow> string \<Rightarrow> string \<Rightarrow> gmsg" where
  "workflow_message cls status txt = \<lparr>gm_name = cls, gm_bubble = False, gm_class = Some cls, gm_status = status, gm_text = txt, gm_sender = None\<rparr>"

definition ErrorMessage :: "string \<Rightarrow> gmsg" where
  "ErrorMessage m = workflow_message ''ErrorMessage'' [] m"

text \<open>The steps of a class in the order of their names, each with the types its annotation names.\<close>

definition build_routing_table :: "wf_env \<Rightarrow> (string \<times> string list) list \<Rightarrow> (string \<times> string) list" where
  "build_routing_table W steps =
     fold (\<lambda>(step_name, expected_types). fold (\<lambda>t. dset t step_name) (filter (\<lambda>t. w_sub W t ''WorkflowMessage'') expected_types)) steps []"

definition find_step_for_message :: "wf_env \<Rightarrow> (string \<times> string) list \<Rightarrow> string \<Rightarrow> string option" where
  "find_step_for_message W routes cls =
     (case dget routes cls of
        Some m \<Rightarrow> Some m
      | None \<Rightarrow> map_option snd (find (\<lambda>(expected, _). w_sub W cls expected) routes))"

datatype step_end = StepRaised string | StepOther | StepMessage gmsg

text \<open>The wrapper a step gets: what it returns for what the step ended with.\<close>

definition step_wrapper :: "(string, string) dict \<Rightarrow> step_end \<Rightarrow> gmsg option" where
  "step_wrapper trans_rules r =
     (case r of
        StepRaised e \<Rightarrow> Some (ErrorMessage e)
      | StepOther \<Rightarrow> None
      | StepMessage m \<Rightarrow>
          (if gm_class m = None then Some m
           else (case (if gm_status m = [] then None else dget trans_rules (gm_status m)) of
                   Some target_cls \<Rightarrow> Some (workflow_message target_cls [] (gm_text m))
                 | None \<Rightarrow> Some m)))"

section \<open>Actions\<close>

datatype dispatch_end = Ended step_end | TimedOut

datatype action =
    Post nat gmsg | StopNode nat | Mount nat nat | Unmount nat nat
  | Start nat | Take nat | Finish nat dispatch_end | Teardown nat

definition node_error :: "string \<Rightarrow> gmsg" where
  "node_error e = \<lparr>gm_name = ''node_error'', gm_bubble = True, gm_class = None, gm_status = [], gm_text = e, gm_sender = None\<rparr>"

definition take_message :: "wf_env \<Rightarrow> nat \<Rightarrow> gan_sys \<Rightarrow> gan_sys option" where
  "take_message W n s =
     (case (gn_pc (gs_node s n), gn_queue (gs_node s n)) of
        (Waiting, None # q) \<Rightarrow> Some (begin_teardown n (upd n (\<lambda>g. g\<lparr>gn_queue := q\<rparr>) s))
      | (Waiting, Some m # q) \<Rightarrow>
          (let s1 = upd n (\<lambda>g. g\<lparr>gn_queue := q, gn_pc := Dispatching m\<rparr>) (s\<lparr>gs_log := gs_log s @ [(n, m)]\<rparr>)
           in case (gn_routes (gs_node s n), gm_class m) of
                (Some routes, Some cls) \<Rightarrow>
                  Some (if w_sub W cls ''StopMessage'' then loop_head n (stop n s1)
                        else if find_step_for_message W routes cls = None then loop_head n s1
                        else s1)
              | _ \<Rightarrow> Some s1)
      | _ \<Rightarrow> None)"

definition post_parent :: "nat \<Rightarrow> gmsg \<Rightarrow> gan_sys \<Rightarrow> gan_sys" where
  "post_parent n m s = (case gn_parent (gs_node s n) of Some p \<Rightarrow> post_message p m s | None \<Rightarrow> s)"

definition finish_dispatch :: "nat \<Rightarrow> dispatch_end \<Rightarrow> gan_sys \<Rightarrow> gan_sys option" where
  "finish_dispatch n r s =
     (case gn_pc (gs_node s n) of
        Dispatching m \<Rightarrow>
          (if gn_routes (gs_node s n) \<noteq> None \<and> gm_class m \<noteq> None then
             Some (loop_head n
               (case r of
                  TimedOut \<Rightarrow> post_message n (ErrorMessage ''Step timeout'') s
                | Ended e \<Rightarrow> (case step_wrapper (gn_rules (gs_node s n)) e of Some m' \<Rightarrow> post_message n m' s | None \<Rightarrow> s)))
           else (case r of
                   TimedOut \<Rightarrow> None
                 | Ended (StepRaised e) \<Rightarrow> Some (loop_head n (post_parent n (node_error e) s))
                 | Ended _ \<Rightarrow> Some (loop_head n (if gm_bubble m then post_parent n m s else s))))
      | _ \<Rightarrow> None)"

fun gan_act :: "wf_env \<Rightarrow> action \<Rightarrow> gan_sys \<Rightarrow> gan_sys option" where
  "gan_act W (Post n m) s = Some (post_message n m s)"
| "gan_act W (StopNode n) s = Some (stop n s)"
| "gan_act W (Mount p c) s = (if gn_pc (gs_node s c) \<in> {NoTask, Finished} then Some (mount p c s) else None)"
| "gan_act W (Unmount p c) s = Some (unmount p c s)"
| "gan_act W (Start n) s =
     (if gn_pc (gs_node s n) = Created then Some (upd n (\<lambda>g. g\<lparr>gn_running := True, gn_pc := Waiting\<rparr>) s) else None)"
| "gan_act W (Take n) s = take_message W n s"
| "gan_act W (Finish n r) s = finish_dispatch n r s"
| "gan_act W (Teardown n) s = teardown_step n s"

fun gan_run :: "wf_env \<Rightarrow> action list \<Rightarrow> gan_sys \<Rightarrow> gan_sys option" where
  "gan_run W [] s = Some s"
| "gan_run W (a # as) s = (case gan_act W a s of None \<Rightarrow> None | Some t \<Rightarrow> gan_run W as t)"

section \<open>What the operations touch\<close>

lemma node_upd [simp]: "gs_node (upd n f s) m = (if m = n then f (gs_node s n) else gs_node s m)" "gs_log (upd n f s) = gs_log s"
  by (simp_all add: upd_def)

lemma node_post [simp]:
  "gs_node (post_message n m s) k = (if k = n then (gs_node s n)\<lparr>gn_queue := gn_queue (gs_node s n) @ [Some (m\<lparr>gm_sender := Some n\<rparr>)]\<rparr> else gs_node s k)"
  "gs_log (post_message n m s) = gs_log s"
  by (simp_all add: post_message_def)

lemma node_stop [simp]:
  "gs_node (stop n s) k = (if k = n \<and> gn_running (gs_node s n)
     then (gs_node s n)\<lparr>gn_running := False, gn_queue := gn_queue (gs_node s n) @ [None]\<rparr> else gs_node s k)"
  "gs_log (stop n s) = gs_log s"
  by (simp_all add: stop_def)

lemma unmount_fields:
  "gn_pc (gs_node (unmount p c s) k) = gn_pc (gs_node s k)"
  "gn_routes (gs_node (unmount p c s) k) = gn_routes (gs_node s k)"
  "gn_children (gs_node (unmount p c s) k) = (if k = p then removeAll c (gn_children (gs_node s k)) else gn_children (gs_node s k))"
  "gn_parent (gs_node (unmount p c s) k) = (if k = c \<and> c \<in> set (gn_children (gs_node s p)) then None else gn_parent (gs_node s k))"
  "gn_running (gs_node (unmount p c s) k) = (gn_running (gs_node s k) \<and> \<not> (k = c \<and> c \<in> set (gn_children (gs_node s p))))"
  "gn_queue (gs_node (unmount p c s) k) =
     (if k = c \<and> c \<in> set (gn_children (gs_node s p)) \<and> gn_running (gs_node s c) then gn_queue (gs_node s k) @ [None] else gn_queue (gs_node s k))"
  "gs_log (unmount p c s) = gs_log s"
  by (auto simp: unmount_def)

lemma post_parent_fields:
  "gn_pc (gs_node (post_parent n m s) k) = gn_pc (gs_node s k)"
  "gn_children (gs_node (post_parent n m s) k) = gn_children (gs_node s k)"
  "gn_parent (gs_node (post_parent n m s) k) = gn_parent (gs_node s k)"
  "gn_running (gs_node (post_parent n m s) k) = gn_running (gs_node s k)"
  "gn_routes (gs_node (post_parent n m s) k) = gn_routes (gs_node s k)"
  "None \<in> set (gn_queue (gs_node (post_parent n m s) k)) \<longleftrightarrow> None \<in> set (gn_queue (gs_node s k))"
  "gs_log (post_parent n m s) = gs_log s"
  by (auto simp: post_parent_def split: option.split)

lemma node_loop_head:
  "gs_node (loop_head n s) k = (if k \<noteq> n then gs_node s k
     else if gn_running (gs_node s n) then (gs_node s n)\<lparr>gn_pc := Waiting\<rparr>
     else (gs_node s n)\<lparr>gn_running := False, gn_pc := Closing (gn_children (gs_node s n))\<rparr>)"
  "gs_log (loop_head n s) = gs_log s"
  by (simp_all add: loop_head_def begin_teardown_def)

text \<open>What a dispatch that ended does to the system before the loop goes on: it only posts messages.\<close>

definition quiet_posts :: "gan_sys \<Rightarrow> gan_sys \<Rightarrow> bool" where
  "quiet_posts s u \<longleftrightarrow> gs_log u = gs_log s \<and> (\<forall>k. gn_pc (gs_node u k) = gn_pc (gs_node s k) \<and> gn_children (gs_node u k) = gn_children (gs_node s k) \<and>
     gn_parent (gs_node u k) = gn_parent (gs_node s k) \<and> gn_running (gs_node u k) = gn_running (gs_node s k) \<and>
     gn_routes (gs_node u k) = gn_routes (gs_node s k) \<and> (None \<in> set (gn_queue (gs_node u k)) \<longleftrightarrow> None \<in> set (gn_queue (gs_node s k))))"

lemma finish_dispatch_eq:
  assumes "finish_dispatch n r s = Some t"
  shows "\<exists>m u. gn_pc (gs_node s n) = Dispatching m \<and> t = loop_head n u \<and> quiet_posts s u"
  using assms
  by (auto simp: finish_dispatch_def quiet_posts_def post_parent_fields
      split: task_pc.splits if_splits dispatch_end.splits option.splits step_end.splits)

text \<open>Taking a message: the poison pill closes the node, a message is logged and dispatched, or skipped.\<close>

lemma take_message_eq:
  assumes "take_message W n s = Some t"
  shows "gn_pc (gs_node s n) = Waiting \<and>
    ((\<exists>q. gn_queue (gs_node s n) = None # q \<and> t = begin_teardown n (upd n (\<lambda>g. g\<lparr>gn_queue := q\<rparr>) s)) \<or>
     (\<exists>m q s1. gn_queue (gs_node s n) = Some m # q \<and>
        s1 = upd n (\<lambda>g. g\<lparr>gn_queue := q, gn_pc := Dispatching m\<rparr>) (s\<lparr>gs_log := gs_log s @ [(n, m)]\<rparr>) \<and>
        (t = s1 \<or> gn_routes (gs_node s n) \<noteq> None \<and> (t = loop_head n s1 \<or> t = loop_head n (stop n s1)))))"
  using assms
  by (auto simp: take_message_def Let_def split: task_pc.splits list.splits option.splits if_splits)

section \<open>No node outlives its parent\<close>

fun closing :: "task_pc \<Rightarrow> bool" where
  "closing (Closing _) = True"
| "closing (Awaiting _ _) = True"
| "closing Finished = True"
| "closing _ = False"

fun polite :: "action \<Rightarrow> gan_sys \<Rightarrow> bool" where
  "polite (Mount p c) s = (\<not> closing (gn_pc (gs_node s p)))"
| "polite a s = True"

text \<open>Runs in which no node is mounted on one that is closing or closed.\<close>

inductive gan_reach :: "wf_env \<Rightarrow> gan_sys \<Rightarrow> gan_sys \<Rightarrow> bool" for W where
  reach_refl: "gan_reach W s s"
| reach_step: "gan_reach W s t \<Longrightarrow> polite a t \<Longrightarrow> gan_act W a t = Some u \<Longrightarrow> gan_reach W s u"

fun closes :: "task_pc \<Rightarrow> nat set \<Rightarrow> bool" where
  "closes (Closing cs) X = (X \<subseteq> set cs)"
| "closes (Awaiting c cs) X = (X \<subseteq> set cs)"
| "closes Finished X = (X = {})"
| "closes _ X = True"

definition tree_inv :: "gan_sys \<Rightarrow> bool" where
  "tree_inv s \<longleftrightarrow> (\<forall>c p. gn_parent (gs_node s c) = Some p \<longrightarrow> c \<in> set (gn_children (gs_node s p))) \<and>
     (\<forall>n. closes (gn_pc (gs_node s n)) (set (gn_children (gs_node s n))))"

lemma closes_open: "\<not> closing p \<Longrightarrow> closes p X"
  by (cases p) simp_all

lemma closes_mono: "closes p X \<Longrightarrow> Y \<subseteq> X \<Longrightarrow> closes p Y"
  by (cases p) auto

lemma tree_inv_same:
  assumes "tree_inv s" "\<And>k. gn_children (gs_node t k) = gn_children (gs_node s k)" "\<And>k. gn_parent (gs_node t k) = gn_parent (gs_node s k)"
    "\<And>k. gn_pc (gs_node t k) = gn_pc (gs_node s k) \<or> \<not> closing (gn_pc (gs_node t k)) \<or> gn_pc (gs_node t k) = Closing (gn_children (gs_node s k))"
  shows "tree_inv t"
proof -
  have "closes (gn_pc (gs_node t k)) (set (gn_children (gs_node t k)))" for k
  proof -
    have "closes (gn_pc (gs_node s k)) (set (gn_children (gs_node s k)))" using assms(1) by (simp add: tree_inv_def)
    with assms(4) [of k] closes_open show ?thesis by (auto simp: assms(2))
  qed
  with assms(1-3) show ?thesis by (simp add: tree_inv_def)
qed

lemma tree_inv_unmount: "tree_inv s \<Longrightarrow> tree_inv (unmount p c s)"
  unfolding tree_inv_def unmount_fields by (auto intro: closes_mono split: if_splits)

lemma tree_inv_mount:
  assumes "tree_inv s" "\<not> closing (gn_pc (gs_node s p))"
  shows "tree_inv (mount p c s)"
proof -
  have "closes (gn_pc (gs_node (mount p c s) n)) (set (gn_children (gs_node (mount p c s) n)))" for n
    using assms closes_open by (simp add: tree_inv_def mount_def)
  with assms show ?thesis by (auto simp: tree_inv_def mount_def split: if_splits)
qed

lemma tree_inv_pc:
  assumes "tree_inv s" "closes q (set (gn_children (gs_node s n)))"
  shows "tree_inv (upd n (\<lambda>g. g\<lparr>gn_pc := q\<rparr>) s)"
  using assms by (auto simp: tree_inv_def)

lemma tree_inv_teardown:
  assumes "tree_inv s" "teardown_step n s = Some t"
  shows "tree_inv t"
proof (cases "gn_pc (gs_node s n)")
  case (Closing cs)
  with assms(1) have sub: "set (gn_children (gs_node s n)) \<subseteq> set cs" by (metis closes.simps(1) tree_inv_def)
  show ?thesis
  proof (cases cs)
    case Nil
    with sub assms Closing show ?thesis by (auto simp: teardown_step_def intro!: tree_inv_pc)
  next
    case (Cons c cs')
    with sub assms Closing tree_inv_unmount [OF assms(1)] show ?thesis
      by (auto simp: teardown_step_def unmount_fields intro!: tree_inv_pc)
  qed
next
  case (Awaiting c cs)
  with assms(1) have "set (gn_children (gs_node s n)) \<subseteq> set cs" by (metis closes.simps(2) tree_inv_def)
  then show ?thesis using assms Awaiting by (auto simp: teardown_step_def intro!: tree_inv_pc split: if_splits)
qed (use assms in \<open>simp_all add: teardown_step_def\<close>)

lemma tree_inv_act: "tree_inv s \<Longrightarrow> polite a s \<Longrightarrow> gan_act W a s = Some t \<Longrightarrow> tree_inv t"
proof (cases a)
  case (Finish n r)
  assume s: "tree_inv s" and "gan_act W a s = Some t"
  with Finish obtain u where "t = loop_head n u" "quiet_posts s u" by (auto dest: finish_dispatch_eq)
  then show ?thesis by (intro tree_inv_same [OF s]) (auto simp: node_loop_head quiet_posts_def)
next
  case (Take n)
  assume s: "tree_inv s" and "gan_act W a s = Some t"
  with Take have "take_message W n s = Some t" by simp
  from take_message_eq [OF this] show ?thesis
    by (elim conjE disjE exE; intro tree_inv_same [OF s]) (simp_all add: node_loop_head begin_teardown_def)
next
  case (Post n m)
  assume s: "tree_inv s" and "gan_act W a s = Some t"
  with Post show ?thesis by (intro tree_inv_same [OF s]) auto
next
  case (StopNode n)
  assume s: "tree_inv s" and "gan_act W a s = Some t"
  with StopNode show ?thesis by (intro tree_inv_same [OF s]) auto
next
  case (Start n)
  assume s: "tree_inv s" and "gan_act W a s = Some t"
  with Start show ?thesis by (intro tree_inv_same [OF s]) (auto split: if_splits)
qed (auto intro: tree_inv_unmount tree_inv_mount tree_inv_teardown split: if_splits)

definition fresh_system :: "gan_sys \<Rightarrow> bool" where
  "fresh_system s \<longleftrightarrow> (\<forall>n. gn_parent (gs_node s n) = None \<and> gn_children (gs_node s n) = [] \<and> gn_pc (gs_node s n) \<in> {NoTask, Created})"


section \<open>Stopping\<close>

definition handled :: "nat \<Rightarrow> gan_sys \<Rightarrow> nat" where
  "handled n s = length (filter (\<lambda>(k, _). k = n) (gs_log s))"

definition allowance :: "nat \<Rightarrow> gan_sys \<Rightarrow> nat" where
  "allowance n s = (if gn_pc (gs_node s n) = Waiting then 1 else 0)"

lemma stopped_act:
  assumes "gan_act W a s = Some t" "\<not> gn_running (gs_node s n)" "gn_pc (gs_node s n) \<noteq> Created" "\<forall>p. a \<noteq> Mount p n"
  shows "\<not> gn_running (gs_node t n) \<and> gn_pc (gs_node t n) \<noteq> Created \<and> handled n t + allowance n t \<le> handled n s + allowance n s"
proof (cases a)
  case (Finish k r)
  with assms(1) obtain m u where "gn_pc (gs_node s k) = Dispatching m" "t = loop_head k u" "quiet_posts s u" by (auto dest: finish_dispatch_eq)
  with assms(2,3) show ?thesis by (auto simp: node_loop_head quiet_posts_def handled_def allowance_def)
next
  case (Take k)
  with assms(1) have "take_message W k s = Some t" by simp
  from take_message_eq [OF this] assms(2,3) show ?thesis
    by (elim conjE disjE exE) (auto simp: node_loop_head begin_teardown_def handled_def allowance_def)
next
  case (Teardown k)
  with assms show ?thesis
    by (auto simp: teardown_step_def unmount_fields handled_def allowance_def split: task_pc.splits list.splits if_splits)
qed (use assms in \<open>auto simp: handled_def allowance_def unmount_fields mount_def split: if_splits\<close>)

text \<open>
  A node that was stopped while its task was waiting dispatches at most one more message, and one that was
  stopped while dispatching none, whatever is posted to it and whatever its queue holds.
\<close>

theorem stopped_node_drains:
  assumes "gan_run W as s = Some t" "\<not> gn_running (gs_node s n)" "gn_pc (gs_node s n) \<noteq> Created" "\<And>p. Mount p n \<notin> set as"
  shows "handled n t \<le> handled n s + (if gn_pc (gs_node s n) = Waiting then 1 else 0)"
proof -
  have "handled n t + allowance n t \<le> handled n s + allowance n s"
    using assms
  proof (induction as arbitrary: s)
    case (Cons a as)
    then obtain u where u: "gan_act W a s = Some u" "gan_run W as u = Some t" by (auto split: option.splits)
    from stopped_act [OF u(1) Cons.prems(2,3)] Cons.prems(4) have "\<not> gn_running (gs_node u n)" "gn_pc (gs_node u n) \<noteq> Created"
      "handled n u + allowance n u \<le> handled n s + allowance n s" by auto
    with Cons.IH [OF u(2)] Cons.prems(4) show ?case by fastforce
  qed simp
  then show ?thesis by (simp add: allowance_def)
qed

section \<open>Unmounting before the first step\<close>

definition stuck :: "nat \<Rightarrow> gan_sys \<Rightarrow> bool" where
  "stuck c s \<longleftrightarrow> None \<notin> set (gn_queue (gs_node s c)) \<and> gn_routes (gs_node s c) = None \<and> (\<forall>p. c \<notin> set (gn_children (gs_node s p))) \<and>
     (gn_pc (gs_node s c) = Created \<or> gn_running (gs_node s c) \<and> (gn_pc (gs_node s c) = Waiting \<or> (\<exists>m. gn_pc (gs_node s c) = Dispatching m)))"

lemma stuck_act:
  assumes "gan_act W a s = Some t" "stuck c s" "a \<noteq> StopNode c"
  shows "stuck c t"
proof (cases a)
  case (Finish k r)
  with assms(1) obtain m u where "gn_pc (gs_node s k) = Dispatching m" "t = loop_head k u" "quiet_posts s u" by (auto dest: finish_dispatch_eq)
  with assms(2) show ?thesis by (auto simp: node_loop_head quiet_posts_def stuck_def)
next
  case (Take k)
  with assms(1) have "take_message W k s = Some t" by simp
  from take_message_eq [OF this] assms(2) show ?thesis
    by (elim conjE disjE exE) (auto simp: node_loop_head begin_teardown_def stuck_def)
next
  case (Teardown k)
  with assms show ?thesis
    by (auto simp: teardown_step_def unmount_fields stuck_def split: task_pc.splits list.splits if_splits)
qed (use assms in \<open>auto simp: unmount_fields mount_def stuck_def split: if_splits\<close>)

text \<open>
  A plain child that is unmounted after its task was created but before the task first ran is never stopped: the
  pill is not sent because the node does not run yet, so in every run in which nobody stops it again
  its task does not end, and \<open>unmount\<close>, which awaits that task, does not return.
\<close>

theorem early_unmount_never_ends:
  assumes "gn_pc (gs_node s c) = Created" "\<not> gn_running (gs_node s c)" "None \<notin> set (gn_queue (gs_node s c))" "gn_routes (gs_node s c) = None"
    and "\<And>q. c \<in> set (gn_children (gs_node s q)) \<longleftrightarrow> q = p"
    and "gan_run W as (unmount p c s) = Some t" "StopNode c \<notin> set as"
  shows "gn_pc (gs_node t c) \<noteq> Finished"
proof -
  have run: "gan_run W as u = Some t \<Longrightarrow> StopNode c \<notin> set as \<Longrightarrow> stuck c u \<Longrightarrow> stuck c t" for u
    by (induction as arbitrary: u) (auto split: option.splits intro: stuck_act)
  have "stuck c (unmount p c s)" using assms(1-5) by (auto simp: stuck_def unmount_fields)
  from run [OF assms(6,7) this] show ?thesis by (auto simp: stuck_def)
qed

section \<open>Routing and errors of a workflow\<close>

lemma fold_routes:
  "dget (fold (\<lambda>t. dset t m) ts routes) t = (if t \<in> set ts then Some m else dget routes t)"
  by (induction ts arbitrary: routes) auto

lemma find_snoc: "find P (xs @ [x]) = (case find P xs of Some y \<Rightarrow> Some y | None \<Rightarrow> if P x then Some x else None)"
  by (induction xs) auto

lemma build_routes_from:
  "dget (fold (\<lambda>(step_name, expected_types). fold (\<lambda>t. dset t step_name) (filter (\<lambda>t. w_sub W t ''WorkflowMessage'') expected_types)) steps routes) t =
     (case find (\<lambda>(_, ts). w_sub W t ''WorkflowMessage'' \<and> t \<in> set ts) (rev steps) of Some (m, _) \<Rightarrow> Some m | None \<Rightarrow> dget routes t)"
proof (induction steps arbitrary: routes)
  case (Cons st steps)
  obtain m ts where st: "st = (m, ts)" by (cases st)
  show ?case by (auto simp: Cons.IH st fold_routes find_snoc split: option.split prod.split)
qed simp

text \<open>
  A message goes to the step declared for its class, the last one in the order of names when several
  are; only a class no step is declared for is looked up among the superclasses.
\<close>

theorem message_routing:
  "find_step_for_message W (build_routing_table W steps) cls =
     (case find (\<lambda>(_, ts). w_sub W cls ''WorkflowMessage'' \<and> cls \<in> set ts) (rev steps) of
        Some (m, _) \<Rightarrow> Some m
      | None \<Rightarrow> map_option snd (find (\<lambda>(expected, _). w_sub W cls expected) (build_routing_table W steps)))"
  unfolding find_step_for_message_def
  by (subst (1) build_routing_table_def, subst build_routes_from) (simp split: option.split prod.split)

text \<open>
  A workflow whose step for \<open>ErrorMessage\<close> raises never leaves it: every round posts the same error
  to the node itself again, so any number of rounds happens and nothing reaches the parent.
\<close>

theorem error_step_loops:
  assumes "gn_pc (gs_node s n) = Waiting" "gn_running (gs_node s n)" "gn_routes (gs_node s n) = Some routes"
    and "gn_queue (gs_node s n) = [Some (ErrorMessage e\<lparr>gm_sender := Some n\<rparr>)]"
    and "find_step_for_message W routes ''ErrorMessage'' = Some st" "\<not> w_sub W ''ErrorMessage'' ''StopMessage''"
  shows "gan_run W (concat (replicate k [Take n, Finish n (Ended (StepRaised e))])) s =
    Some (s\<lparr>gs_log := gs_log s @ replicate k (n, ErrorMessage e\<lparr>gm_sender := Some n\<rparr>)\<rparr>)"
proof -
  let ?m = "ErrorMessage e\<lparr>gm_sender := Some n\<rparr>"
  have cls: "gm_class ?m = Some ''ErrorMessage''" by (simp add: ErrorMessage_def workflow_message_def)
  have "gan_run W (concat (replicate k [Take n, Finish n (Ended (StepRaised e))])) (s\<lparr>gs_log := l\<rparr>) =
      Some (s\<lparr>gs_log := l @ replicate k (n, ?m)\<rparr>)" for l
  proof (induction k arbitrary: l)
    case (Suc k)
    let ?s1 = "upd n (\<lambda>g. g\<lparr>gn_queue := [], gn_pc := Dispatching ?m\<rparr>) (s\<lparr>gs_log := l @ [(n, ?m)]\<rparr>)"
    have t: "take_message W n (s\<lparr>gs_log := l\<rparr>) = Some ?s1"
      using assms cls by (simp add: take_message_def)
    have same: "(gs_node s)(n := (gs_node s n)\<lparr>gn_queue := [Some ?m], gn_pc := Waiting\<rparr>) = gs_node s"
      using assms(1,4) by (intro ext) auto
    have "finish_dispatch n (Ended (StepRaised e)) ?s1 = Some (s\<lparr>gs_log := l @ [(n, ?m)]\<rparr>)"
      using assms cls same by (simp add: finish_dispatch_def step_wrapper_def loop_head_def post_message_def upd_def)
    with t Suc show ?case by simp
  qed simp
  from this [of "gs_log s"] show ?thesis by simp
qed

section \<open>Witnesses\<close>

definition plain_types :: wf_env where
  "plain_types = \<lparr>w_sub = (\<lambda>a b. a = b \<or> b = ''WorkflowMessage'')\<rparr>"

text \<open>Node 0 runs; the others are new.\<close>

definition sample_system :: gan_sys where
  "sample_system = \<lparr>gs_node = (\<lambda>n. (new_node ''node'' None [])\<lparr>gn_pc := (if n = 0 then Created else NoTask)\<rparr>), gs_log = []\<rparr>"

definition ping :: gmsg where
  "ping = \<lparr>gm_name = ''ping'', gm_bubble = False, gm_class = None, gm_status = [], gm_text = [], gm_sender = None\<rparr>"

lemma sample_fresh: "fresh_system sample_system"
  by (simp add: fresh_system_def sample_system_def new_node_def)

lemma sample_mounted: "gan_reach plain_types sample_system (mount 0 1 sample_system)"
  by (rule reach_step [OF reach_refl, of "Mount 0 1"]) (simp_all add: sample_system_def)


definition sample_stopped :: gan_sys where
  "sample_stopped = upd 0 (\<lambda>g. g\<lparr>gn_pc := Waiting, gn_queue := [Some ping, Some ping, None]\<rparr>) sample_system"

lemma sample_stopped_run:
  "\<exists>t. gan_run plain_types [Take 0, Finish 0 (Ended StepOther), Teardown 0] sample_stopped = Some t \<and> handled 0 t = 1"
  by (simp add: sample_stopped_def sample_system_def new_node_def ping_def take_message_def finish_dispatch_def loop_head_def
      begin_teardown_def teardown_step_def handled_def upd_def)

theorem stopped_node_drains_witness:
  "\<exists>t. gan_run plain_types [Take 0, Finish 0 (Ended StepOther), Teardown 0] sample_stopped = Some t \<and> handled 0 t \<le> handled 0 sample_stopped + 1"
proof -
  obtain t where t: "gan_run plain_types [Take 0, Finish 0 (Ended StepOther), Teardown 0] sample_stopped = Some t" using sample_stopped_run by blast
  have "\<not> gn_running (gs_node sample_stopped 0)" "gn_pc (gs_node sample_stopped 0) = Waiting"
    by (simp_all add: sample_stopped_def sample_system_def new_node_def)
  with stopped_node_drains [OF t, of 0] t show ?thesis by auto
qed

theorem early_unmount_never_ends_witness:
  "\<exists>t. gan_run plain_types [Start 1, Post 1 ping, Take 1, Finish 1 (Ended StepOther)] (unmount 0 1 (mount 0 1 sample_system)) = Some t \<and>
     gn_pc (gs_node t 1) \<noteq> Finished"
proof -
  let ?as = "[Start 1, Post 1 ping, Take 1, Finish 1 (Ended StepOther)]"
  let ?s = "mount 0 1 sample_system"
  have r: "\<exists>t. gan_run plain_types ?as (unmount 0 1 ?s) = Some t"
    by (simp add: unmount_fields mount_def sample_system_def new_node_def ping_def take_message_def finish_dispatch_def)
  then obtain t where t: "gan_run plain_types ?as (unmount 0 1 ?s) = Some t" by blast
  have "gn_pc (gs_node ?s 1) = Created" "\<not> gn_running (gs_node ?s 1)" "None \<notin> set (gn_queue (gs_node ?s 1))" "gn_routes (gs_node ?s 1) = None"
    "(1 \<in> set (gn_children (gs_node ?s q))) = (q = 0)" for q
    by (auto simp: mount_def sample_system_def new_node_def)
  from early_unmount_never_ends [OF this t] t show ?thesis by simp
qed

definition sample_loop :: gan_sys where
  "sample_loop = upd 0 (\<lambda>g. g\<lparr>gn_pc := Waiting, gn_running := True, gn_routes := Some [(''ErrorMessage'', ''on_error'')],
     gn_queue := [Some (ErrorMessage ''x''\<lparr>gm_sender := Some 0\<rparr>)]\<rparr>) sample_system"

theorem error_step_loops_witness:
  "\<exists>t. gan_run plain_types (concat (replicate 7 [Take 0, Finish 0 (Ended (StepRaised ''x''))])) sample_loop = Some t \<and> length (gs_log t) = 7"
proof -
  have "gn_pc (gs_node sample_loop 0) = Waiting" "gn_running (gs_node sample_loop 0)" "gn_routes (gs_node sample_loop 0) = Some [(''ErrorMessage'', ''on_error'')]"
    "gn_queue (gs_node sample_loop 0) = [Some (ErrorMessage ''x''\<lparr>gm_sender := Some 0\<rparr>)]"
    "find_step_for_message plain_types [(''ErrorMessage'', ''on_error'')] ''ErrorMessage'' = Some ''on_error''"
    "\<not> w_sub plain_types ''ErrorMessage'' ''StopMessage''"
    by (simp_all add: sample_loop_def find_step_for_message_def plain_types_def)
  from error_step_loops [OF this, of 7] show ?thesis by (simp add: sample_loop_def sample_system_def)
qed

end
