(* ===== verification/Locks.thy ===== *)
theory Locks
  imports Prelude
begin

text \<open>
  The resource locks of the tool executor and the environment it gives to processes, from
  \<^verbatim>\<open>arch/contract/protocol/executor.py\<close>. Threads are numbered; each runs one \<open>lock\<close> block at a time. A step
  is what a thread does between two points where another may run: every access to the tables is under
  \<open>_meta_lock\<close> and therefore one step. Lock objects are numbered as they are created; a reentrant lock
  is free or has an owner and a depth.
\<close>

section \<open>The lock tables\<close>

datatype lock_pc =
    Outside
  | Acquiring "string list" "string list"
  | Blocked "string list" string nat "string list"
  | Inside "string list"
  | Releasing "string list"

record lock_sys =
  lk_locks :: "string \<rightharpoonup> nat"
  lk_refs :: "string \<rightharpoonup> nat"
  lk_heap :: "nat \<rightharpoonup> nat \<times> nat"
  lk_next :: nat
  lk_pc :: "nat \<Rightarrow> lock_pc"

definition init_locks :: lock_sys where
  "init_locks = \<lparr>lk_locks = Map.empty, lk_refs = Map.empty, lk_heap = Map.empty, lk_next = 0, lk_pc = (\<lambda>_. Outside)\<rparr>"

definition get_lock :: "string \<Rightarrow> lock_sys \<Rightarrow> nat \<times> lock_sys" where
  "get_lock key s =
     (let s1 = (case lk_locks s key of
                  None \<Rightarrow> s\<lparr>lk_locks := (lk_locks s)(key \<mapsto> lk_next s), lk_next := lk_next s + 1\<rparr>
                | Some _ \<Rightarrow> s)
      in (the (lk_locks s1 key), s1\<lparr>lk_refs := (lk_refs s1)(key \<mapsto> (case lk_refs s1 key of None \<Rightarrow> 0 | Some n \<Rightarrow> n) + 1)\<rparr>))"

definition drop_ref :: "string \<Rightarrow> lock_sys \<Rightarrow> lock_sys res" where
  "drop_ref key s =
     (case lk_refs s key of
        None \<Rightarrow> Inl (Exc KeyErr key)
      | Some n \<Rightarrow> Inr (if n = 1 then s\<lparr>lk_locks := (lk_locks s)(key := None), lk_refs := (lk_refs s)(key := None)\<rparr>
                     else s\<lparr>lk_refs := (lk_refs s)(key \<mapsto> n - 1)\<rparr>))"

text \<open>\<open>acquire\<close> and \<open>release\<close> of a reentrant lock by thread \<open>t\<close>; None when it would have to wait.\<close>

definition rlock_acquire :: "nat \<Rightarrow> nat \<Rightarrow> lock_sys \<Rightarrow> lock_sys option" where
  "rlock_acquire t l s =
     (case lk_heap s l of
        None \<Rightarrow> Some (s\<lparr>lk_heap := (lk_heap s)(l \<mapsto> (t, 1))\<rparr>)
      | Some (t', d) \<Rightarrow> if t' = t then Some (s\<lparr>lk_heap := (lk_heap s)(l \<mapsto> (t, d + 1))\<rparr>) else None)"

definition rlock_release :: "nat \<Rightarrow> nat \<Rightarrow> lock_sys \<Rightarrow> lock_sys res" where
  "rlock_release t l s =
     (case lk_heap s l of
        Some (t', d) \<Rightarrow>
          if t' \<noteq> t then Inl (Exc RuntimeErr ''cannot release un-acquired lock'')
          else Inr (s\<lparr>lk_heap := (lk_heap s)(l := (if d = 1 then None else Some (t, d - 1)))\<rparr>)
      | None \<Rightarrow> Inl (Exc RuntimeErr ''cannot release un-acquired lock''))"

definition release_lock :: "nat \<Rightarrow> string \<Rightarrow> lock_sys \<Rightarrow> lock_sys res" where
  "release_lock t key s =
     (case lk_locks s key of
        None \<Rightarrow> Inr s
      | Some l \<Rightarrow> bind_res (rlock_release t l s) (drop_ref key))"

definition DEFAULT_TIMEOUTS :: "(string, nat) dict" where
  "DEFAULT_TIMEOUTS = [(''file'', 30), (''terminal'', 300), (''mcp'', 300), (''tool'', 60)]"

definition get_timeout :: "(string, nat) dict \<Rightarrow> string \<Rightarrow> nat" where
  "get_timeout timeouts key =
     dget_or timeouts (case split_once '':'' key of Some (p, _) \<Rightarrow> p | None \<Rightarrow> key) 30"

text \<open>\<open>sorted(set(resource_keys))\<close>.\<close>

definition sorted_keys :: "string list \<Rightarrow> string list" where
  "sorted_keys ks = sort (remdups ks)"

abbreviation set_pc :: "nat \<Rightarrow> lock_pc \<Rightarrow> lock_sys \<Rightarrow> lock_sys" where
  "set_pc t p s \<equiv> s\<lparr>lk_pc := (lk_pc s)(t := p)\<rparr>"

text \<open>The steps of a \<open>with lock(...)\<close> block. A step that raises out of order would be an error state; it
  has no successor here, and that no such step exists is a theorem.\<close>

inductive lock_step :: "nat \<Rightarrow> lock_sys \<Rightarrow> lock_sys \<Rightarrow> bool" for t where
  enter: "lk_pc s t = Outside \<Longrightarrow> lock_step t s (set_pc t (Acquiring [] (sorted_keys ks)) s)"
| get: "lk_pc s t = Acquiring a (k # rest) \<Longrightarrow> get_lock k s = (l, s') \<Longrightarrow> lock_step t s (set_pc t (Blocked a k l rest) s')"
| acquire: "lk_pc s t = Blocked a k l rest \<Longrightarrow> rlock_acquire t l s = Some s' \<Longrightarrow> lock_step t s (set_pc t (Acquiring (a @ [k]) rest) s')"
| go: "lk_pc s t = Acquiring a [] \<Longrightarrow> lock_step t s (set_pc t (Inside a) s)"
| leave: "lk_pc s t = Inside a \<Longrightarrow> lock_step t s (set_pc t (Releasing (rev a)) s)"
| release: "lk_pc s t = Releasing (k # ks) \<Longrightarrow> release_lock t k s = Inr s' \<Longrightarrow> lock_step t s (set_pc t (Releasing ks) s')"
| ended: "lk_pc s t = Releasing [] \<Longrightarrow> lock_step t s (set_pc t Outside s)"

inductive lock_timeout :: "nat \<Rightarrow> lock_sys \<Rightarrow> lock_sys \<Rightarrow> bool" for t where
  timeout: "lk_pc s t = Blocked a k l rest \<Longrightarrow> rlock_acquire t l s = None \<Longrightarrow> drop_ref k s = Inr s' \<Longrightarrow>
     lock_timeout t s (set_pc t (Releasing (rev a)) s')"

text \<open>The reachable states of \<open>n\<close> threads.\<close>

inductive lock_reach :: "nat \<Rightarrow> lock_sys \<Rightarrow> bool" for n where
  lr_init: "lock_reach n init_locks"
| lr_step: "lock_reach n s \<Longrightarrow> t < n \<Longrightarrow> lock_step t s s' \<Longrightarrow> lock_reach n s'"
| lr_timeout: "lock_reach n s \<Longrightarrow> t < n \<Longrightarrow> lock_timeout t s s' \<Longrightarrow> lock_reach n s'"

section \<open>The environment of a process\<close>

definition SENSITIVE_ENV_VARS :: "string list" where
  "SENSITIVE_ENV_VARS = [''SESSION_API_KEY'']"

definition sanitized_env :: "(string, string) dict \<Rightarrow> (string, string) dict option \<Rightarrow> (string, string) dict" where
  "sanitized_env environ env =
     (let base = fold ddel SENSITIVE_ENV_VARS (case env of None \<Rightarrow> environ | Some e \<Rightarrow> e)
      in case dget base ''LD_LIBRARY_PATH_ORIG'' of
           None \<Rightarrow> base
         | Some origin \<Rightarrow> if origin \<noteq> [] then dset ''LD_LIBRARY_PATH'' origin base else ddel ''LD_LIBRARY_PATH'' base)"

section \<open>The invariant\<close>

fun held :: "lock_pc \<Rightarrow> string list" where
  "held Outside = []"
| "held (Acquiring a _) = a"
| "held (Blocked a _ _ _) = a"
| "held (Inside a) = a"
| "held (Releasing ks) = ks"

fun wanted :: "lock_pc \<Rightarrow> string list" where
  "wanted (Blocked _ k _ _) = [k]"
| "wanted _ = []"

fun pc_ok :: "lock_pc \<Rightarrow> bool" where
  "pc_ok Outside = True"
| "pc_ok (Acquiring a r) = (sorted (a @ r) \<and> distinct (a @ r))"
| "pc_ok (Blocked a k l r) = (sorted (a @ k # r) \<and> distinct (a @ k # r))"
| "pc_ok (Inside a) = distinct a"
| "pc_ok (Releasing ks) = distinct ks"

definition users :: "lock_sys \<Rightarrow> string \<Rightarrow> nat set" where
  "users s k = {t. k \<in> set (held (lk_pc s t)) \<or> k \<in> set (wanted (lk_pc s t))}"

definition refs_ok :: "lock_sys \<Rightarrow> bool" where
  "refs_ok s \<longleftrightarrow> (\<forall>k. lk_refs s k = (if users s k = {} then None else Some (card (users s k))))"

definition locks_ok :: "lock_sys \<Rightarrow> bool" where
  "locks_ok s \<longleftrightarrow> (\<forall>k. lk_locks s k = None \<longleftrightarrow> users s k = {}) \<and>
     (\<forall>k k' l. lk_locks s k = Some l \<longrightarrow> lk_locks s k' = Some l \<longrightarrow> k = k') \<and>
     (\<forall>k l. lk_locks s k = Some l \<longrightarrow> l < lk_next s) \<and> (\<forall>l. lk_next s \<le> l \<longrightarrow> lk_heap s l = None)"

definition block_ok :: "lock_sys \<Rightarrow> bool" where
  "block_ok s \<longleftrightarrow> (\<forall>t a k l r. lk_pc s t = Blocked a k l r \<longrightarrow> lk_locks s k = Some l)"

definition heap_ok :: "lock_sys \<Rightarrow> bool" where
  "heap_ok s \<longleftrightarrow> (\<forall>k l t d. lk_locks s k = Some l \<longrightarrow> (lk_heap s l = Some (t, d) \<longleftrightarrow> k \<in> set (held (lk_pc s t)) \<and> d = 1))"

definition lock_inv :: "nat \<Rightarrow> lock_sys \<Rightarrow> bool" where
  "lock_inv n s \<longleftrightarrow> (\<forall>t. pc_ok (lk_pc s t)) \<and> (\<forall>t. n \<le> t \<longrightarrow> lk_pc s t = Outside) \<and>
     refs_ok s \<and> locks_ok s \<and> block_ok s \<and> heap_ok s"

lemmas lock_inv_defs = lock_inv_def refs_ok_def locks_ok_def block_ok_def heap_ok_def

lemma users_finite: "\<forall>t. n \<le> t \<longrightarrow> lk_pc s t = Outside \<Longrightarrow> finite (users s k)"
  by (rule finite_subset [of _ "{..<n}"]) (auto simp: users_def not_less [symmetric])

lemma users_set_pc:
  "users (set_pc t p s) k = (if k \<in> set (held p) \<or> k \<in> set (wanted p) then insert t (users s k) else users s k - {t})"
  by (auto simp: users_def)

lemma users_fields [simp]: "users (s\<lparr>lk_locks := a\<rparr>) = users s" "users (s\<lparr>lk_refs := b\<rparr>) = users s" "users (s\<lparr>lk_heap := c\<rparr>) = users s"
  "users (s\<lparr>lk_next := d\<rparr>) = users s"
  by (auto simp: users_def fun_eq_iff)

lemma users_mem: "t \<in> users s k \<longleftrightarrow> k \<in> set (held (lk_pc s t)) \<or> k \<in> set (wanted (lk_pc s t))"
  by (simp add: users_def)

lemma block_okD: "block_ok s \<Longrightarrow> lk_pc s t = Blocked a k l r \<Longrightarrow> lk_locks s k = Some l"
  unfolding block_ok_def by blast

text \<open>A step that changes neither what a thread holds nor what it wants keeps the invariant.\<close>

lemma inv_same_use:
  assumes "lock_inv n s" "t < n" "pc_ok p" "set (held p) = set (held (lk_pc s t))" "wanted p = []" "wanted (lk_pc s t) = []"
  shows "lock_inv n (set_pc t p s)"
proof -
  have "users (set_pc t p s) k = users s k" for k
    unfolding users_set_pc using assms(4-6) users_mem [of t s k] by auto
  then have u: "users (set_pc t p s) = users s" by blast
  have nb: "p \<noteq> Blocked a k l r" for a k l r using assms(5) by auto
  have "heap_ok (set_pc t p s)" using assms(1,4) by (simp add: heap_ok_def lock_inv_def)
  moreover have "block_ok (set_pc t p s)" using assms(1) nb by (simp add: block_ok_def lock_inv_def)
  moreover have "refs_ok (set_pc t p s)" "locks_ok (set_pc t p s)"
    using assms(1) by (simp_all add: refs_ok_def locks_ok_def lock_inv_def u)
  ultimately show ?thesis using assms(1-3) by (simp add: lock_inv_def)
qed

lemma inv_enter: "lock_inv n s \<Longrightarrow> t < n \<Longrightarrow> lk_pc s t = Outside \<Longrightarrow> lock_inv n (set_pc t (Acquiring [] (sorted_keys ks)) s)"
  by (rule inv_same_use) (simp_all add: sorted_keys_def)

lemma inv_get:
  assumes s: "lock_inv n s" and t: "t < n" and pc: "lk_pc s t = Acquiring a (k # r)" and g: "get_lock k s = (l, s')"
  shows "lock_inv n (set_pc t (Blocked a k l r) s')"
proof -
  have ok: "sorted (a @ k # r)" "distinct (a @ k # r)" using s pc by (metis lock_inv_def pc_ok.simps(2))+
  have tk: "t \<notin> users s k" using ok pc by (simp add: users_mem)
  have fin: "finite (users s j)" for j using s users_finite by (auto simp: lock_inv_def)
  define z where "z = set_pc t (Blocked a k l r) s'"
  have z: "lk_pc z = (lk_pc s)(t := Blocked a k l r)" "lk_heap z = lk_heap s" "lk_locks z = (lk_locks s)(k \<mapsto> l)"
    "lk_refs z = (lk_refs s)(k \<mapsto> (case lk_refs s k of None \<Rightarrow> 0 | Some m \<Rightarrow> m) + 1)"
    using g by (auto simp: z_def get_lock_def Let_def fun_eq_iff split: option.splits)
  have old: "lk_locks s k = Some l \<and> lk_next z = lk_next s \<or> lk_locks s k = None \<and> l = lk_next s \<and> lk_next z = Suc (lk_next s)"
    using g by (auto simp: z_def get_lock_def Let_def split: option.splits)
  have u: "users z j = (if j = k then insert t (users s k) else users s j)" for j
    using pc by (auto simp: users_def z)
  have hd: "held (lk_pc z t') = held (lk_pc s t')" for t' using pc by (simp add: z)
  have lo: "locks_ok s" and ho: "heap_ok s" and bo: "block_ok s" and ro: "refs_ok s" using s by (simp_all add: lock_inv_def)
  have fresh: "lk_locks s j \<noteq> Some l" if "j \<noteq> k" for j
    using old lo that unfolding locks_ok_def by (metis less_irrefl)
  have "refs_ok z" using ro tk fin by (auto simp: refs_ok_def u z)
  moreover have "locks_ok z"
    unfolding locks_ok_def
  proof (intro conjI allI impI)
    show "(lk_locks z j = None) = (users z j = {})" for j using lo by (simp add: z u locks_ok_def)
    show "j = j'" if "lk_locks z j = Some m" "lk_locks z j' = Some m" for j j' m
      using that fresh lo by (auto simp: z locks_ok_def split: if_splits)
    show "m < lk_next z" if "lk_locks z j = Some m" for j m
      using that old lo by (auto simp: z locks_ok_def less_Suc_eq split: if_splits)
    show "lk_heap z m = None" if "lk_next z \<le> m" for m
      using that old lo by (auto simp: z locks_ok_def)
  qed
  moreover have "block_ok z"
  proof (unfold block_ok_def, intro allI impI)
    fix t' a' k' l' r' assume b: "lk_pc z t' = Blocked a' k' l' r'"
    show "lk_locks z k' = Some l'"
    proof (cases "t' = t")
      case False
      with b have "lk_pc s t' = Blocked a' k' l' r'" by (simp add: z)
      with bo have "lk_locks s k' = Some l'" by (rule block_okD)
      with old show ?thesis by (auto simp: z)
    qed (use b z in auto)
  qed
  moreover have "heap_ok z"
    unfolding heap_ok_def
  proof (intro allI impI)
    fix j m t' d assume j: "lk_locks z j = Some m"
    show "(lk_heap z m = Some (t', d)) = (j \<in> set (held (lk_pc z t')) \<and> d = 1)"
    proof (cases "lk_locks s j = Some m")
      case True
      with ho have "(lk_heap s m = Some (t', d)) = (j \<in> set (held (lk_pc s t')) \<and> d = 1)" by (simp add: heap_ok_def)
      then show ?thesis unfolding hd z(2) .
    next
      case False
      with j z(3) have jk: "j = k" "m = l" by (auto split: if_splits)
      with False old have "lk_locks s k = None" "l = lk_next s" by auto
      with lo have "users s k = {}" "lk_heap s l = None" by (simp_all add: locks_ok_def)
      then have "k \<notin> set (held (lk_pc s t'))" using users_mem by blast
      with \<open>lk_heap s l = None\<close> jk show ?thesis unfolding hd z(2) by simp
    qed
  qed
  ultimately have "lock_inv n z" using s ok t by (simp add: lock_inv_def z)
  then show ?thesis by (simp add: z_def)
qed

text \<open>Taking the lock: the key moves from wanted to held.\<close>

lemma inv_acquire:
  assumes s: "lock_inv n s" and t: "t < n" and pc: "lk_pc s t = Blocked a k l r" and q: "rlock_acquire t l s = Some s'"
  shows "lock_inv n (set_pc t (Acquiring (a @ [k]) r) s')"
proof -
  have ok: "sorted (a @ k # r)" "distinct (a @ k # r)" using s pc by (metis lock_inv_def pc_ok.simps(3))+
  have lo: "locks_ok s" and ho: "heap_ok s" and bo: "block_ok s" and ro: "refs_ok s" using s by (simp_all add: lock_inv_def)
  have kl: "lk_locks s k = Some l" using block_okD bo pc by blast
  have "\<forall>d. lk_heap s l \<noteq> Some (t, d)" using ho kl pc ok by (auto simp: heap_ok_def)
  with q have free: "lk_heap s l = None" and s': "s' = s\<lparr>lk_heap := (lk_heap s)(l \<mapsto> (t, 1))\<rparr>"
    by (auto simp: rlock_acquire_def split: option.splits if_splits)
  define z where "z = set_pc t (Acquiring (a @ [k]) r) s'"
  have z: "lk_pc z = (lk_pc s)(t := Acquiring (a @ [k]) r)" "lk_heap z = (lk_heap s)(l \<mapsto> (t, 1))" "lk_locks z = lk_locks s"
    "lk_refs z = lk_refs s" "lk_next z = lk_next s" by (simp_all add: z_def s')
  have u: "users z j = users s j" for j using pc by (auto simp: users_def z)
  have nobody: "k \<notin> set (held (lk_pc s t'))" for t'
    using ho kl free by (metis heap_ok_def option.distinct(1))
  have "heap_ok z"
    unfolding heap_ok_def
  proof (intro allI impI)
    fix j m t' d assume "lk_locks z j = Some m"
    then have j: "lk_locks s j = Some m" by (simp add: z)
    show "(lk_heap z m = Some (t', d)) = (j \<in> set (held (lk_pc z t')) \<and> d = 1)"
    proof (cases "m = l")
      case True
      with j kl lo have "j = k" by (auto simp: locks_ok_def)
      with True nobody pc ok show ?thesis by (auto simp: z)
    next
      case False
      with j kl have "j \<noteq> k" by auto
      with False j ho pc show ?thesis by (auto simp: z heap_ok_def)
    qed
  qed
  moreover have "l < lk_next s" using lo kl by (simp add: locks_ok_def)
  then have "locks_ok z" using lo unfolding locks_ok_def u z by (metis fun_upd_apply not_le)
  moreover have "refs_ok z" using ro by (simp add: refs_ok_def u z)
  moreover have "block_ok z" using bo by (auto simp: block_ok_def z)
  ultimately have "lock_inv n z" using s ok t by (simp add: lock_inv_def z)
  then show ?thesis by (simp add: z_def)
qed

text \<open>Giving up a key, held or wanted: what \<open>drop_ref\<close> does when the thread no longer uses it.\<close>

lemma drop_ref_users:
  assumes s: "lock_inv n s" and t: "t \<in> users s k"
  shows "\<exists>s'. drop_ref k s = Inr s' \<and> lk_pc s' = lk_pc s \<and> lk_heap s' = lk_heap s \<and> lk_next s' = lk_next s \<and>
    lk_refs s' = (lk_refs s)(k := if users s k = {t} then None else Some (card (users s k - {t}))) \<and>
    lk_locks s' = (if users s k = {t} then (lk_locks s)(k := None) else lk_locks s)"
proof -
  have fin: "finite (users s k)" using s users_finite by (auto simp: lock_inv_def)
  have r: "lk_refs s k = Some (card (users s k))" using s t by (auto simp: lock_inv_def refs_ok_def)
  have "card (users s k) = 1 \<longleftrightarrow> users s k = {t}" using t fin by (metis card_1_singletonE is_singletonI is_singleton_altdef singletonD)
  then show ?thesis using r t fin by (simp add: drop_ref_def card_Diff_singleton)
qed

lemma inv_drop:
  assumes s: "lock_inv n s" and t: "t < n" and k: "t \<in> users s k" and p: "pc_ok p" "wanted p = []"
    and h: "set (held p) = set (held (lk_pc s t)) - {k}" and w: "\<And>j. j \<noteq> k \<Longrightarrow> j \<notin> set (wanted (lk_pc s t))"
    and l: "lk_locks s k = Some l" and hp: "\<And>m. m \<noteq> l \<Longrightarrow> hp m = lk_heap s m"
    and free: "hp l = (if k \<in> set (held (lk_pc s t)) then None else lk_heap s l)"
    and d: "drop_ref k (s\<lparr>lk_heap := hp\<rparr>) = Inr s'"
  shows "lock_inv n (set_pc t p s')"
proof -
  have lo: "locks_ok s" and ho: "heap_ok s" and bo: "block_ok s" and ro: "refs_ok s" using s by (simp_all add: lock_inv_def)
  obtain s1 where "drop_ref k s = Inr s1" and s1: "lk_pc s1 = lk_pc s" "lk_next s1 = lk_next s"
    "lk_refs s1 = (lk_refs s)(k := if users s k = {t} then None else Some (card (users s k - {t})))"
    "lk_locks s1 = (if users s k = {t} then (lk_locks s)(k := None) else lk_locks s)"
    using drop_ref_users [OF s k] by blast
  with d have s': "s' = s1\<lparr>lk_heap := hp\<rparr>" by (auto simp: drop_ref_def split: option.splits if_splits)
  define z where "z = set_pc t p s'"
  have z: "lk_pc z = (lk_pc s)(t := p)" "lk_heap z = hp" "lk_next z = lk_next s"
    "lk_refs z = (lk_refs s)(k := if users s k = {t} then None else Some (card (users s k - {t})))"
    "lk_locks z = (if users s k = {t} then (lk_locks s)(k := None) else lk_locks s)"
    by (simp_all add: z_def s' s1)
  have u: "users z j = (if j = k then users s k - {t} else users s j)" for j
    using h p(2) w [of j] by (auto simp: users_def z)
  have lks: "lk_locks z j = Some m \<Longrightarrow> lk_locks s j = Some m" for j m
    by (auto simp: z split: if_splits)
  have "refs_ok z"
    unfolding refs_ok_def
  proof
    fix j
    show "lk_refs z j = (if users z j = {} then None else Some (card (users z j)))"
      using ro k by (cases "j = k") (auto simp: refs_ok_def u z(4))
  qed
  moreover have "locks_ok z"
    unfolding locks_ok_def
  proof (intro conjI allI impI)
    show "(lk_locks z j = None) = (users z j = {})" for j
      using lo k l by (auto simp: z u locks_ok_def)
    show "j = j'" if "lk_locks z j = Some m" "lk_locks z j' = Some m" for j j' m
      using lo lks [OF that(1)] lks [OF that(2)] unfolding locks_ok_def by blast
    show "m < lk_next z" if "lk_locks z j = Some m" for j m
      using lo lks [OF that] by (simp add: z locks_ok_def)
    show "lk_heap z m = None" if "lk_next z \<le> m" for m
      using that lo l hp [of m] unfolding locks_ok_def z by (metis not_le)
  qed
  moreover have "block_ok z"
  proof (unfold block_ok_def, intro allI impI)
    fix t' a' k' l' r' assume b: "lk_pc z t' = Blocked a' k' l' r'"
    with p(2) have "t' \<noteq> t" by (cases p) (auto simp: z)
    with b have b': "lk_pc s t' = Blocked a' k' l' r'" by (simp add: z)
    then have "lk_locks s k' = Some l'" by (rule block_okD [OF bo])
    moreover have "t' \<in> users s k'" using b' by (simp add: users_mem)
    ultimately show "lk_locks z k' = Some l'" using \<open>t' \<noteq> t\<close> by (auto simp: z)
  qed
  moreover have "heap_ok z"
    unfolding heap_ok_def
  proof (intro allI impI)
    fix j m t' e assume "lk_locks z j = Some m"
    then have j: "lk_locks s j = Some m" using lks by blast
    have old: "(lk_heap s m = Some (t', e)) = (j \<in> set (held (lk_pc s t')) \<and> e = 1)" using ho j by (simp add: heap_ok_def)
    show "(lk_heap z m = Some (t', e)) = (j \<in> set (held (lk_pc z t')) \<and> e = 1)"
    proof (cases "j = k")
      case False
      then have "m \<noteq> l" using j l lo unfolding locks_ok_def by blast
      with hp old h False show ?thesis by (auto simp: z)
    next
      case True
      with j l have "m = l" by simp
      have other: "k \<notin> set (held (lk_pc s t'))" if "k \<in> set (held (lk_pc s t))" "t' \<noteq> t"
        using ho l that unfolding heap_ok_def by (metis option.inject prod.inject)
      with \<open>m = l\<close> free old h True show ?thesis by (auto simp: z)
    qed
  qed
  ultimately have "lock_inv n z" using s t p by (simp add: lock_inv_def z)
  then show ?thesis by (simp add: z_def)
qed

lemma release_possible:
  assumes s: "lock_inv n s" and pc: "lk_pc s t = Releasing (k # ks)"
  shows "\<exists>l s'. lk_locks s k = Some l \<and> release_lock t k s = Inr s' \<and> drop_ref k (s\<lparr>lk_heap := (lk_heap s)(l := None)\<rparr>) = Inr s'"
proof -
  have "t \<in> users s k" using pc by (simp add: users_mem)
  with s obtain l where l: "lk_locks s k = Some l" by (auto simp: lock_inv_def locks_ok_def)
  have "lk_heap s l = Some (t, 1)" using s l pc by (simp add: lock_inv_def heap_ok_def)
  then have "rlock_release t l s = Inr (s\<lparr>lk_heap := (lk_heap s)(l := None)\<rparr>)" by (simp add: rlock_release_def)
  moreover have "lk_refs s k \<noteq> None" using s \<open>t \<in> users s k\<close> by (auto simp: lock_inv_def refs_ok_def)
  ultimately show ?thesis using l by (auto simp: release_lock_def drop_ref_def)
qed

lemma inv_release:
  assumes s: "lock_inv n s" and t: "t < n" and pc: "lk_pc s t = Releasing (k # ks)" and r: "release_lock t k s = Inr s'"
  shows "lock_inv n (set_pc t (Releasing ks) s')"
proof -
  obtain l where l: "lk_locks s k = Some l" "drop_ref k (s\<lparr>lk_heap := (lk_heap s)(l := None)\<rparr>) = Inr s'"
    using release_possible [OF s pc] r by auto
  have "distinct (k # ks)" using s pc by (metis lock_inv_def pc_ok.simps(5))
  then show ?thesis
    by (intro inv_drop [OF s t _ _ _ _ _ l(1) _ _ l(2)]) (auto simp: users_mem pc)
qed

lemma inv_timeout:
  assumes s: "lock_inv n s" and t: "t < n" and pc: "lk_pc s t = Blocked a k l r" and d: "drop_ref k s = Inr s'"
  shows "lock_inv n (set_pc t (Releasing (rev a)) s')"
proof -
  have l: "lk_locks s k = Some l" using s pc block_okD by (auto simp: lock_inv_def)
  have "distinct (a @ k # r)" using s pc by (metis lock_inv_def pc_ok.simps(3))
  moreover have "drop_ref k (s\<lparr>lk_heap := lk_heap s\<rparr>) = Inr s'" using d by simp
  ultimately show ?thesis
    by (intro inv_drop [OF s t _ _ _ _ _ l]) (auto simp: users_mem pc)
qed

lemma inv_step:
  assumes "lock_step t s s'" "lock_inv n s" "t < n"
  shows "lock_inv n s'"
  using assms(1)
proof cases
  case (go a)
  have "pc_ok (Acquiring a [])" using assms(2) go by (metis lock_inv_def)
  then show ?thesis using assms go by (auto intro!: inv_same_use)
next
  case (leave a)
  have "pc_ok (Inside a)" using assms(2) leave by (metis lock_inv_def)
  then show ?thesis using assms leave by (auto intro!: inv_same_use)
qed (use assms(2,3) in \<open>auto intro: inv_enter inv_get inv_acquire inv_release inv_same_use\<close>)

lemma reach_inv: "lock_reach n s \<Longrightarrow> lock_inv n s"
proof (induction rule: lock_reach.induct)
  case lr_init
  show ?case by (simp add: lock_inv_defs init_locks_def users_def)
next
  case (lr_step s t s')
  then show ?case using inv_step by blast
next
  case (lr_timeout s t s')
  then show ?case by (auto elim!: lock_timeout.cases intro: inv_timeout)
qed

section \<open>What the locks guarantee\<close>

text \<open>
  C11. However the threads interleave and whichever waits time out, no two threads hold a key at the same time;
  the count of a key is the number of threads that hold or wait for it; and a key nobody uses is in
  neither table, so the tables are empty again when every thread is outside.
\<close>

theorem lock_tables_exact:
  assumes "lock_reach n s"
  shows "(k \<in> set (held (lk_pc s t)) \<longrightarrow> k \<in> set (held (lk_pc s t')) \<longrightarrow> t = t') \<and>
    lk_refs s k = (if users s k = {} then None else Some (card (users s k))) \<and> (lk_locks s k = None \<longleftrightarrow> users s k = {})"
proof -
  from reach_inv [OF assms] have i: "refs_ok s" "locks_ok s" "heap_ok s" by (simp_all add: lock_inv_def)
  have "t = t'" if h: "k \<in> set (held (lk_pc s t))" "k \<in> set (held (lk_pc s t'))"
  proof -
    from h(1) i(2) obtain l where "lk_locks s k = Some l" by (auto simp: locks_ok_def users_def)
    with h i(3) have "lk_heap s l = Some (t, 1)" "lk_heap s l = Some (t', 1)" by (simp_all add: heap_ok_def)
    then show ?thesis by simp
  qed
  with i show ?thesis by (auto simp: refs_ok_def locks_ok_def)
qed

lemma unblocked_steps:
  assumes "lock_inv n s" "lk_pc s t \<noteq> Outside" "\<forall>a k l r. lk_pc s t = Blocked a k l r \<longrightarrow> lk_heap s l = None"
  shows "\<exists>s'. lock_step t s s'"
proof (cases "lk_pc s t")
  case (Acquiring a ks)
  then show ?thesis
  proof (cases ks)
    case (Cons k r)
    obtain l s' where "get_lock k s = (l, s')" by fastforce
    with Acquiring Cons show ?thesis using lock_step.get by blast
  qed (use lock_step.go in blast)
next
  case (Blocked a k l r)
  with assms(3) have "rlock_acquire t l s \<noteq> None" by (simp add: rlock_acquire_def)
  with Blocked show ?thesis by (auto intro: lock_step.acquire)
next
  case (Releasing ks)
  then show ?thesis
  proof (cases ks)
    case (Cons k ks')
    with Releasing release_possible [OF assms(1)] obtain s' where "release_lock t k s = Inr s'" by blast
    with Releasing Cons show ?thesis using lock_step.release by blast
  qed (use lock_step.ended in blast)
qed (use assms(2) in \<open>auto intro: lock_step.intros\<close>)

text \<open>
  C10. No deadlock: in every reachable state in which some thread is in a block, some thread in a block can go on
  without a timeout, because keys are taken in sorted order. In particular a release never fails.
\<close>

theorem locks_deadlock_free:
  assumes "lock_reach n s" "lk_pc s t \<noteq> Outside"
  shows "\<exists>t' s'. lk_pc s t' \<noteq> Outside \<and> lock_step t' s s'"
proof (rule ccontr)
  assume stuck: "\<nexists>t' s'. lk_pc s t' \<noteq> Outside \<and> lock_step t' s s'"
  have i: "lock_inv n s" using assms(1) by (rule reach_inv)
  then have bo: "block_ok s" and ho: "heap_ok s" by (simp_all add: lock_inv_def)
  have blocked: "\<exists>a k l r t' d. lk_pc s u = Blocked a k l r \<and> lk_locks s k = Some l \<and> lk_heap s l = Some (t', d)" if "lk_pc s u \<noteq> Outside" for u
    using unblocked_steps [OF i that] stuck that block_okD [OF bo] by (metis not_None_eq surj_pair)
  let ?K = "{k. \<exists>u a l r. lk_pc s u = Blocked a k l r}"
  have fin: "finite ?K"
  proof (rule finite_subset)
    show "?K \<subseteq> (\<lambda>u. case lk_pc s u of Blocked _ k _ _ \<Rightarrow> k | _ \<Rightarrow> []) ` {..<n}"
    proof
      fix k assume "k \<in> ?K"
      then obtain u a l r where u: "lk_pc s u = Blocked a k l r" by blast
      with i have "u < n" by (metis lock_inv_def lock_pc.distinct(3) not_le)
      with u show "k \<in> (\<lambda>u. case lk_pc s u of Blocked _ k _ _ \<Rightarrow> k | _ \<Rightarrow> []) ` {..<n}" by (auto intro!: image_eqI [of _ _ u])
    qed
  qed simp
  have "?K \<noteq> {}" using blocked [OF assms(2)] by blast
  with fin have "Max ?K \<in> ?K" by (rule Max_in)
  then obtain u a l r where u: "lk_pc s u = Blocked a (Max ?K) l r" by blast
  with blocked [of u] obtain t' d where h: "lk_locks s (Max ?K) = Some l" "lk_heap s l = Some (t', d)" by auto
  with ho have held: "Max ?K \<in> set (held (lk_pc s t'))" by (simp add: heap_ok_def)
  then have "lk_pc s t' \<noteq> Outside" by auto
  with blocked obtain a' k' l' r' where t': "lk_pc s t' = Blocked a' k' l' r'" by blast
  then have "k' \<le> Max ?K" using fin by (intro Max_ge) auto
  moreover have "pc_ok (Blocked a' k' l' r')" using i t' by (metis lock_inv_def)
  then have "\<forall>x \<in> set a'. x \<le> k' \<and> x \<noteq> k'" by (auto simp: sorted_append)
  ultimately show False using held t' by force
qed

text \<open>The environment a process gets: no session key, and the library path it had before packaging.\<close>

lemma sanitized_env_clean:
  "dget (sanitized_env environ env) ''SESSION_API_KEY'' = None"
  by (simp add: sanitized_env_def Let_def SENSITIVE_ENV_VARS_def split: option.split)

section \<open>Witnesses\<close>

definition one_waiting :: lock_sys where
  "one_waiting = set_pc 0 (Acquiring [] (sorted_keys [''b'', ''a'', ''b''])) init_locks"

lemma one_waiting_reach: "lock_reach 2 one_waiting"
proof -
  have "lock_step 0 init_locks one_waiting" unfolding one_waiting_def by (rule enter) (simp add: init_locks_def)
  then show ?thesis by (intro lr_step [OF lr_init]) simp_all
qed

theorem lock_tables_exact_witness: "lk_refs one_waiting ''a'' = None"
proof -
  have "users one_waiting ''a'' = {}" by (auto simp: users_def one_waiting_def init_locks_def)
  then show ?thesis using lock_tables_exact [OF one_waiting_reach, of "''a''" 0 1] by simp
qed

theorem locks_deadlock_free_witness: "\<exists>t' s'. lk_pc one_waiting t' \<noteq> Outside \<and> lock_step t' one_waiting s'"
  by (rule locks_deadlock_free [OF one_waiting_reach, of 0]) (simp add: one_waiting_def)

end
