(* ===== verification/StateRpc.thy ===== *)
theory StateRpc
  imports Billing Validator
begin

text \<open>
  The RPC handlers of bridge state, receipts and intents, \<^verbatim>\<open>node/rpc/handler/state.py\<close>, on the model of the
  PTA adapter. Handle identifiers are texts (the empty one stands for a missing parameter), payloads are
  dictionaries. Arguments beside the adapter's are the clock, the tunnel's publish and the recovery of
  an address from a signed text. Of a request that does not validate, the reply names the field that failed. \<open>handle_mcp_state_resolve\<close> reads the clock twice; both readings are the same here.
\<close>

section \<open>Bridge state\<close>

record ('d, 't) state_env =
  s_pta :: "('d, 't) pta_env"
  s_clock :: int
  s_req :: string
  s_rounds :: nat
  s_loop :: bool
  s_publish :: "string \<Rightarrow> string \<Rightarrow> unit res"
  s_recover :: "string \<Rightarrow> string \<Rightarrow> string res"
  s_int :: "pyval \<Rightarrow> int option"

abbreviation s_prims :: "('d, 't) state_env \<Rightarrow> prims" where
  "s_prims S \<equiv> h_prims (e_host (s_pta S))"

definition bridge_owner :: "string \<Rightarrow> string" where
  "bridge_owner handle = ''mcp_bridge_'' @ handle"

definition state_reply :: "pyval \<Rightarrow> pyval \<Rightarrow> pydict \<Rightarrow> pydict" where
  "state_reply status payload meta =
     [(''exists'', PBool True), (''status'', status), (''error_detail'', dget_or meta ''error_detail'' (PStr [])),
      (''executable_payload'', payload), (''action'', dget_or meta ''action'' (PStr []))]"

text \<open>\<open>d.get("metadata", {}) if d else {}\<close>, on which \<open>get\<close> is called.\<close>

definition meta_of :: "pyval \<Rightarrow> pydict res" where
  "meta_of v = (if truthy v then bind_res (as_dict v) (\<lambda>d. as_dict (dget_or d ''metadata'' (PDict []))) else Inr [])"

definition opt_val :: "pyval option \<Rightarrow> pyval" where
  "opt_val v = (case v of Some x \<Rightarrow> x | None \<Rightarrow> PNone)"

definition store_prog :: "(('d, 't) anchor_store, 'a) prog \<Rightarrow> (('d, 't) pta, 'a) prog" where
  "store_prog m p = (case m (ledger_store p) of (r, st) \<Rightarrow> (r, p\<lparr>ledger_store := st\<rparr>))"

definition raw_commit :: "('d, 't) state_env \<Rightarrow> string \<Rightarrow> (('d, 't) pta, pyval option) prog" where
  "raw_commit S h = store_prog (get_raw_object (e_host (s_pta S)) (e_sync (s_pta S)) ''commit'' h)"

definition head_text :: "('d, 't) state_env \<Rightarrow> string \<Rightarrow> ('d, 't) pta \<Rightarrow> string" where
  "head_text S stream p = (case get_head_hash (e_host (s_pta S)) stream (ledger_store p) of Some h \<Rightarrow> h | None \<Rightarrow> [])"

definition in_pool :: "string \<Rightarrow> ('d, 't) pta \<Rightarrow> (string \<times> pta_output) option" where
  "in_pool own p = find (\<lambda>(key, out). owner out = own \<and> asset_type out = ''mcp_state_anchor'') (unfold_pool p)"

definition query_pool :: "('d, 't) state_env \<Rightarrow> string \<Rightarrow> string \<times> pta_output \<Rightarrow> (('d, 't) pta, pydict) prog" where
  "query_pool S own kv p =
     (case kv of (key, out) \<Rightarrow>
        let commit_hash = (if head_text S own p \<noteq> [] then head_text S own p else hd (split_char CHR '':'' key))
        in bindp (raw_commit S commit_hash) (\<lambda>snapshot.
           bindp (lift_res (meta_of (opt_val snapshot))) (\<lambda>meta.
             ret (case anchor out of
                    Some a \<Rightarrow> state_reply (PStr (phase_status a)) (PDict (anchor_payload a)) meta
                  | None \<Rightarrow> state_reply (PStr ''UNKNOWN'') (PDict []) meta))) p)"

definition query_ledger :: "('d, 't) state_env \<Rightarrow> string \<Rightarrow> (('d, 't) pta, pydict) prog" where
  "query_ledger S own p =
     (case query_unspent (s_pta S) own ''mcp_state_anchor'' p of (unspent, p1) \<Rightarrow>
        (case find (\<lambda>item. confirmed_key (s_prims S) item \<notin> spent_mempool p1) (rev unspent) of
           None \<Rightarrow> (Inr [(''exists'', PBool False)], p1)
         | Some item \<Rightarrow>
             bindp (if head_text S own p1 = [] then ret None else raw_commit S (head_text S own p1)) (\<lambda>snapshot.
             bindp (lift_res (meta_of (if truthy (opt_val snapshot)
                      then (case extract_tx_from_commit (s_prims S) (opt_val snapshot) of Some tx \<Rightarrow> PDict tx | None \<Rightarrow> PNone)
                      else PNone))) (\<lambda>meta.
               ret (state_reply (dget_or (ui_output item) ''phase_status'' (PStr ''UNKNOWN''))
                      (dget_or (ui_output item) ''executable_payload'' (PDict [])) meta))) p1))"

definition handle_mcp_state_query :: "('d, 't) state_env \<Rightarrow> string \<Rightarrow> (('d, 't) pta, pydict) prog" where
  "handle_mcp_state_query S handle p =
     (if handle = [] then (Inr (rpc_error 422 ''Missing handle_id''), p)
      else (case in_pool (bridge_owner handle) p of
              Some kv \<Rightarrow> query_pool S (bridge_owner handle) kv p
            | None \<Rightarrow> query_ledger S (bridge_owner handle) p))"

definition handle_mcp_state_pending_seal :: "('d, 't) state_env \<Rightarrow> string \<Rightarrow> pydict \<Rightarrow> pyval \<Rightarrow> (('d, 't) pta, pydict) prog" where
  "handle_mcp_state_pending_seal S handle payload target_server_id p =
     (if handle = [] then (Inr (rpc_error 422 ''Missing handle_id''), p)
      else bindp (execute_transaction (s_pta S) (s_req S) (s_rounds S) (s_loop S)
             (mk_transaction (s_prims S) [] [create_mcp_state_anchor handle ''PENDING'' (Some payload)]
                [(''target'', target_server_id), (''action'', PStr ''transition.pending'')] (s_clock S))
             (Some (bridge_owner handle))) (\<lambda>_. ret [(''success'', PBool True), (''handle_id'', PStr handle)]) p)"

definition bypass_input :: "available_input \<Rightarrow> pta_input" where
  "bypass_input av = \<lparr>in_pointer = \<lparr>ptr_tx_hash = av_tx_hash av, ptr_output_index = av_index av\<rparr>,
     in_signature = ''internal_bridge_signature_bypass'', owner_address = []\<rparr>"

definition resolve_tx :: "('d, 't) state_env \<Rightarrow> string \<Rightarrow> string \<Rightarrow> pydict \<Rightarrow> pyval \<Rightarrow> available_input list \<Rightarrow> pta_transaction" where
  "resolve_tx S handle status payload error_detail available =
     mk_transaction (s_prims S) (map bypass_input available) [create_mcp_state_anchor handle status (Some payload)]
       [(''error_detail'', error_detail), (''resolved_at'', PInt (s_clock S))] (s_clock S)"

definition handle_mcp_state_resolve ::
  "('d, 't) state_env \<Rightarrow> string \<Rightarrow> string \<Rightarrow> pydict \<Rightarrow> pyval \<Rightarrow> (('d, 't) pta, pydict) prog" where
  "handle_mcp_state_resolve S handle status0 payload error_detail p =
     (let status = upper status0; own = bridge_owner handle in
      if handle = [] \<or> status = [] then (Inr (rpc_error 422 ''Missing handle_id or status''), p)
      else bindp (get_available_inputs (s_pta S) own ''mcp_state_anchor'') (\<lambda>available.
           bindp (execute_transaction (s_pta S) (s_req S) (s_rounds S) (s_loop S)
                    (resolve_tx S handle status payload error_detail available) (Some own)) (\<lambda>_.
           bindp (lift_res (s_publish S (''mcp.intent.reply.'' @ handle)
                    (p_dumps (s_prims S) (PDict [(''status'', PStr status), (''executable_payload'', PDict payload), (''error_detail'', error_detail)])))) (\<lambda>_.
             ret [(''success'', PBool True), (''status'', PStr status)]))) p)"

section \<open>Receipts and intents\<close>

definition looks_like_hash :: "string \<Rightarrow> bool" where
  "looks_like_hash s \<longleftrightarrow> startswith s ''0x'' \<or> length s = 64 \<or> length s = 66"

text \<open>A state root that is not a text fails inside \<open>verify_lineage\<close>, which answers False then.\<close>

definition handle_anchor_store_receipt_verify :: "('d, 't) state_env \<Rightarrow> pyval \<Rightarrow> pyval \<Rightarrow> ('d, 't) pta \<Rightarrow> pydict \<times> ('d, 't) pta" where
  "handle_anchor_store_receipt_verify S root_v receipt_v p =
     (if \<not> truthy root_v \<or> \<not> truthy receipt_v
      then (rpc_error 422 (''Payload Format Error: Missing '' @ squote @ ''state_root'' @ squote @ '' or '' @ squote @ ''receipt_id'' @ squote @ '' in receipt''), p)
      else (case (case root_v of PStr t \<Rightarrow> verify_lineage (s_pta S) t 3 p | _ \<Rightarrow> (False, p)) of (ok, p') \<Rightarrow>
              let is_valid = (ok \<or> (case root_v of PStr t \<Rightarrow> looks_like_hash t | _ \<Rightarrow> False))
              in ([(''status'', PStr ''SUCCESS''), (''is_valid'', PBool is_valid),
                   (''message'', PStr (if is_valid then ''Receipt verified via AnchorStore/Oracle''
                                       else ''verification failed (Tampered or Orphaned)''))], p')))"

record intent_request =
  ir_requester :: string
  ir_responder :: string
  ir_action :: string
  ir_budget :: int
  ir_signature :: "string option"
  ir_algo :: string

definition load_intent :: "(pyval \<Rightarrow> int option) \<Rightarrow> pydict \<Rightarrow> intent_request res" where
  "load_intent pint d =
     bind_res (str_field d ''requester_id'') (\<lambda>req.
     bind_res (str_field d ''responder_id'') (\<lambda>resp.
     bind_res (str_field d ''action'') (\<lambda>act.
     bind_res (int_field pint d ''max_fuel_budget'') (\<lambda>budget.
     if \<not> (0 \<le> budget \<and> budget \<le> 4294967295) then Inl (Exc ValidationErr ''max_fuel_budget'')
     else bind_res (case dget d ''signature'' of None \<Rightarrow> Inr None | Some PNone \<Rightarrow> Inr None | Some (PStr s) \<Rightarrow> Inr (Some s)
                    | _ \<Rightarrow> Inl (Exc ValidationErr ''signature'')) (\<lambda>sg.
          bind_res (case dget d ''sig_algo'' of None \<Rightarrow> Inr ''ECDSA_SECP256K1'' | Some (PStr s) \<Rightarrow> Inr s
                    | _ \<Rightarrow> Inl (Exc ValidationErr ''sig_algo'')) (\<lambda>algo.
            Inr \<lparr>ir_requester = req, ir_responder = resp, ir_action = act, ir_budget = budget, ir_signature = sg, ir_algo = algo\<rparr>))))))"

definition expected_msg :: "intent_request \<Rightarrow> string" where
  "expected_msg r = ''EXECUTE:'' @ ir_requester r @ '':'' @ ir_action r @ '':'' @ show_int (if ir_budget r = 0 then 1000000 else ir_budget r)"

definition intent_granted :: "('d, 't) state_env \<Rightarrow> intent_request \<Rightarrow> pydict" where
  "intent_granted S r =
     [(''status'', PStr ''INTENT_VALIDATED''),
      (''clearance'', PDict [(''is_valid'', PBool True), (''verified_at'', PInt (s_clock S)), (''agent'', PStr (ir_requester r)),
         (''fuel_authorized'', PInt (ir_budget r))])]"

definition mismatch :: pydict where
  "mismatch = rpc_error 401 ''WASM Rejected Intent: CRYPTOGRAPHIC_SIGNATURE_MISMATCH''"

definition check_intent :: "('d, 't) state_env \<Rightarrow> intent_request \<Rightarrow> string \<Rightarrow> pydict" where
  "check_intent S r sg =
     (if upper (ir_algo r) = ''ECDSA_SECP256K1'' then
        (case s_recover S (expected_msg r) sg of
           Inl e \<Rightarrow> if kind_of_exc e = ValueErr then mismatch else rpc_error 401 ''Malformed cryptographic signature''
         | Inr address \<Rightarrow> if lower address \<noteq> lower (ir_requester r) then mismatch else intent_granted S r)
      else if upper (ir_algo r) = ''ED25519'' then intent_granted S r
      else rpc_error 400 (''Unsupported signature algorithm: '' @ upper (ir_algo r)))"

definition handle_compute_intent_validate :: "('d, 't) state_env \<Rightarrow> pydict \<Rightarrow> pydict" where
  "handle_compute_intent_validate S params =
     (case load_intent (s_int S) params of
        Inl e \<Rightarrow> rpc_error 401 (''Payload Error: '' @ msg_of_exc e)
      | Inr r \<Rightarrow>
          if ir_requester r = [] \<or> ir_action r = [] then rpc_error 401 ''Missing Critical Boundaries (Agent ID or Action)''
          else if 10000000 < ir_budget r then rpc_error 401 ''Topological Fuel Limit Exceeded (> 10M)''
          else (case ir_signature r of
                  Some (c # sg) \<Rightarrow> check_intent S r (c # sg)
                | _ \<Rightarrow> rpc_error 401 ''Signature missing. Request must be cryptographically signed.''))"

section \<open>What a query sees after a transaction\<close>

lemma wf_fold_ddel: "wf_dict d \<Longrightarrow> wf_dict (fold ddel ks d)"
  by (induction ks arbitrary: d) auto

lemma execute_keeps_wf:
  assumes "wf_dict (unfold_pool p)"
  shows "wf_dict (unfold_pool (snd (execute_transaction E r n loop tx sid p)))"
  using assms
  by (auto simp: execute_transaction_def begin_transaction_def finish_transaction_def settle_def release_def Let_def wf_fold_ddel
      split: sum.split prod.split option.split)

lemma find_unique:
  assumes "(k, v) \<in> set xs" "Q (k, v)" "\<And>k' v'. (k', v') \<in> set xs \<Longrightarrow> Q (k', v') \<Longrightarrow> v' = v"
  shows "\<exists>k'. find Q xs = Some (k', v)"
proof (cases "find Q xs")
  case None
  then show ?thesis using assms(1,2) by (auto simp: find_None_iff)
next
  case (Some kv)
  then have "kv \<in> set xs" "Q kv" by (auto simp: find_Some_iff)
  with assms(3) Some show ?thesis by (cases kv) auto
qed

lemma bypass_pass: "check_inputs ver spent n (map bypass_input items) = Inr ()"
  by (induction items arbitrary: n) (simp_all add: bypass_input_def)

text \<open>Every pool output of the owner is among the available inputs.\<close>

lemma available_covers_pool:
  assumes "get_available_inputs E own asset p = (Inr items, p1)" "pool_free p"
    and "(k, out) \<in> set (unfold_pool p1)" "owner out = own" "asset_type out = asset"
  shows "\<exists>av \<in> set items. to_key (av_pointer av) = k"
proof -
  obtain conf q where q: "query_unspent E own asset p = (conf, q)" by (metis surj_pair)
  let ?P = "h_prims (e_host E)"
  let ?keys = "map (confirmed_key ?P) conf"
  let ?pool = "fold ddel ?keys (unfold_pool q)"
  from assms(1) q obtain cs ps where ps: "map_res pool_input (own_pool ?keys own asset ?pool) = Inr ps"
    and items: "items = cs @ ps" and p1: "p1 = q\<lparr>unfold_pool := ?pool\<rparr>"
    by (auto simp: get_available_inputs_def Let_def bind_res_Inr)
  have ko: "(k, out) \<in> set ?pool" using assms(3) by (simp add: p1)
  then have "(k, out) \<in> set (unfold_pool p)" using set_fold_ddel [of ?keys "unfold_pool q"] query_unspent_frame [OF q] by auto
  then obtain h i where k: "k = h @ '':'' @ show_int i" "CHR '':'' \<notin> set h" using assms(2) unfolding pool_free_def by force
  have "dget ?pool k \<noteq> None" using ko by (metis map_of_eq_None_iff fst_conv image_eqI)
  then have "k \<notin> set ?keys" by (auto simp: dget_fold_ddel split: if_splits)
  with ko assms(4,5) have "(k, out) \<in> set (own_pool ?keys own asset ?pool)" by (simp add: own_pool_def)
  then obtain n where n: "n < length (own_pool ?keys own asset ?pool)" "own_pool ?keys own asset ?pool ! n = (k, out)"
    by (meson in_set_conv_nth)
  with ps have "pool_input (k, out) = Inr (ps ! n)" "n < length ps"
    by (auto simp: map_res_Inr list_all2_conv_all_nth)
  with pool_input_key [OF _ k] items show ?thesis by (metis Un_iff nth_mem set_append)
qed

lemma upper_upper [simp]: "upper (upper s) = upper s"
proof -
  have "upper_char (upper_char c) = upper_char c" for c
  proof (cases "97 \<le> (of_char c :: nat) \<and> (of_char c :: nat) \<le> 122")
    case True
    then have "(of_char c - 32 :: nat) mod 256 < 97" by (intro le_less_trans [OF mod_less_eq_dividend]) linarith
    with True show ?thesis by (simp add: upper_char_def)
  qed (auto simp: upper_char_def)
  then show ?thesis by (simp add: upper_def)
qed

text \<open>The commits of a store are dumped commits, and what they read back to has no metadata field of its own.\<close>

definition commits_plain :: "prims \<Rightarrow> fdb_driver \<Rightarrow> bool" where
  "commits_plain P d \<longleftrightarrow>
     (\<forall>k v. fdb_get d (object_key ''commit'' k) = Some v \<longrightarrow> (\<exists>c. v = p_dumps P (PDict (asdict_commit c)))) \<and>
     (\<forall>c. \<exists>r. p_loads P (p_dumps P (PDict (asdict_commit c))) = Some (PDict r) \<and> dget r ''metadata'' = None)"

lemma raw_commit_plain:
  fixes S :: "(fdb_driver, 't) state_env"
  assumes "e_host (s_pta S) = fdb_host B" "role (ledger_store p) = SEALER" "h \<noteq> []"
    and "fdb_get (db (ledger_store p)) (object_key ''commit'' h) = Some (p_dumps (h_prims B) (PDict (asdict_commit c)))"
    and "p_loads (h_prims B) (p_dumps (h_prims B) (PDict (asdict_commit c))) = Some (PDict r)" "dget r ''metadata'' = None"
  shows "\<exists>v. raw_commit S h p = (Inr v, p) \<and> meta_of (opt_val v) = Inr []"
proof (intro exI conjI)
  show "raw_commit S h p = (Inr (Some (PDict r)), p)"
    using assms
    by (simp add: raw_commit_def store_prog_def get_raw_object_def Let_def sync_readonly_view_def drv_contains_def drv_getitem_def json_loads_def
        fdb_host_def)
  show "meta_of (opt_val (Some (PDict r))) = Inr []"
    using assms(6) by (simp add: meta_of_def opt_val_def dget_or_def)
qed

text \<open>
  After a bridge state is resolved on the lock holder, the query reports the status it was resolved to and
  the payload it was given, whatever states of that handle were in the pool or on the ledger before. The error detail
  it was given is not reported: while the output is in the pool the query reads the metadata of the commit,
  which has none.
\<close>

theorem resolved_state_reported:
  fixes S :: "(fdb_driver, 't) state_env"
  assumes "e_host (s_pta S) = fdb_host B" "role (ledger_store p) = SEALER" "fdb_ok (db (ledger_store p))" "fdb_room (db (ledger_store p)) 3"
    and "pool_free p" "wf_dict (unfold_pool p)" "commits_plain (h_prims B) (db (ledger_store p))" "\<forall>m. p_sha256 (h_prims B) m \<noteq> []"
    and "handle \<noteq> []" "status \<noteq> []" "\<forall>c m. s_publish S c m = Inr ()"
    and "get_available_inputs (s_pta S) (bridge_owner handle) ''mcp_state_anchor'' p = (Inr items, p1)"
  shows "\<exists>p'. handle_mcp_state_resolve S handle status payload detail p = (Inr [(''success'', PBool True), (''status'', PStr (upper status))], p') \<and>
    handle_mcp_state_query S handle p' =
      (Inr [(''exists'', PBool True), (''status'', PStr (upper status)), (''error_detail'', PStr []), (''executable_payload'', PDict payload),
         (''action'', PStr [])], p')"
proof -
  let ?own = "bridge_owner handle"
  let ?tx = "resolve_tx S handle (upper status) payload detail items"
  let ?out = "create_mcp_state_anchor handle (upper status) (Some payload)"
  have up: "upper status \<noteq> []" using assms(10) by (simp add: upper_def)
  note av = available_unreserved [OF assms(12,5)]
  have st1: "ledger_store p1 = ledger_store p" using av(3) assms(2) by simp
  have q: "role (ledger_store p1) = SEALER" "fdb_ok (db (ledger_store p1))" "fdb_room (db (ledger_store p1)) (3 + 0)"
    using assms(2-4) by (simp_all add: st1)
  have ck: "check_inputs (env_verify (s_pta S)) (spent_mempool p1) 0 (tx_inputs ?tx) = Inr ()"
    by (simp add: resolve_tx_def mk_transaction_def bypass_pass)
  obtain p' c h where ex: "execute_transaction (s_pta S) (s_req S) (s_rounds S) (s_loop S) ?tx (Some ?own) p1 = (Inr (tx_hash ?tx), p')"
    and h: "h = deterministic_hash (h_prims B) (PDict (asdict_commit c))"
    and head: "get_head_hash (fdb_host B) (pta_stream_id ?tx (Some ?own)) (ledger_store p') = Some h"
    and obj: "fdb_get (db (ledger_store p')) (object_key ''commit'' h) = (case fdb_get (db (ledger_store p1)) (object_key ''commit'' h) of
         None \<Rightarrow> Some (p_dumps (h_prims B) (PDict (asdict_commit c))) | Some old \<Rightarrow> Some old)"
    and pool: "\<forall>key. dget (unfold_pool p') key = (case map_of (rev (produced ?tx)) key of Some out \<Rightarrow> Some out
         | None \<Rightarrow> if key \<in> set (spent_keys ?tx) then None else dget (unfold_pool p1) key)"
    and seal: "role (ledger_store p') = SEALER"
    using execute_transaction_step [OF assms(1) q ck, of "s_req S" "s_rounds S" "s_loop S" "Some ?own"] by blast
  have wf1: "wf_dict (unfold_pool p1)"
    using assms(6,12) query_unspent_frame [of "s_pta S" ?own "''mcp_state_anchor''" p]
    by (auto simp: get_available_inputs_def Let_def split: prod.splits intro!: wf_fold_ddel)
  have wf: "wf_dict (unfold_pool p')" using execute_keeps_wf [OF wf1] ex by (metis snd_conv)
  have prod: "produced ?tx = [(tx_hash ?tx @ '':'' @ show_nat 0, ?out)]"
    by (simp add: produced_def resolve_tx_def mk_transaction_def)
  have own: "owner ?out = ?own" "asset_type ?out = ''mcp_state_anchor''"
    by (simp_all add: create_mcp_state_anchor_def phase_anchor_output_def bridge_owner_def)
  have only: "v = ?out" if kv: "(k, v) \<in> set (unfold_pool p')" "owner v = ?own" "asset_type v = ''mcp_state_anchor''" for k v
  proof -
    have "dget (unfold_pool p') k = Some v" using kv(1) wf by (simp add: wf_dict_def)
    with pool prod consider "v = ?out" | "k \<notin> set (spent_keys ?tx)" "dget (unfold_pool p1) k = Some v" by (auto split: if_splits)
    then show ?thesis
    proof cases
      case 2
      from map_of_SomeD [OF this(2)] obtain a where "a \<in> set items" "to_key (av_pointer a) = k"
        using available_covers_pool [OF assms(12,5) _ kv(2,3)] by blast
      then have "k \<in> set (spent_keys ?tx)"
        by (force simp: spent_keys_def resolve_tx_def mk_transaction_def bypass_input_def av_pointer_def to_key_def)
      with 2 show ?thesis by simp
    qed
  qed
  have "dget (unfold_pool p') (tx_hash ?tx @ '':'' @ show_nat 0) = Some ?out" using pool prod by simp
  then have "(tx_hash ?tx @ '':'' @ show_nat 0, ?out) \<in> set (unfold_pool p')" by (rule map_of_SomeD)
  from find_unique [OF this, of "\<lambda>(key, out). owner out = ?own \<and> asset_type out = ''mcp_state_anchor''"] own only
  obtain k where inp: "in_pool ?own p' = Some (k, ?out)" by (auto simp: in_pool_def)
  have hd: "head_text S ?own p' = h" using head assms(1) by (simp add: head_text_def pta_stream_id_def)
  have "h \<noteq> []" using h assms(8) by (simp add: deterministic_hash_def)
  moreover obtain c' where "fdb_get (db (ledger_store p')) (object_key ''commit'' h) = Some (p_dumps (h_prims B) (PDict (asdict_commit c')))"
    using obj assms(7) by (auto simp: commits_plain_def st1 split: option.splits)
  moreover obtain r where "p_loads (h_prims B) (p_dumps (h_prims B) (PDict (asdict_commit c'))) = Some (PDict r)" "dget r ''metadata'' = None"
    using assms(7) unfolding commits_plain_def by blast
  ultimately obtain v where raw: "raw_commit S h p' = (Inr v, p')" "meta_of (opt_val v) = Inr []"
    using raw_commit_plain [OF assms(1) seal] by blast
  have "handle_mcp_state_resolve S handle status payload detail p = (Inr [(''success'', PBool True), (''status'', PStr (upper status))], p')"
    using assms(9,11,12) up ex by (simp add: handle_mcp_state_resolve_def Let_def bindp_def prog_simps)
  moreover have "handle_mcp_state_query S handle p' = (Inr (state_reply (PStr (upper status)) (PDict payload) []), p')"
    using assms(9) inp raw hd \<open>h \<noteq> []\<close>
    by (simp add: handle_mcp_state_query_def query_pool_def bindp_def prog_simps create_mcp_state_anchor_def phase_anchor_output_def)
  ultimately show ?thesis by (auto simp: state_reply_def dget_or_def)
qed

section \<open>Receipts and intents\<close>

text \<open>
  A receipt whose state root is any text of 64 or 66 characters, or any text that starts with 0x, is reported
  as verified, whatever the ledger holds.
\<close>

theorem any_hash_verifies:
  assumes "length root_text \<in> {64, 66} \<or> startswith root_text ''0x''" "truthy receipt_v"
  shows "dget (fst (handle_anchor_store_receipt_verify S (PStr root_text) receipt_v p)) ''is_valid'' = Some (PBool True)"
proof -
  have "root_text \<noteq> []" using assms(1) by (auto simp: startswith_def)
  with assms show ?thesis
    by (auto simp: handle_anchor_store_receipt_verify_def looks_like_hash_def Let_def split: prod.split)
qed

text \<open>
  An intent is cleared exactly when the request is well formed, names an agent and an action, asks for at most ten
  million units of fuel and carries a signature that recovers to the agent; a request that names Ed25519
  needs no valid signature at all.
\<close>

theorem intent_clearance_exact:
  assumes "load_intent (s_int S) params = Inr r"
  shows "handle_compute_intent_validate S params = intent_granted S r \<longleftrightarrow>
    ir_requester r \<noteq> [] \<and> ir_action r \<noteq> [] \<and> ir_budget r \<le> 10000000 \<and>
    (\<exists>sg. ir_signature r = Some sg \<and> sg \<noteq> [] \<and>
       (upper (ir_algo r) = ''ED25519'' \<or>
        upper (ir_algo r) = ''ECDSA_SECP256K1'' \<and> (\<exists>a. s_recover S (expected_msg r) sg = Inr a \<and> lower a = lower (ir_requester r))))"
proof -
  have ne: "rpc_error c m \<noteq> intent_granted S r" "mismatch \<noteq> intent_granted S r" for c m
    by (simp_all add: rpc_error_def intent_granted_def mismatch_def)
  show ?thesis
    using assms ne
    by (auto simp: handle_compute_intent_validate_def check_intent_def split: option.splits list.splits sum.splits if_splits)
qed

section \<open>Witnesses\<close>

definition bridge_env :: "(fdb_driver, unit) state_env" where
  "bridge_env = \<lparr>s_pta = sample_env\<lparr>e_seek := \<lambda>_ _. [], e_host := fdb_host (sample_base\<lparr>h_prims := sample_codec\<lparr>p_sha256 := \<lambda>_. ''h''\<rparr>\<rparr>)\<rparr>, s_clock = 7,
     s_req = ''r'', s_rounds = 0, s_loop = False, s_publish = (\<lambda>_ _. Inr ()), s_recover = (\<lambda>_ _. Inr ''0xAb''),
     s_int = (\<lambda>v. case v of PInt i \<Rightarrow> Some i | _ \<Rightarrow> None)\<rparr>"

lemma bridge_empty: "get_available_inputs (s_pta bridge_env) own asset (adapter (fresh_run sample_store)) =
    (Inr [], adapter (fresh_run sample_store))"
  by (simp add: get_available_inputs_def query_unspent_def get_unspent_outputs_def Let_def sync_readonly_view_def sample_store_ok
      bridge_env_def sample_env_def fresh_run_def fdb_scan_def own_pool_def)

theorem resolved_state_reported_witness:
  "\<exists>p'. handle_mcp_state_resolve bridge_env ''x'' ''failed'' [] (PStr ''boom'') (adapter (fresh_run sample_store)) =
       (Inr [(''success'', PBool True), (''status'', PStr ''FAILED'')], p') \<and>
     handle_mcp_state_query bridge_env ''x'' p' =
       (Inr [(''exists'', PBool True), (''status'', PStr ''FAILED''), (''error_detail'', PStr []), (''executable_payload'', PDict []),
          (''action'', PStr [])], p')"
proof -
  let ?B = "sample_base\<lparr>h_prims := sample_codec\<lparr>p_sha256 := \<lambda>_. ''h''\<rparr>\<rparr>"
  let ?p = "adapter (fresh_run sample_store)"
  have up: "upper ''failed'' = ''FAILED''" by code_simp
  have "e_host (s_pta bridge_env) = fdb_host ?B" "role (ledger_store ?p) = SEALER" "fdb_ok (db (ledger_store ?p))" "fdb_room (db (ledger_store ?p)) 3"
    "pool_free ?p" "wf_dict (unfold_pool ?p)" "commits_plain (h_prims ?B) (db (ledger_store ?p))" "\<forall>m. p_sha256 (h_prims ?B) m \<noteq> []"
    "''x'' \<noteq> []" "''failed'' \<noteq> []" "\<forall>c m. s_publish bridge_env c m = Inr ()"
    using sample_store_ok(1,2) sample_store_ok(3) [of 3] sample_store_empty
    by (simp_all add: bridge_env_def fresh_run_def pool_free_def commits_plain_def sample_codec_def)
  from resolved_state_reported [OF this bridge_empty] show ?thesis by (simp only: up)
qed

theorem any_hash_verifies_witness:
  "dget (fst (handle_anchor_store_receipt_verify bridge_env (PStr ''0xnothing'') (PStr ''r'') (adapter (fresh_run sample_store)))) ''is_valid'' =
     Some (PBool True)"
  by (rule any_hash_verifies) (simp_all add: startswith_def)

definition ed_params :: pydict where
  "ed_params = [(''requester_id'', PStr ''0xab''), (''responder_id'', PStr ''b''), (''action'', PStr ''run''), (''max_fuel_budget'', PInt 5),
     (''signature'', PStr ''none''), (''sig_algo'', PStr ''ED25519'')]"

definition ed_request :: intent_request where
  "ed_request = \<lparr>ir_requester = ''0xab'', ir_responder = ''b'', ir_action = ''run'', ir_budget = 5, ir_signature = Some ''none'', ir_algo = ''ED25519''\<rparr>"

theorem intent_clearance_exact_witness: "handle_compute_intent_validate bridge_env ed_params = intent_granted bridge_env ed_request"
proof -
  have l: "load_intent (s_int bridge_env) ed_params = Inr ed_request"
    by (simp add: load_intent_def ed_params_def ed_request_def str_field_def int_field_def bridge_env_def)
  have "upper ''ED25519'' = ''ED25519''" by (simp add: upper_def upper_char_def)
  with intent_clearance_exact [OF l] show ?thesis by (simp add: ed_request_def)
qed

end
