(* ===== verification/Broker.thy ===== *)
theory Broker
  imports Prelude
begin

text \<open>
  The client side of the WASM broker, \<^verbatim>\<open>node/runtime/wasm/broker.py\<close>: requests get a job identifier, replies
  come back on one channel and are matched to the futures of pending jobs. A dispatch is split at its awaits:
  \<open>begin_dispatch\<close> up to the wait for the reply, \<open>finish_dispatch\<close> after it, when the future is done or the timeout
  passed; replies arrive in between. Arguments are the tunnel's send and whether the listener got ready in time.
\<close>

section \<open>State\<close>

datatype job_future = JPending | JDone pydict

datatype sent = Published string string | Streamed string pydict

record broker =
  br_id :: string
  br_stream :: string
  br_timeout :: pyfloat
  br_pending :: "(string, job_future) dict"
  br_sent :: "sent list"

record broker_env =
  be_prims :: prims
  be_ready :: bool
  be_send :: "sent \<Rightarrow> unit res"
  be_flow :: pydict
  be_now_ms :: int

record execution_result =
  xr_success :: bool
  xr_output :: pyval
  xr_error :: "string option"
  xr_metrics :: pyval
  xr_edge_hash :: pyval

definition EXECUTE_STREAM :: string where "EXECUTE_STREAM = ''wasm:execute:stream''"
definition CONTROL_REQ :: string where "CONTROL_REQ = ''wasm:control:req''"

definition broker_res :: "string \<Rightarrow> string" where
  "broker_res broker_id = ''wasm:res:broker:'' @ broker_id"

definition new_broker :: "string \<Rightarrow> pyfloat \<Rightarrow> broker" where
  "new_broker i timeout = \<lparr>br_id = take 8 i, br_stream = EXECUTE_STREAM, br_timeout = timeout, br_pending = [], br_sent = []\<rparr>"

section \<open>Which tunnel\<close>

datatype factory = TunnelFactory | FlareTunnelFactory | OtherFactory string

definition resolve_plane_and_factory :: "bool \<Rightarrow> string option \<Rightarrow> string \<Rightarrow> string \<times> factory" where
  "resolve_plane_and_factory flare_imports explicit_factory plane_text =
     (case explicit_factory of
        Some nm \<Rightarrow> (nm, OtherFactory nm)
      | None \<Rightarrow>
          (let raw_plane = strip plane_text; plane_lower = lower raw_plane in
           if plane_lower = [] \<or> plane_lower = ''local'' then (''local'', TunnelFactory)
           else if startswith plane_lower ''flare'' \<or> startswith plane_lower ''http://'' \<or> startswith plane_lower ''https://''
           then (if flare_imports then (raw_plane, FlareTunnelFactory) else (''local'', TunnelFactory))
           else (''local'', TunnelFactory)))"

section \<open>Dispatch\<close>

type_synonym 'a broker_prog = "(broker, 'a) prog"

definition begin_dispatch :: "broker_env \<Rightarrow> string \<Rightarrow> pydict \<Rightarrow> string option \<Rightarrow> unit broker_prog" where
  "begin_dispatch E job_id payload target_route s =
     (if \<not> be_ready E then (Inl (Exc RuntimeErr ''Broker Failed to connect to Pub/Sub''), s)
      else
        (let route = (case target_route of Some (c # r) \<Rightarrow> c # r | _ \<Rightarrow> br_stream s);
             request = dset ''response_channel'' (PStr (broker_res (br_id s))) payload;
             msg = (if route = CONTROL_REQ then Published route (p_dumps (be_prims E) (PDict request))
                    else Streamed route [(''data'', PStr (p_dumps (be_prims E) (PDict request)))])
         in case be_send E msg of
              Inl e \<Rightarrow> (Inl e, s\<lparr>br_pending := ddel job_id (dset job_id JPending (br_pending s))\<rparr>)
            | Inr _ \<Rightarrow> (Inr (), s\<lparr>br_pending := dset job_id JPending (br_pending s), br_sent := br_sent s @ [msg]\<rparr>)))"

text \<open>One message of the response channel; every error while reading it is logged and dropped.\<close>

definition reply_of :: "prims \<Rightarrow> string \<Rightarrow> (string \<times> pydict) option" where
  "reply_of P data =
     (case p_loads P data of
        Some (PDict result_data) \<Rightarrow> (case dget result_data ''job_id'' of Some (PStr j) \<Rightarrow> Some (j, result_data) | _ \<Rightarrow> None)
      | _ \<Rightarrow> None)"

definition on_response :: "prims \<Rightarrow> string \<Rightarrow> broker \<Rightarrow> broker" where
  "on_response P data s =
     (case reply_of P data of
        None \<Rightarrow> s
      | Some (job_id, result_data) \<Rightarrow>
          (case dget (br_pending s) job_id of
             Some JPending \<Rightarrow> s\<lparr>br_pending := dset job_id (JDone result_data) (br_pending s)\<rparr>
           | _ \<Rightarrow> s))"

definition or_else :: "pyval \<Rightarrow> pyval \<Rightarrow> pyval" where
  "or_else a b = (if truthy a then a else b)"

definition reply_result :: "prims \<Rightarrow> pydict \<Rightarrow> execution_result" where
  "reply_result P d =
     \<lparr>xr_success = truthy (dget_or d ''success'' PNone), xr_output = dget_or d ''output'' (PStr []),
      xr_error = (if truthy (dget_or d ''success'' PNone) then None
                  else Some (py_str P (dget_or d ''error'' (PStr ''Unknown Execution Error'')))),
      xr_metrics = dget_or d ''metrics'' (PDict []),
      xr_edge_hash = or_else (dget_or d ''edge_canonical_hash'' PNone) (dget_or d ''edge_hash'' PNone)\<rparr>"

definition timeout_result :: "prims \<Rightarrow> pyfloat \<Rightarrow> execution_result" where
  "timeout_result P active_timeout =
     (let timeout_msg = ''Remote execution timeout ('' @ py_str P (PFloat active_timeout) @ ''s)''
      in \<lparr>xr_success = False, xr_output = PStr timeout_msg, xr_error = Some timeout_msg, xr_metrics = PNone, xr_edge_hash = PNone\<rparr>)"

definition finish_dispatch :: "prims \<Rightarrow> string \<Rightarrow> pyfloat option \<Rightarrow> broker \<Rightarrow> execution_result \<times> broker" where
  "finish_dispatch P job_id timeout s =
     ((case dget (br_pending s) job_id of
         Some (JDone d) \<Rightarrow> reply_result P d
       | _ \<Rightarrow> timeout_result P (case timeout of Some t \<Rightarrow> t | None \<Rightarrow> br_timeout s)),
      s\<lparr>br_pending := ddel job_id (br_pending s)\<rparr>)"

section \<open>Requests\<close>

definition build_context :: "broker_env \<Rightarrow> pydict option \<Rightarrow> pyfloat option \<Rightarrow> broker \<Rightarrow> pydict" where
  "build_context E base_context timeout s =
     (let ctx = (case base_context of Some c \<Rightarrow> c | None \<Rightarrow> be_flow E);
          ctx1 = (if dhas ctx ''timestamp'' then ctx else dset ''timestamp'' (PInt (be_now_ms E)) ctx)
      in dset ''timeout'' (PFloat (case timeout of Some t \<Rightarrow> if t = Fin 0 then br_timeout s else t | None \<Rightarrow> br_timeout s)) ctx1)"

definition with_text :: "string \<Rightarrow> string option \<Rightarrow> pydict \<Rightarrow> pydict" where
  "with_text k v d = (case v of Some (c # t) \<Rightarrow> dset k (PStr (c # t)) d | _ \<Rightarrow> d)"

definition invoke_request ::
  "broker_env \<Rightarrow> string \<Rightarrow> string \<Rightarrow> string \<Rightarrow> string option \<Rightarrow> string option \<Rightarrow> pydict option \<Rightarrow> pyfloat option \<Rightarrow> broker \<Rightarrow> pydict" where
  "invoke_request E job_id func_name payload wasm_path tier context timeout s =
     with_text ''tier'' (map_option upper tier) (with_text ''wasm_path'' wasm_path
       [(''job_id'', PStr job_id), (''target_func'', PStr func_name), (''payload'', PStr payload),
        (''context'', PDict (build_context E context timeout s))])"

definition execute_request ::
  "broker_env \<Rightarrow> string \<Rightarrow> string + pydict \<Rightarrow> pydict option \<Rightarrow> string option \<Rightarrow> pydict option \<Rightarrow> pyfloat option \<Rightarrow> broker \<Rightarrow> pydict" where
  "execute_request E job_id code variables tier context timeout s =
     with_text ''tier'' (map_option upper tier)
       (case code of
          Inr fsm \<Rightarrow> [(''job_id'', PStr job_id), (''target_func'', PStr ''execute_fsm''), (''payload'', PDict fsm),
                      (''context'', PDict (build_context E context timeout s)), (''wasm_path'', PStr ''fsm.wasm'')]
        | Inl txt \<Rightarrow> [(''job_id'', PStr job_id), (''target_func'', PStr ''execute_code''),
                      (''payload'', PDict [(''code'', PStr txt), (''variables'', PDict (case variables of Some v \<Rightarrow> v | None \<Rightarrow> []))]),
                      (''context'', PDict (build_context E context timeout s))])"

definition policy_request :: "broker_env \<Rightarrow> string \<Rightarrow> string \<Rightarrow> pydict option \<Rightarrow> broker \<Rightarrow> pydict" where
  "policy_request E job_id tier context s =
     [(''job_id'', PStr job_id), (''target_func'', PStr ''update_policy''), (''tier'', PStr (upper tier)),
      (''context'', PDict (build_context E context (Some (br_timeout s)) s))]"

text \<open>What happens to a broker while a job waits: other dispatches begin and end, and replies arrive.\<close>

datatype broker_event = BeginJob string pydict "string option" | EndJob string "pyfloat option" | Reply string

fun broker_step :: "broker_env \<Rightarrow> broker_event \<Rightarrow> broker \<Rightarrow> broker" where
  "broker_step E (BeginJob j payload route) s = snd (begin_dispatch E j payload route s)"
| "broker_step E (EndJob j t) s = snd (finish_dispatch (be_prims E) j t s)"
| "broker_step E (Reply data) s = on_response (be_prims E) data s"

fun about_job :: "string \<Rightarrow> broker_event \<Rightarrow> bool" where
  "about_job j (BeginJob j' _ _) = (j = j')"
| "about_job j (EndJob j' _) = (j = j')"
| "about_job j (Reply _) = False"

section \<open>Replies reach the job they name\<close>

text \<open>The first reply to a job among the messages of a channel.\<close>

fun first_reply :: "prims \<Rightarrow> string \<Rightarrow> broker_event list \<Rightarrow> pydict option" where
  "first_reply P j [] = None"
| "first_reply P j (Reply data # es) =
     (case reply_of P data of Some (j', d) \<Rightarrow> if j' = j then Some d else first_reply P j es | None \<Rightarrow> first_reply P j es)"
| "first_reply P j (_ # es) = first_reply P j es"

lemma other_step:
  assumes "\<not> about_job j e" "\<And>data d. e = Reply data \<Longrightarrow> reply_of (be_prims E) data \<noteq> Some (j, d)"
  shows "dget (br_pending (broker_step E e s)) j = dget (br_pending s) j"
  using assms
  by (cases e) (auto simp: begin_dispatch_def finish_dispatch_def on_response_def Let_def split: sum.split option.split job_future.split)

lemma settled_stays:
  assumes "dget (br_pending s) j = Some (JDone d)" "\<not> (\<exists>e \<in> set es. about_job j e)"
  shows "dget (br_pending (fold (broker_step E) es s)) j = Some (JDone d)"
  using assms
proof (induction es arbitrary: s)
  case (Cons e es)
  have "dget (br_pending (broker_step E e s)) j = Some (JDone d)"
  proof (cases e)
    case (Reply data)
    with Cons.prems show ?thesis by (auto simp: on_response_def split: option.split job_future.split)
  qed (use Cons.prems other_step [of j e E s] in auto)
  with Cons show ?case by simp
qed simp

lemma waiting_job:
  assumes "dget (br_pending s) j = Some JPending" "\<not> (\<exists>e \<in> set es. about_job j e)"
  shows "dget (br_pending (fold (broker_step E) es s)) j =
    Some (case first_reply (be_prims E) j es of Some d \<Rightarrow> JDone d | None \<Rightarrow> JPending)"
  using assms
proof (induction es arbitrary: s)
  case (Cons e es)
  show ?case
  proof (cases "\<exists>data d. e = Reply data \<and> reply_of (be_prims E) data = Some (j, d)")
    case True
    then obtain data d where e: "e = Reply data" "reply_of (be_prims E) data = Some (j, d)" by blast
    then have "dget (br_pending (broker_step E e s)) j = Some (JDone d)" using Cons.prems(1) by (simp add: on_response_def)
    with settled_stays [OF this, of es E] Cons.prems(2) e show ?thesis by simp
  next
    case False
    with Cons.prems have "dget (br_pending (broker_step E e s)) j = Some JPending" using other_step [of j e E s] by auto
    moreover have "first_reply (be_prims E) j (e # es) = first_reply (be_prims E) j es"
      using False by (cases e) (auto split: option.split)
    ultimately show ?thesis using Cons by simp
  qed
qed simp

text \<open>
  C14. A dispatched job gets exactly the first reply that carries its identifier, whatever other jobs begin and end and
  whatever else arrives on the channel in between; without one it gets the timeout result, and in either
  case it is pending no longer.
\<close>

theorem job_gets_its_reply:
  assumes "begin_dispatch E j payload route s = (Inr (), s1)" "\<not> (\<exists>e \<in> set es. about_job j e)"
    and "finish_dispatch (be_prims E) j timeout (fold (broker_step E) es s1) = (res, s2)"
  shows "res = (case first_reply (be_prims E) j es of
        Some d \<Rightarrow> reply_result (be_prims E) d
      | None \<Rightarrow> timeout_result (be_prims E) (case timeout of Some t \<Rightarrow> t | None \<Rightarrow> br_timeout s)) \<and>
    dget (br_pending s2) j = None"
proof -
  have p: "dget (br_pending s1) j = Some JPending" "br_timeout s1 = br_timeout s"
    using assms(1) by (auto simp: begin_dispatch_def Let_def split: if_splits sum.splits)
  have "br_timeout (broker_step E e s) = br_timeout s" for e s
    by (cases e) (auto simp: begin_dispatch_def finish_dispatch_def on_response_def Let_def split: sum.split option.split job_future.split)
  then have t: "br_timeout (fold (broker_step E) es s) = br_timeout s" for s
    by (induction es arbitrary: s) auto
  show ?thesis
    using waiting_job [OF p(1) assms(2), of E] assms(3) p(2) t [of s1]
    by (auto simp: finish_dispatch_def split: option.splits)
qed

text \<open>A send that fails leaves nothing pending.\<close>

lemma failed_send_forgotten:
  "begin_dispatch E j payload route s = (Inl e, s') \<Longrightarrow> be_ready E \<Longrightarrow> dget (br_pending s') j = None"
  by (auto simp: begin_dispatch_def Let_def split: sum.splits)

definition reply_env :: broker_env where
  "reply_env = \<lparr>be_prims = \<lparr>p_sha256 = id, p_canon = (\<lambda>_. []), p_dumps = (\<lambda>_. ''{}''),
       p_loads = (\<lambda>t. Some (PDict [(''job_id'', PStr t), (''success'', PBool True), (''output'', PStr ''done'')])),
       p_float_of_int = (\<lambda>i. Fin (of_int i)), p_float_of_str = (\<lambda>s. Inl (Exc ValueErr s)), p_repr = (\<lambda>_. ''?'')\<rparr>,
     be_ready = True, be_send = (\<lambda>_. Inr ()), be_flow = [], be_now_ms = 0\<rparr>"

theorem job_gets_its_reply_witness:
  "xr_output (fst (finish_dispatch (be_prims reply_env) ''a'' None
     (fold (broker_step reply_env) [BeginJob ''b'' [] None, Reply ''b'', Reply ''a'', EndJob ''b'' None]
        (snd (begin_dispatch reply_env ''a'' [] None (new_broker ''x'' (Fin 10))))))) = PStr ''done''"
proof -
  let ?es = "[BeginJob ''b'' [] None, Reply ''b'', Reply ''a'', EndJob ''b'' None]"
  have b: "begin_dispatch reply_env ''a'' [] None (new_broker ''x'' (Fin 10)) = (Inr (), snd (begin_dispatch reply_env ''a'' [] None (new_broker ''x'' (Fin 10))))"
    by (simp add: begin_dispatch_def Let_def reply_env_def)
  have n: "\<not> (\<exists>e \<in> set ?es. about_job ''a'' e)" by simp
  have "first_reply (be_prims reply_env) ''a'' ?es = Some [(''job_id'', PStr ''a''), (''success'', PBool True), (''output'', PStr ''done'')]"
    by (simp add: reply_of_def reply_env_def)
  with job_gets_its_reply [OF b n surjective_pairing] show ?thesis by (simp add: reply_result_def dget_or_def)
qed

end
