(* ===== verification/Regulator.thy ===== *)
theory Regulator
  imports Ids
begin

text \<open>
  The regulator of log events (\<^verbatim>\<open>watcher/plane/regulator.py\<close>): a meter that counts the events of a
  source in a sliding window, the engine that judges whether the source bursts, and the fold cache that
  replaces repeated events by one report with a count; and the emitters that make the events
  (\<^verbatim>\<open>watcher/plane/emitter.py\<close>). Float arithmetic is a parameter, and the properties hold for every verdict it gives.
\<close>

section \<open>Measuring\<close>

record log_event =
  le_id :: string
  le_phase_id :: int
  le_nexus_id :: "int option"
  le_parent_id :: pyval
  le_source :: string
  le_scope :: string
  le_tick :: "int option"
  le_level :: string
  le_kind :: string
  le_message :: string
  le_context :: pydict
  le_density :: pyfloat
  le_gain :: pyfloat
  fold_count :: int

record meter =
  history :: "(string, pyfloat list) dict"

text \<open>What is left to float arithmetic: whether a timestamp is out of the window, the density of a
  number of events, the bin of a timestamp, the density of a bin, the metrics of a series, and the scaled integers of a phase id.\<close>

record meter_env =
  m_prims :: prims
  m_expired :: "pyfloat \<Rightarrow> pyfloat \<Rightarrow> bool"
  m_density :: "nat \<Rightarrow> pyfloat"
  m_bin :: "pyfloat \<Rightarrow> pyfloat \<Rightarrow> int option"
  m_bins :: nat
  m_micro :: "nat \<Rightarrow> pyfloat"
  m_metric :: "string \<Rightarrow> pyfloat list \<Rightarrow> pyfloat"
  m_burst_density :: pyfloat
  m_burst_accel :: pyfloat
  m_round2 :: "pyfloat \<Rightarrow> pyfloat"
  m_topo :: "pyfloat \<Rightarrow> int res"
  m_press :: "pyfloat \<Rightarrow> int res"
  m_ratio :: "pyfloat \<Rightarrow> pyfloat \<Rightarrow> pyfloat"

definition prune_empty_keys :: "meter \<Rightarrow> meter" where
  "prune_empty_keys m = m\<lparr>history := filter (\<lambda>(_, q). q \<noteq> []) (history m)\<rparr>"

text \<open>The answer is computed from the queue itself, which pruning does not touch.\<close>

definition record_hit :: "meter_env \<Rightarrow> pyfloat \<Rightarrow> string \<Rightarrow> meter \<Rightarrow> pyfloat \<times> meter" where
  "record_hit M now key m =
     (let q = dropWhile (m_expired M now) (dget_or (history m) key []) @ [now]
      in (m_density M (length q), prune_empty_keys (m\<lparr>history := dset key q (history m)\<rparr>)))"

definition get_history :: "meter \<Rightarrow> string \<Rightarrow> pyfloat list \<times> meter" where
  "get_history m key =
     (case dget (history m) key of
        Some q \<Rightarrow> (q, m)
      | None \<Rightarrow> ([], m\<lparr>history := dset key [] (history m)\<rparr>))"

definition bump :: "int \<Rightarrow> nat list \<Rightarrow> nat list" where
  "bump i cs = (if 0 \<le> i \<and> i < int (length cs) then cs[nat i := cs ! nat i + 1] else cs)"

definition binned_counts :: "meter_env \<Rightarrow> pyfloat \<Rightarrow> pyfloat list \<Rightarrow> nat list" where
  "binned_counts M now ts =
     foldl (\<lambda>cs t. case m_bin M now t of None \<Rightarrow> cs | Some i \<Rightarrow> bump i cs) (replicate (m_bins M) 0) ts"

text \<open>\<open>DefaultBoundLensStrategy.scan\<close> with the kinematic preset; a short series has no metrics.\<close>

definition kinematic_preset :: "string list" where
  "kinematic_preset = [''trend'', ''acceleration'', ''range'', ''volatility'']"

definition scan_metrics :: "meter_env \<Rightarrow> pyfloat list \<Rightarrow> (string, pyfloat) dict" where
  "scan_metrics M values = (if length values < 3 then [] else map (\<lambda>name. (name, m_metric M name values)) kinematic_preset)"

record engine =
  e_meter :: meter
  last_burst_state :: bool
  alerts :: "(string \<times> bool) list"

record tel_result =
  t_density :: pyfloat
  t_bursting :: bool
  t_metrics :: "(string, pyfloat) dict"

definition analyze :: "meter_env \<Rightarrow> pyfloat \<Rightarrow> pyfloat \<Rightarrow> string \<Rightarrow> engine \<Rightarrow> tel_result \<times> engine" where
  "analyze M now later key e =
     (case record_hit M now key (e_meter e) of (current_density, m) \<Rightarrow>
      case get_history m key of (raw_history, m') \<Rightarrow>
        (let metrics = scan_metrics M (map (m_micro M) (binned_counts M later raw_history));
             acceleration = dget_or metrics ''acceleration'' (Fin 0);
             is_bursting = (float_less (m_burst_density M) current_density \<and> float_less (m_burst_accel M) acceleration);
             note = (if is_bursting \<and> \<not> last_burst_state e then [(key, True)]
                     else if \<not> is_bursting \<and> last_burst_state e then [(key, False)] else [])
         in (\<lparr>t_density = m_round2 M current_density, t_bursting = is_bursting, t_metrics = metrics\<rparr>,
             \<lparr>e_meter = m', last_burst_state = is_bursting, alerts = alerts e @ note\<rparr>)))"

section \<open>Regulating\<close>

record regulator =
  telemetry :: engine
  threshold :: pyfloat
  fold_cache :: "(string, log_event) dict"
  observers :: "string list"
  phase_ids :: phase_gen
  delivered :: "(string \<times> log_event) list"

definition PRIORITY_LEVELS :: "string set" where
  "PRIORITY_LEVELS = {''CRIT'', ''SIGNAL''}"

definition notify :: "log_event \<Rightarrow> regulator \<Rightarrow> regulator" where
  "notify ev s = s\<lparr>delivered := delivered s @ map (\<lambda>ob. (ob, ev)) (observers s)\<rparr>"

definition attach :: "string \<Rightarrow> regulator \<Rightarrow> regulator" where
  "attach ob s = (if ob \<in> set (observers s) then s else s\<lparr>observers := observers s @ [ob]\<rparr>)"

definition source_str :: "log_event \<Rightarrow> string" where
  "source_str ev = (if le_source ev = [] then ''UNKNOWN'' else le_source ev)"

definition phase_str :: "prims \<Rightarrow> log_event \<Rightarrow> string" where
  "phase_str P ev = (case dget (le_context ev) ''phase'' of None \<Rightarrow> ''SYSTEM'' | Some PNone \<Rightarrow> ''SYSTEM'' | Some v \<Rightarrow> py_str P v)"

definition telemetry_key :: "prims \<Rightarrow> log_event \<Rightarrow> string" where
  "telemetry_key P ev = phase_str P ev @ '':'' @ source_str ev"

definition fold_key :: "prims \<Rightarrow> bool \<Rightarrow> log_event \<Rightarrow> string" where
  "fold_key P is_bursting ev = (if is_bursting then telemetry_key P ev else telemetry_key P ev @ '':'' @ le_message ev)"

definition is_raw_mode :: "log_event \<Rightarrow> bool" where
  "is_raw_mode ev \<longleftrightarrow> dget (le_context ev) ''mode'' = Some (PStr ''RAW'')"

definition gain_of :: "meter_env \<Rightarrow> pyfloat \<Rightarrow> bool \<Rightarrow> pyfloat \<Rightarrow> pyfloat" where
  "gain_of M limit is_bursting density = (if is_bursting then Fin (1 / 10) else m_ratio M limit (if density = Fin 0 then Fin 1 else density))"

text \<open>What happens once an event is measured.\<close>

definition regulate :: "meter_env \<Rightarrow> tel_result \<Rightarrow> log_event \<Rightarrow> regulator \<Rightarrow> regulator" where
  "regulate M t ev s =
     (let k = fold_key (m_prims M) (t_bursting t) ev in
      if le_level ev \<in> PRIORITY_LEVELS \<or> is_raw_mode ev then notify ev s
      else if float_less (threshold s) (t_density t) \<or> t_bursting t
      then (let gain_val = gain_of M (threshold s) (t_bursting t) (t_density t);
                enriched_context = dmerge (dmerge [] (le_context ev)) (map (apsnd PFloat) (t_metrics t))
            in case dget (fold_cache s) k of
                 Some old \<Rightarrow>
                   s\<lparr>fold_cache := dset k (old\<lparr>
                       le_message := (if t_bursting t then ''['' @ source_str ev @ ''] Bursting logs suppressed...'' else le_message old),
                       fold_count := fold_count old + 1, le_gain := gain_val, le_context := enriched_context,
                       le_phase_id := le_phase_id ev\<rparr>) (fold_cache s)\<rparr>
               | None \<Rightarrow>
                   (let summary = ev\<lparr>le_kind := ''summary'', fold_count := 1, le_gain := gain_val, le_context := enriched_context\<rparr>
                    in notify summary (s\<lparr>fold_cache := dset k summary (fold_cache s)\<rparr>)))
      else (case dget (fold_cache s) k of
              None \<Rightarrow> notify ev s
            | Some folded \<Rightarrow>
                (let s' = s\<lparr>fold_cache := ddel k (fold_cache s)\<rparr>
                 in notify ev (if 1 < fold_count folded then notify folded s' else s'))))"

definition handle :: "meter_env \<Rightarrow> pyfloat \<Rightarrow> pyfloat \<Rightarrow> log_event \<Rightarrow> (regulator, unit) prog" where
  "handle M now later ev s =
     (case analyze M now later (telemetry_key (m_prims M) ev) (telemetry s) of (t, e) \<Rightarrow>
        (let s1 = s\<lparr>telemetry := e\<rparr> in
         case m_topo M (dget_or (t_metrics t) ''acceleration'' (Fin 0)) of
           Inl x \<Rightarrow> (Inl x, s1)
         | Inr topo_val \<Rightarrow>
             (case m_press M (t_density t) of
                Inl x \<Rightarrow> (Inl x, s1)
              | Inr press_val \<Rightarrow>
                  (case phase_generate (phase_ids s) topo_val press_val (t_bursting t) None of (current_phase_id, g) \<Rightarrow>
                     (Inr (), regulate M t (ev\<lparr>le_phase_id := current_phase_id, le_density := t_density t\<rparr>) (s1\<lparr>phase_ids := g\<rparr>))))))"

definition flush_key :: "string \<Rightarrow> regulator \<Rightarrow> regulator" where
  "flush_key k s =
     (case dget (fold_cache s) k of
        None \<Rightarrow> s
      | Some folded \<Rightarrow>
          (let s' = s\<lparr>fold_cache := ddel k (fold_cache s)\<rparr>
           in if 1 < fold_count folded then notify folded s' else s'))"

definition flush :: "regulator \<Rightarrow> regulator" where
  "flush s = fold flush_key (dkeys (fold_cache s)) s"

section \<open>Emitting\<close>

definition LEVEL_WEIGHTS :: "(string, int) dict" where
  "LEVEL_WEIGHTS = [(''TRACE'', 10), (''DEBUG'', 20), (''INFO'', 30), (''WARN'', 40), (''WARNING'', 40), (''ERROR'', 50),
     (''CRIT'', 60), (''CRITICAL'', 60), (''SIGNAL'', 70)]"

definition level_weight :: "string \<Rightarrow> int" where
  "level_weight l = dget_or LEVEL_WEIGHTS l 30"

record emitter =
  em_name :: string
  em_phase :: "string option"
  em_bound :: "string option"
  em_mode :: string

definition new_emitter :: "string \<Rightarrow> string option \<Rightarrow> string option \<Rightarrow> string \<Rightarrow> emitter" where
  "new_emitter name phase boundary mode = \<lparr>em_name = name, em_phase = phase, em_bound = boundary, em_mode = upper mode\<rparr>"

definition own_or :: "string option \<Rightarrow> pyval option \<Rightarrow> pyval" where
  "own_or own other = (case own of Some (c # cs) \<Rightarrow> PStr (c # cs) | _ \<Rightarrow> (case other of Some v \<Rightarrow> v | None \<Rightarrow> PNone))"

text \<open>Inside \<open>flow_scope\<close> the flow context of the caller has the given entries as well.\<close>

definition scope_context :: "pydict \<Rightarrow> pydict \<Rightarrow> pydict" where
  "scope_context ctx kwargs = dmerge (dmerge [] ctx) kwargs"

definition unified_context :: "emitter \<Rightarrow> string \<Rightarrow> pydict \<Rightarrow> pydict \<Rightarrow> pydict \<Rightarrow> pydict" where
  "unified_context em fresh_id ctx extra kwargs =
     dmerge (dmerge
       [(''flow_id'', case dget ctx ''flow_id'' of Some v \<Rightarrow> if truthy v then v else PStr fresh_id | None \<Rightarrow> PStr fresh_id),
        (''phase'', own_or (em_phase em) (dget ctx ''phase'')),
        (''bound'', own_or (em_bound em) (dget ctx ''bound'')),
        (''mode'', if em_mode em \<noteq> ''NORMAL'' then PStr (em_mode em) else dget_or ctx ''mode'' (PStr ''NORMAL''))]
       extra) kwargs"

text \<open>A call of a logging method: the identifiers it draws, the flow context, the text with its traceback, and the
  keyword arguments.\<close>

record log_call =
  lc_id :: string
  lc_fresh :: string
  lc_context :: pydict
  lc_level :: string
  lc_message :: string
  lc_kwargs :: pydict

definition emitted_event :: "emitter \<Rightarrow> log_call \<Rightarrow> pydict \<Rightarrow> log_event" where
  "emitted_event em c extra =
     \<lparr>le_id = lc_id c, le_phase_id = 0, le_nexus_id = None, le_parent_id = dget_or (lc_context c) ''parent_id'' PNone,
      le_source = em_name em, le_scope = ''LOG'', le_tick = None, le_level = upper (lc_level c), le_kind = ''log'',
      le_message = lc_message c, le_context = unified_context em (lc_fresh c) (lc_context c) extra (lc_kwargs c),
      le_density = Fin 0, le_gain = Fin 1, fold_count = 1\<rparr>"

text \<open>An interceptor is what it leaves of the event; an exception it raises is dropped.\<close>

definition emit_log :: "meter_env \<Rightarrow> pyfloat \<Rightarrow> pyfloat \<Rightarrow> string \<Rightarrow> (log_event \<Rightarrow> log_event) list \<Rightarrow> emitter \<Rightarrow> log_call \<Rightarrow> (regulator, unit) prog" where
  "emit_log M now later min_level interceptors em c s =
     (if level_weight (upper (lc_level c)) < level_weight min_level then (Inr (), s)
      else case dget_or (lc_context c) ''extra'' (PDict []) of
        PDict extra \<Rightarrow> handle M now later (fold (\<lambda>f. f) interceptors (emitted_event em c extra)) s
      | _ \<Rightarrow> (Inl (Exc TypeErr ''argument after ** must be a mapping''), s))"

section \<open>What the meter keeps\<close>

definition meter_ok :: "meter \<Rightarrow> bool" where
  "meter_ok m \<longleftrightarrow> (\<forall>(k, q) \<in> set (history m). q \<noteq> [])"

lemma prune_ok: "meter_ok m \<Longrightarrow> prune_empty_keys m = m"
  by (simp add: meter_ok_def prune_empty_keys_def filter_id_conv case_prod_beta)

lemma dset_ok: "meter_ok m \<Longrightarrow> q \<noteq> [] \<Longrightarrow> meter_ok (m\<lparr>history := dset key q (history m)\<rparr>)"
  using set_dset [of key q "history m"] by (fastforce simp: meter_ok_def)

text \<open>
  Pruning never removes anything: a queue loses its old timestamps only when its own key is recorded, and
  then it gets the new one. So every key that was ever recorded keeps its queue, and a key that is
  recorded again holds the new timestamp after those that have not expired.
\<close>

theorem meter_never_prunes:
  assumes "meter_ok m"
  shows "record_hit M now key m = (d, m') \<Longrightarrow>
    meter_ok m' \<and> set (dkeys (history m')) = insert key (set (dkeys (history m))) \<and>
    (\<forall>k. dget (history m') k = (if k = key then Some (dropWhile (m_expired M now) (dget_or (history m) key []) @ [now]) else dget (history m) k))"
  using dset_ok [OF assms, of "dropWhile (m_expired M now) (dget_or (history m) key []) @ [now]" key]
  by (auto simp: record_hit_def Let_def prune_ok)

section \<open>Nothing is lost\<close>

definition seen :: "string \<Rightarrow> regulator \<Rightarrow> log_event list" where
  "seen ob s = map snd (filter (\<lambda>p. fst p = ob) (delivered s))"

text \<open>A report with a count above one stands for the events that were folded after the first.\<close>

definition weight :: "log_event \<Rightarrow> int" where
  "weight ev = (if 1 < fold_count ev then fold_count ev - 1 else 1)"

definition reported :: "string \<Rightarrow> regulator \<Rightarrow> int" where
  "reported ob s = (\<Sum>ev\<leftarrow>seen ob s. weight ev)"

definition folded_away :: "regulator \<Rightarrow> int" where
  "folded_away s = (\<Sum>ev\<leftarrow>dvalues (fold_cache s). fold_count ev - 1)"

definition reg_ok :: "string \<Rightarrow> regulator \<Rightarrow> bool" where
  "reg_ok ob s \<longleftrightarrow> ob \<in> set (observers s) \<and> distinct (observers s) \<and> wf_dict (fold_cache s) \<and>
     (\<forall>k ev. dget (fold_cache s) k = Some ev \<longrightarrow> 1 \<le> fold_count ev)"

lemma one_observer: "distinct obs \<Longrightarrow> ob \<in> set obs \<Longrightarrow> filter (\<lambda>p. fst p = ob) (map (\<lambda>x. (x, ev)) obs) = [(ob, ev)]"
  by (induction obs) (auto simp: filter_empty_conv)

lemma notify_simps [simp]:
  "fold_cache (notify ev s) = fold_cache s" "observers (notify ev s) = observers s" "threshold (notify ev s) = threshold s"
  "reg_ok ob (notify ev s) = reg_ok ob s" "folded_away (notify ev s) = folded_away s"
  by (simp_all add: notify_def reg_ok_def folded_away_def)

lemma reported_notify [simp]: "reg_ok ob s \<Longrightarrow> reported ob (notify ev s) = reported ob s + weight ev"
  by (simp add: reported_def seen_def notify_def reg_ok_def one_observer)

lemma reported_cache [simp]: "reported ob (s\<lparr>fold_cache := c\<rparr>) = reported ob s"
  by (simp add: reported_def seen_def)

lemma reg_ok_set: "reg_ok ob s \<Longrightarrow> 1 \<le> fold_count ev \<Longrightarrow> reg_ok ob (s\<lparr>fold_cache := dset k ev (fold_cache s)\<rparr>)"
  by (simp add: reg_ok_def)

lemma reg_ok_del: "reg_ok ob s \<Longrightarrow> reg_ok ob (s\<lparr>fold_cache := ddel k (fold_cache s)\<rparr>)"
  by (simp add: reg_ok_def)

lemma dset_absent: "dget d k = None \<Longrightarrow> dset k v d = d @ [(k, v)]"
  by (induction d) (auto split: if_splits)

lemma folded_away_new: "dget (fold_cache s) k = None \<Longrightarrow>
    folded_away (s\<lparr>fold_cache := dset k ev (fold_cache s)\<rparr>) = folded_away s + (fold_count ev - 1)"
  by (simp add: folded_away_def dset_absent dvalues_def)

lemma folded_away_del: "reg_ok ob s \<Longrightarrow> dget (fold_cache s) k = Some ev \<Longrightarrow>
    folded_away (s\<lparr>fold_cache := ddel k (fold_cache s)\<rparr>) = folded_away s - (fold_count ev - 1)"
  using wf_dict_sum_dget [of "fold_cache s" k ev "\<lambda>ev. fold_count ev - 1"] by (simp add: folded_away_def reg_ok_def)

lemma sum_dset: "wf_dict d \<Longrightarrow> dget d k = Some v \<Longrightarrow> (\<Sum>x\<leftarrow>dvalues (dset k w d). f x) = (\<Sum>x\<leftarrow>dvalues d. f x) - f v + (f w :: int)"
proof (induction d)
  case (Cons p d)
  obtain a b where p: "p = (a, b)" by (cases p)
  from Cons.prems p have "a \<noteq> k \<Longrightarrow> dget d k = Some v" "wf_dict d" by (auto simp: wf_dict_def)
  with Cons p show ?case by (auto simp: dvalues_def)
qed simp

lemma folded_away_bump: "reg_ok ob s \<Longrightarrow> dget (fold_cache s) k = Some old \<Longrightarrow>
    folded_away (s\<lparr>fold_cache := dset k ev (fold_cache s)\<rparr>) = folded_away s - fold_count old + fold_count ev"
  using sum_dset [of "fold_cache s" k old "\<lambda>ev. fold_count ev - 1" ev] by (simp add: folded_away_def reg_ok_def)

lemma regulate_conserves:
  assumes "reg_ok ob s" "fold_count ev = 1"
  shows "reg_ok ob (regulate M t ev s) \<and> reported ob (regulate M t ev s) + folded_away (regulate M t ev s) = reported ob s + folded_away s + 1"
proof (cases "dget (fold_cache s) (fold_key (m_prims M) (t_bursting t) ev)")
  case None
  with assms show ?thesis
    by (auto simp: regulate_def Let_def weight_def reg_ok_set folded_away_new)
next
  case (Some old)
  with assms have "1 \<le> fold_count old" by (simp add: reg_ok_def)
  with assms Some show ?thesis
    by (auto simp: regulate_def Let_def weight_def reg_ok_set reg_ok_del folded_away_bump folded_away_del)
qed

lemma handle_conserves:
  assumes "reg_ok ob s" "fold_count ev = 1" "handle M now later ev s = (r, s')"
  shows "reg_ok ob s' \<and> reported ob s' + folded_away s' = reported ob s + folded_away s + (if isl r then 0 else 1)"
proof -
  have ok: "reg_ok ob (s\<lparr>telemetry := e, phase_ids := g\<rparr>) \<and> reg_ok ob (s\<lparr>telemetry := e\<rparr>)"
    "reported ob (s\<lparr>telemetry := e, phase_ids := g\<rparr>) = reported ob s" "folded_away (s\<lparr>telemetry := e, phase_ids := g\<rparr>) = folded_away s"
    "reported ob (s\<lparr>telemetry := e\<rparr>) = reported ob s" "folded_away (s\<lparr>telemetry := e\<rparr>) = folded_away s" for e g
    using assms(1) by (simp_all add: reg_ok_def reported_def seen_def folded_away_def)
  have "reg_ok ob (regulate M t (ev\<lparr>le_phase_id := i, le_density := x\<rparr>) (s\<lparr>telemetry := e, phase_ids := g\<rparr>)) \<and>
    reported ob (regulate M t (ev\<lparr>le_phase_id := i, le_density := x\<rparr>) (s\<lparr>telemetry := e, phase_ids := g\<rparr>)) +
    folded_away (regulate M t (ev\<lparr>le_phase_id := i, le_density := x\<rparr>) (s\<lparr>telemetry := e, phase_ids := g\<rparr>)) = reported ob s + folded_away s + 1" for t i x e g
    using regulate_conserves [of ob "s\<lparr>telemetry := e, phase_ids := g\<rparr>" "ev\<lparr>le_phase_id := i, le_density := x\<rparr>" M t] ok assms(2) by simp
  with assms(3) ok show ?thesis
    by (auto simp: handle_def Let_def split: prod.splits sum.splits)
qed

lemma flush_key_conserves:
  assumes "reg_ok ob s"
  shows "reg_ok ob (flush_key k s) \<and> reported ob (flush_key k s) + folded_away (flush_key k s) = reported ob s + folded_away s \<and>
    fold_cache (flush_key k s) = ddel k (fold_cache s)"
proof (cases "dget (fold_cache s) k")
  case None
  then have "ddel k (fold_cache s) = fold_cache s" by (simp add: map_of_eq_None_iff)
  with assms None show ?thesis by (simp add: flush_key_def)
next
  case (Some ev)
  with assms have "1 \<le> fold_count ev" by (simp add: reg_ok_def)
  with assms Some show ?thesis by (auto simp: flush_key_def Let_def weight_def reg_ok_del folded_away_del)
qed

lemma flush_keys: "reg_ok ob s \<Longrightarrow> reg_ok ob (fold flush_key ks s) \<and>
    reported ob (fold flush_key ks s) + folded_away (fold flush_key ks s) = reported ob s + folded_away s \<and>
    fold_cache (fold flush_key ks s) = fold ddel ks (fold_cache s)"
proof (induction ks arbitrary: s)
  case (Cons k ks)
  from flush_key_conserves [OF Cons.prems, of k] Cons.IH [of "flush_key k s"] show ?case by simp
qed simp

lemma fold_ddel: "set (dkeys d) \<subseteq> set ks \<Longrightarrow> fold ddel ks d = []"
proof (induction ks arbitrary: d)
  case (Cons k ks)
  have "set (dkeys (ddel k d)) \<subseteq> set ks" using Cons.prems by (auto simp: dkeys_def delete_keys)
  with Cons.IH show ?case by simp
qed (simp add: dkeys_def)

lemma flush_conserves:
  assumes "reg_ok ob s"
  shows "reg_ok ob (flush s) \<and> reported ob (flush s) = reported ob s + folded_away s \<and> fold_cache (flush s) = []"
proof -
  have e: "fold_cache (flush s) = []" using flush_keys [OF assms] fold_ddel [OF subset_refl] by (simp add: flush_def)
  then have "folded_away (flush s) = 0" by (simp add: folded_away_def dvalues_def)
  with e flush_keys [OF assms, of "dkeys (fold_cache s)"] show ?thesis by (simp add: flush_def)
qed

text \<open>A run: events are handled, observers attached and the cache flushed, in any order. The count is that of the events whose
  handling returned.\<close>

datatype reg_action = Event pyfloat pyfloat log_event | Flush | Attach string

fun reg_run :: "meter_env \<Rightarrow> reg_action list \<Rightarrow> regulator \<Rightarrow> int \<times> regulator" where
  "reg_run M [] s = (0, s)"
| "reg_run M (Event now later ev # as) s =
     (case handle M now later ev s of (r, s') \<Rightarrow> case reg_run M as s' of (n, t) \<Rightarrow> (n + (if isl r then 0 else 1), t))"
| "reg_run M (Flush # as) s = reg_run M as (flush s)"
| "reg_run M (Attach ob # as) s = reg_run M as (attach ob s)"

lemma attach_ok:
  "reg_ok ob s \<Longrightarrow> reg_ok ob (attach x s)" "reported ob (attach x s) = reported ob s" "folded_away (attach x s) = folded_away s"
  by (auto simp: attach_def reg_ok_def reported_def seen_def folded_away_def)

lemma reg_run_conserves:
  "reg_ok ob s \<Longrightarrow> (\<And>now later ev. Event now later ev \<in> set as \<Longrightarrow> fold_count ev = 1) \<Longrightarrow> reg_run M as s = (n, t) \<Longrightarrow>
     reg_ok ob t \<and> reported ob t + folded_away t = reported ob s + folded_away s + n"
proof (induction M as s arbitrary: n t rule: reg_run.induct)
  case (2 M now later ev as s)
  obtain r s' where h: "handle M now later ev s = (r, s')" by fastforce
  obtain m where m: "reg_run M as s' = (m, t)" "n = m + (if isl r then 0 else 1)"
    using "2.prems"(3) h by (auto split: prod.splits)
  have "fold_count ev = 1" using "2.prems"(2) [of now later ev] by simp
  from handle_conserves [OF "2.prems"(1) this h] have s': "reg_ok ob s'"
    "reported ob s' + folded_away s' = reported ob s + folded_away s + (if isl r then 0 else 1)" by simp_all
  have "fold_count e = 1" if "Event x y e \<in> set as" for x y e using "2.prems"(2) [of x y e] that by simp
  from "2.IH" [OF h [symmetric] s'(1) this m(1)] s'(2) m(2) show ?case by auto
next
  case (3 M as s)
  from flush_conserves [OF "3.prems"(1)] have f: "reg_ok ob (flush s)" "reported ob (flush s) = reported ob s + folded_away s"
    "folded_away (flush s) = 0" by (auto simp: folded_away_def dvalues_def)
  from "3.IH" [OF f(1)] "3.prems" f show ?case by auto
next
  case (4 M x as s)
  from "4.IH" [OF attach_ok(1) [OF "4.prems"(1)]] "4.prems" show ?case by (auto simp: attach_ok)
qed simp

text \<open>
  C23. Whatever the telemetry says, no event is lost and none is counted twice: once the cache is flushed, the events
  an observer has seen, where a report with a count stands for the events folded into it after the first,
  are as many as were handled since it was attached to an empty cache.
\<close>

theorem regulator_conserves:
  assumes "ob \<in> set (observers s)" "distinct (observers s)" "fold_cache s = []"
    and "\<And>now later ev. Event now later ev \<in> set as \<Longrightarrow> fold_count ev = 1"
    and "reg_run M as s = (n, t)"
  shows "reported ob (flush t) = reported ob s + n \<and> fold_cache (flush t) = []"
proof -
  have "reg_ok ob s" "folded_away s = 0" using assms(1-3) by (simp_all add: reg_ok_def folded_away_def dvalues_def)
  with reg_run_conserves [OF _ assms(4,5)] flush_conserves [of ob t] show ?thesis by auto
qed

section \<open>When a burst is reported\<close>

definition colons :: "string \<Rightarrow> nat" where
  "colons k = count_list k CHR '':''"

lemma colons_key: "CHR '':'' \<notin> set (phase_str P ev) \<Longrightarrow> CHR '':'' \<notin> set (source_str ev) \<Longrightarrow> colons (telemetry_key P ev) = 1"
  by (simp add: colons_def telemetry_key_def)

lemma colons_fold: "2 \<le> colons (fold_key P False ev)"
  by (simp add: colons_def fold_key_def telemetry_key_def)

text \<open>
  The events suppressed in a burst are not reported when the source calms down: events that are not part of a burst
  are folded under a key that includes their message, so however many of them follow, the entry of the burst stays
  in the cache as it was. Only a flush reports it.
\<close>

theorem burst_waits_for_flush:
  assumes "dget (fold_cache s) (telemetry_key P ev) = Some burst" "CHR '':'' \<notin> set (phase_str P ev)" "CHR '':'' \<notin> set (source_str ev)"
    and "m_prims M = P" "\<forall>(t, e) \<in> set calls. \<not> t_bursting t"
  shows "dget (fold_cache (fold (\<lambda>(t, e). regulate M t e) calls s)) (telemetry_key P ev) = Some burst"
proof -
  have k: "telemetry_key P ev \<noteq> fold_key P False e" for e
    using colons_fold [of P e] colons_key [OF assms(2,3)] by auto
  have "dget (fold_cache (regulate M t e u)) (telemetry_key P ev) = dget (fold_cache u) (telemetry_key P ev)" if "\<not> t_bursting t" for t e u
    using that k assms(4) by (auto simp: regulate_def Let_def split: option.splits)
  then show ?thesis using assms(1,5) by (induction calls arbitrary: s) (auto split: prod.splits)
qed

section \<open>Levels\<close>

text \<open>
  An event of a priority level, or one sent in raw mode, reaches every observer at once and touches no fold.
\<close>

theorem priority_passes:
  assumes "le_level ev \<in> PRIORITY_LEVELS \<or> is_raw_mode ev" "handle M now later ev s = (Inr (), s')"
  shows "\<exists>i d. delivered s' = delivered s @ map (\<lambda>ob. (ob, ev\<lparr>le_phase_id := i, le_density := d\<rparr>)) (observers s) \<and> fold_cache s' = fold_cache s"
proof -
  obtain t e i g where s': "s' = regulate M t (ev\<lparr>le_phase_id := i, le_density := t_density t\<rparr>) (s\<lparr>telemetry := e, phase_ids := g\<rparr>)"
    using assms(2) by (auto simp: handle_def Let_def split: prod.splits sum.splits)
  have "delivered s' = delivered s @ map (\<lambda>ob. (ob, ev\<lparr>le_phase_id := i, le_density := t_density t\<rparr>)) (observers s) \<and> fold_cache s' = fold_cache s"
    using assms(1) by (auto simp: s' regulate_def Let_def notify_def is_raw_mode_def)
  then show ?thesis by blast
qed

section \<open>Examples\<close>

definition sample_meter :: meter_env where
  "sample_meter = \<lparr>m_prims = \<lparr>p_sha256 = id, p_canon = (\<lambda>_. []), p_dumps = (\<lambda>_. []), p_loads = (\<lambda>_. None),
       p_float_of_int = (\<lambda>i. Fin (of_int i)), p_float_of_str = (\<lambda>s. Inl (Exc ValueErr s)), p_repr = (\<lambda>_. ''?'')\<rparr>,
     m_expired = (\<lambda>_ _. False), m_density = (\<lambda>n. Fin (of_nat n)), m_bin = (\<lambda>_ _. None), m_bins = 0, m_micro = (\<lambda>n. Fin (of_nat n)),
     m_metric = (\<lambda>_ _. Fin 0), m_burst_density = Fin 5, m_burst_accel = Fin 3, m_round2 = id, m_topo = (\<lambda>_. Inr 0),
     m_press = (\<lambda>_. Inr 0), m_ratio = (\<lambda>a _. a)\<rparr>"

definition sample_event :: log_event where
  "sample_event = emitted_event (new_emitter ''src'' (Some ''BOOT'') None ''NORMAL'')
     \<lparr>lc_id = ''1'', lc_fresh = ''2'', lc_context = [], lc_level = ''INFO'', lc_message = ''m'', lc_kwargs = []\<rparr> []"

definition sample_regulator :: "pyfloat \<Rightarrow> regulator" where
  "sample_regulator limit = \<lparr>telemetry = \<lparr>e_meter = \<lparr>history = []\<rparr>, last_burst_state = False, alerts = []\<rparr>, threshold = limit,
     fold_cache = [], observers = [''console''], phase_ids = phase_init, delivered = []\<rparr>"

theorem meter_never_prunes_witness: "dkeys (history (snd (record_hit sample_meter (Fin 1) ''k'' \<lparr>history = [(''old'', [Fin 0])]\<rparr>))) = [''old'', ''k'']"
proof -
  have "meter_ok \<lparr>history = [(''old'', [Fin 0])]\<rparr>" by (simp add: meter_ok_def)
  from meter_never_prunes [OF this surjective_pairing, of sample_meter "Fin 1" "''k''"] show ?thesis
    by (simp add: record_hit_def Let_def prune_empty_keys_def dkeys_def)
qed

theorem regulator_conserves_witness:
  "fst (reg_run sample_meter (replicate 3 (Event (Fin 1) (Fin 1) sample_event)) (sample_regulator (Fin 0))) =
   reported ''console'' (flush (snd (reg_run sample_meter (replicate 3 (Event (Fin 1) (Fin 1) sample_event)) (sample_regulator (Fin 0)))))"
proof -
  let ?r = "reg_run sample_meter (replicate 3 (Event (Fin 1) (Fin 1) sample_event)) (sample_regulator (Fin 0))"
  have "fold_count sample_event = 1" by (simp add: sample_event_def emitted_event_def)
  then have "reported ''console'' (flush (snd ?r)) = reported ''console'' (sample_regulator (Fin 0)) + fst ?r \<and> fold_cache (flush (snd ?r)) = []"
    by (intro regulator_conserves [where as = "replicate 3 (Event (Fin 1) (Fin 1) sample_event)"]) (auto simp: sample_regulator_def)
  then show ?thesis by (simp add: reported_def seen_def sample_regulator_def)
qed

definition calm :: tel_result where
  "calm = \<lparr>t_density = Fin 0, t_bursting = False, t_metrics = []\<rparr>"

theorem burst_waits_for_flush_witness:
  "dget (fold_cache (fold (\<lambda>(t, e). regulate sample_meter t e) (replicate 9 (calm, sample_event))
     (sample_regulator (Fin 0)\<lparr>fold_cache := [(''BOOT:src'', sample_event\<lparr>fold_count := 7\<rparr>)]\<rparr>))) ''BOOT:src'' = Some (sample_event\<lparr>fold_count := 7\<rparr>)"
proof -
  have k: "telemetry_key (m_prims sample_meter) sample_event = ''BOOT:src''" "CHR '':'' \<notin> set (phase_str (m_prims sample_meter) sample_event)"
    "CHR '':'' \<notin> set (source_str sample_event)"
    by (simp_all add: telemetry_key_def phase_str_def source_str_def sample_event_def emitted_event_def unified_context_def new_emitter_def own_or_def dmerge_def)
  from burst_waits_for_flush [OF _ k(2,3), of "sample_regulator (Fin 0)\<lparr>fold_cache := [(''BOOT:src'', sample_event\<lparr>fold_count := 7\<rparr>)]\<rparr>"
      "sample_event\<lparr>fold_count := 7\<rparr>" sample_meter "replicate 9 (calm, sample_event)"] show ?thesis
    by (simp add: k(1) calm_def)
qed

theorem priority_passes_witness:
  "delivered (snd (handle sample_meter (Fin 1) (Fin 1) (sample_event\<lparr>le_level := ''CRIT''\<rparr>) (sample_regulator (Fin 0)))) \<noteq> []"
proof -
  have "fst (handle sample_meter (Fin 1) (Fin 1) (sample_event\<lparr>le_level := ''CRIT''\<rparr>) (sample_regulator (Fin 0))) = Inr ()"
    by (simp add: handle_def Let_def sample_meter_def split: prod.split)
  then have "handle sample_meter (Fin 1) (Fin 1) (sample_event\<lparr>le_level := ''CRIT''\<rparr>) (sample_regulator (Fin 0)) =
      (Inr (), snd (handle sample_meter (Fin 1) (Fin 1) (sample_event\<lparr>le_level := ''CRIT''\<rparr>) (sample_regulator (Fin 0))))"
    by (metis surjective_pairing)
  from priority_passes [OF _ this] show ?thesis by (auto simp: PRIORITY_LEVELS_def sample_regulator_def)
qed

end
