(* ===== verification/Events.thy ===== *)
theory Events
  imports Prelude
begin

text \<open>
  Events and how they are distributed: the carrier and event classes with their JSON form
  (\<^verbatim>\<open>arch/contract/event/psi.py\<close>), the local and the tunnelled event bus (\<^verbatim>\<open>arch/contract/event/bus.py\<close>), the registry of
  components (\<^verbatim>\<open>arch/contract/registry/unified.py\<close>) and the daemon that reads the bus stream
  (\<^verbatim>\<open>node/ops/daemon/bootstrap.py\<close>). The constructors of the data classes check no types, so every field read from
  JSON is a dynamic value. Reactions of subscribers run one after the other, in the order they subscribed.
\<close>

section \<open>Carriers and events\<close>

datatype carrier_type = RECURSIVE | MODULATORY | FIXED | DIFFUSE

datatype phase_field = LOCAL | COHERENT | INTERFERENCE | EVALUATION

definition carrier_members :: "(string \<times> carrier_type) list" where
  "carrier_members = [(''recursive'', RECURSIVE), (''modulatory'', MODULATORY), (''fixed'', FIXED), (''diffuse'', DIFFUSE)]"

definition field_members :: "(string \<times> phase_field) list" where
  "field_members = [(''local'', LOCAL), (''coherent'', COHERENT), (''interference'', INTERFERENCE), (''evaluation'', EVALUATION)]"

text \<open>A field that is meant to hold a member of an enumeration, and what it holds when nothing was converted.\<close>

datatype 'a enum_field = Member 'a | Raw pyval

definition enum_of :: "(string \<times> 'a) list \<Rightarrow> pyval \<Rightarrow> 'a res" where
  "enum_of members v =
     (case v of
        PStr t \<Rightarrow> (case map_of members t of Some m \<Rightarrow> Inr m | None \<Rightarrow> Inl (Exc ValueErr (t @ '' is not a valid member'')))
      | _ \<Rightarrow> Inl (Exc ValueErr ''not a valid member''))"

definition value_of :: "(string \<times> 'a) list \<Rightarrow> 'a \<Rightarrow> string" where
  "value_of members m = the (map_of (map (\<lambda>(k, v). (v, k)) members) m)"

fun dump_enum :: "(string \<times> 'a) list \<Rightarrow> 'a enum_field \<Rightarrow> pyval" where
  "dump_enum members (Member m) = PStr (value_of members m)"
| "dump_enum members (Raw v) = v"

record psi_carrier =
  pc_kind :: pyval
  pc_tag :: pyval
  pc_payload :: pyval
  pc_type :: "carrier_type enum_field"
  pc_field :: "phase_field enum_field"

datatype carrier_val = Carrier psi_carrier | NotCarrier pyval

record psi_event =
  pe_event_id :: pyval
  pe_parent_id :: pyval
  pe_source_id :: pyval
  pe_scope :: pyval
  pe_tick :: pyval
  pe_carrier :: carrier_val
  pe_phase_id :: pyval
  pe_context :: pyval

definition symbol :: "prims \<Rightarrow> psi_carrier \<Rightarrow> string" where
  "symbol P c = py_str P (pc_kind c) @ '':'' @ py_str P (pc_tag c)"

text \<open>\<open>asdict\<close> and \<open>json.dumps\<close>: a member of a text enumeration is written as its value.\<close>

definition carrier_dict :: "psi_carrier \<Rightarrow> pydict" where
  "carrier_dict c =
     [(''kind'', pc_kind c), (''tag'', pc_tag c), (''payload'', pc_payload c),
      (''carrier_type'', dump_enum carrier_members (pc_type c)), (''target_field'', dump_enum field_members (pc_field c))]"

fun carrier_value :: "carrier_val \<Rightarrow> pyval" where
  "carrier_value (Carrier c) = PDict (carrier_dict c)"
| "carrier_value (NotCarrier v) = v"

definition event_dict :: "psi_event \<Rightarrow> pydict" where
  "event_dict e =
     [(''event_id'', pe_event_id e), (''parent_id'', pe_parent_id e), (''source_id'', pe_source_id e), (''scope'', pe_scope e),
      (''tick'', pe_tick e), (''carrier'', carrier_value (pe_carrier e)), (''phase_id'', pe_phase_id e), (''context'', pe_context e)]"

definition to_json :: "prims \<Rightarrow> psi_event \<Rightarrow> string" where
  "to_json P e = p_dumps P (PDict (event_dict e))"

text \<open>\<open>cls(**d)\<close>: an unexpected or a missing argument raises.\<close>

definition check_kwargs :: "string list \<Rightarrow> string list \<Rightarrow> pydict \<Rightarrow> unit res" where
  "check_kwargs required optional d =
     (if list_all (\<lambda>k. k \<in> set (required @ optional)) (dkeys d) \<and> list_all (dhas d) required then Inr ()
      else Inl (Exc TypeErr ''unexpected or missing argument''))"

definition make_carrier :: "carrier_type enum_field \<Rightarrow> phase_field enum_field \<Rightarrow> pydict \<Rightarrow> psi_carrier res" where
  "make_carrier ct tf d =
     bind_res (check_kwargs [''kind'', ''tag'', ''payload''] [''carrier_type'', ''target_field''] d) (\<lambda>_.
       Inr \<lparr>pc_kind = dget_or d ''kind'' PNone, pc_tag = dget_or d ''tag'' PNone, pc_payload = dget_or d ''payload'' PNone,
            pc_type = ct, pc_field = tf\<rparr>)"

definition load_enum :: "(string \<times> 'a) list \<Rightarrow> 'a \<Rightarrow> pyval option \<Rightarrow> 'a enum_field res" where
  "load_enum members dflt ov =
     (case ov of
        None \<Rightarrow> Inr (Member dflt)
      | Some v \<Rightarrow> if truthy v then bind_res (enum_of members v) (\<lambda>m. Inr (Member m)) else Inr (Raw v))"

definition load_carrier :: "pydict \<Rightarrow> psi_carrier res" where
  "load_carrier d =
     bind_res (load_enum carrier_members FIXED (dget d ''carrier_type'')) (\<lambda>ct.
     bind_res (load_enum field_members LOCAL (dget d ''target_field'')) (\<lambda>tf. make_carrier ct tf d))"

definition make_event :: "carrier_val \<Rightarrow> pydict \<Rightarrow> psi_event res" where
  "make_event c d =
     bind_res (check_kwargs [''event_id'', ''parent_id'', ''source_id'', ''scope'', ''tick'', ''carrier''] [''phase_id'', ''context''] d) (\<lambda>_.
       Inr \<lparr>pe_event_id = dget_or d ''event_id'' PNone, pe_parent_id = dget_or d ''parent_id'' PNone, pe_source_id = dget_or d ''source_id'' PNone,
            pe_scope = dget_or d ''scope'' PNone, pe_tick = dget_or d ''tick'' PNone, pe_carrier = c,
            pe_phase_id = dget_or d ''phase_id'' (PInt 0), pe_context = dget_or d ''context'' (PDict [])\<rparr>)"

text \<open>Reading a document with a given way to build the carrier; anything but a dictionary fails with a type error.\<close>

definition read_event :: "(pydict \<Rightarrow> psi_carrier res) \<Rightarrow> prims \<Rightarrow> string \<Rightarrow> psi_event res" where
  "read_event carrier_of P t =
     (case p_loads P t of
        None \<Rightarrow> Inl (Exc JsonDecodeErr t)
      | Some (PDict d) \<Rightarrow>
          bind_res (case dget d ''carrier'' of
                      Some (PDict c) \<Rightarrow> bind_res (carrier_of c) (\<lambda>c. Inr (Carrier c))
                    | Some v \<Rightarrow> Inr (NotCarrier v)
                    | None \<Rightarrow> Inr (NotCarrier PNone))
            (\<lambda>c. make_event c d)
      | Some _ \<Rightarrow> Inl (Exc TypeErr ''argument after ** must be a mapping''))"

definition from_json :: "prims \<Rightarrow> string \<Rightarrow> psi_event res" where
  "from_json = read_event load_carrier"

section \<open>Buses\<close>

text \<open>A reaction changes the world and may raise; the bus logs the exception and goes on.\<close>

type_synonym 's reaction = "psi_event \<Rightarrow> ('s, unit) prog"

definition safe_react :: "psi_event \<Rightarrow> 's reaction \<Rightarrow> 's \<Rightarrow> 's" where
  "safe_react e r s = snd (r e s)"

definition async_publish :: "'s reaction list \<Rightarrow> psi_event \<Rightarrow> ('s, unit) prog" where
  "async_publish actors e s = (Inr (), fold (safe_react e) actors s)"

fun matching :: "('s reaction \<times> (psi_event \<Rightarrow> bool res)) list \<Rightarrow> psi_event \<Rightarrow> 's reaction list res" where
  "matching [] e = Inr []"
| "matching ((r, predicate) # subs) e =
     bind_res (predicate e) (\<lambda>b. bind_res (matching subs e) (\<lambda>rs. Inr (if b then r # rs else rs)))"

definition dispatch_local :: "('s reaction \<times> (psi_event \<Rightarrow> bool res)) list \<Rightarrow> psi_event \<Rightarrow> ('s, unit) prog" where
  "dispatch_local subscribers e s =
     (case matching subscribers e of Inl x \<Rightarrow> (Inl x, s) | Inr rs \<Rightarrow> (Inr (), fold (safe_react e) rs s))"

definition bus_topic :: string where
  "bus_topic = ''runtime:bus:stream''"

definition tunnel_publish :: "prims \<Rightarrow> (string \<Rightarrow> pydict \<Rightarrow> ('s, unit) prog) \<Rightarrow> psi_event \<Rightarrow> ('s, unit) prog" where
  "tunnel_publish P stream_produce e s = (Inr (), snd (stream_produce bus_topic [(''data'', PStr (to_json P e))] s))"

section \<open>The reader of the bus stream\<close>

text \<open>The daemon builds the carrier without converting the enumerations.\<close>

definition raw_carrier :: "pydict \<Rightarrow> psi_carrier res" where
  "raw_carrier d =
     make_carrier (case dget d ''carrier_type'' of Some v \<Rightarrow> Raw v | None \<Rightarrow> Member FIXED)
       (case dget d ''target_field'' of Some v \<Rightarrow> Raw v | None \<Rightarrow> Member LOCAL) d"

definition parse_message :: "prims \<Rightarrow> pydict \<Rightarrow> psi_event res" where
  "parse_message P d =
     (case dget_or d ''data'' (PStr ''{}'') of
        PStr t \<Rightarrow> read_event raw_carrier P t
      | _ \<Rightarrow> Inl (Exc TypeErr ''the JSON object must be str, bytes or bytearray''))"

definition is_shutdown :: "psi_event \<Rightarrow> bool res" where
  "is_shutdown e = (case pe_carrier e of
     Carrier c \<Rightarrow> Inr (pc_kind c = PStr ''system:shutdown'') | NotCarrier _ \<Rightarrow> Inl (Exc AttributeErr ''no attribute kind''))"

record 's bus_daemon =
  bd_world :: 's
  bd_acked :: "string list"
  bd_shutdowns :: nat

text \<open>The messages of one read. A shutdown leaves the loop before the message is acknowledged.\<close>

fun consume :: "prims \<Rightarrow> 's reaction \<Rightarrow> (string \<times> pydict) list \<Rightarrow> 's bus_daemon \<Rightarrow> 's bus_daemon" where
  "consume P dispatch [] s = s"
| "consume P dispatch ((message_id, msg_data) # msgs) s =
     (case bind_res (parse_message P msg_data) (\<lambda>e. bind_res (is_shutdown e) (\<lambda>b. Inr (e, b))) of
        Inr (e, True) \<Rightarrow> s\<lparr>bd_shutdowns := bd_shutdowns s + 1\<rparr>
      | Inr (e, False) \<Rightarrow>
          consume P dispatch msgs (s\<lparr>bd_world := snd (dispatch e (bd_world s)), bd_acked := bd_acked s @ [message_id]\<rparr>)
      | Inl x \<Rightarrow> consume P dispatch msgs (s\<lparr>bd_acked := bd_acked s @ [message_id]\<rparr>))"

section \<open>The registry of components\<close>

record registry =
  rg_ators :: "(string, string) dict"
  rg_daemons :: "(string, string) dict"
  rg_roles :: "(string, string) dict"
  rg_tasks :: "(string, pydict list) dict"

text \<open>A class is named by its \<open>__name__\<close>; the role is written on it unless the same class was there already.\<close>

definition register_component :: "string \<Rightarrow> string \<Rightarrow> string \<Rightarrow> registry \<Rightarrow> registry" where
  "register_component nm cls role s =
     (let daemon = (role = ''daemon''); k = lower nm; pool = (if daemon then rg_daemons s else rg_ators s);
          pool' = dset k cls pool;
          s' = (if daemon then s\<lparr>rg_daemons := pool'\<rparr> else s\<lparr>rg_ators := pool'\<rparr>)
      in if dget pool k = Some cls then s' else s'\<lparr>rg_roles := dset cls role (rg_roles s)\<rparr>)"

definition find_component :: "string \<Rightarrow> registry \<Rightarrow> string res" where
  "find_component nm s =
     (let target_name = lower nm in
      case dget (rg_ators s) target_name of
        Some cls \<Rightarrow> Inr cls
      | None \<Rightarrow> (case dget (rg_daemons s) target_name of
                   Some cls \<Rightarrow> Inr cls
                 | None \<Rightarrow> Inl (Exc ValueErr (''[Registry] Component name '' @ squote @ target_name @ squote @ '' not found in registry.''))))"

definition create_component :: "(string \<Rightarrow> pydict \<Rightarrow> 'c res) \<Rightarrow> pydict \<Rightarrow> pydict \<Rightarrow> registry \<Rightarrow> 'c res" where
  "create_component build config extra_kwargs s =
     (case dget_or config ''name'' (dget_or config ''type'' (PStr [])) of
        PStr nm \<Rightarrow>
          (case dget_or config ''params'' (PDict []) of
             PDict params \<Rightarrow>
               bind_res (find_component nm s) (\<lambda>cls.
                 case build cls (dmerge (dmerge [] params) extra_kwargs) of
                   Inl (Exc TypeErr m) \<Rightarrow> Inl (Exc TypeErr (''[Registry] Signature mismatch initializing '' @ cls @ '': '' @ m))
                 | r \<Rightarrow> r)
           | _ \<Rightarrow> Inl (Exc TypeErr ''argument after ** must be a mapping''))
      | _ \<Rightarrow> Inl (Exc AttributeErr ''object has no attribute lower''))"

definition cli_contract :: "string \<Rightarrow> string \<Rightarrow> string \<Rightarrow> pydict \<Rightarrow> registry \<Rightarrow> registry" where
  "cli_contract nm mod_fqn task_type kwargs s =
     s\<lparr>rg_tasks := dset nm (dget_or (rg_tasks s) nm [] @ [dmerge [(''module_fqn'', PStr mod_fqn), (''type'', PStr task_type)] kwargs]) (rg_tasks s)\<rparr>"

section \<open>Round trips\<close>

text \<open>What can be in an enumeration field after reading: a member, or a value that counts as false.\<close>

fun enum_ok :: "'a enum_field \<Rightarrow> bool" where
  "enum_ok (Member m) = True"
| "enum_ok (Raw v) = (\<not> truthy v)"

lemma load_dump_enum: "enum_ok f \<Longrightarrow> load_enum carrier_members FIXED (Some (dump_enum carrier_members f)) = Inr f"
  "enum_ok g \<Longrightarrow> load_enum field_members LOCAL (Some (dump_enum field_members g)) = Inr g"
proof -
  show "load_enum carrier_members FIXED (Some (dump_enum carrier_members f)) = Inr f" if "enum_ok f"
  proof (cases f)
    case (Member m)
    then show ?thesis by (cases m) (simp_all add: load_enum_def enum_of_def value_of_def carrier_members_def)
  qed (use that in \<open>simp add: load_enum_def\<close>)
  show "load_enum field_members LOCAL (Some (dump_enum field_members g)) = Inr g" if "enum_ok g"
  proof (cases g)
    case (Member m)
    then show ?thesis by (cases m) (simp_all add: load_enum_def enum_of_def value_of_def field_members_def)
  qed (use that in \<open>simp add: load_enum_def\<close>)
qed

lemma carrier_kwargs: "check_kwargs [''kind'', ''tag'', ''payload''] [''carrier_type'', ''target_field''] (carrier_dict c) = Inr ()"
  by (simp add: check_kwargs_def carrier_dict_def dkeys_def dhas_def)

lemma make_carrier_dict: "make_carrier ct tf (carrier_dict c) = Inr (c\<lparr>pc_type := ct, pc_field := tf\<rparr>)"
  by (simp add: make_carrier_def carrier_kwargs) (simp add: carrier_dict_def dget_or_def)

lemma load_carrier_dict: "enum_ok (pc_type c) \<Longrightarrow> enum_ok (pc_field c) \<Longrightarrow> load_carrier (carrier_dict c) = Inr c"
proof -
  assume "enum_ok (pc_type c)" "enum_ok (pc_field c)"
  moreover have "dget (carrier_dict c) ''carrier_type'' = Some (dump_enum carrier_members (pc_type c))"
    "dget (carrier_dict c) ''target_field'' = Some (dump_enum field_members (pc_field c))"
    by (simp_all add: carrier_dict_def)
  ultimately show ?thesis by (simp add: load_carrier_def load_dump_enum make_carrier_dict)
qed

lemma make_event_dict: "make_event c (event_dict e) = Inr (e\<lparr>pe_carrier := c\<rparr>)"
  by (simp add: make_event_def event_dict_def check_kwargs_def dkeys_def dhas_def dget_or_def)

text \<open>A document that reads back.\<close>

definition json_ok :: "prims \<Rightarrow> pyval \<Rightarrow> bool" where
  "json_ok P v \<longleftrightarrow> p_loads P (p_dumps P v) = Some v"

lemma read_written:
  assumes "json_ok P (PDict (event_dict e))" "pe_carrier e = Carrier c" "carrier_of (carrier_dict c) = Inr c'"
  shows "read_event carrier_of P (to_json P e) = Inr (e\<lparr>pe_carrier := Carrier c'\<rparr>)"
proof -
  have "dget (event_dict e) ''carrier'' = Some (PDict (carrier_dict c))" by (simp add: event_dict_def assms(2))
  with assms(1,3) show ?thesis by (simp add: read_event_def to_json_def json_ok_def make_event_dict)
qed

text \<open>
  An event read back from its JSON form is the event that was written, its enumeration members included.
\<close>

theorem psi_round_trip:
  assumes "json_ok P (PDict (event_dict e))" "pe_carrier e = Carrier c" "enum_ok (pc_type c)" "enum_ok (pc_field c)"
  shows "from_json P (to_json P e) = Inr e"
  using read_written [of P e c load_carrier c, OF assms(1,2) load_carrier_dict [OF assms(3,4)]] by (simp add: from_json_def flip: assms(2))

section \<open>Distribution\<close>

lemma matching_Inr: "matching subs e = Inr rs \<longleftrightarrow>
    (\<forall>(r, p) \<in> set subs. \<exists>b. p e = Inr b) \<and> rs = map fst (filter (\<lambda>(r, p). p e = Inr True) subs)"
proof (induction subs arbitrary: rs)
  case (Cons a subs)
  obtain r p where a: "a = (r, p)" by (cases a)
  show ?case
  proof (cases "p e")
    case (Inr b)
    then show ?thesis using Cons.IH a by (cases b) (auto simp: bind_res_Inr)
  qed (simp add: a)
qed auto

text \<open>
  A local dispatch reaches all subscribers whose predicate accepts the event, each once and in the order of
  subscription, whichever of them crash; but if any predicate raises, the dispatch raises and nobody gets the event.
\<close>

theorem dispatch_all_or_none:
  "if list_all (\<lambda>(r, p). \<not> isl (p e)) subs
   then dispatch_local subs e s = (Inr (), fold (\<lambda>(r, p) w. snd (r e w)) (filter (\<lambda>(r, p). p e = Inr True) subs) s)
   else \<exists>x. dispatch_local subs e s = (Inl x, s)"
proof -
  have f: "fold (safe_react e) (map fst xs) s = fold (\<lambda>(r, p) w. snd (r e w)) xs s" for xs :: "('a reaction \<times> (psi_event \<Rightarrow> bool res)) list"
    by (induction xs arbitrary: s) (auto simp: safe_react_def)
  have l: "list_all (\<lambda>(r, p). \<not> isl (p e)) subs \<longleftrightarrow> (\<forall>(r, p) \<in> set subs. \<exists>b. p e = Inr b)"
  proof -
    have "\<not> isl x \<longleftrightarrow> (\<exists>b. x = Inr b)" for x :: "bool res" by (cases x) auto
    then show ?thesis by (simp add: list_all_iff case_prod_beta)
  qed
  show ?thesis
  proof (cases "matching subs e")
    case (Inl x)
    then have "\<not> (\<forall>(r, p) \<in> set subs. \<exists>b. p e = Inr b)" using matching_Inr [of subs e "map fst (filter (\<lambda>(r, p). p e = Inr True) subs)"] by simp
    with Inl show ?thesis unfolding l by (simp add: dispatch_local_def)
  next
    case (Inr rs)
    then show ?thesis using matching_Inr [of subs e rs] unfolding l by (simp add: dispatch_local_def f)
  qed
qed

section \<open>From the bus to the dispatcher\<close>

lemma raw_carrier_dict: "raw_carrier (carrier_dict c) =
    Inr (c\<lparr>pc_type := Raw (dump_enum carrier_members (pc_type c)), pc_field := Raw (dump_enum field_members (pc_field c))\<rparr>)"
proof -
  have "dget (carrier_dict c) ''carrier_type'' = Some (dump_enum carrier_members (pc_type c))"
    "dget (carrier_dict c) ''target_field'' = Some (dump_enum field_members (pc_field c))"
    by (simp_all add: carrier_dict_def)
  then show ?thesis by (simp add: raw_carrier_def make_carrier_dict)
qed

definition untyped :: "psi_event \<Rightarrow> psi_event" where
  "untyped e = e\<lparr>pe_carrier := (case pe_carrier e of
     Carrier c \<Rightarrow> Carrier (c\<lparr>pc_type := Raw (dump_enum carrier_members (pc_type c)), pc_field := Raw (dump_enum field_members (pc_field c))\<rparr>)
   | v \<Rightarrow> v)\<rparr>"

lemma parse_published:
  assumes "json_ok P (PDict (event_dict e))" "pe_carrier e = Carrier c"
  shows "parse_message P [(''data'', PStr (to_json P e))] = Inr (untyped e)"
  using read_written [where carrier_of = raw_carrier, OF assms raw_carrier_dict [of c]] by (simp add: parse_message_def dget_or_def untyped_def assms(2))

definition event_message :: "prims \<Rightarrow> string \<times> psi_event \<Rightarrow> string \<times> pydict" where
  "event_message P m = (fst m, [(''data'', PStr (to_json P (snd m)))])"

definition well_formed :: "prims \<Rightarrow> psi_event \<Rightarrow> bool" where
  "well_formed P e \<longleftrightarrow> json_ok P (PDict (event_dict e)) \<and> (\<exists>c. pe_carrier e = Carrier c)"

definition asks_shutdown :: "psi_event \<Rightarrow> bool" where
  "asks_shutdown e \<longleftrightarrow> is_shutdown e = Inr True"

lemma is_shutdown_untyped: "is_shutdown (untyped e) = is_shutdown e"
  by (simp add: is_shutdown_def untyped_def split: carrier_val.split)

lemma well_formed_shutdown: "well_formed P e \<Longrightarrow> is_shutdown e = Inr (asks_shutdown e)"
  by (auto simp: well_formed_def asks_shutdown_def is_shutdown_def)

text \<open>
  Events published on the tunnel bus reach the dispatcher of a reader in order, unchanged except that the enumeration
  members arrive as plain text; each is acknowledged whether or not its dispatch failed. A shutdown event stops the
  batch: it starts one shutdown and is itself never acknowledged, nor is what comes after it.
\<close>

theorem published_events_dispatched:
  assumes "\<forall>(i, e) \<in> set ms. well_formed P e"
  defines "before \<equiv> takeWhile (\<lambda>(i, e). \<not> asks_shutdown e) ms"
  shows "consume P dispatch (map (event_message P) ms) s =
    s\<lparr>bd_world := fold (\<lambda>(i, e) w. snd (dispatch (untyped e) w)) before (bd_world s), bd_acked := bd_acked s @ map fst before,
      bd_shutdowns := bd_shutdowns s + (if before = ms then 0 else 1)\<rparr>"
  unfolding before_def
  using assms(1)
proof (induction ms arbitrary: s)
  case (Cons m ms)
  obtain i e where m: "m = (i, e)" by (cases m)
  from Cons.prems m obtain c where w: "well_formed P e" "json_ok P (PDict (event_dict e))" "pe_carrier e = Carrier c" by (auto simp: well_formed_def)
  have p: "bind_res (parse_message P (snd (event_message P m))) (\<lambda>e. bind_res (is_shutdown e) (\<lambda>b. Inr (e, b))) = Inr (untyped e, asks_shutdown e)"
    using parse_published [OF w(2,3)] by (simp add: event_message_def m is_shutdown_untyped well_formed_shutdown [OF w(1)])
  show ?case
  proof (cases "asks_shutdown e")
    case True
    with p show ?thesis by (simp add: m event_message_def)
  next
    case False
    with p Cons.IH [of "s\<lparr>bd_world := snd (dispatch (untyped e) (bd_world s)), bd_acked := bd_acked s @ [i]\<rparr>"] Cons.prems show ?thesis
      by (simp add: m event_message_def)
  qed
qed simp

section \<open>The registry\<close>

text \<open>
  A registered component is found under its name in any case; a daemon only if no other component has the name.
\<close>

theorem registered_found:
  "find_component nm (register_component nm cls role s) =
     (case dget (rg_ators s) (lower nm) of
        Some a \<Rightarrow> Inr (if role = ''daemon'' then a else cls)
      | None \<Rightarrow> Inr cls)"
  by (auto simp: find_component_def register_component_def Let_def split: option.split)

text \<open>Registering again is idempotent.\<close>

lemma register_twice: "register_component nm cls role (register_component nm cls role s) = register_component nm cls role s"
proof -
  have "dset k v (dset k v d) = dset k v d" for k :: string and v :: string and d by (induction d) auto
  then show ?thesis by (simp add: register_component_def Let_def)
qed

section \<open>Examples\<close>

definition sample_psi :: "string \<Rightarrow> psi_event" where
  "sample_psi kind = \<lparr>pe_event_id = PStr ''1'', pe_parent_id = PNone, pe_source_id = PStr ''n'', pe_scope = PStr ''GLOBAL'', pe_tick = PInt 0,
     pe_carrier = Carrier \<lparr>pc_kind = PStr kind, pc_tag = PStr ''t'', pc_payload = PDict [], pc_type = Member DIFFUSE, pc_field = Raw PNone\<rparr>,
     pe_phase_id = PInt 0, pe_context = PDict []\<rparr>"

definition one_document :: "pyval \<Rightarrow> prims" where
  "one_document v = \<lparr>p_sha256 = id, p_canon = (\<lambda>_. []), p_dumps = (\<lambda>_. ''doc''), p_loads = (\<lambda>_. Some v),
     p_float_of_int = (\<lambda>i. Fin (of_int i)), p_float_of_str = (\<lambda>s. Inl (Exc ValueErr s)), p_repr = (\<lambda>_. ''?'')\<rparr>"

theorem psi_round_trip_witness:
  "from_json (one_document (PDict (event_dict (sample_psi ''SIGNAL'')))) ''doc'' = Inr (sample_psi ''SIGNAL'')"
proof -
  let ?P = "one_document (PDict (event_dict (sample_psi ''SIGNAL'')))"
  have "json_ok ?P (PDict (event_dict (sample_psi ''SIGNAL'')))" "to_json ?P (sample_psi ''SIGNAL'') = ''doc''"
    by (simp_all add: json_ok_def one_document_def to_json_def)
  moreover have "pe_carrier (sample_psi ''SIGNAL'') = Carrier \<lparr>pc_kind = PStr ''SIGNAL'', pc_tag = PStr ''t'', pc_payload = PDict [],
      pc_type = Member DIFFUSE, pc_field = Raw PNone\<rparr>"
    by (simp add: sample_psi_def)
  ultimately show ?thesis using psi_round_trip [of ?P "sample_psi ''SIGNAL''"] by simp
qed

theorem published_events_dispatched_witness:
  "bd_acked (consume (one_document (PDict (event_dict (sample_psi ''SIGNAL'')))) (\<lambda>e w. (Inl (Exc ValueErr []), e # w))
     (map (event_message (one_document (PDict (event_dict (sample_psi ''SIGNAL''))))) [(''1-0'', sample_psi ''SIGNAL''), (''2-0'', sample_psi ''SIGNAL'')])
     \<lparr>bd_world = [], bd_acked = [], bd_shutdowns = 0\<rparr>) = [''1-0'', ''2-0'']"
proof -
  let ?P = "one_document (PDict (event_dict (sample_psi ''SIGNAL'')))"
  have w: "well_formed ?P (sample_psi ''SIGNAL'')" "\<not> asks_shutdown (sample_psi ''SIGNAL'')"
    by (simp_all add: well_formed_def json_ok_def one_document_def sample_psi_def asks_shutdown_def is_shutdown_def)
  then have "\<forall>(i, e) \<in> set [(''1-0'', sample_psi ''SIGNAL''), (''2-0'', sample_psi ''SIGNAL'')]. well_formed ?P e" by simp
  from published_events_dispatched [OF this, of "\<lambda>e w. (Inl (Exc ValueErr []), e # w)" "\<lparr>bd_world = [], bd_acked = [], bd_shutdowns = 0\<rparr>"] w
  show ?thesis by simp
qed

end
