(* ===== verification/NodeRuntime.thy ===== *)
theory NodeRuntime
  imports Events Broker
begin

text \<open>
  The runtime of a node: the supervisor of its tasks and the dispatcher of its events
  (\<^verbatim>\<open>node/ops/task/supervisor.py\<close>), the interpreter that judges a carrier (\<^verbatim>\<open>arch/contract/interpreter.py\<close>), the swarm
  executor (\<^verbatim>\<open>state/phase/executor/cont.py\<close>), the sensor and actuator of the shared surface (\<^verbatim>\<open>node/runtime/sensor.py\<close>) and
  the registration of the node (\<^verbatim>\<open>node/runtime/anchor.py\<close>). The event loop is a sequence of actions: tasks begin, end and
  get their done callback, and the shutdown goes on, in any order. Redis, the broker and the handlers are parameters.
\<close>

section \<open>The supervisor\<close>

datatype outcome = Returned | Raised exc | Cancelled

datatype task_state = Running | Ended outcome | Settled outcome

datatype shutdown_pc = Open | StoppingDaemons | Gathering "nat list" | Down

record supervisor =
  sv_closed :: bool
  sv_tasks :: "nat list"
  sv_daemons :: "string list"
  sv_handlers :: "string list"
  sv_state :: "nat \<Rightarrow> task_state option"
  sv_on_error :: "nat \<Rightarrow> string option"
  sv_calls :: "(string \<times> nat \<times> exc) list"
  sv_unhandled :: "(nat \<times> exc) list"
  sv_pc :: shutdown_pc

definition new_supervisor :: supervisor where
  "new_supervisor = \<lparr>sv_closed = False, sv_tasks = [], sv_daemons = [], sv_handlers = [], sv_state = (\<lambda>_. None), sv_on_error = (\<lambda>_. None),
     sv_calls = [], sv_unhandled = [], sv_pc = Open\<rparr>"

definition add_error_handler :: "string \<Rightarrow> supervisor \<Rightarrow> supervisor" where
  "add_error_handler h s = s\<lparr>sv_handlers := sv_handlers s @ [h]\<rparr>"

text \<open>\<open>t\<close> is the new task object.\<close>

definition create_task :: "nat \<Rightarrow> string option \<Rightarrow> (supervisor, nat) prog" where
  "create_task t on_error s =
     (if sv_closed s then (Inl (Exc RuntimeErr ''TaskSupervisor already closed''), s)
      else (Inr t, s\<lparr>sv_tasks := List.insert t (sv_tasks s), sv_state := (sv_state s)(t \<mapsto> Running), sv_on_error := (sv_on_error s)(t := on_error)\<rparr>))"

definition mount_daemon :: "nat \<Rightarrow> string \<Rightarrow> string option \<Rightarrow> (supervisor, nat) prog" where
  "mount_daemon t nm on_error s =
     (if sv_closed s then (Inl (Exc RuntimeErr (''Cannot mount daemon '' @ nm @ '': Supervisor closed.'')), s)
      else create_task t on_error (s\<lparr>sv_daemons := List.insert nm (sv_daemons s)\<rparr>))"

text \<open>The callback of a task that raised. \<open>H h t x\<close> says that handler \<open>h\<close> itself raises.\<close>

definition deliver_error :: "(string \<Rightarrow> nat \<Rightarrow> exc \<Rightarrow> bool) \<Rightarrow> nat \<Rightarrow> exc \<Rightarrow> supervisor \<Rightarrow> supervisor" where
  "deliver_error H t x s =
     (let own = (case sv_on_error s t of None \<Rightarrow> [] | Some h \<Rightarrow> [h]);
          handled = list_ex (\<lambda>h. \<not> H h t x) own;
          others = (if handled then [] else sv_handlers s);
          handled' = (handled \<or> list_ex (\<lambda>h. \<not> H h t x) others)
      in s\<lparr>sv_calls := sv_calls s @ map (\<lambda>h. (h, t, x)) (own @ others),
           sv_unhandled := sv_unhandled s @ (if handled' then [] else [(t, x)])\<rparr>)"

definition on_done :: "(string \<Rightarrow> nat \<Rightarrow> exc \<Rightarrow> bool) \<Rightarrow> nat \<Rightarrow> outcome \<Rightarrow> supervisor \<Rightarrow> supervisor" where
  "on_done H t r s =
     (let s' = s\<lparr>sv_tasks := removeAll t (sv_tasks s), sv_state := (sv_state s)(t \<mapsto> Settled r)\<rparr>
      in case r of Raised x \<Rightarrow> deliver_error H t x s' | _ \<Rightarrow> s')"

definition cancel_tasks :: "supervisor \<Rightarrow> supervisor" where
  "cancel_tasks s = s\<lparr>sv_pc := (if sv_tasks s = [] then Down else Gathering (sv_tasks s))\<rparr>"

definition begin_shutdown :: "supervisor \<Rightarrow> supervisor" where
  "begin_shutdown s =
     (let s' = s\<lparr>sv_closed := True\<rparr> in if sv_daemons s \<noteq> [] then s'\<lparr>sv_pc := StoppingDaemons\<rparr> else cancel_tasks s')"

text \<open>One step of the event loop; a step that cannot happen now is None. Gathering goes on once every task it waits for
  is done and its callback has run, since those callbacks were added first.\<close>

datatype sv_action =
    AddHandler string | Create nat "string option" | Mount nat string "string option"
  | End nat outcome | Callback nat | BeginShutdown | DaemonsStopped | TasksGathered

definition settled :: "supervisor \<Rightarrow> nat \<Rightarrow> bool" where
  "settled s t \<longleftrightarrow> (case sv_state s t of Some (Settled _) \<Rightarrow> True | _ \<Rightarrow> False)"

fun sv_act :: "(string \<Rightarrow> nat \<Rightarrow> exc \<Rightarrow> bool) \<Rightarrow> sv_action \<Rightarrow> supervisor \<Rightarrow> supervisor option" where
  "sv_act H (AddHandler h) s = Some (add_error_handler h s)"
| "sv_act H (Create t oe) s = (if sv_state s t = None then Some (snd (create_task t oe s)) else None)"
| "sv_act H (Mount t nm oe) s = (if sv_state s t = None then Some (snd (mount_daemon t nm oe s)) else None)"
| "sv_act H (End t r) s = (if sv_state s t = Some Running then Some (s\<lparr>sv_state := (sv_state s)(t \<mapsto> Ended r)\<rparr>) else None)"
| "sv_act H (Callback t) s = (case sv_state s t of Some (Ended r) \<Rightarrow> Some (on_done H t r s) | _ \<Rightarrow> None)"
| "sv_act H BeginShutdown s = (if sv_pc s = Open then Some (begin_shutdown s) else None)"
| "sv_act H DaemonsStopped s = (if sv_pc s = StoppingDaemons then Some (cancel_tasks (s\<lparr>sv_daemons := []\<rparr>)) else None)"
| "sv_act H TasksGathered s =
     (case sv_pc s of Gathering ts \<Rightarrow> if list_all (settled s) ts then Some (s\<lparr>sv_tasks := [], sv_pc := Down\<rparr>) else None | _ \<Rightarrow> None)"

fun sv_run :: "(string \<Rightarrow> nat \<Rightarrow> exc \<Rightarrow> bool) \<Rightarrow> sv_action list \<Rightarrow> supervisor \<Rightarrow> supervisor option" where
  "sv_run H [] s = Some s"
| "sv_run H (a # as) s = (case sv_act H a s of None \<Rightarrow> None | Some s' \<Rightarrow> sv_run H as s')"

section \<open>The dispatcher\<close>

text \<open>What a flow did, in order.\<close>

datatype effect = Handled psi_event | Actuated psi_event | Broadcast pyval | Emitted psi_event

record dispatcher =
  dp_routes :: "((psi_event \<Rightarrow> bool res) \<times> (psi_event \<Rightarrow> pyval res)) list"
  dp_default :: "(psi_event \<Rightarrow> pyval res) option"
  dp_executor :: "(psi_event \<Rightarrow> psi_event list res) option"
  dp_actuator :: "(psi_event \<Rightarrow> unit res) option"
  dp_emitter :: "(psi_event \<Rightarrow> unit res) option"
  dp_broadcaster :: "(pyval \<Rightarrow> unit res) option"

fun first_route :: "((psi_event \<Rightarrow> bool res) \<times> (psi_event \<Rightarrow> pyval res)) list \<Rightarrow> (psi_event \<Rightarrow> pyval res) option \<Rightarrow> psi_event \<Rightarrow> (psi_event \<Rightarrow> pyval res) option res" where
  "first_route [] dflt e = Inr dflt"
| "first_route ((predicate, h) # rs) dflt e = bind_res (predicate e) (\<lambda>b. if b then Inr (Some h) else first_route rs dflt e)"

definition resolve_handler :: "dispatcher \<Rightarrow> psi_event \<Rightarrow> (psi_event \<Rightarrow> pyval res) option res" where
  "resolve_handler D e = first_route (dp_routes D) (dp_default D) e"

definition log_effect :: "effect \<Rightarrow> 'a res \<Rightarrow> (effect list, 'a) prog" where
  "log_effect f r w = (r, w @ [f])"

definition process_item :: "dispatcher \<Rightarrow> (psi_event \<Rightarrow> pyval res) \<Rightarrow> psi_event \<Rightarrow> (effect list, unit) prog" where
  "process_item D handler p =
     bindp (log_effect (Handled p) (handler p)) (\<lambda>result.
     bindp (case dp_actuator D of Some act \<Rightarrow> if truthy result then log_effect (Actuated p) (act p) else ret () | None \<Rightarrow> ret ()) (\<lambda>_.
     bindp (case dp_broadcaster D of Some bc \<Rightarrow> if truthy result then log_effect (Broadcast result) (bc result) else ret () | None \<Rightarrow> ret ()) (\<lambda>_.
       case dp_emitter D of Some em \<Rightarrow> log_effect (Emitted p) (em p) | None \<Rightarrow> ret ())))"

fun process_items :: "dispatcher \<Rightarrow> (psi_event \<Rightarrow> pyval res) \<Rightarrow> psi_event list \<Rightarrow> (effect list, unit) prog" where
  "process_items D handler [] = ret ()"
| "process_items D handler (p # ps) = bindp (process_item D handler p) (\<lambda>_. process_items D handler ps)"

definition process_flow :: "dispatcher \<Rightarrow> (psi_event \<Rightarrow> pyval res) \<Rightarrow> psi_event \<Rightarrow> (effect list, unit) prog" where
  "process_flow D handler psi =
     bindp (case dp_executor D of Some ex \<Rightarrow> lift_res (ex psi) | None \<Rightarrow> ret [psi]) (\<lambda>psi_batch. process_items D handler psi_batch)"

text \<open>\<open>dispatch\<close> starts the flow as a task of the supervisor; without a handler nothing happens.\<close>

definition dispatch :: "dispatcher \<Rightarrow> nat \<Rightarrow> psi_event \<Rightarrow> (supervisor, (psi_event \<Rightarrow> pyval res) option) prog" where
  "dispatch D t psi =
     bindp (lift_res (resolve_handler D psi)) (\<lambda>oh.
       case oh of None \<Rightarrow> ret None | Some h \<Rightarrow> bindp (create_task t None) (\<lambda>_. ret (Some h)))"

text \<open>The executor of the master node. \<open>tasks\<close> are the registered commands; a command that is found is
  imported and run, its exceptions are logged, and no events are returned.\<close>

definition swarm_execute :: "(string, pydict list) dict \<Rightarrow> psi_event \<Rightarrow> (pydict list, psi_event list) prog" where
  "swarm_execute tasks psi started =
     (case pe_carrier psi of
        NotCarrier _ \<Rightarrow> (Inl (Exc AttributeErr ''object has no attribute kind''), started)
      | Carrier c \<Rightarrow>
          if pc_kind c \<noteq> PStr ''COMMAND'' then (Inr [], started)
          else (case bind_res (as_dict (pc_payload c)) (\<lambda>d. as_dict (dget_or d ''_context'' (PDict []))) of
                  Inl x \<Rightarrow> (Inl x, started)
                | Inr context \<Rightarrow>
                    (let command = (case dget context ''command'' of Some v \<Rightarrow> if truthy v then v else pc_tag c | None \<Rightarrow> pc_tag c)
                     in case command of
                          PStr nm \<Rightarrow>
                            (if nm = [] then (Inr [], started)
                             else case dget_or tasks nm [] of
                               [] \<Rightarrow> (Inr [], started)
                             | task # _ \<Rightarrow> (Inr [], started @ [task]))
                        | PList _ \<Rightarrow> (if truthy command then (Inl (Exc TypeErr ''unhashable type''), started) else (Inr [], started))
                        | PDict _ \<Rightarrow> (if truthy command then (Inl (Exc TypeErr ''unhashable type''), started) else (Inr [], started))
                        | _ \<Rightarrow> (Inr [], started))))"

section \<open>The interpreter\<close>

datatype phase_action = SPAWN | DROP | FIELD_MISMATCH

record phase_judgment =
  pj_symbol :: string
  pj_action :: phase_action
  pj_phase :: string
  pj_version :: int
  pj_resonance :: pyval

record anchored_ir =
  ai_version :: int
  ai_boundaries :: "string list"

definition bootstrap_anchor :: "string list \<Rightarrow> anchored_ir" where
  "bootstrap_anchor recepts = \<lparr>ai_version = 1, ai_boundaries = (if recepts = [] then [''system:signal'', ''system:ping''] else recepts)\<rparr>"

definition revise_anchor :: "anchored_ir \<Rightarrow> string \<Rightarrow> anchored_ir" where
  "revise_anchor a r = \<lparr>ai_version = ai_version a + 1, ai_boundaries = List.insert r (ai_boundaries a)\<rparr>"

record interpreter =
  in_anchor :: anchored_ir
  in_field :: phase_field
  in_phase :: string

definition new_interpreter :: "anchored_ir \<Rightarrow> interpreter" where
  "new_interpreter a = \<lparr>in_anchor = a, in_field = COHERENT, in_phase = ''PHASE_IDLE''\<rparr>"

definition transition_request :: "prims \<Rightarrow> interpreter \<Rightarrow> psi_carrier \<Rightarrow> pydict" where
  "transition_request P s c =
     [(''evolution_ctx'', PDict [(''phase_root'', PDict [(''kind'', PStr ''ANCHOR''), (''name'', PStr ''anchor_root''),
          (''content'', PStr (p_dumps P (PList (map PStr (ai_boundaries (in_anchor s))))))]), (''external_rules'', PList [])]),
      (''intent_action'', PStr ''EVALUATE_CARRIER''),
      (''intent_payload'', PDict [(''tag'', pc_tag c), (''symbol'', PStr (symbol P c)), (''field'', PStr (value_of field_members (in_field s)))])]"

fun scan_residues :: "pyval list \<Rightarrow> phase_action \<Rightarrow> (interpreter, phase_action) prog" where
  "scan_residues [] action s = (Inr action, s)"
| "scan_residues (r # rs) action s =
     (case as_dict r of
        Inl x \<Rightarrow> (Inl x, s)
      | Inr d \<Rightarrow> if dget d ''kind'' = Some (PStr ''ERROR'') then scan_residues rs FIELD_MISMATCH (s\<lparr>in_phase := ''PHASE_ERROR''\<rparr>)
                 else scan_residues rs action s)"

definition dropped :: "prims \<Rightarrow> interpreter \<Rightarrow> psi_carrier \<Rightarrow> phase_judgment" where
  "dropped P s c = \<lparr>pj_symbol = symbol P c, pj_action = DROP, pj_phase = ''PHASE_ERROR'', pj_version = ai_version (in_anchor s), pj_resonance = PBool False\<rparr>"

definition residues_of :: "pydict \<Rightarrow> pyval list res" where
  "residues_of d = (case dget d ''all_residues'' of Some v \<Rightarrow> if truthy v then iter_val v else Inr [] | None \<Rightarrow> Inr [])"

definition process :: "prims \<Rightarrow> (pydict \<Rightarrow> execution_result) \<Rightarrow> psi_carrier \<Rightarrow> (interpreter, phase_judgment) prog" where
  "process P invoke c s =
     (let result = invoke (transition_request P s c) in
      if \<not> xr_success result then (Inr (dropped P s c), s)
      else case xr_output result of
        PStr t \<Rightarrow>
          (case p_loads P t of
             None \<Rightarrow> (Inr (dropped P s c), s)
           | Some v \<Rightarrow>
               bindp (lift_res (as_dict v)) (\<lambda>d.
                 let authorised = dget_or d ''is_authorized'' (PBool False) in
                 bindp (\<lambda>s. (Inr (), s\<lparr>in_phase := (if truthy authorised then ''PHASE_ACTIVE::'' @ symbol P c else ''PHASE_IDLE'')\<rparr>)) (\<lambda>_.
                 bindp (lift_res (residues_of d)) (\<lambda>residues.
                 bindp (scan_residues residues (if truthy authorised then SPAWN else DROP)) (\<lambda>action s.
                   (Inr \<lparr>pj_symbol = symbol P c, pj_action = action, pj_phase = in_phase s, pj_version = ai_version (in_anchor s),
                         pj_resonance = authorised\<rparr>, s))))) s)
      | _ \<Rightarrow> (Inl (Exc TypeErr ''the JSON object must be str, bytes or bytearray''), s))"

section \<open>Sensor and actuator\<close>

text \<open>Reading the keys: the cursor of \<open>SCAN\<close> comes back as 0 when the iteration is over.\<close>

partial_function (option) fetch_loop :: "(int \<Rightarrow> int \<times> string list) \<Rightarrow> (string \<Rightarrow> bool) \<Rightarrow> int \<Rightarrow> string list \<Rightarrow> string list option" where
  "fetch_loop scan ok cursor keys =
     (case scan cursor of (c, batch) \<Rightarrow>
        let keys' = remdups (keys @ filter ok batch) in if c = 0 then Some keys' else fetch_loop scan ok c keys')"

definition key_to_filename :: "string \<Rightarrow> string" where
  "key_to_filename key = concat (map (\<lambda>c. if c = CHR '':'' then ''__'' else [c]) key) @ ''.json''"

datatype surface_value = TString string | THash pydict | TList "pyval list" | TSet "string list" | TZset "(string \<times> pyfloat) list" | TOther string

definition dump_data :: "prims \<Rightarrow> surface_value \<Rightarrow> pyval" where
  "dump_data P v = (case v of
     TString t \<Rightarrow> (case p_loads P t of Some d \<Rightarrow> d | None \<Rightarrow> PStr t)
   | THash d \<Rightarrow> PDict d
   | TList xs \<Rightarrow> PList xs
   | TSet xs \<Rightarrow> PList (map PStr (sort xs))
   | TZset ms \<Rightarrow> PList (map (\<lambda>(m, x). PDict [(''member'', PStr m), (''score'', PFloat x)]) ms)
   | TOther t \<Rightarrow> PStr (''[unsupported] type='' @ t))"

record sensor =
  sn_keylist :: "string list"
  sn_files :: "(string, string) dict"

record sensor_env =
  se_prims :: prims
  se_scan :: "int \<Rightarrow> int \<times> string list"
  se_match :: "string \<Rightarrow> bool"
  se_read :: "string \<Rightarrow> surface_value res"

definition dump_key :: "sensor_env \<Rightarrow> string \<Rightarrow> (sensor, unit) prog" where
  "dump_key E key =
     bindp (lift_res (se_read E key)) (\<lambda>v s.
       (Inr (), s\<lparr>sn_files := dset (key_to_filename key) (p_dumps (se_prims E) (PDict [(key, dump_data (se_prims E) v)])) (sn_files s)\<rparr>))"

text \<open>\<open>PsiType\<close> is a union of two classes; calling it raises.\<close>

definition psi_type_call :: "(sensor, psi_carrier) prog" where
  "psi_type_call = raise (Exc TypeErr ''Cannot instantiate typing.Union'')"

fun announce_added :: "sensor_env \<Rightarrow> string list \<Rightarrow> (sensor, psi_carrier list) prog" where
  "announce_added E [] = ret []"
| "announce_added E (k # ks) =
     bindp (dump_key E k) (\<lambda>_. bindp psi_type_call (\<lambda>p. bindp (announce_added E ks) (\<lambda>ps. ret (p # ps))))"

fun announce_removed :: "string list \<Rightarrow> (sensor, psi_carrier list) prog" where
  "announce_removed [] = ret []"
| "announce_removed (k # ks) =
     bindp (\<lambda>s. (Inr (), s\<lparr>sn_files := ddel (key_to_filename k) (sn_files s)\<rparr>)) (\<lambda>_.
     bindp psi_type_call (\<lambda>p. bindp (announce_removed ks) (\<lambda>ps. ret (p # ps))))"

text \<open>None if the scan does not end.\<close>

definition sense :: "sensor_env \<Rightarrow> sensor \<Rightarrow> (psi_carrier list res \<times> sensor) option" where
  "sense E s =
     (case fetch_loop (se_scan E) (se_match E) 0 [] of
        None \<Rightarrow> None
      | Some current \<Rightarrow>
          Some (bindp (announce_added E (sort (filter (\<lambda>k. k \<notin> set (sn_keylist s)) current))) (\<lambda>added.
                bindp (announce_removed (sort (filter (\<lambda>k. k \<notin> set current) (sn_keylist s)))) (\<lambda>removed s'.
                  (Inr (added @ removed), s'\<lparr>sn_keylist := current\<rparr>))) s))"

record 'k actuator =
  ac_sinks :: "'k list"
  ac_enabled :: bool
  ac_processed :: nat

fun emit_enabled :: "('k \<Rightarrow> string option res) \<Rightarrow> bool \<Rightarrow> 'k list \<Rightarrow> bool" where
  "emit_enabled flag dflt [] = dflt"
| "emit_enabled flag dflt (k # ks) = (case flag k of Inr (Some v) \<Rightarrow> v \<noteq> ''off'' | _ \<Rightarrow> emit_enabled flag dflt ks)"

datatype sink_op = SinkSet pyval pydict | SinkDelete pyval

text \<open>The operations are sent to all sinks at once and their exceptions dropped; the list is what was sent.\<close>

definition actuate_psi :: "prims \<Rightarrow> pyfloat \<Rightarrow> ('k \<Rightarrow> string option res) \<Rightarrow> psi_carrier \<Rightarrow> 'k actuator \<Rightarrow> ('k \<times> sink_op) list \<times> 'k actuator" where
  "actuate_psi P now flag p a =
     (if \<not> emit_enabled flag (ac_enabled a) (ac_sinks a) then ([], a)
      else let payload = [(''ts'', PFloat now), (''source'', PStr ''runtime.loop''), (''psi'', PStr (symbol P p))] in
        case pc_kind p of
          PStr k \<Rightarrow> (map (\<lambda>s. (s, if endswith k ''removed'' then SinkDelete (pc_tag p) else SinkSet (pc_tag p) payload)) (ac_sinks a),
                     a\<lparr>ac_processed := ac_processed a + 1\<rparr>)
        | _ \<Rightarrow> ([], a))"

section \<open>Registration of a node\<close>

text \<open>On a node that has its tunnel: the commands of the store that registration uses, each of which may raise, and what can be read back.\<close>

record 's store_ops =
  so_hset :: "string \<Rightarrow> pydict \<Rightarrow> ('s, unit) prog"
  so_sadd :: "string \<Rightarrow> string \<Rightarrow> ('s, unit) prog"
  so_srem :: "string \<Rightarrow> string \<Rightarrow> ('s, unit) prog"
  so_delete :: "string \<Rightarrow> ('s, unit) prog"
  so_members :: "'s \<Rightarrow> string \<Rightarrow> string set"
  so_hash :: "'s \<Rightarrow> string \<Rightarrow> pydict option"

definition node_key :: "string \<Rightarrow> string" where
  "node_key n = ''runtime:node:'' @ n"

definition requires_key :: "string \<Rightarrow> string" where
  "requires_key k = ''runtime:index:requires:'' @ k"

definition emits_key :: "string \<Rightarrow> string" where
  "emits_key k = ''runtime:index:emits:'' @ k"

fun for_each :: "('a \<Rightarrow> ('s, unit) prog) \<Rightarrow> 'a list \<Rightarrow> ('s, unit) prog" where
  "for_each f [] = ret ()"
| "for_each f (x # xs) = bindp (f x) (\<lambda>_. for_each f xs)"

text \<open>The capabilities of the node: a name with what it requires and emits.\<close>

type_synonym capabilities = "(string \<times> string list \<times> string list) list"

definition index_keys :: "capabilities \<Rightarrow> string list" where
  "index_keys caps = concat (map (\<lambda>(fqn, req, emi). map requires_key req @ map emits_key emi) caps)"

definition register_node :: "'s store_ops \<Rightarrow> pydict \<Rightarrow> string \<Rightarrow> capabilities \<Rightarrow> ('s, unit) prog" where
  "register_node R data n caps =
     bindp (so_hset R (node_key n) data) (\<lambda>_.
       for_each (\<lambda>(fqn, req, emi). bindp (for_each (\<lambda>k. so_sadd R (requires_key k) n) req) (\<lambda>_. for_each (\<lambda>k. so_sadd R (emits_key k) n) emi)) caps)"

definition deregister_node :: "'s store_ops \<Rightarrow> string \<Rightarrow> capabilities \<Rightarrow> ('s, unit) prog" where
  "deregister_node R n caps =
     bindp (so_delete R (node_key n)) (\<lambda>_.
       for_each (\<lambda>(fqn, req, emi). bindp (for_each (\<lambda>k. so_srem R (requires_key k) n) req) (\<lambda>_. for_each (\<lambda>k. so_srem R (emits_key k) n) emi)) caps)"

section \<open>Supervised tasks\<close>

definition live :: "supervisor \<Rightarrow> nat \<Rightarrow> bool" where
  "live s t \<longleftrightarrow> sv_state s t = Some Running \<or> (\<exists>r. sv_state s t = Some (Ended r))"

definition sv_inv :: "supervisor \<Rightarrow> bool" where
  "sv_inv s \<longleftrightarrow> (\<forall>t. t \<in> set (sv_tasks s) \<longleftrightarrow> live s t) \<and> (sv_closed s \<longleftrightarrow> sv_pc s \<noteq> Open) \<and>
     (\<forall>ts. sv_pc s = Gathering ts \<longrightarrow> set (sv_tasks s) \<subseteq> set ts \<and> sv_daemons s = []) \<and> (sv_pc s = Down \<longrightarrow> sv_tasks s = [] \<and> sv_daemons s = [])"

lemma sv_inv_new: "sv_inv new_supervisor"
  by (simp add: sv_inv_def new_supervisor_def live_def)

lemma deliver_error_simps [simp]:
  "sv_tasks (deliver_error H t x s) = sv_tasks s" "sv_state (deliver_error H t x s) = sv_state s" "sv_closed (deliver_error H t x s) = sv_closed s"
  "sv_pc (deliver_error H t x s) = sv_pc s" "sv_daemons (deliver_error H t x s) = sv_daemons s"
  by (simp_all add: deliver_error_def Let_def)

lemma on_done_simps [simp]:
  "sv_tasks (on_done H t r s) = removeAll t (sv_tasks s)" "sv_state (on_done H t r s) = (sv_state s)(t \<mapsto> Settled r)"
  "sv_closed (on_done H t r s) = sv_closed s" "sv_pc (on_done H t r s) = sv_pc s" "sv_daemons (on_done H t r s) = sv_daemons s"
  by (simp_all add: on_done_def Let_def split: outcome.split)

lemma sv_inv_act: "sv_inv s \<Longrightarrow> sv_act H a s = Some s' \<Longrightarrow> sv_inv s'"
proof (cases a)
  case (Create t oe)
  then show "sv_inv s \<Longrightarrow> sv_act H a s = Some s' \<Longrightarrow> sv_inv s'"
    by (auto simp: create_task_def sv_inv_def live_def split: if_splits)
next
  case (Mount t nm oe)
  then show "sv_inv s \<Longrightarrow> sv_act H a s = Some s' \<Longrightarrow> sv_inv s'"
    by (auto simp: mount_daemon_def create_task_def sv_inv_def live_def split: if_splits)
next
  case (End t r)
  assume i: "sv_inv s" and "sv_act H a s = Some s'"
  with End have s': "sv_state s t = Some Running" "s' = s\<lparr>sv_state := (sv_state s)(t \<mapsto> Ended r)\<rparr>" by (auto split: if_splits)
  then have "live s' = live s" by (auto simp: live_def fun_eq_iff)
  with i s' show "sv_inv s'" by (simp add: sv_inv_def)
next
  case (Callback t)
  assume i: "sv_inv s" and "sv_act H a s = Some s'"
  with Callback obtain r where s': "s' = on_done H t r s" by (auto split: option.splits task_state.splits)
  then have "live s' u \<longleftrightarrow> u \<noteq> t \<and> live s u" for u by (auto simp: live_def)
  with i s' show "sv_inv s'" by (auto simp: sv_inv_def)
next
  case BeginShutdown
  then show "sv_inv s \<Longrightarrow> sv_act H a s = Some s' \<Longrightarrow> sv_inv s'"
    by (auto simp: begin_shutdown_def cancel_tasks_def Let_def sv_inv_def live_def split: if_splits)
next
  case DaemonsStopped
  then show "sv_inv s \<Longrightarrow> sv_act H a s = Some s' \<Longrightarrow> sv_inv s'"
    by (auto simp: cancel_tasks_def sv_inv_def live_def split: if_splits)
next
  case TasksGathered
  assume i: "sv_inv s" and h: "sv_act H a s = Some s'"
  from h TasksGathered obtain ts where ts: "sv_pc s = Gathering ts" "list_all (settled s) ts" "s' = s\<lparr>sv_tasks := [], sv_pc := Down\<rparr>"
    by (auto split: shutdown_pc.splits if_splits)
  have "\<not> live s t" for t
  proof
    assume "live s t"
    with i ts(1) have "t \<in> set ts" by (auto simp: sv_inv_def)
    with ts(2) \<open>live s t\<close> show False by (auto simp: list_all_iff settled_def live_def)
  qed
  with i ts show "sv_inv s'" by (auto simp: sv_inv_def live_def)
next
  case (AddHandler h)
  assume i: "sv_inv s" and "sv_act H a s = Some s'"
  with AddHandler have s': "s' = s\<lparr>sv_handlers := sv_handlers s @ [h]\<rparr>" by (simp add: add_error_handler_def)
  then have "live s' = live s" by (auto simp: live_def fun_eq_iff)
  with i s' show "sv_inv s'" by (simp add: sv_inv_def)
qed

lemma sv_run_append: "sv_run H (as @ bs) s = (case sv_run H as s of None \<Rightarrow> None | Some t \<Rightarrow> sv_run H bs t)"
  by (induction as arbitrary: s) (auto split: option.split)

lemma sv_inv_run: "sv_inv s \<Longrightarrow> sv_run H as s = Some s' \<Longrightarrow> sv_inv s'"
  by (induction as arbitrary: s) (auto split: option.splits dest: sv_inv_act)

text \<open>
  C19. However tasks begin, end and fail and whenever the shutdown happens, the supervisor holds exactly the tasks
  whose end it has not yet seen; and once the shutdown is over no task is left, no daemon is left, and
  nothing can be started any more.
\<close>

theorem supervisor_exact:
  assumes "sv_run H as new_supervisor = Some s"
  shows "(t \<in> set (sv_tasks s) \<longleftrightarrow> live s t) \<and>
    (sv_pc s = Down \<longrightarrow> \<not> live s t \<and> sv_daemons s = [] \<and> isl (fst (create_task u oe s)) \<and> isl (fst (mount_daemon u nm oe s)))"
  using sv_inv_run [OF sv_inv_new assms] by (auto simp: sv_inv_def create_task_def mount_daemon_def)

text \<open>What lets a shutdown go on: every task that was cancelled ends and gets its callback.\<close>

definition wind_up :: "supervisor \<Rightarrow> nat \<Rightarrow> sv_action list" where
  "wind_up s t = (case sv_state s t of Some Running \<Rightarrow> [End t Cancelled, Callback t] | _ \<Rightarrow> [Callback t])"

lemma wind_up_one:
  assumes "sv_inv s" "sv_tasks s = t # ts"
  shows "\<exists>s'. sv_run H (wind_up s t) s = Some s' \<and> set (sv_tasks s') = set ts - {t} \<and> length (sv_tasks s') \<le> length ts \<and>
    sv_pc s' = sv_pc s \<and> (\<forall>u. settled s u \<longrightarrow> settled s' u) \<and> settled s' t"
proof -
  from assms have l: "live s t" by (auto simp: sv_inv_def)
  show ?thesis
  proof (cases "sv_state s t")
    case (Some st)
    with l assms(2) show ?thesis
      by (cases st) (auto simp: wind_up_def live_def settled_def le_diff_conv length_removeAll_less_eq order_trans [OF length_removeAll_less_eq])
  qed (use l in \<open>simp add: live_def\<close>)
qed

lemma gather_ends:
  assumes "sv_inv s" "sv_pc s = Gathering ts" "\<And>u. u \<in> set ts \<Longrightarrow> settled s u \<or> u \<in> set (sv_tasks s)"
  shows "\<exists>as s'. sv_run H as s = Some s' \<and> sv_pc s' = Down"
  using assms
proof (induction "length (sv_tasks s)" arbitrary: s rule: less_induct)
  case less
  show ?case
  proof (cases "sv_tasks s")
    case Nil
    with less.prems have "sv_run H [TasksGathered] s = Some (s\<lparr>sv_tasks := [], sv_pc := Down\<rparr>)" by (auto simp: list_all_iff)
    moreover have "sv_pc (s\<lparr>sv_tasks := [], sv_pc := Down\<rparr>) = Down" by simp
    ultimately show ?thesis by blast
  next
    case (Cons t us)
    from wind_up_one [OF less.prems(1) Cons, of H] obtain s' where s': "sv_run H (wind_up s t) s = Some s'" "set (sv_tasks s') = set us - {t}"
      "length (sv_tasks s') \<le> length us" "sv_pc s' = sv_pc s" "\<And>u. settled s u \<Longrightarrow> settled s' u" "settled s' t" by blast
    have "sv_inv s'" using sv_inv_run [OF less.prems(1) s'(1)] .
    moreover have "settled s' u \<or> u \<in> set (sv_tasks s')" if "u \<in> set ts" for u
      using less.prems(3) [OF that] s'(2,5,6) Cons by auto
    ultimately obtain as s'' where "sv_run H as s' = Some s''" "sv_pc s'' = Down"
      using less.hyps [of s'] s'(3,4) less.prems(2) Cons by auto
    with s'(1) have "sv_run H (wind_up s t @ as) s = Some s''" by (simp add: sv_run_append)
    with \<open>sv_pc s'' = Down\<close> show ?thesis by blast
  qed
qed

definition gather_inv :: "supervisor \<Rightarrow> bool" where
  "gather_inv s \<longleftrightarrow> (\<forall>ts u. sv_pc s = Gathering ts \<longrightarrow> u \<in> set ts \<longrightarrow> sv_state s u \<noteq> None)"

lemma gather_inv_act: "sv_inv s \<Longrightarrow> gather_inv s \<Longrightarrow> sv_act H a s = Some s' \<Longrightarrow> gather_inv s'"
  by (cases a) (auto simp: gather_inv_def add_error_handler_def create_task_def mount_daemon_def begin_shutdown_def cancel_tasks_def Let_def
      sv_inv_def live_def split: if_splits option.splits task_state.splits shutdown_pc.splits)

lemma gather_inv_run: "sv_inv s \<Longrightarrow> gather_inv s \<Longrightarrow> sv_run H as s = Some s' \<Longrightarrow> gather_inv s'"
  by (induction as arbitrary: s) (auto split: option.splits dest: sv_inv_act gather_inv_act)

lemma known_task: "sv_inv s \<Longrightarrow> sv_state s u \<noteq> None \<Longrightarrow> settled s u \<or> u \<in> set (sv_tasks s)"
  by (auto simp: sv_inv_def live_def settled_def split: option.splits task_state.splits)

text \<open>
  A shutdown that has begun can always be completed, from every state that is reached: it waits for nothing but the
  daemons it stops and the ends of the tasks it cancelled.
\<close>

theorem shutdown_completes:
  assumes "sv_run H as new_supervisor = Some s" "sv_pc s \<noteq> Open"
  shows "\<exists>bs s'. sv_run H bs s = Some s' \<and> sv_pc s' = Down \<and> sv_tasks s' = []"
proof -
  have i: "sv_inv s" using sv_inv_run [OF sv_inv_new assms(1)] .
  have g: "gather_inv s" using gather_inv_run [OF sv_inv_new _ assms(1)] by (simp add: gather_inv_def new_supervisor_def)
  have gath: "\<exists>bs s'. sv_run H bs u = Some s' \<and> sv_pc s' = Down" if "sv_inv u" "gather_inv u" "sv_pc u = Gathering ts" for u ts
    using gather_ends [OF that(1,3)] known_task [OF that(1)] that(2,3) by (auto simp: gather_inv_def)
  have "\<exists>bs s'. sv_run H bs s = Some s' \<and> sv_pc s' = Down"
  proof (cases "sv_pc s")
    case StoppingDaemons
    let ?u = "cancel_tasks (s\<lparr>sv_daemons := []\<rparr>)"
    have r: "sv_act H DaemonsStopped s = Some ?u" using StoppingDaemons by simp
    have u: "sv_inv ?u" "gather_inv ?u" using sv_inv_act [OF i r] gather_inv_act [OF i g r] .
    show ?thesis
    proof (cases "sv_pc ?u")
      case (Gathering ts)
      from gath [OF u Gathering] obtain bs s' where "sv_run H bs ?u = Some s'" "sv_pc s' = Down" by blast
      then have "sv_run H (DaemonsStopped # bs) s = Some s'" using r by simp
      with \<open>sv_pc s' = Down\<close> show ?thesis by blast
    next
      case Down
      have "sv_run H [DaemonsStopped] s = Some ?u" using r by simp
      with Down show ?thesis by blast
    qed (auto simp: cancel_tasks_def split: if_splits)
  next
    case (Gathering ts)
    then show ?thesis using gath [OF i g] by blast
  next
    case Down
    moreover have "sv_run H [] s = Some s" by simp
    ultimately show ?thesis by blast
  qed (use assms(2) in simp)
  then show ?thesis using sv_inv_run [OF i] by (metis sv_inv_def)
qed


section \<open>Flows\<close>

text \<open>
  On the master node, whose executor is the swarm executor, no handler ever runs: the executor returns no events, so a
  dispatched flow calls neither handler nor actuator nor emitter, whatever the event is.
\<close>

theorem swarm_runs_no_handler:
  assumes "dp_executor D = Some (\<lambda>p. fst (swarm_execute tasks p started))"
  shows "snd (process_flow D handler psi w) = w"
proof -
  have n: "evs = []" if "fst (swarm_execute tasks psi started) = Inr evs" for evs
  proof (cases "pe_carrier psi")
    case (Carrier c)
    then show ?thesis
      using that by (simp add: swarm_execute_def Let_def split: if_splits sum.splits) (auto split: if_splits pyval.splits list.splits)
  qed (use that in \<open>simp add: swarm_execute_def\<close>)
  show ?thesis
  proof (cases "fst (swarm_execute tasks psi started)")
    case (Inr evs)
    with n [OF Inr] assms show ?thesis by (simp add: process_flow_def bindp_def lift_res_def ret_def)
  qed (simp add: assms process_flow_def bindp_def lift_res_def)
qed

text \<open>
  The handler of an event is that of the first route that accepts it, or the default one.
\<close>

theorem first_route_wins:
  assumes "\<forall>(p, h) \<in> set rs. p e = Inr False" "p e = Inr True"
  shows "first_route (rs @ (p, h) # rest) dflt e = Inr (Some h) \<and> first_route rs dflt e = Inr dflt"
  using assms by (induction rs) auto

section \<open>Judgments\<close>

definition error_residue :: "pyval \<Rightarrow> bool" where
  "error_residue r \<longleftrightarrow> (case r of PDict d \<Rightarrow> dget d ''kind'' = Some (PStr ''ERROR'') | _ \<Rightarrow> False)"

lemma scan_residues_eq: "\<forall>r \<in> set rs. is_dict r \<Longrightarrow>
    scan_residues rs a s = (Inr (if \<exists>r \<in> set rs. error_residue r then FIELD_MISMATCH else a),
      if \<exists>r \<in> set rs. error_residue r then s\<lparr>in_phase := ''PHASE_ERROR''\<rparr> else s)"
proof (induction rs arbitrary: a s)
  case (Cons r rs)
  then obtain d where "r = PDict d" by (cases r) auto
  with Cons show ?case by (auto simp: error_residue_def)
qed simp

text \<open>
  The judgment on a carrier, given the answer of the engine: it is spawned if authorised and no residue is an
  error, a mismatch if one is, and dropped otherwise; the phase of the interpreter becomes that of the judgment. The
  resonance is the authorisation itself, so an authorised carrier with an error residue resonates although it is a mismatch.
\<close>

theorem judgment_exact:
  assumes "xr_success (invoke (transition_request P s c))" "xr_output (invoke (transition_request P s c)) = PStr t" "p_loads P t = Some (PDict d)"
    and "residues_of d = Inr rs" "\<forall>r \<in> set rs. is_dict r"
  defines "auth \<equiv> dget_or d ''is_authorized'' (PBool False)" and "bad \<equiv> \<exists>r \<in> set rs. error_residue r"
  shows "\<exists>s'. process P invoke c s = (Inr \<lparr>pj_symbol = symbol P c, pj_action = (if bad then FIELD_MISMATCH else if truthy auth then SPAWN else DROP),
      pj_phase = in_phase s', pj_version = ai_version (in_anchor s), pj_resonance = auth\<rparr>, s') \<and>
    in_anchor s' = in_anchor s \<and>
    in_phase s' = (if bad then ''PHASE_ERROR'' else if truthy auth then ''PHASE_ACTIVE::'' @ symbol P c else ''PHASE_IDLE'')"
  using assms(1-4) unfolding auth_def bad_def
  by (simp add: process_def Let_def bindp_def lift_res_def scan_residues_eq [OF assms(5)])

text \<open>
  Without an answer that parses the judgment is a drop in phase error, but the phase of the interpreter is not touched.
\<close>

lemma failed_judgment:
  "\<not> xr_success (invoke (transition_request P s c)) \<Longrightarrow> process P invoke c s = (Inr (dropped P s c), s)"
  by (simp add: process_def)

section \<open>The sensor\<close>

text \<open>The scan ends if its cursor comes back to 0.\<close>

lemma fetch_ends: "((\<lambda>c. fst (scan c)) ^^ Suc n) c = 0 \<Longrightarrow> \<exists>ks. fetch_loop scan ok c keys = Some ks"
proof (induction n arbitrary: c keys)
  case 0
  then show ?case by (subst fetch_loop.simps) (auto simp: Let_def split: prod.split)
next
  case (Suc n)
  then have "((\<lambda>c. fst (scan c)) ^^ Suc n) (fst (scan c)) = 0" by (simp add: funpow_swap1 [where f = "\<lambda>c. fst (scan c)"])
  from Suc.IH [OF this] show ?case by (subst fetch_loop.simps) (auto simp: Let_def split: prod.split)
qed

lemma announce_added_Inr: "announce_added E ks s = (Inr ps, s') \<Longrightarrow> ks = [] \<and> ps = [] \<and> s' = s"
  by (cases ks) (auto simp: bindp_eq_Inr psi_type_call_def prog_simps)

lemma announce_removed_Inr: "announce_removed ks s = (Inr ps, s') \<Longrightarrow> ks = [] \<and> ps = [] \<and> s' = s"
  by (cases ks) (auto simp: bindp_eq_Inr psi_type_call_def prog_simps)

lemma announce_keylist:
  "sn_keylist (snd (announce_added E ks s)) = sn_keylist s" "sn_keylist (snd (announce_removed ks s)) = sn_keylist s"
  by (cases ks; auto simp: bindp_def dump_key_def psi_type_call_def prog_simps split: sum.split)+

text \<open>
  The sensor never reports anything: whenever the keys of the surface differ from those it knows, building the first signal
  raises before the known keys are updated, so the same difference is found again and again; it returns only if nothing
  changed, and then without a signal.
\<close>

theorem sensor_never_signals:
  assumes "sense E s = Some (r, s')" "fetch_loop (se_scan E) (se_match E) 0 [] = Some current"
  shows "set (sn_keylist s') = set (sn_keylist s) \<and> (if set current = set (sn_keylist s) then r = Inr [] else isl r)"
proof -
  let ?a = "sort (filter (\<lambda>k. k \<notin> set (sn_keylist s)) current)" and ?d = "sort (filter (\<lambda>k. k \<notin> set current) (sn_keylist s))"
  have r: "bindp (announce_added E ?a) (\<lambda>added. bindp (announce_removed ?d) (\<lambda>removed s'. (Inr (added @ removed), s'\<lparr>sn_keylist := current\<rparr>))) s = (r, s')"
    using assms by (simp add: sense_def)
  have same: "set current = set (sn_keylist s) \<longleftrightarrow> ?a = [] \<and> ?d = []"
  proof -
    have "sort xs = [] \<longleftrightarrow> xs = []" for xs :: "string list" by (metis set_empty set_sort)
    then show ?thesis by (simp add: filter_empty_conv) blast
  qed
  show ?thesis
  proof (cases "set current = set (sn_keylist s)")
    case True
    with same have ad: "?a = []" "?d = []" by blast+
    from r have "(r, s') = (Inr [], s\<lparr>sn_keylist := current\<rparr>)" unfolding ad by (simp add: prog_simps bindp_def)
    with True show ?thesis by simp
  next
    case False
    have "isl r"
    proof (cases r)
      case (Inr ps)
      with r have "?a = []" "?d = []" by (auto simp: bindp_eq_Inr dest: announce_added_Inr announce_removed_Inr)
      with same False show ?thesis by simp
    qed simp
    moreover have "sn_keylist s' = sn_keylist s"
      using r \<open>isl r\<close> announce_keylist(1) [of E ?a s] announce_keylist(2) [of ?d]
      by (auto simp: isl_def bindp_eq_Inl bindp_eq_Inr) (metis announce_added_Inr snd_conv)+
    ultimately show ?thesis using False by simp
  qed
qed

section \<open>Registration\<close>

text \<open>The documented behaviour of the commands when they succeed.\<close>

definition store_laws :: "'s store_ops \<Rightarrow> bool" where
  "store_laws R \<longleftrightarrow>
     (\<forall>k d s s'. so_hset R k d s = (Inr (), s') \<longrightarrow>
        so_members R s' = so_members R s \<and> so_hash R s' k \<noteq> None \<and> (\<forall>j. j \<noteq> k \<longrightarrow> so_hash R s' j = so_hash R s j)) \<and>
     (\<forall>k v s s'. so_sadd R k v s = (Inr (), s') \<longrightarrow>
        so_members R s' = (so_members R s)(k := insert v (so_members R s k)) \<and> so_hash R s' = so_hash R s) \<and>
     (\<forall>k v s s'. so_srem R k v s = (Inr (), s') \<longrightarrow>
        so_members R s' = (so_members R s)(k := so_members R s k - {v}) \<and> so_hash R s' = so_hash R s) \<and>
     (\<forall>k s s'. so_delete R k s = (Inr (), s') \<longrightarrow>
        so_members R s' = (so_members R s)(k := {}) \<and> so_hash R s' = (so_hash R s)(k := None))"

lemma for_each_append: "for_each f (xs @ ys) s = bindp (for_each f xs) (\<lambda>_. for_each f ys) s"
proof (induction xs arbitrary: s)
  case (Cons x xs)
  then show ?case by (auto simp: bindp_def split: prod.split sum.split)
qed (simp add: bindp_def ret_def)

lemma for_each_nested:
  "for_each (\<lambda>(fqn, req, emi). bindp (for_each (\<lambda>k. f (requires_key k)) req) (\<lambda>_. for_each (\<lambda>k. f (emits_key k)) emi)) caps s =
     for_each f (index_keys caps) s"
proof (induction caps arbitrary: s)
  case (Cons c caps)
  obtain fqn req emi where c: "c = (fqn, req, emi)" by (cases c)
  have "for_each (\<lambda>k. f (g k)) ks u = for_each f (map g ks) u" for g :: "string \<Rightarrow> string" and ks u
    by (induction ks arbitrary: u) (auto simp: bindp_def split: prod.split sum.split)
  with Cons.IH show ?case
    by (auto simp: c index_keys_def for_each_append bindp_def split: prod.split sum.split)
qed (simp add: index_keys_def)

lemma index_not_node: "node_key n \<notin> set (index_keys caps)"
  by (auto simp: index_keys_def node_key_def requires_key_def emits_key_def)

lemma sadd_all:
  "store_laws R \<Longrightarrow> for_each (\<lambda>k. so_sadd R k n) ks s = (Inr (), s') \<Longrightarrow>
     so_members R s' k = so_members R s k \<union> (if k \<in> set ks then {n} else {}) \<and> so_hash R s' = so_hash R s"
proof (induction ks arbitrary: s)
  case (Cons j ks)
  then obtain u where u: "so_sadd R j n s = (Inr (), u)" "for_each (\<lambda>k. so_sadd R k n) ks u = (Inr (), s')" by (auto simp: bindp_eq_Inr)
  moreover from u(1) Cons.prems(1) have "so_members R u = (so_members R s)(j := insert n (so_members R s j))" "so_hash R u = so_hash R s"
    by (simp_all add: store_laws_def)
  ultimately show ?case using Cons.IH [OF Cons.prems(1) u(2)] by auto
qed (simp add: ret_def)

lemma srem_all:
  "store_laws R \<Longrightarrow> for_each (\<lambda>k. so_srem R k n) ks s = (Inr (), s') \<Longrightarrow>
     so_members R s' k = so_members R s k - (if k \<in> set ks then {n} else {}) \<and> so_hash R s' = so_hash R s"
proof (induction ks arbitrary: s)
  case (Cons j ks)
  then obtain u where u: "so_srem R j n s = (Inr (), u)" "for_each (\<lambda>k. so_srem R k n) ks u = (Inr (), s')" by (auto simp: bindp_eq_Inr)
  moreover from u(1) Cons.prems(1) have "so_members R u = (so_members R s)(j := so_members R s j - {n})" "so_hash R u = so_hash R s"
    by (simp_all add: store_laws_def)
  ultimately show ?case using Cons.IH [OF Cons.prems(1) u(2)] by auto
qed (simp add: ret_def)

text \<open>
  A registered node is listed under exactly the indexes of its capabilities, next to the nodes that were there; and
  deregistering it with the same capabilities puts every index and every other record back to what it was.
\<close>

theorem registration_undone:
  assumes "store_laws R" "register_node R data n caps s = (Inr (), s1)" "deregister_node R n caps s1 = (Inr (), s2)"
    and "so_members R s (node_key n) = {}" "\<forall>k \<in> set (index_keys caps). n \<notin> so_members R s k"
  shows "so_members R s1 k = so_members R s k \<union> (if k \<in> set (index_keys caps) then {n} else {}) \<and>
    so_members R s2 k = so_members R s k \<and> so_hash R s2 k = (if k = node_key n then None else so_hash R s k)"
proof -
  from assms(2) obtain u where u: "so_hset R (node_key n) data s = (Inr (), u)" "for_each (\<lambda>k. so_sadd R k n) (index_keys caps) u = (Inr (), s1)"
    by (auto simp: register_node_def bindp_eq_Inr for_each_nested [where f = "\<lambda>k. so_sadd R k n"])
  from assms(3) obtain v where v: "so_delete R (node_key n) s1 = (Inr (), v)" "for_each (\<lambda>k. so_srem R k n) (index_keys caps) v = (Inr (), s2)"
    by (auto simp: deregister_node_def bindp_eq_Inr for_each_nested [where f = "\<lambda>k. so_srem R k n"])
  from u(1) assms(1) have hu: "so_members R u = so_members R s" "\<forall>j. j \<noteq> node_key n \<longrightarrow> so_hash R u j = so_hash R s j"
    by (auto simp: store_laws_def)
  from v(1) assms(1) have hv: "so_members R v = (so_members R s1)(node_key n := {})" "so_hash R v = (so_hash R s1)(node_key n := None)"
    by (simp_all add: store_laws_def)
  have s1: "so_members R s1 j = so_members R s j \<union> (if j \<in> set (index_keys caps) then {n} else {})" "so_hash R s1 = so_hash R u" for j
    using sadd_all [OF assms(1) u(2)] hu(1) by auto
  have s2: "so_members R s2 j = so_members R v j - (if j \<in> set (index_keys caps) then {n} else {})" "so_hash R s2 = so_hash R v" for j
    using srem_all [OF assms(1) v(2)] by auto
  show ?thesis using s1 s2 hu hv assms(4,5) index_not_node [of n caps] by auto
qed

section \<open>Examples\<close>

definition no_raise :: "string \<Rightarrow> nat \<Rightarrow> exc \<Rightarrow> bool" where
  "no_raise h t x = False"

definition busy_run :: "sv_action list" where
  "busy_run = [AddHandler ''global'', Create 0 None, Mount 1 ''bus'' None, End 0 (Raised (Exc ValueErr [])), BeginShutdown, Callback 0]"

definition busy :: supervisor where
  "busy = the (sv_run no_raise busy_run new_supervisor)"

lemma busy_reached: "sv_run no_raise busy_run new_supervisor = Some busy" "sv_pc busy = StoppingDaemons" "sv_tasks busy = [1]"
  by (simp_all add: busy_def busy_run_def new_supervisor_def add_error_handler_def create_task_def mount_daemon_def begin_shutdown_def
      on_done_def deliver_error_def Let_def no_raise_def)

theorem supervisor_exact_witness: "live busy 1 \<and> \<not> live busy 0"
  using supervisor_exact [OF busy_reached(1), of 1] supervisor_exact [OF busy_reached(1), of 0] busy_reached(3) by simp

theorem shutdown_completes_witness: "\<exists>bs s'. sv_run no_raise bs busy = Some s' \<and> sv_pc s' = Down \<and> sv_tasks s' = []"
  by (rule shutdown_completes [OF busy_reached(1)]) (simp add: busy_reached(2))

definition failing :: supervisor where
  "failing = new_supervisor\<lparr>sv_handlers := [''global''], sv_state := [0 \<mapsto> Ended (Raised (Exc ValueErr []))]\<rparr>"


definition plain_dispatcher :: dispatcher where
  "plain_dispatcher = \<lparr>dp_routes = [], dp_default = None, dp_executor = Some (\<lambda>p. fst (swarm_execute [] p [])), dp_actuator = None, dp_emitter = None,
     dp_broadcaster = None\<rparr>"

theorem swarm_runs_no_handler_witness:
  "snd (process_flow plain_dispatcher (\<lambda>_. Inr (PBool True)) (sample_psi ''SIGNAL'') []) = []"
  by (rule swarm_runs_no_handler) (simp add: plain_dispatcher_def)

theorem first_route_wins_witness: 
  "first_route [(\<lambda>_. Inr False, \<lambda>_. Inr PNone), (\<lambda>_. Inr True, \<lambda>_. Inr (PInt 1))] None (sample_psi ''SIGNAL'') = Inr (Some (\<lambda>_. Inr (PInt 1)))"
  using first_route_wins [of "[(\<lambda>_. Inr False, \<lambda>_. Inr PNone)]" "sample_psi ''SIGNAL''" "\<lambda>_. Inr True" "\<lambda>_. Inr (PInt 1)" "[]" None] by simp

definition accepting :: "pydict \<Rightarrow> execution_result" where
  "accepting d = \<lparr>xr_success = True, xr_output = PStr ''doc'', xr_error = None, xr_metrics = PNone, xr_edge_hash = PNone\<rparr>"

definition mixed_answer :: pydict where
  "mixed_answer = [(''is_authorized'', PBool True), (''all_residues'', PList [PDict [(''kind'', PStr ''ERROR'')]])]"

definition plain_carrier :: psi_carrier where
  "plain_carrier = \<lparr>pc_kind = PStr ''SIGNAL'', pc_tag = PStr ''t'', pc_payload = PNone, pc_type = Member FIXED, pc_field = Member LOCAL\<rparr>"

theorem judgment_exact_witness:
  "\<exists>j s'. process (one_document (PDict mixed_answer)) accepting plain_carrier (new_interpreter (bootstrap_anchor [])) = (Inr j, s') \<and>
     pj_action j = FIELD_MISMATCH \<and> pj_resonance j = PBool True \<and> in_phase s' = ''PHASE_ERROR''"
proof -
  have "p_loads (one_document (PDict mixed_answer)) ''doc'' = Some (PDict mixed_answer)" by (simp add: one_document_def)
  moreover have "residues_of mixed_answer = Inr [PDict [(''kind'', PStr ''ERROR'')]]" "dget_or mixed_answer ''is_authorized'' (PBool False) = PBool True"
    by (simp_all add: residues_of_def mixed_answer_def dget_or_def)
  moreover have "error_residue (PDict [(''kind'', PStr ''ERROR'')])" by (simp add: error_residue_def)
  ultimately show ?thesis
    using judgment_exact [of accepting "one_document (PDict mixed_answer)" "new_interpreter (bootstrap_anchor [])" plain_carrier "''doc''" mixed_answer
        "[PDict [(''kind'', PStr ''ERROR'')]]"]
    by (auto simp: accepting_def)
qed

definition one_key :: sensor_env where
  "one_key = \<lparr>se_prims = one_document PNone, se_scan = (\<lambda>_. (0, [''psi:k''])), se_match = (\<lambda>_. True), se_read = (\<lambda>_. Inr (TString ''v''))\<rparr>"

theorem sensor_never_signals_witness: "\<exists>r s'. sense one_key \<lparr>sn_keylist = [], sn_files = []\<rparr> = Some (r, s') \<and> isl r \<and> sn_keylist s' = []"
proof -
  have f: "fetch_loop (se_scan one_key) (se_match one_key) 0 [] = Some [''psi:k'']"
    by (subst fetch_loop.simps) (simp add: one_key_def)
  obtain x where "sense one_key \<lparr>sn_keylist = [], sn_files = []\<rparr> = Some x" by (simp add: sense_def f)
  then obtain r s' where "sense one_key \<lparr>sn_keylist = [], sn_files = []\<rparr> = Some (r, s')" by (cases x) simp
  from sensor_never_signals [OF this f] this show ?thesis by simp
qed

text \<open>A store of sets and hashes in memory.\<close>

type_synonym mem_store = "(string \<Rightarrow> string set) \<times> (string \<Rightarrow> pydict option)"

definition mem_ops :: "mem_store store_ops" where
  "mem_ops = \<lparr>so_hset = (\<lambda>k d s. (Inr (), (fst s, (snd s)(k \<mapsto> d)))), so_sadd = (\<lambda>k v s. (Inr (), ((fst s)(k := insert v (fst s k)), snd s))),
     so_srem = (\<lambda>k v s. (Inr (), ((fst s)(k := fst s k - {v}), snd s))), so_delete = (\<lambda>k s. (Inr (), ((fst s)(k := {}), (snd s)(k := None)))),
     so_members = fst, so_hash = snd\<rparr>"

lemma mem_laws: "store_laws mem_ops"
  by (simp add: store_laws_def mem_ops_def)

theorem registration_undone_witness:
  "\<exists>s1 s2. register_node mem_ops [] ''n'' [(''f'', [''a''], [''b''])] (\<lambda>_. {}, \<lambda>_. None) = (Inr (), s1) \<and>
     deregister_node mem_ops ''n'' [(''f'', [''a''], [''b''])] s1 = (Inr (), s2) \<and> fst s1 (requires_key ''a'') = {''n''} \<and> fst s2 (requires_key ''a'') = {}"
proof -
  let ?s = "(\<lambda>_. {}, \<lambda>_. None) :: mem_store" and ?c = "[(''f'', [''a''], [''b''])]"
  obtain s1 where s1: "register_node mem_ops [] ''n'' ?c ?s = (Inr (), s1)"
    by (simp add: register_node_def mem_ops_def bindp_def ret_def)
  obtain s2 where s2: "deregister_node mem_ops ''n'' ?c s1 = (Inr (), s2)"
    by (simp add: deregister_node_def mem_ops_def bindp_def ret_def)
  from registration_undone [OF mem_laws s1 s2, of "requires_key ''a''"]
  have "fst s1 (requires_key ''a'') = {''n''}" "fst s2 (requires_key ''a'') = {}" by (simp_all add: mem_ops_def index_keys_def)
  with s1 s2 show ?thesis by blast
qed

end
