(* ===== verification/Receptor.thy ===== *)
theory Receptor
  imports Prelude
begin

text \<open>
  The security monitors of a node: the audit hook that watches environment changes, subprocesses and connections and the
  auditor that encrypts the sensitive fields of an event (\<^verbatim>\<open>watcher/receptor/warden.py\<close>), and the kernel that filters
  tunnel payloads and judges signals (\<^verbatim>\<open>watcher/receptor/kernel.py\<close>). Arguments are the call stack, the cipher and float
  arithmetic. An audit event is given by the arguments the hook looks at; the log messages of the monitors are left out.
\<close>

section \<open>The warden\<close>

record frame =
  fr_file :: string
  fr_line :: int
  fr_name :: string

definition IGNORE_FILES :: "string list" where
  "IGNORE_FILES = [''socket.py'', ''ssl.py'', ''warden.py'', ''tracer.py'', ''http/client.py'', ''urllib'', ''asyncio'']"

definition AUTHORIZED_ENV_READERS :: "string list" where
  "AUTHORIZED_ENV_READERS = [''mesh/bound/secure/secret/manager.py'', ''mesh/model/config/resolver.py'', ''posixpath.py'', ''os.py'']"

definition last_n :: "nat \<Rightarrow> 'a list \<Rightarrow> 'a list" where
  "last_n n xs = drop (length xs - n) xs"

text \<open>The stack ends with the frame of the hook; the frame of the function itself counts towards its limit.\<close>

definition get_caller_origin :: "frame list \<Rightarrow> string" where
  "get_caller_origin stack =
     (case find (\<lambda>f. \<not> list_ex (contains (fr_file f)) IGNORE_FILES) (rev (last_n 19 stack)) of
        Some f \<Rightarrow> fr_file f @ '':'' @ show_int (fr_line f) @ '' (in '' @ fr_name f @ '')''
      | None \<Rightarrow> ''Unknown caller'')"

definition safe_path :: "string \<Rightarrow> string" where
  "safe_path p = map (\<lambda>c. if c = CHR 0x5C then CHR ''/'' else c) p"

definition is_authorized_env_reader :: "frame list \<Rightarrow> bool" where
  "is_authorized_env_reader stack = list_ex (\<lambda>f. list_ex (contains (safe_path (fr_file f))) AUTHORIZED_ENV_READERS) (last_n 14 stack)"

record warden =
  wd_policies :: "(string, string list) dict"
  wd_active :: bool
  wd_hooks :: nat
  wd_in_hook :: bool
  wd_records :: "(string \<times> string) list"

definition initial_policies :: "(string, string list) dict" where
  "initial_policies = [(''allowed_hosts'', [''nexus.next-phase.com'']), (''restricted_domains'', []), (''dangerous_cmds'', []),
     (''protected_env_keys'', [''CDP_'', ''AWS_'', ''AZURE_'', ''GITHUB_TOKEN'', ''CIRCLE_OIDC''])]"

definition policy :: "warden \<Rightarrow> string \<Rightarrow> string list" where
  "policy w k = dget_or (wd_policies w) k []"

definition inject_policies :: "(string, string list) dict \<Rightarrow> bool \<Rightarrow> warden \<Rightarrow> warden" where
  "inject_policies policies overwrite w =
     w\<lparr>wd_policies := map (\<lambda>(k, old). (k, case dget policies k of
         Some new \<Rightarrow> if overwrite then remdups new else old @ filter (\<lambda>x. x \<notin> set old) (remdups new)
       | None \<Rightarrow> old)) (wd_policies w)\<rparr>"

definition record_anomaly :: "string \<Rightarrow> string \<Rightarrow> warden \<Rightarrow> warden" where
  "record_anomaly action details w = w\<lparr>wd_records := wd_records w @ [(action, details)]\<rparr>"

datatype address = AddrTuple string "string option" | AddrStr string | AddrOther

text \<open>None: the event came without the arguments that are looked at.\<close>

datatype audit_event = EnvChange "string option" | Subprocess "string option" | Connect "address option" | UrlRequest "string option" | OtherEvent

fun resolve_host :: "address \<Rightarrow> string" where
  "resolve_host (AddrTuple h _) = h"
| "resolve_host (AddrStr h) = h"
| "resolve_host AddrOther = []"

fun port_of :: "address \<Rightarrow> string" where
  "port_of (AddrTuple h (Some p)) = p"
| "port_of a = ''Unknown''"

definition or_unknown :: "string option \<Rightarrow> string" where
  "or_unknown v = (case v of Some t \<Rightarrow> t | None \<Rightarrow> ''Unknown'')"

definition env_event :: "bool \<Rightarrow> frame list \<Rightarrow> string \<Rightarrow> (warden, unit) prog" where
  "env_event strict stack key w =
     (if list_ex (contains key) (policy w ''protected_env_keys'') \<and> \<not> is_authorized_env_reader stack
      then (let msg = ''Unauthorized mutation of protected Env var '' @ squote @ key @ squote @ '' by '' @ get_caller_origin stack
            in if strict then (Inl (Exc PermissionErr (''[Brane Warden] Mutation of protected env '' @ squote @ key @ squote @ '' is forbidden.'')),
                               record_anomaly ''env.block'' msg w)
               else (Inr (), record_anomaly ''env.alert'' msg w))
      else (Inr (), w))"

definition env_dump_cmds :: "string list" where
  "env_dump_cmds = [''env'', ''printenv'', ''export'', ''set'']"

definition process_event :: "bool \<Rightarrow> frame list \<Rightarrow> string \<Rightarrow> (warden, unit) prog" where
  "process_event strict stack cmd w =
     (let dump = list_ex (startswith (strip cmd)) env_dump_cmds;
          w1 = (if dump then record_anomaly ''os.env_dump_alert''
                  (''Potential Environment Dumping Attempt: '' @ squote @ cmd @ squote @ '' by '' @ get_caller_origin stack) w else w)
      in if dump \<and> strict then (Inl (Exc PermissionErr ''[Brane Warden] OS environment dumping via subprocess is strictly blocked.''), w1)
         else (Inr (), if list_ex (contains cmd) (policy w1 ''dangerous_cmds'')
                       then record_anomaly ''os.shell_escape_alert'' (''Subprocess execution detected: '' @ cmd) w1 else w1))"

definition connect_event :: "bool \<Rightarrow> frame list \<Rightarrow> address \<Rightarrow> (warden, unit) prog" where
  "connect_event strict stack addr w =
     (let host = resolve_host addr; dest = host @ '':'' @ port_of addr; origin = '' | Origin: '' @ get_caller_origin stack in
      if host \<in> set (policy w ''allowed_hosts'') then (Inr (), w)
      else if strict
      then (Inl (Exc PermissionErr (''[Brane Warden Air-Gap] Connection to '' @ dest @ '' is blocked.'')),
            record_anomaly ''egress.block'' (''Unauthorized external network call blocked: '' @ dest @ origin) w)
      else (let w1 = record_anomaly ''egress.audit'' (''Third-party external communication detected: '' @ dest @ origin) w
            in (Inr (), if list_ex (contains host) (policy w ''restricted_domains'')
                        then record_anomaly ''egress.alert'' (''Direct connection attempt to restricted domain ('' @ host @ '').'') w1 else w1)))"

definition url_event :: "string \<Rightarrow> (warden, unit) prog" where
  "url_event url w =
     (Inr (), if list_ex (\<lambda>h. startswith url (''http://'' @ h) \<or> startswith url (''https://'' @ h)) (policy w ''allowed_hosts'') then w
              else record_anomaly ''http.audit'' (''Outbound HTTP request detected: '' @ url) w)"

definition audit_hook :: "bool \<Rightarrow> frame list \<Rightarrow> audit_event \<Rightarrow> (warden, unit) prog" where
  "audit_hook strict stack ev w =
     (if wd_in_hook w then (Inr (), w)
      else let w1 = w\<lparr>wd_in_hook := True\<rparr> in
        case (case ev of
                EnvChange key \<Rightarrow> env_event strict stack (or_unknown key) w1
              | Subprocess cmd \<Rightarrow> process_event strict stack (or_unknown cmd) w1
              | Connect (Some addr) \<Rightarrow> connect_event strict stack addr w1
              | Connect None \<Rightarrow> (Inr (), w1)
              | UrlRequest url \<Rightarrow> url_event (or_unknown url) w1
              | OtherEvent \<Rightarrow> (Inr (), w1))
        of (r, w2) \<Rightarrow> (r, w2\<lparr>wd_in_hook := False\<rparr>))"

text \<open>The mode is read from an attribute that the configuration module does not define.\<close>

definition brane_airgap_mode :: "string res" where
  "brane_airgap_mode = Inl (Exc AttributeErr ''module has no attribute BRANE_AIRGAP_MODE'')"

definition install :: "(string, string list) dict \<Rightarrow> (warden, unit) prog" where
  "install policies w =
     (if wd_active w then (Inr (), w)
      else let w1 = (if policies \<noteq> [] then inject_policies policies True w else w);
               w2 = w1\<lparr>wd_hooks := wd_hooks w1 + 1, wd_active := True\<rparr>
           in case brane_airgap_mode of
                Inl _ \<Rightarrow> (Inl (Exc RuntimeErr ''Warden installation failed. Cannot guarantee system boundary.''), w2)
              | Inr m \<Rightarrow> (Inr (), record_anomaly ''system.warden_init''
                  (''Warden initialized in '' @ (if m = ''1'' then ''STRICT (AIR-GAPPED)'' else ''AUDIT (LOGGING)'') @ '' mode.'') w2))"

section \<open>The auditor\<close>

definition sensitive_keys :: "string list" where
  "sensitive_keys = [''email'', ''ip_address'', ''password'', ''token'', ''secret'']"

definition protect :: "prims \<Rightarrow> (string \<Rightarrow> string res) \<Rightarrow> string \<Rightarrow> pyval \<Rightarrow> pyval" where
  "protect P cipher key v =
     (if lower key \<in> set sensitive_keys \<and> truthy v
      then (case cipher (py_str P v) of Inr t \<Rightarrow> PStr t | Inl _ \<Rightarrow> PStr ''********'') else v)"

function encrypt_sensitive :: "prims \<Rightarrow> (string \<Rightarrow> string res) \<Rightarrow> pydict \<Rightarrow> pydict" where
  "encrypt_sensitive P cipher [] = []"
| "encrypt_sensitive P cipher ((key, v) # items) =
     (key, case v of PDict d \<Rightarrow> PDict (encrypt_sensitive P cipher d) | _ \<Rightarrow> protect P cipher key v) # encrypt_sensitive P cipher items"
  by pat_completeness auto

termination
  by (relation "measure (\<lambda>(P, cipher, d). size_list (size_prod (\<lambda>_. 0) size) d)") auto

record audit_response =
  ar_event_id :: string
  ar_proof :: "string option"
  ar_signature :: string

definition append_and_prove :: "prims \<Rightarrow> (string \<Rightarrow> string) \<Rightarrow> (string \<Rightarrow> string res) \<Rightarrow> pydict \<Rightarrow> bool \<Rightarrow> audit_response" where
  "append_and_prove P md5 cipher event needs_proof =
     (let event_hash = p_sha256 P (p_canon P (PDict (encrypt_sensitive P cipher event)))
      in \<lparr>ar_event_id = event_hash, ar_proof = (if needs_proof then Some (''proof_merkle_'' @ event_hash @ ''_'' @ md5 event_hash) else None),
          ar_signature = ''sig_topos_'' @ event_hash\<rparr>)"

section \<open>The kernel\<close>

record kernel =
  kn_structures :: "(string \<times> string list) list"
  kn_signatures :: "string list"
  kn_processed :: nat
  kn_window :: nat
  kn_buffer :: "(string, pyfloat list) dict"
  kn_last :: "(string, pyfloat) dict"
  kn_ruptures :: "(string \<times> string \<times> string option \<times> (string, pyfloat) dict) list"

text \<open>Whether a hash or intent is one of the signatures; a list or dictionary cannot be looked up in a set.\<close>

fun in_set :: "pyval \<Rightarrow> string list \<Rightarrow> bool res" where
  "in_set (PStr t) sigs = Inr (t \<in> set sigs)"
| "in_set (PList _) sigs = Inl (Exc TypeErr ''unhashable type: list'')"
| "in_set (PDict _) sigs = Inl (Exc TypeErr ''unhashable type: dict'')"
| "in_set v sigs = Inr False"

definition intercept :: "prims \<Rightarrow> string \<Rightarrow> (kernel, bool) prog" where
  "intercept P payload k =
     (case p_loads P payload of
        Some (PDict data) \<Rightarrow>
          (case bind_res (in_set (dget_or data ''intent'' (PStr [])) (kn_signatures k)) (\<lambda>b.
                  if b then Inr True else in_set (dget_or data ''hash'' (PStr [])) (kn_signatures k)) of
             Inl x \<Rightarrow> (Inl x, k)
           | Inr True \<Rightarrow> (Inr False, k\<lparr>kn_processed := kn_processed k + 1\<rparr>)
           | Inr False \<Rightarrow> (Inr True, k))
      | _ \<Rightarrow> (Inr True, k))"

definition sync_immune_memory :: "kernel \<Rightarrow> kernel" where
  "sync_immune_memory k = k\<lparr>kn_signatures := remdups ([''system_health_probe'', ''reload'', ''core_genesis''] @ map fst (kn_structures k))\<rparr>"

definition new_kernel :: "nat \<Rightarrow> (string \<times> string list) list \<Rightarrow> kernel" where
  "new_kernel window structures = sync_immune_memory
     \<lparr>kn_structures = structures, kn_signatures = [''core_genesis''], kn_processed = 0, kn_window = window, kn_buffer = [], kn_last = [], kn_ruptures = []\<rparr>"

definition reload_structures :: "(string \<times> string list) list \<Rightarrow> kernel \<Rightarrow> kernel" where
  "reload_structures structures k = sync_immune_memory (k\<lparr>kn_structures := structures\<rparr>)"

text \<open>The float arithmetic of the two lenses.\<close>

record lens_ops =
  lo_metric :: "string \<Rightarrow> pyfloat list \<Rightarrow> pyfloat"
  lo_mean :: "pyfloat list \<Rightarrow> pyfloat"
  lo_delta :: "pyfloat \<Rightarrow> pyfloat \<Rightarrow> pyfloat"
  lo_sub :: "pyfloat \<Rightarrow> pyfloat \<Rightarrow> pyfloat"
  lo_beyond :: "pyfloat \<Rightarrow> bool"
  lo_round4 :: "pyfloat \<Rightarrow> pyfloat"

definition tail_risk_preset :: "string list" where
  "tail_risk_preset = [''drawdown'', ''skewness'', ''volatility'', ''range'']"

definition tail_risk_scan :: "lens_ops \<Rightarrow> pyfloat list \<Rightarrow> (string, pyfloat) dict option" where
  "tail_risk_scan L values = (if length values < 3 then None else Some (map (\<lambda>n. (n, lo_metric L n values)) tail_risk_preset))"

definition codiff_scan :: "lens_ops \<Rightarrow> pyfloat list \<Rightarrow> pyfloat list \<Rightarrow> (bool \<times> (string, pyfloat) dict) option" where
  "codiff_scan L entity structure =
     (if entity = [] \<or> structure = [] then None
      else let e_start = hd entity; s_start = hd structure in
        if float_eq e_start (Fin 0) \<or> float_eq s_start (Fin 0) then None
        else let e_delta = lo_delta L e_start (last entity); s_delta = lo_delta L s_start (last structure); co_diff = lo_sub L e_delta s_delta
             in Some (lo_beyond L co_diff, [(''entity_delta'', lo_round4 L e_delta), (''structure_delta'', lo_round4 L s_delta), (''co_diff'', lo_round4 L co_diff)]))"

definition structure_for :: "string \<Rightarrow> kernel \<Rightarrow> (string \<times> string list) option" where
  "structure_for signal k = find (\<lambda>(n, members). signal \<in> set members) (kn_structures k)"

definition structure_center :: "lens_ops \<Rightarrow> string list \<Rightarrow> kernel \<Rightarrow> pyfloat option" where
  "structure_center L members k =
     (let active_vals = List.map_filter (dget (kn_last k)) members in if active_vals = [] then None else Some (lo_mean L active_vals))"

definition emit_rupture :: "string \<Rightarrow> string \<Rightarrow> string option \<Rightarrow> (string, pyfloat) dict \<Rightarrow> kernel \<Rightarrow> kernel" where
  "emit_rupture kind signal structure metrics k = k\<lparr>kn_ruptures := kn_ruptures k @ [(kind, signal, structure, metrics)]\<rparr>"

definition kinematic_rupture :: "(string, pyfloat) dict \<Rightarrow> string option" where
  "kinematic_rupture metrics =
     (if float_less (Fin (8 / 10)) (dget_or metrics ''trend'' (Fin 0)) then Some ''KINEMATIC_TENSION_HIGH''
      else if float_eq (dget_or metrics ''mean'' (Fin 1)) (Fin 0) \<and> float_eq (dget_or metrics ''volatility'' (Fin 1)) (Fin 0) then Some ''KINEMATIC_FLATLINE''
      else if float_less (Fin (5 / 100)) (dget_or metrics ''volatility'' (Fin 0)) \<or> float_eq (dget_or metrics ''volatility'' (Fin 0)) (Fin (5 / 100))
      then Some ''KINEMATIC_VOLATILITY'' else None)"

definition judge_kinematic :: "lens_ops \<Rightarrow> string \<Rightarrow> pyfloat list \<Rightarrow> kernel \<Rightarrow> kernel" where
  "judge_kinematic L signal buffer k =
     (case tail_risk_scan L buffer of
        Some metrics \<Rightarrow> (case kinematic_rupture metrics of Some kind \<Rightarrow> emit_rupture kind signal None metrics k | None \<Rightarrow> k)
      | None \<Rightarrow> k)"

definition judge_structure :: "lens_ops \<Rightarrow> string \<Rightarrow> pyfloat list \<Rightarrow> kernel \<Rightarrow> kernel" where
  "judge_structure L signal buffer k =
     (case structure_for signal k of
        None \<Rightarrow> k
      | Some (nm, members) \<Rightarrow>
          (case structure_center L members k of
             None \<Rightarrow> k
           | Some struct_val \<Rightarrow>
               (case codiff_scan L buffer [struct_val] of
                  Some (True, metrics) \<Rightarrow> emit_rupture ''CO_DIFF'' signal (Some nm) metrics k
                | _ \<Rightarrow> k)))"

definition ingest :: "lens_ops \<Rightarrow> string \<Rightarrow> pyfloat \<Rightarrow> kernel \<Rightarrow> kernel" where
  "ingest L signal v k =
     (let pushed = dget_or (kn_buffer k) signal [] @ [v];
          buffer = (if kn_window k < length pushed then tl pushed else pushed);
          k1 = k\<lparr>kn_last := dset signal v (kn_last k), kn_buffer := dset signal buffer (kn_buffer k)\<rparr>
      in if length buffer < kn_window k then k1 else judge_structure L signal buffer (judge_kinematic L signal buffer k1))"

text \<open>The loop over the messages of the mutation channel. Identifiers are texts; a message that is no such dictionary is passed over,
  and a value that is no number ends the loop with the exception.\<close>

definition message_of :: "prims \<Rightarrow> string \<Rightarrow> (string \<times> pyval) option" where
  "message_of P text_msg =
     (case p_loads P text_msg of
        Some (PDict d) \<Rightarrow>
          (case (dget_or d ''signal_id'' PNone, dget_or d ''value'' PNone) of
             (_, PNone) \<Rightarrow> None
           | (PStr (c # cs), v) \<Rightarrow> Some (c # cs, v)
           | _ \<Rightarrow> None)
      | _ \<Rightarrow> None)"

fun watch_mutations :: "prims \<Rightarrow> lens_ops \<Rightarrow> string list \<Rightarrow> (kernel, unit) prog" where
  "watch_mutations P L [] k = (Inr (), k)"
| "watch_mutations P L (m # ms) k =
     (case message_of P m of
        None \<Rightarrow> watch_mutations P L ms k
      | Some (signal, v) \<Rightarrow>
          (case py_float_of P v of
             Inl x \<Rightarrow> (Inl x, k)
           | Inr f \<Rightarrow> watch_mutations P L ms (ingest L signal f k)))"

section \<open>Connections\<close>

lemma anomaly_simps [simp]:
  "wd_policies (record_anomaly a d w) = wd_policies w" "wd_active (record_anomaly a d w) = wd_active w"
  "policy (record_anomaly a d w) = policy w" "wd_records (record_anomaly a d w) = wd_records w @ [(a, d)]"
  by (simp_all add: record_anomaly_def policy_def fun_eq_iff)

lemma policy_in_hook [simp]: "policy (w\<lparr>wd_in_hook := b\<rparr>) = policy w"
  by (simp add: policy_def fun_eq_iff)


text \<open>
  An HTTP request is never refused, and it is not even recorded if its text merely begins with the name of an allowed host.
\<close>

theorem lookalike_host_unrecorded:
  assumes "\<not> wd_in_hook w" "h \<in> set (policy w ''allowed_hosts'')"
  shows "audit_hook strict stack (UrlRequest (Some (''https://'' @ h @ rest))) w = (Inr (), w)"
proof -
  have "startswith (''https://'' @ h @ rest) (''https://'' @ h)" using startswith_append [of "''https://'' @ h" rest] by simp
  then have "list_ex (\<lambda>x. startswith (''https://'' @ h @ rest) (''http://'' @ x) \<or> startswith (''https://'' @ h @ rest) (''https://'' @ x)) (policy w ''allowed_hosts'')"
    using assms(2) by (auto simp: list_ex_iff)
  with assms(1) show ?thesis by (simp add: audit_hook_def url_event_def or_unknown_def)
qed

text \<open>
  Protected environment variables are not protected from a caller whose file name contains \<open>os.py\<close>: any frame near the
  top of the stack whose path contains that text authorises the change.
\<close>

theorem env_guard_by_file_name:
  assumes "f \<in> set (last_n 14 stack)" "fr_file f = dir @ ''os.py''" "CHR 0x5C \<notin> set dir" "\<not> wd_in_hook w"
  shows "audit_hook strict stack (EnvChange (Some key)) w = (Inr (), w)"
proof -
  have "safe_path (dir @ ''os.py'') = dir @ ''os.py''" using assms(3) by (induction dir) (auto simp: safe_path_def)
  then have "contains (safe_path (fr_file f)) ''os.py''" using contains_append [of dir "''os.py''" "[]"] by (simp add: assms(2))
  then have "is_authorized_env_reader stack"
    using assms(1) by (auto simp: is_authorized_env_reader_def list_ex_iff AUTHORIZED_ENV_READERS_def)
  with assms(4) show ?thesis by (simp add: audit_hook_def env_event_def or_unknown_def)
qed

text \<open>
  The first installation always raises, although the hook has been added and is active; a second one returns without a word.
\<close>

theorem install_raises_once:
  assumes "\<not> wd_active w" "install ps w = (r, w1)"
  shows "r = Inl (Exc RuntimeErr ''Warden installation failed. Cannot guarantee system boundary.'') \<and> wd_active w1 \<and> wd_hooks w1 = wd_hooks w + 1 \<and>
    install ps' w1 = (Inr (), w1)"
  using assms by (auto simp: install_def brane_airgap_mode_def inject_policies_def Let_def)

section \<open>Sensitive fields\<close>

text \<open>The entries of a dictionary and of the dictionaries in it, other than those that are dictionaries themselves.\<close>

inductive entry :: "pydict \<Rightarrow> string \<Rightarrow> pyval \<Rightarrow> bool" where
  here: "(k, v) \<in> set d \<Longrightarrow> \<not> is_dict v \<Longrightarrow> entry d k v"
| inside: "(j, PDict e) \<in> set d \<Longrightarrow> entry e k v \<Longrightarrow> entry d k v"

lemma entry_iff: "entry d k v \<longleftrightarrow> ((k, v) \<in> set d \<and> \<not> is_dict v) \<or> (\<exists>j e. (j, PDict e) \<in> set d \<and> entry e k v)"
  by (subst entry.simps) auto

lemma entry_Cons:
  "\<not> is_dict v \<Longrightarrow> entry ((k, v) # d) j x \<longleftrightarrow> j = k \<and> x = v \<or> entry d j x"
  "entry ((k, PDict e) # d) j x \<longleftrightarrow> entry e j x \<or> entry d j x"
  unfolding entry_iff [of "(k, v) # d"] entry_iff [of "(k, PDict e) # d"] entry_iff [of d] by auto

lemma no_entry [simp]: "\<not> entry [] k v"
  by (auto elim: entry.cases)

definition hidden :: "prims \<Rightarrow> (string \<Rightarrow> string res) \<Rightarrow> pyval \<Rightarrow> bool" where
  "hidden P cipher v \<longleftrightarrow> \<not> truthy v \<or> v = PStr ''********'' \<or> (\<exists>u t. cipher (py_str P u) = Inr t \<and> v = PStr t)"

lemma protect_hidden: "lower k \<in> set sensitive_keys \<Longrightarrow> hidden P cipher (protect P cipher k v)"
  by (auto simp: protect_def hidden_def split: sum.split)

lemma protect_not_dict: "\<not> is_dict v \<Longrightarrow> \<not> is_dict (protect P cipher k v)"
  by (auto simp: protect_def split: sum.split)

text \<open>
  Every entry under a sensitive name, in the event or in a dictionary nested in it at any depth, is encrypted or masked,
  and the event keeps its names in their order.
\<close>

theorem sensitive_entries_hidden:
  "(entry (encrypt_sensitive P cipher d) k v \<and> lower k \<in> set sensitive_keys \<longrightarrow> hidden P cipher v) \<and>
   dkeys (encrypt_sensitive P cipher d) = dkeys d"
proof (induction P cipher d arbitrary: k v rule: encrypt_sensitive.induct)
  case (2 P cipher key x items)
  then show ?case
    by (cases x) (auto simp: entry_Cons dkeys_def protect_not_dict protect_hidden)
qed (simp add: dkeys_def)

text \<open>
  What is in a list stays in clear, whatever its names are.
\<close>

theorem secrets_in_lists_kept:
  assumes "lower k \<notin> set sensitive_keys"
  shows "encrypt_sensitive P cipher [(k, PList xs)] = [(k, PList xs)]"
  using assms by (simp add: protect_def)

section \<open>The firewall\<close>

lemma intercept_dict:
  "p_loads P payload = Some (PDict d) \<Longrightarrow> intercept P payload k =
     (case in_set (dget_or d ''intent'' (PStr [])) (kn_signatures k) of
        Inl x \<Rightarrow> (Inl x, k)
      | Inr c \<Rightarrow> if c then (Inr False, k\<lparr>kn_processed := kn_processed k + 1\<rparr>)
                 else (case in_set (dget_or d ''hash'' (PStr [])) (kn_signatures k) of
                         Inl x \<Rightarrow> (Inl x, k)
                       | Inr c \<Rightarrow> if c then (Inr False, k\<lparr>kn_processed := kn_processed k + 1\<rparr>) else (Inr True, k)))"
  by (simp add: intercept_def split: sum.split bool.split)

lemma intercept_other: "(\<And>d. p_loads P payload \<noteq> Some (PDict d)) \<Longrightarrow> intercept P payload k = (Inr True, k)"
  by (auto simp: intercept_def split: option.split pyval.split)

lemma in_set_Inr: "in_set v sigs = Inr c \<Longrightarrow> c \<longleftrightarrow> (\<exists>t. v = PStr t \<and> t \<in> set sigs)"
  by (cases v) auto

text \<open>
  A payload passes exactly if it is a dictionary whose intent or hash is one of the signatures, and only then it is
  counted; after a reload the signatures are the three built-in ones and the names of the structures.
\<close>

theorem firewall_exact:
  assumes "intercept P payload (reload_structures structures k) = (Inr dropped, k')"
  shows "(\<not> dropped \<longleftrightarrow> (\<exists>d t. p_loads P payload = Some (PDict d) \<and>
      (dget_or d ''intent'' (PStr []) = PStr t \<or> dget_or d ''hash'' (PStr []) = PStr t) \<and>
      (t \<in> {''system_health_probe'', ''reload'', ''core_genesis''} \<or> t \<in> fst ` set structures))) \<and>
    kn_processed k' = kn_processed k + (if dropped then 0 else 1)"
proof -
  define q where "q = reload_structures structures k"
  have s: "t \<in> set (kn_signatures q) \<longleftrightarrow> t \<in> {''system_health_probe'', ''reload'', ''core_genesis''} \<or> t \<in> fst ` set structures" "kn_processed q = kn_processed k" for t
    by (simp_all add: q_def reload_structures_def sync_immune_memory_def del: remdups.simps)
  have h: "intercept P payload q = (Inr dropped, k')" using assms by (simp add: q_def)
  show ?thesis
  proof (cases "\<exists>d. p_loads P payload = Some (PDict d)")
    case True
    then obtain d where d: "p_loads P payload = Some (PDict d)" by blast
    have "(\<not> dropped \<longleftrightarrow> (\<exists>t. (dget_or d ''intent'' (PStr []) = PStr t \<or> dget_or d ''hash'' (PStr []) = PStr t) \<and> t \<in> set (kn_signatures q))) \<and>
      kn_processed k' = kn_processed q + (if dropped then 0 else 1)"
    proof (cases "in_set (dget_or d ''intent'' (PStr [])) (kn_signatures q)")
      case (Inr c)
      show ?thesis
      proof (cases c)
        case True
        then have "dropped = False" "k' = q\<lparr>kn_processed := kn_processed q + 1\<rparr>" using h Inr by (simp_all add: intercept_dict [OF d])
        then show ?thesis using in_set_Inr [OF Inr] True by auto
      next
        case False
        then obtain c' where c': "in_set (dget_or d ''hash'' (PStr [])) (kn_signatures q) = Inr c'"
          using h Inr by (cases "in_set (dget_or d ''hash'' (PStr [])) (kn_signatures q)") (simp_all add: intercept_dict [OF d])
        then have "dropped = (\<not> c')" "kn_processed k' = kn_processed q + (if dropped then 0 else 1)"
          using h Inr False by (simp_all add: intercept_dict [OF d] split: if_splits) auto
        then show ?thesis using in_set_Inr [OF Inr] in_set_Inr [OF c'] False by auto
      qed
    qed (use h in \<open>simp add: intercept_dict [OF d]\<close>)
    with d s show ?thesis by auto
  next
    case False
    with h s(2) intercept_other [of P payload q] show ?thesis by auto
  qed
qed

section \<open>Signals\<close>

lemma judge_simps [simp]:
  "kn_buffer (judge_kinematic L s b k) = kn_buffer k" "kn_window (judge_kinematic L s b k) = kn_window k"
  "kn_buffer (judge_structure L s b k) = kn_buffer k" "kn_window (judge_structure L s b k) = kn_window k"
  by (simp_all add: judge_kinematic_def judge_structure_def emit_rupture_def split: option.split bool.split)

lemma ingest_buffer:
  "dget (kn_buffer (ingest L signal v k)) s =
     (if s = signal then Some (let p = dget_or (kn_buffer k) signal [] @ [v] in if kn_window k < length p then tl p else p) else dget (kn_buffer k) s)"
  "kn_window (ingest L signal v k) = kn_window k"
  by (simp_all add: ingest_def Let_def)

definition kernel_ok :: "kernel \<Rightarrow> bool" where
  "kernel_ok k \<longleftrightarrow> (\<forall>s b. dget (kn_buffer k) s = Some b \<longrightarrow> length b \<le> kn_window k) \<and>
     (\<forall>r \<in> set (kn_ruptures k). fst r \<in> {''KINEMATIC_VOLATILITY'', ''CO_DIFF''})"

lemma tail_risk_kinds:
  assumes "tail_risk_scan L b = Some metrics" "kinematic_rupture metrics = Some kind"
  shows "kind = ''KINEMATIC_VOLATILITY''"
proof -
  have "dget_or metrics ''trend'' (Fin 0) = Fin 0" "dget_or metrics ''mean'' (Fin 1) = Fin 1"
    using assms(1) by (auto simp: tail_risk_scan_def tail_risk_preset_def dget_or_def split: if_splits)
  with assms(2) show ?thesis by (auto simp: kinematic_rupture_def float_eq_def split: if_splits)
qed

lemma judge_ruptures:
  "\<exists>rs. kn_ruptures (judge_kinematic L s b k) = kn_ruptures k @ rs \<and> (\<forall>r \<in> set rs. fst r = ''KINEMATIC_VOLATILITY'')"
  "\<exists>rs. kn_ruptures (judge_structure L s b k) = kn_ruptures k @ rs \<and> (\<forall>r \<in> set rs. fst r = ''CO_DIFF'')"
  by (simp_all add: judge_kinematic_def judge_structure_def emit_rupture_def tail_risk_kinds split: option.split bool.split)

lemma ingest_ruptures:
  assumes "\<forall>r \<in> set (kn_ruptures k). fst r \<in> {''KINEMATIC_VOLATILITY'', ''CO_DIFF''}"
  shows "\<forall>r \<in> set (kn_ruptures (ingest L signal v k)). fst r \<in> {''KINEMATIC_VOLATILITY'', ''CO_DIFF''}"
proof -
  have "\<forall>r \<in> set (kn_ruptures (judge_structure L signal b (judge_kinematic L signal b q))). fst r \<in> {''KINEMATIC_VOLATILITY'', ''CO_DIFF''}"
    if "kn_ruptures q = kn_ruptures k" for b q
  proof -
    obtain r1 where "kn_ruptures (judge_kinematic L signal b q) = kn_ruptures q @ r1" "\<forall>r \<in> set r1. fst r = ''KINEMATIC_VOLATILITY''"
      using judge_ruptures(1) by blast
    moreover obtain r2 where "kn_ruptures (judge_structure L signal b (judge_kinematic L signal b q)) = kn_ruptures (judge_kinematic L signal b q) @ r2"
      "\<forall>r \<in> set r2. fst r = ''CO_DIFF''"
      using judge_ruptures(2) by blast
    ultimately show ?thesis using assms that by auto
  qed
  moreover obtain q b where "kn_ruptures q = kn_ruptures k"
    "ingest L signal v k = q \<or> ingest L signal v k = judge_structure L signal b (judge_kinematic L signal b q)"
  proof
    let ?p = "dget_or (kn_buffer k) signal [] @ [v]"
    let ?b = "if kn_window k < length ?p then tl ?p else ?p"
    let ?q = "k\<lparr>kn_last := dset signal v (kn_last k), kn_buffer := dset signal ?b (kn_buffer k)\<rparr>"
    show "kn_ruptures ?q = kn_ruptures k" by simp
    show "ingest L signal v k = ?q \<or> ingest L signal v k = judge_structure L signal ?b (judge_kinematic L signal ?b ?q)"
      unfolding ingest_def Let_def by simp
  qed
  ultimately show ?thesis using assms by metis
qed

lemma ingest_ok: "kernel_ok k \<Longrightarrow> kernel_ok (ingest L signal v k)"
proof -
  assume k: "kernel_ok k"
  have "length b \<le> kn_window k" if "dget (kn_buffer (ingest L signal v k)) s = Some b" for s b
  proof (cases "s = signal")
    case True
    let ?p = "dget_or (kn_buffer k) signal [] @ [v]"
    have "length ?p \<le> kn_window k + 1" using k by (auto simp: kernel_ok_def dget_or_def split: option.split)
    with that True show ?thesis by (auto simp: ingest_buffer Let_def split: if_splits)
  qed (use that k in \<open>simp add: ingest_buffer kernel_ok_def\<close>)
  moreover have "\<forall>r \<in> set (kn_ruptures (ingest L signal v k)). fst r \<in> {''KINEMATIC_VOLATILITY'', ''CO_DIFF''}"
    by (rule ingest_ruptures) (use k in \<open>simp add: kernel_ok_def\<close>)
  ultimately show ?thesis by (simp add: kernel_ok_def ingest_buffer)
qed

lemma watch_ok: "kernel_ok k \<Longrightarrow> kernel_ok (snd (watch_mutations P L ms k))"
  by (induction P L ms k rule: watch_mutations.induct) (auto simp: ingest_ok split: option.split sum.split)

text \<open>
  Whatever arrives on the mutation channel, no signal keeps more values than the window holds; and of the ruptures
  the kernel can report only volatility and divergence ever are: the preset of its lens has no trend and no
  mean, so high tension and a flat line go unnoticed.
\<close>

theorem kernel_blind_spots:
  assumes "snd (watch_mutations P L ms (new_kernel window structures)) = k"
  shows "(dget (kn_buffer k) s = Some b \<longrightarrow> length b \<le> window) \<and>
    (r \<in> set (kn_ruptures k) \<longrightarrow> fst r \<noteq> ''KINEMATIC_TENSION_HIGH'' \<and> fst r \<noteq> ''KINEMATIC_FLATLINE'')"
proof -
  have "kernel_ok (new_kernel window structures)" by (simp add: kernel_ok_def new_kernel_def sync_immune_memory_def)
  from watch_ok [OF this, of P L ms] assms have k: "kernel_ok k" by simp
  have "kn_window (snd (watch_mutations P L ms q)) = kn_window q" for q
    by (induction P L ms q rule: watch_mutations.induct) (auto simp: ingest_buffer split: option.split sum.split)
  with assms have "kn_window k = window" by (auto simp: new_kernel_def sync_immune_memory_def)
  with k show ?thesis by (auto simp: kernel_ok_def)
qed

text \<open>
  The divergence of a signal from its structure does not depend on the structure: the reference window has a single point,
  so its own change is zero, and the signal is compared with its own past.
\<close>

theorem structure_never_counts:
  assumes "\<And>x. lo_delta L (Fin x) (Fin x) = Fin 0" "\<And>x. lo_sub L x (Fin 0) = x" "c \<noteq> 0" "entity \<noteq> []" "\<not> float_eq (hd entity) (Fin 0)"
  shows "codiff_scan L entity [Fin c] = Some (lo_beyond L (lo_delta L (hd entity) (last entity)),
     [(''entity_delta'', lo_round4 L (lo_delta L (hd entity) (last entity))), (''structure_delta'', lo_round4 L (Fin 0)),
      (''co_diff'', lo_round4 L (lo_delta L (hd entity) (last entity)))])"
  using assms by (simp add: codiff_scan_def Let_def float_eq_def)

text \<open>
  A single value that is no number ends the watch: the exception leaves the loop and no later message is looked at.
\<close>

theorem bad_value_ends_watch:
  assumes "message_of P m = Some (signal, v)" "py_float_of P v = Inl x" "watch_mutations P L before k = (Inr (), k1)"
  shows "watch_mutations P L (before @ m # after) k = (Inl x, k1)"
  using assms(3)
proof (induction before arbitrary: k)
  case (Cons a before)
  then show ?case by (auto split: option.splits sum.splits)
qed (use assms(1,2) in simp)

section \<open>Examples\<close>

definition fresh_warden :: warden where
  "fresh_warden = \<lparr>wd_policies = initial_policies, wd_active = False, wd_hooks = 0, wd_in_hook = False, wd_records = []\<rparr>"

lemma fresh_hosts: "policy fresh_warden ''allowed_hosts'' = [''nexus.next-phase.com'']" "\<not> wd_in_hook fresh_warden" "\<not> wd_active fresh_warden"
  by (simp_all add: policy_def fresh_warden_def initial_policies_def dget_or_def)


theorem lookalike_host_unrecorded_witness:
  "wd_records (snd (audit_hook True [] (UrlRequest (Some ''https://nexus.next-phase.com.example.org'')) fresh_warden)) = []"
  using lookalike_host_unrecorded [OF fresh_hosts(2), of "''nexus.next-phase.com''" True "[]" "''.example.org''"] fresh_hosts(1)
  by (simp add: fresh_warden_def)

theorem env_guard_by_file_name_witness:
  "fst (audit_hook True [\<lparr>fr_file = ''/app/macros.py'', fr_line = 1, fr_name = ''f''\<rparr>] (EnvChange (Some ''AWS_KEY'')) fresh_warden) = Inr ()"
  using env_guard_by_file_name [of "\<lparr>fr_file = ''/app/macros.py'', fr_line = 1, fr_name = ''f''\<rparr>" "[\<lparr>fr_file = ''/app/macros.py'', fr_line = 1, fr_name = ''f''\<rparr>]"
      "''/app/macr''" fresh_warden True "''AWS_KEY''"] fresh_hosts(2)
  by (simp add: last_n_def)

theorem install_raises_once_witness: "isl (fst (install [] fresh_warden)) \<and> install [] (snd (install [] fresh_warden)) = (Inr (), snd (install [] fresh_warden))"
  using install_raises_once [OF fresh_hosts(3) surjective_pairing, of "[]" "[]"] by simp

definition stars :: "string \<Rightarrow> string res" where
  "stars t = Inl (Exc ValueErr t)"

definition plain_prims :: prims where
  "plain_prims = \<lparr>p_sha256 = id, p_canon = (\<lambda>_. []), p_dumps = (\<lambda>_. []),
     p_loads = (\<lambda>t. Some (PDict [(''signal_id'', PStr ''s''), (''value'', PStr t), (''intent'', PStr t)])),
     p_float_of_int = (\<lambda>i. Fin (of_int i)), p_float_of_str = (\<lambda>s. if s = ''1'' then Inr (Fin 1) else Inl (Exc ValueErr s)), p_repr = (\<lambda>_. ''?'')\<rparr>"

theorem sensitive_entries_hidden_witness:
  "hidden plain_prims stars (PStr ''********'') \<and> entry (encrypt_sensitive plain_prims stars [(''user'', PDict [(''Password'', PStr ''p'')])]) ''Password'' (PStr ''********'')"
proof -
  have l: "lower ''Password'' = ''password''" by code_simp
  then have e: "entry (encrypt_sensitive plain_prims stars [(''user'', PDict [(''Password'', PStr ''p'')])]) ''Password'' (PStr ''********'')"
    by (simp add: entry_Cons protect_def sensitive_keys_def stars_def)
  then show ?thesis
    using sensitive_entries_hidden [of plain_prims stars "[(''user'', PDict [(''Password'', PStr ''p'')])]" "''Password''" "PStr ''********''"] l
    by (simp add: sensitive_keys_def)
qed

theorem secrets_in_lists_kept_witness:
  "encrypt_sensitive plain_prims stars [(''users'', PList [PDict [(''password'', PStr ''p'')]])] = [(''users'', PList [PDict [(''password'', PStr ''p'')]])]"
proof (rule secrets_in_lists_kept)
  have "lower ''users'' = ''users''" by code_simp
  then show "lower ''users'' \<notin> set sensitive_keys" by (simp add: sensitive_keys_def)
qed

theorem firewall_exact_witness:
  "fst (intercept plain_prims ''reload'' (reload_structures [] (new_kernel 3 []))) = Inr False"
proof -
  let ?k = "reload_structures [] (new_kernel 3 [])"
  have "\<exists>b k'. intercept plain_prims ''reload'' ?k = (Inr b, k')"
    by (auto simp: intercept_def plain_prims_def dget_or_def split: bool.split)
  then obtain b k' where h: "intercept plain_prims ''reload'' ?k = (Inr b, k')" by blast
  from firewall_exact [OF h] h show ?thesis by (auto simp: plain_prims_def dget_or_def)
qed

definition flat_lens :: lens_ops where
  "flat_lens = \<lparr>lo_metric = (\<lambda>_ _. Fin 0), lo_mean = hd, lo_delta = (\<lambda>a b. if a = b then Fin 0 else Fin 1), lo_sub = (\<lambda>a _. a), lo_beyond = (\<lambda>x. x = Fin 1),
     lo_round4 = id\<rparr>"

theorem kernel_blind_spots_witness:
  "\<forall>r. r \<in> set (kn_ruptures (snd (watch_mutations plain_prims flat_lens (replicate 9 ''1'') (new_kernel 3 [])))) \<longrightarrow> fst r \<noteq> ''KINEMATIC_FLATLINE''"
  using kernel_blind_spots [of plain_prims flat_lens "replicate 9 ''1''" 3 "[]"] by blast

theorem structure_never_counts_witness: "\<exists>m. codiff_scan flat_lens [Fin 1, Fin 1] [Fin 7] = Some (False, m)"
  using structure_never_counts [of flat_lens 7 "[Fin 1, Fin 1]"] by (simp add: flat_lens_def float_eq_def)

theorem bad_value_ends_watch_witness:
  "fst (watch_mutations plain_prims flat_lens [''1'', ''x'', ''1''] (new_kernel 3 [])) = Inl (Exc ValueErr ''x'')"
proof -
  have m: "message_of plain_prims ''x'' = Some (''s'', PStr ''x'')" "py_float_of plain_prims (PStr ''x'') = Inl (Exc ValueErr ''x'')"
    by (simp_all add: message_of_def plain_prims_def dget_or_def)
  have b: "watch_mutations plain_prims flat_lens [''1''] (new_kernel 3 []) = (Inr (), ingest flat_lens ''s'' (Fin 1) (new_kernel 3 []))"
    by (simp add: message_of_def plain_prims_def dget_or_def)
  from bad_value_ends_watch [OF m b, of "[''1'']"] show ?thesis by simp
qed

end
