(* ===== verification/Flow.thy ===== *)
theory Flow
  imports Events
begin

text \<open>
  Topological flows, \<^verbatim>\<open>state/topos/flow.py\<close>: the operators that scatter, judge, transform, align and merge flows, and the
  nodes that run them, some of which buffer flows between calls. The state that flows share is a dictionary in a store, so
  that the flows of a fan-out refer to the same one. The sign between the two parts of a transformed or resonated text
  is written as its three UTF-8 bytes.
\<close>

record phase_flow =
  pf_payload :: pyval
  pf_id :: string
  pf_aspect :: string
  pf_root :: string

definition new_flow :: "string \<Rightarrow> pyval \<Rightarrow> string option \<Rightarrow> string option \<Rightarrow> string option \<Rightarrow> phase_flow" where
  "new_flow uuid payload i aspect rt =
     (let own = (case i of Some (c # cs) \<Rightarrow> c # cs | _ \<Rightarrow> uuid)
      in \<lparr>pf_payload = payload, pf_id = own, pf_aspect = (case aspect of Some (c # cs) \<Rightarrow> c # cs | _ \<Rightarrow> ''default''),
          pf_root = (case rt of Some (c # cs) \<Rightarrow> c # cs | _ \<Rightarrow> own)\<rparr>)"

text \<open>A flow with the shared state it refers to.\<close>

record flow_state =
  fs_flow :: phase_flow
  fs_state :: nat

type_synonym states = "nat \<Rightarrow> pydict"

section \<open>Operators\<close>

definition oplus :: string where
  "oplus = [CHR 0xE2, CHR 0x8A, CHR 0x95]"

definition scatter :: "phase_flow \<Rightarrow> string list \<Rightarrow> phase_flow list" where
  "scatter f aspects = map (\<lambda>a. new_flow [] (pf_payload f) (Some (pf_id f @ ''_'' @ a)) (Some a) None) aspects"

definition need :: "pydict \<Rightarrow> string \<Rightarrow> pyval res" where
  "need d k = (case dget d k of Some v \<Rightarrow> Inr v | None \<Rightarrow> Inl (Exc KeyErr k))"

text \<open>Whether a rule applies: its condition is a dictionary with an aspect or a text the payload contains.\<close>

definition rule_matches :: "prims \<Rightarrow> phase_flow \<Rightarrow> pydict \<Rightarrow> bool res" where
  "rule_matches P f rule =
     bind_res (need rule ''if'') (\<lambda>c. bind_res (as_dict c) (\<lambda>cond.
       if dget cond ''aspect'' = Some (PStr (pf_aspect f)) then Inr True
       else case dget cond ''contains'' of
         None \<Rightarrow> Inr False
       | Some (PStr t) \<Rightarrow> Inr (contains (py_str P (pf_payload f)) t)
       | Some _ \<Rightarrow> Inl (Exc TypeErr ''in <string> requires string as left operand'')))"

fun judge_rules :: "prims \<Rightarrow> phase_flow \<Rightarrow> pydict list \<Rightarrow> pyval option res" where
  "judge_rules P f [] = Inr None"
| "judge_rules P f (rule # rules) =
     bind_res (rule_matches P f rule) (\<lambda>b. if b then bind_res (need rule ''next'') (\<lambda>v. Inr (Some v)) else judge_rules P f rules)"

definition judge :: "prims \<Rightarrow> phase_flow \<Rightarrow> pydict list \<Rightarrow> pyval res" where
  "judge P f rules =
     bind_res (judge_rules P f rules) (\<lambda>hit.
       case hit of
         Some v \<Rightarrow> Inr v
       | None \<Rightarrow> if rules = [] then Inl (Exc IndexErr ''list index out of range'') else need (last rules) ''next'')"

definition transduce :: "prims \<Rightarrow> phase_flow \<Rightarrow> string \<Rightarrow> pydict \<Rightarrow> phase_flow" where
  "transduce P f role context =
     new_flow [] (PStr (''Result('' @ py_str P (pf_payload f) @ '' '' @ oplus @ '' '' @ py_str P (dget_or context ''instruction'' (PStr [])) @ '')''))
       (Some (pf_id f)) (Some (''transduced_'' @ role)) (Some (pf_root f))"

definition align :: "phase_flow \<Rightarrow> pydict \<Rightarrow> pydict" where
  "align f d = dset (pf_id f) (pf_payload f) d"

definition interfere :: "prims \<Rightarrow> pyval \<Rightarrow> pyval \<Rightarrow> string" where
  "interfere P a b = ''[Resonance] '' @ py_str P a @ '' '' @ oplus @ '' '' @ py_str P b"

definition merge_flows :: "phase_flow list \<Rightarrow> string \<Rightarrow> phase_flow" where
  "merge_flows flows rt = new_flow [] (PDict (dmerge [] (map (\<lambda>f. (pf_aspect f, pf_payload f)) flows))) (Some rt) (Some ''merged'') (Some rt)"

section \<open>Nodes\<close>

text \<open>What a node returns: the names of the next nodes with the flows for them.\<close>

type_synonym routed = "(string \<times> flow_state) list"

record trans_ator =
  ta_role :: string
  ta_next :: string
  ta_context :: pydict

fun inject :: "pydict \<Rightarrow> pyval list \<Rightarrow> pydict res" where
  "inject st [] = Inr []"
| "inject st (PStr k # ks) = bind_res (inject st ks) (\<lambda>d. Inr ((k, dget_or st k PNone) # d))"
| "inject st (_ # ks) = Inl (Exc TypeErr ''key is not a text'')"

definition trans_payload :: "trans_ator \<Rightarrow> pydict \<Rightarrow> pyval \<Rightarrow> pyval" where
  "trans_payload a injected raw =
     PDict [(''raw_input'', raw), (''instructions'', dget_or (ta_context a) ''instruction'' PNone), (''injected_state'', PDict (dmerge [] injected)),
       (''hyperparams'', PDict [(''temperature'', dget_or (ta_context a) ''temperature'' (PFloat (Fin (7 / 10))))])]"

definition trans_run :: "prims \<Rightarrow> trans_ator \<Rightarrow> flow_state \<Rightarrow> (states, routed) prog" where
  "trans_run P a ctx h =
     (case bind_res (iter_val (dget_or (ta_context a) ''inject_state'' (PList []))) (inject (h (fs_state ctx))) of
        Inl x \<Rightarrow> (Inl x, h)
      | Inr injected \<Rightarrow>
          (let f = (fs_flow ctx)\<lparr>pf_payload := trans_payload a injected (pf_payload (fs_flow ctx))\<rparr>
           in (Inr [(ta_next a, ctx\<lparr>fs_flow := transduce P f (ta_role a) (ta_context a)\<rparr>)], h)))"

text \<open>The aligner passes its own specification to the operator as the state.\<close>

record align_ator =
  al_next :: pyval
  al_spec :: pydict

definition align_run :: "flow_state \<Rightarrow> align_ator \<times> states \<Rightarrow> (pyval \<times> flow_state) list res \<times> (align_ator \<times> states)" where
  "align_run ctx s =
     (case s of (a, h) \<Rightarrow>
       (let result = align (fs_flow ctx) (al_spec a); a1 = a\<lparr>al_spec := result\<rparr> in
        case as_dict (dget_or result ''state'' (PDict [])) of
          Inl x \<Rightarrow> (Inl x, (a1, h))
        | Inr upd \<Rightarrow>
            (let h' = h(fs_state ctx := dmerge (h (fs_state ctx)) upd);
                 f = (fs_flow ctx)\<lparr>pf_payload := dget_or result ''payload'' (pf_payload (fs_flow ctx))\<rparr>;
                 nxt = dget_or result ''next'' (al_next a)
             in (Inr [(nxt, ctx\<lparr>fs_flow := f\<rparr>)], (a1\<lparr>al_next := nxt\<rparr>, h')))))"

definition dispersion_run :: "string list \<Rightarrow> string \<Rightarrow> flow_state \<Rightarrow> routed" where
  "dispersion_run aspects nxt ctx = map (\<lambda>f. (nxt, \<lparr>fs_flow = f, fs_state = fs_state ctx\<rparr>)) (scatter (fs_flow ctx) aspects)"

record gather_ator =
  ga_next :: string
  ga_buffer :: "(string, phase_flow list) dict"
  ga_expected :: nat

definition gather_run :: "flow_state \<Rightarrow> gather_ator \<Rightarrow> routed \<times> gather_ator" where
  "gather_run ctx g =
     (let rt = pf_root (fs_flow ctx); slot = dget_or (ga_buffer g) rt [] @ [fs_flow ctx]
      in if length slot < ga_expected g then ([], g\<lparr>ga_buffer := dset rt slot (ga_buffer g)\<rparr>)
         else ([(ga_next g, ctx\<lparr>fs_flow := merge_flows slot rt\<rparr>)], g\<lparr>ga_buffer := ddel rt (ga_buffer g)\<rparr>))"

record resonance_ator =
  re_next :: string
  re_buffer :: "(string, pydict) dict"

definition resonance_run :: "prims \<Rightarrow> flow_state \<Rightarrow> resonance_ator \<Rightarrow> routed \<times> resonance_ator" where
  "resonance_run P ctx r =
     (let f = fs_flow ctx; rt = pf_root f; slot = dset (pf_aspect f) (pf_payload f) (dget_or (re_buffer r) rt [])
      in case (dget slot ''code'', dget slot ''logic'') of
           (Some a, Some b) \<Rightarrow>
             ([(re_next r, ctx\<lparr>fs_flow := new_flow [] (PStr (interfere P a b)) (Some rt) (Some ''resonated'') (Some rt)\<rparr>)], r\<lparr>re_buffer := ddel rt (re_buffer r)\<rparr>)
         | _ \<Rightarrow> ([], r\<lparr>re_buffer := dset rt slot (re_buffer r)\<rparr>))"

text \<open>The judgment and resonance nodes look up their operator in the registry when they are built.\<close>

definition new_judgment :: "(string \<Rightarrow> pydict \<Rightarrow> 'c res) \<Rightarrow> pydict \<Rightarrow> registry \<Rightarrow> (pyval \<times> 'c) res" where
  "new_judgment build spec reg =
     bind_res (need spec ''rules'') (\<lambda>rules.
     bind_res (create_component build [(''type'', dget_or spec ''operator'' (PStr ''default_judgment''))] [] reg) (\<lambda>op. Inr (rules, op)))"

definition new_resonance :: "(string \<Rightarrow> pydict \<Rightarrow> 'c res) \<Rightarrow> pydict \<Rightarrow> registry \<Rightarrow> (pyval \<times> 'c) res" where
  "new_resonance build spec reg =
     bind_res (need spec ''next'') (\<lambda>nxt.
     bind_res (create_component build [(''type'', dget_or spec ''operator'' (PStr ''default_resonance''))] [] reg) (\<lambda>op. Inr (nxt, op)))"

text \<open>The components this module registers.\<close>

definition flow_registry :: registry where
  "flow_registry = fold (\<lambda>(nm, cls). register_component nm cls ''phase_node'')
     [(''ator'', ''TransAtor''), (''aligner'', ''AlignAtor''), (''judgment'', ''JudgmentAtor''), (''dispersion'', ''DispersionAtor''),
      (''gather'', ''GatherAtor''), (''resonance'', ''ResonanceAtor'')] \<lparr>rg_ators = [], rg_daemons = [], rg_roles = [], rg_tasks = []\<rparr>"

section \<open>Fan-out and fan-in\<close>

fun gather_all :: "flow_state list \<Rightarrow> gather_ator \<Rightarrow> routed \<times> gather_ator" where
  "gather_all [] g = ([], g)"
| "gather_all (c # cs) g = (case gather_run c g of (rs, g') \<Rightarrow> case gather_all cs g' of (rs', g'') \<Rightarrow> (rs @ rs', g''))"

lemma gather_alone:
  assumes "distinct (map (\<lambda>c. pf_root (fs_flow c)) cs)" "\<And>c. c \<in> set cs \<Longrightarrow> dget (ga_buffer g) (pf_root (fs_flow c)) = None" "2 \<le> ga_expected g"
  shows "fst (gather_all cs g) = []"
  using assms
proof (induction cs arbitrary: g)
  case (Cons c cs)
  have g: "gather_run c g = ([], g\<lparr>ga_buffer := dset (pf_root (fs_flow c)) [fs_flow c] (ga_buffer g)\<rparr>)"
    using Cons.prems(2) [of c] Cons.prems(3) by (simp add: gather_run_def Let_def dget_or_def)
  have "fst (gather_all cs (g\<lparr>ga_buffer := dset (pf_root (fs_flow c)) [fs_flow c] (ga_buffer g)\<rparr>)) = []"
    using Cons.prems by (intro Cons.IH) (auto simp: image_iff)
  then show ?case by (simp add: g split: prod.split)
qed simp

lemma scatter_roots: "map pf_root (scatter f as) = map (\<lambda>a. pf_id f @ ''_'' @ a) as"
  by (auto simp: scatter_def new_flow_def Let_def split: list.split)

text \<open>
  The parts of a scattered flow are never gathered again: each part is its own root, so a gathering node that
  expects two or more of them waits for ever, whatever was scattered and however many parts arrive.
\<close>

theorem scattered_never_gathered:
  assumes "distinct aspects" "2 \<le> ga_expected g" "ga_buffer g = []"
  shows "fst (gather_all (map snd (dispersion_run aspects nxt ctx)) g) = []"
proof -
  have m: "map (\<lambda>c. pf_root (fs_flow c)) (map snd (dispersion_run aspects nxt ctx)) = map pf_root (scatter (fs_flow ctx) aspects)"
    by (simp add: dispersion_run_def)
  show ?thesis
    by (rule gather_alone) (use assms in \<open>simp_all only: m scatter_roots\<close>, simp_all add: distinct_map inj_on_def)
qed

lemma gather_fill:
  assumes "\<And>c. c \<in> set cs \<Longrightarrow> pf_root (fs_flow c) = rt" "dget_or (ga_buffer g) rt [] = slot" "length slot + length cs < ga_expected g"
  shows "\<exists>g'. gather_all cs g = ([], g') \<and> dget_or (ga_buffer g') rt [] = slot @ map fs_flow cs \<and> ga_expected g' = ga_expected g \<and> ga_next g' = ga_next g \<and>
    (\<forall>k. k \<noteq> rt \<longrightarrow> dget (ga_buffer g') k = dget (ga_buffer g) k)"
  using assms
proof (induction cs arbitrary: g slot)
  case (Cons c cs)
  let ?g = "g\<lparr>ga_buffer := dset rt (slot @ [fs_flow c]) (ga_buffer g)\<rparr>"
  have "gather_run c g = ([], ?g)" using Cons.prems(1) [of c] Cons.prems(2,3) by (simp add: gather_run_def Let_def)
  moreover have "\<exists>g'. gather_all cs ?g = ([], g') \<and> dget_or (ga_buffer g') rt [] = (slot @ [fs_flow c]) @ map fs_flow cs \<and> ga_expected g' = ga_expected ?g \<and>
      ga_next g' = ga_next ?g \<and> (\<forall>k. k \<noteq> rt \<longrightarrow> dget (ga_buffer g') k = dget (ga_buffer ?g) k)"
    using Cons.prems by (intro Cons.IH) (auto simp: dget_or_def)
  ultimately show ?case by auto
qed simp

text \<open>
  Flows that do share a root are gathered exactly when the expected number has arrived: nothing leaves the node before,
  then one flow leaves that holds under each aspect the payload that came last for it, and the buffer is as it was.
\<close>

theorem gather_merges:
  assumes "\<forall>c' \<in> set (c # cs). pf_root (fs_flow c') = rt" "rt \<noteq> []" "dget (ga_buffer g) rt = None" "ga_expected g = length (c # cs)"
  shows "\<exists>g'. gather_all (cs @ [c]) g = ([(ga_next g, c\<lparr>fs_flow := merge_flows (map fs_flow (cs @ [c])) rt\<rparr>)], g') \<and>
    (\<forall>k. dget (ga_buffer g') k = dget (ga_buffer g) k) \<and> pf_root (merge_flows (map fs_flow (cs @ [c])) rt) = rt \<and>
    (\<exists>d. pf_payload (merge_flows (map fs_flow (cs @ [c])) rt) = PDict d \<and>
       (\<forall>a. dget d a = dget (rev (map (\<lambda>c. (pf_aspect (fs_flow c), pf_payload (fs_flow c))) (cs @ [c]))) a))"
proof -
  obtain g' where g': "gather_all cs g = ([], g')" "dget_or (ga_buffer g') rt [] = map fs_flow cs" "ga_expected g' = ga_expected g" "ga_next g' = ga_next g"
    "\<forall>k. k \<noteq> rt \<longrightarrow> dget (ga_buffer g') k = dget (ga_buffer g) k"
    using gather_fill [of cs rt g "[]"] assms by (auto simp: dget_or_def)
  have app: "gather_all (xs @ ys) h = (case gather_all xs h of (rs, h') \<Rightarrow> case gather_all ys h' of (rs', h'') \<Rightarrow> (rs @ rs', h''))" for xs ys h
    by (induction xs arbitrary: h) (auto split: prod.split)
  have "gather_run c g' = ([(ga_next g, c\<lparr>fs_flow := merge_flows (map fs_flow (cs @ [c])) rt\<rparr>)], g'\<lparr>ga_buffer := ddel rt (ga_buffer g')\<rparr>)"
    using assms(1,4) g'(2-4) by (simp add: gather_run_def Let_def)
  then have "gather_all (cs @ [c]) g = ([(ga_next g, c\<lparr>fs_flow := merge_flows (map fs_flow (cs @ [c])) rt\<rparr>)], g'\<lparr>ga_buffer := ddel rt (ga_buffer g')\<rparr>)"
    by (simp add: app g'(1))
  moreover have "dget (ga_buffer (g'\<lparr>ga_buffer := ddel rt (ga_buffer g')\<rparr>)) k = dget (ga_buffer g) k" for k using g'(5) assms(3) by simp
  moreover have "pf_root (merge_flows (map fs_flow (cs @ [c])) rt) = rt"
    using assms(2) by (auto simp: merge_flows_def new_flow_def Let_def split: list.split)
  moreover have "\<exists>d. pf_payload (merge_flows (map fs_flow (cs @ [c])) rt) = PDict d \<and>
       (\<forall>a. dget d a = dget (rev (map (\<lambda>c. (pf_aspect (fs_flow c), pf_payload (fs_flow c))) (cs @ [c]))) a)"
    by (simp add: merge_flows_def new_flow_def Let_def dget_dmerge comp_def split: option.split)
  ultimately show ?thesis by blast
qed

section \<open>Alignment\<close>

text \<open>
  An aligning node does not align the shared state: the payload is written into the specification of the node, and the state of
  the flow stays as it is, unless the specification has a state of its own or the flow is named like one of its entries.
\<close>

theorem align_misses_state:
  assumes "dget (al_spec a) ''state'' = None" "dget (al_spec a) ''payload'' = None" "dget (al_spec a) ''next'' = Some (al_next a)"
    and "pf_id (fs_flow ctx) \<notin> {''state'', ''payload'', ''next''}"
  shows "\<exists>a'. align_run ctx (a, h) = (Inr [(al_next a, ctx)], (a', h)) \<and> dget (al_spec a') (pf_id (fs_flow ctx)) = Some (pf_payload (fs_flow ctx))"
proof -
  have "dmerge d [] = d" for d :: pydict by (simp add: dmerge_def)
  moreover have "fs_flow ctx\<lparr>pf_payload := pf_payload (fs_flow ctx)\<rparr> = fs_flow ctx" "ctx\<lparr>fs_flow := fs_flow ctx\<rparr> = ctx" by simp_all
  ultimately show ?thesis using assms by (auto simp: align_run_def align_def Let_def dget_or_def)
qed

section \<open>Judgment\<close>

lemma judge_rules_skip: "(\<And>r. r \<in> set rs \<Longrightarrow> rule_matches P f r = Inr False) \<Longrightarrow> judge_rules P f (rs @ rest) = judge_rules P f rest"
  by (induction rs) auto

text \<open>
  A flow is routed by the first rule that matches it, and by the last rule if none does.
\<close>

theorem first_rule_decides:
  assumes "\<And>r. r \<in> set before \<Longrightarrow> rule_matches P f r = Inr False" "rule_matches P f rule = Inr True" "dget rule ''next'' = Some v"
  shows "judge P f (before @ rule # after) = Inr v \<and> (before \<noteq> [] \<longrightarrow> judge P f before = need (last before) ''next'')"
  using judge_rules_skip [of before P f "rule # after"] judge_rules_skip [of before P f "[]"] assms by (simp add: judge_def need_def)

text \<open>
  With the components of this module, a judgment or resonance node that names no operator cannot be built: the default operator is
  registered nowhere.
\<close>

theorem default_operators_missing:
  assumes "dget spec ''operator'' = None" "dhas spec ''rules''" "dhas spec ''next''"
  shows "(\<exists>m. new_judgment build spec flow_registry = Inl (Exc ValueErr m)) \<and> (\<exists>m. new_resonance build' spec flow_registry = Inl (Exc ValueErr m))"
proof -
  have "dget (rg_ators flow_registry) (lower ''default_judgment'') = None" "dget (rg_daemons flow_registry) (lower ''default_judgment'') = None"
    "dget (rg_ators flow_registry) (lower ''default_resonance'') = None" "dget (rg_daemons flow_registry) (lower ''default_resonance'') = None"
    by code_simp+
  with assms show ?thesis
    by (auto simp: new_judgment_def new_resonance_def need_def dhas_def create_component_def dget_or_def find_component_def Let_def)
qed

section \<open>Examples\<close>

definition sample_flow :: "string \<Rightarrow> string \<Rightarrow> flow_state" where
  "sample_flow aspect rt = \<lparr>fs_flow = new_flow ''u'' (PStr aspect) (Some (''f'' @ aspect)) (Some aspect) (Some rt), fs_state = 0\<rparr>"

definition pair_gather :: gather_ator where
  "pair_gather = \<lparr>ga_next = ''n'', ga_buffer = [], ga_expected = 2\<rparr>"

theorem scattered_never_gathered_witness:
  "fst (gather_all (map snd (dispersion_run [''tech'', ''market''] ''g'' (sample_flow ''x'' ''r''))) pair_gather) = []"
  by (rule scattered_never_gathered) (simp_all add: pair_gather_def)

theorem gather_merges_witness: "length (fst (gather_all [sample_flow ''a'' ''r'', sample_flow ''b'' ''r''] pair_gather)) = 1"
  using gather_merges [of "sample_flow ''b'' ''r''" "[sample_flow ''a'' ''r'']" "''r''" pair_gather]
  by (auto simp: sample_flow_def new_flow_def pair_gather_def)

theorem align_misses_state_witness:
  "snd (snd (align_run (sample_flow ''a'' ''r'') (\<lparr>al_next = PStr ''n'', al_spec = [(''next'', PStr ''n'')]\<rparr>, \<lambda>_. []))) = (\<lambda>_. [])"
  using align_misses_state [of "\<lparr>al_next = PStr ''n'', al_spec = [(''next'', PStr ''n'')]\<rparr>" "sample_flow ''a'' ''r''" "\<lambda>_. []"]
  by (auto simp: sample_flow_def new_flow_def)

definition flow_prims :: prims where
  "flow_prims = \<lparr>p_sha256 = id, p_canon = (\<lambda>_. []), p_dumps = (\<lambda>_. []), p_loads = (\<lambda>_. None),
     p_float_of_int = (\<lambda>i. Fin (of_int i)), p_float_of_str = (\<lambda>s. Inl (Exc ValueErr s)), p_repr = (\<lambda>_. ''?'')\<rparr>"

theorem first_rule_decides_witness:
  "judge flow_prims (fs_flow (sample_flow ''a'' ''r'')) [[(''if'', PDict []), (''next'', PStr ''x'')], [(''if'', PDict [(''aspect'', PStr ''a'')]), (''next'', PStr ''y'')]] = Inr (PStr ''y'')"
  using first_rule_decides [of "[[(''if'', PDict []), (''next'', PStr ''x'')]]" flow_prims "fs_flow (sample_flow ''a'' ''r'')"
      "[(''if'', PDict [(''aspect'', PStr ''a'')]), (''next'', PStr ''y'')]" "PStr ''y''" "[]"]
  by (simp add: rule_matches_def need_def sample_flow_def new_flow_def)

theorem default_operators_missing_witness:
  "\<exists>m. new_judgment (\<lambda>c d. Inr ()) [(''rules'', PList []), (''next'', PStr ''n'')] flow_registry = Inl (Exc ValueErr m)"
  using default_operators_missing [of "[(''rules'', PList []), (''next'', PStr ''n'')]" "\<lambda>c d. Inr ()" "\<lambda>c d. Inr ()"] by (simp add: dhas_def)

end
