(* ===== verification/TextUtil.thy ===== *)
theory TextUtil
  imports Prelude
begin

text \<open>
  The utilities of \<^verbatim>\<open>arch/xor/parser/mark.py\<close>: clipping a long text with a notice, and the list functions. A generator is the
  list of what it yields; one that may go on for ever is an option, and None means that it does. Files are a dictionary
  from paths to contents, and whether a write succeeds is an argument.
\<close>

section \<open>Clipping\<close>

definition DEFAULT_TRUNCATE_NOTICE :: string where
  "DEFAULT_TRUNCATE_NOTICE = ''<response clipped><NOTE>Due to the max output limit, only part of the full response has been shown to you.</NOTE>''"

definition persist_notice :: "string \<Rightarrow> nat \<Rightarrow> string" where
  "persist_notice path line = ''<response clipped><NOTE>Due to the max output limit, only part of the full response has been shown to you. '' @
     ''The complete output has been saved to '' @ path @ '' - you can use other tools to view the full content (truncated part starts around line '' @
     show_nat line @ '').</NOTE>''"

definition line_ends :: string where
  "line_ends = [CHR 0x0A, CHR 0x0B, CHR 0x0C, CHR 0x0D, CHR 0x1C, CHR 0x1D, CHR 0x1E]"

text \<open>\<open>len(s.splitlines())\<close>: a carriage return with its line feed is one end, and a last line needs no end.\<close>

fun count_lines :: "string \<Rightarrow> nat" where
  "count_lines [] = 0"
| "count_lines [c] = 1"
| "count_lines (c # d # s) =
     (if c = CHR 0x0D \<and> d = CHR 0x0A then 1 + count_lines s
      else if c \<in> set line_ends then 1 + count_lines (d # s)
      else max 1 (count_lines (d # s)))"

definition save_full_content :: "prims \<Rightarrow> bool \<Rightarrow> string \<Rightarrow> string \<Rightarrow> string \<Rightarrow> (string, string) dict \<Rightarrow> string option \<times> (string, string) dict" where
  "save_full_content P writable content save_dir tool_prefix files =
     (let path = save_dir @ ''/'' @ tool_prefix @ ''_output_'' @ take 8 (p_sha256 P content) @ ''.txt'' in
      if dhas files path then (Some path, files)
      else if writable then (Some path, dset path content files) else (None, files))"

definition clip :: "nat \<Rightarrow> nat \<Rightarrow> string \<Rightarrow> string \<Rightarrow> string" where
  "clip limit proposed_head notice content =
     (if limit \<le> length notice then take limit notice
      else let remaining = limit - length notice; head_chars = min proposed_head remaining; tail_chars = remaining - head_chars
           in take head_chars content @ notice @ (if 0 < tail_chars then drop (length content - tail_chars) content else []))"

definition maybe_truncate :: "prims \<Rightarrow> bool \<Rightarrow> string \<Rightarrow> int option \<Rightarrow> string \<Rightarrow> string option \<Rightarrow> string \<Rightarrow> (string, string) dict \<Rightarrow> string \<times> (string, string) dict" where
  "maybe_truncate P writable content truncate_after notice save_dir tool_prefix files =
     (case truncate_after of
        None \<Rightarrow> (content, files)
      | Some n \<Rightarrow>
          (if n \<le> 0 \<or> int (length content) \<le> n then (content, files)
           else if nat n \<le> length notice then (take (nat n) notice, files)
           else let available = nat n - length notice; proposed_head = available div 2 + available mod 2 in
             case save_dir of
               Some (c # cs) \<Rightarrow>
                 (case save_full_content P writable content (c # cs) tool_prefix files of
                    (Some path, files') \<Rightarrow> (clip (nat n) proposed_head (persist_notice path (count_lines (take proposed_head content) + 1)) content, files')
                  | (None, files') \<Rightarrow> (clip (nat n) proposed_head notice content, files'))
             | _ \<Rightarrow> (clip (nat n) proposed_head notice content, files)))"

section \<open>Lists\<close>

definition deduplicate :: "'a list \<Rightarrow> 'a list" where
  "deduplicate xs = foldl (\<lambda>ys x. if x \<in> set ys then ys else ys @ [x]) [] xs"

text \<open>The batches from a given rest of the list on, with their offsets.\<close>

partial_function (option) batch_from :: "nat \<Rightarrow> nat \<Rightarrow> 'a list \<Rightarrow> (nat \<times> 'a list) list option" where
  "batch_from bsize offset items =
     (if length items \<le> offset then Some []
      else let batch_data = take bsize (drop offset items)
           in Option.bind (batch_from bsize (offset + length batch_data) items) (\<lambda>bs. Some ((offset, batch_data) # bs)))"

definition batch :: "'a list \<Rightarrow> nat \<Rightarrow> (nat \<times> 'a list) list option" where
  "batch items bsize = batch_from bsize 0 items"

fun lengths2offsets :: "nat \<Rightarrow> nat list \<Rightarrow> (nat \<times> nat) list" where
  "lengths2offsets offset [] = []"
| "lengths2offsets offset (n # ns) = (offset, offset + n) # lengths2offsets (offset + n) ns"

definition flatten :: "'a list list \<Rightarrow> 'a list" where
  "flatten xss = foldl (\<lambda>r xs. r @ xs) [] xss"

text \<open>Up to 99 columns are read by index; more are zipped, which stops at the shortest row.\<close>

definition zipstar :: "'a list list \<Rightarrow> 'a list list res" where
  "zipstar rows =
     (case rows of
        [] \<Rightarrow> Inr []
      | r # _ \<Rightarrow>
          if length r < 100
          then map_res (\<lambda>i. map_res (\<lambda>row. if i < length row then Inr (row ! i) else Inl (Exc IndexErr ''list index out of range'')) rows) [0..<length r]
          else Inr (map (\<lambda>i. map (\<lambda>row. row ! i) rows) [0..<Min (length ` set rows)]))"

definition zip_first :: "'a list \<Rightarrow> 'b list \<Rightarrow> ('a \<times> 'b) list res" where
  "zip_first xs ys = (if length (zip xs ys) = length xs then Inr (zip xs ys) else Inl (Exc GenericErr ''zip_first() failure: length differs!''))"

definition groupby_first_item :: "('k \<times> 'v) list \<Rightarrow> ('k, 'v list) dict" where
  "groupby_first_item xs = foldl (\<lambda>g (k, v). dset k (dget_or g k [] @ [v]) g) [] xs"

text \<open>The generator over rows that are already grouped: what it yields, and the assertion it may fail.\<close>

fun grouped_loop :: "('k \<times> 'v) list \<Rightarrow> 'k option \<Rightarrow> ('k, 'v list) dict \<Rightarrow> ('k \<times> 'v list) list \<times> exc option" where
  "grouped_loop [] lst groups = ([], None)"
| "grouped_loop ((k, v) # rows) lst groups =
     (case lst of
        Some j \<Rightarrow>
          if k \<noteq> j then
            (if dhas groups k then ([(j, dget_or groups j [])], Some (Exc GenericErr ''seen earlier --- violates precondition.''))
             else case grouped_loop rows (Some k) (dset k (dget_or groups k [] @ [v]) groups) of (ys, e) \<Rightarrow> ((j, dget_or groups j []) # ys, e))
          else grouped_loop rows (Some k) (dset k (dget_or groups k [] @ [v]) groups)
      | None \<Rightarrow> grouped_loop rows (Some k) (dset k (dget_or groups k [] @ [v]) groups))"

definition process_grouped_by_first_item :: "('k \<times> 'v) list \<Rightarrow> ('k \<times> 'v list) list \<times> exc option" where
  "process_grouped_by_first_item rows = grouped_loop rows None []"

fun grouper :: "'a list \<Rightarrow> nat \<Rightarrow> 'a \<Rightarrow> 'a list list" where
  "grouper [] n fill = []"
| "grouper (x # xs) 0 fill = []"
| "grouper (x # xs) (Suc n) fill =
     (take (Suc n) (x # xs) @ replicate (Suc n - length (x # xs)) fill) # grouper (drop n xs) (Suc n) fill"

definition int_or_float :: "prims \<Rightarrow> string \<Rightarrow> pyval res" where
  "int_or_float P t = (if CHR ''.'' \<in> set t then bind_res (p_float_of_str P t) (\<lambda>f. Inr (PFloat f)) else bind_res (py_int t) (\<lambda>i. Inr (PInt i)))"

definition handle_deprecated_model_fields :: "pyval \<Rightarrow> string list \<Rightarrow> pyval" where
  "handle_deprecated_model_fields data names = (case data of PDict d \<Rightarrow> PDict (fold ddel names d) | v \<Rightarrow> v)"

section \<open>Deprecation\<close>

text \<open>When a feature goes: on a date or with a version. Versions are compared by the packaging library.\<close>

datatype removal = OnDate int | InVersion string | Never

definition should_warn :: "(string \<Rightarrow> string \<Rightarrow> bool) \<Rightarrow> int \<Rightarrow> string option \<Rightarrow> removal \<Rightarrow> string option \<Rightarrow> bool \<times> bool" where
  "should_warn at_least today deprecated_in removed_in current =
     (case removed_in of
        OnDate d \<Rightarrow> if d \<le> today then (False, True) else (True, False)
      | r \<Rightarrow>
          (case current of
             Some (c # cs) \<Rightarrow>
               (if (case r of InVersion v \<Rightarrow> v \<noteq> [] \<and> at_least (c # cs) v | _ \<Rightarrow> False) then (False, True)
                else if (case deprecated_in of Some (e # es) \<Rightarrow> at_least (c # cs) (e # es) | _ \<Rightarrow> False) then (True, False) else (False, False))
           | _ \<Rightarrow> (True, False)))"

section \<open>Clipped texts\<close>

lemma clip_length: "limit < length content \<Longrightarrow> length (clip limit h notice content) = limit"
  by (auto simp: clip_def Let_def min_def)

text \<open>
  A clipped text has exactly the length asked for, whatever the notice and wherever the full text was saved; a text that
  is short enough, or a limit that is not positive, leaves it as it is. If the full text was saved, the file that the
  notice names holds it, unless a file of that name was there before.
\<close>

theorem truncated_length:
  assumes "maybe_truncate P writable content (Some n) notice save_dir tool_prefix files = (r, files')"
  shows "(if 0 < n \<and> n < int (length content) then int (length r) = n else r = content) \<and>
    (\<forall>p t. dget files' p = Some t \<longrightarrow> dget files p = Some t \<or> t = content)"
proof -
  have "save_full_content P writable content d tool_prefix files = (o', f') \<Longrightarrow> dget f' p = Some t \<Longrightarrow> dget files p = Some t \<or> t = content" for d o' f' p t
    by (auto simp: save_full_content_def Let_def split: if_splits)
  moreover have "nat n < length content" if "0 < n" "n < int (length content)" using that by linarith
  ultimately show ?thesis
    using assms
    by (auto simp: maybe_truncate_def Let_def clip_length split: if_splits option.splits list.splits prod.splits)
qed

lemma clip_parts:
  assumes "length notice < n" "n - length notice = h + t"
  shows "clip n h notice content = take h content @ notice @ drop (length content - t) content"
  using assms(1) by (simp add: clip_def Let_def assms(2))

text \<open>
  Of a clipped text the beginning and the end are kept, and without a saved file as much of each.
\<close>

theorem truncated_ends:
  assumes "length notice < n" "n < length content"
  shows "\<exists>h t. fst (maybe_truncate P writable content (Some (int n)) notice None tool_prefix files) = take h content @ notice @ drop (length content - t) content \<and>
    h + length notice + t = n \<and> t \<le> h \<and> h \<le> t + 1"
proof -
  define a where "a = n - length notice"
  define h where "h = a div 2 + a mod 2"
  define t where "t = a div 2"
  have ht: "h + t = a" "t \<le> h" "h \<le> t + 1" unfolding h_def t_def by presburger+
  have "fst (maybe_truncate P writable content (Some (int n)) notice None tool_prefix files) = clip n h notice content"
    using assms unfolding h_def a_def by (simp only: maybe_truncate_def option.case Let_def) simp
  also have "\<dots> = take h content @ notice @ drop (length content - t) content"
    by (rule clip_parts [OF assms(1)]) (simp add: ht flip: a_def)
  finally show ?thesis using ht assms(1) a_def by (intro exI [of _ h] exI [of _ t]) simp
qed

section \<open>Batches\<close>

lemma batch_from_pos:
  assumes "0 < b"
  shows "\<exists>bs. batch_from b offset items = Some bs \<and> concat (map snd bs) = drop offset items \<and>
    (\<forall>(i, xs) \<in> set bs. xs = take b (drop i items) \<and> xs \<noteq> [])"
proof (induction "length items - offset" arbitrary: offset rule: less_induct)
  case less
  show ?case
  proof (cases "length items \<le> offset")
    case True
    then show ?thesis by (subst batch_from.simps) simp
  next
    case False
    let ?xs = "take b (drop offset items)"
    have pos: "0 < length ?xs" using False assms by simp
    then have "length items - (offset + length ?xs) < length items - offset" using False by linarith
    from less [OF this] obtain bs where bs: "batch_from b (offset + length ?xs) items = Some bs" "concat (map snd bs) = drop (offset + length ?xs) items"
      "\<forall>(i, xs) \<in> set bs. xs = take b (drop i items) \<and> xs \<noteq> []" by blast
    have "batch_from b offset items = Some ((offset, ?xs) # bs)" using False bs(1) by (subst batch_from.simps) (simp add: Let_def)
    moreover have "?xs @ drop (offset + length ?xs) items = drop offset items"
      by (metis add.commute append_take_drop_id drop_drop length_take min.absorb_iff2 min.commute min_def nle_le take_all)
    ultimately show ?thesis using bs(2,3) pos by auto
  qed
qed

lemma batch_zero: "offset < length items \<Longrightarrow> batch_from 0 offset items = None"
proof (cases "batch_from 0 offset items")
  case (Some bs)
  assume h: "offset < length items"
  have "batch_from 0 offset items = Option.bind (batch_from 0 offset items) (\<lambda>bs. Some ((offset, []) # bs))"
    by (subst batch_from.simps) (use h in simp)
  with Some show ?thesis by simp
qed

text \<open>
  Batches of a positive size cover the list in order, each is full except perhaps the last, and none is empty; with size 0 the
  batches of a list that is not empty never end.
\<close>

theorem batches_partition:
  "if b = 0 then (batch items b = None \<longleftrightarrow> items \<noteq> [])
   else \<exists>bs. batch items b = Some bs \<and> concat (map snd bs) = items \<and> list_all (\<lambda>(i, xs). xs = take b (drop i items) \<and> xs \<noteq> []) bs"
proof (cases "b = 0")
  case True
  have "batch_from 0 0 items = Some []" if "items = []" using that by (subst batch_from.simps) simp
  moreover have "batch_from 0 0 items = None" if "items \<noteq> []" using batch_zero [of 0 items] that by simp
  ultimately show ?thesis using True by (auto simp: batch_def)
next
  case False
  with batch_from_pos [of b 0 items] show ?thesis by (auto simp: batch_def list_all_iff)
qed

section \<open>Grouped rows\<close>

text \<open>The rows of some groups, one after the other.\<close>

definition rows_of :: "('k \<times> 'v list) list \<Rightarrow> ('k \<times> 'v) list" where
  "rows_of gs = concat (map (\<lambda>(k, vs). map (Pair k) vs) gs)"

lemma grouped_run:
  "dget groups k = Some acc \<Longrightarrow> grouped_loop (map (Pair k) vs @ rows) (Some k) groups =
     grouped_loop rows (Some k) (if vs = [] then groups else dset k (acc @ vs) groups)"
proof (induction vs arbitrary: groups acc)
  case (Cons v vs)
  have "dset k y (dset k x d) = dset k y d" for x y :: "'b list" and d by (induction d) auto
  with Cons.IH [of "dset k (acc @ [v]) groups" "acc @ [v]"] Cons.prems show ?case by (simp add: dget_or_def)
qed simp

lemma grouped_rest:
  assumes "distinct (k # map fst gs)" "\<forall>(j, vs) \<in> set gs. vs \<noteq> []" "dget groups k = Some acc" "\<forall>j \<in> fst ` set gs. dget groups j = None"
  shows "grouped_loop (rows_of gs) (Some k) groups = (butlast ((k, acc) # gs), None)"
  using assms
proof (induction gs arbitrary: k acc groups)
  case (Cons g gs)
  obtain j vs where g: "g = (j, vs)" by (cases g)
  with Cons.prems obtain v vs' where vs: "vs = v # vs'" by (cases vs) auto
  let ?G = "dset j [v] groups"
  let ?H = "if vs' = [] then ?G else dset j ([v] @ vs') ?G"
  have "grouped_loop (rows_of (g # gs)) (Some k) groups =
      (case grouped_loop (map (Pair j) vs' @ rows_of gs) (Some j) ?G of (ys, e) \<Rightarrow> ((k, acc) # ys, e))"
    using Cons.prems g vs by (auto simp: rows_of_def dhas_def dget_or_def)
  also have "grouped_loop (map (Pair j) vs' @ rows_of gs) (Some j) ?G = grouped_loop (rows_of gs) (Some j) ?H"
    by (rule grouped_run) simp
  also have "grouped_loop (rows_of gs) (Some j) ?H = (butlast ((j, vs) # gs), None)"
    using Cons.prems g vs by (intro Cons.IH) auto
  finally show ?case by (simp add: g)
qed (simp add: rows_of_def)

text \<open>
  The generator over grouped rows loses the last group: of rows that are grouped as it requires it yields all groups with all
  their values, except the last one.
\<close>

theorem last_group_lost:
  assumes "distinct (map fst gs)" "\<forall>(k, vs) \<in> set gs. vs \<noteq> []"
  shows "process_grouped_by_first_item (rows_of gs) = (butlast gs, None)"
proof (cases gs)
  case (Cons g gs')
  obtain k vs where g: "g = (k, vs)" by (cases g)
  with assms Cons obtain v vs' where vs: "vs = v # vs'" by (cases vs) auto
  have "process_grouped_by_first_item (rows_of gs) = grouped_loop (map (Pair k) vs' @ rows_of gs') (Some k) [(k, [v])]"
    by (simp add: process_grouped_by_first_item_def rows_of_def Cons g vs dget_or_def)
  also have "\<dots> = grouped_loop (rows_of gs') (Some k) (if vs' = [] then [(k, [v])] else dset k ([v] @ vs') [(k, [v])])"
    by (rule grouped_run) simp
  also have "\<dots> = (butlast ((k, vs) # gs'), None)"
    using assms Cons g vs by (intro grouped_rest) auto
  finally show ?thesis by (simp add: Cons g)
qed (simp add: process_grouped_by_first_item_def rows_of_def)

section \<open>Small functions\<close>

lemma deduplicate_correct: "distinct (deduplicate xs) \<and> set (deduplicate xs) = set xs"
proof -
  have "distinct ys \<Longrightarrow> distinct (foldl (\<lambda>ys x. if x \<in> set ys then ys else ys @ [x]) ys xs) \<and>
      set (foldl (\<lambda>ys x. if x \<in> set ys then ys else ys @ [x]) ys xs) = set ys \<union> set xs" for ys
    by (induction xs arbitrary: ys) auto
  from this [of "[]"] show ?thesis by (simp add: deduplicate_def)
qed

lemma offsets_slices: "i < length ns \<Longrightarrow> lengths2offsets k ns ! i = (k + sum_list (take i ns), k + sum_list (take (Suc i) ns))"
  by (induction ns arbitrary: i k) (auto simp: nth_Cons split: nat.split)

lemma grouper_full: "0 < n \<Longrightarrow> \<forall>g \<in> set (grouper xs n x). length g = n"
  by (induction xs n x rule: grouper.induct) auto

section \<open>Examples\<close>

definition text_prims :: prims where
  "text_prims = \<lparr>p_sha256 = id, p_canon = (\<lambda>_. []), p_dumps = (\<lambda>_. []), p_loads = (\<lambda>_. None),
     p_float_of_int = (\<lambda>i. Fin (of_int i)), p_float_of_str = (\<lambda>s. Inl (Exc ValueErr s)), p_repr = (\<lambda>_. ''?'')\<rparr>"

theorem truncated_length_witness: "length (fst (maybe_truncate text_prims True ''0123456789'' (Some 5) ''..'' (Some ''/tmp'') ''x'' [])) = 5"
proof -
  obtain r f where "maybe_truncate text_prims True ''0123456789'' (Some 5) ''..'' (Some ''/tmp'') ''x'' [] = (r, f)" by fastforce
  from this truncated_length [OF this] show ?thesis by simp
qed

theorem truncated_ends_witness: "fst (maybe_truncate text_prims True ''0123456789'' (Some (int 6)) ''..'' None ''x'' []) = ''01..89''"
proof -
  have "length ''..'' < 6" "6 < length ''0123456789''" by simp_all
  from truncated_ends [OF this, of text_prims True "''x''" "[]"] obtain h t where
    e: "fst (maybe_truncate text_prims True ''0123456789'' (Some (int 6)) ''..'' None ''x'' []) = take h ''0123456789'' @ ''..'' @ drop (length ''0123456789'' - t) ''0123456789''"
    and l: "h + length ''..'' + t = 6" "t \<le> h" "h \<le> t + 1" by blast
  from l have "h = 2" "t = 2" by simp_all
  then show ?thesis unfolding e by simp
qed

theorem last_group_lost_witness: "process_grouped_by_first_item [(1, ''a''), (1, ''b''), (2 :: nat, ''c'')] = ([(1, [''a'', ''b''])], None)"
  using last_group_lost [of "[(1, [''a'', ''b'']), (2 :: nat, [''c''])]"] by (simp add: rows_of_def)

end
