(* ===== verification/Regex.thy ===== *)
theory Regex
  imports Prelude
begin

text \<open>
  The part of Python's \<^verbatim>\<open>re\<close> module that the program uses: a backtracking matcher over a text and a
  position in it. A match is a position and the captured groups; the matcher returns all matches in the
  order in which the backtracking search tries them, so the first one is the match that Python reports.
  The patterns of the program never match the empty text where all matches are asked for.
\<close>

type_synonym caps = "(nat \<times> nat \<times> nat) list"

datatype regex =
    Chars "char \<Rightarrow> bool"
  | Eps
  | Then regex regex
  | Either regex regex
  | Many regex
  | Fewest regex
  | Ahead regex
  | NotAhead regex
  | AtStart
  | AtLine
  | AtEnd
  | Capture nat regex

text \<open>The end of the text is also just before a last newline, as for \<^verbatim>\<open>$\<close> without \<^verbatim>\<open>MULTILINE\<close>.\<close>

function rx :: "string \<Rightarrow> regex \<Rightarrow> nat \<times> caps \<Rightarrow> (nat \<times> caps) list" where
  "rx s (Chars p) m = (if fst m < length s \<and> p (s ! fst m) then [(Suc (fst m), snd m)] else [])"
| "rx s Eps m = [m]"
| "rx s (Then a b) m = concat (map (rx s b) (rx s a m))"
| "rx s (Either a b) m = rx s a m @ rx s b m"
| "rx s (Many a) m = concat (map (\<lambda>n. if fst m < fst n \<and> fst n \<le> length s then rx s (Many a) n else []) (rx s a m)) @ [m]"
| "rx s (Fewest a) m = m # concat (map (\<lambda>n. if fst m < fst n \<and> fst n \<le> length s then rx s (Fewest a) n else []) (rx s a m))"
| "rx s (Ahead a) m = (case rx s a m of [] \<Rightarrow> [] | n # _ \<Rightarrow> [(fst m, snd n)])"
| "rx s (NotAhead a) m = (if rx s a m = [] then [m] else [])"
| "rx s AtStart m = (if fst m = 0 then [m] else [])"
| "rx s AtLine m = (if fst m = 0 \<or> s ! (fst m - 1) = CHR 0x0A then [m] else [])"
| "rx s AtEnd m = (if fst m = length s \<or> (Suc (fst m) = length s \<and> s ! fst m = CHR 0x0A) then [m] else [])"
| "rx s (Capture k a) m = map (\<lambda>n. (fst n, dset k (fst m, fst n) (snd n))) (rx s a m)"
  by pat_completeness auto
termination
  by (relation "measures [\<lambda>(s, r, m). size r, \<lambda>(s, r, m). length s - fst m]") auto

declare rx.simps(5,6) [simp del]

text \<open>A literal text, exactly and without regard to case, and the optional part of a pattern.\<close>

primrec lit_by :: "(char \<Rightarrow> char \<Rightarrow> bool) \<Rightarrow> string \<Rightarrow> regex" where
  "lit_by eq [] = Eps"
| "lit_by eq (c # cs) = Then (Chars (eq c)) (lit_by eq cs)"

definition lit :: "string \<Rightarrow> regex" where
  "lit = lit_by (=)"

definition lit_ic :: "string \<Rightarrow> regex" where
  "lit_ic = lit_by (\<lambda>c d. lower_char c = lower_char d)"

definition maybe :: "regex \<Rightarrow> regex" where
  "maybe a = Either a Eps"

definition any_char :: regex where
  "any_char = Chars (\<lambda>c. c \<noteq> CHR 0x0A)"

definition any_all :: regex where
  "any_all = Chars (\<lambda>_. True)"

record found =
  f_start :: nat
  f_end :: nat
  f_groups :: caps

text \<open>The first match at or after a position, all matches from left to right, and the text without them.\<close>

fun search_in :: "string \<Rightarrow> regex \<Rightarrow> nat list \<Rightarrow> found option" where
  "search_in s r [] = None"
| "search_in s r (i # is) =
     (case rx s r (i, []) of [] \<Rightarrow> search_in s r is | m # _ \<Rightarrow> Some \<lparr>f_start = i, f_end = fst m, f_groups = snd m\<rparr>)"

definition search_from :: "string \<Rightarrow> regex \<Rightarrow> nat \<Rightarrow> found option" where
  "search_from s r i = search_in s r [i..<Suc (length s)]"

definition re_search :: "string \<Rightarrow> regex \<Rightarrow> found option" where
  "re_search s r = search_from s r 0"

definition re_match :: "string \<Rightarrow> regex \<Rightarrow> found option" where
  "re_match s r = search_in s r [0]"

function finditer_from :: "string \<Rightarrow> regex \<Rightarrow> nat \<Rightarrow> found list" where
  "finditer_from s r i =
     (if length s < i then []
      else case search_from s r i of None \<Rightarrow> []
           | Some f \<Rightarrow> f # finditer_from s r (max (f_end f) (Suc i)))"
  by pat_completeness auto
termination
  by (relation "measure (\<lambda>(s, r, i). Suc (length s) - i)") auto

definition re_finditer :: "string \<Rightarrow> regex \<Rightarrow> found list" where
  "re_finditer s r = finditer_from s r 0"

fun cut_out :: "string \<Rightarrow> nat \<Rightarrow> found list \<Rightarrow> string" where
  "cut_out s i [] = drop i s"
| "cut_out s i (f # fs) = take (f_start f - i) (drop i s) @ cut_out s (f_end f) fs"

definition re_remove :: "regex \<Rightarrow> string \<Rightarrow> string" where
  "re_remove r s = cut_out s 0 (re_finditer s r)"

definition group_text :: "string \<Rightarrow> found \<Rightarrow> nat \<Rightarrow> string option" where
  "group_text s f k = map_option (\<lambda>(i, j). take (j - i) (drop i s)) (dget (f_groups f) k)"

section \<open>What the matcher accepts\<close>

text \<open>A pattern that moves forward only, inside the text.\<close>

lemma rx_Many: "set (rx s (Many a) m) = insert m (\<Union>k \<in> {k \<in> set (rx s a m). fst m < fst k \<and> fst k \<le> length s}. set (rx s (Many a) k))"
  by (subst rx.simps(5)) (auto split: if_splits)

lemma rx_Fewest: "set (rx s (Fewest a) m) = insert m (\<Union>k \<in> {k \<in> set (rx s a m). fst m < fst k \<and> fst k \<le> length s}. set (rx s (Fewest a) k))"
  by (subst rx.simps(6)) (auto split: if_splits)

lemma rx_forward: "n \<in> set (rx s r m) \<Longrightarrow> fst m \<le> length s \<Longrightarrow> fst m \<le> fst n \<and> fst n \<le> length s"
proof (induction s r m arbitrary: n rule: rx.induct)
  case (3 s a b m)
  then obtain k where "k \<in> set (rx s a m)" "n \<in> set (rx s b k)" by auto
  with 3 show ?case by (meson le_trans)
next
  case (5 s a m)
  from 5(3) consider "n = m" | k where "k \<in> set (rx s a m)" "fst m < fst k" "fst k \<le> length s" "n \<in> set (rx s (Many a) k)"
    by (subst (asm) rx_Many) auto
  then show ?case
  proof cases
    case 2
    then have "fst k \<le> fst n \<and> fst n \<le> length s" using 5(2) [of k n] by blast
    with 2 show ?thesis by simp
  qed (use 5(4) in simp)
next
  case (6 s a m)
  from 6(3) consider "n = m" | k where "k \<in> set (rx s a m)" "fst m < fst k" "fst k \<le> length s" "n \<in> set (rx s (Fewest a) k)"
    by (subst (asm) rx_Fewest) auto
  then show ?case
  proof cases
    case 2
    then have "fst k \<le> fst n \<and> fst n \<le> length s" using 6(2) [of k n] by blast
    with 2 show ?thesis by simp
  qed (use 6(4) in simp)
qed (auto split: if_splits list.splits)

lemma rx_lit_by: "rx s (lit_by eq w) m = (if fst m + length w \<le> length s \<and> list_all2 eq w (take (length w) (drop (fst m) s)) \<and> fst m \<le> length s
    then [(fst m + length w, snd m)] else [])" if "fst m \<le> length s"
  using that
proof (induction w arbitrary: m)
  case (Cons c w)
  show ?case
  proof (cases "fst m < length s")
    case True
    then have "drop (fst m) s = s ! fst m # drop (Suc (fst m)) s" by (simp add: Cons_nth_drop_Suc)
    with True Cons.IH [of "(Suc (fst m), snd m)"] show ?thesis by auto
  next
    case False
    with Cons.prems show ?thesis by auto
  qed
qed simp

lemma rx_many_chars: "rx s (Many (Chars p)) m = map (\<lambda>k. (fst m + k, snd m)) (rev [0..<Suc (length (takeWhile p (drop (fst m) s)))])"
proof (induction "length s - fst m" arbitrary: m)
  case 0
  then show ?case by (subst rx.simps(5)) simp
next
  case (Suc n)
  then have lt: "fst m < length s" by simp
  then have d: "drop (fst m) s = s ! fst m # drop (Suc (fst m)) s" by (simp add: Cons_nth_drop_Suc)
  show ?case
  proof (cases "p (s ! fst m)")
    case True
    have "n = length s - fst (Suc (fst m), snd m)" using Suc.hyps(2) by simp
    from Suc.hyps(1) [OF this] True lt d show ?thesis
      by (subst rx.simps(5)) (simp add: upt_conv_Cons map_Suc_upt [symmetric] rev_map del: upt_Suc)
  next
    case False
    with d show ?thesis by (subst rx.simps(5)) simp
  qed
qed

lemma search_in_None: "search_in s r is = None \<longleftrightarrow> (\<forall>i \<in> set is. rx s r (i, []) = [])"
  by (induction "is") (auto split: list.splits)

lemma search_in_skip: "(\<And>i. i \<in> set is \<Longrightarrow> rx s r (i, []) = []) \<Longrightarrow> search_in s r (is @ js) = search_in s r js"
  by (induction "is") auto

end
