(* ===== verification/Ruleset.thy ===== *)
theory Ruleset
  imports Regex
begin

text \<open>
  The ruleset engine (\<^verbatim>\<open>arch/xor/parser/ruleset/engine.py\<close>): extraction of fields along paths, and tagging of log lines
  by keywords, either in Python or by a pattern compiled from the same rules.
\<close>

section \<open>Extraction of fields\<close>

text \<open>A target of a ruleset; a missing tag and an empty one are treated alike, and so are keyword lists.\<close>

record kw_group =
  kg_and :: "string list"
  kg_or :: "string list"

record rule_target =
  rt_tag :: string
  rt_path :: string
  rt_keywords :: "kw_group list"

record ruleset =
  rs_engine :: "string option"
  rs_targets :: "rule_target list"

fun walk_path :: "string list \<Rightarrow> pyval \<Rightarrow> pyval" where
  "walk_path [] v = v"
| "walk_path (p # ps) v =
     (case v of PDict d \<Rightarrow> (case dget d p of Some w \<Rightarrow> walk_path ps w | None \<Rightarrow> PNone) | _ \<Rightarrow> PNone)"

definition extraction_execute :: "prims \<Rightarrow> (string, string list) dict \<Rightarrow> string \<Rightarrow> pydict" where
  "extraction_execute P paths payload =
     (case p_loads P payload of
        None \<Rightarrow> []
      | Some parsed \<Rightarrow> fold (\<lambda>(field, path). dset field (walk_path path parsed)) paths [])"

definition parse_extraction :: "ruleset \<Rightarrow> (string, string list) dict" where
  "parse_extraction rs =
     fold (\<lambda>t. if rt_tag t \<noteq> [] \<and> rt_path t \<noteq> [] then dset (rt_tag t) (split_char CHR ''.'' (rt_path t)) else id) (rs_targets rs) []"

section \<open>Tagging of lines\<close>

definition group_match :: "string \<Rightarrow> kw_group \<Rightarrow> bool" where
  "group_match line_lower g \<longleftrightarrow>
     (kg_and g = [] \<or> list_all (\<lambda>v. contains line_lower (lower v)) (kg_and g)) \<and>
     (kg_or g = [] \<or> list_ex (\<lambda>v. contains line_lower (lower v)) (kg_or g))"

definition keyword_evaluator :: "kw_group list \<Rightarrow> string \<Rightarrow> bool" where
  "keyword_evaluator groups line = list_ex (group_match (lower line)) groups"

datatype tag_engine = LocalEngine "(kw_group list \<times> string) list" | RegexEngine "(regex \<times> string) list"

fun tag_execute :: "tag_engine \<Rightarrow> string \<Rightarrow> string list" where
  "tag_execute (LocalEngine evs) payload = [tag. (gs, tag) \<leftarrow> evs, keyword_evaluator gs payload]"
| "tag_execute (RegexEngine rules) payload = [tag. (r, tag) \<leftarrow> rules, re_search payload r \<noteq> None]"

definition kept_targets :: "string list \<Rightarrow> ruleset \<Rightarrow> rule_target list" where
  "kept_targets target_tags rs =
     filter (\<lambda>t. rt_tag t \<noteq> [] \<and> rt_keywords t \<noteq> [] \<and> (target_tags = [] \<or> rt_tag t \<in> set target_tags)) (rs_targets rs)"

definition compile_local_engine :: "string list \<Rightarrow> ruleset \<Rightarrow> tag_engine" where
  "compile_local_engine target_tags rs = LocalEngine (map (\<lambda>t. (rt_keywords t, rt_tag t)) (kept_targets target_tags rs))"

fun alternatives :: "regex list \<Rightarrow> regex" where
  "alternatives [] = Eps"
| "alternatives [r] = r"
| "alternatives (r # rs) = Either r (alternatives rs)"

definition somewhere :: "regex \<Rightarrow> regex" where
  "somewhere r = Ahead (Then (Many any_char) r)"

definition group_lookaheads :: "kw_group \<Rightarrow> regex list" where
  "group_lookaheads g = map (\<lambda>w. somewhere (lit_ic w)) (kg_and g) @
     (if kg_or g = [] then [] else [somewhere (alternatives (map lit_ic (kg_or g)))])"

definition group_regex :: "kw_group \<Rightarrow> regex" where
  "group_regex g = Then AtStart (foldr Then (group_lookaheads g) (Many any_char))"

definition target_regex :: "rule_target \<Rightarrow> (regex \<times> string) option" where
  "target_regex t =
     (let parts = map group_regex (filter (\<lambda>g. group_lookaheads g \<noteq> []) (rt_keywords t))
      in if parts = [] then None else Some (alternatives parts, rt_tag t))"

definition compile_regex_engine :: "string list \<Rightarrow> ruleset \<Rightarrow> tag_engine" where
  "compile_regex_engine target_tags rs = RegexEngine (List.map_filter target_regex (kept_targets target_tags rs))"

definition parse_tagging :: "string \<Rightarrow> string list \<Rightarrow> ruleset \<Rightarrow> tag_engine" where
  "parse_tagging engine_type target_tags rs =
     (if (case rs_engine rs of Some e \<Rightarrow> e | None \<Rightarrow> engine_type) = ''regex'' then compile_regex_engine target_tags rs
      else compile_local_engine target_tags rs)"

section \<open>What the two engines accept\<close>

text \<open>The line the patterns see: they start at the beginning of the text and do not go past a newline.\<close>

definition first_line :: "string \<Rightarrow> string" where
  "first_line s = takeWhile (\<lambda>c. c \<noteq> CHR 0x0A) s"

lemma lower_newline: "lower_char c = CHR 0x0A \<longleftrightarrow> c = CHR 0x0A"
proof -
  have "lower_char c \<noteq> CHR 0x0A" if "65 \<le> (of_char c :: nat)" "(of_char c :: nat) \<le> 90"
  proof
    assume "lower_char c = CHR 0x0A"
    then have "(of_char (char_of ((of_char c :: nat) + 32) :: char) :: nat) = of_char CHR 0x0A" using that by (simp add: lower_char_def)
    then show False using that by (simp add: of_char_of)
  qed
  then show ?thesis by (auto simp: lower_char_def)
qed

lemma contains_iff: "contains s p \<longleftrightarrow> (\<exists>k. k + length p \<le> length s \<and> take (length p) (drop k s) = p)"
proof (induction s p rule: contains.induct)
  case (1 s)
  show ?case by (auto intro!: exI [of _ 0])
next
  case (3 c s v va)
  have "(\<exists>k. k + length (v # va) \<le> length (c # s) \<and> take (length (v # va)) (drop k (c # s)) = v # va) \<longleftrightarrow>
      startswith (c # s) (v # va) \<or> (\<exists>k. k + length (v # va) \<le> length s \<and> take (length (v # va)) (drop k s) = v # va)"
    (is "?l \<longleftrightarrow> ?a \<or> ?b")
  proof
    assume ?l
    then obtain k where k: "k + length (v # va) \<le> length (c # s)" "take (length (v # va)) (drop k (c # s)) = v # va" by blast
    then show "?a \<or> ?b" by (cases k) (auto simp: startswith_def intro!: exI)
  next
    assume "?a \<or> ?b"
    then show ?l
    proof
      assume a: ?a
      then have "length (take (length (v # va)) (c # s)) = length (v # va)" by (simp only: startswith_def)
      then have "length (v # va) \<le> length (c # s)" by (simp only: length_take min_def split: if_splits)
      with a show ?l by (intro exI [of _ 0]) (simp add: startswith_def)
    next
      assume ?b
      then obtain k where "k + length (v # va) \<le> length s" "take (length (v # va)) (drop k s) = v # va" by blast
      then show ?l by (intro exI [of _ "Suc k"]) auto
    qed
  qed
  with 3 show ?case by simp
qed auto

lemma alternatives_match: "rs \<noteq> [] \<Longrightarrow> set (rx s (alternatives rs) m) = (\<Union>r \<in> set rs. set (rx s r m))"
  by (induction rs rule: alternatives.induct) auto

lemma alternatives_none: "rs \<noteq> [] \<Longrightarrow> rx s (alternatives rs) m = [] \<longleftrightarrow> (\<forall>r \<in> set rs. rx s r m = [])"
  using alternatives_match [of rs s m] by (simp flip: set_empty)

lemma same_lower: "list_all2 (\<lambda>c d. lower_char c = lower_char d) w u \<longleftrightarrow> map lower_char w = map lower_char u"
  by (simp add: list.rel_map flip: list.rel_eq)

lemma lit_ic_match: "fst m \<le> length s \<Longrightarrow>
    rx s (lit_ic w) m \<noteq> [] \<longleftrightarrow> fst m + length w \<le> length s \<and> lower (take (length w) (drop (fst m) s)) = lower w"
  by (simp add: lit_ic_def rx_lit_by lower_def same_lower) auto

lemma lit_ic_line:
  assumes "CHR 0x0A \<notin> set w"
  shows "(\<exists>k \<le> length (first_line s). rx s (lit_ic w) (k, c) \<noteq> []) \<longleftrightarrow> contains (lower (first_line s)) (lower w)"
proof -
  define fl where "fl = first_line s"
  have le: "length fl \<le> length s" by (simp add: fl_def first_line_def length_takeWhile_le)
  have pre: "s = fl @ drop (length fl) s" by (simp add: fl_def first_line_def flip: dropWhile_eq_drop)
  have in_line: "k + length w \<le> length fl"
    if "k \<le> length fl" "k + length w \<le> length s" "lower (take (length w) (drop k s)) = lower w" for k
  proof (rule ccontr)
    assume "\<not> k + length w \<le> length fl"
    then have i: "length fl - k < length w" using that(1) by simp
    have "length fl < length s" using that i by linarith
    then have "s ! length fl = CHR 0x0A" unfolding fl_def first_line_def using nth_length_takeWhile [of "\<lambda>c. c \<noteq> CHR 0x0A" s] by simp
    then have "lower (take (length w) (drop k s)) ! (length fl - k) = CHR 0x0A"
      using that(1,2) i by (simp add: lower_def lower_newline)
    with that(3) i have "w ! (length fl - k) = CHR 0x0A" by (simp add: lower_def lower_newline)
    with i assms show False by (metis nth_mem)
  qed
  have same: "take (length w) (drop k s) = take (length w) (drop k fl)" if "k + length w \<le> length fl" for k
    using that by (subst pre) simp
  have "(\<exists>k \<le> length fl. rx s (lit_ic w) (k, c) \<noteq> []) \<longleftrightarrow> (\<exists>k. k + length w \<le> length fl \<and> lower (take (length w) (drop k fl)) = lower w)"
    (is "?l \<longleftrightarrow> ?r")
  proof
    assume ?l
    then obtain k where k: "k \<le> length fl" "rx s (lit_ic w) (k, c) \<noteq> []" by blast
    with lit_ic_match [of "(k, c)" s w] le have m: "k + length w \<le> length s" "lower (take (length w) (drop k s)) = lower w" by auto
    with in_line [OF k(1)] same show ?r by metis
  next
    assume ?r
    then obtain k where k: "k + length w \<le> length fl" "lower (take (length w) (drop k fl)) = lower w" by blast
    with lit_ic_match [of "(k, c)" s w] le same [OF k(1)] have "rx s (lit_ic w) (k, c) \<noteq> []" by auto
    with k show ?l by (meson add_leD1)
  qed
  then show ?thesis by (simp add: contains_iff fl_def lower_def take_map drop_map)
qed

lemma somewhere_match:
  "rx s (somewhere r) (0, cs) \<noteq> [] \<longleftrightarrow> (\<exists>k \<le> length (first_line s). rx s r (k, cs) \<noteq> [])"
proof -
  have "rx s (Then (Many any_char) r) (0, cs) = concat (map (\<lambda>k. rx s r (k, cs)) (rev [0..<Suc (length (first_line s))]))"
    by (simp add: any_char_def rx_many_chars first_line_def comp_def rev_map del: upt_Suc)
  then have "rx s (Then (Many any_char) r) (0, cs) \<noteq> [] \<longleftrightarrow> (\<exists>k \<le> length (first_line s). rx s r (k, cs) \<noteq> [])"
    by (simp only: concat_eq_Nil_conv) (auto simp: less_Suc_eq_le simp del: rx.simps upt_Suc)
  moreover have "rx s (Ahead a) m \<noteq> [] \<longleftrightarrow> rx s a m \<noteq> []" for a m by (simp split: list.split)
  ultimately show ?thesis by (simp only: somewhere_def)
qed

lemma ahead_all:
  assumes "\<And>a cs. a \<in> set as \<Longrightarrow> rx s (somewhere a) (0, cs) \<noteq> [] \<longleftrightarrow> Q a"
  shows "rx s (foldr Then (map somewhere as) (Many any_char)) (0, cs) \<noteq> [] \<longleftrightarrow> (\<forall>a \<in> set as. Q a)"
  using assms
proof (induction as arbitrary: cs)
  case Nil
  show ?case by (simp add: any_char_def rx_many_chars)
next
  case (Cons a as)
  show ?case
  proof (cases "Q a")
    case True
    with Cons.prems [of a cs] have "rx s (Then (Many any_char) a) (0, cs) \<noteq> []" by (auto simp: somewhere_def simp del: rx.simps(3))
    then obtain n ns where "rx s (Then (Many any_char) a) (0, cs) = n # ns" using list.exhaust by blast
    then have "rx s (somewhere a) (0, cs) = [(0, snd n)]" by (simp add: somewhere_def del: rx.simps(3))
    with True Cons.IH [of "snd n"] Cons.prems show ?thesis by simp
  next
    case False
    with Cons.prems [of a cs] show ?thesis by simp
  qed
qed

definition plain_words :: "kw_group \<Rightarrow> bool" where
  "plain_words g \<longleftrightarrow> (\<forall>w \<in> set (kg_and g) \<union> set (kg_or g). CHR 0x0A \<notin> set w)"

lemma group_regex_match:
  assumes "plain_words g"
  shows "rx s (group_regex g) (i, []) \<noteq> [] \<longleftrightarrow> i = 0 \<and> group_match (lower (first_line s)) g"
proof -
  let ?as = "map lit_ic (kg_and g) @ (if kg_or g = [] then [] else [alternatives (map lit_ic (kg_or g))])"
  have word: "rx s (somewhere (lit_ic w)) (0, cs) \<noteq> [] \<longleftrightarrow> contains (lower (first_line s)) (lower w)" if "w \<in> set (kg_and g) \<union> set (kg_or g)" for w cs
    unfolding somewhere_match using lit_ic_line [of w s cs] assms that by (auto simp: plain_words_def)
  have alts: "rx s (somewhere (alternatives (map lit_ic (kg_or g)))) (0, cs) \<noteq> [] \<longleftrightarrow> (\<exists>w \<in> set (kg_or g). contains (lower (first_line s)) (lower w))"
    if "kg_or g \<noteq> []" for cs
  proof -
    have "rx s (somewhere (alternatives (map lit_ic (kg_or g)))) (0, cs) \<noteq> [] \<longleftrightarrow> (\<exists>w \<in> set (kg_or g). rx s (somewhere (lit_ic w)) (0, cs) \<noteq> [])"
      unfolding somewhere_match using that by (subst alternatives_none) auto
    with word show ?thesis by simp
  qed
  have nones: "w \<in> set (kg_and g) \<union> set (kg_or g) \<Longrightarrow> rx s (somewhere (lit_ic w)) (0, cs) = [] \<longleftrightarrow> \<not> contains (lower (first_line s)) (lower w)"
    "kg_or g \<noteq> [] \<Longrightarrow> rx s (somewhere (alternatives (map lit_ic (kg_or g)))) (0, cs) = [] \<longleftrightarrow> \<not> (\<exists>w \<in> set (kg_or g). contains (lower (first_line s)) (lower w))" for w cs
    using word alts by blast+
  have "rx s (foldr Then (map somewhere ?as) (Many any_char)) (0, []) \<noteq> [] \<longleftrightarrow> (\<forall>a \<in> set ?as. rx s (somewhere a) (0, []) \<noteq> [])"
    by (rule ahead_all) (auto simp: nones split: if_splits)
  also have "\<dots> \<longleftrightarrow> group_match (lower (first_line s)) g"
    by (auto simp: nones group_match_def list_all_iff list_ex_iff)
  also have "map somewhere ?as = group_lookaheads g" by (simp add: group_lookaheads_def)
  finally show ?thesis by (auto simp: group_regex_def)
qed

definition nonempty_groups :: "kw_group list \<Rightarrow> kw_group list" where
  "nonempty_groups = filter (\<lambda>g. kg_and g \<noteq> [] \<or> kg_or g \<noteq> [])"

lemma target_regex_match:
  assumes "\<forall>g \<in> set (rt_keywords t). plain_words g" "target_regex t = Some (r, tag)"
  shows "re_search s r \<noteq> None \<longleftrightarrow> keyword_evaluator (nonempty_groups (rt_keywords t)) (first_line s)"
proof -
  let ?gs = "nonempty_groups (rt_keywords t)"
  have gs: "filter (\<lambda>g. group_lookaheads g \<noteq> []) (rt_keywords t) = ?gs"
    by (auto simp: nonempty_groups_def group_lookaheads_def intro: filter_cong)
  with assms(2) have r: "r = alternatives (map group_regex ?gs)" "?gs \<noteq> []" by (auto simp: target_regex_def Let_def split: if_splits)
  have p: "\<forall>g \<in> set ?gs. plain_words g" using assms(1) by (auto simp: nonempty_groups_def)
  have "rx s r (i, []) \<noteq> [] \<longleftrightarrow> i = 0 \<and> (\<exists>g \<in> set ?gs. group_match (lower (first_line s)) g)" for i
    using r p group_regex_match [of _ s i] by (auto simp: alternatives_none)
  then show ?thesis by (auto simp: re_search_def search_from_def search_in_None keyword_evaluator_def list_ex_iff simp del: upt_Suc)
qed

section \<open>The engines agree\<close>

definition drop_empty :: "rule_target \<Rightarrow> rule_target" where
  "drop_empty t = t\<lparr>rt_keywords := nonempty_groups (rt_keywords t)\<rparr>"

lemma target_regex_None: "target_regex t = None \<longleftrightarrow> nonempty_groups (rt_keywords t) = []"
  by (auto simp: target_regex_def Let_def nonempty_groups_def group_lookaheads_def filter_empty_conv)

lemma target_regex_tag: "target_regex t = Some (r, tag) \<Longrightarrow> tag = rt_tag t"
  by (auto simp: target_regex_def Let_def split: if_splits)

lemma regex_tags:
  assumes "\<forall>t \<in> set ts. \<forall>g \<in> set (rt_keywords t). plain_words g"
  shows "tag_execute (RegexEngine (List.map_filter target_regex ts)) line =
    map rt_tag (filter (\<lambda>t. keyword_evaluator (nonempty_groups (rt_keywords t)) (first_line line)) ts)"
  using assms
proof (induction ts)
  case (Cons t ts)
  show ?case
  proof (cases "target_regex t")
    case None
    then have "\<not> keyword_evaluator (nonempty_groups (rt_keywords t)) (first_line line)" by (simp add: target_regex_None keyword_evaluator_def)
    with None Cons show ?thesis by (simp add: map_filter_simps)
  next
    case (Some p)
    obtain r tag where p: "p = (r, tag)" by (cases p)
    with Some have t: "target_regex t = Some (r, tag)" by simp
    from target_regex_match [OF _ t, of line] Cons.prems
    have "re_search line r \<noteq> None \<longleftrightarrow> keyword_evaluator (nonempty_groups (rt_keywords t)) (first_line line)" by simp
    with Cons t target_regex_tag [OF t] show ?thesis by (simp add: map_filter_simps)
  qed
qed (simp add: map_filter_simps)

lemma local_tags: "tag_execute (compile_local_engine tags rs) line =
    map rt_tag (filter (\<lambda>t. keyword_evaluator (rt_keywords t) line) (kept_targets tags rs))"
proof -
  have "[tag. (gs, tag) \<leftarrow> map (\<lambda>t. (rt_keywords t, rt_tag t)) ts, keyword_evaluator gs line] = map rt_tag (filter (\<lambda>t. keyword_evaluator (rt_keywords t) line) ts)" for ts
    by (induction ts) auto
  then show ?thesis by (simp add: compile_local_engine_def)
qed

lemma kept_drop_empty: "filter (\<lambda>t. keyword_evaluator (rt_keywords t) l) (kept_targets tags (rs\<lparr>rs_targets := map drop_empty (rs_targets rs)\<rparr>)) =
    map drop_empty (filter (\<lambda>t. keyword_evaluator (nonempty_groups (rt_keywords t)) l) (kept_targets tags rs))"
proof -
  have "keyword_evaluator [] l = False" by (simp add: keyword_evaluator_def)
  moreover have "nonempty_groups [] = []" by (simp add: nonempty_groups_def)
  ultimately show ?thesis
    by (auto simp: kept_targets_def filter_map comp_def drop_empty_def intro!: arg_cong [where f = "map _"] filter_cong)
qed

text \<open>
  C16. The compiled patterns tag a text exactly as the Python evaluator tags its first line by the groups that name a keyword; so
  on a single line, with keywords in every group, the two engines give the same tags in the same order.
\<close>

theorem engines_agree:
  assumes "\<forall>t \<in> set (rs_targets rs). \<forall>g \<in> set (rt_keywords t). plain_words g"
  shows "tag_execute (compile_regex_engine tags rs) s =
      tag_execute (compile_local_engine tags (rs\<lparr>rs_targets := map drop_empty (rs_targets rs)\<rparr>)) (first_line s) \<and>
    (CHR 0x0A \<notin> set s \<and> (\<forall>t \<in> set (rs_targets rs). \<forall>g \<in> set (rt_keywords t). kg_and g \<noteq> [] \<or> kg_or g \<noteq> []) \<longrightarrow>
      tag_execute (compile_regex_engine tags rs) s = tag_execute (compile_local_engine tags rs) s)"
proof -
  have "\<forall>t \<in> set (kept_targets tags rs). \<forall>g \<in> set (rt_keywords t). plain_words g" using assms by (auto simp: kept_targets_def)
  from regex_tags [OF this, of s]
  have r: "tag_execute (compile_regex_engine tags rs) s = tag_execute (compile_local_engine tags (rs\<lparr>rs_targets := map drop_empty (rs_targets rs)\<rparr>)) (first_line s)"
    by (simp add: compile_regex_engine_def local_tags kept_drop_empty) (simp add: drop_empty_def comp_def)
  moreover have "rs\<lparr>rs_targets := map drop_empty (rs_targets rs)\<rparr> = rs"
    if "\<forall>t \<in> set (rs_targets rs). \<forall>g \<in> set (rt_keywords t). kg_and g \<noteq> [] \<or> kg_or g \<noteq> []"
  proof -
    have "map drop_empty (rs_targets rs) = rs_targets rs"
      using that by (intro map_idI) (simp add: drop_empty_def nonempty_groups_def)
    then show ?thesis by simp
  qed
  moreover have "first_line s = s" if "CHR 0x0A \<notin> set s" using that by (auto simp: first_line_def takeWhile_eq_all_conv)
  ultimately show ?thesis by simp
qed

text \<open>
  Where they differ: a target with a group that names no keyword tags every line in Python and none as a pattern.
\<close>

theorem empty_group_differs:
  assumes "rt_tag t \<noteq> []" "rt_keywords t = [\<lparr>kg_and = [], kg_or = []\<rparr>]"
  shows "tag_execute (compile_local_engine [] \<lparr>rs_engine = e, rs_targets = [t]\<rparr>) s = [rt_tag t] \<and>
    tag_execute (compile_regex_engine [] \<lparr>rs_engine = e, rs_targets = [t]\<rparr>) s = []"
  using assms
  by (simp add: local_tags kept_targets_def keyword_evaluator_def group_match_def compile_regex_engine_def target_regex_def
      group_lookaheads_def map_filter_simps)

section \<open>Extraction\<close>

lemma fold_dset_get: "dget (fold (\<lambda>(k, x). dset k (f x)) xs d) key =
    (case dget (rev xs) key of Some x \<Rightarrow> Some (f x) | None \<Rightarrow> dget d key)"
proof (induction xs arbitrary: d)
  case (Cons a xs)
  then show ?case by (cases a) (auto simp: map_add_def map_of_append split: option.split)
qed simp

text \<open>
  Extraction: of a document that parses, the result has an entry for exactly the tags that have a path; it is the value at the path
  of the last target with that tag, and nothing if the path leaves the document. A document that does not parse gives nothing.
\<close>

theorem extraction_exact:
  "dget (extraction_execute P (parse_extraction rs) payload) tag =
     (case p_loads P payload of None \<Rightarrow> None
      | Some v \<Rightarrow> (case find (\<lambda>t. rt_tag t = tag \<and> tag \<noteq> [] \<and> rt_path t \<noteq> []) (rev (rs_targets rs)) of None \<Rightarrow> None
          | Some t \<Rightarrow> Some (walk_path (split_char CHR ''.'' (rt_path t)) v)))"
proof -
  define step where "step t = (if rt_tag t \<noteq> [] \<and> rt_path t \<noteq> [] then dset (rt_tag t) (split_char CHR ''.'' (rt_path t)) else id)" for t :: rule_target
  have g: "dget (fold step ts d) tag = (case find (\<lambda>t. rt_tag t = tag \<and> tag \<noteq> [] \<and> rt_path t \<noteq> []) (rev ts) of
      None \<Rightarrow> dget d tag | Some t \<Rightarrow> Some (split_char CHR ''.'' (rt_path t)))" for ts d
    by (induction ts rule: rev_induct) (auto simp: step_def split: option.split)
  have w: "wf_dict (fold step ts d)" if "wf_dict d" for ts d
    using that by (induction ts arbitrary: d) (simp_all add: step_def)
  have pe: "parse_extraction rs = fold step (rs_targets rs) []" unfolding parse_extraction_def step_def ..
  show ?thesis
    by (simp add: extraction_execute_def fold_dset_get [where f = "\<lambda>path. walk_path path _"] pe wf_dget_rev [OF w [OF wf_dict_Nil]] g split: option.split)
qed

section \<open>Witnesses\<close>

definition sample_rules :: ruleset where
  "sample_rules = \<lparr>rs_engine = None, rs_targets =
     [\<lparr>rt_tag = ''crash'', rt_path = [], rt_keywords = [\<lparr>kg_and = [''Wasm''], kg_or = [''trap'', ''Panic'']\<rparr>]\<rparr>]\<rparr>"

theorem engines_agree_witness:
  "tag_execute (compile_regex_engine [] sample_rules) ''a WASM panic'' = [''crash'']"
proof -
  have "tag_execute (compile_regex_engine [] sample_rules) ''a WASM panic'' = tag_execute (compile_local_engine [] sample_rules) ''a WASM panic''"
    using conjunct2 [OF engines_agree [of sample_rules "[]" "''a WASM panic''"]] by (simp add: sample_rules_def plain_words_def)
  also have "\<dots> = [''crash'']" by code_simp
  finally show ?thesis .
qed

theorem empty_group_differs_witness:
  "tag_execute (compile_local_engine [] \<lparr>rs_engine = None, rs_targets = [\<lparr>rt_tag = ''x'', rt_path = [], rt_keywords = [\<lparr>kg_and = [], kg_or = []\<rparr>]\<rparr>]\<rparr>) ''any'' = [''x'']"
  using empty_group_differs [of "\<lparr>rt_tag = ''x'', rt_path = [], rt_keywords = [\<lparr>kg_and = [], kg_or = []\<rparr>]\<rparr>" None "''any''"] by simp

end
