(* ===== verification/Payload.thy ===== *)
theory Payload
  imports Ruleset
begin

text \<open>
  The readers of structured payloads beside the rule engine: telemetry documents by a strict ruleset
  (\<^verbatim>\<open>arch/xor/parser/ruleset/otlp.py\<close>) and the telemetry inside an answer of a tool server (\<^verbatim>\<open>arch/xor/parser/mcp.py\<close>).
\<close>

section \<open>The strict telemetry engine\<close>

text \<open>A part of a path that has only digits is an index, any other a key.\<close>

datatype path_step = Key string | Index nat

definition path_steps :: "string \<Rightarrow> path_step list" where
  "path_steps path = map (\<lambda>p. if isdigit p then Index (parse_nat p) else Key p) (split_char CHR ''.'' path)"

record otlp_ruleset =
  or_required :: "string list option"
  or_targets :: "rule_target list"

record otlp_engine =
  oe_required :: "string list"
  oe_paths :: "(string, path_step list) dict"

definition otlp_target :: "string \<Rightarrow> string \<Rightarrow> rule_target" where
  "otlp_target tag path = \<lparr>rt_tag = tag, rt_path = path, rt_keywords = []\<rparr>"

definition default_otlp_ruleset :: otlp_ruleset where
  "default_otlp_ruleset = \<lparr>or_required = Some [''resourceLogs''], or_targets =
     [otlp_target ''tenant_id'' ''resourceLogs.0.resource.attributes.tenant.id'',
      otlp_target ''model'' ''resourceLogs.0.scopeLogs.0.logRecords.0.attributes.llm.model'',
      otlp_target ''prompt_tokens'' ''resourceLogs.0.scopeLogs.0.logRecords.0.attributes.prompt_tokens'',
      otlp_target ''completion_tokens'' ''resourceLogs.0.scopeLogs.0.logRecords.0.attributes.completion_tokens'']\<rparr>"

definition parse_otlp :: "otlp_ruleset \<Rightarrow> otlp_engine" where
  "parse_otlp rs =
     \<lparr>oe_required = (case or_required rs of Some ks \<Rightarrow> ks | None \<Rightarrow> [''resourceLogs'']),
      oe_paths = fold (\<lambda>t. if rt_tag t \<noteq> [] \<and> rt_path t \<noteq> [] then dset (rt_tag t) (path_steps (rt_path t)) else id) (or_targets rs) []\<rparr>"

fun check_required :: "string list \<Rightarrow> pyval \<Rightarrow> unit res" where
  "check_required [] v = Inr ()"
| "check_required (k # ks) v =
     bind_res (py_in k v) (\<lambda>found.
       if found then check_required ks v
       else Inl (Exc ValueErr (''Strict parsing failed: Missing required OTLP root key '' @ k)))"

fun step_into :: "path_step \<Rightarrow> pyval \<Rightarrow> pyval option" where
  "step_into (Key k) (PDict d) = dget d k"
| "step_into (Index i) (PList xs) = (if i < length xs then Some (xs ! i) else None)"
| "step_into p v = None"

fun follow_steps :: "path_step list \<Rightarrow> pyval \<Rightarrow> pyval" where
  "follow_steps [] v = v"
| "follow_steps (p # ps) v = (case step_into p v of Some w \<Rightarrow> follow_steps ps w | None \<Rightarrow> PNone)"

definition otlp_execute :: "prims \<Rightarrow> otlp_engine \<Rightarrow> string \<Rightarrow> pydict res" where
  "otlp_execute P e payload =
     (case p_loads P payload of
        None \<Rightarrow> Inl (Exc ValueErr ''Malformed JSON payload'')
      | Some parsed \<Rightarrow>
          bind_res (check_required (oe_required e) parsed) (\<lambda>_.
            Inr (fold (\<lambda>(field, steps). dset field (follow_steps steps parsed)) (oe_paths e) [])))"

section \<open>Telemetry in a tool answer\<close>

text \<open>Position \<open>i\<close> of a list as Python counts it, from the end when negative.\<close>

definition list_at :: "'a list \<Rightarrow> int \<Rightarrow> 'a option" where
  "list_at xs i =
     (let j = (if i < 0 then i + int (length xs) else i) in if 0 \<le> j \<and> j < int (length xs) then Some (xs ! nat j) else None)"

text \<open>Attributes of numbers and texts come from the language: \<open>attr v k\<close> is \<open>getattr(v, k, None)\<close>.\<close>

fun resolve_keys :: "(pyval \<Rightarrow> string \<Rightarrow> pyval) \<Rightarrow> pyval \<Rightarrow> string list \<Rightarrow> pyval \<Rightarrow> pyval" where
  "resolve_keys attr dflt [] cur = (if cur = PNone then dflt else cur)"
| "resolve_keys attr dflt (k # ks) cur =
     (case cur of
        PNone \<Rightarrow> dflt
      | PDict d \<Rightarrow> resolve_keys attr dflt ks (dget_or d k PNone)
      | PList xs \<Rightarrow>
          (case py_int k of
             Inl _ \<Rightarrow> dflt
           | Inr i \<Rightarrow> (case list_at xs i of None \<Rightarrow> dflt | Some v \<Rightarrow> resolve_keys attr dflt ks v))
      | v \<Rightarrow> resolve_keys attr dflt ks (attr v k))"

definition mcp_resolve :: "(pyval \<Rightarrow> string \<Rightarrow> pyval) \<Rightarrow> pyval \<Rightarrow> string \<Rightarrow> pyval \<Rightarrow> pyval" where
  "mcp_resolve attr obj path dflt =
     (if path = [] \<or> obj = PNone then dflt else resolve_keys attr dflt (split_char CHR ''.'' path) obj)"

definition text_content_path :: string where
  "text_content_path = ''result.content.0.text''"

definition extract_telemetry :: "prims \<Rightarrow> (pyval \<Rightarrow> string \<Rightarrow> pyval) \<Rightarrow> pyval \<Rightarrow> pyval" where
  "extract_telemetry P attr payload =
     (case payload of
        PDict (e # es) \<Rightarrow>
          (case mcp_resolve attr payload text_content_path (PStr []) of
             PStr (c # cs) \<Rightarrow> (case p_loads P (c # cs) of Some (PDict d) \<Rightarrow> dget_or d ''telemetry'' PNone | _ \<Rightarrow> PNone)
           | _ \<Rightarrow> PNone)
      | _ \<Rightarrow> PNone)"

section \<open>The strict engine\<close>

lemma check_required_ok: "check_required ks v = Inr u \<longleftrightarrow> (\<forall>k \<in> set ks. py_in k v = Inr True)"
  by (induction ks) (auto simp: bind_res_def split: sum.split)

lemma parse_otlp_paths:
  "wf_dict (oe_paths (parse_otlp rs))"
  "dget (oe_paths (parse_otlp rs)) tag =
     map_option (\<lambda>t. path_steps (rt_path t)) (find (\<lambda>t. rt_tag t = tag \<and> tag \<noteq> [] \<and> rt_path t \<noteq> []) (rev (or_targets rs)))"
proof -
  define step where "step t = (if rt_tag t \<noteq> [] \<and> rt_path t \<noteq> [] then dset (rt_tag t) (path_steps (rt_path t)) else id)" for t :: rule_target
  have p: "oe_paths (parse_otlp rs) = fold step (or_targets rs) []" unfolding parse_otlp_def step_def by simp
  have "wf_dict (fold step ts d)" if "wf_dict d" for ts d
    using that by (induction ts arbitrary: d) (simp_all add: step_def)
  then show "wf_dict (oe_paths (parse_otlp rs))" unfolding p by simp
  have "dget (fold step ts []) tag = map_option (\<lambda>t. path_steps (rt_path t)) (find (\<lambda>t. rt_tag t = tag \<and> tag \<noteq> [] \<and> rt_path t \<noteq> []) (rev ts))" for ts
    by (induction ts rule: rev_induct) (auto simp: step_def)
  then show "dget (oe_paths (parse_otlp rs)) tag =
     map_option (\<lambda>t. path_steps (rt_path t)) (find (\<lambda>t. rt_tag t = tag \<and> tag \<noteq> [] \<and> rt_path t \<noteq> []) (rev (or_targets rs)))"
    unfolding p .
qed

text \<open>
  Strict extraction: the engine returns exactly when the payload parses and holds every required key, and the result then has,
  for each tag with a path, the value at the path of its last target, or nothing where the path leaves the document.
\<close>

theorem otlp_strict:
  "(\<exists>out. otlp_execute P (parse_otlp rs) payload = Inr out) \<longleftrightarrow>
     (\<exists>v. p_loads P payload = Some v \<and> (\<forall>k \<in> set (oe_required (parse_otlp rs)). py_in k v = Inr True))"
  "otlp_execute P (parse_otlp rs) payload = Inr out \<Longrightarrow> p_loads P payload = Some v \<Longrightarrow>
     dget out tag = map_option (\<lambda>t. follow_steps (path_steps (rt_path t)) v)
       (find (\<lambda>t. rt_tag t = tag \<and> tag \<noteq> [] \<and> rt_path t \<noteq> []) (rev (or_targets rs)))"
proof -
  have c: "(\<exists>u. check_required ks v = Inr u) \<longleftrightarrow> (\<forall>k \<in> set ks. py_in k v = Inr True)" for ks v
    using check_required_ok [of ks v] by blast
  show "(\<exists>out. otlp_execute P (parse_otlp rs) payload = Inr out) \<longleftrightarrow>
      (\<exists>v. p_loads P payload = Some v \<and> (\<forall>k \<in> set (oe_required (parse_otlp rs)). py_in k v = Inr True))"
    by (simp add: otlp_execute_def bind_res_Inr c [symmetric] split: option.split)
  assume "otlp_execute P (parse_otlp rs) payload = Inr out" "p_loads P payload = Some v"
  then have "out = fold (\<lambda>(field, steps). dset field (follow_steps steps v)) (oe_paths (parse_otlp rs)) []"
    by (simp add: otlp_execute_def bind_res_Inr)
  then show "dget out tag = map_option (\<lambda>t. follow_steps (path_steps (rt_path t)) v)
       (find (\<lambda>t. rt_tag t = tag \<and> tag \<noteq> [] \<and> rt_path t \<noteq> []) (rev (or_targets rs)))"
    by (simp add: fold_dset_get [where f = "\<lambda>steps. follow_steps steps v"] wf_dget_rev [OF parse_otlp_paths(1)] parse_otlp_paths(2) split: option.split)
qed

text \<open>Without digits in a path the strict engine reads what the structural one reads.\<close>

lemma follow_keys: "follow_steps (map Key ks) v = Ruleset.walk_path ks v"
  by (induction ks arbitrary: v) (auto split: pyval.split option.split)

theorem strict_as_structural:
  assumes "\<forall>t \<in> set ts. \<forall>p \<in> set (split_char CHR ''.'' (rt_path t)). \<not> isdigit p"
    and "otlp_execute P (parse_otlp \<lparr>or_required = req, or_targets = ts\<rparr>) payload = Inr out"
  shows "dget out tag = dget (extraction_execute P (parse_extraction \<lparr>rs_engine = None, rs_targets = ts\<rparr>) payload) tag"
proof -
  obtain v where v: "p_loads P payload = Some v" using assms(2) by (auto simp: otlp_execute_def split: option.splits)
  have "path_steps (rt_path t) = map Key (split_char CHR ''.'' (rt_path t))" if "t \<in> set ts" for t
    using assms(1) that by (simp add: path_steps_def)
  moreover have "t \<in> set ts" if "find Q (rev ts) = Some t" for Q t using that by (metis find_Some_iff nth_mem set_rev)
  ultimately show ?thesis
    using otlp_strict(2) [OF assms(2) v, of tag] v
    by (auto simp: extraction_exact follow_keys split: option.split)
qed

section \<open>What a tool answer gives\<close>

text \<open>Numbers, texts and truth values have no attribute named like a part of the path.\<close>

definition plain_attrs :: "(pyval \<Rightarrow> string \<Rightarrow> pyval) \<Rightarrow> bool" where
  "plain_attrs attr \<longleftrightarrow> (\<forall>v. list_all (\<lambda>k. attr v k = PNone) (split_char CHR ''.'' text_content_path))"

lemma plain_attrs_iff: "plain_attrs attr \<longleftrightarrow>
    (\<forall>v. attr v ''result'' = PNone \<and> attr v ''content'' = PNone \<and> attr v ''0'' = PNone \<and> attr v ''text'' = PNone)"
  by (simp add: plain_attrs_def text_content_path_def)

lemma resolve_None [simp]: "resolve_keys attr dflt ks PNone = dflt"
  by (cases ks) simp_all

lemma zero_index [simp]: "py_int ''0'' = Inr 0" by code_simp

lemma resolve_word:
  assumes "py_int k = Inl e" "\<forall>v. attr v k = PNone"
  shows "resolve_keys attr dflt (k # ks) v = (case v of PDict d \<Rightarrow> resolve_keys attr dflt ks (dget_or d k PNone) | _ \<Rightarrow> dflt)"
  using assms by (cases v) simp_all

lemma path_words: "\<exists>e. py_int w = Inl e" if "w \<in> {''result'', ''content'', ''text''}"
proof -
  have "isl (py_int ''result'')" "isl (py_int ''content'')" "isl (py_int ''text'')" by code_simp+
  with that show ?thesis by (auto simp: isl_def)
qed

definition item_text :: "pyval \<Rightarrow> string \<Rightarrow> bool" where
  "item_text v t \<longleftrightarrow> (case v of PDict item \<Rightarrow> dget item ''text'' = Some (PStr t) | _ \<Rightarrow> False)"

definition content_text :: "pyval \<Rightarrow> string \<Rightarrow> bool" where
  "content_text v t \<longleftrightarrow>
     (case v of PList (x # xs) \<Rightarrow> item_text x t
      | PDict d \<Rightarrow> (case dget d ''0'' of Some x \<Rightarrow> item_text x t | None \<Rightarrow> False) | _ \<Rightarrow> False)"

definition answer_text :: "pyval \<Rightarrow> string \<Rightarrow> bool" where
  "answer_text v t \<longleftrightarrow>
     (case v of PDict p \<Rightarrow>
        (case dget p ''result'' of Some (PDict r) \<Rightarrow> (case dget r ''content'' of Some c \<Rightarrow> content_text c t | None \<Rightarrow> False) | _ \<Rightarrow> False)
      | _ \<Rightarrow> False)"

lemma resolve_path_word:
  assumes "plain_attrs attr" "w \<in> {''result'', ''content'', ''text''}"
  shows "resolve_keys attr dflt (w # ks) v = (case v of PDict d \<Rightarrow> resolve_keys attr dflt ks (dget_or d w PNone) | _ \<Rightarrow> dflt)"
  using path_words [OF assms(2)] resolve_word [of w _ attr] assms by (auto simp: plain_attrs_iff)

lemma text_none [simp]: "\<not> item_text PNone t" "\<not> content_text PNone t"
  by (simp_all add: item_text_def content_text_def)

lemma resolve_item:
  assumes "plain_attrs attr" "t \<noteq> []"
  shows "resolve_keys attr (PStr []) [''text''] v = PStr t \<longleftrightarrow> item_text v t"
  using assms by (auto simp: resolve_path_word item_text_def dget_or_def simp del: resolve_keys.simps(2) split: pyval.splits option.splits)

lemma resolve_content:
  assumes "plain_attrs attr" "t \<noteq> []"
  shows "resolve_keys attr (PStr []) [''0'', ''text''] v = PStr t \<longleftrightarrow> content_text v t"
proof (cases v)
  case (PList xs)
  show ?thesis using assms
    by (cases xs) (simp_all add: PList resolve_item [OF assms] content_text_def list_at_def del: resolve_keys.simps(2) add: resolve_keys.simps(2) [of _ _ "''0''"])
next
  case (PDict d)
  then show ?thesis using assms resolve_item [OF assms]
    by (simp add: content_text_def dget_or_def del: resolve_keys.simps(2) add: resolve_keys.simps(2) [of _ _ "''0''"] split: option.split)
qed (use assms in \<open>auto simp: plain_attrs_iff content_text_def\<close>)

lemma resolve_answer:
  assumes "plain_attrs attr" "t \<noteq> []"
  shows "mcp_resolve attr v text_content_path (PStr []) = PStr t \<longleftrightarrow> answer_text v t"
proof (cases v)
  case (PDict p)
  have "mcp_resolve attr v text_content_path (PStr []) = resolve_keys attr (PStr []) [''content'', ''0'', ''text''] (dget_or p ''result'' PNone)"
    using assms(1) by (simp add: mcp_resolve_def text_content_path_def PDict resolve_path_word del: resolve_keys.simps(2))
  then show ?thesis
    using assms by (simp add: PDict answer_text_def dget_or_def resolve_path_word resolve_content del: resolve_keys.simps(2) split: option.split pyval.split)
qed (use assms in \<open>simp_all add: mcp_resolve_def text_content_path_def answer_text_def resolve_path_word del: resolve_keys.simps(2)\<close>)

text \<open>
  Telemetry of an answer: a value is found exactly when the answer's first content item carries a text that is a JSON object with
  that value under \<open>telemetry\<close>; any other payload gives nothing, and no payload raises.
\<close>

theorem telemetry_exact:
  assumes "plain_attrs attr" "v \<noteq> PNone"
  shows "extract_telemetry P attr payload = v \<longleftrightarrow>
    (\<exists>t d. answer_text payload t \<and> t \<noteq> [] \<and> p_loads P t = Some (PDict d) \<and> dget d ''telemetry'' = Some v)"
proof -
  let ?r = "mcp_resolve attr payload text_content_path (PStr [])"
  have r: "?r = PStr t \<longleftrightarrow> answer_text payload t" if "t \<noteq> []" for t by (rule resolve_answer [OF assms(1) that])
  have ne: "\<exists>e es. payload = PDict (e # es)" if "answer_text payload t" for t
    using that by (cases payload; cases "case payload of PDict d \<Rightarrow> d | _ \<Rightarrow> []") (auto simp: answer_text_def)
  show ?thesis
  proof
    assume l: "extract_telemetry P attr payload = v"
    then obtain c cs d where "?r = PStr (c # cs)" "p_loads P (c # cs) = Some (PDict d)" "dget_or d ''telemetry'' PNone = v"
      using assms(2) by (auto simp: extract_telemetry_def split: pyval.splits list.splits option.splits)
    then show "\<exists>t d. answer_text payload t \<and> t \<noteq> [] \<and> p_loads P t = Some (PDict d) \<and> dget d ''telemetry'' = Some v"
      using r [of "c # cs"] assms(2) by (intro exI [of _ "c # cs"] exI [of _ d]) (simp add: dget_or_def split: option.splits)
  next
    assume "\<exists>t d. answer_text payload t \<and> t \<noteq> [] \<and> p_loads P t = Some (PDict d) \<and> dget d ''telemetry'' = Some v"
    then obtain c cs d where t: "answer_text payload (c # cs)" "p_loads P (c # cs) = Some (PDict d)" "dget d ''telemetry'' = Some v"
      by (metis list.exhaust)
    from ne [OF t(1)] obtain e es where "payload = PDict (e # es)" by blast
    moreover from t(1) r have "?r = PStr (c # cs)" by simp
    ultimately show "extract_telemetry P attr payload = v" using t by (simp add: extract_telemetry_def dget_or_def)
  qed
qed

section \<open>Witnesses\<close>

definition doc_prims :: "pyval \<Rightarrow> prims" where
  "doc_prims v = \<lparr>p_sha256 = id, p_canon = (\<lambda>_. []), p_dumps = (\<lambda>_. []), p_loads = (\<lambda>s. if s = [] then None else Some v),
     p_float_of_int = (\<lambda>_. NaN), p_float_of_str = (\<lambda>_. Inl (Exc ValueErr [])), p_repr = (\<lambda>_. [])\<rparr>"

definition sample_log :: pyval where
  "sample_log = PDict [(''resourceLogs'', PList [PDict [(''resource'', PDict [(''attributes'', PDict [(''tenant.id'', PStr ''acme'')])]),
     (''scopeLogs'', PList [PDict [(''logRecords'', PList [PDict [(''attributes'', PDict [(''prompt_tokens'', PInt 7)])]])]])]])]"

theorem otlp_strict_witness:
  "\<exists>out. otlp_execute (doc_prims sample_log) (parse_otlp default_otlp_ruleset) ''x'' = Inr out \<and>
     dget out ''prompt_tokens'' = Some (PInt 7) \<and> dget out ''tenant_id'' = Some PNone \<and> dget out ''other'' = None"
proof -
  let ?P = "doc_prims sample_log" and ?e = "parse_otlp default_otlp_ruleset"
  have v: "p_loads ?P ''x'' = Some sample_log" by (simp add: doc_prims_def)
  have "\<forall>k \<in> set (oe_required ?e). py_in k sample_log = Inr True"
    by code_simp
  with v obtain out where out: "otlp_execute ?P ?e ''x'' = Inr out" using otlp_strict(1) [of ?P default_otlp_ruleset "''x''"] by blast
  note g = otlp_strict(2) [OF out v]
  have "dget out ''prompt_tokens'' = Some (PInt 7)" unfolding g by code_simp
  moreover have "dget out ''tenant_id'' = Some PNone" unfolding g by code_simp
  moreover have "dget out ''other'' = None" unfolding g by code_simp
  ultimately show ?thesis using out by blast
qed

theorem strict_as_structural_witness:
  "dget (extraction_execute (doc_prims (PDict [(''a'', PInt 1)])) (parse_extraction \<lparr>rs_engine = None, rs_targets = [otlp_target ''t'' ''a'']\<rparr>) ''x'') ''t'' = Some (PInt 1)"
proof -
  let ?P = "doc_prims (PDict [(''a'', PInt 1)])"
  have "otlp_execute ?P (parse_otlp \<lparr>or_required = Some [], or_targets = [otlp_target ''t'' ''a'']\<rparr>) ''x'' = Inr [(''t'', PInt 1)]" by code_simp
  from strict_as_structural [OF _ this, of "''t''"] show ?thesis by (simp add: otlp_target_def isdigit_def digit_chars_def)
qed

definition sample_answer :: pyval where
  "sample_answer = PDict [(''result'', PDict [(''content'', PList [PDict [(''text'', PStr ''x'')]])])]"

theorem telemetry_exact_witness:
  "extract_telemetry (doc_prims (PDict [(''telemetry'', PInt 3)])) (\<lambda>_ _. PNone) sample_answer = PInt 3"
proof -
  have "answer_text sample_answer ''x''" by code_simp
  then show ?thesis
    by (subst telemetry_exact) (auto simp: plain_attrs_iff doc_prims_def)
qed

end
