(* ===== verification/Binder.thy ===== *)
theory Binder
  imports Payload TextUtil
begin

text \<open>
  Tools by naming convention (\<^verbatim>\<open>arch/contract/protocol/binder.py\<close>): the methods of a worker named \<open>tool_\<dots>\<close> are bound, their
  signatures and documentation become the schemas that are published, and the arguments of a call are checked and converted by
  the same signatures.
\<close>

section \<open>Signatures\<close>

text \<open>
  Type hints as far as the code tells them apart. \<open>HList\<close> is the bare \<open>list\<close> and \<open>HListOf\<close> a list with its arguments (none for
  the bare \<open>List\<close> of \<open>typing\<close>); \<open>HOther\<close> is any other annotation, one that stayed a text included.
\<close>

datatype hint =
    HEmpty | HAny | HStr | HInt | HFloat | HBool | HNoneType | HDict | HList
  | HListOf "hint list" | HUnion "hint list" | HLiteral "pyval list" | HOther

record param =
  pa_name :: string
  pa_annotation :: hint
  pa_default :: "pyval option"
  pa_variadic :: bool

record tool =
  to_params :: "param list"
  to_hints :: "(string, hint) dict option"
  to_doc :: string

definition type_hint :: "tool \<Rightarrow> param \<Rightarrow> hint" where
  "type_hint t p = dget_or (case to_hints t of Some hs \<Rightarrow> hs | None \<Rightarrow> []) (pa_name p) (pa_annotation p)"

section \<open>Documentation\<close>

definition is_word_start :: "char \<Rightarrow> bool" where
  "is_word_start c \<longleftrightarrow> c \<in> set ''abcdefghijklmnopqrstuvwxyzABCDEFGHIJKLMNOPQRSTUVWXYZ_''"

definition is_word_char :: "char \<Rightarrow> bool" where
  "is_word_char c \<longleftrightarrow> is_word_start c \<or> c \<in> set digit_chars"

abbreviation space_char :: regex where
  "space_char \<equiv> Chars (\<lambda>c. c \<in> set whitespace)"

abbreviation chr :: "char \<Rightarrow> regex" where
  "chr c \<equiv> Chars (\<lambda>d. d = c)"

definition param_doc_re :: regex where
  "param_doc_re =
     Then AtStart
    (Then (maybe (Either (Then (Chars (\<lambda>c. c \<in> set '':@'')) (Then (lit ''param'') (Then space_char (Many space_char))))
                 (Either (Then (chr CHR ''-'') (Many space_char)) (Then (chr CHR ''*'') (Many space_char)))))
    (Then (Capture 1 (Then (Chars is_word_start) (Many (Chars is_word_char))))
    (Then (Many space_char)
    (Then (maybe (Then (chr CHR ''('') (Then (Many (Chars (\<lambda>c. c \<noteq> CHR '')''))) (chr CHR '')''))))
    (Then (Many space_char)
    (Then (chr CHR '':'')
    (Then (Many space_char)
    (Then (Capture 2 (Then any_char (Many any_char))) AtEnd))))))))"

text \<open>\<open>s.splitlines()\<close>, for the line ends below 128.\<close>

fun split_lines :: "string \<Rightarrow> string list" where
  "split_lines [] = []"
| "split_lines [c] = (if c \<in> set line_ends then [[]] else [[c]])"
| "split_lines (c # d # s) =
     (if c = CHR 0x0D \<and> d = CHR 0x0A then [] # split_lines s
      else if c \<in> set line_ends then [] # split_lines (d # s)
      else (case split_lines (d # s) of [] \<Rightarrow> [[c]] | l # ls \<Rightarrow> (c # l) # ls))"

definition args_headings :: "string list" where
  "args_headings = [''args:'', ''arguments:'', ''parameters:'', ''params:'']"

record doc_state =
  ds_summary :: "string list"
  ds_params :: "(string, string) dict"
  ds_in_args :: bool

definition doc_line :: "string \<Rightarrow> doc_state \<Rightarrow> doc_state" where
  "doc_line raw_line st =
     (let line = strip raw_line in
      if line = [] then st
      else if lower line \<in> set args_headings then st\<lparr>ds_in_args := True\<rparr>
      else let m = re_match line param_doc_re in
        if m \<noteq> None \<and> (ds_in_args st \<or> hd line \<in> set '':@-*'') then
          (case m of
             Some f \<Rightarrow>
               (case (group_text line f 1, group_text line f 2) of
                  (Some name, Some descr) \<Rightarrow> st\<lparr>ds_params := dset name (strip descr) (ds_params st)\<rparr>
                | _ \<Rightarrow> st)
           | None \<Rightarrow> st)
        else if \<not> ds_in_args st \<and> ds_params st = [] then st\<lparr>ds_summary := ds_summary st @ [line]\<rparr>
        else st)"

definition parse_docstring :: "string \<Rightarrow> string \<times> (string, string) dict" where
  "parse_docstring doc =
     (if doc = [] then ([], [])
      else let st = fold doc_line (split_lines (strip doc)) \<lparr>ds_summary = [], ds_params = [], ds_in_args = False\<rparr>
           in (join '' '' (ds_summary st), ds_params st))"

section \<open>Schemas\<close>

definition schema_of :: "string \<Rightarrow> pydict" where
  "schema_of name = [(''type'', PStr name)]"

function py_type_to_json_schema :: "hint \<Rightarrow> pydict" where
  "py_type_to_json_schema (HUnion args) =
     (case filter (\<lambda>a. a \<noteq> HNoneType) args of [a] \<Rightarrow> py_type_to_json_schema a | _ \<Rightarrow> schema_of ''string'')"
| "py_type_to_json_schema (HLiteral args) = [(''type'', PStr ''string''), (''enum'', PList args)]"
| "py_type_to_json_schema (HListOf args) =
     [(''type'', PStr ''array''), (''items'', PDict (case args of a # _ \<Rightarrow> py_type_to_json_schema a | [] \<Rightarrow> schema_of ''string''))]"
| "py_type_to_json_schema HDict = schema_of ''object''"
| "py_type_to_json_schema HInt = schema_of ''integer''"
| "py_type_to_json_schema HFloat = schema_of ''number''"
| "py_type_to_json_schema HBool = schema_of ''boolean''"
| "py_type_to_json_schema HStr = schema_of ''string''"
| "py_type_to_json_schema HEmpty = schema_of ''string''"
| "py_type_to_json_schema HAny = schema_of ''string''"
| "py_type_to_json_schema HNoneType = schema_of ''string''"
| "py_type_to_json_schema HList = schema_of ''string''"
| "py_type_to_json_schema HOther = schema_of ''string''"
  by pat_completeness auto
termination
proof (relation "measure size", goal_cases)
  case (2 args a as)
  then have "a \<in> set (filter (\<lambda>a. a \<noteq> HNoneType) args)" by simp
  then have "a \<in> set args" by simp
  from size_list_estimation' [OF this, of "size a" size] show ?case by simp
qed (auto simp: less_Suc_eq_le)

definition is_meta :: "param \<Rightarrow> bool" where
  "is_meta p \<longleftrightarrow> pa_name p = ''meta'' \<or> pa_name p = ''_meta''"

text \<open>The parameters a caller may give: not the receiver, not the metadata, not the collecting ones.\<close>

definition schema_params :: "tool \<Rightarrow> param list" where
  "schema_params t = filter (\<lambda>p. pa_name p \<noteq> ''self'' \<and> \<not> is_meta p \<and> \<not> pa_variadic p) (to_params t)"

definition prop_schema :: "tool \<Rightarrow> (string, string) dict \<Rightarrow> param \<Rightarrow> pydict" where
  "prop_schema t descs p =
     (let s = py_type_to_json_schema (type_hint t p);
          s = (case pa_default p of Some v \<Rightarrow> if v \<noteq> PNone then dset ''default'' v s else s | None \<Rightarrow> s)
      in case dget descs (pa_name p) of Some d \<Rightarrow> dset ''description'' (PStr d) s | None \<Rightarrow> s)"

definition build_tool_schema :: "string \<Rightarrow> tool \<Rightarrow> pydict" where
  "build_tool_schema name t =
     (let (summary, descs) = parse_docstring (to_doc t);
          properties = fold (\<lambda>p. dset (pa_name p) (PDict (prop_schema t descs p))) (schema_params t) [];
          required = map (PStr \<circ> pa_name) (filter (\<lambda>p. pa_default p = None) (schema_params t))
      in [(''name'', PStr name),
          (''inputSchema'', PDict [(''type'', PStr ''object''), (''properties'', PDict properties), (''required'', PList required)])] @
         (if summary \<noteq> [] then [(''description'', PStr summary)] else []))"

text \<open>\<open>dir(self)\<close> with the members that can be called.\<close>

definition init_tool_binder :: "(string \<times> tool option) list \<Rightarrow> (string, tool) dict \<times> pydict list" where
  "init_tool_binder attrs =
     fold (\<lambda>(attr, member) (bound, schemas).
         case member of
           Some t \<Rightarrow> if startswith attr ''tool_'' then (dset (drop 5 attr) t bound, schemas @ [build_tool_schema (drop 5 attr) t]) else (bound, schemas)
         | None \<Rightarrow> (bound, schemas)) attrs ([], [])"

section \<open>Arguments of a call\<close>

text \<open>\<open>arguments[name]\<close>, after \<open>name in arguments\<close>.\<close>

fun argument_at :: "pyval \<Rightarrow> string \<Rightarrow> pyval res" where
  "argument_at (PDict d) k = (case dget d k of Some v \<Rightarrow> Inr v | None \<Rightarrow> Inl (Exc KeyErr k))"
| "argument_at v k = Inl (Exc TypeErr ''indices must be integers or slices, not str'')"

definition is_bool :: "pyval \<Rightarrow> bool" where
  "is_bool v \<longleftrightarrow> (case v of PBool _ \<Rightarrow> True | _ \<Rightarrow> False)"

definition convert_argument :: "prims \<Rightarrow> hint \<Rightarrow> pyval \<Rightarrow> pyval res" where
  "convert_argument P h v =
     (if h = HInt \<and> v \<noteq> PNone \<and> \<not> is_bool v then bind_res (py_int_of v) (\<lambda>i. Inr (PInt i))
      else if h = HFloat \<and> v \<noteq> PNone \<and> \<not> is_bool v then bind_res (py_float_of P v) (\<lambda>f. Inr (PFloat f))
      else if h = HStr \<and> v \<noteq> PNone then Inr (PStr (py_str P v))
      else Inr v)"

fun prepare_params :: "prims \<Rightarrow> tool \<Rightarrow> pyval \<Rightarrow> pyval \<Rightarrow> param list \<Rightarrow> pydict \<Rightarrow> pydict res" where
  "prepare_params P t arguments meta [] kw = Inr kw"
| "prepare_params P t arguments meta (p # ps) kw =
     (if pa_name p = ''self'' then prepare_params P t arguments meta ps kw
      else if is_meta p then prepare_params P t arguments meta ps (dset (pa_name p) meta kw)
      else if pa_variadic p then prepare_params P t arguments meta ps kw
      else bind_res (py_in (pa_name p) arguments) (\<lambda>given.
        if given then
          bind_res (argument_at arguments (pa_name p)) (\<lambda>v.
          bind_res (convert_argument P (type_hint t p) v) (\<lambda>w.
            prepare_params P t arguments meta ps (dset (pa_name p) w kw)))
        else case pa_default p of
          Some v \<Rightarrow> prepare_params P t arguments meta ps (dset (pa_name p) v kw)
        | None \<Rightarrow> Inl (Exc ValueErr (''Missing required parameter: '' @ squote @ pa_name p @ squote))))"

definition prepare_call_kwargs :: "prims \<Rightarrow> tool \<Rightarrow> pyval \<Rightarrow> pyval \<Rightarrow> pydict res" where
  "prepare_call_kwargs P t arguments meta = prepare_params P t arguments meta (to_params t) []"

section \<open>Results\<close>

text \<open>
  What a tool returns: a JSON value, or one that \<open>json.dumps\<close> refuses with an exception; \<open>True\<close> if it is a dictionary with a
  \<open>content\<close> list.
\<close>

datatype result_value = Plain pyval | Opaque exc bool

definition has_content :: "pyval \<Rightarrow> bool" where
  "has_content v \<longleftrightarrow> (case v of PDict d \<Rightarrow> (case dget d ''content'' of Some (PList _) \<Rightarrow> True | _ \<Rightarrow> False) | _ \<Rightarrow> False)"

definition text_result :: "string \<Rightarrow> bool \<Rightarrow> pyval" where
  "text_result text is_error =
     PDict [(''content'', PList [PDict [(''type'', PStr ''text''), (''text'', PStr text)]]), (''isError'', PBool is_error)]"

fun wrap_mcp_result :: "prims \<Rightarrow> result_value \<Rightarrow> bool \<Rightarrow> result_value res" where
  "wrap_mcp_result P (Plain v) is_error =
     Inr (Plain (if has_content v then v else case v of PStr s \<Rightarrow> text_result s is_error | _ \<Rightarrow> text_result (p_dumps P v) is_error))"
| "wrap_mcp_result P (Opaque e True) is_error = Inr (Opaque e True)"
| "wrap_mcp_result P (Opaque e False) is_error = Inl e"

section \<open>The published schema is what a call is checked against\<close>

definition given_ok :: "prims \<Rightarrow> tool \<Rightarrow> pydict \<Rightarrow> param \<Rightarrow> bool" where
  "given_ok P t d p \<longleftrightarrow>
     (case dget d (pa_name p) of Some v \<Rightarrow> \<not> isl (convert_argument P (type_hint t p) v) | None \<Rightarrow> pa_default p \<noteq> None)"

lemma given_ok_iff: "given_ok P t d p \<longleftrightarrow> (pa_default p = None \<longrightarrow> dhas d (pa_name p)) \<and>
    (\<forall>v. dget d (pa_name p) = Some v \<longrightarrow> (\<exists>w. convert_argument P (type_hint t p) v = Inr w))"
proof (cases "dget d (pa_name p)")
  case (Some v)
  then show ?thesis by (cases "convert_argument P (type_hint t p) v") (simp_all add: given_ok_def dhas_def)
qed (simp add: given_ok_def dhas_def)

lemma prepare_params_returns:
  "(\<exists>kw'. prepare_params P t (PDict d) meta ps kw = Inr kw') \<longleftrightarrow>
     (\<forall>p \<in> set (filter (\<lambda>p. pa_name p \<noteq> ''self'' \<and> \<not> is_meta p \<and> \<not> pa_variadic p) ps). given_ok P t d p)"
proof (induction ps arbitrary: kw)
  case (Cons p ps)
  show ?case
  proof (cases "dget d (pa_name p)")
    case None
    then show ?thesis using Cons.IH by (auto simp: given_ok_def dhas_def split: option.split)
  next
    case (Some v)
    then show ?thesis using Cons.IH by (cases "convert_argument P (type_hint t p) v") (auto simp: given_ok_def dhas_def)
  qed
qed simp

text \<open>
  The published list of required parameters is exact: for a call with an argument object the arguments are accepted if and only if
  every parameter of that list is given and every given one converts to its type.
\<close>

theorem required_list_exact:
  assumes "dget (build_tool_schema name t) ''inputSchema'' = Some (PDict i)" "dget i ''required'' = Some (PList req)"
  shows "(\<exists>kw. prepare_call_kwargs P t (PDict d) meta = Inr kw) \<longleftrightarrow>
    (\<forall>k. PStr k \<in> set req \<longrightarrow> dhas d k) \<and>
    (\<forall>p \<in> set (schema_params t). \<forall>v. dget d (pa_name p) = Some v \<longrightarrow> (\<exists>w. convert_argument P (type_hint t p) v = Inr w))"
proof -
  have req: "req = map (PStr \<circ> pa_name) (filter (\<lambda>p. pa_default p = None) (schema_params t))"
    using assms by (auto simp: build_tool_schema_def Let_def split: prod.splits)
  have "(\<exists>kw. prepare_call_kwargs P t (PDict d) meta = Inr kw) \<longleftrightarrow> (\<forall>p \<in> set (schema_params t). given_ok P t d p)"
    by (simp add: prepare_call_kwargs_def prepare_params_returns schema_params_def)
  also have "\<dots> \<longleftrightarrow> (\<forall>k. PStr k \<in> set req \<longrightarrow> dhas d k) \<and>
      (\<forall>p \<in> set (schema_params t). \<forall>v. dget d (pa_name p) = Some v \<longrightarrow> (\<exists>w. convert_argument P (type_hint t p) v = Inr w))"
    by (auto simp: req given_ok_iff ball_conj_distrib)
  finally show ?thesis .
qed

lemma prepare_params_keys:
  assumes "prepare_params P t a meta ps kw = Inr kw'"
  shows "set (dkeys kw') = set (dkeys kw) \<union> pa_name ` {p \<in> set ps. pa_name p \<noteq> ''self'' \<and> (is_meta p \<or> \<not> pa_variadic p)}"
  using assms
proof (induction ps arbitrary: kw)
  case (Cons p ps)
  from Cons.prems show ?case
    by (auto simp: bind_res_Inr set_dkeys_dset dest!: Cons.IH split: if_splits option.splits)
qed simp

lemma tool_name_inj: "startswith a ''tool_'' \<Longrightarrow> startswith b ''tool_'' \<Longrightarrow> drop 5 a = drop 5 b \<longleftrightarrow> a = b"
  by (auto simp: startswith_iff prefix_def)

lemma schema_name: "dget (build_tool_schema name t) ''name'' = Some (PStr name)"
  by (cases "parse_docstring (to_doc t)") (simp add: build_tool_schema_def Let_def)

lemma dkeys_dset_new: "\<not> dhas d k \<Longrightarrow> dkeys (dset k v d) = dkeys d @ [k]"
  by (induction d) (auto simp: dkeys_def dhas_def split: if_splits)

text \<open>
  The bound tools and the published schemas name the same tools, one schema each in the order of the members.
\<close>

theorem tools_and_schemas:
  assumes "distinct (map fst attrs)"
  shows "dkeys (fst (init_tool_binder attrs)) = map (drop 5 \<circ> fst) (filter (\<lambda>(a, m). startswith a ''tool_'' \<and> m \<noteq> None) attrs) \<and>
    map (\<lambda>s. dget s ''name'') (snd (init_tool_binder attrs)) = map (Some \<circ> PStr) (dkeys (fst (init_tool_binder attrs)))"
  using assms
proof (induction attrs rule: rev_induct)
  case Nil
  show ?case by (simp add: init_tool_binder_def dkeys_def)
next
  case (snoc x attrs)
  obtain a m where x: "x = (a, m)" by (cases x)
  obtain bound schemas where i: "init_tool_binder attrs = (bound, schemas)" by (cases "init_tool_binder attrs")
  then have step: "init_tool_binder (attrs @ [x]) =
      (case m of Some t \<Rightarrow> if startswith a ''tool_'' then (dset (drop 5 a) t bound, schemas @ [build_tool_schema (drop 5 a) t]) else (bound, schemas)
       | None \<Rightarrow> (bound, schemas))"
    by (simp add: init_tool_binder_def x)
  have IH: "dkeys bound = map (drop 5 \<circ> fst) (filter (\<lambda>(a, m). startswith a ''tool_'' \<and> m \<noteq> None) attrs)"
    "map (\<lambda>s. dget s ''name'') schemas = map (Some \<circ> PStr) (dkeys bound)" using snoc i by simp_all
  show ?case
  proof (cases "startswith a ''tool_'' \<and> m \<noteq> None")
    case True
    have "drop 5 a \<notin> set (dkeys bound)"
    proof
      assume "drop 5 a \<in> set (dkeys bound)"
      then obtain b n where "(b, n) \<in> set attrs" "startswith b ''tool_''" "drop 5 a = drop 5 b" by (auto simp: IH(1))
      then have "a \<in> set (map fst attrs)" using tool_name_inj True by force
      then show False using snoc.prems x by simp
    qed
    then have "\<not> dhas bound (drop 5 a)" by (simp add: dhas_iff)
    with True step IH show ?thesis by (auto simp: x dkeys_dset_new schema_name)
  next
    case False
    with step IH show ?thesis by (auto simp: x split: option.split)
  qed
qed

section \<open>Witnesses\<close>

definition sample_tool :: tool where
  "sample_tool = \<lparr>to_params = [\<lparr>pa_name = ''count'', pa_annotation = HInt, pa_default = None, pa_variadic = False\<rparr>,
     \<lparr>pa_name = ''label'', pa_annotation = HStr, pa_default = Some (PStr ''x''), pa_variadic = False\<rparr>,
     \<lparr>pa_name = ''meta'', pa_annotation = HDict, pa_default = None, pa_variadic = False\<rparr>], to_hints = None, to_doc = ''Counts.''\<rparr>"

theorem required_list_exact_witness:
  "\<exists>kw. prepare_call_kwargs (doc_prims PNone) sample_tool (PDict [(''count'', PStr ''12'')]) PNone = Inr kw"
proof -
  let ?t = sample_tool
  have "dget (build_tool_schema ''c'' ?t) ''inputSchema'' = Some (PDict (case dget (build_tool_schema ''c'' ?t) ''inputSchema'' of Some (PDict i) \<Rightarrow> i | _ \<Rightarrow> []))"
    and "dget (case dget (build_tool_schema ''c'' ?t) ''inputSchema'' of Some (PDict i) \<Rightarrow> i | _ \<Rightarrow> []) ''required'' = Some (PList [PStr ''count''])"
    by code_simp+
  note e = required_list_exact [OF this, of "doc_prims PNone" "[(''count'', PStr ''12'')]" PNone]
  have "py_int ''12'' = Inr 12" by code_simp
  then show ?thesis
    unfolding e by (auto simp: dhas_def schema_params_def sample_tool_def type_hint_def dget_or_def convert_argument_def is_bool_def is_meta_def)
qed

theorem tools_and_schemas_witness:
  "dkeys (fst (init_tool_binder [(''log'', None), (''tool_count'', Some sample_tool)])) = [''count'']"
  using tools_and_schemas [of "[(''log'', None), (''tool_count'', Some sample_tool)]"] by (simp add: startswith_def)

end
