(* ===== verification/Worker.thy ===== *)
theory Worker
  imports Binder "HOL-Library.Multiset"
begin

text \<open>
  Workers that serve tools over their standard streams (\<^verbatim>\<open>arch/contract/protocol/worker.py\<close>): the sequential worker answers a
  line before it reads the next, the asynchronous one starts a task for each. Standard output is kept for the answers, since
  the module sends \<open>sys.stdout\<close> to the error stream. A tool that ends the process, and a broken pipe, are outside the model.
\<close>

section \<open>Messages\<close>

record 'w worker =
  wk_tools :: "(string, tool) dict"
  wk_schemas :: "pydict list"
  wk_out :: "string list"
  wk_req :: pyval
  wk_world :: 'w

text \<open>What a call of a tool comes to; the tools themselves are a parameter.\<close>

datatype outcome = Returned result_value | RaisedTool string | Raised exc

type_synonym 'w tool_impl = "string \<Rightarrow> pydict \<Rightarrow> 'w \<Rightarrow> outcome \<times> 'w"

definition new_worker :: "(string \<times> tool option) list \<Rightarrow> 'w \<Rightarrow> 'w worker" where
  "new_worker attrs w = \<lparr>wk_tools = fst (init_tool_binder attrs), wk_schemas = snd (init_tool_binder attrs), wk_out = [], wk_req = PStr ''SYSTEM'', wk_world = w\<rparr>"

definition rpc_line :: "prims \<Rightarrow> pydict \<Rightarrow> string" where
  "rpc_line P m = p_dumps P (PDict (dset ''jsonrpc'' (PStr ''2.0'') m)) @ [CHR 0x0A]"

definition emit_rpc :: "prims \<Rightarrow> pydict \<Rightarrow> 'w worker \<Rightarrow> 'w worker" where
  "emit_rpc P m st = st\<lparr>wk_out := wk_out st @ [rpc_line P m]\<rparr>"

definition error_message :: "pyval \<Rightarrow> int \<Rightarrow> string \<Rightarrow> pyval option \<Rightarrow> pydict" where
  "error_message req_id code message data =
     [(''id'', req_id),
      (''error'', PDict ([(''code'', PInt code), (''message'', PStr message)] @ (case data of Some d \<Rightarrow> [(''data'', d)] | None \<Rightarrow> [])))]"

definition send_error :: "prims \<Rightarrow> pyval \<Rightarrow> int \<Rightarrow> string \<Rightarrow> 'w worker \<Rightarrow> 'w worker" where
  "send_error P req_id code message = emit_rpc P (error_message req_id code message None)"

text \<open>A result that JSON refuses with a \<open>TypeError\<close> is replaced by an error; any other exception of the codec leaves the call.\<close>

fun send_response :: "prims \<Rightarrow> pyval \<Rightarrow> result_value \<Rightarrow> ('w worker, unit) prog" where
  "send_response P req_id (Plain v) st = (Inr (), emit_rpc P [(''id'', req_id), (''result'', v)] st)"
| "send_response P req_id (Opaque e b) st =
     (if kind_of_exc e = TypeErr then (Inr (), send_error P req_id (-32603) ''Internal Serialization Error'' st) else (Inl e, st))"

definition send_request :: "prims \<Rightarrow> pyval \<Rightarrow> string \<Rightarrow> pydict option \<Rightarrow> 'w worker \<Rightarrow> 'w worker" where
  "send_request P req_id meth params =
     emit_rpc P ([(''id'', req_id), (''method'', PStr meth)] @ (case params of Some p \<Rightarrow> [(''params'', PDict p)] | None \<Rightarrow> []))"

section \<open>Calls of tools\<close>

text \<open>The exceptions that are a \<open>ValueError\<close>, a \<open>TypeError\<close> or a \<open>KeyError\<close>.\<close>

definition is_param_error :: "exc_kind \<Rightarrow> bool" where
  "is_param_error k \<longleftrightarrow> k \<in> {ValueErr, TypeErr, KeyErr, JsonDecodeErr, ValidationErr}"

definition tool_failed :: "prims \<Rightarrow> pyval \<Rightarrow> exc \<Rightarrow> ('w worker, unit) prog" where
  "tool_failed P req_id e st =
     (if is_param_error (kind_of_exc e) then (Inr (), send_error P req_id (-32602) (''Invalid params: '' @ msg_of_exc e) st)
      else (Inr (), send_error P req_id (-32000) (msg_of_exc e) st))"

fun find_tool :: "pyval \<Rightarrow> (string, tool) dict \<Rightarrow> (string \<times> tool) option res" where
  "find_tool (PStr n) tools = Inr (map_option (Pair n) (dget tools n))"
| "find_tool (PList xs) tools = Inl (Exc TypeErr ''unhashable type: list'')"
| "find_tool (PDict d) tools = Inl (Exc TypeErr ''unhashable type: dict'')"
| "find_tool v tools = Inr None"

definition send_result :: "prims \<Rightarrow> pyval \<Rightarrow> result_value \<Rightarrow> ('w worker, unit) prog" where
  "send_result P req_id v st =
     (case bindp (lift_res (wrap_mcp_result P v False)) (send_response P req_id) st of
        (Inl e, st') \<Rightarrow> tool_failed P req_id e st'
      | r \<Rightarrow> r)"

definition call_tool :: "'w tool_impl \<Rightarrow> prims \<Rightarrow> pyval \<Rightarrow> string \<Rightarrow> tool \<Rightarrow> pyval \<Rightarrow> pyval \<Rightarrow> ('w worker, unit) prog" where
  "call_tool I P req_id n t arguments meta st =
     (case prepare_call_kwargs P t arguments meta of
        Inl e \<Rightarrow> tool_failed P req_id e st
      | Inr kw \<Rightarrow>
          (case I n kw (wk_world st) of
             (Returned v, w) \<Rightarrow> send_result P req_id v (st\<lparr>wk_world := w\<rparr>)
           | (RaisedTool m, w) \<Rightarrow> send_response P req_id (Plain (text_result m True)) (st\<lparr>wk_world := w\<rparr>)
           | (Raised e, w) \<Rightarrow> tool_failed P req_id e (st\<lparr>wk_world := w\<rparr>)))"

definition handle_tools_call ::
  "(string \<Rightarrow> string) \<Rightarrow> 'w tool_impl \<Rightarrow> prims \<Rightarrow> pyval \<Rightarrow> pyval \<Rightarrow> pyval \<Rightarrow> pyval \<Rightarrow> ('w worker, unit) prog" where
  "handle_tools_call unknown I P req_id tool_name arguments meta st =
     (case find_tool tool_name (wk_tools st) of
        Inl e \<Rightarrow> (Inl e, st)
      | Inr None \<Rightarrow> (Inr (), send_error P req_id (-32601) (unknown (py_str P tool_name)) st)
      | Inr (Some (n, t)) \<Rightarrow> call_tool I P req_id n t arguments meta st)"

definition handle_tools_list :: "prims \<Rightarrow> pyval \<Rightarrow> ('w worker, unit) prog" where
  "handle_tools_list P req_id st = send_response P req_id (Plain (PDict [(''tools'', PList (map PDict (wk_schemas st)))])) st"

section \<open>The sequential worker\<close>

definition or_empty :: "pyval \<Rightarrow> pyval" where
  "or_empty v = (if truthy v then v else PDict [])"

definition dispatch_method :: "(string \<Rightarrow> string) \<Rightarrow> 'w tool_impl \<Rightarrow> prims \<Rightarrow> pyval \<Rightarrow> pyval \<Rightarrow> pyval \<Rightarrow> ('w worker, unit) prog" where
  "dispatch_method unknown I P req_id meth params st =
     (if meth = PStr ''initialize'' then
        send_response P req_id (Plain (PDict [(''protocolVersion'', PStr ''2026-09-04''), (''capabilities'', PDict [])])) st
      else if meth = PStr ''tools/list'' then handle_tools_list P req_id st
      else if meth = PStr ''tools/call'' then
        bindp (lift_res (as_dict params)) (\<lambda>p.
          handle_tools_call unknown I P req_id (dget_or p ''name'' PNone) (or_empty (dget_or p ''arguments'' (PDict [])))
            (or_empty (dget_or p ''_meta'' (PDict [])))) st
      else (Inr (), send_error P req_id (-32601) (''Unknown method: '' @ py_str P meth) st))"

definition route_request :: "'w tool_impl \<Rightarrow> prims \<Rightarrow> pyval \<Rightarrow> ('w worker, unit) prog" where
  "route_request I P req =
     bindp (lift_res (as_dict req)) (\<lambda>d st.
       let req_id = dget_or d ''id'' PNone in
       case dispatch_method (\<lambda>n. ''Unknown tool: '' @ n) I P req_id (dget_or d ''method'' PNone) (dget_or d ''params'' (PDict [])) (st\<lparr>wk_req := req_id\<rparr>) of
         (Inl e, st') \<Rightarrow> (Inr (), (send_error P req_id (-32000) (msg_of_exc e) st')\<lparr>wk_req := wk_req st\<rparr>)
       | (Inr u, st') \<Rightarrow> (Inr u, st'\<lparr>wk_req := wk_req st\<rparr>))"

definition payload_id :: "pyval \<Rightarrow> pyval" where
  "payload_id payload = (case payload of PDict d \<Rightarrow> dget_or d ''id'' PNone | _ \<Rightarrow> PNone)"

definition serve_line :: "'w tool_impl \<Rightarrow> prims \<Rightarrow> string \<Rightarrow> 'w worker \<Rightarrow> 'w worker" where
  "serve_line I P raw st =
     (let line = strip raw in
      if line = [] then st
      else case p_loads P line of
        None \<Rightarrow> send_error P PNone (-32700) ''Parse error: Invalid JSON'' st
      | Some payload \<Rightarrow>
          (case route_request I P payload st of
             (Inr _, st') \<Rightarrow> st'
           | (Inl e, st') \<Rightarrow> send_error P (payload_id payload) (-32603) ''Internal Server Error'' st'))"

definition serve_forever :: "'w tool_impl \<Rightarrow> prims \<Rightarrow> string list \<Rightarrow> 'w worker \<Rightarrow> 'w worker" where
  "serve_forever I P lines = fold (serve_line I P) lines"

section \<open>The asynchronous worker\<close>

text \<open>The default \<open>handle_resume\<close> only logs.\<close>

definition route_request_async :: "'w tool_impl \<Rightarrow> prims \<Rightarrow> pyval \<Rightarrow> ('w worker, unit) prog" where
  "route_request_async I P req =
     bindp (lift_res (as_dict req)) (\<lambda>d st.
       let req_id = dget_or d ''id'' PNone in
       if dget_or d ''action'' PNone = PStr ''RESUME'' then (Inr (), st)
       else case dispatch_method (\<lambda>n. ''Method not found: Unknown tool '' @ squote @ n @ squote) I P req_id (dget_or d ''method'' PNone)
           (dget_or d ''params'' (PDict [])) (st\<lparr>wk_req := req_id\<rparr>) of
         (Inl e, st') \<Rightarrow> (Inr (), (send_error P req_id (-32000) (''Execution failed: '' @ msg_of_exc e) st')\<lparr>wk_req := wk_req st\<rparr>)
       | (Inr u, st') \<Rightarrow> (Inr u, st'\<lparr>wk_req := wk_req st\<rparr>))"

text \<open>
  The lines still to be read, \<open>None\<close> for one that cannot be read (not UTF-8, or longer than the limit of the stream), and the
  requests of the tasks that have not finished. A task ends with the outcome its tool call has, at any time after it was created,
  while nothing waits for it.
\<close>

record async_worker =
  aw_in :: "string option list"
  aw_open :: bool
  aw_tasks :: "pyval list"
  aw_worker :: "unit worker"

datatype async_event = ReadNext | Finish nat outcome

definition read_next :: "prims \<Rightarrow> async_worker \<Rightarrow> async_worker" where
  "read_next P st =
     (if \<not> aw_open st then st
      else case aw_in st of
        [] \<Rightarrow> st\<lparr>aw_open := False\<rparr>
      | None # rest \<Rightarrow> st\<lparr>aw_in := rest\<rparr>
      | Some raw # rest \<Rightarrow>
          (let line = strip raw; st = st\<lparr>aw_in := rest\<rparr> in
           if line = [] then st
           else case p_loads P line of
             None \<Rightarrow> st\<lparr>aw_worker := send_error P PNone (-32700) ''Parse error: Invalid JSON'' (aw_worker st)\<rparr>
           | Some payload \<Rightarrow> st\<lparr>aw_tasks := aw_tasks st @ [payload]\<rparr>))"

definition finish_task :: "prims \<Rightarrow> nat \<Rightarrow> outcome \<Rightarrow> async_worker \<Rightarrow> async_worker" where
  "finish_task P i res st =
     (if i < length (aw_tasks st) then
        st\<lparr>aw_tasks := take i (aw_tasks st) @ drop (Suc i) (aw_tasks st),
           aw_worker := snd (route_request_async (\<lambda>_ _ w. (res, w)) P (aw_tasks st ! i) (aw_worker st))\<rparr>
      else st)"

fun async_act :: "prims \<Rightarrow> async_event \<Rightarrow> async_worker \<Rightarrow> async_worker" where
  "async_act P ReadNext st = read_next P st"
| "async_act P (Finish i res) st = finish_task P i res st"

definition async_run :: "prims \<Rightarrow> async_event list \<Rightarrow> async_worker \<Rightarrow> async_worker" where
  "async_run P evs = fold (async_act P) evs"

section \<open>Every line is answered once\<close>

text \<open>An answer to a request: it carries the id, and either a result or an error.\<close>

definition rpc_answer :: "pyval \<Rightarrow> pydict \<Rightarrow> bool" where
  "rpc_answer req_id m \<longleftrightarrow> dget m ''id'' = Some req_id \<and> (dhas m ''result'' \<noteq> dhas m ''error'')"

definition answered :: "prims \<Rightarrow> pyval \<Rightarrow> 'w worker \<Rightarrow> 'w worker \<Rightarrow> bool" where
  "answered P req_id st st' \<longleftrightarrow>
     (\<exists>m. rpc_answer req_id m \<and> wk_out st' = wk_out st @ [rpc_line P m]) \<and>
     wk_tools st' = wk_tools st \<and> wk_schemas st' = wk_schemas st \<and> wk_req st' = wk_req st"

text \<open>A handler answers and returns, or raises without having written anything.\<close>

definition answers :: "prims \<Rightarrow> pyval \<Rightarrow> 'w worker \<Rightarrow> unit res \<times> 'w worker \<Rightarrow> bool" where
  "answers P req_id st r \<longleftrightarrow>
     (case r of (Inr _, st') \<Rightarrow> answered P req_id st st'
      | (Inl _, st') \<Rightarrow> wk_out st' = wk_out st \<and> wk_tools st' = wk_tools st \<and> wk_schemas st' = wk_schemas st \<and> wk_req st' = wk_req st)"

named_theorems answer_intros \<open>handlers that answer\<close>

lemma error_answers [simp]: "rpc_answer i (error_message i c t d)"
  by (simp add: rpc_answer_def error_message_def dhas_def)

lemma result_answers [simp]: "rpc_answer i [(''id'', i), (''result'', v)]"
  by (simp add: rpc_answer_def dhas_def)

lemma emit_answered: "rpc_answer i m \<Longrightarrow> answered P i st (emit_rpc P m st)"
  by (auto simp: answered_def emit_rpc_def)

lemma send_error_answered [answer_intros]: "answered P i st (send_error P i c t st)"
  by (simp add: send_error_def emit_answered)

lemma send_response_answers [answer_intros]: "answers P i st (send_response P i v st)"
  by (cases v) (simp_all add: answers_def emit_answered send_error_answered)

lemma tool_failed_answered [answer_intros]: "\<exists>st'. tool_failed P i e st = (Inr (), st') \<and> answered P i st st'"
  by (auto simp: tool_failed_def intro: answer_intros)

lemma answers_after:
  assumes "answers P i st' r" "wk_out st' = wk_out st" "wk_tools st' = wk_tools st" "wk_schemas st' = wk_schemas st" "wk_req st' = wk_req st"
  shows "answers P i st r"
  using assms by (auto simp: answers_def answered_def split: prod.splits sum.splits)

lemma tool_failed_answers [answer_intros]: "answers P i st (tool_failed P i e st)"
  using tool_failed_answered [of P i e st] by (auto simp: answers_def)

lemma send_result_answers [answer_intros]: "answers P i st (send_result P i v st)"
proof (cases "wrap_mcp_result P v False")
  case (Inl e)
  then show ?thesis by (simp add: send_result_def lift_res_def answer_intros)
next
  case (Inr w)
  have a: "answers P i st (send_response P i w st)" by (rule answer_intros)
  obtain r st' where r: "send_response P i w st = (r, st')" by fastforce
  show ?thesis
  proof (cases r)
    case (Inl e)
    have "answers P i st (tool_failed P i e st')"
      by (rule answers_after [OF tool_failed_answers]) (use a r Inl in \<open>auto simp: answers_def\<close>)
    with Inr r Inl show ?thesis by (simp add: send_result_def lift_res_def)
  qed (use a r Inr in \<open>simp add: send_result_def lift_res_def\<close>)
qed

lemma call_tool_answers [answer_intros]: "answers P i st (call_tool I P i n t a meta st)"
proof (cases "prepare_call_kwargs P t a meta")
  case (Inr kw)
  obtain res w where "I n kw (wk_world st) = (res, w)" by fastforce
  moreover have "answers P i st (send_result P i v (st\<lparr>wk_world := w\<rparr>))" "answers P i st (send_response P i v (st\<lparr>wk_world := w\<rparr>))"
    "answers P i st (tool_failed P i e (st\<lparr>wk_world := w\<rparr>))" for v e
    by (rule answers_after, rule answer_intros, simp_all)+
  ultimately show ?thesis using Inr by (cases res) (simp_all add: call_tool_def del: send_response.simps)
qed (simp add: call_tool_def answer_intros)

lemma handle_tools_call_answers [answer_intros]: "answers P i st (handle_tools_call unknown I P i name a meta st)"
  by (auto simp: handle_tools_call_def answer_intros answers_def [of _ _ _ "(Inl _, _)"] answers_def [of _ _ _ "(Inr _, _)"] split: sum.split option.split)

lemma dispatch_answers [answer_intros]: "answers P i st (dispatch_method unknown I P i meth params st)"
  by (cases params)
    (auto simp: dispatch_method_def handle_tools_list_def lift_res_def answer_intros answers_def [of _ _ _ "(Inl _, _)"]
      answers_def [of _ _ _ "(Inr _, _)"] simp del: send_response.simps)

lemma route_request_answers:
  "route_request I P (PDict d) st = r \<Longrightarrow> fst r = Inr () \<and> answered P (dget_or d ''id'' PNone) st (snd r)"
proof -
  let ?i = "dget_or d ''id'' PNone"
  assume r: "route_request I P (PDict d) st = r"
  have "answers P ?i (st\<lparr>wk_req := ?i\<rparr>) (dispatch_method (\<lambda>n. ''Unknown tool: '' @ n) I P ?i (dget_or d ''method'' PNone)
      (dget_or d ''params'' (PDict [])) (st\<lparr>wk_req := ?i\<rparr>))" by (rule answer_intros)
  then show ?thesis using r
    by (auto simp: route_request_def lift_res_def Let_def answers_def answered_def send_error_def emit_rpc_def split: prod.splits sum.splits
        intro: error_answers)
qed

lemma route_request_other: "\<not> is_dict v \<Longrightarrow> \<exists>e. route_request I P v st = (Inl e, st)"
  by (cases v) (simp_all add: route_request_def lift_res_def)

definition line_id :: "prims \<Rightarrow> string \<Rightarrow> pyval" where
  "line_id P line = (case p_loads P line of Some v \<Rightarrow> payload_id v | None \<Rightarrow> PNone)"

lemma serve_line_answered: "strip l \<noteq> [] \<Longrightarrow> answered P (line_id P (strip l)) st (serve_line I P l st)"
proof -
  assume l: "strip l \<noteq> []"
  show ?thesis
  proof (cases "p_loads P (strip l)")
    case None
    with l show ?thesis by (simp add: serve_line_def line_id_def answer_intros)
  next
    case (Some v)
    show ?thesis
    proof (cases v)
      case (PDict d)
      obtain x st' where r: "route_request I P (PDict d) st = (x, st')" by fastforce
      with route_request_answers [OF r] l Some PDict show ?thesis by (simp add: serve_line_def line_id_def payload_id_def)
    qed (use l Some route_request_other [of v I P st] in \<open>auto simp: serve_line_def line_id_def payload_id_def answer_intros\<close>)
  qed
qed


section \<open>The asynchronous worker\<close>

definition task_answers :: "pyval \<Rightarrow> bool" where
  "task_answers v \<longleftrightarrow> (case v of PDict d \<Rightarrow> dget_or d ''action'' PNone \<noteq> PStr ''RESUME'' | _ \<Rightarrow> False)"

lemma route_async_answers:
  assumes "task_answers v"
  shows "answered P (payload_id v) st (snd (route_request_async I P v st))"
proof -
  obtain d where d: "v = PDict d" "dget_or d ''action'' PNone \<noteq> PStr ''RESUME''" using assms by (auto simp: task_answers_def split: pyval.splits)
  let ?i = "dget_or d ''id'' PNone"
  have "answers P ?i (st\<lparr>wk_req := ?i\<rparr>) (dispatch_method (\<lambda>n. ''Method not found: Unknown tool '' @ squote @ n @ squote) I P ?i
      (dget_or d ''method'' PNone) (dget_or d ''params'' (PDict [])) (st\<lparr>wk_req := ?i\<rparr>))" by (rule answer_intros)
  then show ?thesis using d
    by (auto simp: route_request_async_def lift_res_def Let_def answers_def answered_def send_error_def emit_rpc_def payload_id_def
        split: prod.splits sum.splits intro: error_answers)
qed

lemma route_async_silent: "\<not> task_answers v \<Longrightarrow> snd (route_request_async I P v st) = st"
  by (cases v) (auto simp: task_answers_def route_request_async_def lift_res_def)

text \<open>The id an input line is answered with, if it is answered.\<close>

definition line_answer :: "prims \<Rightarrow> string option \<Rightarrow> pyval option" where
  "line_answer P l =
     (case l of None \<Rightarrow> None
      | Some raw \<Rightarrow>
          (if strip raw = [] then None
           else case p_loads P (strip raw) of None \<Rightarrow> Some PNone | Some v \<Rightarrow> if task_answers v then Some (payload_id v) else None))"

definition answer_id :: "pydict \<Rightarrow> pyval" where
  "answer_id m = dget_or m ''id'' PNone"

text \<open>The answers written and the answers to come are those of the lines read.\<close>

definition async_inv :: "prims \<Rightarrow> string option list \<Rightarrow> async_worker \<Rightarrow> bool" where
  "async_inv P ls st \<longleftrightarrow>
     (\<exists>k ms. aw_in st = drop k ls \<and> wk_out (aw_worker st) = map (rpc_line P) ms \<and> (\<forall>m \<in> set ms. \<exists>i. rpc_answer i m) \<and>
       mset (map answer_id ms) + mset (map payload_id (filter task_answers (aw_tasks st))) = mset (List.map_filter (line_answer P) (take k ls)))"

lemma answer_id_answer: "rpc_answer i m \<Longrightarrow> answer_id m = i"
  by (simp add: rpc_answer_def answer_id_def dget_or_def)

lemma map_filter_add: "List.map_filter f (xs @ ys) = List.map_filter f xs @ List.map_filter f ys"
  by (simp add: List.map_filter_def)

lemma async_inv_read:
  assumes "async_inv P ls st"
  shows "async_inv P ls (read_next P st)"
proof -
  from assms obtain k ms where s: "aw_in st = drop k ls" "wk_out (aw_worker st) = map (rpc_line P) ms" "\<forall>m \<in> set ms. \<exists>i. rpc_answer i m"
    "mset (map answer_id ms) + mset (map payload_id (filter task_answers (aw_tasks st))) = mset (List.map_filter (line_answer P) (take k ls))"
    by (auto simp: async_inv_def)
  show ?thesis
  proof (cases "aw_open st \<and> aw_in st \<noteq> []")
    case False
    then show ?thesis using assms by (auto simp: read_next_def async_inv_def)
  next
    case True
    then obtain l rest where l: "drop k ls = l # rest" using s(1) by (metis list.exhaust)
    then have k: "take (Suc k) ls = take k ls @ [l]" "drop (Suc k) ls = rest"
      by (metis Cons_nth_drop_Suc drop_all linorder_not_less list.distinct(1) list.inject take_Suc_conv_app_nth)+
    have keep: "async_inv P ls st'" if "aw_in st' = rest" "aw_worker st' = aw_worker st" "filter task_answers (aw_tasks st') = filter task_answers (aw_tasks st)"
      "line_answer P l = None" for st'
      unfolding async_inv_def using s that k by (intro exI [of _ "Suc k"] exI [of _ ms]) (simp add: map_filter_simps map_filter_add)
    show ?thesis
    proof (cases l)
      case None
      with True l s(1) show ?thesis by (intro keep) (simp_all add: read_next_def line_answer_def)
    next
      case (Some raw)
      show ?thesis
      proof (cases "strip raw = []")
        case True
        with \<open>aw_open st \<and> aw_in st \<noteq> []\<close> Some l s(1) show ?thesis by (intro keep) (simp_all add: read_next_def line_answer_def)
      next
        case False
        note r = True Some l s(1) False
        show ?thesis
        proof (cases "p_loads P (strip raw)")
          case None
          have "wk_out (aw_worker (read_next P st)) = map (rpc_line P) (ms @ [error_message PNone (-32700) ''Parse error: Invalid JSON'' None])"
            using r None s(2) by (simp add: read_next_def send_error_def emit_rpc_def)
          then show ?thesis unfolding async_inv_def using r None s k
            by (intro exI [of _ "Suc k"] exI [of _ "ms @ [error_message PNone (-32700) ''Parse error: Invalid JSON'' None]"])
              (auto simp: read_next_def map_filter_simps map_filter_add line_answer_def answer_id_answer [OF error_answers] intro: error_answers)
        next
          case (Some v)
          then show ?thesis unfolding async_inv_def using r s k
            by (intro exI [of _ "Suc k"] exI [of _ ms]) (auto simp: read_next_def map_filter_simps map_filter_add line_answer_def)
        qed
      qed
    qed
  qed
qed

lemma async_inv_finish:
  assumes "async_inv P ls st"
  shows "async_inv P ls (finish_task P i res st)"
proof (cases "i < length (aw_tasks st)")
  case True
  let ?v = "aw_tasks st ! i" and ?st = "finish_task P i res st"
  from assms obtain k ms where s: "aw_in st = drop k ls" "wk_out (aw_worker st) = map (rpc_line P) ms" "\<forall>m \<in> set ms. \<exists>i. rpc_answer i m"
    "mset (map answer_id ms) + mset (map payload_id (filter task_answers (aw_tasks st))) = mset (List.map_filter (line_answer P) (take k ls))"
    by (auto simp: async_inv_def)
  have f: "aw_tasks ?st = take i (aw_tasks st) @ drop (Suc i) (aw_tasks st)" "aw_in ?st = aw_in st"
    "aw_worker ?st = snd (route_request_async (\<lambda>_ _ w. (res, w)) P ?v (aw_worker st))" using True by (simp_all add: finish_task_def)
  have t: "mset (filter task_answers (aw_tasks st)) = mset (filter task_answers (aw_tasks ?st)) + (if task_answers ?v then {#?v#} else {#})"
    by (subst id_take_nth_drop [OF True]) (simp add: f)
  show ?thesis
  proof (cases "task_answers ?v")
    case False
    with t have "mset (map payload_id (filter task_answers (aw_tasks ?st))) = mset (map payload_id (filter task_answers (aw_tasks st)))" by simp
    moreover have "aw_worker ?st = aw_worker st" unfolding f(3) by (rule route_async_silent [OF False])
    ultimately show ?thesis unfolding async_inv_def using s f(2) by (intro exI [of _ k] exI [of _ ms]) metis
  next
    case True
    from route_async_answers [OF this, of P "aw_worker st" "\<lambda>_ _ w. (res, w)"]
    obtain m where m: "rpc_answer (payload_id ?v) m" "wk_out (aw_worker ?st) = wk_out (aw_worker st) @ [rpc_line P m]" by (auto simp: answered_def f)
    from t True s(4) have "mset (map answer_id (ms @ [m])) + mset (map payload_id (filter task_answers (aw_tasks ?st))) =
        mset (List.map_filter (line_answer P) (take k ls))" by (simp add: answer_id_answer [OF m(1)])
    with s f m show ?thesis unfolding async_inv_def by (intro exI [of _ k] exI [of _ "ms @ [m]"]) auto
  qed
qed (use assms in \<open>simp add: finish_task_def\<close>)

lemma async_inv_run:
  assumes "aw_tasks st = []" "wk_out (aw_worker st) = []"
  shows "async_inv P (aw_in st) (async_run P evs st)"
proof -
  have "async_inv P (aw_in st) st" using assms unfolding async_inv_def by (intro exI [of _ 0] exI [of _ "[]"]) (simp add: map_filter_simps)
  then show ?thesis
  proof (induction evs rule: rev_induct)
    case (snoc e evs)
    then show ?case by (cases e) (simp_all add: async_run_def async_inv_read async_inv_finish)
  qed (simp add: async_run_def)
qed

text \<open>
  C22. The asynchronous worker, for every interleaving of reading and finishing: the answers written, together with those of the requests
  still running, are exactly the answers of the lines read. A line is answered at most once and with its own id, and when no task is left
  every line read has its answer, except lines that cannot be read, requests that are not objects and requests to resume, which never have one.
\<close>

theorem async_answers:
  assumes "aw_tasks st = []" "wk_out (aw_worker st) = []"
  shows "\<exists>k ms. aw_in (async_run P evs st) = drop k (aw_in st) \<and> wk_out (aw_worker (async_run P evs st)) = map (rpc_line P) ms \<and>
    (\<forall>m \<in> set ms. \<exists>i. rpc_answer i m) \<and>
    mset (map answer_id ms) + mset (map payload_id (filter task_answers (aw_tasks (async_run P evs st)))) =
      mset (List.map_filter (line_answer P) (take k (aw_in st)))"
  using async_inv_run [OF assms, of P evs] by (simp add: async_inv_def)

text \<open>
  The two workers differ on a request that is not an object: the sequential one answers it with an internal error, the asynchronous
  one never answers it, however its tasks are scheduled.
\<close>

theorem non_object_unanswered:
  assumes "strip l \<noteq> []" "p_loads P (strip l) = Some v" "\<not> is_dict v"
    and "aw_in st = [Some l]" "aw_tasks st = []" "wk_out (aw_worker st) = []"
  shows "wk_out (serve_forever I P [l] w) = wk_out w @ [rpc_line P (error_message PNone (-32603) ''Internal Server Error'' None)] \<and>
    wk_out (aw_worker (async_run P evs st)) = []"
proof
  from route_request_other [OF assms(3), of I P w] obtain e where e: "route_request I P v w = (Inl e, w)" by blast
  have "payload_id v = PNone" using assms(3) by (cases v) (simp_all add: payload_id_def)
  with e assms(1,2) show "wk_out (serve_forever I P [l] w) = wk_out w @ [rpc_line P (error_message PNone (-32603) ''Internal Server Error'' None)]"
    by (simp add: serve_forever_def serve_line_def send_error_def emit_rpc_def)
  have n: "line_answer P (Some l) = None" using assms(1-3) by (cases v) (simp_all add: line_answer_def task_answers_def)
  from async_inv_run [OF assms(5,6), of P evs] obtain k ms where "wk_out (aw_worker (async_run P evs st)) = map (rpc_line P) ms"
    "mset (map answer_id ms) + mset (map payload_id (filter task_answers (aw_tasks (async_run P evs st)))) =
      mset (List.map_filter (line_answer P) (take k [Some l]))" using assms(4) by (auto simp: async_inv_def)
  moreover have "List.map_filter (line_answer P) (take k [Some l]) = []" by (cases k) (simp_all add: n map_filter_simps)
  ultimately show "wk_out (aw_worker (async_run P evs st)) = []" by simp
qed

text \<open>
  A result that JSON refuses is reported to the caller as a fault of the arguments, although they were accepted, unless it has the
  shape of a finished answer.
\<close>

theorem unserialisable_blames_caller:
  assumes "prepare_call_kwargs P t arguments meta = Inr kw" "I n kw (wk_world st) = (Returned (Opaque (Exc TypeErr m) shaped), w)"
  shows "wk_out (snd (call_tool I P i n t arguments meta st)) = wk_out st @ [rpc_line P
    (if shaped then error_message i (-32603) ''Internal Serialization Error'' None else error_message i (-32602) (''Invalid params: '' @ m) None)]"
  using assms
  by (cases shaped) (simp_all add: call_tool_def send_result_def lift_res_def tool_failed_def is_param_error_def send_error_def emit_rpc_def)

section \<open>Witnesses\<close>

definition line_prims :: prims where
  "line_prims = (doc_prims PNone)\<lparr>p_loads := (\<lambda>s. if s = ''list'' then Some (PList [])
      else if s = ''call'' then Some (PDict [(''id'', PInt 7), (''method'', PStr ''tools/list'')]) else None)\<rparr>"

definition sample_async :: "string option list \<Rightarrow> async_worker" where
  "sample_async ls = \<lparr>aw_in = ls, aw_open = True, aw_tasks = [], aw_worker = new_worker [] ()\<rparr>"

theorem async_answers_witness:
  "length (wk_out (aw_worker (async_run line_prims [ReadNext, ReadNext, Finish 0 (RaisedTool []), ReadNext] (sample_async [Some ''call'', Some ''bad'', Some ''list''])))) = 2"
proof -
  let ?st = "sample_async [Some ''call'', Some ''bad'', Some ''list'']" and ?evs = "[ReadNext, ReadNext, Finish 0 (RaisedTool []), ReadNext]"
  let ?r = "async_run line_prims ?evs ?st"
  have "aw_tasks ?st = []" "wk_out (aw_worker ?st) = []" by code_simp+
  from async_answers [OF this, of line_prims ?evs] obtain k ms where a: "aw_in ?r = drop k (aw_in ?st)" "wk_out (aw_worker ?r) = map (rpc_line line_prims) ms"
    "mset (map answer_id ms) + mset (map payload_id (filter task_answers (aw_tasks ?r))) = mset (List.map_filter (line_answer line_prims) (take k (aw_in ?st)))" by blast
  have e: "aw_in ?r = []" "filter task_answers (aw_tasks ?r) = []" by code_simp+
  have "aw_in ?st = [Some ''call'', Some ''bad'', Some ''list'']" by (simp add: sample_async_def)
  with a(1) e(1) have "take k (aw_in ?st) = [Some ''call'', Some ''bad'', Some ''list'']" by simp
  moreover have "size (mset (List.map_filter (line_answer line_prims) [Some ''call'', Some ''bad'', Some ''list''])) = 2" by code_simp
  ultimately have "size (mset (map answer_id ms)) = 2" using a(3) e(2) by simp
  with a(2) show ?thesis by simp
qed

theorem non_object_unanswered_witness:
  "wk_out (aw_worker (async_run line_prims [ReadNext, Finish 0 (RaisedTool []), ReadNext] (sample_async [Some ''list'']))) = []"
proof -
  have s: "strip ''list'' \<noteq> []" "p_loads line_prims (strip ''list'') = Some (PList [])" "aw_in (sample_async [Some ''list'']) = [Some ''list'']"
    "aw_tasks (sample_async [Some ''list'']) = []" "wk_out (aw_worker (sample_async [Some ''list''])) = []" by code_simp+
  show ?thesis by (rule conjunct2 [OF non_object_unanswered [OF s(1,2) _ s(3-5), where w = "new_worker [] ()" and I = "\<lambda>_ _ w. (RaisedTool [], w)"]]) simp
qed

theorem unserialisable_blames_caller_witness:
  "wk_out (snd (call_tool (\<lambda>_ _ w. (Returned (Opaque (Exc TypeErr ''set'') False), w)) line_prims (PInt 1) ''t'' (sample_tool\<lparr>to_params := []\<rparr>) (PDict []) (PDict []) (new_worker [] ()))) =
     [rpc_line line_prims (error_message (PInt 1) (-32602) ''Invalid params: set'' None)]"
  using unserialisable_blames_caller [of line_prims "sample_tool\<lparr>to_params := []\<rparr>" "PDict []" "PDict []" "[]"
      "\<lambda>_ _ w. (Returned (Opaque (Exc TypeErr ''set'') False), w)" "''t''" "new_worker [] ()" "''set''" False "()" "PInt 1"]
  by (simp add: prepare_call_kwargs_def new_worker_def)

end
