(* ===== verification/Terminal.thy ===== *)
theory Terminal
  imports Regex TextUtil
begin

text \<open>
  The terminal client (\<^verbatim>\<open>arch/bound/client/terminal/\<close>: \<^verbatim>\<open>metadata.py\<close>, \<^verbatim>\<open>session.py\<close>, \<^verbatim>\<open>polling.py\<close>): a command is sent to a
  shell whose prompt prints a JSON block, and the screen is polled until a new block appears or a timeout is reached.
  The shell, its clock and the bash parser are parameters; a text stands for its bytes.
\<close>

section \<open>Prompt blocks\<close>

definition ps1_begin :: string where
  "ps1_begin = ''###PS1JSON###''"

definition ps1_end :: string where
  "ps1_end = ''###PS1END###''"

definition ps1_regex :: regex where
  "ps1_regex = Then AtLine (Then (lit ps1_begin)
     (Then (Capture 1 (Fewest (Then (NotAhead (lit ps1_begin)) any_all))) (lit ps1_end)))"

datatype cmd_status = CONTINUE | COMPLETED | INTERRUPTED | NO_CHANGE_TIMEOUT | HARD_TIMEOUT

record cmd_metadata =
  md_exit_code :: int
  md_pid :: int
  md_username :: "string option"
  md_hostname :: "string option"
  md_working_dir :: "string option"
  md_py_interpreter_path :: "string option"
  md_prefix :: string
  md_suffix :: string

definition new_metadata :: cmd_metadata where
  "new_metadata = \<lparr>md_exit_code = -1, md_pid = -1, md_username = None, md_hostname = None, md_working_dir = None,
     md_py_interpreter_path = None, md_prefix = [], md_suffix = []\<rparr>"

text \<open>The prompt that makes the shell print such a block, with the quotes of its JSON escaped for the shell.\<close>

definition json_quote :: "string \<Rightarrow> string" where
  "json_quote t = [CHR 0x22] @ concat (map (\<lambda>c. if c = CHR 0x22 \<or> c = CHR 0x5C then [CHR 0x5C, c] else [c]) t) @ [CHR 0x22]"

definition ps1_fields :: "(string \<times> string) list" where
  "ps1_fields = [(''pid'', ''$!''), (''exit_code'', ''$?''), (''username'', [CHR 0x5C, CHR ''u'']), (''hostname'', [CHR 0x5C, CHR ''h'']),
     (''working_dir'', ''$(pwd)''), (''py_interpreter_path'', ''$(command -v python || echo '' @ [CHR 0x22, CHR 0x22] @ '')'')]"

definition to_ps1_prompt :: string where
  "to_ps1_prompt =
     (let json = ''{'' @ [CHR 0x0A] @ join ('','' @ [CHR 0x0A]) (map (\<lambda>(k, v). ''  '' @ json_quote k @ '': '' @ json_quote v) ps1_fields) @ [CHR 0x0A] @ ''}''
      in [CHR 0x0A] @ ps1_begin @ [CHR 0x0A] @ concat (map (\<lambda>c. if c = CHR 0x22 then [CHR 0x5C, c] else [c]) json) @
         [CHR 0x0A] @ ps1_end @ [CHR 0x0A])"

definition matches_ps1_metadata :: "prims \<Rightarrow> string \<Rightarrow> found list" where
  "matches_ps1_metadata P s =
     filter (\<lambda>f. case group_text s f 1 of None \<Rightarrow> False | Some t \<Rightarrow> p_loads P (strip t) \<noteq> None) (re_finditer s ps1_regex)"

text \<open>A numeric field: a text that is no number gives -1, but an infinite one raises.\<close>

definition numeric_field :: "prims \<Rightarrow> pyval \<Rightarrow> int res" where
  "numeric_field P v =
     (case bind_res (p_float_of_str P (py_str P v)) (\<lambda>f. py_int_of (PFloat f)) of
        Inl (Exc k m) \<Rightarrow> if k = ValueErr \<or> k = TypeErr then Inr (-1) else Inl (Exc k m)
      | Inr i \<Rightarrow> Inr i)"

definition number_entry :: "prims \<Rightarrow> pydict \<Rightarrow> string \<Rightarrow> int res" where
  "number_entry P d k = (case dget d k of None \<Rightarrow> Inr (-1) | Some v \<Rightarrow> numeric_field P v)"

definition text_or_none :: "pydict \<Rightarrow> string \<Rightarrow> string option res" where
  "text_or_none d k =
     (case dget d k of
        None \<Rightarrow> Inr None | Some PNone \<Rightarrow> Inr None | Some (PStr t) \<Rightarrow> Inr (Some t)
      | Some _ \<Rightarrow> Inl (Exc ValidationErr (k @ '': input should be a valid string'')))"

definition text_entry :: "pydict \<Rightarrow> string \<Rightarrow> string res" where
  "text_entry d k =
     (case dget d k of
        None \<Rightarrow> Inr [] | Some (PStr t) \<Rightarrow> Inr t | Some _ \<Rightarrow> Inl (Exc ValidationErr (k @ '': input should be a valid string'')))"

definition from_ps1_match :: "prims \<Rightarrow> string \<Rightarrow> found \<Rightarrow> cmd_metadata res" where
  "from_ps1_match P s f =
     (case p_loads P (case group_text s f 1 of None \<Rightarrow> [] | Some t \<Rightarrow> t) of
        None \<Rightarrow> Inl (Exc JsonDecodeErr ''Expecting value'')
      | Some (PDict d) \<Rightarrow>
          bind_res (number_entry P d ''pid'') (\<lambda>pid.
          bind_res (number_entry P d ''exit_code'') (\<lambda>code.
          bind_res (text_or_none d ''username'') (\<lambda>user.
          bind_res (text_or_none d ''hostname'') (\<lambda>host.
          bind_res (text_or_none d ''working_dir'') (\<lambda>dir.
          bind_res (text_or_none d ''py_interpreter_path'') (\<lambda>py.
          bind_res (text_entry d ''prefix'') (\<lambda>pre.
          bind_res (text_entry d ''suffix'') (\<lambda>suf.
            Inr \<lparr>md_exit_code = code, md_pid = pid, md_username = user, md_hostname = host, md_working_dir = dir,
              md_py_interpreter_path = py, md_prefix = pre, md_suffix = suf\<rparr>))))))))
      | Some (PList _) \<Rightarrow> Inl (Exc TypeErr ''argument after ** must be a mapping'')
      | Some _ \<Rightarrow> Inl (Exc AttributeErr ''copy''))"

section \<open>Escape sequences\<close>

definition ESC :: char where "ESC = CHR 0x1B"
definition BEL :: char where "BEL = CHR 0x07"

definition digit_rx :: regex where
  "digit_rx = Chars (\<lambda>c. c \<in> set digit_chars)"

definition dsr_rx :: regex where
  "dsr_rx = lit [ESC, CHR ''['', CHR ''6'', CHR ''n'']"

definition osc_query_rx :: regex where
  "osc_query_rx = Then (lit [ESC, CHR '']'']) (Then digit_rx (Then (Many digit_rx)
     (Then (maybe (Then (lit '';'') (Many (Chars (\<lambda>c. c \<noteq> CHR '';'' \<and> c \<noteq> BEL \<and> c \<noteq> ESC)))))
     (Then (lit '';?'') (Either (lit [BEL]) (lit [ESC, CHR 0x5C]))))))"

definition da_rx :: regex where
  "da_rx = Then (lit [ESC, CHR ''['']) (Then (maybe (lit ''0'')) (lit ''c''))"

definition da2_rx :: regex where
  "da2_rx = Then (lit [ESC, CHR ''['', CHR ''>'']) (Then (maybe (lit ''0'')) (lit ''c''))"

definition decrqss_rx :: regex where
  "decrqss_rx = Then (lit [ESC, CHR ''P'', CHR ''$'', CHR ''q'']) (Then (Many (Chars (\<lambda>c. c \<noteq> ESC))) (lit [ESC, CHR 0x5C]))"

definition incomplete_rx :: regex where
  "incomplete_rx =
     Either (Then (lit [ESC]) AtEnd)
    (Either (Then (lit [ESC, CHR ''['']) (Then (Many (Chars (\<lambda>c. c \<in> set digit_chars \<or> c = CHR '';'' \<or> c = CHR ''>''))) AtEnd))
    (Either (Then (lit [ESC, CHR '']'']) (Then (Many (Chars (\<lambda>c. c \<noteq> BEL))) AtEnd))
            (Then (lit [ESC, CHR ''P'']) (Then (Many (Either (Chars (\<lambda>c. c \<noteq> ESC)) (Then (lit [ESC]) (NotAhead (lit [CHR 0x5C]))))) AtEnd))))"

definition filter_complete_queries :: "string \<Rightarrow> string" where
  "filter_complete_queries s = re_remove decrqss_rx (re_remove da2_rx (re_remove da_rx (re_remove osc_query_rx (re_remove dsr_rx s))))"

text \<open>The filter keeps the bytes of an unfinished sequence for the next call.\<close>

definition query_filter :: "string \<Rightarrow> string \<Rightarrow> string \<times> string" where
  "query_filter pending output =
     (let bytes = pending @ output in
      case re_search bytes incomplete_rx of
        None \<Rightarrow> (filter_complete_queries bytes, [])
      | Some f \<Rightarrow> (filter_complete_queries (take (f_start f) bytes), drop (f_start f) bytes))"

definition query_flush :: "string \<Rightarrow> string \<times> string" where
  "query_flush pending = (if pending = [] then [] else filter_complete_queries pending, [])"

section \<open>Commands\<close>

text \<open>A node of the tree that the bash parser returns; None stands for an exception of the parser that is caught.\<close>

datatype bash_node = BashNode (bn_kind: string) (bn_start: nat) (bn_end: nat) (bn_heredoc: "(nat \<times> nat) option") (bn_parts: "bash_node list")

type_synonym bash_parser = "string \<Rightarrow> bash_node list option"

definition slice :: "string \<Rightarrow> nat \<Rightarrow> nat \<Rightarrow> string" where
  "slice s i j = take (j - i) (drop i s)"

definition lstrip :: "string \<Rightarrow> string" where
  "lstrip s = lstrip_set whitespace s"

definition rstrip :: "string \<Rightarrow> string" where
  "rstrip s = rstrip_set whitespace s"

definition removeprefix :: "string \<Rightarrow> string \<Rightarrow> string" where
  "removeprefix s p = (if startswith s p then drop (length p) s else s)"

definition extend_last :: "string list \<Rightarrow> string \<Rightarrow> string list" where
  "extend_last xs t = (if xs = [] then [] else butlast xs @ [last xs @ t])"

fun split_loop :: "string \<Rightarrow> bash_node list \<Rightarrow> string list \<Rightarrow> nat \<Rightarrow> string list \<times> nat" where
  "split_loop cmds [] result last_end = (result, last_end)"
| "split_loop cmds (n # ns) result last_end =
     (let result1 =
        (if last_end < bn_start n
         then (let between = slice cmds last_end (bn_start n) in
               if result \<noteq> [] then extend_last result (rstrip between)
               else if strip between \<noteq> [] then [rstrip between] else [])
         else result)
      in split_loop cmds ns (result1 @ [rstrip (slice cmds (bn_start n) (bn_end n))]) (bn_end n))"

definition split_bash_commands :: "bash_parser \<Rightarrow> string \<Rightarrow> string list" where
  "split_bash_commands B cmds =
     (if strip cmds = [] then [[]]
      else case B cmds of
        None \<Rightarrow> [cmds]
      | Some nodes \<Rightarrow>
          (case split_loop cmds nodes [] 0 of (result, last_end) \<Rightarrow>
             (let remaining = rstrip (drop last_end cmds) in
              if last_end < length cmds \<and> result \<noteq> [] then extend_last result remaining
              else if last_end < length cmds \<and> remaining \<noteq> [] then result @ [remaining] else result)))"

text \<open>\<open>re.sub\<close> of a backslash before one of the five special characters: the backslash is doubled.\<close>

fun double_escapes :: "string \<Rightarrow> string" where
  "double_escapes (x # y # s) =
     (if x = CHR 0x5C \<and> y \<in> set '';&|><'' then CHR 0x5C # CHR 0x5C # y # double_escapes s else x # double_escapes (y # s))"
| "double_escapes s = s"

definition quoted_word :: "string \<Rightarrow> bool" where
  "quoted_word w \<longleftrightarrow> (startswith w [CHR 0x22] \<and> endswith w [CHR 0x22]) \<or> (startswith w squote \<and> endswith w squote) \<or>
     (startswith w ''$('' \<and> endswith w '')'') \<or> (startswith w [CHR 0x60] \<and> endswith w [CHR 0x60])"

fun visit_node :: "string \<Rightarrow> bash_node \<Rightarrow> string list \<times> nat \<Rightarrow> string list \<times> nat"
and visit_parts :: "string \<Rightarrow> bash_node list \<Rightarrow> string list \<times> nat \<Rightarrow> string list \<times> nat" where
  "visit_node cmd (BashNode k i j h ps) (parts, pos) =
     (case (k = ''redirect'', h) of
        (True, Some (a, b)) \<Rightarrow> (parts @ [slice cmd pos i, slice cmd i a, slice cmd a b], j)
      | _ \<Rightarrow>
         if k = ''word''
         then (let w = slice cmd i j
               in (parts @ [double_escapes (slice cmd pos i), if quoted_word w then w else double_escapes w], j))
         else visit_parts cmd ps (parts, pos))"
| "visit_parts cmd [] st = st"
| "visit_parts cmd (p # ps) st = visit_parts cmd ps (visit_node cmd p st)"

definition escape_bash_special_chars :: "bash_parser \<Rightarrow> string \<Rightarrow> string" where
  "escape_bash_special_chars B cmd =
     (if strip cmd = [] then []
      else case B cmd of
        None \<Rightarrow> cmd
      | Some nodes \<Rightarrow>
          (case foldl (\<lambda>(parts, pos) n. visit_node cmd n (parts @ [double_escapes (slice cmd pos (bn_start n))], bn_start n)) ([], 0) nodes of
             (parts, pos) \<Rightarrow> concat parts @ drop pos cmd))"

definition is_special_key :: "string \<Rightarrow> bool" where
  "is_special_key cmd \<longleftrightarrow> startswith (strip cmd) ''C-'' \<and> length (strip cmd) = 3"

section \<open>Sessions\<close>

text \<open>
  What the client asks of a terminal. Reading the screen, reading the clock and sleeping for the poll interval may all
  let time pass, so they return the terminal afterwards.
\<close>

record 't backend =
  tb_read :: "'t \<Rightarrow> string \<times> 't"
  tb_send :: "string \<Rightarrow> bool \<Rightarrow> 't \<Rightarrow> 't"
  tb_clear :: "'t \<Rightarrow> 't"
  tb_now :: "'t \<Rightarrow> rat \<times> 't"
  tb_sleep :: "'t \<Rightarrow> 't"
  tb_init :: "'t \<Rightarrow> 't"
  tb_close :: "'t \<Rightarrow> 't"
  tb_powershell :: bool

record 't session =
  ss_term :: 't
  ss_prev_status :: "cmd_status option"
  ss_prev_output :: string
  ss_pending :: string
  ss_cwd :: string
  ss_nochange :: int
  ss_initialized :: bool
  ss_closed :: bool

record term_request =
  rq_command :: string
  rq_is_input :: bool
  rq_timeout :: "pyfloat option"
  rq_reset :: bool

record term_result =
  tr_command :: string
  tr_output :: string
  tr_exit_code :: "int option"
  tr_is_error :: bool
  tr_timeout :: bool
  tr_metadata :: cmd_metadata

definition NO_CHANGE_TIMEOUT_SECONDS :: int where
  "NO_CHANGE_TIMEOUT_SECONDS = 30"

definition MAX_CMD_OUTPUT_SIZE :: int where
  "MAX_CMD_OUTPUT_SIZE = 30000"

definition TIMEOUT_MESSAGE :: string where
  "TIMEOUT_MESSAGE = ''You may wait longer to see additional output by sending empty command '' @ squote @ squote @
     '', send other commands to interact with the current process, send keys ('' @
     [CHR 0x22] @ ''C-c'' @ [CHR 0x22] @ '', '' @ [CHR 0x22] @ ''C-z'' @ [CHR 0x22] @ '', '' @ [CHR 0x22] @ ''C-d'' @ [CHR 0x22] @
     '') to interrupt/kill the previous command before sending your new command, or use the timeout parameter in terminal for future commands.''"

definition new_session :: "'t \<Rightarrow> string \<Rightarrow> int option \<Rightarrow> 't session" where
  "new_session t cwd nochange =
     \<lparr>ss_term = t, ss_prev_status = None, ss_prev_output = [], ss_pending = [], ss_cwd = cwd,
      ss_nochange = (case nochange of Some n \<Rightarrow> if n = 0 then NO_CHANGE_TIMEOUT_SECONDS else n | None \<Rightarrow> NO_CHANGE_TIMEOUT_SECONDS),
      ss_initialized = False, ss_closed = False\<rparr>"

definition attach_to_existing :: "'t \<Rightarrow> string \<Rightarrow> int option \<Rightarrow> 't session" where
  "attach_to_existing t cwd nochange = (new_session t cwd nochange)\<lparr>ss_initialized := True\<rparr>"

definition session_initialize :: "'t backend \<Rightarrow> 't session \<Rightarrow> 't session" where
  "session_initialize T s = s\<lparr>ss_term := tb_init T (ss_term s), ss_initialized := True\<rparr>"

definition session_close :: "'t backend \<Rightarrow> 't session \<Rightarrow> 't session" where
  "session_close T s = (if ss_closed s then s else s\<lparr>ss_term := tb_close T (ss_term s), ss_closed := True\<rparr>)"

definition running_status :: "cmd_status option \<Rightarrow> bool" where
  "running_status st \<longleftrightarrow> st \<in> {Some CONTINUE, Some NO_CHANGE_TIMEOUT, Some HARD_TIMEOUT}"

definition session_is_running :: "'t session \<Rightarrow> bool" where
  "session_is_running s \<longleftrightarrow> ss_initialized s \<and> running_status (ss_prev_status s)"

section \<open>The polling engine\<close>

definition plain_result :: "string \<Rightarrow> string \<Rightarrow> term_result" where
  "plain_result cmd out = \<lparr>tr_command = cmd, tr_output = out, tr_exit_code = None, tr_is_error = True, tr_timeout = False, tr_metadata = new_metadata\<rparr>"

definition validate_request :: "bash_parser \<Rightarrow> term_request \<Rightarrow> term_result option" where
  "validate_request B req =
     (let cmd = strip (rq_command req); cmds = split_bash_commands B cmd in
      if 1 < length cmds
      then Some (plain_result cmd (''Cannot execute multiple commands at once.'' @ [CHR 0x0A] @
             ''Please run each command separately OR chain them into a single command via && or ;'' @ [CHR 0x0A] @ ''Provided commands:'' @ [CHR 0x0A] @
             join [CHR 0x0A] (map (\<lambda>(i, c). ''('' @ show_nat (i + 1) @ '') '' @ c) (enumerate 0 cmds))))
      else None)"

definition check_previous_running_state :: "'t session \<Rightarrow> term_request \<Rightarrow> term_result option" where
  "check_previous_running_state s req =
     (let cmd = strip (rq_command req) in
      if running_status (ss_prev_status s) then None
      else if cmd = [] then Some (plain_result cmd ''No previous running command to retrieve logs from.'')
      else if rq_is_input req then Some (plain_result cmd ''No previous running command to interact with.'')
      else None)"

definition send_command_to_backend :: "bash_parser \<Rightarrow> 't backend \<Rightarrow> term_request \<Rightarrow> 't session \<Rightarrow> 't session" where
  "send_command_to_backend B T req s =
     (let cmd = strip (rq_command req) in
      if cmd = [] then s
      else let cmd' = (if \<not> rq_is_input req \<and> \<not> tb_powershell T then escape_bash_special_chars B cmd else cmd)
           in s\<lparr>ss_term := tb_send T cmd' (\<not> is_special_key cmd) (ss_term s)\<rparr>)"

definition combine_outputs :: "string \<Rightarrow> found list \<Rightarrow> bool \<Rightarrow> string" where
  "combine_outputs content ms before_last =
     (case ms of
        [] \<Rightarrow> content
      | [m] \<Rightarrow> if before_last then take (f_start m) content else drop (f_end m + 1) content
      | _ \<Rightarrow> concat (map (\<lambda>(a, b). slice content (f_end a + 1) (f_start b) @ [CHR 0x0A]) (zip ms (tl ms))) @ drop (f_end (last ms) + 1) content)"

definition get_command_output :: "'t session \<Rightarrow> string \<Rightarrow> string \<Rightarrow> cmd_metadata \<Rightarrow> string \<Rightarrow> bool \<Rightarrow> string \<times> cmd_metadata \<times> 't session" where
  "get_command_output s cmd raw md continue_prefix is_final =
     (let (out, md') = (if ss_prev_output s \<noteq> [] then (removeprefix raw (ss_prev_output s), md\<lparr>md_prefix := continue_prefix\<rparr>) else (raw, md));
          out1 = lstrip (removeprefix (lstrip out) (lstrip cmd));
          (out2, pend) = query_filter (ss_pending s) out1;
          (out3, pend') = (if is_final then (case query_flush pend of (f, p) \<Rightarrow> (out2 @ f, p)) else (out2, pend))
      in (rstrip out3, md', s\<lparr>ss_prev_output := raw, ss_pending := pend'\<rparr>))"

definition truncated_output :: "prims \<Rightarrow> string \<Rightarrow> string" where
  "truncated_output P out = fst (maybe_truncate P False out (Some MAX_CMD_OUTPUT_SIZE) DEFAULT_TRUNCATE_NOTICE None ''output'' [])"

definition handle_completed_command :: "prims \<Rightarrow> 't backend \<Rightarrow> string \<Rightarrow> string \<Rightarrow> found list \<Rightarrow> ('t session, term_result) prog" where
  "handle_completed_command P T cmd content ms s =
     (if ms = [] then (Inl (Exc IndexErr ''list index out of range''), s)
      else case from_ps1_match P content (last ms) of
        Inl x \<Rightarrow> (Inl x, s)
      | Inr md \<Rightarrow>
         (let single = (length ms = 1);
              s1 = (case md_working_dir md of Some d \<Rightarrow> if d \<noteq> ss_cwd s \<and> d \<noteq> [] then s\<lparr>ss_cwd := d\<rparr> else s | None \<Rightarrow> s);
              raw = combine_outputs content ms single;
              md1 = (if single then md\<lparr>md_prefix := ''[Previous command outputs are truncated. Showing the last '' @ show_nat (count_lines raw) @
                       '' lines of the output below.]'' @ [CHR 0x0A]\<rparr> else md);
              md2 = md1\<lparr>md_suffix := [CHR 0x0A] @ ''[The command completed with exit code '' @ show_int (md_exit_code md1) @
                      (if is_special_key cmd then ''. CTRL+'' @ [upper_char (last cmd)] @ '' was sent.]'' else ''.]'')\<rparr>
          in case get_command_output s1 cmd raw md2 [] True of (out, md3, s2) \<Rightarrow>
               (Inr \<lparr>tr_command = cmd, tr_output = truncated_output P out, tr_exit_code = Some (md_exit_code md3), tr_is_error = False,
                     tr_timeout = False, tr_metadata = md3\<rparr>,
                s2\<lparr>ss_prev_status := Some COMPLETED, ss_prev_output := [], ss_pending := [], ss_term := tb_clear T (ss_term s2)\<rparr>)))"

definition below_previous :: string where
  "below_previous = ''[Below is the output of the previous command.]'' @ [CHR 0x0A]"

text \<open>The three other ends of a command differ in the status they leave and in the note they append.\<close>

definition unfinished_result :: "prims \<Rightarrow> string \<Rightarrow> string \<Rightarrow> found list \<Rightarrow> string \<Rightarrow> bool \<Rightarrow> 't session \<Rightarrow> term_result \<times> 't session" where
  "unfinished_result P cmd content ms note_text blocked s =
     (case get_command_output s cmd (combine_outputs content ms False) (new_metadata\<lparr>md_suffix := note_text\<rparr>) below_previous False of (out, md, s') \<Rightarrow>
        (\<lparr>tr_command = cmd, tr_output = truncated_output P out, tr_exit_code = Some (md_exit_code md), tr_is_error = blocked,
          tr_timeout = (\<not> blocked), tr_metadata = md\<rparr>, s'))"

definition handle_nochange_timeout_command :: "prims \<Rightarrow> string \<Rightarrow> string \<Rightarrow> found list \<Rightarrow> 't session \<Rightarrow> term_result \<times> 't session" where
  "handle_nochange_timeout_command P cmd content ms s =
     unfinished_result P cmd content ms ([CHR 0x0A] @ ''[The command has no new output after '' @ show_int (ss_nochange s) @ '' seconds. '' @ TIMEOUT_MESSAGE @ '']'') False
       (s\<lparr>ss_prev_status := Some NO_CHANGE_TIMEOUT\<rparr>)"

definition handle_hard_timeout_command :: "prims \<Rightarrow> string \<Rightarrow> string \<Rightarrow> found list \<Rightarrow> pyfloat \<Rightarrow> 't session \<Rightarrow> term_result \<times> 't session" where
  "handle_hard_timeout_command P cmd content ms timeout s =
     unfinished_result P cmd content ms ([CHR 0x0A] @ ''[The command timed out after '' @ p_repr P (PFloat timeout) @ '' seconds. '' @ TIMEOUT_MESSAGE @ '']'') False
       (s\<lparr>ss_prev_status := Some HARD_TIMEOUT\<rparr>)"

definition handle_blocked_command :: "prims \<Rightarrow> string \<Rightarrow> string \<Rightarrow> found list \<Rightarrow> 't session \<Rightarrow> term_result \<times> 't session" where
  "handle_blocked_command P cmd content initial_ms s =
     (let ms = matches_ps1_metadata P content; current = (if ms \<noteq> [] then ms else initial_ms)
      in unfinished_result P cmd content current
           ([CHR 0x0A] @ ''[Your command '' @ [CHR 0x22] @ cmd @ [CHR 0x22] @ '' is NOT executed. The previous command is still running - '' @
            ''You CANNOT send new commands until the previous command is completed. '' @
            ''By setting `is_input` to `true`, you can interact with the current process: '' @ TIMEOUT_MESSAGE @ '']'') True s)"

definition reached :: "rat \<Rightarrow> pyfloat \<Rightarrow> bool" where
  "reached elapsed t = (case t of Fin r \<Rightarrow> r \<le> elapsed | NInf \<Rightarrow> True | _ \<Rightarrow> False)"

definition screen_done :: "string \<Rightarrow> bool" where
  "screen_done out \<longleftrightarrow> endswith (rstrip out) (CHR 0x0A # ps1_end)"

text \<open>One round of the loop: the result if the loop returns, or the last output and its time.\<close>

definition poll_once :: "prims \<Rightarrow> 't backend \<Rightarrow> term_request \<Rightarrow> nat \<Rightarrow> rat \<Rightarrow> string \<Rightarrow> rat \<Rightarrow> 't session \<Rightarrow>
    (term_result res + string \<times> rat) \<times> 't session" where
  "poll_once P T req initial_count start last_output last_change s =
     (let cmd = strip (rq_command req);
          (cur, t1) = tb_read T (ss_term s);
          ms = matches_ps1_metadata P cur;
          (last_output', last_change', t2) = (if cur \<noteq> last_output then (case tb_now T t1 of (n, t) \<Rightarrow> (cur, n, t)) else (last_output, last_change, t1));
          s2 = s\<lparr>ss_term := t2\<rparr>
      in if initial_count < length ms \<or> screen_done cur then (case handle_completed_command P T cmd cur ms s2 of (r, s') \<Rightarrow> (Inl r, s'))
         else (let (n3, t3) = tb_now T t2; s3 = s2\<lparr>ss_term := t3\<rparr> in
           case rq_timeout req of
             None \<Rightarrow> if of_int (ss_nochange s) \<le> n3 - last_change'
                     then (case handle_nochange_timeout_command P cmd cur ms s3 of (r, s') \<Rightarrow> (Inl (Inr r), s'))
                     else (Inr (last_output', last_change'), s3\<lparr>ss_term := tb_sleep T t3\<rparr>)
           | Some limit \<Rightarrow>
               (let (n4, t4) = tb_now T t3; s4 = s3\<lparr>ss_term := t4\<rparr> in
                if reached (n4 - start) limit
                then (case handle_hard_timeout_command P cmd cur ms limit s4 of (r, s') \<Rightarrow> (Inl (Inr r), s'))
                else (Inr (last_output', last_change'), s4\<lparr>ss_term := tb_sleep T t4\<rparr>))))"

partial_function (option) poll_loop :: "prims \<Rightarrow> 't backend \<Rightarrow> term_request \<Rightarrow> nat \<Rightarrow> rat \<Rightarrow> string \<Rightarrow> rat \<Rightarrow> 't session \<Rightarrow> (term_result res \<times> 't session) option" where
  "poll_loop pr T req initial_count start last_output last_change s =
     (case poll_once pr T req initial_count start last_output last_change s of
        (Inl r, s') \<Rightarrow> Some (r, s')
      | (Inr (out, ch), s') \<Rightarrow> poll_loop pr T req initial_count start out ch s')"

definition wait_for_completion :: "prims \<Rightarrow> 't backend \<Rightarrow> term_request \<Rightarrow> string \<Rightarrow> found list \<Rightarrow> 't session \<Rightarrow> (term_result res \<times> 't session) option" where
  "wait_for_completion P T req initial_output initial_ms s =
     (let cmd = strip (rq_command req); (start, t1) = tb_now T (ss_term s); s1 = s\<lparr>ss_term := t1\<rparr> in
      if ss_prev_status s \<in> {Some HARD_TIMEOUT, Some NO_CHANGE_TIMEOUT} \<and> \<not> screen_done initial_output \<and> \<not> rq_is_input req \<and> cmd \<noteq> []
      then (case handle_blocked_command P cmd initial_output initial_ms s1 of (r, s') \<Rightarrow> Some (Inr r, s'))
      else poll_loop P T req (length initial_ms) start initial_output start s1)"

definition engine_execute :: "prims \<Rightarrow> bash_parser \<Rightarrow> 't backend \<Rightarrow> term_request \<Rightarrow> 't session \<Rightarrow> (term_result res \<times> 't session) option" where
  "engine_execute P B T req s =
     (case validate_request B req of
        Some r \<Rightarrow> Some (Inr r, s)
      | None \<Rightarrow>
         (case check_previous_running_state s req of
            Some r \<Rightarrow> Some (Inr r, s)
          | None \<Rightarrow>
             (let (initial, t1) = tb_read T (ss_term s); ms = matches_ps1_metadata P initial
              in wait_for_completion P T req initial ms (send_command_to_backend B T req (s\<lparr>ss_term := t1\<rparr>)))))"

definition session_execute :: "prims \<Rightarrow> bash_parser \<Rightarrow> 't backend \<Rightarrow> term_request \<Rightarrow> 't session \<Rightarrow> (term_result res \<times> 't session) option" where
  "session_execute P B T req s =
     (if \<not> ss_initialized s then Some (Inl (Exc RuntimeErr ''Unified session is not initialized''), s)
      else engine_execute P B T req
        (if rq_reset req then (session_initialize T (session_close T s))\<lparr>ss_prev_status := None, ss_prev_output := [], ss_pending := []\<rparr> else s))"

section \<open>Finding the prompt blocks\<close>

lemma lit_at: "i \<le> length s \<Longrightarrow> rx s (lit w) (i, c) = (if startswith (drop i s) w then [(i + length w, c)] else [])"
proof -
  assume i: "i \<le> length s"
  have "i + length w \<le> length s" if "take (length w) (drop i s) = w"
    using arg_cong [OF that, of length] i by simp
  with i show ?thesis by (auto simp: lit_def rx_lit_by list.rel_eq startswith_def)
qed

definition block_char :: regex where
  "block_char = Then (NotAhead (lit ps1_begin)) any_all"

lemma block_char_at: "i \<le> length s \<Longrightarrow> rx s block_char (i, c) = (if i < length s \<and> \<not> startswith (drop i s) ps1_begin then [(Suc i, c)] else [])"
  by (simp add: block_char_def any_all_def lit_at)

lemma lazy_at: "i \<le> length s \<Longrightarrow> rx s (Fewest block_char) (i, c) =
    (i, c) # (if i < length s \<and> \<not> startswith (drop i s) ps1_begin then rx s (Fewest block_char) (Suc i, c) else [])"
  by (subst rx.simps(6)) (simp add: block_char_at)

lemma lazy_run:
  assumes "i + n \<le> length s" "\<And>k. k < n \<Longrightarrow> \<not> startswith (drop (i + k) s) ps1_begin"
  shows "\<exists>post. rx s (Fewest block_char) (i, c) = map (\<lambda>k. (i + k, c)) [0..<n] @ (i + n, c) # post"
  using assms
proof (induction n arbitrary: i)
  case 0
  then show ?case by (subst lazy_at) auto
next
  case (Suc n)
  have "\<exists>post. rx s (Fewest block_char) (Suc i, c) = map (\<lambda>k. (Suc i + k, c)) [0..<n] @ (Suc i + n, c) # post"
    by (rule Suc.IH) (use Suc.prems(1) Suc.prems(2) [of "Suc k" for k] in auto)
  then obtain post where p: "rx s (Fewest block_char) (Suc i, c) = map (\<lambda>k. (Suc i + k, c)) [0..<n] @ (Suc i + n, c) # post" by blast
  have "\<not> startswith (drop i s) ps1_begin" using Suc.prems(2) [of 0] by simp
  then have "rx s (Fewest block_char) (i, c) = (i, c) # map (\<lambda>k. (Suc i + k, c)) [0..<n] @ (Suc i + n, c) # post"
    using Suc.prems(1) p by (subst lazy_at) auto
  then show ?case by (simp add: upt_conv_Cons map_Suc_upt [symmetric] comp_def del: upt_Suc)
qed

lemma hash_start: "startswith s ps1_begin \<Longrightarrow> \<exists>t. s = CHR ''#'' # t" "startswith s ps1_end \<Longrightarrow> \<exists>t. s = CHR ''#'' # t"
  by (cases s; simp add: startswith_def ps1_begin_def ps1_end_def)+

definition line_start :: "string \<Rightarrow> bool" where
  "line_start a \<longleftrightarrow> a = [] \<or> last a = CHR 0x0A"

lemma ps1_block:
  assumes "s = a @ ps1_begin @ j @ ps1_end @ rest" "line_start a" "CHR ''#'' \<notin> set j"
  defines "i \<equiv> length a + length ps1_begin"
  shows "\<exists>ms. rx s ps1_regex (length a, []) = (i + length j + length ps1_end, [(1, i, i + length j)]) # ms"
proof -
  have le: "i + length j \<le> length s" by (simp add: assms(1) i_def)
  have at: "rx s AtLine (length a, []) = [(length a, [])]"
  proof (cases "a = []")
    case False
    then have "s ! (length a - 1) = last a" by (simp add: assms(1) nth_append last_conv_nth)
    with False assms(2) show ?thesis by (simp add: line_start_def)
  qed simp
  have b: "rx s (lit ps1_begin) (length a, []) = [(i, [])]" by (simp add: lit_at assms(1) i_def)
  have inj: "drop (i + k) s = drop k j @ ps1_end @ rest" if "k \<le> length j" for k using that by (simp add: assms(1) i_def)
  have none: "\<not> startswith (drop (i + k) s) ps1_begin" "\<not> startswith (drop (i + k) s) ps1_end" if "k < length j" for k
  proof -
    from that have "drop k j = j ! k # drop (Suc k) j" by (simp add: Cons_nth_drop_Suc)
    then have "drop (i + k) s = j ! k # drop (Suc k) j @ ps1_end @ rest" using inj [of k] that by simp
    moreover have "j ! k \<noteq> CHR ''#''" using assms(3) that nth_mem by metis
    ultimately show "\<not> startswith (drop (i + k) s) ps1_begin" "\<not> startswith (drop (i + k) s) ps1_end"
      using hash_start [of "drop (i + k) s"] by auto
  qed
  obtain post where p: "rx s (Fewest block_char) (i, []) = map (\<lambda>k. (i + k, [])) [0..<length j] @ (i + length j, []) # post"
    using lazy_run [OF le none(1), of "[]"] by blast
  let ?cap = "\<lambda>n :: nat \<times> caps. (fst n, dset 1 (i, fst n) (snd n))"
  have c: "rx s (Capture 1 (Fewest block_char)) (i, []) = map ?cap (map (\<lambda>k. (i + k, [])) [0..<length j]) @ (i + length j, [(1, i, i + length j)]) # map ?cap post"
    by (simp add: p)
  have e: "rx s (lit ps1_end) (i + k, cs) = []" if "k < length j" for k cs using that le none(2) by (simp add: lit_at)
  have l: "rx s (lit ps1_end) (i + length j, cs) = [(i + length j + length ps1_end, cs)]" for cs
    using le inj [of "length j"] by (simp add: lit_at)
  have z: "concat (map (rx s (lit ps1_end)) (map ?cap (map (\<lambda>k. (i + k, [])) [0..<length j]))) = []" by (simp add: e)
  have "rx s (Then (Capture 1 (Fewest block_char)) (lit ps1_end)) (i, []) =
      (i + length j + length ps1_end, [(1, i, i + length j)]) # concat (map (rx s (lit ps1_end)) (map ?cap post))"
    unfolding rx.simps(3) c map_append concat_append z by (simp add: l)
  then have "rx s ps1_regex (length a, []) = (i + length j + length ps1_end, [(1, i, i + length j)]) # concat (map (rx s (lit ps1_end)) (map ?cap post))"
    unfolding ps1_regex_def block_char_def [symmetric] by (simp add: at b del: rx.simps(10,12))
  then show ?thesis by blast
qed

lemma ps1_needs_begin: "i \<le> length s \<Longrightarrow> \<not> startswith (drop i s) ps1_begin \<Longrightarrow> rx s ps1_regex (i, []) = []"
  by (simp add: ps1_regex_def lit_at)

text \<open>Text before a block in which no block begins.\<close>

lemma startswith_contains: "startswith (drop k t) p \<Longrightarrow> contains t p"
proof -
  assume a: "startswith (drop k t) p"
  then have "t = take k t @ p @ drop (length p) (drop k t)"
    by (metis append_take_drop_id startswith_def)
  then show ?thesis by (metis contains_append)
qed

lemma no_block_in_output:
  assumes "\<not> contains t ps1_begin" "t \<noteq> [] \<longrightarrow> last t = CHR 0x0A \<or> u = []" "k < length t"
  shows "\<not> startswith (drop k (t @ u)) ps1_begin"
proof
  assume st: "startswith (drop k (t @ u)) ps1_begin"
  define d where "d = drop k t"
  have d: "d \<noteq> []" "drop k (t @ u) = d @ u" "last d = last t" using assms(3) by (auto simp: d_def)
  have st': "take (length ps1_begin) (d @ u) = ps1_begin" using st unfolding d(2) startswith_def .
  show False
  proof (cases "length ps1_begin \<le> length d")
    case True
    then have "startswith d ps1_begin" using st' by (simp add: startswith_def)
    then show False using startswith_contains assms(1) d_def by blast
  next
    case False
    then have pre: "ps1_begin = d @ take (length ps1_begin - length d) u" using st' by simp
    have "u \<noteq> []" using False pre by auto
    then have "last t = CHR 0x0A" using assms(2) d(1) d_def by auto
    then have "CHR 0x0A \<in> set ps1_begin" using d(1,3) pre by (metis Un_iff last_in_set set_append)
    then show False by (simp add: ps1_begin_def)
  qed
qed

text \<open>A screen: what was printed before each prompt block, the content of the block, and what follows the last one.\<close>

definition screen_text :: "(string \<times> string) list \<Rightarrow> string \<Rightarrow> string" where
  "screen_text bs after = concat (map (\<lambda>(out, j). out @ ps1_begin @ j @ ps1_end) bs) @ after"

definition quiet :: "string \<Rightarrow> bool" where
  "quiet t \<longleftrightarrow> \<not> contains t ps1_begin"

definition screen_ok :: "(string \<times> string) list \<Rightarrow> bool" where
  "screen_ok bs \<longleftrightarrow> list_all (\<lambda>(out, j). quiet out \<and> line_start out \<and> CHR ''#'' \<notin> set j) bs \<and> list_all (\<lambda>(out, j). out \<noteq> []) (tl bs)"

fun spans :: "nat \<Rightarrow> (string \<times> string) list \<Rightarrow> found list" where
  "spans n [] = []"
| "spans n ((out, j) # bs) =
     (let i = n + length out; b = i + length ps1_begin; e = b + length j + length ps1_end
      in \<lparr>f_start = i, f_end = e, f_groups = [(1, b, b + length j)]\<rparr> # spans e bs)"

lemma search_block:
  assumes "s = a @ out @ ps1_begin @ j @ ps1_end @ rest" "quiet out" "line_start out" "out = [] \<Longrightarrow> line_start a" "CHR ''#'' \<notin> set j"
  defines "b \<equiv> length a + length out + length ps1_begin"
  shows "search_from s ps1_regex (length a) = Some \<lparr>f_start = length a + length out, f_end = b + length j + length ps1_end, f_groups = [(1, b, b + length j)]\<rparr>"
proof -
  let ?u = "ps1_begin @ j @ ps1_end @ rest"
  have none: "rx s ps1_regex (i, []) = []" if "i \<in> set [length a..<length a + length out]" for i
  proof (rule ps1_needs_begin)
    from that obtain k where k: "i = length a + k" "k < length out" by (metis atLeastLessThan_iff atLeastLessThan_upt le_add_diff_inverse nat_add_left_cancel_less)
    have "drop i s = drop k (out @ ?u)" by (simp add: assms(1) k(1))
    with no_block_in_output [of out ?u k] assms(2,3) k(2) show "\<not> startswith (drop i s) ps1_begin" by (auto simp: quiet_def line_start_def)
    show "i \<le> length s" using k by (simp add: assms(1))
  qed
  have "line_start (a @ out)" using assms(3,4) by (cases "out = []") (simp_all add: line_start_def)
  then obtain ms where ms: "rx s ps1_regex (length (a @ out), []) =
      (length (a @ out) + length ps1_begin + length j + length ps1_end, [(1, length (a @ out) + length ps1_begin, length (a @ out) + length ps1_begin + length j)]) # ms"
    using ps1_block [of s "a @ out" j rest] assms(1,5) by auto
  have "[length a..<Suc (length s)] = [length a..<length a + length out] @ (length a + length out) # [Suc (length a + length out)..<Suc (length s)]"
  proof -
    have le: "length a + length out < Suc (length s)" by (simp add: assms(1))
    then have "[length a..<Suc (length s)] = [length a..<length a + length out] @ [length a + length out..<Suc (length s)]"
      using upt_add_eq_append [of "length a" "length a + length out" "Suc (length s) - (length a + length out)"] by (simp del: upt_Suc)
    with le show ?thesis by (simp only: upt_conv_Cons)
  qed
  moreover have "search_in s ps1_regex ([length a..<length a + length out] @ js) = search_in s ps1_regex js" for js
    by (rule search_in_skip) (rule none)
  ultimately show ?thesis
    unfolding search_from_def using ms by (simp add: b_def del: upt_Suc)
qed

lemma search_tail:
  assumes "s = a @ after" "quiet after"
  shows "search_from s ps1_regex (length a) = None"
proof -
  have "rx s ps1_regex (i, []) = []" if "i \<in> set [length a..<Suc (length s)]" for i
  proof (rule ps1_needs_begin)
    from that have "length a \<le> i" "i \<le> length a + length after" by (auto simp: assms(1))
    then obtain k where k: "i = length a + k" "k \<le> length after" by (metis le_add_diff_inverse nat_add_left_cancel_le)
    show "i \<le> length s" using k by (simp add: assms(1))
    show "\<not> startswith (drop i s) ps1_begin"
    proof (cases "k < length after")
      case True
      with no_block_in_output [of after "[]" k] assms k show ?thesis by (simp add: quiet_def)
    next
      case False
      with k show ?thesis by (simp add: assms(1) startswith_def ps1_begin_def)
    qed
  qed
  then show ?thesis by (simp add: search_from_def search_in_None del: upt_Suc)
qed

lemma finditer_screen:
  assumes "s = a @ screen_text bs after" "quiet after" "list_all (\<lambda>(out, j). quiet out \<and> line_start out \<and> CHR ''#'' \<notin> set j) bs"
    "bs \<noteq> [] \<and> fst (hd bs) = [] \<longrightarrow> line_start a" "list_all (\<lambda>(out, j). out \<noteq> []) (tl bs)"
  shows "finditer_from s ps1_regex (length a) = spans (length a) bs"
  using assms
proof (induction bs arbitrary: a)
  case Nil
  then have "search_from s ps1_regex (length a) = None" by (simp add: search_tail [of _ a after] screen_text_def)
  then show ?case by (subst finditer_from.simps) simp
next
  case (Cons x bs)
  obtain out j where x: "x = (out, j)" by (cases x)
  let ?a = "a @ out @ ps1_begin @ j @ ps1_end"
  have s: "s = a @ out @ ps1_begin @ j @ ps1_end @ screen_text bs after" using Cons.prems(1) by (simp add: x screen_text_def)
  have f: "search_from s ps1_regex (length a) = Some \<lparr>f_start = length a + length out, f_end = length ?a,
      f_groups = [(1, length a + length out + length ps1_begin, length a + length out + length ps1_begin + length j)]\<rparr>"
    using search_block [OF s] Cons.prems(3,4) x by (simp add: add.assoc)
  have ne: "list_all (\<lambda>(out, j). out \<noteq> []) bs" using Cons.prems(5) by simp
  have "finditer_from s ps1_regex (length ?a) = spans (length ?a) bs"
  proof (rule Cons.IH)
    show "bs \<noteq> [] \<and> fst (hd bs) = [] \<longrightarrow> line_start ?a" using ne by (cases bs) auto
    show "list_all (\<lambda>(out, j). out \<noteq> []) (tl bs)" using ne by (cases bs) auto
  qed (use Cons.prems s in simp_all)
  moreover have "max (length ?a) (Suc (length a)) = length ?a" "\<not> length s < length a" by (simp_all add: ps1_begin_def s)
  ultimately show ?case
    by (subst finditer_from.simps) (simp add: f x Let_def add.assoc)
qed

lemma spans_groups:
  assumes "s = a @ screen_text bs after" "f \<in> set (spans (length a) bs)"
  shows "\<exists>(out, j) \<in> set bs. group_text s f 1 = Some j"
  using assms
proof (induction bs arbitrary: a)
  case (Cons x bs)
  obtain out j where x: "x = (out, j)" by (cases x)
  let ?a = "a @ out @ ps1_begin @ j @ ps1_end"
  have s: "s = a @ out @ ps1_begin @ j @ ps1_end @ screen_text bs after" using Cons.prems(1) by (simp add: x screen_text_def)
  from Cons.prems(2) consider "f = hd (spans (length a) (x # bs))" | "f \<in> set (spans (length ?a) bs)"
    by (auto simp: x Let_def add.assoc)
  then show ?case
  proof cases
    case 1
    then have "group_text s f 1 = Some j" by (simp add: x Let_def group_text_def s)
    then show ?thesis by (auto simp: x)
  next
    case 2
    with Cons.IH [of ?a] s show ?thesis by auto
  qed
qed simp

lemma screen_matches:
  assumes "screen_ok bs" "quiet after" "\<forall>(out, j) \<in> set bs. p_loads P (strip j) \<noteq> None"
  shows "matches_ps1_metadata P (screen_text bs after) = spans 0 bs"
proof -
  let ?s = "screen_text bs after"
  have "re_finditer ?s ps1_regex = spans 0 bs"
    using finditer_screen [of ?s "[]" bs after] assms(1,2) by (simp add: re_finditer_def screen_ok_def line_start_def)
  moreover have "\<forall>f \<in> set (spans 0 bs). case group_text ?s f 1 of None \<Rightarrow> False | Some t \<Rightarrow> p_loads P (strip t) \<noteq> None"
    using spans_groups [of ?s "[]" bs after] assms(3) by fastforce
  ultimately show ?thesis by (simp add: matches_ps1_metadata_def)
qed

lemma spans_length: "length (spans n bs) = length bs"
  by (induction n bs rule: spans.induct) (simp_all add: Let_def)

lemma spans_last: "bs \<noteq> [] \<Longrightarrow> f_end (last (spans n bs)) = n + length (screen_text bs [])"
proof (induction bs arbitrary: n)
  case (Cons b bs)
  have "spans m bs = [] \<longleftrightarrow> bs = []" for m using spans_length [of m bs] by (metis length_0_conv)
  with Cons show ?case by (cases b) (auto simp: Let_def screen_text_def)
qed simp

lemma spans_gaps:
  assumes "s = a @ screen_text (b # bs) after"
  shows "concat (map (\<lambda>(p, q). slice s (f_end p + 1) (f_start q) @ [CHR 0x0A]) (zip (spans (length a) (b # bs)) (tl (spans (length a) (b # bs))))) =
    concat (map (\<lambda>(out, j). drop 1 out @ [CHR 0x0A]) bs)"
  using assms
proof (induction bs arbitrary: a b)
  case Nil
  then show ?case by (cases b) (simp add: Let_def)
next
  case (Cons c bs)
  obtain out j out' j' where x: "b = (out, j)" "c = (out', j')" by (cases b, cases c)
  let ?a = "a @ out @ ps1_begin @ j @ ps1_end"
  have s: "s = ?a @ screen_text (c # bs) after" using Cons.prems(1) by (simp add: x screen_text_def)
  have "slice s (length ?a + 1) (length ?a + length out') = drop 1 out'"
    by (simp add: s slice_def screen_text_def x del: append_assoc)
  with Cons.IH [OF s] show ?case by (simp add: x Let_def add.assoc)
qed


section \<open>The query filter\<close>

lemma rx_needs_esc: "ESC \<notin> set s \<Longrightarrow> i \<le> length s \<Longrightarrow> rx s (lit (ESC # w)) (i, c) = []"
  by (auto simp: lit_at startswith_def dest: in_set_dropD) (metis in_set_dropD list.set_intros(1) take_Suc_Cons in_set_takeD)

lemma remove_none: "(\<And>i. i \<le> length s \<Longrightarrow> rx s r (i, []) = []) \<Longrightarrow> re_remove r s = s"
proof -
  assume a: "\<And>i. i \<le> length s \<Longrightarrow> rx s r (i, []) = []"
  then have "search_from s r 0 = None" by (auto simp: search_from_def search_in_None simp del: upt_Suc)
  then have "finditer_from s r 0 = []" by (subst finditer_from.simps) simp
  then show ?thesis by (simp add: re_remove_def re_finditer_def)
qed

lemma plain_text_kept: "ESC \<notin> set s \<Longrightarrow> filter_complete_queries s = s"
  by (simp add: filter_complete_queries_def remove_none rx_needs_esc dsr_rx_def osc_query_rx_def da_rx_def da2_rx_def decrqss_rx_def)

lemma osc_incomplete:
  assumes "s = ESC # CHR '']'' # t" "BEL \<notin> set t"
  shows "rx s incomplete_rx (0, []) \<noteq> []"
proof -
  have l: "rx s (lit [ESC, CHR '']'']) (0, []) = [(2, [])]" by (simp add: lit_at assms(1) startswith_def)
  have "takeWhile (\<lambda>c. c \<noteq> BEL) t = t" by (rule iffD2 [OF takeWhile_eq_all_conv]) (use assms(2) in blast)
  then have "length (takeWhile (\<lambda>c. c \<noteq> BEL) t) = length t" by (rule arg_cong [of _ _ length])
  then have "(length s, []) \<in> set (rx s (Many (Chars (\<lambda>c. c \<noteq> BEL))) (2, []))"
    by (auto simp: rx_many_chars assms(1) image_iff intro!: bexI [of _ "length t"])
  moreover have "rx s AtEnd (length s, []) = [(length s, [])]" by simp
  ultimately have "(length s, []) \<in> set (rx s (Then (Many (Chars (\<lambda>c. c \<noteq> BEL))) AtEnd) (2, []))"
    unfolding rx.simps(3) set_concat set_map by fastforce
  then show ?thesis using l by (auto simp: incomplete_rx_def simp del: rx.simps(11))
qed

text \<open>
  Text without escape characters passes the filter as it is. A status query that ends with the string terminator is taken for
  unfinished, so it and all output after it are held back until a bell or the end of the command.
\<close>

theorem query_filter_holds_back:
  "(ESC \<notin> set out \<longrightarrow> query_filter [] out = (out, [])) \<and>
   (BEL \<notin> set out \<longrightarrow> query_filter [] (ESC # '']11;?'' @ [ESC, CHR 0x5C] @ out) = ([], ESC # '']11;?'' @ [ESC, CHR 0x5C] @ out))"
proof (intro conjI impI)
  assume e: "ESC \<notin> set out"
  have "rx out incomplete_rx (i, []) = []" if "i \<le> length out" for i
    using that e by (simp add: incomplete_rx_def rx_needs_esc)
  then have "re_search out incomplete_rx = None" by (auto simp: re_search_def search_from_def search_in_None simp del: upt_Suc)
  then show "query_filter [] out = (out, [])" using e by (simp add: query_filter_def plain_text_kept)
next
  assume b: "BEL \<notin> set out"
  let ?s = "ESC # '']11;?'' @ [ESC, CHR 0x5C] @ out"
  have "rx ?s incomplete_rx (0, []) \<noteq> []" by (rule osc_incomplete [where t = "''11;?'' @ [ESC, CHR 0x5C] @ out"]) (use b in \<open>simp_all add: ESC_def BEL_def\<close>)
  then obtain m ms where "rx ?s incomplete_rx (0, []) = m # ms" using list.exhaust by blast
  then have "search_in ?s incomplete_rx (0 # is) = Some \<lparr>f_start = 0, f_end = fst m, f_groups = snd m\<rparr>" for "is" by simp
  then have "re_search ?s incomplete_rx = Some \<lparr>f_start = 0, f_end = fst m, f_groups = snd m\<rparr>"
    unfolding re_search_def search_from_def by (metis upt_conv_Cons zero_less_Suc)
  then show "query_filter [] ?s = ([], ?s)"
    by (simp add: query_filter_def plain_text_kept)
qed

section \<open>Ends of a command\<close>

lemma get_command_output_session:
  "get_command_output s cmd raw md pre fin = (out, md', s') \<Longrightarrow>
    ss_term s' = ss_term s \<and> ss_prev_status s' = ss_prev_status s \<and> ss_closed s' = ss_closed s \<and> ss_nochange s' = ss_nochange s \<and> md_suffix md' = md_suffix md"
  by (auto simp: get_command_output_def Let_def split: prod.splits if_splits)

lemma truncated_output_length: "int (length (truncated_output P out)) \<le> MAX_CMD_OUTPUT_SIZE"
  unfolding truncated_output_def maybe_truncate_def MAX_CMD_OUTPUT_SIZE_def by (simp add: clip_length Let_def)

text \<open>What a step of the engine leaves in the session, for each way in which it ends.\<close>

definition ended :: "term_request \<Rightarrow> cmd_status option \<Rightarrow> term_result \<Rightarrow> 't session \<Rightarrow> bool" where
  "ended req st r s \<longleftrightarrow>
     (if tr_timeout r then \<not> tr_is_error r \<and> ss_prev_status s = (if rq_timeout req = None then Some NO_CHANGE_TIMEOUT else Some HARD_TIMEOUT)
      else if tr_is_error r then ss_prev_status s = st
      else ss_prev_status s = Some COMPLETED \<and> ss_prev_output s = [] \<and> ss_pending s = [])"

lemma unfinished_session:
  "unfinished_result P cmd content ms note_text blocked s = (r, s') \<Longrightarrow>
    ss_prev_status s' = ss_prev_status s \<and> ss_closed s' = ss_closed s \<and> ss_nochange s' = ss_nochange s \<and> ss_term s' = ss_term s \<and>
    tr_is_error r = blocked \<and> tr_timeout r = (\<not> blocked) \<and> int (length (tr_output r)) \<le> MAX_CMD_OUTPUT_SIZE \<and> md_suffix (tr_metadata r) = note_text"
  by (auto simp: unfinished_result_def truncated_output_length dest!: get_command_output_session split: prod.splits)

lemma completed_session:
  "handle_completed_command P T cmd content ms s = (Inr r, s') \<Longrightarrow>
    \<not> tr_is_error r \<and> \<not> tr_timeout r \<and> ss_prev_status s' = Some COMPLETED \<and> ss_prev_output s' = [] \<and> ss_pending s' = [] \<and>
    int (length (tr_output r)) \<le> MAX_CMD_OUTPUT_SIZE"
  by (auto simp: handle_completed_command_def Let_def truncated_output_length split: if_splits sum.splits prod.splits)

lemma completed_closed: "handle_completed_command P T cmd content ms s = (r, s') \<Longrightarrow> ss_closed s' = ss_closed s"
  by (auto simp: handle_completed_command_def Let_def split: if_splits sum.splits prod.splits option.splits dest!: get_command_output_session)

lemma poll_once_end:
  assumes "poll_once P T req n start lo lc s = (Inl (Inr r), s')"
  shows "ended req st r s' \<and> int (length (tr_output r)) \<le> MAX_CMD_OUTPUT_SIZE"
  using assms
  by (auto simp: poll_once_def Let_def handle_nochange_timeout_command_def handle_hard_timeout_command_def ended_def
      split: prod.splits if_splits option.splits dest!: completed_session unfinished_session)

lemma poll_once_closed:
  assumes "poll_once P T req n start lo lc s = (x, s')"
  shows "ss_closed s' = ss_closed s"
  using assms
  by (auto simp: poll_once_def Let_def handle_nochange_timeout_command_def handle_hard_timeout_command_def
      split: prod.splits if_splits option.splits dest!: completed_closed unfinished_session)

lemma poll_loop_end:
  assumes "poll_loop P T req n start lo lc s = Some y"
  shows "ss_closed (snd y) = ss_closed s \<and> (\<forall>r. fst y = Inr r \<longrightarrow> ended req st r (snd y) \<and> int (length (tr_output r)) \<le> MAX_CMD_OUTPUT_SIZE)"
proof (rule poll_loop.raw_induct [where P = "\<lambda>P T req n start lo lc s y. ss_closed (snd y) = ss_closed s \<and>
      (\<forall>r. fst y = Inr r \<longrightarrow> ended req st r (snd y) \<and> int (length (tr_output r)) \<le> MAX_CMD_OUTPUT_SIZE)", OF _ assms], goal_cases)
  case (1 loop P T req n start lo lc s y)
  show ?case
  proof (cases "poll_once P T req n start lo lc s")
    case (Pair x s')
    show ?thesis
    proof (cases x)
      case (Inl r)
      with 1(2) Pair poll_once_end [of P T req n start lo lc s] poll_once_closed [of P T req n start lo lc s] show ?thesis by auto
    next
      case (Inr p)
      with 1(2) Pair have "loop P T req n start (fst p) (snd p) s' = Some y" by (simp split: prod.splits)
      with 1(1) poll_once_closed [OF Pair] show ?thesis by auto
    qed
  qed
qed

section \<open>A whole request\<close>

lemma send_session: "ss_closed (send_command_to_backend B T req s) = ss_closed s \<and> ss_prev_status (send_command_to_backend B T req s) = ss_prev_status s \<and>
    ss_nochange (send_command_to_backend B T req s) = ss_nochange s"
  by (simp add: send_command_to_backend_def Let_def)

lemma engine_end:
  assumes "engine_execute P B T req s = Some (x, s')"
  shows "ss_closed s' = ss_closed s \<and> (\<forall>r. x = Inr r \<longrightarrow> ended req (ss_prev_status s) r s' \<and> (\<not> tr_is_error r \<longrightarrow> int (length (tr_output r)) \<le> MAX_CMD_OUTPUT_SIZE))"
proof -
  consider (early) r where "x = Inr r" "s' = s" "tr_is_error r" "\<not> tr_timeout r"
    | (wait) initial t1 where "tb_read T (ss_term s) = (initial, t1)"
        "wait_for_completion P T req initial (matches_ps1_metadata P initial) (send_command_to_backend B T req (s\<lparr>ss_term := t1\<rparr>)) = Some (x, s')"
    using assms
    by (auto simp: engine_execute_def validate_request_def check_previous_running_state_def plain_result_def Let_def split: option.splits if_splits prod.splits)
  then show ?thesis
  proof cases
    case wait
    define u where "u = send_command_to_backend B T req (s\<lparr>ss_term := t1\<rparr>)"
    have u: "ss_closed u = ss_closed s" "ss_prev_status u = ss_prev_status s"
      using send_session [of B T req "s\<lparr>ss_term := t1\<rparr>"] by (simp_all add: u_def)
    obtain n t2 where n: "tb_now T (ss_term u) = (n, t2)" by fastforce
    from wait(2) consider (blocked) r where "x = Inr r" "handle_blocked_command P (strip (rq_command req)) initial (matches_ps1_metadata P initial) (u\<lparr>ss_term := t2\<rparr>) = (r, s')"
      | (loop) "poll_loop P T req (length (matches_ps1_metadata P initial)) n initial n (u\<lparr>ss_term := t2\<rparr>) = Some (x, s')"
      unfolding u_def [symmetric] wait_for_completion_def n Let_def by (auto split: if_splits prod.splits)
    then show ?thesis
    proof cases
      case blocked
      from unfinished_session [OF blocked(2) [unfolded handle_blocked_command_def Let_def]] u blocked(1) show ?thesis by (simp add: ended_def)
    next
      case loop
      from poll_loop_end [OF loop, of "ss_prev_status s"] u show ?thesis by simp
    qed
  qed (simp add: ended_def)
qed

text \<open>
  What a request leaves behind: a timeout is recorded with its kind, a finished command leaves nothing pending, and a request that is
  refused changes no status; the output of a command is never longer than the limit.
\<close>

theorem request_outcome:
  assumes "session_execute P B T req s = Some (Inr r, s')" "\<not> rq_reset req"
  shows "(tr_timeout r \<longrightarrow> \<not> tr_is_error r \<and> session_is_running s' = ss_initialized s' \<and>
      ss_prev_status s' = (if rq_timeout req = None then Some NO_CHANGE_TIMEOUT else Some HARD_TIMEOUT)) \<and>
    (\<not> tr_timeout r \<and> \<not> tr_is_error r \<longrightarrow> \<not> session_is_running s' \<and> ss_prev_output s' = [] \<and> ss_pending s' = []) \<and>
    (if tr_is_error r then ss_prev_status s' = ss_prev_status s else int (length (tr_output r)) \<le> MAX_CMD_OUTPUT_SIZE)"
  using assms engine_end [of P B T req s "Inr r" s']
  by (auto simp: session_execute_def ended_def session_is_running_def running_status_def split: if_splits)

text \<open>
  A command that is reported as not executed has been typed into the terminal: while an earlier command is still running, the new one
  is sent before the check that refuses it.
\<close>

theorem refused_command_was_sent:
  assumes "validate_request B req = None" "\<not> rq_is_input req" "strip (rq_command req) \<noteq> []"
    and "ss_prev_status s \<in> {Some HARD_TIMEOUT, Some NO_CHANGE_TIMEOUT}"
    and "tb_read T (ss_term s) = (screen, t1)" "\<not> screen_done screen"
  defines "cmd \<equiv> strip (rq_command req)"
  defines "sent \<equiv> (if tb_powershell T then cmd else escape_bash_special_chars B cmd)"
  shows "\<exists>r s' rest. engine_execute P B T req s = Some (Inr r, s') \<and> tr_is_error r \<and>
    md_suffix (tr_metadata r) = [CHR 0x0A] @ ''[Your command '' @ [CHR 0x22] @ cmd @ [CHR 0x22] @ '' is NOT executed. '' @ rest \<and>
    ss_term s' = snd (tb_now T (tb_send T sent (\<not> is_special_key cmd) t1))"
proof -
  have c: "check_previous_running_state s req = None" using assms(4) by (auto simp: check_previous_running_state_def running_status_def Let_def)
  let ?s1 = "send_command_to_backend B T req (s\<lparr>ss_term := t1\<rparr>)"
  have t: "ss_term ?s1 = tb_send T sent (\<not> is_special_key cmd) t1" "ss_prev_status ?s1 = ss_prev_status s"
    using assms(2,3) by (simp_all add: send_command_to_backend_def Let_def sent_def cmd_def)
  obtain n t2 where n: "tb_now T (ss_term ?s1) = (n, t2)" by (cases "tb_now T (ss_term ?s1)")
  obtain r s' where b: "handle_blocked_command P cmd screen (matches_ps1_metadata P screen) (?s1\<lparr>ss_term := t2\<rparr>) = (r, s')"
    by (cases "handle_blocked_command P cmd screen (matches_ps1_metadata P screen) (?s1\<lparr>ss_term := t2\<rparr>)")
  have e: "engine_execute P B T req s = Some (Inr r, s')"
    using assms(1-6) c n b t(2) by (simp add: engine_execute_def wait_for_completion_def cmd_def)
  from b have u: "tr_is_error r \<and> ss_term s' = t2 \<and> (\<exists>rest. md_suffix (tr_metadata r) =
      [CHR 0x0A] @ ''[Your command '' @ [CHR 0x22] @ cmd @ [CHR 0x22] @ '' is NOT executed. '' @ rest)"
    unfolding handle_blocked_command_def Let_def by (auto dest!: unfinished_session)
  with e n t(1) show ?thesis by (metis snd_conv)
qed

text \<open>A clock that never runs backwards and passes the poll interval while the client sleeps.\<close>

definition clock_laws :: "'t backend \<Rightarrow> ('t \<Rightarrow> rat) \<Rightarrow> bool" where
  "clock_laws T clk \<longleftrightarrow> (\<forall>t. clk t \<le> clk (snd (tb_read T t)) \<and> clk t \<le> fst (tb_now T t) \<and> fst (tb_now T t) \<le> clk (snd (tb_now T t)) \<and>
     clk t + 1 / 2 \<le> clk (tb_sleep T t))"

lemma poll_once_clock:
  assumes "clock_laws T clk" "rq_timeout req = Some (Fin limit)" "poll_once P T req n start lo lc s = (Inr p, s')"
  shows "clk (ss_term s) + 1 / 2 \<le> clk (ss_term s') \<and> clk (ss_term s) < start + limit"
proof -
  obtain cur t1 where r: "tb_read T (ss_term s) = (cur, t1)" by fastforce
  define t2 where "t2 = (if cur \<noteq> lo then snd (tb_now T t1) else t1)"
  define t3 where "t3 = snd (tb_now T t2)"
  define t4 where "t4 = snd (tb_now T t3)"
  have law: "clk t \<le> clk (snd (tb_now T t))" "clk t \<le> fst (tb_now T t)" "clk t + 1 / 2 \<le> clk (tb_sleep T t)" for t
    using assms(1) order_trans unfolding clock_laws_def by blast+
  have le: "clk (ss_term s) \<le> clk t1" using assms(1) r unfolding clock_laws_def by (metis snd_conv)
  have "ss_term s' = tb_sleep T t4 \<and> \<not> reached (fst (tb_now T t3) - start) (Fin limit)"
    using assms(3) unfolding poll_once_def r t2_def t3_def t4_def
    by (auto simp: Let_def assms(2) split: if_splits prod.splits)
  moreover have "clk t1 \<le> clk t2" "clk t2 \<le> clk t3" "clk t3 \<le> clk t4" "clk t3 \<le> fst (tb_now T t3)"
    using law by (simp_all add: t2_def t3_def t4_def)
  ultimately show ?thesis using le law(3) [of t4] by (simp add: reached_def)
qed

lemma poll_loop_ends:
  assumes "clock_laws T clk" "rq_timeout req = Some (Fin limit)" "start + limit - clk (ss_term s) \<le> of_nat k / 2"
  shows "\<exists>y. poll_loop P T req n start lo lc s = Some y"
  using assms(3)
proof (induction k arbitrary: s lo lc)
  case 0
  then have "\<nexists>p s'. poll_once P T req n start lo lc s = (Inr p, s')" using poll_once_clock [OF assms(1,2)] by fastforce
  then show ?case by (subst poll_loop.simps) (auto split: prod.split sum.split)
next
  case (Suc k)
  show ?case
  proof (cases "poll_once P T req n start lo lc s")
    case (Pair x s')
    show ?thesis
    proof (cases x)
      case (Inr p)
      have "start + limit - clk (ss_term s') \<le> of_nat k / 2"
        using poll_once_clock [OF assms(1,2) Pair [unfolded Inr]] Suc.prems by (simp add: field_simps)
      from Suc.IH [OF this] Inr Pair show ?thesis by (subst poll_loop.simps) (simp split: prod.split)
    qed (use Pair in \<open>subst poll_loop.simps, simp\<close>)
  qed
qed

text \<open>
  C18. A request with a time limit always returns, whatever the terminal prints, if the clock goes on.
\<close>

theorem limited_request_returns:
  assumes "clock_laws T clk" "rq_timeout req = Some (Fin limit)"
  shows "\<exists>x s'. session_execute P B T req s = Some (x, s')"
proof -
  have l: "\<exists>y. poll_loop P T req n start lo lc u = Some y" for n start lo lc u
  proof -
    obtain k :: nat where "2 * (start + limit - clk (ss_term u)) \<le> of_nat k" using real_arch_simple by blast
    then show ?thesis using poll_loop_ends [OF assms] by (metis (no_types, lifting) le_divide_eq_numeral1(1) mult.commute)
  qed
  then have "\<exists>y. wait_for_completion P T req initial ms u = Some y" for initial ms u
    by (auto simp: wait_for_completion_def Let_def split: prod.split)
  then have "\<exists>y. engine_execute P B T req u = Some y" for u
    by (auto simp: engine_execute_def Let_def split: option.split prod.split)
  then show ?thesis by (auto simp: session_execute_def)
qed

text \<open>
  After a reset the session counts as closed although its terminal was opened anew, so closing it does nothing and the new terminal stays open.
\<close>

theorem reset_session_never_closes:
  assumes "session_execute P B T req s = Some (x, s')" "rq_reset req" "ss_initialized s"
  shows "ss_closed s' \<and> session_close T s' = s'"
proof -
  have "ss_closed s'" using engine_end [of P B T req _ x s'] assms
    by (auto simp: session_execute_def session_initialize_def session_close_def split: if_splits)
  then show ?thesis by (simp add: session_close_def)
qed

section \<open>Witnesses\<close>

definition term_prims :: prims where
  "term_prims = \<lparr>p_sha256 = id, p_canon = (\<lambda>_. []), p_dumps = (\<lambda>_. []), p_loads = (\<lambda>_. Some (PDict [])),
     p_float_of_int = (\<lambda>i. Fin (of_int i)), p_float_of_str = (\<lambda>_. Inr (Fin 0)), p_repr = (\<lambda>_. [])\<rparr>"

definition sample_term :: "(rat \<times> string) backend" where
  "sample_term = \<lparr>tb_read = (\<lambda>(t, scr). (scr, (t, scr))), tb_send = (\<lambda>w _ (t, scr). (t, scr @ w)), tb_clear = (\<lambda>(t, _). (t, [])),
     tb_now = (\<lambda>(t, scr). (t, (t, scr))), tb_sleep = (\<lambda>(t, scr). (t + 1 / 2, scr)), tb_init = id, tb_close = id, tb_powershell = False\<rparr>"

definition sample_session :: "(rat \<times> string) session" where
  "sample_session = (attach_to_existing (0, ''busy'') ''/'' None)\<lparr>ss_prev_status := Some HARD_TIMEOUT\<rparr>"

definition sample_request :: "string \<Rightarrow> bool \<Rightarrow> term_request" where
  "sample_request cmd reset = \<lparr>rq_command = cmd, rq_is_input = False, rq_timeout = Some (Fin 3), rq_reset = reset\<rparr>"

lemma sample_single: "validate_request (\<lambda>_. None) (sample_request ''ls'' reset) = None"
  by (simp add: validate_request_def sample_request_def split_bash_commands_def strip_def strip_set_def lstrip_set_def rstrip_set_def whitespace_def)

lemma strip_ls: "strip ''ls'' = ''ls''"
  by (simp add: strip_def strip_set_def lstrip_set_def rstrip_set_def whitespace_def)

lemma busy_not_done: "\<not> screen_done ''busy''"
  by (simp add: screen_done_def endswith_def ps1_end_def rstrip_def rstrip_set_def whitespace_def)


theorem query_filter_holds_back_witness: "query_filter [] (ESC # '']11;?'' @ [ESC, CHR 0x5C] @ ''hello'') = ([], ESC # '']11;?'' @ [ESC, CHR 0x5C] @ ''hello'')"
  using conjunct2 [OF query_filter_holds_back [of "''hello''"]] by (simp add: BEL_def)

theorem refused_command_was_sent_witness:
  "\<exists>r s'. engine_execute term_prims (\<lambda>_. None) sample_term (sample_request ''ls'' False) sample_session = Some (Inr r, s') \<and>
     tr_is_error r \<and> ss_term s' = (0, ''busyls'')"
proof -
  have "sample_request ''ls'' False = \<lparr>rq_command = ''ls'', rq_is_input = False, rq_timeout = Some (Fin 3), rq_reset = False\<rparr>" by (simp add: sample_request_def)
  then have q: "rq_command (sample_request ''ls'' False) = ''ls''" "\<not> rq_is_input (sample_request ''ls'' False)" by simp_all
  have t: "tb_read sample_term (ss_term sample_session) = (''busy'', (0, ''busy''))" "ss_prev_status sample_session \<in> {Some HARD_TIMEOUT, Some NO_CHANGE_TIMEOUT}"
    by (simp_all add: sample_term_def sample_session_def attach_to_existing_def new_session_def)
  have e: "escape_bash_special_chars (\<lambda>_. None) ''ls'' = ''ls''" by (simp add: escape_bash_special_chars_def strip_ls)
  from refused_command_was_sent [OF sample_single q(2) _ t(2,1) busy_not_done, of term_prims]
  show ?thesis by (auto simp: q(1) strip_ls e sample_term_def)
qed

theorem limited_request_returns_witness:
  "\<exists>x s'. session_execute term_prims (\<lambda>_. None) sample_term (sample_request ''ls'' True) sample_session = Some (x, s')"
  by (rule limited_request_returns [of _ fst _ 3]) (simp_all add: clock_laws_def sample_term_def sample_request_def split_beta)

theorem request_outcome_witness:
  "\<exists>r s'. session_execute term_prims (\<lambda>_. None) sample_term (sample_request ''ls'' False) sample_session = Some (Inr r, s') \<and>
     tr_is_error r \<and> ss_prev_status s' = Some HARD_TIMEOUT"
proof -
  have q: "\<not> rq_is_input (sample_request ''ls'' False)" "rq_command (sample_request ''ls'' False) = ''ls''" "\<not> rq_reset (sample_request ''ls'' False)"
    by (simp_all add: sample_request_def)
  have i: "ss_initialized sample_session" "ss_prev_status sample_session = Some HARD_TIMEOUT" by (simp_all add: sample_session_def attach_to_existing_def new_session_def)
  have c: "check_previous_running_state sample_session (sample_request ''ls'' False) = None"
    by (simp add: check_previous_running_state_def running_status_def i(2))
  have sp: "ss_prev_status (send_command_to_backend B T req u) = ss_prev_status u" for B T req and u :: "(rat \<times> string) session" using send_session by blast
  obtain r s' where e: "session_execute term_prims (\<lambda>_. None) sample_term (sample_request ''ls'' False) sample_session = Some (Inr r, s')" "tr_is_error r"
  proof -
    let ?u = "send_command_to_backend (\<lambda>_. None) sample_term (sample_request ''ls'' False) (sample_session\<lparr>ss_term := (0, ''busy'')\<rparr>)"
    obtain n t2 where n: "tb_now sample_term (ss_term ?u) = (n, t2)" by (cases "tb_now sample_term (ss_term ?u)")
    obtain r s' where b: "handle_blocked_command term_prims ''ls'' ''busy'' (matches_ps1_metadata term_prims ''busy'') (?u\<lparr>ss_term := t2\<rparr>) = (r, s')"
      by (cases "handle_blocked_command term_prims ''ls'' ''busy'' (matches_ps1_metadata term_prims ''busy'') (?u\<lparr>ss_term := t2\<rparr>)")
    have "tr_is_error r" using b unfolding handle_blocked_command_def Let_def by (auto dest!: unfinished_session)
    moreover have "tb_read sample_term (ss_term sample_session) = (''busy'', (0, ''busy''))" by (simp add: sample_term_def sample_session_def attach_to_existing_def new_session_def)
    then have "session_execute term_prims (\<lambda>_. None) sample_term (sample_request ''ls'' False) sample_session = Some (Inr r, s')"
      using q i c n b sample_single [of False] by (simp add: session_execute_def engine_execute_def wait_for_completion_def sp strip_ls busy_not_done)
    ultimately show thesis using that by blast
  qed
  from request_outcome [OF e(1) q(3)] e i(2) show ?thesis by auto
qed

theorem reset_session_never_closes_witness:
  "\<exists>x s'. session_execute term_prims (\<lambda>_. None) sample_term (sample_request [] True) sample_session = Some (x, s') \<and> session_close sample_term s' = s'"
proof -
  have n: "strip [] = []" by (simp add: strip_def strip_set_def lstrip_set_def rstrip_set_def)
  have "\<exists>x s'. session_execute term_prims (\<lambda>_. None) sample_term (sample_request [] True) sample_session = Some (x, s')"
    by (simp add: session_execute_def engine_execute_def validate_request_def check_previous_running_state_def running_status_def split_bash_commands_def
        sample_request_def n sample_session_def attach_to_existing_def new_session_def session_initialize_def session_close_def)
  then obtain x s' where e: "session_execute term_prims (\<lambda>_. None) sample_term (sample_request [] True) sample_session = Some (x, s')" by blast
  with reset_session_never_closes [OF e] show ?thesis by (auto simp: sample_request_def sample_session_def attach_to_existing_def)
qed

end
