(* ===== verification/PanePool.thy ===== *)
theory PanePool
  imports Prelude
begin

text \<open>
  The pool of terminal panes (\<^verbatim>\<open>arch/bound/client/terminal/tmux/pool.py\<close>) as steps of threads: a semaphore admits a thread,
  the section under the lock gives it a pane that is free or creates one, and giving the pane back releases the semaphore. The
  tmux server is outside; a pane is a number that is never used again, and creating one may fail. A thread gives back the pane it
  holds and no other, as the context manager \<^verbatim>\<open>pane\<close> does.
\<close>

section \<open>The pool\<close>

datatype pane_pc = Outside | Waiting | Admitted | Holding nat | Releasing

record pane_pool =
  pl_max :: nat
  pl_permits :: nat
  pl_available :: "nat list"
  pl_all :: "nat list"
  pl_initialized :: bool
  pl_closed :: bool
  pl_clearing :: bool
  pl_initial_window :: bool
  pl_next :: nat
  pl_shut :: "nat list"
  pl_threads :: "pane_pc list"

definition new_pool :: "int \<Rightarrow> nat \<Rightarrow> pane_pool res" where
  "new_pool max_panes threads =
     (if max_panes < 1 then Inl (Exc ValueErr (''max_panes must be >= 1, but got '' @ show_int max_panes @ ''.''))
      else Inr \<lparr>pl_max = nat max_panes, pl_permits = nat max_panes, pl_available = [], pl_all = [], pl_initialized = False, pl_closed = False,
                pl_clearing = False, pl_initial_window = False, pl_next = 0, pl_shut = [], pl_threads = replicate threads Outside\<rparr>)"

definition initialize :: "pane_pool \<Rightarrow> pane_pool" where
  "initialize s = (if pl_initialized s then s else s\<lparr>pl_initial_window := True, pl_initialized := True\<rparr>)"

definition set_pc :: "nat \<Rightarrow> pane_pc \<Rightarrow> pane_pool \<Rightarrow> pane_pool" where
  "set_pc th c s = s\<lparr>pl_threads := (pl_threads s)[th := c]\<rparr>"

definition at_pc :: "nat \<Rightarrow> pane_pc \<Rightarrow> pane_pool \<Rightarrow> bool" where
  "at_pc th c s \<longleftrightarrow> th < length (pl_threads s) \<and> pl_threads s ! th = c"

text \<open>The new pane and the pool that knows it; the default window goes when the first pane is there.\<close>

definition create_pane :: "pane_pool \<Rightarrow> nat \<times> pane_pool" where
  "create_pane s = (pl_next s, s\<lparr>pl_next := Suc (pl_next s), pl_initial_window := False, pl_all := pl_all s @ [pl_next s]\<rparr>)"

definition begin_checkout :: "nat \<Rightarrow> (pane_pool, unit) prog" where
  "begin_checkout th s =
     (let s' = initialize s in
      if pl_closed s' then (Inl (Exc RuntimeErr ''TmuxPanePool is already closed''), s') else (Inr (), set_pc th Waiting s'))"

definition take_pane :: "nat \<Rightarrow> pane_pool \<Rightarrow> pane_pool" where
  "take_pane th s =
     (case pl_available s of
        p # ps \<Rightarrow> set_pc th (Holding p) (s\<lparr>pl_available := ps\<rparr>)
      | [] \<Rightarrow> (case create_pane s of (p, s') \<Rightarrow> set_pc th (Holding p) s'))"

definition checkin :: "nat \<Rightarrow> nat \<Rightarrow> pane_pool \<Rightarrow> pane_pool" where
  "checkin th p s =
     (if p \<notin> set (pl_all s) then set_pc th Outside s
      else set_pc th Releasing (if pl_closed s then s else s\<lparr>pl_available := pl_available s @ [p]\<rparr>))"

definition replace_pane :: "nat \<Rightarrow> nat \<Rightarrow> pane_pool \<Rightarrow> pane_pool" where
  "replace_pane th old s =
     (case create_pane s of (p, s1) \<Rightarrow>
        set_pc th (Holding p) (s1\<lparr>pl_all := remove1 old (pl_all s1), pl_available := remove1 old (pl_available s1), pl_shut := pl_shut s1 @ [old]\<rparr>))"

definition begin_close :: "pane_pool \<Rightarrow> pane_pool" where
  "begin_close s = (if pl_closed s then s else s\<lparr>pl_closed := True, pl_clearing := True\<rparr>)"

definition clear_panes :: "pane_pool \<Rightarrow> pane_pool" where
  "clear_panes s = s\<lparr>pl_shut := pl_shut s @ pl_all s, pl_all := [], pl_available := [], pl_clearing := False\<rparr>"

text \<open>One step; a step that cannot happen now is None.\<close>

datatype pool_action =
    Enter nat | TimeOut nat | Acquire nat | Take nat | TakeFails nat | CheckIn nat | Release nat | Replace nat | Close | Clear

fun pool_act :: "pool_action \<Rightarrow> pane_pool \<Rightarrow> pane_pool option" where
  "pool_act (Enter th) s = (if at_pc th Outside s then Some (snd (begin_checkout th s)) else None)"
| "pool_act (TimeOut th) s = (if at_pc th Waiting s then Some (set_pc th Outside s) else None)"
| "pool_act (Acquire th) s =
     (if at_pc th Waiting s \<and> 0 < pl_permits s then Some (set_pc th Admitted (s\<lparr>pl_permits := pl_permits s - 1\<rparr>)) else None)"
| "pool_act (Take th) s = (if at_pc th Admitted s then Some (take_pane th s) else None)"
| "pool_act (TakeFails th) s = (if at_pc th Admitted s \<and> pl_available s = [] then Some (set_pc th Outside s) else None)"
| "pool_act (CheckIn th) s =
     (if th < length (pl_threads s) then (case pl_threads s ! th of Holding p \<Rightarrow> Some (checkin th p s) | _ \<Rightarrow> None) else None)"
| "pool_act (Release th) s = (if at_pc th Releasing s then Some (set_pc th Outside (s\<lparr>pl_permits := Suc (pl_permits s)\<rparr>)) else None)"
| "pool_act (Replace th) s =
     (if th < length (pl_threads s) then (case pl_threads s ! th of Holding p \<Rightarrow> Some (replace_pane th p s) | _ \<Rightarrow> None) else None)"
| "pool_act Close s = Some (begin_close s)"
| "pool_act Clear s = (if pl_closed s \<and> pl_clearing s then Some (clear_panes s) else None)"

fun pool_run :: "pool_action list \<Rightarrow> pane_pool \<Rightarrow> pane_pool option" where
  "pool_run [] s = Some s"
| "pool_run (a # as) s = (case pool_act a s of None \<Rightarrow> None | Some s' \<Rightarrow> pool_run as s')"

section \<open>Permits and panes\<close>

fun user :: "pane_pc \<Rightarrow> bool" where
  "user Outside = False" | "user Waiting = False" | "user Admitted = True" | "user (Holding p) = True" | "user Releasing = True"

definition users :: "pane_pool \<Rightarrow> nat" where
  "users s = length (filter user (pl_threads s))"

lemma filter_update: "i < length xs \<Longrightarrow> length (filter P (xs[i := x])) + (if P (xs ! i) then 1 else 0) = length (filter P xs) + (if P x then 1 else 0)"
proof (induction xs arbitrary: i)
  case (Cons y xs)
  then show ?case
  proof (cases i)
    case (Suc j)
    with Cons.IH [of j] Cons.prems show ?thesis by (simp split: if_splits)
  qed simp
qed simp

lemma pusers_set_pc: "th < length (pl_threads s) \<Longrightarrow> users (set_pc th c s) + (if user (pl_threads s ! th) then 1 else 0) = users s + (if user c then 1 else 0)"
  by (simp add: users_def set_pc_def filter_update)

definition held :: "pane_pool \<Rightarrow> nat set" where
  "held s = {p. Holding p \<in> set (pl_threads s)}"

lemma card_held: "card (held s) \<le> users s"
proof -
  let ?f = "\<lambda>c. case c of Holding p \<Rightarrow> p | _ \<Rightarrow> 0"
  have "held s \<subseteq> ?f ` set (filter user (pl_threads s))" by (force simp: held_def)
  then have "card (held s) \<le> card (?f ` set (filter user (pl_threads s)))" by (simp add: card_mono)
  also have "\<dots> \<le> card (set (filter user (pl_threads s)))" by (rule card_image_le) simp
  also have "\<dots> \<le> users s" unfolding users_def by (rule card_length)
  finally show ?thesis .
qed

lemma finite_held: "finite (held s)"
proof -
  have "held s \<subseteq> (\<lambda>c. case c of Holding p \<Rightarrow> p | _ \<Rightarrow> 0) ` set (pl_threads s)" by (force simp: held_def)
  then show ?thesis by (rule finite_subset) simp
qed

definition exclusive :: "pane_pc list \<Rightarrow> bool" where
  "exclusive ts \<longleftrightarrow> (\<forall>i j p. i < length ts \<and> j < length ts \<and> ts ! i = Holding p \<and> ts ! j = Holding p \<longrightarrow> i = j)"

lemma exclusive_update: "exclusive ts \<Longrightarrow> (\<And>p. c = Holding p \<Longrightarrow> Holding p \<notin> set ts) \<Longrightarrow> exclusive (ts[th := c])"
  unfolding exclusive_def
proof (intro allI impI)
  fix i j p
  assume e: "\<forall>i j p. i < length ts \<and> j < length ts \<and> ts ! i = Holding p \<and> ts ! j = Holding p \<longrightarrow> i = j"
    and c: "\<And>p. c = Holding p \<Longrightarrow> Holding p \<notin> set ts"
    and h: "i < length (ts[th := c]) \<and> j < length (ts[th := c]) \<and> ts[th := c] ! i = Holding p \<and> ts[th := c] ! j = Holding p"
  have "Holding p \<notin> set ts" if "i = th \<or> j = th" using c [of p] h that by auto
  then show "i = j" using e h by (cases "i = th"; cases "j = th") (auto dest: nth_mem)
qed

definition holds :: "pane_pc \<Rightarrow> nat set" where
  "holds c = (case c of Holding p \<Rightarrow> {p} | _ \<Rightarrow> {})"

lemma held_update:
  assumes "exclusive ts" "th < length ts"
  shows "{p. Holding p \<in> set (ts[th := c])} = {p. Holding p \<in> set ts} - holds (ts ! th) \<union> holds c"
proof -
  have "Holding p \<in> set (ts[th := c]) \<longleftrightarrow> c = Holding p \<or> (\<exists>i < length ts. i \<noteq> th \<and> ts ! i = Holding p)" for p
    by (simp add: in_set_conv_nth) (metis assms(2) nth_list_update)
  moreover have "(\<exists>i < length ts. i \<noteq> th \<and> ts ! i = Holding p) \<longleftrightarrow> Holding p \<in> set ts \<and> ts ! th \<noteq> Holding p" for p
    using assms by (auto simp: exclusive_def in_set_conv_nth)
  ultimately show ?thesis by (auto simp: holds_def split: pane_pc.splits)
qed

text \<open>No two threads hold a pane; what is free is known and not held; until the pool is closed, all that is known is free or held.\<close>

definition pool_inv :: "pane_pool \<Rightarrow> bool" where
  "pool_inv s \<longleftrightarrow> exclusive (pl_threads s) \<and> distinct (pl_all s) \<and> distinct (pl_available s) \<and> set (pl_available s) \<subseteq> set (pl_all s) \<and>
     set (pl_available s) \<inter> held s = {} \<and> (\<forall>p \<in> set (pl_all s) \<union> held s. p < pl_next s) \<and>
     (\<not> pl_closed s \<longrightarrow> set (pl_all s) = set (pl_available s) \<union> held s \<and> length (pl_all s) \<le> pl_max s) \<and> pl_permits s + users s \<le> pl_max s"

lemma held_set_pc: "exclusive (pl_threads s) \<Longrightarrow> th < length (pl_threads s) \<Longrightarrow> held (set_pc th c s) = held s - holds (pl_threads s ! th) \<union> holds c"
  using held_update [of "pl_threads s" th c] by (simp add: held_def set_pc_def)

lemma set_pc_fields [simp]:
  "pl_all (set_pc th c s) = pl_all s" "pl_available (set_pc th c s) = pl_available s" "pl_next (set_pc th c s) = pl_next s"
  "pl_closed (set_pc th c s) = pl_closed s" "pl_max (set_pc th c s) = pl_max s" "pl_permits (set_pc th c s) = pl_permits s"
  "pl_threads (set_pc th c s) = (pl_threads s)[th := c]" "pl_initialized (set_pc th c s) = pl_initialized s"
  by (simp_all add: set_pc_def)

lemma held_known: "p \<in> held s \<longleftrightarrow> Holding p \<in> set (pl_threads s)"
  by (simp add: held_def)

text \<open>A step of a thread that holds nothing before and after keeps the panes.\<close>

lemma inv_same_panes:
  assumes "pool_inv s" "th < length (pl_threads s)" "holds (pl_threads s ! th) = {}" "holds c = {}"
    "pl_threads t = (pl_threads s)[th := c]" "pl_all t = pl_all s" "pl_available t = pl_available s" "pl_next t = pl_next s"
    "pl_closed t = pl_closed s" "pl_max t = pl_max s" "pl_permits t + users t \<le> pl_max s"
  shows "pool_inv t"
proof -
  have e: "exclusive (pl_threads t)" using assms(1,4,5) by (auto simp: pool_inv_def holds_def intro!: exclusive_update split: pane_pc.splits)
  have "held t = held s" using held_update [of "pl_threads s" th c] assms(1-5) by (simp add: held_def pool_inv_def)
  with e assms show ?thesis by (simp add: pool_inv_def)
qed

lemma pinv_enter: "pool_inv s \<Longrightarrow> at_pc th Outside s \<Longrightarrow> pool_inv (snd (begin_checkout th s))"
proof -
  assume i: "pool_inv s" and a: "at_pc th Outside s"
  let ?t = "initialize s"
  have f: "pl_threads ?t = pl_threads s" "pl_all ?t = pl_all s" "pl_available ?t = pl_available s" "pl_next ?t = pl_next s"
    "pl_closed ?t = pl_closed s" "pl_max ?t = pl_max s" "pl_permits ?t = pl_permits s" by (simp_all add: initialize_def)
  then have t: "pool_inv ?t" using i by (simp add: pool_inv_def held_def users_def)
  show ?thesis
  proof (cases "pl_closed ?t")
    case False
    have u: "users (set_pc th Waiting ?t) = users ?t" using pusers_set_pc [of th ?t Waiting] a f by (simp add: at_pc_def)
    have "pool_inv (set_pc th Waiting ?t)"
      by (rule inv_same_panes [OF t, of th Waiting]) (use a f t u in \<open>simp_all add: at_pc_def holds_def pool_inv_def\<close>)
    with False show ?thesis by (simp add: begin_checkout_def Let_def)
  qed (simp add: begin_checkout_def Let_def t)
qed

lemma inv_take:
  assumes "pool_inv s" "at_pc th Admitted s"
  shows "pool_inv (take_pane th s)"
proof -
  have th: "th < length (pl_threads s)" "pl_threads s ! th = Admitted" using assms(2) by (simp_all add: at_pc_def)
  have ex: "exclusive (pl_threads s)" using assms(1) by (simp add: pool_inv_def)
  have u: "users (set_pc th (Holding p) s) = users s" for p using pusers_set_pc [OF th(1), of "Holding p"] th(2) by simp
  show ?thesis
  proof (cases "pl_available s")
    case (Cons p ps)
    let ?t = "set_pc th (Holding p) (s\<lparr>pl_available := ps\<rparr>)"
    have h: "held ?t = insert p (held s)" using held_update [OF ex th(1), of "Holding p"] th(2) by (simp add: held_def holds_def)
    have "p \<notin> held s" using assms(1) Cons by (auto simp: pool_inv_def)
    then have "exclusive ((pl_threads s)[th := Holding p])" using ex by (intro exclusive_update) (auto simp: held_known)
    then have "pool_inv ?t" using assms(1) Cons h u [of p] by (auto simp: pool_inv_def users_def)
    then show ?thesis by (simp add: take_pane_def Cons)
  next
    case Nil
    let ?p = "pl_next s" and ?t = "set_pc th (Holding (pl_next s)) (snd (create_pane s))"
    have f: "?p \<notin> held s" "?p \<notin> set (pl_all s)" using assms(1) by (auto simp: pool_inv_def)
    have h: "held ?t = insert ?p (held s)" using held_update [OF ex th(1), of "Holding ?p"] th(2) by (simp add: held_def holds_def create_pane_def)
    have e: "exclusive ((pl_threads s)[th := Holding ?p])" using ex f(1) by (intro exclusive_update) (auto simp: held_known)
    have us: "users ?t = users s" using u by (simp add: users_def create_pane_def)
    have "length (pl_all s @ [?p]) \<le> pl_max s" if "\<not> pl_closed s"
    proof -
      have "set (pl_all s @ [?p]) = held ?t" "distinct (pl_all s @ [?p])" using assms(1) that Nil h f(2) by (auto simp: pool_inv_def)
      then have "length (pl_all s @ [?p]) = card (held ?t)" by (metis distinct_card)
      also have "\<dots> \<le> users s" using card_held [of ?t] us by simp
      finally show ?thesis using assms(1) by (simp add: pool_inv_def)
    qed
    then have "pool_inv ?t" using assms(1) Nil h us e f by (auto simp: pool_inv_def create_pane_def less_Suc_eq)
    then show ?thesis by (simp add: take_pane_def Nil create_pane_def)
  qed
qed

lemma inv_checkin:
  assumes "pool_inv s" "th < length (pl_threads s)" "pl_threads s ! th = Holding p"
  shows "pool_inv (checkin th p s)"
proof -
  have ex: "exclusive (pl_threads s)" using assms(1) by (simp add: pool_inv_def)
  have e: "exclusive ((pl_threads s)[th := c])" if "holds c = {}" for c using ex that by (intro exclusive_update) (auto simp: holds_def)
  have h: "{q. Holding q \<in> set ((pl_threads s)[th := c])} = held s - {p}" if "holds c = {}" for c
    using held_update [OF ex assms(2), of c] assms(3) that by (simp add: held_def holds_def)
  have p: "p \<in> held s" using assms(2,3) nth_mem by (fastforce simp: held_known)
  have u: "users (set_pc th Outside s) < users s" "users (set_pc th Releasing s) = users s"
    using pusers_set_pc [OF assms(2), of Outside] pusers_set_pc [OF assms(2), of Releasing] assms(3) by simp_all
  have hp: "holds Outside = {}" "holds Releasing = {}" by (simp_all add: holds_def)
  show ?thesis
  proof (cases "p \<in> set (pl_all s)")
    case False
    then have "pl_closed s" using assms(1) p by (auto simp: pool_inv_def)
    with False assms(1) u(1) e [OF hp(1)] h [OF hp(1)] show ?thesis by (auto simp: checkin_def pool_inv_def held_def users_def)
  next
    case True
    with assms(1) u(2) e [OF hp(2)] h [OF hp(2)] p show ?thesis by (auto simp: checkin_def pool_inv_def held_def users_def)
  qed
qed

lemma inv_replace:
  assumes "pool_inv s" "th < length (pl_threads s)" "pl_threads s ! th = Holding old"
  shows "pool_inv (replace_pane th old s)"
proof -
  let ?p = "pl_next s" and ?t = "replace_pane th old s"
  have ex: "exclusive (pl_threads s)" using assms(1) by (simp add: pool_inv_def)
  have o: "old \<in> held s" using assms(2,3) nth_mem by (fastforce simp: held_known)
  have f: "?p \<notin> held s" "?p \<notin> set (pl_all s)" "old \<notin> set (pl_available s)" "old \<noteq> ?p" using assms(1) o by (auto simp: pool_inv_def)
  have t: "pl_threads ?t = (pl_threads s)[th := Holding ?p]" "pl_available ?t = pl_available s" "pl_all ?t = remove1 old (pl_all s @ [?p])"
    "pl_next ?t = Suc ?p" "pl_closed ?t = pl_closed s" "pl_max ?t = pl_max s" "pl_permits ?t = pl_permits s"
    using f(3) by (simp_all add: replace_pane_def create_pane_def remove1_idem)
  have h: "held ?t = insert ?p (held s - {old})" using held_update [OF ex assms(2), of "Holding ?p"] assms(3) by (simp add: held_def holds_def t(1))
  have e: "exclusive (pl_threads ?t)" using ex f(1) unfolding t(1) by (intro exclusive_update) (auto simp: held_known)
  have us: "users ?t = users s" using pusers_set_pc [OF assms(2), of "Holding ?p"] assms(3) by (simp add: users_def t(1))
  have d: "distinct (pl_all s @ [?p])" using assms(1) f(2) by (simp add: pool_inv_def)
  have a: "set (pl_all ?t) = insert ?p (set (pl_all s)) - {old}" using d by (simp add: t(3))
  have l: "length (pl_all ?t) \<le> pl_max s" if "\<not> pl_closed s"
  proof -
    have "old \<in> set (pl_all s)" using that assms(1) o by (auto simp: pool_inv_def)
    then show ?thesis using assms(1) that by (simp add: t(3) length_remove1 pool_inv_def)
  qed
  show ?thesis
    unfolding pool_inv_def a h us t(2,4-7)
    using assms(1) e f l d by (auto simp: pool_inv_def t(3) less_Suc_eq)
qed

lemma inv_act: "pool_inv s \<Longrightarrow> pool_act a s = Some t \<Longrightarrow> pool_inv t"
proof (cases a)
  case (TimeOut th)
  assume i: "pool_inv s" "pool_act a s = Some t"
  then have th: "th < length (pl_threads s)" "pl_threads s ! th = Waiting" "t = set_pc th Outside s" using TimeOut by (auto simp: at_pc_def split: if_splits)
  show ?thesis
    by (rule inv_same_panes [OF i(1) th(1), of Outside]) (use th i(1) pusers_set_pc [OF th(1), of Outside] in \<open>simp_all add: holds_def pool_inv_def\<close>)
next
  case (Acquire th)
  assume i: "pool_inv s" "pool_act a s = Some t"
  then have th: "th < length (pl_threads s)" "pl_threads s ! th = Waiting" "0 < pl_permits s" "t = set_pc th Admitted (s\<lparr>pl_permits := pl_permits s - 1\<rparr>)"
    using Acquire by (auto simp: at_pc_def split: if_splits)
  have "users t = Suc (users s)" using pusers_set_pc [OF th(1), of Admitted] th(2) by (simp add: th(4) users_def)
  with i(1) th(3) have "pl_permits t + users t \<le> pl_max s" by (simp add: th(4) pool_inv_def)
  then show ?thesis by (intro inv_same_panes [OF i(1) th(1), of Admitted]) (use th in \<open>simp_all add: holds_def\<close>)
next
  case (TakeFails th)
  assume i: "pool_inv s" "pool_act a s = Some t"
  then have th: "th < length (pl_threads s)" "pl_threads s ! th = Admitted" "t = set_pc th Outside s" using TakeFails by (auto simp: at_pc_def split: if_splits)
  have "pl_permits t + users t \<le> pl_max s" using pusers_set_pc [OF th(1), of Outside] th i(1) by (simp add: pool_inv_def)
  then show ?thesis by (intro inv_same_panes [OF i(1) th(1), of Outside]) (use th in \<open>simp_all add: holds_def\<close>)
next
  case (Release th)
  assume i: "pool_inv s" "pool_act a s = Some t"
  then have th: "th < length (pl_threads s)" "pl_threads s ! th = Releasing" "t = set_pc th Outside (s\<lparr>pl_permits := Suc (pl_permits s)\<rparr>)"
    using Release by (auto simp: at_pc_def split: if_splits)
  have "Suc (users t) = users s" using pusers_set_pc [OF th(1), of Outside] th(2) by (simp add: th(3) users_def)
  with i(1) have "pl_permits t + users t \<le> pl_max s" by (simp add: th(3) pool_inv_def)
  then show ?thesis by (intro inv_same_panes [OF i(1) th(1), of Outside]) (use th in \<open>simp_all add: holds_def\<close>)
next
  case Close
  assume "pool_inv s" "pool_act a s = Some t"
  then show ?thesis using Close by (auto simp: begin_close_def pool_inv_def held_def users_def split: if_splits)
next
  case Clear
  assume "pool_inv s" "pool_act a s = Some t"
  then show ?thesis using Clear by (auto simp: clear_panes_def pool_inv_def held_def users_def split: if_splits)
qed (auto simp: pinv_enter inv_take inv_checkin inv_replace split: if_splits pane_pc.splits)

lemma inv_run: "pool_inv s \<Longrightarrow> pool_run as s = Some t \<Longrightarrow> pool_inv t"
  by (induction as arbitrary: s) (auto split: option.splits dest: inv_act)

lemma new_pool_inv: "new_pool m n = Inr s \<Longrightarrow> pool_inv s \<and> pl_max s = nat m \<and> pl_permits s = nat m \<and> users s = 0 \<and> 0 < pl_max s"
  by (auto simp: new_pool_def pool_inv_def exclusive_def held_def users_def split: if_splits)

lemma act_max: "pool_act a s = Some t \<Longrightarrow> pl_max t = pl_max s"
  by (cases a) (auto simp: begin_checkout_def initialize_def take_pane_def create_pane_def checkin_def replace_pane_def begin_close_def clear_panes_def Let_def
      split: if_splits list.splits pane_pc.splits)

lemma run_max: "pool_run as s = Some t \<Longrightarrow> pl_max t = pl_max s"
  by (induction as arbitrary: s) (auto split: option.splits dest: act_max)

text \<open>
  C15. However threads interleave, whatever creations fail and whenever the pool is closed: no pane is used by two threads, none that
  is used is given out again, and no more threads are admitted than the limit; until it is closed the pool never has more panes
  than the limit, and every pane it has is free or in use.
\<close>

theorem panes_exclusive:
  assumes "new_pool m n = Inr s" "pool_run as s = Some t"
  shows "(at_pc i (Holding p) t \<and> at_pc j (Holding p) t \<longrightarrow> i = j) \<and> (at_pc i (Holding p) t \<longrightarrow> p \<notin> set (pl_available t)) \<and>
    int (pl_permits t + users t) \<le> m \<and>
    (\<not> pl_closed t \<longrightarrow> int (length (pl_all t)) \<le> m \<and> (p \<in> set (pl_all t) \<longleftrightarrow> p \<in> set (pl_available t) \<or> (\<exists>i. at_pc i (Holding p) t)))"
proof -
  have i: "pool_inv t" "pl_max t = nat m" "0 < m" using new_pool_inv [OF assms(1)] inv_run [OF _ assms(2)] run_max [OF assms(2)] by auto
  have h: "p \<in> held t \<longleftrightarrow> (\<exists>i. at_pc i (Holding p) t)" by (auto simp: held_known at_pc_def in_set_conv_nth)
  show ?thesis
    using i h by (auto simp: pool_inv_def exclusive_def at_pc_def held_known)
qed

section \<open>Lost permits\<close>

fun fails :: "pool_action \<Rightarrow> bool" where
  "fails (TakeFails th) = True" | "fails a = False"

fun closes :: "pool_action \<Rightarrow> bool" where
  "closes Close = True" | "closes a = False"

lemma act_permits:
  assumes "pool_inv s" "\<not> pl_closed s" "pool_act a s = Some t" "\<not> closes a"
  shows "pl_permits t + users t + (if fails a then 1 else 0) = pl_permits s + users s \<and> \<not> pl_closed t"
proof -
  have known: "p \<in> set (pl_all s)" if "pl_threads s ! th = Holding p" "th < length (pl_threads s)" for th p
    using assms(1,2) that nth_mem by (fastforce simp: pool_inv_def held_known)
  have u: "users (x\<lparr>pl_permits := k\<rparr>) = users x" "users (x\<lparr>pl_available := ps\<rparr>) = users x" "users (snd (create_pane x)) = users x" "users (initialize x) = users x"
    for x k ps by (simp_all add: users_def create_pane_def initialize_def)
  show ?thesis
  proof (cases a)
    case (Enter th)
    then have th: "th < length (pl_threads s)" "pl_threads s ! th = Outside" "t = set_pc th Waiting (initialize s)"
      using assms(2,3) by (auto simp: at_pc_def begin_checkout_def initialize_def Let_def split: if_splits)
    then show ?thesis using pusers_set_pc [of th s Waiting] assms(2) Enter by (cases "pl_initialized s") (auto simp: initialize_def users_def)
  next
    case (Take th)
    then have th: "th < length (pl_threads s)" "pl_threads s ! th = Admitted" "t = take_pane th s" using assms(3) by (auto simp: at_pc_def split: if_splits)
    have "users t = users s" using pusers_set_pc [OF th(1), of "Holding p" for p] th(2)
      by (auto simp: th(3) take_pane_def create_pane_def users_def split: list.split)
    then show ?thesis using Take assms(2) by (auto simp: th(3) take_pane_def create_pane_def split: list.split)
  next
    case (CheckIn th)
    then obtain p where th: "th < length (pl_threads s)" "pl_threads s ! th = Holding p" "t = checkin th p s"
      using assms(3) by (auto split: if_splits pane_pc.splits)
    have "users t = users s" using pusers_set_pc [OF th(1), of Releasing] th(2) known [OF th(2,1)] by (simp add: th(3) checkin_def users_def)
    then show ?thesis using CheckIn assms(2) known [OF th(2,1)] by (simp add: th(3) checkin_def)
  next
    case (Replace th)
    then obtain p where th: "th < length (pl_threads s)" "pl_threads s ! th = Holding p" "t = replace_pane th p s"
      using assms(3) by (auto split: if_splits pane_pc.splits)
    have "users t = users s" using pusers_set_pc [OF th(1), of "Holding (pl_next s)"] th(2) by (simp add: th(3) replace_pane_def create_pane_def users_def)
    then show ?thesis using Replace assms(2) by (simp add: th(3) replace_pane_def create_pane_def)
  next
    case (TimeOut th)
    with assms(2,3) pusers_set_pc [of th s Outside] show ?thesis by (auto simp: at_pc_def split: if_splits)
  next
    case (Acquire th)
    with assms(2,3) pusers_set_pc [of th s Admitted] show ?thesis by (auto simp: at_pc_def users_def split: if_splits)
  next
    case (TakeFails th)
    with assms(2,3) pusers_set_pc [of th s Outside] show ?thesis by (auto simp: at_pc_def split: if_splits)
  next
    case (Release th)
    with assms(2,3) pusers_set_pc [of th s Outside] show ?thesis by (auto simp: at_pc_def users_def split: if_splits)
  qed (use assms(2-4) in auto)
qed

lemma run_permits:
  assumes "pool_inv s" "\<not> pl_closed s" "pool_run as s = Some t" "\<forall>a \<in> set as. \<not> closes a"
  shows "pl_permits t + users t + length (filter fails as) = pl_permits s + users s \<and> \<not> pl_closed t"
  using assms
proof (induction as arbitrary: s)
  case (Cons a as)
  then obtain s' where s': "pool_act a s = Some s'" "pool_run as s' = Some t" by (auto split: option.splits)
  with Cons.IH [of s'] act_permits [OF Cons.prems(1,2) s'(1)] inv_act [OF Cons.prems(1) s'(1)] Cons.prems(4) show ?case by (auto split: if_splits)
qed simp

text \<open>
  C36. Each pane whose creation fails costs a permit for good. While the pool is open the permits that are left, the threads that have one
  and the failures add up to the limit; so a pool in which as many creations failed as it has panes admits nobody any more, and one
  in which none failed admits a waiting thread as soon as no thread uses a pane.
\<close>

theorem failed_creation_costs_permit:
  assumes "new_pool m n = Inr s" "pool_run as s = Some t" "\<forall>a \<in> set as. \<not> closes a"
  shows "int (pl_permits t + users t + length (filter fails as)) = m \<and>
    (m \<le> int (length (filter fails as)) \<longrightarrow> pool_act (Acquire th) t = None) \<and>
    (filter fails as = [] \<and> users t = 0 \<and> at_pc th Waiting t \<longrightarrow> pool_act (Acquire th) t \<noteq> None)"
proof -
  have n: "pool_inv s" "\<not> pl_closed s" "0 < m" "pl_permits s + users s = nat m" using new_pool_inv [OF assms(1)] assms(1) by (auto simp: new_pool_def split: if_splits)
  from run_permits [OF n(1,2) assms(2,3)] n(3,4) have "int (pl_permits t + users t + length (filter fails as)) = m" by linarith
  then show ?thesis using n(3) by auto
qed

text \<open>
  A thread that waits when the pool is closed and cleared may wait for ever: panes in use are unknown to the closed pool, so giving them back
  does not release the semaphore, and while no new pane was handed out the permits stay used up.
\<close>

theorem closed_pool_strands_waiters:
  assumes "pl_closed s" "pl_all s = []" "pl_permits s = 0" "\<forall>c \<in> set (pl_threads s). c \<noteq> Admitted \<and> c \<noteq> Releasing"
    and "\<forall>a \<in> set as. \<forall>th. a \<noteq> Replace th" "pool_run as s = Some t"
  shows "pl_permits t = 0 \<and> pool_act (Acquire th) t = None"
proof -
  have upd: "set (xs[i := c]) \<subseteq> insert c (set xs)" for xs :: "pane_pc list" and i c by (rule set_update_subset_insert)
  have "pl_closed t \<and> pl_all t = [] \<and> pl_permits t = 0 \<and> (\<forall>c \<in> set (pl_threads t). c \<noteq> Admitted \<and> c \<noteq> Releasing)"
    using assms
  proof (induction as arbitrary: s)
    case (Cons a as)
    from Cons.prems(6) obtain s' where s': "pool_act a s = Some s'" "pool_run as s' = Some t" by (cases "pool_act a s") auto
    have n: "\<not> at_pc th Admitted s" "\<not> at_pc th Releasing s" for th using Cons.prems(4) nth_mem [of th "pl_threads s"] by (auto simp: at_pc_def)
    have "pl_closed s' \<and> pl_all s' = [] \<and> pl_permits s' = 0 \<and> (\<forall>c \<in> set (pl_threads s'). c \<noteq> Admitted \<and> c \<noteq> Releasing)"
    proof (cases a)
      case (Enter th)
      with s'(1) Cons.prems(1) have "s' = initialize s" by (auto simp: begin_checkout_def initialize_def Let_def split: if_splits)
      then show ?thesis using Cons.prems(1-4) by (simp add: initialize_def)
    next
      case (TimeOut th)
      with s'(1) Cons.prems(1-4) upd [of "pl_threads s" th Outside] show ?thesis by (auto split: if_splits)
    next
      case (CheckIn th)
      with s'(1) Cons.prems(2) have "s' = set_pc th Outside s" by (auto simp: checkin_def split: if_splits pane_pc.splits)
      then show ?thesis using Cons.prems(1-4) upd [of "pl_threads s" th Outside] by auto
    next
      case Close
      with s'(1) Cons.prems(1-4) show ?thesis by (auto simp: begin_close_def)
    next
      case Clear
      with s'(1) Cons.prems(1-4) show ?thesis by (auto simp: clear_panes_def split: if_splits)
    qed (use s'(1) n Cons.prems(3,5) in \<open>auto split: if_splits\<close>)
    with Cons.IH [of s'] Cons.prems(5) s'(2) show ?case by auto
  qed simp
  then show ?thesis by simp
qed

section \<open>Witnesses\<close>

definition one_pane :: pane_pool where
  "one_pane = (case new_pool 1 2 of Inr s \<Rightarrow> s | Inl _ \<Rightarrow> undefined)"

lemma one_pane_new: "new_pool 1 2 = Inr one_pane"
  by (simp add: one_pane_def new_pool_def)

theorem panes_exclusive_witness:
  "\<exists>t. pool_run [Enter 0, Acquire 0, Take 0, Enter 1] one_pane = Some t \<and> pl_permits t + users t \<le> 1"
proof -
  have "\<exists>t. pool_run [Enter 0, Acquire 0, Take 0, Enter 1] one_pane = Some t"
    by (simp add: one_pane_def new_pool_def at_pc_def begin_checkout_def initialize_def take_pane_def create_pane_def set_pc_def numeral_2_eq_2)
  then obtain t where t: "pool_run [Enter 0, Acquire 0, Take 0, Enter 1] one_pane = Some t" by blast
  with panes_exclusive [OF one_pane_new t, of 0 0 0] show ?thesis by auto
qed

theorem failed_creation_costs_permit_witness:
  "\<exists>t. pool_run [Enter 0, Acquire 0, TakeFails 0, Enter 1] one_pane = Some t \<and> pool_act (Acquire 1) t = None"
proof -
  have "\<exists>t. pool_run [Enter 0, Acquire 0, TakeFails 0, Enter 1] one_pane = Some t"
    by (simp add: one_pane_def new_pool_def at_pc_def begin_checkout_def initialize_def set_pc_def numeral_2_eq_2)
  then obtain t where t: "pool_run [Enter 0, Acquire 0, TakeFails 0, Enter 1] one_pane = Some t" by blast
  with failed_creation_costs_permit [OF one_pane_new t, of 1] show ?thesis by simp
qed

theorem closed_pool_strands_waiters_witness:
  "\<exists>t. pool_run [Enter 0, Acquire 0, Take 0, Enter 1, Close, Clear, CheckIn 0] one_pane = Some t \<and> at_pc 1 Waiting t \<and> pool_act (Acquire 1) t = None"
proof -
  have "\<exists>s. pool_run [Enter 0, Acquire 0, Take 0, Enter 1, Close, Clear] one_pane = Some s \<and> pl_closed s \<and> pl_all s = [] \<and> pl_permits s = 0 \<and> pl_threads s = [Holding 0, Waiting]"
    by (simp add: one_pane_def new_pool_def at_pc_def begin_checkout_def initialize_def take_pane_def create_pane_def set_pc_def begin_close_def clear_panes_def numeral_2_eq_2)
  then obtain s where s: "pool_run [Enter 0, Acquire 0, Take 0, Enter 1, Close, Clear] one_pane = Some s" "pl_closed s" "pl_all s = []" "pl_permits s = 0" "pl_threads s = [Holding 0, Waiting]" by blast
  have c: "pool_run [CheckIn 0] s = Some (set_pc 0 Outside s)" using s by (simp add: checkin_def)
  have app: "pool_run (xs @ ys) u = (case pool_run xs u of None \<Rightarrow> None | Some v \<Rightarrow> pool_run ys v)" for xs ys u by (induction xs arbitrary: u) (auto split: option.split)
  have "pool_run ([Enter 0, Acquire 0, Take 0, Enter 1, Close, Clear] @ [CheckIn 0]) one_pane = Some (set_pc 0 Outside s)"
    unfolding app s(1) using c by simp
  moreover have "pool_act (Acquire 1) (set_pc 0 Outside s) = None"
    using closed_pool_strands_waiters [OF s(2-4) _ _ c, of 1] s(5) by simp
  moreover have "at_pc 1 Waiting (set_pc 0 Outside s)" using s(5) by (simp add: at_pc_def)
  ultimately show ?thesis by auto
qed

end
