(* ===== verification/Sandbox.thy ===== *)
theory Sandbox
  imports WasmVm
begin

text \<open>
  Execution strategies (\<^verbatim>\<open>node/ops/task/strategy.py\<close>): a job for the state machine runs in a fresh interpreter, a Python job in a sandbox
  taken from a pool that a thread fills. The sandboxes and the wasm engine are parameters. Arguments that are annotated as texts
  are texts; a value of another type counts as a failed execution.
\<close>

section \<open>Expiry\<close>

text \<open>Float division and subtraction round their exact result by \<open>rnd\<close>; the clock gives a finite time.\<close>

definition is_request_expired :: "prims \<Rightarrow> (rat \<Rightarrow> rat) \<Rightarrow> rat \<Rightarrow> pydict \<Rightarrow> bool res" where
  "is_request_expired P rnd now context =
     bind_res (py_float_of P (dget_or context ''timestamp'' (PInt 0))) (\<lambda>ts.
       if ts = NInf \<or> (case ts of Fin t \<Rightarrow> t \<le> 0 | _ \<Rightarrow> False) then Inr False
       else bind_res (py_float_of P (dget_or context ''timeout'' (PFloat (Fin 15)))) (\<lambda>timeout.
         case ts of
           Fin t \<Rightarrow> (let req = (if 100000000000 < t then rnd (t / 1000) else t); elapsed = rnd (now - req)
                     in if 86400 * 365 < elapsed then Inr False else Inr (float_less timeout (Fin elapsed)))
         | _ \<Rightarrow> Inr False))"

section \<open>State machine jobs\<close>

record sandbox_reply =
  sr_success :: bool
  sr_output :: "string option"
  sr_error :: string
  sr_metrics :: "pydict option"

definition crashed :: "string \<Rightarrow> sandbox_reply" where
  "crashed e = \<lparr>sr_success = False, sr_output = Some [], sr_error = e, sr_metrics = None\<rparr>"

definition reply_of :: "exec_result \<Rightarrow> pydict \<Rightarrow> sandbox_reply" where
  "reply_of r metrics = \<lparr>sr_success = er_success r, sr_output = er_output r,
     sr_error = (if er_success r then [] else case er_error r of Some e \<Rightarrow> msg_of_exc e | None \<Rightarrow> ''None''), sr_metrics = Some metrics\<rparr>"

definition text_arg :: "pyval \<Rightarrow> string res" where
  "text_arg v = (case v of PStr t \<Rightarrow> Inr t | _ \<Rightarrow> Inl (Exc TypeErr ''a text is required''))"

definition safe_payload_dict :: "prims \<Rightarrow> pyval \<Rightarrow> pydict res" where
  "safe_payload_dict P payload =
     as_dict (case payload of
        PDict d \<Rightarrow> PDict d
      | PStr t \<Rightarrow> (case p_loads P t of Some v \<Rightarrow> v | None \<Rightarrow> PDict [])
      | _ \<Rightarrow> PDict [])"

text \<open>The gas of a successful run is copied into the metrics; an output that is no dictionary is ignored.\<close>

definition with_gas :: "prims \<Rightarrow> exec_result \<Rightarrow> pydict \<Rightarrow> pydict" where
  "with_gas P r metrics =
     (if er_success r
      then (case p_loads P (case er_output r of Some t \<Rightarrow> t | None \<Rightarrow> []) of
              Some (PDict out) \<Rightarrow> dset ''gas_used'' (dget_or out ''gas_used'' (PInt 0)) metrics
            | _ \<Rightarrow> metrics)
      else metrics)"

text \<open>What is said to be committed: the stream and the number of entries, which are logged. Nothing is written.\<close>

definition commit_state_diff_to_master :: "pydict \<Rightarrow> pyval \<Rightarrow> pyval \<Rightarrow> (pyval \<times> nat) option" where
  "commit_state_diff_to_master context diff default_target =
     (let a = dget_or context ''stream_id'' PNone; b = dget_or context ''target_address'' PNone;
          stream = (if truthy a then a else if truthy b then b else default_target)
      in if \<not> truthy diff then None
         else case diff of PDict d \<Rightarrow> Some (stream, length d) | PList xs \<Rightarrow> Some (stream, length xs) | PStr t \<Rightarrow> Some (stream, length t) | _ \<Rightarrow> None)"

definition committed_diff :: "prims \<Rightarrow> exec_result \<Rightarrow> pydict \<Rightarrow> pydict \<Rightarrow> (pyval \<times> nat) option" where
  "committed_diff P r d context =
     (if er_success r
      then (case p_loads P (case er_output r of Some t \<Rightarrow> t | None \<Rightarrow> []) of
              Some (PDict out) \<Rightarrow> commit_state_diff_to_master context (dget_or out ''state_diff'' (PDict [])) (dget_or d ''target_address'' (PStr ''root''))
            | _ \<Rightarrow> None)
      else None)"

definition run_fsm_sandbox ::
  "prims \<Rightarrow> quota_policy \<Rightarrow> unit res \<Rightarrow> (string \<Rightarrow> string option res) \<Rightarrow> pydict res \<Rightarrow> pyval \<Rightarrow> pydict \<Rightarrow> sandbox_reply \<times> (pyval \<times> nat) option" where
  "run_fsm_sandbox P pol started router metrics payload context =
     (case bind_res (safe_payload_dict P payload) (\<lambda>d.
           bind_res started (\<lambda>_.
           bind_res (text_arg (dget_or d ''vm_target'' (PStr ''FSM_STEP''))) (\<lambda>target.
           bind_res (text_arg (dget_or d ''target_address'' (PStr []))) (\<lambda>address.
           bind_res (fsm_execute P pol router target address (dget_or d ''calldata'' (PStr [])) (dget_or d ''state_snapshot'' (PDict [])) (PDict context)) (\<lambda>r.
           bind_res metrics (\<lambda>m. Inr (reply_of r (with_gas P r m), committed_diff P r d context))))))) of
        Inr reply \<Rightarrow> reply
      | Inl e \<Rightarrow> (crashed (''Execution Error: '' @ msg_of_exc e), None))"

section \<open>Python jobs\<close>

record 'b sandbox_ops =
  so_apply :: "quota_policy \<Rightarrow> 'b \<Rightarrow> unit res"
  so_execute :: "'b \<Rightarrow> pyval \<Rightarrow> pyval \<Rightarrow> pydict \<Rightarrow> exec_result res"
  so_metrics :: "'b \<Rightarrow> pydict res"
  so_timing :: "'b \<Rightarrow> pyval"

record 'b strategy =
  sg_size :: int
  sg_pool :: "'b list"
  sg_running :: "'b list"
  sg_shut :: "'b list"

definition code_and_variables :: "pyval \<Rightarrow> pyval \<times> pyval" where
  "code_and_variables payload =
     (case payload of
        PStr t \<Rightarrow> (PStr t, PDict [])
      | PDict d \<Rightarrow> (dget_or d ''code'' (dget_or d ''data'' (PStr [])), dget_or d ''variables'' (PDict []))
      | _ \<Rightarrow> (PStr [], PDict []))"

text \<open>A full queue holds back the thread that fills it; a size that is not positive means no limit.\<close>

definition has_room :: "'b strategy \<Rightarrow> bool" where
  "has_room s \<longleftrightarrow> sg_size s \<le> 0 \<or> int (length (sg_pool s)) < sg_size s"

definition replenish :: "'b \<Rightarrow> 'b strategy \<Rightarrow> 'b strategy" where
  "replenish b s = s\<lparr>sg_pool := sg_pool s @ [b]\<rparr>"

text \<open>A job up to the sandbox it gets, and from there to its reply.\<close>

definition begin_python_job :: "prims \<Rightarrow> (rat \<Rightarrow> rat) \<Rightarrow> rat \<Rightarrow> pydict \<Rightarrow> ('b strategy, 'b + sandbox_reply) prog" where
  "begin_python_job P rnd now context s =
     (case is_request_expired P rnd now context of
        Inl x \<Rightarrow> (Inl x, s)
      | Inr True \<Rightarrow> (Inr (Inr (crashed ''Request expired (TTL Exceeded).'')), s)
      | Inr False \<Rightarrow>
          (case sg_pool s of
             [] \<Rightarrow> (Inr (Inr (crashed ''SYSTEM_OVERLOADED (Backpressure applied). Please try again.'')), s)
           | b # bs \<Rightarrow> (Inr (Inl b), s\<lparr>sg_pool := bs, sg_running := b # sg_running s\<rparr>)))"

definition end_python_job :: "'b sandbox_ops \<Rightarrow> quota_policy \<Rightarrow> pyval \<Rightarrow> pydict \<Rightarrow> 'b \<Rightarrow> 'b strategy \<Rightarrow> sandbox_reply \<times> 'b strategy" where
  "end_python_job ops pol payload context b s =
     ((case bind_res (so_apply ops pol b) (\<lambda>_.
            (case code_and_variables payload of (code, vars) \<Rightarrow>
               bind_res (so_execute ops b code vars context) (\<lambda>r.
               bind_res (so_metrics ops b) (\<lambda>m. Inr (reply_of r (dset ''timing_ms'' (so_timing ops b) m)))))) of
         Inr reply \<Rightarrow> reply
       | Inl e \<Rightarrow> crashed (if contains (msg_of_exc e) ''Execution Timeout'' then msg_of_exc e else ''Execution Error: '' @ msg_of_exc e)),
      s\<lparr>sg_running := remove1 b (sg_running s), sg_shut := sg_shut s @ [b]\<rparr>)"

definition run_python_sandbox :: "prims \<Rightarrow> (rat \<Rightarrow> rat) \<Rightarrow> rat \<Rightarrow> 'b sandbox_ops \<Rightarrow> quota_policy \<Rightarrow> pyval \<Rightarrow> pydict \<Rightarrow> ('b strategy, sandbox_reply) prog" where
  "run_python_sandbox P rnd now ops pol payload context s =
     (case begin_python_job P rnd now context s of
        (Inl x, s') \<Rightarrow> (Inl x, s')
      | (Inr (Inr reply), s') \<Rightarrow> (Inr reply, s')
      | (Inr (Inl b), s') \<Rightarrow> (case end_python_job ops pol payload context b s' of (reply, s'') \<Rightarrow> (Inr reply, s'')))"

section \<open>Jobs side by side\<close>

datatype 'b sg_action = Fill 'b | Begin pydict rat | Finish 'b pyval pydict

text \<open>Filling makes a new sandbox; a job ends once and for the sandbox it has.\<close>

fun sg_act :: "prims \<Rightarrow> (rat \<Rightarrow> rat) \<Rightarrow> 'b sandbox_ops \<Rightarrow> quota_policy \<Rightarrow> 'b sg_action \<Rightarrow> 'b strategy \<Rightarrow> 'b strategy option" where
  "sg_act P rnd ops pol (Fill b) s =
     (if has_room s \<and> b \<notin> set (sg_pool s @ sg_running s @ sg_shut s) then Some (replenish b s) else None)"
| "sg_act P rnd ops pol (Begin context now) s = Some (snd (begin_python_job P rnd now context s))"
| "sg_act P rnd ops pol (Finish b payload context) s =
     (if b \<in> set (sg_running s) then Some (snd (end_python_job ops pol payload context b s)) else None)"

fun sg_run :: "prims \<Rightarrow> (rat \<Rightarrow> rat) \<Rightarrow> 'b sandbox_ops \<Rightarrow> quota_policy \<Rightarrow> 'b sg_action list \<Rightarrow> 'b strategy \<Rightarrow> 'b strategy option" where
  "sg_run P rnd ops pol [] s = Some s"
| "sg_run P rnd ops pol (a # as) s = (case sg_act P rnd ops pol a s of None \<Rightarrow> None | Some s' \<Rightarrow> sg_run P rnd ops pol as s')"

definition sg_inv :: "'b strategy \<Rightarrow> bool" where
  "sg_inv s \<longleftrightarrow> distinct (sg_pool s @ sg_running s @ sg_shut s) \<and> (0 < sg_size s \<longrightarrow> int (length (sg_pool s)) \<le> sg_size s)"

lemma sg_inv_act: "sg_inv s \<Longrightarrow> sg_act P rnd ops pol a s = Some t \<Longrightarrow>
    sg_inv t \<and> sg_size t = sg_size s \<and> prefix (sg_shut s) (sg_shut t) \<and> set (sg_running s) \<subseteq> set (sg_running t) \<union> set (sg_shut t)"
proof (cases a)
  case (Begin ctx now)
  assume "sg_inv s" "sg_act P rnd ops pol a s = Some t"
  then show ?thesis using Begin by (auto simp: begin_python_job_def sg_inv_def split: sum.splits bool.splits list.splits)
next
  case (Finish b payload ctx)
  assume i: "sg_inv s" and a: "sg_act P rnd ops pol a s = Some t"
  then have b: "b \<in> set (sg_running s)" "t = s\<lparr>sg_running := remove1 b (sg_running s), sg_shut := sg_shut s @ [b]\<rparr>"
    using Finish by (auto simp: end_python_job_def split: if_splits)
  with i show ?thesis by (auto simp: sg_inv_def)
qed (auto simp: sg_inv_def replenish_def has_room_def split: if_splits)

lemma sg_inv_run: "sg_inv s \<Longrightarrow> sg_run P rnd ops pol as s = Some t \<Longrightarrow> sg_inv t \<and> sg_size t = sg_size s \<and> prefix (sg_shut s) (sg_shut t)"
proof (induction as arbitrary: s)
  case (Cons a as)
  then obtain s' where "sg_act P rnd ops pol a s = Some s'" "sg_run P rnd ops pol as s' = Some t" by (auto split: option.splits)
  with Cons.IH [of s'] sg_inv_act [OF Cons.prems(1)] show ?case by (metis prefix_order.trans)
qed simp

text \<open>
  However jobs and the filling thread interleave, a sandbox serves at most one job: it is free, in use or shut down, never two of these and
  never twice; one that is shut down stays so, and the pool never exceeds its size.
\<close>

theorem sandbox_used_once:
  assumes "sg_run P rnd ops pol as \<lparr>sg_size = n, sg_pool = [], sg_running = [], sg_shut = []\<rparr> = Some s"
    and "sg_run P rnd ops pol bs s = Some t"
  shows "distinct (sg_pool s @ sg_running s @ sg_shut s) \<and> (0 < n \<longrightarrow> int (length (sg_pool s)) \<le> n) \<and>
    (b \<in> set (sg_shut s) \<longrightarrow> b \<in> set (sg_shut t) \<and> b \<notin> set (sg_pool t) \<and> b \<notin> set (sg_running t))"
proof -
  have e: "sg_inv \<lparr>sg_size = n, sg_pool = [], sg_running = [], sg_shut = []\<rparr>" by (simp add: sg_inv_def)
  from sg_inv_run [OF this assms(1)] have s: "sg_inv s" "sg_size s = n" by simp_all
  from sg_inv_run [OF s(1) assms(2)] have t: "sg_inv t" "prefix (sg_shut s) (sg_shut t)" by simp_all
  have "b \<in> set (sg_shut t)" if "b \<in> set (sg_shut s)" using set_mono_prefix [OF t(2)] that by blast
  then show ?thesis using s t(1) by (auto simp: sg_inv_def)
qed

text \<open>
  A Python job gives a reply unless its timestamp or timeout is no number. An expired job and one that finds the pool empty take no
  sandbox and fail; otherwise the first sandbox of the pool runs the job and is shut down, whatever happens in it, and the job
  succeeds exactly if the policy was applied, the run succeeded and the metrics could be read.
\<close>

theorem python_job_exact:
  assumes "is_request_expired P rnd now context = Inr e"
  shows "\<exists>reply s'. run_python_sandbox P rnd now ops pol payload context s = (Inr reply, s') \<and>
    (if e \<or> sg_pool s = [] then \<not> sr_success reply \<and> s' = s
     else s' = s\<lparr>sg_pool := tl (sg_pool s), sg_shut := sg_shut s @ [hd (sg_pool s)]\<rparr> \<and>
       (sr_success reply \<longleftrightarrow> so_apply ops pol (hd (sg_pool s)) = Inr () \<and>
          (\<exists>r m. (case code_and_variables payload of (code, vars) \<Rightarrow> so_execute ops (hd (sg_pool s)) code vars context) = Inr r \<and> er_success r \<and>
             so_metrics ops (hd (sg_pool s)) = Inr m)))"
  by (cases e; cases "sg_pool s"; cases "so_apply ops pol (hd (sg_pool s))"; cases "so_metrics ops (hd (sg_pool s))";
      cases "case code_and_variables payload of (code, vars) \<Rightarrow> so_execute ops (hd (sg_pool s)) code vars context")
    (auto simp: assms run_python_sandbox_def begin_python_job_def end_python_job_def crashed_def reply_of_def split: prod.splits)

lemma fsm_execute_shape:
  assumes "fsm_execute P pol router tg ad c st ctx = Inr r"
  shows "well_shaped r"
proof -
  obtain fl where "fuel_limit_of pol (sanitize_arg P ctx) (sanitize_arg P c) = Inr fl"
    using assms unfolding fsm_execute_def Let_def by (auto simp: bind_res_Inr)
  from fsm_execute_total [OF this, of router tg ad st] assms show ?thesis by auto
qed

text \<open>
  A state machine job always gives a reply; a failed one names its error, and a successful one carries the output of the engine and the gas it reports.
\<close>

theorem fsm_job_exact:
  assumes "run_fsm_sandbox P pol started router metrics payload context = (reply, c)"
  shows "(sr_success reply \<longrightarrow> sr_error reply = [] \<and> started = Inr () \<and>
      (\<exists>t m. sr_output reply = Some t \<and> metrics = Inr m \<and> (\<forall>d. p_loads P t = Some (PDict d) \<longrightarrow>
         sr_metrics reply = Some (dset ''gas_used'' (dget_or d ''gas_used'' (PInt 0)) m)))) \<and>
    (sr_metrics reply = None \<longrightarrow> \<not> sr_success reply \<and> c = None \<and> startswith (sr_error reply) ''Execution Error: '')"
proof (cases "\<exists>r m. metrics = Inr m \<and> well_shaped r \<and> started = Inr () \<and> reply = reply_of r (with_gas P r m)")
  case True
  then show ?thesis by (auto simp: reply_of_def with_gas_def well_shaped_def split: if_splits)
next
  case False
  have "c = None \<and> (\<exists>e. reply = crashed (''Execution Error: '' @ e))"
    using assms False fsm_execute_shape unfolding run_fsm_sandbox_def
    by (auto split: sum.splits simp: bind_res_Inr) blast+
  then show ?thesis by (auto simp: crashed_def startswith_def)
qed

section \<open>Witnesses\<close>

definition calm_ops :: "nat sandbox_ops" where
  "calm_ops = \<lparr>so_apply = (\<lambda>_ _. Inr ()), so_execute = (\<lambda>_ _ _ _. Inr \<lparr>er_success = True, er_output = Some ''1'', er_error = None\<rparr>),
     so_metrics = (\<lambda>_. Inr []), so_timing = (\<lambda>_. PNone)\<rparr>"

theorem sandbox_used_once_witness:
  "\<exists>s t. sg_run sample_prims id calm_ops quota_standard [Fill 0, Fill 1, Begin [] 5, Finish 0 PNone []] \<lparr>sg_size = 2, sg_pool = [], sg_running = [], sg_shut = []\<rparr> = Some s \<and>
     sg_run sample_prims id calm_ops quota_standard [Begin [] 6] s = Some t \<and> 0 \<in> set (sg_shut t) \<and> 0 \<notin> set (sg_running t)"
proof -
  have x: "is_request_expired sample_prims id now [] = Inr False" for now by (simp add: is_request_expired_def dget_or_def sample_prims_def)
  have "\<exists>s. sg_run sample_prims id calm_ops quota_standard [Fill 0, Fill 1, Begin [] 5, Finish 0 PNone []] \<lparr>sg_size = 2, sg_pool = [], sg_running = [], sg_shut = []\<rparr> = Some s \<and> sg_shut s = [0]"
    by (simp add: has_room_def replenish_def begin_python_job_def end_python_job_def x)
  then obtain s where s: "sg_run sample_prims id calm_ops quota_standard [Fill 0, Fill 1, Begin [] 5, Finish 0 PNone []] \<lparr>sg_size = 2, sg_pool = [], sg_running = [], sg_shut = []\<rparr> = Some s"
    "sg_shut s = [0]" by blast
  obtain t where t: "sg_run sample_prims id calm_ops quota_standard [Begin [] 6] s = Some t" by simp
  from sandbox_used_once [OF s(1) t, of 0] s t show ?thesis by auto
qed

theorem python_job_exact_witness:
  "\<exists>reply s'. run_python_sandbox sample_prims id 5 calm_ops quota_standard (PStr ''1'') [] \<lparr>sg_size = 2, sg_pool = [7], sg_running = [], sg_shut = []\<rparr> = (Inr reply, s') \<and>
     sr_success reply \<and> sg_shut s' = [7]"
proof -
  have x: "is_request_expired sample_prims id 5 [] = Inr False" by (simp add: is_request_expired_def dget_or_def sample_prims_def)
  from python_job_exact [OF x, of calm_ops quota_standard "PStr ''1''" "\<lparr>sg_size = 2, sg_pool = [7], sg_running = [], sg_shut = []\<rparr>"]
  show ?thesis by (auto simp: calm_ops_def code_and_variables_def)
qed

theorem fsm_job_exact_witness:
  "\<not> sr_success (fst (run_fsm_sandbox sample_prims quota_standard (Inl (Exc ImportErr ''no wasmtime'')) (\<lambda>_. Inr None) (Inr []) PNone []))"
proof -
  have "run_fsm_sandbox sample_prims quota_standard (Inl (Exc ImportErr ''no wasmtime'')) (\<lambda>_. Inr None) (Inr []) PNone [] = (crashed (''Execution Error: '' @ ''no wasmtime''), None)"
    by (simp add: run_fsm_sandbox_def safe_payload_dict_def)
  with fsm_job_exact [OF this] show ?thesis by (simp add: crashed_def)
qed

end
