(* ===== verification/Secrets.thy ===== *)
theory Secrets
  imports Validator
begin

text \<open>
  Secrets: the registry that hands secrets to commands and hides them in their output (\<^verbatim>\<open>arch/xor/secret/registry.py\<close>), the cipher
  of stored values (\<^verbatim>\<open>cipher.py\<close>), the rotation of a managed secret (\<^verbatim>\<open>client.py\<close>) and the key vaults (\<^verbatim>\<open>crypto/vault.py\<close>).
  The cryptography package and the secret managers are parameters.
\<close>

section \<open>The registry\<close>

record secret_item =
  si_value :: string
  si_description :: "string option"

datatype secret_value = SText string | SItem secret_item

record secret_registry =
  sr_sources :: "(string, secret_item) dict"
  sr_exported :: "(string, string) dict"

definition update_secrets :: "(string, secret_value) dict \<Rightarrow> secret_registry \<Rightarrow> secret_registry" where
  "update_secrets secrets =
     fold (\<lambda>(name, val) r. r\<lparr>sr_sources := dset name
       (case val of SItem i \<Rightarrow> i | SText s \<Rightarrow> \<lparr>si_value = s, si_description = None\<rparr>) (sr_sources r)\<rparr>) secrets"

text \<open>The names found, in the order of the sources; Python keeps them in a set.\<close>

definition find_secrets_in_text :: "secret_registry \<Rightarrow> string \<Rightarrow> string list" where
  "find_secrets_in_text r text = filter (\<lambda>key. contains (lower text) (lower key)) (dkeys (sr_sources r))"

definition export_secret :: "string \<Rightarrow> (string, string) dict \<times> secret_registry \<Rightarrow> (string, string) dict \<times> secret_registry" where
  "export_secret key st =
     (case dget (sr_sources (snd st)) key of
        Some i \<Rightarrow>
          if si_value i \<noteq> [] then (dset key (si_value i) (fst st), (snd st)\<lparr>sr_exported := dset key (si_value i) (sr_exported (snd st))\<rparr>)
          else st
      | None \<Rightarrow> st)"

definition get_secrets_as_env_vars :: "string \<Rightarrow> secret_registry \<Rightarrow> (string, string) dict \<times> secret_registry" where
  "get_secrets_as_env_vars command r = fold export_secret (find_secrets_in_text r command) ([], r)"

text \<open>\<open>s.replace(old, new)\<close>: from left to right; an empty text is found before every character and at the end.\<close>

function replace_from :: "string \<Rightarrow> string \<Rightarrow> string \<Rightarrow> string" where
  "replace_from old new [] = []"
| "replace_from old new (c # s) =
     (if startswith (c # s) old then new @ replace_from old new (drop (length old - 1) s) else c # replace_from old new s)"
  by pat_completeness auto
termination
  by (relation "measure (\<lambda>(old, new, s). length s)") auto

definition py_replace :: "string \<Rightarrow> string \<Rightarrow> string \<Rightarrow> string" where
  "py_replace old new s = (if old = [] then new @ concat (map (\<lambda>c. c # new) s) else replace_from old new s)"

definition secret_mask :: string where
  "secret_mask = ''<secret-hidden>''"

definition mask_secrets_in_output :: "secret_registry \<Rightarrow> string \<Rightarrow> string" where
  "mask_secrets_in_output r text =
     (if text = [] then text
      else fold (\<lambda>value. py_replace value secret_mask) (sort_key (\<lambda>v. - int (length v)) (dvalues (sr_exported r))) text)"

definition get_secret_infos :: "secret_registry \<Rightarrow> pydict list" where
  "get_secret_infos r =
     map (\<lambda>(name, i). [(''name'', PStr name), (''description'', case si_description i of Some d \<Rightarrow> PStr d | None \<Rightarrow> PNone)]) (sr_sources r)"

section \<open>The cipher\<close>

text \<open>Fernet: a token of a key and a text, and back; an error for a token of another key and for one that is damaged.\<close>

record fernet =
  fe_key :: "string \<Rightarrow> bytes"
  fe_encrypt :: "bytes \<Rightarrow> bytes \<Rightarrow> bytes"
  fe_decrypt :: "bytes \<Rightarrow> bytes \<Rightarrow> bytes res"

definition cipher_encrypt :: "fernet \<Rightarrow> string \<Rightarrow> string option \<Rightarrow> string option" where
  "cipher_encrypt F secret_key secret = map_option (fe_encrypt F (fe_key F secret_key)) secret"

definition cipher_decrypt :: "fernet \<Rightarrow> string \<Rightarrow> string option \<Rightarrow> string option" where
  "cipher_decrypt F secret_key token =
     (case token of
        None \<Rightarrow> None
      | Some t \<Rightarrow> (case fe_decrypt F (fe_key F secret_key) t of Inr s \<Rightarrow> Some s | Inl e \<Rightarrow> None))"

section \<open>Rotation of a managed secret\<close>

text \<open>The operations of a secret manager; \<open>sm_http e\<close> is the response of an HTTP status error.\<close>

record 'm manager =
  sm_read :: "string \<Rightarrow> ('m, string option) prog"
  sm_write :: "string \<Rightarrow> string \<Rightarrow> string \<Rightarrow> ('m, pyval) prog"
  sm_delete :: "string \<Rightarrow> ('m, unit) prog"
  sm_http :: "exc \<Rightarrow> string option"

definition rotate_steps :: "'m manager \<Rightarrow> string \<Rightarrow> string \<Rightarrow> string \<Rightarrow> ('m, pyval) prog" where
  "rotate_steps M current_name new_name new_value =
     bindp (sm_read M current_name) (\<lambda>old_secret.
       if old_secret = None then raise (Exc ValueErr (''Current secret '' @ current_name @ '' not found''))
       else bindp (sm_write M new_name new_value (''Rotated from '' @ current_name)) (\<lambda>create_response.
         bindp (sm_read M new_name) (\<lambda>new_secret.
           if new_secret = None then raise (Exc ValueErr (''Failed to verify new secret '' @ new_name))
           else bindp (sm_delete M current_name) (\<lambda>_. ret create_response))))"

definition rotate_secret :: "'m manager \<Rightarrow> string \<Rightarrow> string \<Rightarrow> string \<Rightarrow> ('m, pyval) prog" where
  "rotate_secret M current_name new_name new_value m =
     (case rotate_steps M current_name new_name new_value m of
        (Inl e, m') \<Rightarrow> (Inl (case sm_http M e of Some t \<Rightarrow> Exc ValueErr (''HTTP error occurred: '' @ t) | None \<Rightarrow> e), m')
      | r \<Rightarrow> r)"

section \<open>Vaults\<close>

text \<open>Key derivation, authenticated encryption, signing keys and their raw bytes.\<close>

record 'k crypto =
  cr_derive :: "string \<Rightarrow> bytes \<Rightarrow> bytes"
  cr_encrypt :: "bytes \<Rightarrow> bytes \<Rightarrow> bytes \<Rightarrow> bytes"
  cr_decrypt :: "bytes \<Rightarrow> bytes \<Rightarrow> bytes \<Rightarrow> bytes option"
  cr_raw :: "'k \<Rightarrow> bytes"
  cr_key :: "bytes \<Rightarrow> 'k option"
  cr_sign :: "'k \<Rightarrow> bytes \<Rightarrow> bytes"
  cr_public :: "'k \<Rightarrow> bytes"

definition hex_digit :: "nat \<Rightarrow> char" where
  "hex_digit n = ''0123456789abcdef'' ! n"

definition bytes_hex :: "bytes \<Rightarrow> string" where
  "bytes_hex bs = concat (map (\<lambda>c. [hex_digit (of_char c div 16), hex_digit (of_char c mod 16)]) bs)"

type_synonym files = "(string, string) dict"

record 'k vault =
  va_path :: string
  va_keys :: "'k list"
  va_unlocked :: bool

definition new_vault :: "string \<Rightarrow> 'k vault" where
  "new_vault path = \<lparr>va_path = path, va_keys = [], va_unlocked = False\<rparr>"

text \<open>\<open>os.path.dirname\<close>: what precedes the last slash.\<close>

definition dirname :: "string \<Rightarrow> string" where
  "dirname path =
     (let head = rev (dropWhile (\<lambda>c. c \<noteq> CHR ''/'') (rev path))
      in if list_all (\<lambda>c. c = CHR ''/'') head then head else rstrip_set ''/'' head)"

definition key_record :: "'k crypto \<Rightarrow> bytes \<Rightarrow> 'k \<times> bytes \<Rightarrow> pyval" where
  "key_record C aes_key kn =
     PDict [(''nonce'', PStr (bytes_hex (snd kn))), (''ciphertext'', PStr (bytes_hex (cr_encrypt C aes_key (snd kn) (cr_raw C (fst kn)))))]"

text \<open>\<open>drawn\<close> are the keys and the nonces that the system generates, one pair for each key asked for.\<close>

definition keystore_data :: "'k crypto \<Rightarrow> bytes \<Rightarrow> ('k \<times> bytes) list \<Rightarrow> string \<Rightarrow> pyval" where
  "keystore_data C salt drawn passphrase =
     PDict [(''version'', PInt 1), (''kdf'', PStr ''pbkdf2''), (''salt'', PStr (bytes_hex salt)),
       (''keys'', PList (map (key_record C (cr_derive C passphrase salt)) drawn))]"

definition initialize_genesis_keys :: "'k crypto \<Rightarrow> prims \<Rightarrow> bytes \<Rightarrow> ('k \<times> bytes) list \<Rightarrow> string \<Rightarrow> 'k vault \<Rightarrow> (files, unit) prog" where
  "initialize_genesis_keys C P salt drawn passphrase v fs =
     (if dhas fs (va_path v) then (Inl (Exc GenericErr ''Keystore already exists. Cannot overwrite genesis keys.''), fs)
      else if dirname (va_path v) = [] then (Inl (Exc FileNotFoundErr ''No such file or directory''), fs)
      else (Inr (), dset (va_path v) (p_dumps P (keystore_data C salt drawn passphrase)) fs))"

definition item :: "pyval \<Rightarrow> string \<Rightarrow> pyval res" where
  "item v k = (case v of PDict d \<Rightarrow> (case dget d k of Some x \<Rightarrow> Inr x | None \<Rightarrow> Inl (Exc KeyErr k)) | _ \<Rightarrow> Inl (Exc TypeErr k))"

definition hex_item :: "pyval \<Rightarrow> string \<Rightarrow> bytes res" where
  "hex_item v k = bind_res (item v k) (\<lambda>x. case x of PStr s \<Rightarrow> fromhex s | _ \<Rightarrow> Inl (Exc TypeErr ''fromhex() argument must be str''))"

definition unlock_record :: "'k crypto \<Rightarrow> bytes \<Rightarrow> pyval \<Rightarrow> 'k res" where
  "unlock_record C aes_key rec =
     bind_res (hex_item rec ''nonce'') (\<lambda>nonce.
     bind_res (hex_item rec ''ciphertext'') (\<lambda>ciphertext.
       case Option.bind (cr_decrypt C aes_key nonce ciphertext) (cr_key C) of
         Some k \<Rightarrow> Inr k
       | None \<Rightarrow> Inl (Exc ValueErr ''Vault Unlock Failed: Invalid passphrase or corrupted keystore.'')))"

definition vault_unlock :: "'k crypto \<Rightarrow> prims \<Rightarrow> files \<Rightarrow> string \<Rightarrow> ('k vault, unit) prog" where
  "vault_unlock C P fs passphrase v =
     (case dget fs (va_path v) of
        None \<Rightarrow> (Inl (Exc FileNotFoundErr ''Keystore not found.''), v)
      | Some text \<Rightarrow>
          (case p_loads P text of
             None \<Rightarrow> (Inl (Exc JsonDecodeErr text), v)
           | Some data \<Rightarrow>
               (case bind_res (hex_item data ''salt'') (\<lambda>salt.
                  bind_res (item data ''keys'') (\<lambda>ks. bind_res (iter_val ks) (\<lambda>recs.
                    map_res (unlock_record C (cr_derive C passphrase salt)) recs))) of
                  Inl e \<Rightarrow> (Inl e, v)
                | Inr unlocked \<Rightarrow> (Inr (), v\<lparr>va_keys := unlocked, va_unlocked := True\<rparr>))))"

definition attest_payload :: "'k crypto \<Rightarrow> 'k vault \<Rightarrow> bytes \<Rightarrow> string list res" where
  "attest_payload C v canonical_hash =
     (if \<not> va_unlocked v then Inl (Exc RuntimeErr ''Vault is locked. Cannot attest payload.'')
      else Inr (map (\<lambda>k. bytes_hex (cr_sign C k canonical_hash)) (va_keys v)))"

definition public_keys :: "'k crypto \<Rightarrow> 'k vault \<Rightarrow> string list" where
  "public_keys C v = (if \<not> va_unlocked v then [] else map (\<lambda>k. bytes_hex (cr_public C k)) (va_keys v))"

section \<open>Masking hides what was exported\<close>

text \<open>A value that the mask cannot overlap: without angle brackets, and not itself part of the mask.\<close>

definition maskable :: "string \<Rightarrow> bool" where
  "maskable v \<longleftrightarrow> v \<noteq> [] \<and> CHR ''<'' \<notin> set v \<and> CHR ''>'' \<notin> set v \<and> \<not> contains secret_mask v"

lemma contains_Cons: "v \<noteq> [] \<Longrightarrow> contains (c # s) v \<longleftrightarrow> startswith (c # s) v \<or> contains s v"
  by (cases v) simp_all

lemma contains_tail: "contains s v \<Longrightarrow> contains (a @ s) v"
  by (cases "v = []") (simp, induction a, simp_all add: contains_Cons)

lemma contains_front: "contains a v \<Longrightarrow> contains (a @ s) v"
proof (cases "v = []")
  case False
  assume "contains a v"
  with False show ?thesis
  proof (induction a)
    case (Cons c a)
    have "startswith ((c # a) @ s) v" if "startswith (c # a) v" using that by (simp only: startswith_iff prefix_prefix)
    with Cons show ?case by (auto simp: contains_Cons)
  qed (cases v, simp_all)
qed simp

lemma contains_split:
  assumes "x \<notin> set v" "v \<noteq> []" "contains (a @ x # s) v"
  shows "contains a v \<or> contains s v"
  using assms(3)
proof (induction a)
  case Nil
  then show ?case using assms by (auto simp: contains_Cons startswith_iff prefix_def Cons_eq_append_conv)
next
  case (Cons c a)
  have "startswith (c # a) v" if "startswith (c # a @ x # s) v"
  proof -
    from that obtain z where z: "(c # a) @ x # s = v @ z" by (auto simp: startswith_iff prefix_def)
    then have "prefix v (c # a)" using assms(1) by (auto simp: append_eq_append_conv2 Cons_eq_append_conv append_eq_Cons_conv)
    then show ?thesis by (simp add: startswith_iff)
  qed
  with Cons assms(2) show ?case by (auto simp: contains_Cons)
qed

lemma mask_parts: "secret_mask = CHR ''<'' # ''secret-hidden>''" "secret_mask = ''<secret-hidden'' @ [CHR ''>'']"
  by (simp_all add: secret_mask_def)

lemma prefix_replaced:
  assumes "CHR ''<'' \<notin> set v"
  shows "startswith (replace_from w secret_mask s) v \<Longrightarrow> startswith s v"
  using assms
proof (induction w "secret_mask" s arbitrary: v rule: replace_from.induct)
  case (2 w c s)
  show ?case
  proof (cases v)
    case (Cons x v')
    show ?thesis
    proof (cases "startswith (c # s) w")
      case True
      with 2(3,4) Cons show ?thesis by (simp add: mask_parts(1) startswith_iff)
    next
      case False
      with 2(3,4) Cons 2(2) [OF False, of v'] show ?thesis by (simp add: startswith_iff)
    qed
  qed simp
qed simp

lemma after_mask: "maskable v \<Longrightarrow> contains (secret_mask @ s) v \<Longrightarrow> contains s v"
  using contains_split [of "CHR ''>''" v "''<secret-hidden''" s] contains_front [of "''<secret-hidden''" v "[CHR ''>'']"]
  by (auto simp: maskable_def mask_parts(2))

lemma contains_replaced: "maskable v \<Longrightarrow> contains (replace_from w secret_mask s) v \<Longrightarrow> contains s v"
proof (induction w "secret_mask" s rule: replace_from.induct)
  case (2 w c s)
  have v: "v \<noteq> []" "CHR ''<'' \<notin> set v" using 2(3) by (simp_all add: maskable_def)
  show ?case
  proof (cases "startswith (c # s) w")
    case True
    with 2 after_mask [OF 2(3)] have "contains (drop (length w - 1) s) v" by simp
    then have "contains s v" by (metis append_take_drop_id contains_tail)
    with v show ?thesis by (simp add: contains_Cons)
  next
    case False
    from False 2(4) v have "startswith (c # replace_from w secret_mask s) v \<or> contains (replace_from w secret_mask s) v" by (simp add: contains_Cons)
    then show ?thesis
    proof
      assume "startswith (c # replace_from w secret_mask s) v"
      then have "startswith (replace_from w secret_mask (c # s)) v" using False by simp
      with prefix_replaced [OF v(2)] v(1) show ?thesis by (metis contains_Cons)
    next
      assume "contains (replace_from w secret_mask s) v"
      with 2(2) False 2(3) v show ?thesis by (simp add: contains_Cons)
    qed
  qed
qed simp

lemma replaced_gone: "maskable v \<Longrightarrow> \<not> contains (replace_from v secret_mask s) v"
proof (induction v "secret_mask" s rule: replace_from.induct)
  case (1 v)
  then show ?case by (cases v) (simp_all add: maskable_def)
next
  case (2 v c s)
  have v: "v \<noteq> []" "CHR ''<'' \<notin> set v" using 2(3) by (simp_all add: maskable_def)
  show ?case
  proof (cases "startswith (c # s) v")
    case True
    with 2 after_mask [OF 2(3)] show ?thesis by auto
  next
    case False
    then have e: "replace_from v secret_mask (c # s) = c # replace_from v secret_mask s" by simp
    have "\<not> startswith (c # replace_from v secret_mask s) v" using prefix_replaced [OF v(2), of v "c # s"] False unfolding e by blast
    with 2(2) [OF False 2(3)] v show ?thesis unfolding e by (simp add: contains_Cons)
  qed
qed

lemma masks_hide:
  assumes "maskable v" "\<forall>w \<in> set ws. w \<noteq> []"
  shows "(contains (fold (\<lambda>w. py_replace w secret_mask) ws s) v \<longrightarrow> contains s v) \<and> (v \<in> set ws \<longrightarrow> \<not> contains (fold (\<lambda>w. py_replace w secret_mask) ws s) v)"
  using assms(2)
proof (induction ws arbitrary: s)
  case (Cons w ws)
  then have "py_replace w secret_mask s = replace_from w secret_mask s" by (simp add: py_replace_def)
  with Cons contains_replaced [OF assms(1), of w s] replaced_gone [OF assms(1), of s] show ?case by fastforce
qed simp

definition exported_ok :: "secret_registry \<Rightarrow> bool" where
  "exported_ok r \<longleftrightarrow> (\<forall>v \<in> set (dvalues (sr_exported r)). v \<noteq> [])"

lemma mask_hides: "exported_ok r \<Longrightarrow> maskable v \<Longrightarrow> v \<in> set (dvalues (sr_exported r)) \<Longrightarrow> \<not> contains (mask_secrets_in_output r text) v"
  using masks_hide [of v "sort_key (\<lambda>v. - int (length v)) (dvalues (sr_exported r))" "text"]
  by (cases v) (auto simp: mask_secrets_in_output_def exported_ok_def)

lemma export_fold:
  defines "usable r k \<equiv> (case dget (sr_sources r) k of Some i \<Rightarrow> if si_value i \<noteq> [] then Some (si_value i) else None | None \<Rightarrow> None)"
  assumes "fold export_secret ks (env, r) = (env', r')"
  shows "sr_sources r' = sr_sources r"
    "dget env' k = (if k \<in> set ks \<and> usable r k \<noteq> None then usable r k else dget env k)"
    "dget (sr_exported r') k = (if k \<in> set ks \<and> usable r k \<noteq> None then usable r k else dget (sr_exported r) k)"
    "exported_ok r \<Longrightarrow> exported_ok r'"
proof -
  have "sr_sources r' = sr_sources r \<and> dget env' k = (if k \<in> set ks \<and> usable r k \<noteq> None then usable r k else dget env k) \<and>
    dget (sr_exported r') k = (if k \<in> set ks \<and> usable r k \<noteq> None then usable r k else dget (sr_exported r) k) \<and>
    (exported_ok r \<longrightarrow> exported_ok r')"
    using assms(2)
  proof (induction ks arbitrary: env r)
    case (Cons a ks)
    obtain e1 r1 where e: "export_secret a (env, r) = (e1, r1)" by fastforce
    have s: "sr_sources r1 = sr_sources r" and u: "usable r1 = usable r" using e by (auto simp: export_secret_def usable_def split: option.splits if_splits)
    have g: "dget e1 x = (if x = a \<and> usable r x \<noteq> None then usable r x else dget env x)"
      "dget (sr_exported r1) x = (if x = a \<and> usable r x \<noteq> None then usable r x else dget (sr_exported r) x)" for x
      using e by (auto simp: export_secret_def usable_def split: option.splits if_splits)
    have o: "exported_ok r \<Longrightarrow> exported_ok r1"
      using e by (fastforce simp: export_secret_def exported_ok_def dvalues_def split: option.splits if_splits dest!: set_dset [THEN subsetD])
    from Cons.IH [of e1 r1] Cons.prems e show ?case by (auto simp: s u g o)
  qed simp
  then show "sr_sources r' = sr_sources r"
    "dget env' k = (if k \<in> set ks \<and> usable r k \<noteq> None then usable r k else dget env k)"
    "dget (sr_exported r') k = (if k \<in> set ks \<and> usable r k \<noteq> None then usable r k else dget (sr_exported r) k)"
    "exported_ok r \<Longrightarrow> exported_ok r'" by blast+
qed

text \<open>
  C37. Secrets given to a command: exactly the secrets with a value whose name occurs in the command, without regard to case; and the
  output of that command, once masked, contains none of them that the mask cannot overlap.
\<close>

theorem exported_secrets_hidden:
  assumes "exported_ok r" "get_secrets_as_env_vars command r = (env, r')"
  shows "(dget env k = Some v \<longleftrightarrow> (\<exists>i. dget (sr_sources r) k = Some i \<and> si_value i = v \<and> v \<noteq> [] \<and> contains (lower command) (lower k))) \<and>
    exported_ok r' \<and> (dget env k = Some v \<and> maskable v \<longrightarrow> \<not> contains (mask_secrets_in_output r' output) v)"
proof -
  from assms(2) have f: "fold export_secret (find_secrets_in_text r command) ([], r) = (env, r')" by (simp add: get_secrets_as_env_vars_def)
  note e = export_fold [OF f]
  have k: "k \<in> set (find_secrets_in_text r command) \<longleftrightarrow> contains (lower command) (lower k) \<and> dget (sr_sources r) k \<noteq> None" for k
    using dhas_iff [of "sr_sources r" k] by (auto simp: find_secrets_in_text_def dhas_def)
  have "\<not> contains (mask_secrets_in_output r' output) v" if "dget env k = Some v" "maskable v"
  proof -
    from that(1) e(2,3) [of k] have "dget (sr_exported r') k = Some v" by (auto split: if_splits)
    then have "v \<in> set (dvalues (sr_exported r'))" by (force simp: dvalues_def dest: map_of_SomeD)
    with e(4) assms(1) that(2) show ?thesis by (metis mask_hides)
  qed
  moreover have "dget env k = Some v \<longleftrightarrow> (\<exists>i. dget (sr_sources r) k = Some i \<and> si_value i = v \<and> v \<noteq> [] \<and> contains (lower command) (lower k))"
    unfolding e(2) k by (auto split: option.splits)
  ultimately show ?thesis using e(4) assms(1) by blast
qed

lemma replace_absent: "old \<noteq> [] \<Longrightarrow> \<not> contains s old \<Longrightarrow> py_replace old new s = s"
proof -
  have "replace_from old new s = s" if "old \<noteq> []" "\<not> contains s old"
    using that by (induction old new s rule: replace_from.induct) (auto simp: contains_Cons)
  then show "old \<noteq> [] \<Longrightarrow> \<not> contains s old \<Longrightarrow> py_replace old new s = s" by (simp add: py_replace_def)
qed

text \<open>
  Only the last exported value of a secret is masked: once a secret was changed and exported again, its old value, which earlier
  commands were given, passes through.
\<close>

theorem old_value_shown:
  assumes "contains (lower command) (lower k)" "new \<noteq> []" "\<not> contains old new"
  shows "mask_secrets_in_output (snd (get_secrets_as_env_vars command (update_secrets [(k, SText new)]
    \<lparr>sr_sources = [(k, i)], sr_exported = [(k, old)]\<rparr>))) old = old"
  using assms replace_absent [OF assms(2,3), of secret_mask]
  by (simp add: update_secrets_def get_secrets_as_env_vars_def find_secrets_in_text_def export_secret_def dkeys_def mask_secrets_in_output_def dvalues_def)

section \<open>The cipher\<close>

text \<open>With the same key a stored value is read back; with any other, or damaged, it is read as absent.\<close>

theorem cipher_round_trip:
  assumes "\<forall>key s. fe_decrypt F key (fe_encrypt F key s) = Inr s"
  shows "cipher_decrypt F k (cipher_encrypt F k secret) = secret"
  using assms by (cases secret) (simp_all add: cipher_decrypt_def cipher_encrypt_def)

section \<open>Rotation\<close>

text \<open>
  What a manager promises, with \<open>get\<close> the secrets it holds: reading changes nothing, writing and deleting change one secret, and an
  operation that fails has been done or not.
\<close>

definition lawful_manager :: "'m manager \<Rightarrow> ('m \<Rightarrow> string \<Rightarrow> string option) \<Rightarrow> bool" where
  "lawful_manager M get \<longleftrightarrow>
     (\<forall>n m r m'. sm_read M n m = (r, m') \<longrightarrow> get m' = get m \<and> (\<forall>x. r = Inr x \<longrightarrow> x = get m n)) \<and>
     (\<forall>n v d m r m'. sm_write M n v d m = (r, m') \<longrightarrow>
        get m' = (get m)(n := Some v) \<or> (isl r \<and> get m' = get m)) \<and>
     (\<forall>n m r m'. sm_delete M n m = (r, m') \<longrightarrow> get m' = (get m)(n := None) \<or> (isl r \<and> get m' = get m))"

lemma rotate_fst_snd: "rotate_secret M c n v m = (r, m') \<Longrightarrow>
    \<exists>r0. rotate_steps M c n v m = (r0, m') \<and> (\<forall>x. r = Inr x \<longleftrightarrow> r0 = Inr x)"
  by (auto simp: rotate_secret_def split: prod.splits sum.splits)

lemma rotate_steps_outcome:
  assumes "lawful_manager M get" "rotate_steps M c n v m = (r, m')"
  shows "get m' = get m \<and> isl r \<or> get m' = (get m)(n := Some v) \<and> isl r \<or> get m' = (get m)(n := Some v, c := None)"
proof -
  have R: "get m' = get m" "r = Inr x \<Longrightarrow> x = get m n" if "sm_read M n m = (r, m')" for n m r m' x
    using assms(1) that unfolding lawful_manager_def by blast+
  have W: "get m' = (get m)(n := Some v) \<or> (isl r \<and> get m' = get m)" if "sm_write M n v d m = (r, m')" for n v d m r m'
    using assms(1) that unfolding lawful_manager_def by blast
  have D: "get m' = (get m)(n := None) \<or> (isl r \<and> get m' = get m)" if "sm_delete M n m = (r, m')" for n m r m'
    using assms(1) that unfolding lawful_manager_def by blast
  show ?thesis using assms(2)
    by (auto simp: rotate_steps_def bindp_def raise_def ret_def split: prod.splits sum.splits if_splits dest!: R W D)
qed

text \<open>
  Rotation to another name: the old secret is given up only when the new one is stored, and a rotation that returns leaves the new
  secret and not the old. Rotation of a secret to its own name, however, leaves no secret.
\<close>

theorem rotation_outcome:
  assumes "lawful_manager M get" "rotate_secret M current new_name v m = (r, m')"
  shows "(current \<noteq> new_name \<and> get m' current \<noteq> get m current \<longrightarrow> get m' new_name = Some v) \<and>
    (\<forall>x. r = Inr x \<longrightarrow> get m' = (get m)(new_name := Some v, current := None)) \<and>
    (\<forall>x. current = new_name \<and> r = Inr x \<longrightarrow> get m' current = None)"
proof -
  from rotate_fst_snd [OF assms(2)] obtain r0 where r0: "rotate_steps M current new_name v m = (r0, m')" "\<forall>x. r = Inr x \<longleftrightarrow> r0 = Inr x" by blast
  from rotate_steps_outcome [OF assms(1) r0(1)] r0(2) show ?thesis by (auto simp: isl_def)
qed

section \<open>The vault\<close>

lemma hex_val_digit: "n < 16 \<Longrightarrow> hex_val (hex_digit n) = Some n \<and> hex_digit n \<notin> {CHR 0x09, CHR 0x0A, CHR 0x0B, CHR 0x0C, CHR 0x0D, CHR 0x20}"
proof -
  assume "n < 16"
  then have "n = 0 \<or> n = 1 \<or> n = 2 \<or> n = 3 \<or> n = 4 \<or> n = 5 \<or> n = 6 \<or> n = 7 \<or> n = 8 \<or> n = 9 \<or> n = 10 \<or> n = 11 \<or> n = 12 \<or> n = 13 \<or> n = 14 \<or> n = 15" by presburger
  then show ?thesis by (elim disjE) (simp_all add: hex_val_def hex_digit_def lower_char_def)
qed

lemma fromhex_hex [simp]: "fromhex (bytes_hex bs) = Inr bs"
proof (induction bs)
  case (Cons c bs)
  let ?n = "of_char c :: nat"
  have "?n div 16 < 16" "?n mod 16 < 16" using nat_of_char_less_256 [of c] by (simp_all add: less_mult_imp_div_less)
  then have d: "hex_val (hex_digit (?n div 16)) = Some (?n div 16)" "hex_val (hex_digit (?n mod 16)) = Some (?n mod 16)"
    "hex_digit (?n div 16) \<notin> {CHR 0x09, CHR 0x0A, CHR 0x0B, CHR 0x0C, CHR 0x0D, CHR 0x20}" using hex_val_digit by blast+
  have "bytes_hex (c # bs) = hex_digit (?n div 16) # hex_digit (?n mod 16) # bytes_hex bs" by (simp add: bytes_hex_def)
  with d Cons show ?case by simp
qed (simp add: bytes_hex_def)

text \<open>What the vault relies on: decryption inverts encryption, and a key is rebuilt from its raw bytes.\<close>

definition crypto_ok :: "'k crypto \<Rightarrow> bool" where
  "crypto_ok C \<longleftrightarrow> (\<forall>key nonce raw. cr_decrypt C key nonce (cr_encrypt C key nonce raw) = Some raw) \<and> (\<forall>k. cr_key C (cr_raw C k) = Some k)"

lemma record_items:
  "hex_item (key_record C aes kn) ''nonce'' = Inr (snd kn)"
  "hex_item (key_record C aes kn) ''ciphertext'' = Inr (cr_encrypt C aes (snd kn) (cr_raw C (fst kn)))"
  by (simp_all add: hex_item_def item_def key_record_def)

lemma unlock_record_same: "crypto_ok C \<Longrightarrow> unlock_record C aes (key_record C aes kn) = Inr (fst kn)"
  by (simp add: unlock_record_def record_items crypto_ok_def)

lemma genesis_file:
  assumes "p_loads P (p_dumps P (keystore_data C salt drawn passphrase)) = Some (keystore_data C salt drawn passphrase)"
    and "initialize_genesis_keys C P salt drawn passphrase v fs = (Inr (), fs')"
    and "va_path w = va_path v"
  shows "vault_unlock C P fs' other w = (case map_res (unlock_record C (cr_derive C other salt)) (map (key_record C (cr_derive C passphrase salt)) drawn) of
      Inl e \<Rightarrow> (Inl e, w) | Inr unlocked \<Rightarrow> (Inr (), w\<lparr>va_keys := unlocked, va_unlocked := True\<rparr>))"
proof -
  have "fs' = dset (va_path v) (p_dumps P (keystore_data C salt drawn passphrase)) fs"
    using assms(2) by (simp add: initialize_genesis_keys_def split: if_splits)
  with assms(1,3) show ?thesis by (simp add: vault_unlock_def hex_item_def item_def) (simp add: keystore_data_def)
qed

text \<open>
  Vault round trip: keys that were generated under a passphrase are unlocked by it, in order, and every one of them signs; before
  that the vault refuses to sign and shows no key.
\<close>

theorem vault_round_trip:
  assumes "crypto_ok C" "p_loads P (p_dumps P (keystore_data C salt drawn passphrase)) = Some (keystore_data C salt drawn passphrase)"
    and "initialize_genesis_keys C P salt drawn passphrase (new_vault path) fs = (Inr (), fs')"
  shows "\<exists>v. vault_unlock C P fs' passphrase (new_vault path) = (Inr (), v) \<and>
    attest_payload C v h = Inr (map (\<lambda>kn. bytes_hex (cr_sign C (fst kn) h)) drawn) \<and>
    public_keys C v = map (\<lambda>kn. bytes_hex (cr_public C (fst kn))) drawn \<and>
    isl (attest_payload C (new_vault path) h) \<and> public_keys C (new_vault path) = []"
proof -
  have "map_res (unlock_record C (cr_derive C passphrase salt)) (map (key_record C (cr_derive C passphrase salt)) drawn) = Inr (map fst drawn)"
    by (induction drawn) (simp_all add: unlock_record_same [OF assms(1)])
  then show ?thesis using genesis_file [OF assms(2,3) refl, of passphrase]
    by (simp add: attest_payload_def public_keys_def new_vault_def comp_def)
qed

text \<open>A passphrase under which the first record does not decrypt opens nothing and leaves the vault as it was.\<close>

theorem wrong_passphrase_refused:
  assumes "p_loads P (p_dumps P (keystore_data C salt (kn # drawn) passphrase)) = Some (keystore_data C salt (kn # drawn) passphrase)"
    and "initialize_genesis_keys C P salt (kn # drawn) passphrase v fs = (Inr (), fs')"
    and "cr_decrypt C (cr_derive C other salt) (snd kn) (cr_encrypt C (cr_derive C passphrase salt) (snd kn) (cr_raw C (fst kn))) = None"
  shows "vault_unlock C P fs' other v = (Inl (Exc ValueErr ''Vault Unlock Failed: Invalid passphrase or corrupted keystore.''), v)"
  unfolding genesis_file [OF assms(1,2) refl] by (simp add: unlock_record_def record_items assms(3))

text \<open>A keystore path without a directory cannot be initialised.\<close>

theorem bare_keystore_path_fails:
  assumes "CHR ''/'' \<notin> set path" "\<not> dhas fs path"
  shows "initialize_genesis_keys C P salt drawn passphrase (new_vault path) fs = (Inl (Exc FileNotFoundErr ''No such file or directory''), fs)"
proof -
  have "dropWhile (\<lambda>c. c \<noteq> CHR ''/'') (rev path) = []" using assms(1) by (auto simp: dropWhile_eq_Nil_conv)
  then have "dirname path = []" by (simp only: dirname_def Let_def rev.simps list.pred_inject(1) if_True)
  with assms(2) show ?thesis by (simp add: initialize_genesis_keys_def new_vault_def)
qed

section \<open>Witnesses\<close>

definition sample_registry :: secret_registry where
  "sample_registry = update_secrets [(''API_KEY'', SText ''k-123'')] \<lparr>sr_sources = [], sr_exported = []\<rparr>"

theorem exported_secrets_hidden_witness:
  "\<not> contains (mask_secrets_in_output (snd (get_secrets_as_env_vars ''echo $api_key'' sample_registry)) ''the key is k-123.'') ''k-123''"
proof -
  let ?g = "get_secrets_as_env_vars ''echo $api_key'' sample_registry"
  have "exported_ok sample_registry" "dget (fst ?g) ''API_KEY'' = Some ''k-123''" "maskable ''k-123''" by code_simp+
  with exported_secrets_hidden [of sample_registry "''echo $api_key''" "fst ?g" "snd ?g" "''API_KEY''" "''k-123''" "''the key is k-123.''"]
  show ?thesis by simp
qed

theorem old_value_shown_witness:
  "mask_secrets_in_output (snd (get_secrets_as_env_vars ''use key'' (update_secrets [(''KEY'', SText ''new'')]
    \<lparr>sr_sources = [(''KEY'', \<lparr>si_value = ''old'', si_description = None\<rparr>)], sr_exported = [(''KEY'', ''old'')]\<rparr>))) ''old'' = ''old''"
  by (rule old_value_shown) code_simp+

definition plain_fernet :: fernet where
  "plain_fernet = \<lparr>fe_key = id, fe_encrypt = (\<lambda>k s. k @ s),
     fe_decrypt = (\<lambda>k t. if startswith t k then Inr (drop (length k) t) else Inl (Exc GenericErr ''InvalidToken''))\<rparr>"

theorem cipher_round_trip_witness: "cipher_decrypt plain_fernet ''k'' (cipher_encrypt plain_fernet ''k'' (Some ''s'')) = Some ''s''"
  by (rule cipher_round_trip) (simp add: plain_fernet_def)

definition dict_manager :: "(string, string) dict manager" where
  "dict_manager = \<lparr>sm_read = (\<lambda>n m. (Inr (dget m n), m)), sm_write = (\<lambda>n v d m. (Inr PNone, dset n v m)),
     sm_delete = (\<lambda>n m. (Inr (), ddel n m)), sm_http = (\<lambda>_. None)\<rparr>"

theorem rotation_outcome_witness:
  "rotate_secret dict_manager ''a'' ''b'' ''2'' [(''a'', ''1'')] = (Inr PNone, [(''b'', ''2'')]) \<and> dget [(''b'', ''2'')] ''b'' = Some ''2'' \<and> dget [(''b'', ''2'')] ''a'' = None"
proof -
  have l: "lawful_manager dict_manager map_of" by (auto simp: lawful_manager_def dict_manager_def update_conv' delete_conv')
  have r: "rotate_secret dict_manager ''a'' ''b'' ''2'' [(''a'', ''1'')] = (Inr PNone, [(''b'', ''2'')])" by code_simp
  from rotation_outcome [OF l r] have "map_of [(''b'', ''2'')] = (map_of [(''a'', ''1'')])(''b'' \<mapsto> ''2'', ''a'' := None)" by blast
  with r show ?thesis by simp
qed

definition plain_crypto :: "nat crypto" where
  "plain_crypto = \<lparr>cr_derive = (\<lambda>p s. p @ s), cr_encrypt = (\<lambda>k n raw. k @ raw),
     cr_decrypt = (\<lambda>k n c. if startswith c k then Some (drop (length k) c) else None),
     cr_raw = (\<lambda>k. replicate k CHR ''x''), cr_key = (\<lambda>raw. Some (length raw)), cr_sign = (\<lambda>k h. replicate k CHR ''y'' @ h), cr_public = (\<lambda>k. replicate k CHR ''x'')\<rparr>"

definition keystore_prims :: "pyval \<Rightarrow> prims" where
  "keystore_prims v = \<lparr>p_sha256 = id, p_canon = (\<lambda>_. []), p_dumps = (\<lambda>_. ''doc''), p_loads = (\<lambda>s. if s = ''doc'' then Some v else None),
     p_float_of_int = (\<lambda>_. NaN), p_float_of_str = (\<lambda>_. Inl (Exc ValueErr [])), p_repr = (\<lambda>_. [])\<rparr>"

abbreviation sample_drawn :: "(nat \<times> bytes) list" where
  "sample_drawn \<equiv> [(2, ''n''), (1, ''m'')]"

abbreviation sample_store :: prims where
  "sample_store \<equiv> keystore_prims (keystore_data plain_crypto ''s'' sample_drawn ''pw'')"

lemma sample_genesis: "initialize_genesis_keys plain_crypto sample_store ''s'' sample_drawn ''pw'' (new_vault ''a/k'') [] = (Inr (), [(''a/k'', ''doc'')])"
  by (simp add: initialize_genesis_keys_def new_vault_def keystore_prims_def dhas_def dirname_def rstrip_set_def Let_def)

lemma sample_codec_ok: "p_loads sample_store (p_dumps sample_store (keystore_data plain_crypto ''s'' sample_drawn ''pw'')) = Some (keystore_data plain_crypto ''s'' sample_drawn ''pw'')"
  by (simp add: keystore_prims_def)

theorem vault_round_trip_witness:
  "\<exists>v. vault_unlock plain_crypto sample_store [(''a/k'', ''doc'')] ''pw'' (new_vault ''a/k'') = (Inr (), v) \<and>
     attest_payload plain_crypto v ''h'' = Inr [bytes_hex ''yyh'', bytes_hex ''yh'']"
proof -
  have c: "crypto_ok plain_crypto" by (simp add: crypto_ok_def plain_crypto_def)
  have "replicate 2 CHR ''y'' @ ''h'' = ''yyh''" "replicate (Suc 0) CHR ''y'' @ ''h'' = ''yh''" by (simp_all add: numeral_2_eq_2)
  with vault_round_trip [OF c sample_codec_ok sample_genesis, of "''h''"] show ?thesis by (auto simp: plain_crypto_def)
qed

theorem wrong_passphrase_refused_witness:
  "vault_unlock plain_crypto sample_store [(''a/k'', ''doc'')] ''no'' (new_vault ''a/k'') =
     (Inl (Exc ValueErr ''Vault Unlock Failed: Invalid passphrase or corrupted keystore.''), new_vault ''a/k'')"
  by (rule wrong_passphrase_refused [OF sample_codec_ok sample_genesis]) (simp add: plain_crypto_def startswith_def)

theorem bare_keystore_path_fails_witness:
  "initialize_genesis_keys plain_crypto sample_store ''s'' sample_drawn ''pw'' (new_vault ''k.json'') [] = (Inl (Exc FileNotFoundErr ''No such file or directory''), [])"
  by (rule bare_keystore_path_fails) (simp_all add: dhas_def)

end
