(* ===== verification/Dynamics.thy ===== *)
theory Dynamics
  imports Prelude
begin

text \<open>
  The boundary to the field dynamics in wasm (\<^verbatim>\<open>arch/bound/adapter/dynamics.py\<close>): builders of signals and states that refuse floats
  that are not finite, the payloads made of them, and the parsers of what comes back. The float arithmetic of the class
  \<open>Dynamics\<close> is left out.
\<close>

section \<open>Data\<close>

definition node_roles :: "string list" where
  "node_roles = [''NORMAL'', ''REFLECTOR'', ''ATTRACTOR'']"

record topos_signal =
  sg_type :: string
  sg_delta_time :: "pyfloat option"
  sg_amount :: "pyfloat option"
  sg_multiplier :: "pyfloat option"

text \<open>The fields of a manifold that are not checked keep whatever value they are given.\<close>

record manifold =
  mf_potential :: "pyfloat option"
  mf_threshold :: "pyfloat option"
  mf_reentry :: "pyfloat option"
  mf_tick :: pyval
  mf_void_gap :: pyval
  mf_projection :: pyval
  mf_collapse :: pyval

record node_state =
  ns_phase :: "pyfloat option"
  ns_omega :: "pyfloat option"
  ns_state :: string
  ns_tension :: "pyfloat option"
  ns_velocity :: "pyfloat option"
  ns_recovery :: "pyfloat option"
  ns_spiking :: bool
  ns_metadata :: pydict

record kernel_delta =
  kd_phase :: "pyfloat option"
  kd_tension :: "pyfloat option"
  kd_velocity :: "pyfloat option"
  kd_recovery :: "pyfloat option"
  kd_spiking :: pyval

section \<open>Checked builders\<close>

fun finite_float :: "pyfloat \<Rightarrow> bool" where
  "finite_float (Fin r) = True"
| "finite_float f = False"

definition assert_safe_float :: "prims \<Rightarrow> pyval \<Rightarrow> string \<Rightarrow> pyfloat option res" where
  "assert_safe_float P val name =
     (if val = PNone then Inr None
      else bind_res (py_float_of P val) (\<lambda>f.
        if finite_float f then Inr (Some f)
        else Inl (Exc ValueErr (''[FFI Boundary Error] '' @ squote @ name @ squote @ '' must be a finite float, got '' @ py_str P val))))"

abbreviation empty_signal :: "string \<Rightarrow> topos_signal" where
  "empty_signal t \<equiv> \<lparr>sg_type = t, sg_delta_time = None, sg_amount = None, sg_multiplier = None\<rparr>"

definition build_signal_tick :: "prims \<Rightarrow> pyval \<Rightarrow> topos_signal res" where
  "build_signal_tick P v = bind_res (assert_safe_float P v ''delta_time'') (\<lambda>f. Inr ((empty_signal ''Tick'')\<lparr>sg_delta_time := f\<rparr>))"

definition build_signal_inject_tension :: "prims \<Rightarrow> pyval \<Rightarrow> topos_signal res" where
  "build_signal_inject_tension P v = bind_res (assert_safe_float P v ''amount'') (\<lambda>f. Inr ((empty_signal ''InjectTension'')\<lparr>sg_amount := f\<rparr>))"

definition build_signal_perturb :: topos_signal where
  "build_signal_perturb = empty_signal ''Perturb''"

definition build_signal_tune_reentry :: "prims \<Rightarrow> pyval \<Rightarrow> topos_signal res" where
  "build_signal_tune_reentry P v = bind_res (assert_safe_float P v ''multiplier'') (\<lambda>f. Inr ((empty_signal ''TuneReentry'')\<lparr>sg_multiplier := f\<rparr>))"

text \<open>A keyword argument that is checked if it is given, and has a default otherwise.\<close>

definition checked_kwarg :: "prims \<Rightarrow> pydict \<Rightarrow> string \<Rightarrow> pyfloat \<Rightarrow> pyfloat option res" where
  "checked_kwarg P kw k d = (case dget kw k of Some v \<Rightarrow> assert_safe_float P v k | None \<Rightarrow> Inr (Some d))"

definition manifold_fields :: "string list" where
  "manifold_fields = [''potential'', ''threshold'', ''reentry_multiplier'', ''global_tick'', ''void_gap'', ''projection_flow'', ''collapse_field'']"

definition build_manifold_state :: "prims \<Rightarrow> pydict \<Rightarrow> manifold res" where
  "build_manifold_state P kw =
     bind_res (checked_kwarg P kw ''potential'' (Fin 0)) (\<lambda>p.
     bind_res (checked_kwarg P kw ''threshold'' (Fin 1)) (\<lambda>t.
     bind_res (checked_kwarg P kw ''reentry_multiplier'' (Fin 1)) (\<lambda>r.
       if \<not> set (dkeys kw) \<subseteq> set manifold_fields then Inl (Exc TypeErr ''unexpected keyword argument'')
       else Inr \<lparr>mf_potential = p, mf_threshold = t, mf_reentry = r, mf_tick = dget_or kw ''global_tick'' (PInt 0),
         mf_void_gap = dget_or kw ''void_gap'' (PList []), mf_projection = dget_or kw ''projection_flow'' (PList []),
         mf_collapse = dget_or kw ''collapse_field'' (PList [])\<rparr>)))"

definition build_node_state :: "prims \<Rightarrow> pyval \<Rightarrow> pyval \<Rightarrow> string \<Rightarrow> pyval \<Rightarrow> pydict \<Rightarrow> node_state res" where
  "build_node_state P phase omega state tension kw =
     (if state \<notin> set node_roles then Inl (Exc ValueErr (''[Schema Error] Invalid NodeRole '' @ squote @ state @ squote))
      else bind_res (assert_safe_float P phase ''phase'') (\<lambda>p.
        bind_res (assert_safe_float P omega ''omega'') (\<lambda>w.
        bind_res (assert_safe_float P tension ''tension'') (\<lambda>t.
        bind_res (assert_safe_float P (dget_or kw ''velocity'' PNone) ''velocity'') (\<lambda>v.
        bind_res (assert_safe_float P (dget_or kw ''recovery'' PNone) ''recovery'') (\<lambda>r.
          Inr \<lparr>ns_phase = p, ns_omega = w, ns_state = state, ns_tension = t, ns_velocity = v, ns_recovery = r,
            ns_spiking = truthy (dget_or kw ''is_spiking'' (PBool False)),
            ns_metadata = ddel ''is_spiking'' (ddel ''recovery'' (ddel ''velocity'' kw))\<rparr>))))))"

definition build_kernel_delta :: "prims \<Rightarrow> pydict \<Rightarrow> kernel_delta res" where
  "build_kernel_delta P kw =
     (if \<not> dhas kw ''d_phase'' \<or> \<not> dhas kw ''target_tension'' \<or>
         \<not> set (dkeys kw) \<subseteq> {''d_phase'', ''target_tension'', ''velocity'', ''recovery'', ''is_spiking''}
      then Inl (Exc TypeErr ''missing or unexpected argument'')
      else bind_res (assert_safe_float P (dget_or kw ''d_phase'' PNone) ''d_phase'') (\<lambda>p.
        bind_res (assert_safe_float P (dget_or kw ''target_tension'' PNone) ''target_tension'') (\<lambda>t.
        bind_res (assert_safe_float P (dget_or kw ''velocity'' PNone) ''velocity'') (\<lambda>v.
        bind_res (assert_safe_float P (dget_or kw ''recovery'' PNone) ''recovery'') (\<lambda>r.
          Inr \<lparr>kd_phase = p, kd_tension = t, kd_velocity = v, kd_recovery = r, kd_spiking = dget_or kw ''is_spiking'' PNone\<rparr>)))))"

section \<open>Payloads\<close>

definition opt_float :: "pyfloat option \<Rightarrow> pyval" where
  "opt_float f = (case f of Some x \<Rightarrow> PFloat x | None \<Rightarrow> PNone)"

definition asdict_signal :: "topos_signal \<Rightarrow> pydict" where
  "asdict_signal s = [(''type'', PStr (sg_type s)), (''delta_time'', opt_float (sg_delta_time s)), (''amount'', opt_float (sg_amount s)),
     (''multiplier'', opt_float (sg_multiplier s))]"

definition asdict_manifold :: "manifold \<Rightarrow> pydict" where
  "asdict_manifold m = [(''potential'', opt_float (mf_potential m)), (''threshold'', opt_float (mf_threshold m)),
     (''reentry_multiplier'', opt_float (mf_reentry m)), (''global_tick'', mf_tick m), (''void_gap'', mf_void_gap m),
     (''projection_flow'', mf_projection m), (''collapse_field'', mf_collapse m)]"

definition asdict_node :: "node_state \<Rightarrow> pydict" where
  "asdict_node n = [(''phase'', opt_float (ns_phase n)), (''omega'', opt_float (ns_omega n)), (''state'', PStr (ns_state n)),
     (''tension'', opt_float (ns_tension n)), (''velocity'', opt_float (ns_velocity n)), (''recovery'', opt_float (ns_recovery n)),
     (''is_spiking'', PBool (ns_spiking n)), (''metadata'', PDict (ns_metadata n))]"

definition build_topos_ffi_payload :: "topos_signal \<Rightarrow> manifold option \<Rightarrow> pydict" where
  "build_topos_ffi_payload sg m =
     [(''signal'', PDict (filter (\<lambda>(k, v). v \<noteq> PNone) (asdict_signal sg)))] @
     (case m of Some x \<Rightarrow> [(''state'', PDict (asdict_manifold x))] | None \<Rightarrow> [])"

definition build_dynamics_ffi_payload :: "prims \<Rightarrow> (string, node_state) dict \<Rightarrow> string \<Rightarrow> pydict \<Rightarrow> pyval \<Rightarrow> pydict res" where
  "build_dynamics_ffi_payload P states kernel_type params dt =
     bind_res (assert_safe_float P dt ''dt'') (\<lambda>f.
       Inr [(''states'', PDict (map (\<lambda>(k, n). (k, PDict (asdict_node n))) states)), (''kernel_type'', PStr kernel_type),
         (''params'', PDict params), (''dt'', opt_float f)])"

section \<open>Parsers\<close>

definition parse_topos_action :: "pydict \<Rightarrow> pydict res" where
  "parse_topos_action a =
     (let action = dget_or a ''action'' PNone; field = (\<lambda>k. (k, dget_or a k PNone)) in
      if \<not> truthy action then Inl (Exc ValueErr ''[FFI Error] ToposAction missing action tag.'')
      else if action = PStr ''EmitPulse'' then Inr [(''action'', action), (''pulse_id'', dget_or a ''pulse_id'' (PStr ''unknown_pulse''))]
      else if action = PStr ''EmitProjection'' then Inr [(''action'', action), field ''vector_id'', field ''parent_id'']
      else if action = PStr ''EmitCollapse'' then Inr [(''action'', action), field ''phi_id'', field ''parent_id'']
      else if action = PStr ''EmitInversion'' then
        bind_res (py_int_of (dget_or a ''count'' (PInt 0))) (\<lambda>n. Inr [(''action'', action), (''count'', PInt n), field ''parent_id''])
      else Inl (Exc ValueErr ''[FFI Error] Unknown ToposAction received from WASM''))"

definition parse_delta :: "prims \<Rightarrow> string \<times> pyval \<Rightarrow> (string \<times> kernel_delta) res" where
  "parse_delta P kv =
     (case snd kv of
        PDict d \<Rightarrow> bind_res (build_kernel_delta P d) (\<lambda>x. Inr (fst kv, x))
      | _ \<Rightarrow> Inl (Exc TypeErr ''argument after ** must be a mapping''))"

definition parse_dynamics_result :: "prims \<Rightarrow> pydict \<Rightarrow> (string, kernel_delta) dict res" where
  "parse_dynamics_result P result = map_res (parse_delta P) result"

section \<open>What crosses the boundary\<close>

text \<open>No float in a value, at any depth, is infinite or not a number.\<close>

fun finite_val :: "pyval \<Rightarrow> bool" where
  "finite_val (PFloat f) = finite_float f"
| "finite_val (PList xs) = list_all finite_val xs"
| "finite_val (PDict d) = list_all (\<lambda>kv. finite_val (snd kv)) d"
| "finite_val v = True"

definition opt_finite :: "pyfloat option \<Rightarrow> bool" where
  "opt_finite f \<longleftrightarrow> (case f of Some x \<Rightarrow> finite_float x | None \<Rightarrow> True)"

lemma safe_float_finite: "assert_safe_float P v k = Inr f \<Longrightarrow> opt_finite f"
  by (auto simp: assert_safe_float_def opt_finite_def bind_res_Inr split: if_splits)

lemma opt_float_finite [simp]: "finite_val (opt_float f) \<longleftrightarrow> opt_finite f"
  by (simp add: opt_float_def opt_finite_def split: option.split)

lemma opt_finite_None [simp]: "opt_finite None" by (simp add: opt_finite_def)

definition safe_signal :: "topos_signal \<Rightarrow> bool" where
  "safe_signal s \<longleftrightarrow> opt_finite (sg_delta_time s) \<and> opt_finite (sg_amount s) \<and> opt_finite (sg_multiplier s)"

definition safe_node :: "node_state \<Rightarrow> bool" where
  "safe_node n \<longleftrightarrow> opt_finite (ns_phase n) \<and> opt_finite (ns_omega n) \<and> opt_finite (ns_tension n) \<and> opt_finite (ns_velocity n) \<and>
     opt_finite (ns_recovery n) \<and> ns_state n \<in> set node_roles"

lemma built_signals_safe:
  "build_signal_tick P v = Inr s \<Longrightarrow> safe_signal s" "build_signal_inject_tension P v = Inr s \<Longrightarrow> safe_signal s"
  "build_signal_tune_reentry P v = Inr s \<Longrightarrow> safe_signal s" "safe_signal build_signal_perturb"
  by (auto simp: build_signal_tick_def build_signal_inject_tension_def build_signal_tune_reentry_def build_signal_perturb_def
      safe_signal_def bind_res_Inr dest: safe_float_finite)

lemma built_node_safe: "build_node_state P p w st t kw = Inr n \<Longrightarrow> safe_node n"
  by (auto simp: build_node_state_def safe_node_def bind_res_Inr split: if_splits dest: safe_float_finite)

lemma signal_payload_finite: "safe_signal s \<Longrightarrow> finite_val (PDict (build_topos_ffi_payload s None))"
  by (simp add: build_topos_ffi_payload_def safe_signal_def asdict_signal_def)

text \<open>
  Finite floats: the payload of the field dynamics, made of nodes from the builder, has a float that is not finite exactly if the
  parameters or the metadata of a node have one; every field that is checked is finite and every role is known.
\<close>

theorem dynamics_payload_finite:
  assumes "\<forall>n \<in> set (dvalues states). \<exists>p w s t kw. build_node_state P p w s t kw = Inr n"
    and "build_dynamics_ffi_payload P states kernel_type params dt = Inr payload"
  shows "finite_val (PDict payload) \<longleftrightarrow> finite_val (PDict params) \<and> (\<forall>n \<in> set (dvalues states). finite_val (PDict (ns_metadata n)))"
proof -
  from assms(2) obtain f where f: "opt_finite f" "payload = [(''states'', PDict (map (\<lambda>(k, n). (k, PDict (asdict_node n))) states)),
      (''kernel_type'', PStr kernel_type), (''params'', PDict params), (''dt'', opt_float f)]"
    by (auto simp: build_dynamics_ffi_payload_def bind_res_Inr dest: safe_float_finite)
  have "finite_val (PDict (asdict_node n)) \<longleftrightarrow> finite_val (PDict (ns_metadata n))" if "(k, n) \<in> set states" for k n
  proof -
    have "n \<in> set (dvalues states)" using that by (force simp: dvalues_def)
    with assms(1) have "safe_node n" using built_node_safe by blast
    then show ?thesis by (simp add: asdict_node_def safe_node_def)
  qed
  then have "list_all (\<lambda>kv. finite_val (snd kv)) (map (\<lambda>(k, n). (k, PDict (asdict_node n))) states) \<longleftrightarrow>
      (\<forall>n \<in> set (dvalues states). finite_val (PDict (ns_metadata n)))"
    by (fastforce simp: list_all_iff dvalues_def)
  with f show ?thesis by auto
qed

lemma deltas_parsed:
  assumes "parse_dynamics_result P result = Inr deltas"
  shows "dkeys deltas = dkeys result \<and>
    (\<forall>d \<in> set (dvalues deltas). opt_finite (kd_phase d) \<and> opt_finite (kd_tension d) \<and> opt_finite (kd_velocity d) \<and> opt_finite (kd_recovery d))"
proof -
  have d: "opt_finite (kd_phase x) \<and> opt_finite (kd_tension x) \<and> opt_finite (kd_velocity x) \<and> opt_finite (kd_recovery x)"
    if "build_kernel_delta P kw = Inr x" for kw x
    using that by (auto simp: build_kernel_delta_def bind_res_Inr split: if_splits dest: safe_float_finite)
  have p: "fst y = fst kv \<and> opt_finite (kd_phase (snd y)) \<and> opt_finite (kd_tension (snd y)) \<and> opt_finite (kd_velocity (snd y)) \<and> opt_finite (kd_recovery (snd y))"
    if "parse_delta P kv = Inr y" for kv y
    using that by (auto simp: parse_delta_def bind_res_Inr split: pyval.splits dest: d)
  have l: "list_all2 (\<lambda>x y. parse_delta P x = Inr y) result deltas" using assms by (simp add: parse_dynamics_result_def map_res_Inr)
  then show ?thesis
    by (induction rule: list_all2_induct) (auto simp: dkeys_def dvalues_def dest: p)
qed

lemma deltas_finite: "parse_dynamics_result P result = Inr deltas \<Longrightarrow> \<forall>d \<in> set (dvalues deltas). opt_finite (kd_tension d)"
  using deltas_parsed by blast

text \<open>What comes back: every delta of a parsed result has only finite floats, and there is one for each node, in order.\<close>

theorem parsed_deltas_finite:
  assumes "parse_dynamics_result P result = Inr deltas"
  shows "dkeys deltas = dkeys result \<and>
    (\<forall>d \<in> set (dvalues deltas). opt_finite (kd_phase d) \<and> opt_finite (kd_tension d) \<and> opt_finite (kd_velocity d) \<and> opt_finite (kd_recovery d))"
  by (rule deltas_parsed [OF assms])

text \<open>A null passes as a missing float, also in the fields that every delta and every node must have.\<close>

theorem null_phase_accepted:
  "build_kernel_delta P [(''d_phase'', PNone), (''target_tension'', PNone)] =
     Inr \<lparr>kd_phase = None, kd_tension = None, kd_velocity = None, kd_recovery = None, kd_spiking = PNone\<rparr>"
  by (simp add: build_kernel_delta_def dhas_def dkeys_def dget_or_def assert_safe_float_def)

section \<open>Witnesses\<close>

definition float_prims :: prims where
  "float_prims = \<lparr>p_sha256 = id, p_canon = (\<lambda>_. []), p_dumps = (\<lambda>_. []), p_loads = (\<lambda>_. None), p_float_of_int = (\<lambda>i. Fin (of_int i)),
     p_float_of_str = (\<lambda>_. Inl (Exc ValueErr [])), p_repr = (\<lambda>_. [])\<rparr>"

definition sample_node :: node_state where
  "sample_node = \<lparr>ns_phase = Some (Fin 1), ns_omega = Some (Fin 2), ns_state = ''NORMAL'', ns_tension = Some (Fin 0), ns_velocity = None,
     ns_recovery = None, ns_spiking = False, ns_metadata = [(''note'', PFloat NaN)]\<rparr>"

theorem dynamics_payload_finite_witness:
  "\<exists>payload. build_dynamics_ffi_payload float_prims [(''a'', sample_node)] ''k'' [] (PInt 1) = Inr payload \<and> \<not> finite_val (PDict payload)"
proof -
  have "build_node_state float_prims (PInt 1) (PInt 2) ''NORMAL'' (PInt 0) [(''note'', PFloat NaN)] = Inr sample_node"
    by (simp add: build_node_state_def assert_safe_float_def float_prims_def sample_node_def node_roles_def dget_or_def)
  then have n: "\<forall>n \<in> set (dvalues [(''a'', sample_node)]). \<exists>p w s t kw. build_node_state float_prims p w s t kw = Inr n"
    unfolding dvalues_def by simp blast
  obtain payload where p: "build_dynamics_ffi_payload float_prims [(''a'', sample_node)] ''k'' [] (PInt 1) = Inr payload"
    by (simp add: build_dynamics_ffi_payload_def assert_safe_float_def float_prims_def)
  from dynamics_payload_finite [OF n p] have "\<not> finite_val (PDict payload)" by (simp add: dvalues_def sample_node_def)
  with p show ?thesis by blast
qed

theorem parsed_deltas_finite_witness:
  "\<exists>deltas. parse_dynamics_result float_prims [(''a'', PDict [(''d_phase'', PInt 1), (''target_tension'', PInt 2)])] = Inr deltas \<and> dkeys deltas = [''a'']"
proof -
  let ?r = "[(''a'', PDict [(''d_phase'', PInt 1), (''target_tension'', PInt 2)])]"
  obtain deltas where "parse_dynamics_result float_prims ?r = Inr deltas"
    by (simp add: parse_dynamics_result_def parse_delta_def build_kernel_delta_def dhas_def dkeys_def dget_or_def assert_safe_float_def float_prims_def)
  with parsed_deltas_finite [OF this] show ?thesis by (auto simp: dkeys_def)
qed

end
