(* ===== verification/Economy.thy ===== *)
theory Economy
  imports Dynamics
begin

text \<open>
  The economic daemons: dynamic prices clamped to hard limits (\<^verbatim>\<open>node/ops/daemon/eco/pricing.py\<close>), the observation of funding rates
  and of the tension of the field, sealed into signed receipts (\<^verbatim>\<open>watcher/receptor/trajectory.py\<close>), and the risk check before
  resources are routed (\<^verbatim>\<open>node/ops/daemon/eco/risk.py\<close>). Sums, products and quotients of floats are parameters; comparisons are
  computed.
\<close>

section \<open>Prices\<close>

definition py_min2 :: "pyfloat \<Rightarrow> pyfloat \<Rightarrow> pyfloat" where
  "py_min2 a b = (if float_less b a then b else a)"

definition py_max2 :: "pyfloat \<Rightarrow> pyfloat \<Rightarrow> pyfloat" where
  "py_max2 a b = (if float_less a b then b else a)"

text \<open>The doubles of 0.5 and 0.001.\<close>

definition MAX_PRICE_USD :: pyfloat where
  "MAX_PRICE_USD = Fin (1 / 2)"

definition MIN_PRICE_USD :: pyfloat where
  "MIN_PRICE_USD = Fin (1152921504606847 / 1152921504606846976)"

text \<open>\<open>rpc\<close> is the answer of the margin calculation.\<close>

definition proposed_fee :: "prims \<Rightarrow> (pydict \<Rightarrow> pyval res) \<Rightarrow> pydict \<Rightarrow> pyfloat res" where
  "proposed_fee P rpc telemetry =
     bind_res (rpc telemetry) (\<lambda>margin.
     bind_res (case margin of PDict d \<Rightarrow> as_dict (dget_or d ''unit_economics'' (PDict [])) | _ \<Rightarrow> Inr []) (\<lambda>unit_economics.
       py_float_of P (dget_or unit_economics ''effective_fee_usd'' (PFloat MIN_PRICE_USD))))"

definition calculate_and_verify_price :: "prims \<Rightarrow> (pydict \<Rightarrow> pyval res) \<Rightarrow> pydict \<Rightarrow> pyfloat" where
  "calculate_and_verify_price P rpc telemetry =
     (case proposed_fee P rpc telemetry of
        Inr fee \<Rightarrow> py_max2 MIN_PRICE_USD (py_min2 fee MAX_PRICE_USD)
      | Inl e \<Rightarrow> MIN_PRICE_USD)"

type_synonym price_tags = "(string, pyfloat) dict"

definition process_telemetry :: "prims \<Rightarrow> (pydict \<Rightarrow> pyval res) \<Rightarrow> pyval \<Rightarrow> (price_tags, unit) prog" where
  "process_telemetry P rpc telemetry tags =
     (case as_dict telemetry of
        Inl e \<Rightarrow> (Inl e, tags)
      | Inr d \<Rightarrow>
          (let target_id = dget_or d ''target'' PNone in
           if \<not> truthy target_id then (Inr (), tags)
           else (Inr (), dset (''eco:price_tag:'' @ py_str P target_id) (calculate_and_verify_price P rpc d) tags)))"

text \<open>The messages of the telemetry channel: \<open>Some\<close> for data, \<open>None\<close> for the notices of the subscription.\<close>

fun run_listening_loop :: "prims \<Rightarrow> (pydict \<Rightarrow> pyval res) \<Rightarrow> string option list \<Rightarrow> (price_tags, unit) prog" where
  "run_listening_loop P rpc [] tags = (Inr (), tags)"
| "run_listening_loop P rpc (None # msgs) tags = run_listening_loop P rpc msgs tags"
| "run_listening_loop P rpc (Some data # msgs) tags =
     (case p_loads P data of
        None \<Rightarrow> (Inl (Exc JsonDecodeErr data), tags)
      | Some v \<Rightarrow> bindp (process_telemetry P rpc v) (\<lambda>_. run_listening_loop P rpc msgs) tags)"

section \<open>Funding rates\<close>

record arith =
  ar_add :: "pyfloat \<Rightarrow> pyfloat \<Rightarrow> pyfloat"
  ar_sub :: "pyfloat \<Rightarrow> pyfloat \<Rightarrow> pyfloat"
  ar_mul :: "pyfloat \<Rightarrow> pyfloat \<Rightarrow> pyfloat"
  ar_div :: "pyfloat \<Rightarrow> pyfloat \<Rightarrow> pyfloat"

definition float_ge :: "pyfloat \<Rightarrow> pyfloat \<Rightarrow> bool" where
  "float_ge a b \<longleftrightarrow> float_less b a \<or> float_eq a b"

record intent =
  in_actionable :: bool
  in_long :: string
  in_short :: string
  in_yield :: pyfloat

record snapshot =
  sp_symbol :: string
  sp_time :: pyval
  sp_rates :: "(string, pyfloat) dict"
  sp_spread :: pyfloat

text \<open>\<open>max(d, key=d.get)\<close> and \<open>min(d, key=d.get)\<close>: the first key that no later one beats.\<close>

fun best_key :: "(pyfloat \<Rightarrow> pyfloat \<Rightarrow> bool) \<Rightarrow> string \<times> pyfloat \<Rightarrow> (string, pyfloat) dict \<Rightarrow> string \<times> pyfloat" where
  "best_key better best [] = best"
| "best_key better best (x # xs) = best_key better (if better (snd x) (snd best) then x else best) xs"

definition MIN_ACTIONABLE_SPREAD :: pyfloat where
  "MIN_ACTIONABLE_SPREAD = Fin (1152921504606847 / 2305843009213693952)"

definition evaluate_rates :: "arith \<Rightarrow> string \<Rightarrow> (string, pyfloat \<times> pyval) dict \<Rightarrow> (snapshot \<times> intent) res" where
  "evaluate_rates A symbol obs =
     (case map (\<lambda>(arn, rate, time). (arn, rate)) obs of
        x # y # rest \<Rightarrow>
          (let raw = x # y # rest; highest = best_key (\<lambda>a b. float_less b a) x (y # rest); lowest = best_key float_less x (y # rest);
               net = ar_sub A (snd highest) (snd lowest)
           in Inr (\<lparr>sp_symbol = symbol, sp_time = snd (snd (hd obs)), sp_rates = raw, sp_spread = net\<rparr>,
                   \<lparr>in_actionable = float_ge net MIN_ACTIONABLE_SPREAD, in_long = fst lowest, in_short = fst highest, in_yield = net\<rparr>))
      | _ \<Rightarrow> Inl (Exc ValueErr ''Spread comparison requires at least 2 distinct data sources.''))"

section \<open>Tension of the field\<close>

datatype tension_phase = NORMAL | PRE_HEATING | RUPTURE

definition phase_name :: "tension_phase \<Rightarrow> string" where
  "phase_name p = (case p of NORMAL \<Rightarrow> ''NORMAL'' | PRE_HEATING \<Rightarrow> ''PRE_HEATING'' | RUPTURE \<Rightarrow> ''RUPTURE'')"

record risk_policy =
  rp_friction_bps :: pyfloat
  rp_max_allocation :: pyfloat
  rp_preheat :: pyfloat
  rp_rupture :: pyfloat

definition default_policy :: risk_policy where
  "default_policy = \<lparr>rp_friction_bps = Fin 15, rp_max_allocation = Fin (3602879701896397 / 18014398509481984), rp_preheat = Fin 5, rp_rupture = Fin 15\<rparr>"

text \<open>\<open>max(xs + [0.0])\<close>, which raises if one of the values is missing.\<close>

definition max_tension :: "pyfloat option list \<Rightarrow> pyfloat res" where
  "max_tension ts =
     (if None \<in> set ts then Inl (Exc TypeErr ''not supported between instances of NoneType and float'')
      else case map the ts @ [Fin 0] of x # xs \<Rightarrow> Inr (fold (\<lambda>t m. py_max2 m t) xs x) | [] \<Rightarrow> Inr (Fin 0))"

definition classify_tension :: "risk_policy \<Rightarrow> pyfloat \<Rightarrow> bool \<Rightarrow> tension_phase \<times> pyfloat \<times> bool" where
  "classify_tension R t spiking =
     (if spiking \<or> float_ge t (rp_rupture R) then (RUPTURE, t, True)
      else if float_ge t (rp_preheat R) then (PRE_HEATING, t, False)
      else (NORMAL, t, False))"

definition kernel_params :: pydict where
  "kernel_params = [(''global_coupling'', PFloat (Fin (3602879701896397 / 4503599627370496))), (''a'', PFloat (Fin (3152519739159347 / 4503599627370496))),
     (''b'', PFloat (Fin (3602879701896397 / 4503599627370496))), (''fh_epsilon'', PFloat (Fin (5764607523034235 / 72057594037927936)))]"

definition rate_node :: "arith \<Rightarrow> prims \<Rightarrow> string \<times> pyfloat \<Rightarrow> (string \<times> node_state) res" where
  "rate_node A P kr =
     bind_res (build_node_state P (PFloat (snd kr)) (PFloat (ar_mul A (snd kr) (Fin 10))) ''NORMAL'' (PFloat (Fin 0)) []) (\<lambda>n. Inr (fst kr, n))"

text \<open>\<open>invoke\<close> is the broker: whether the call succeeded, and its output.\<close>

definition evaluate_tension :: "arith \<Rightarrow> prims \<Rightarrow> risk_policy \<Rightarrow> (string \<Rightarrow> (bool \<times> string) res) \<Rightarrow> (string, pyfloat) dict \<Rightarrow> pyval \<Rightarrow> (tension_phase \<times> pyfloat \<times> bool) res" where
  "evaluate_tension A P R invoke rates dt =
     bind_res (map_res (rate_node A P) rates) (\<lambda>nodes.
     bind_res (build_dynamics_ffi_payload P nodes ''kernel.fitzhugh'' kernel_params dt) (\<lambda>payload.
     bind_res (invoke (p_dumps P (PDict payload))) (\<lambda>(success, output).
       if \<not> success then Inr (NORMAL, Fin 0, False)
       else case p_loads P output of
         None \<Rightarrow> Inl (Exc JsonDecodeErr output)
       | Some v \<Rightarrow>
           bind_res (as_dict v) (\<lambda>d.
           bind_res (parse_dynamics_result P d) (\<lambda>deltas.
           bind_res (max_tension (map kd_tension (dvalues deltas))) (\<lambda>t.
             Inr (classify_tension R t (list_ex (\<lambda>x. kd_spiking x \<noteq> PNone \<and> truthy (kd_spiking x)) (dvalues deltas)))))))))"

section \<open>Sealed observations\<close>

record dynamics =
  dy_velocity :: pyfloat
  dy_tension :: pyfloat
  dy_phase :: string
  dy_spiking :: bool

record evaluation =
  ev_code_hash :: string
  ev_sources :: "(string, string) dict"
  ev_hashes :: "(string, string) dict"
  ev_snapshot :: snapshot
  ev_dynamics :: dynamics
  ev_intent :: intent

text \<open>The rates are placeholders in the source: the doubles of 0.01 and -0.05.\<close>

definition mock_observations :: "string list \<Rightarrow> int \<Rightarrow> (string, pyfloat \<times> pyval) dict res" where
  "mock_observations arns now =
     (case arns of
        a # b # _ \<Rightarrow> Inr (dset b (Fin (- 3602879701896397 / 72057594037927936), PInt now) [(a, Fin (5764607523034235 / 576460752303423488), PInt now)])
      | _ \<Rightarrow> Inl (Exc IndexErr ''list index out of range''))"

definition execute_flow :: "arith \<Rightarrow> prims \<Rightarrow> string \<Rightarrow> (string \<Rightarrow> (bool \<times> string) res) \<Rightarrow> string \<Rightarrow> string list \<Rightarrow> int \<Rightarrow> evaluation res" where
  "execute_flow A P code_hash invoke symbol arns now =
     bind_res (mock_observations arns now) (\<lambda>obs.
     bind_res (evaluate_rates A symbol obs) (\<lambda>(snap, intent).
     bind_res (evaluate_tension A P default_policy invoke (map (\<lambda>(arn, rate, time). (arn, rate)) obs)
         (PFloat (Fin (3602879701896397 / 36028797018963968)))) (\<lambda>(phase, tension, spiking).
       Inr \<lparr>ev_code_hash = code_hash, ev_sources = fold (\<lambda>a. dset a ''source_hash_mock'') arns [], ev_hashes = fold (\<lambda>a. dset a ''obs_hash_mock'') arns [],
         ev_snapshot = snap,
         ev_dynamics = \<lparr>dy_velocity = Fin (1152921504606847 / 1152921504606846976), dy_tension = tension, dy_phase = phase_name phase, dy_spiking = spiking\<rparr>,
         ev_intent = intent\<rparr>)))"

definition asdict_snapshot :: "snapshot \<Rightarrow> pyval" where
  "asdict_snapshot s = PDict [(''symbol'', PStr (sp_symbol s)), (''timestamp'', sp_time s),
     (''raw_states'', PDict (map (\<lambda>(k, f). (k, PFloat f)) (sp_rates s))), (''net_spread'', PFloat (sp_spread s))]"

definition asdict_dynamics :: "dynamics \<Rightarrow> pyval" where
  "asdict_dynamics d = PDict [(''velocity'', PFloat (dy_velocity d)), (''system_tension'', PFloat (dy_tension d)),
     (''tension_phase'', PStr (dy_phase d)), (''is_spiking'', PBool (dy_spiking d))]"

definition asdict_intent :: "intent \<Rightarrow> pyval" where
  "asdict_intent i = PDict [(''is_actionable'', PBool (in_actionable i)), (''optimal_long_venue'', PStr (in_long i)),
     (''optimal_short_venue'', PStr (in_short i)), (''expected_yield'', PFloat (in_yield i))]"

record receipt =
  rc_oracle :: string
  rc_time :: int
  rc_pubkey :: string
  rc_window :: int
  rc_code_hash :: string
  rc_sources :: "(string, string) dict"
  rc_snapshot :: snapshot
  rc_dynamics :: dynamics
  rc_intent :: intent
  rc_hashes :: "(string, string) dict"
  rc_observation_root :: string
  rc_canonical_root :: string
  rc_signature :: string

definition observation_root :: "prims \<Rightarrow> snapshot \<Rightarrow> dynamics \<Rightarrow> intent \<Rightarrow> string" where
  "observation_root P s d i =
     p_sha256 P (p_canon P (PDict [(''snapshot'', asdict_snapshot s), (''dynamics'', asdict_dynamics d), (''intent'', asdict_intent i)]))"

definition recipe_root :: "prims \<Rightarrow> int \<Rightarrow> string \<Rightarrow> (string, string) dict \<Rightarrow> string" where
  "recipe_root P window code_hash sources =
     p_sha256 P (p_canon P (PDict [(''time_window_sec'', PInt window), (''engine_code_hash'', PStr code_hash),
       (''composite_sources'', PDict (map (\<lambda>(k, h). (k, PStr h)) sources))]))"

definition attestation_payload :: "string \<Rightarrow> int \<Rightarrow> string \<Rightarrow> string \<Rightarrow> string \<Rightarrow> pyval" where
  "attestation_payload oracle now pubkey recipe obs =
     PDict [(''context'', PDict [(''oracle_id'', PStr oracle), (''timestamp'', PInt now), (''signer_pubkey'', PStr pubkey)]),
       (''recipe_root'', PStr recipe), (''observation_root'', PStr obs)]"

text \<open>\<open>sign\<close> and \<open>pubkey\<close> are the signer of the node, \<open>now\<close> the clock.\<close>

definition seal_evaluation :: "prims \<Rightarrow> (string \<Rightarrow> string) \<Rightarrow> string \<Rightarrow> int \<Rightarrow> int \<Rightarrow> evaluation \<Rightarrow> receipt" where
  "seal_evaluation P sign pubkey now window e =
     (let obs = observation_root P (ev_snapshot e) (ev_dynamics e) (ev_intent e);
          canonical = p_canon P (attestation_payload ''trajectory_receptor_v3.0_async'' now pubkey (recipe_root P window (ev_code_hash e) (ev_sources e)) obs)
      in \<lparr>rc_oracle = ''trajectory_receptor_v3.0_async'', rc_time = now, rc_pubkey = pubkey, rc_window = window, rc_code_hash = ev_code_hash e,
          rc_sources = ev_sources e, rc_snapshot = ev_snapshot e, rc_dynamics = ev_dynamics e, rc_intent = ev_intent e, rc_hashes = ev_hashes e,
          rc_observation_root = obs, rc_canonical_root = p_sha256 P canonical, rc_signature = sign canonical\<rparr>)"

definition fetch_and_seal :: "arith \<Rightarrow> prims \<Rightarrow> (string \<Rightarrow> string) \<Rightarrow> string \<Rightarrow> string \<Rightarrow> (string \<Rightarrow> (bool \<times> string) res) \<Rightarrow> string \<Rightarrow> string list \<Rightarrow> int \<Rightarrow> int \<Rightarrow> receipt res" where
  "fetch_and_seal A P sign pubkey code_hash invoke symbol arns window now =
     (if length arns < 2 then Inl (Exc ValueErr ''[Topology Error] Analysis requires at least 2 dimensions.'')
      else bind_res (execute_flow A P code_hash invoke symbol arns now) (\<lambda>e. Inr (seal_evaluation P sign pubkey now window e)))"

section \<open>Risk and routing\<close>

record assessment =
  as_safe :: bool
  as_size :: pyfloat
  as_yield :: pyfloat

definition verify_execution_safety :: "arith \<Rightarrow> risk_policy \<Rightarrow> intent \<Rightarrow> pyfloat \<Rightarrow> pyfloat \<Rightarrow> assessment" where
  "verify_execution_safety A R i tvl tension =
     (let friction = ar_mul A (ar_div A (rp_friction_bps R) (Fin 10000)) (ar_add A (Fin 1) (ar_div A tension (Fin 10)));
          effective = ar_sub A (in_yield i) friction;
          confidence = py_min2 (Fin 1) (ar_div A (ar_sub A tension (rp_preheat R)) (Fin 5));
          allocated = ar_mul A (rp_max_allocation R) (py_max2 (Fin 0) confidence)
      in \<lparr>as_safe = (in_actionable i \<and> float_less (Fin 0) effective),
          as_size = ar_mul A tvl (py_max2 (Fin (5764607523034235 / 576460752303423488)) allocated), as_yield = effective\<rparr>)"

text \<open>One capture of the vault; \<open>route\<close> is the router.\<close>

definition capture_anomaly :: "arith \<Rightarrow> risk_policy \<Rightarrow> (string \<Rightarrow> string \<Rightarrow> pyfloat \<Rightarrow> bool) \<Rightarrow> receipt \<Rightarrow> pyfloat \<Rightarrow> pyfloat \<Rightarrow> pyfloat" where
  "capture_anomaly A R route rc tension tvl =
     (let i = rc_intent rc; rep = verify_execution_safety A R i tvl tension in
      if \<not> as_safe rep then tvl
      else if in_actionable i then (if route (in_long i) (in_short i) (as_size rep) then ar_add A tvl (ar_mul A (as_size rep) (as_yield rep)) else tvl)
      else tvl)"

text \<open>One round of the sentinel: the next interval, the seconds slept, and whether the vault is woken; intervals below \<open>2^53\<close>.\<close>

definition sentinel_round :: "nat \<Rightarrow> nat \<Rightarrow> (string \<times> bool) res \<Rightarrow> nat \<times> nat list \<times> bool" where
  "sentinel_round base interval r =
     (case r of
        Inl e \<Rightarrow> (interval, [10], False)
      | Inr (phase, spiking) \<Rightarrow>
          (if phase = ''NORMAL'' then (base, [base], False)
           else if phase = ''PRE_HEATING'' then (base div 6, [base div 6], False)
           else if phase = ''RUPTURE'' \<or> spiking then (base, [base * 24, base], True)
           else (interval, [interval], False)))"

section \<open>Prices stay within the hard limits\<close>

definition price_ok :: "pyfloat \<Rightarrow> bool" where
  "price_ok f \<longleftrightarrow> finite_float f \<and> \<not> float_less f MIN_PRICE_USD \<and> \<not> float_less MAX_PRICE_USD f"

lemma clamp_ok: "price_ok (py_max2 MIN_PRICE_USD (py_min2 f MAX_PRICE_USD))"
  by (cases f) (auto simp: price_ok_def py_max2_def py_min2_def MIN_PRICE_USD_def MAX_PRICE_USD_def)

lemma calculated_price_ok: "price_ok (calculate_and_verify_price P rpc t)"
proof -
  have "price_ok MIN_PRICE_USD" by (simp add: price_ok_def MIN_PRICE_USD_def MAX_PRICE_USD_def)
  with clamp_ok show ?thesis by (simp add: calculate_and_verify_price_def split: sum.split)
qed

lemma process_price_ok: "process_telemetry P rpc v tags = (r, tags') \<Longrightarrow> \<forall>f \<in> set (dvalues tags). price_ok f \<Longrightarrow> \<forall>f \<in> set (dvalues tags'). price_ok f"
  by (fastforce simp: process_telemetry_def Let_def dvalues_def calculated_price_ok split: sum.splits if_splits dest!: set_dset [THEN subsetD])

text \<open>
  C25. Price limits: whatever the margin calculation answers, NaN, infinities, errors and foreign values included, and whatever telemetry
  arrives, every price tag that is published is a finite float between the floor and the cap.
\<close>

theorem price_tags_in_range:
  assumes "\<forall>f \<in> set (dvalues tags). price_ok f"
  shows "\<forall>f \<in> set (dvalues (snd (run_listening_loop P rpc msgs tags))). price_ok f"
  using assms
proof (induction P rpc msgs tags rule: run_listening_loop.induct)
  case (3 P rpc data msgs tags)
  show ?case
  proof (cases "p_loads P data")
    case (Some v)
    obtain r t where p: "process_telemetry P rpc v tags = (r, t)" by fastforce
    from process_price_ok [OF p 3(2)] 3(1) [OF Some] Some p show ?thesis by (cases r) auto
  qed (use 3 in simp)
qed simp_all

text \<open>
  One message that is not a JSON object ends the listening, and with it the daemon: no telemetry after it changes a price.
\<close>

theorem malformed_telemetry_ends_pricing:
  assumes "case p_loads P bad of Some v \<Rightarrow> \<not> is_dict v | None \<Rightarrow> True"
  shows "run_listening_loop P rpc (before @ Some bad # later) tags = run_listening_loop P rpc (before @ [Some bad]) tags \<and>
    isl (fst (run_listening_loop P rpc (before @ [Some bad]) tags))"
proof (induction before arbitrary: tags)
  case Nil
  then show ?case using assms by (auto simp: process_telemetry_def split: option.splits pyval.splits elim!: is_dict.elims)
next
  case (Cons m before)
  show ?case
  proof (cases m)
    case (Some data)
    show ?thesis
    proof (cases "p_loads P data")
      case (Some v)
      obtain r t where "process_telemetry P rpc v tags = (r, t)" by fastforce
      with Cons Some \<open>m = Some data\<close> show ?thesis by (cases r) simp_all
    qed (use Some in simp)
  qed (use Cons in simp)
qed

section \<open>Tension\<close>

lemma float_less_trans: "finite_float b \<Longrightarrow> float_less a b \<Longrightarrow> float_less b c \<Longrightarrow> float_less a c"
  by (cases a; cases b; cases c) auto

lemma max_keeps: "finite_float x \<Longrightarrow> list_all finite_float xs \<Longrightarrow>
    finite_float (fold (\<lambda>t m. py_max2 m t) xs x) \<and> (\<forall>t \<in> set (x # xs). \<not> float_less (fold (\<lambda>t m. py_max2 m t) xs x) t)"
proof (induction xs arbitrary: x)
  case Nil
  then show ?case by (cases x) simp_all
next
  case (Cons y xs)
  let ?z = "py_max2 x y"
  have z: "finite_float ?z" "\<not> float_less ?z x" "\<not> float_less ?z y" using Cons.prems by (cases x; cases y; auto simp: py_max2_def)+
  from Cons.IH [OF z(1)] Cons.prems have m: "finite_float (fold (\<lambda>t m. py_max2 m t) xs ?z)"
    "\<not> float_less (fold (\<lambda>t m. py_max2 m t) xs ?z) ?z" "\<forall>t \<in> set xs. \<not> float_less (fold (\<lambda>t m. py_max2 m t) xs ?z) t" by auto
  have "\<not> float_less (fold (\<lambda>t m. py_max2 m t) xs ?z) w" if "w = x \<or> w = y" for w
    using m(1,2) z Cons.prems that by (cases x; cases y; cases "fold (\<lambda>t m. py_max2 m t) xs ?z") (auto simp: py_max2_def split: if_splits)
  with m show ?case by auto
qed

lemma max_tension_bound:
  assumes "max_tension ts = Inr m" "\<forall>t \<in> set ts. opt_finite t"
  shows "finite_float m" "\<not> float_less m (Fin 0)" "Some t \<in> set ts \<Longrightarrow> \<not> float_less m t"
proof -
  have n: "None \<notin> set ts" using assms(1) by (auto simp: max_tension_def split: if_splits)
  have "finite_float (the y)" if "y \<in> set ts" for y using assms(2) n that by (cases y) (auto simp: opt_finite_def)
  then have fin: "list_all finite_float (map the ts @ [Fin 0])" by (simp add: list_all_iff)
  obtain x xs where x: "map the ts @ [Fin 0] = x # xs" by (cases "map the ts @ [Fin 0]") auto
  with assms(1) n have m: "m = fold (\<lambda>t m. py_max2 m t) xs x" by (simp add: max_tension_def)
  from fin x max_keeps [of x xs] have k: "finite_float m" "\<forall>t \<in> set (map the ts @ [Fin 0]). \<not> float_less m t" by (simp_all add: m del: list.set)
  then show "finite_float m" "\<not> float_less m (Fin 0)" by simp_all
  show "\<not> float_less m t" if "Some t \<in> set ts" using k(2) that by force
qed

text \<open>What an output of the kernel reads as.\<close>

definition tension_read :: "prims \<Rightarrow> risk_policy \<Rightarrow> string \<Rightarrow> (string, kernel_delta) dict \<Rightarrow> tension_phase \<times> pyfloat \<times> bool \<Rightarrow> bool" where
  "tension_read P R output deltas r \<longleftrightarrow>
     (\<exists>d. p_loads P output = Some (PDict d) \<and> parse_dynamics_result P d = Inr deltas) \<and>
     (\<exists>t. max_tension (map kd_tension (dvalues deltas)) = Inr t \<and>
       r = classify_tension R t (list_ex (\<lambda>x. kd_spiking x \<noteq> PNone \<and> truthy (kd_spiking x)) (dvalues deltas)))"

lemma evaluate_tension_ok:
  assumes "evaluate_tension A P R invoke rates dt = Inr r"
  shows "\<exists>txt success output. invoke txt = Inr (success, output) \<and>
    (if success then \<exists>deltas. tension_read P R output deltas r else r = (NORMAL, Fin 0, False))"
proof -
  from assms obtain doc success out where a: "invoke doc = Inr (success, out)"
    "(if \<not> success then Inr (NORMAL, Fin 0, False)
       else case p_loads P out of
         None \<Rightarrow> Inl (Exc JsonDecodeErr out)
       | Some v \<Rightarrow>
           bind_res (as_dict v) (\<lambda>d.
           bind_res (parse_dynamics_result P d) (\<lambda>deltas.
           bind_res (max_tension (map kd_tension (dvalues deltas))) (\<lambda>t.
             Inr (classify_tension R t (list_ex (\<lambda>x. kd_spiking x \<noteq> PNone \<and> truthy (kd_spiking x)) (dvalues deltas))))))) = Inr r"
    unfolding evaluate_tension_def bind_res_Inr by (auto split: prod.splits)
  show ?thesis
  proof (cases success)
    case True
    with a(2) obtain v d deltas t where v: "p_loads P out = Some v" "as_dict v = Inr d" "parse_dynamics_result P d = Inr deltas"
      "max_tension (map kd_tension (dvalues deltas)) = Inr t"
      "classify_tension R t (list_ex (\<lambda>x. kd_spiking x \<noteq> PNone \<and> truthy (kd_spiking x)) (dvalues deltas)) = r"
      by (auto simp: bind_res_Inr split: option.splits)
    moreover from v(2) have "v = PDict d" by (cases v) simp_all
    ultimately have "tension_read P R out deltas r" by (auto simp: tension_read_def)
    with a(1) True show ?thesis by auto
  qed (use a in auto)
qed

text \<open>
  Tension: an alarm is raised exactly in the phase of rupture, and a phase read from the kernel is true to it: if it is normal, no node
  spikes and every tension is below both thresholds; otherwise a node spikes or the greatest tension has reached the threshold.
\<close>

theorem tension_phase_exact:
  assumes "evaluate_tension A P R (\<lambda>txt. Inr (True, output)) rates dt = Inr (phase, tension, spiking)"
    and "finite_float (rp_preheat R)" "finite_float (rp_rupture R)"
  shows "(spiking \<longleftrightarrow> phase = RUPTURE) \<and> \<not> float_less tension (Fin 0) \<and>
    (\<exists>d deltas. p_loads P output = Some (PDict d) \<and> parse_dynamics_result P d = Inr deltas \<and>
      (phase = NORMAL \<longrightarrow> (\<forall>x \<in> set (dvalues deltas). (kd_spiking x = PNone \<or> \<not> truthy (kd_spiking x)) \<and>
         (\<exists>t. kd_tension x = Some t \<and> float_less t (rp_preheat R) \<and> float_less t (rp_rupture R)))) \<and>
      (phase = RUPTURE \<longrightarrow> (\<exists>x \<in> set (dvalues deltas). truthy (kd_spiking x)) \<or> float_ge tension (rp_rupture R)) \<and>
      (phase = PRE_HEATING \<longrightarrow> float_ge tension (rp_preheat R)))"
proof -
  from evaluate_tension_ok [OF assms(1)] obtain deltas where "tension_read P R output deltas (phase, tension, spiking)" by auto
  then obtain d t where d: "p_loads P output = Some (PDict d)" "parse_dynamics_result P d = Inr deltas"
    "max_tension (map kd_tension (dvalues deltas)) = Inr t"
    "(phase, tension, spiking) = classify_tension R t (list_ex (\<lambda>x. kd_spiking x \<noteq> PNone \<and> truthy (kd_spiking x)) (dvalues deltas))"
    by (auto simp: tension_read_def)
  have t: "t = tension" using d(4) by (auto simp: classify_tension_def split: if_splits)
  have fin: "\<forall>y \<in> set (map kd_tension (dvalues deltas)). opt_finite y" using deltas_finite [OF d(2)] by simp
  note b = max_tension_bound [OF d(3) fin]
  have below: "\<exists>y. kd_tension x = Some y \<and> float_less y (rp_preheat R) \<and> float_less y (rp_rupture R)"
    if "x \<in> set (dvalues deltas)" "phase = NORMAL" for x
  proof -
    have "None \<notin> kd_tension ` set (dvalues deltas)" using d(3) by (auto simp: max_tension_def split: if_splits)
    with that(1) have "kd_tension x \<noteq> None" by force
    then obtain y where y: "kd_tension x = Some y" by blast
    with that(1) have "Some y \<in> set (map kd_tension (dvalues deltas))" by force
    with b(3) have "\<not> float_less t y" by blast
    moreover have "finite_float y" using fin that(1) y by (force simp: opt_finite_def)
    moreover have "\<not> float_ge t (rp_preheat R)" "\<not> float_ge t (rp_rupture R)" using d(4) that(2) by (auto simp: classify_tension_def split: if_splits)
    ultimately show ?thesis using assms(2,3) b(1) y
      by (cases t; cases y; cases "rp_preheat R"; cases "rp_rupture R") (auto simp: float_ge_def float_eq_def)
  qed
  have "(spiking \<longleftrightarrow> phase = RUPTURE)" "phase = PRE_HEATING \<Longrightarrow> float_ge tension (rp_preheat R)"
    "phase = RUPTURE \<Longrightarrow> (\<exists>x \<in> set (dvalues deltas). truthy (kd_spiking x)) \<or> float_ge tension (rp_rupture R)"
    "phase = NORMAL \<Longrightarrow> x \<in> set (dvalues deltas) \<Longrightarrow> kd_spiking x = PNone \<or> \<not> truthy (kd_spiking x)" for x
    using d(4) by (auto simp: classify_tension_def t list_ex_iff split: if_splits)
  with d below b(2) t show ?thesis by blast
qed

text \<open>A kernel that cannot be reached reads as a normal field.\<close>

theorem failed_kernel_reads_normal:
  assumes "evaluate_tension A P R (\<lambda>txt. Inr (False, output)) rates dt = Inr r"
  shows "r = (NORMAL, Fin 0, False)"
  using evaluate_tension_ok [OF assms] by auto

section \<open>What a receipt seals\<close>

text \<open>Equal roots come from equal documents: no collision of the hash, and canonical texts tell attestations apart.\<close>

definition sealing_ok :: "prims \<Rightarrow> bool" where
  "sealing_ok P \<longleftrightarrow> inj (p_sha256 P) \<and>
     (\<forall>o1 n1 k1 r1 b1 o2 n2 k2 r2 b2. p_canon P (attestation_payload o1 n1 k1 r1 b1) = p_canon P (attestation_payload o2 n2 k2 r2 b2) \<longrightarrow>
        (o1, n1, k1, r1, b1) = (o2, n2, k2, r2, b2))"

definition observation_text :: "prims \<Rightarrow> evaluation \<Rightarrow> string" where
  "observation_text P e = p_canon P (PDict [(''snapshot'', asdict_snapshot (ev_snapshot e)), (''dynamics'', asdict_dynamics (ev_dynamics e)),
     (''intent'', asdict_intent (ev_intent e))])"

definition recipe_text :: "prims \<Rightarrow> int \<Rightarrow> evaluation \<Rightarrow> string" where
  "recipe_text P window e = p_canon P (PDict [(''time_window_sec'', PInt window), (''engine_code_hash'', PStr (ev_code_hash e)),
     (''composite_sources'', PDict (map (\<lambda>(k, h). (k, PStr h)) (ev_sources e)))])"

text \<open>
  Sealing: receipts with the same canonical root have the same time and signer, and the same canonical texts of the recipe and of the
  observation; the hashes of the single observations, however, are sealed by nothing: they can be exchanged under the same signature.
\<close>

theorem receipt_seals:
  assumes "sealing_ok P" "rc_canonical_root (seal_evaluation P sign pk1 n1 w1 e1) = rc_canonical_root (seal_evaluation P sign pk2 n2 w2 e2)"
  shows "pk1 = pk2 \<and> n1 = n2 \<and> recipe_text P w1 e1 = recipe_text P w2 e2 \<and> observation_text P e1 = observation_text P e2 \<and>
    seal_evaluation P sign pk1 n1 w1 (e1\<lparr>ev_hashes := h\<rparr>) = (seal_evaluation P sign pk1 n1 w1 e1)\<lparr>rc_hashes := h\<rparr>"
proof -
  have s: "p_sha256 P x = p_sha256 P y \<longleftrightarrow> x = y" for x y
    using assms(1) inj_eq [of "p_sha256 P" x y] unfolding sealing_ok_def by blast
  from assms(2) have "p_canon P (attestation_payload ''trajectory_receptor_v3.0_async'' n1 pk1 (recipe_root P w1 (ev_code_hash e1) (ev_sources e1)) (observation_root P (ev_snapshot e1) (ev_dynamics e1) (ev_intent e1))) =
      p_canon P (attestation_payload ''trajectory_receptor_v3.0_async'' n2 pk2 (recipe_root P w2 (ev_code_hash e2) (ev_sources e2)) (observation_root P (ev_snapshot e2) (ev_dynamics e2) (ev_intent e2)))"
    by (simp only: seal_evaluation_def Let_def s receipt.select_convs)
  with assms(1) have "(''trajectory_receptor_v3.0_async'', n1, pk1, recipe_root P w1 (ev_code_hash e1) (ev_sources e1), observation_root P (ev_snapshot e1) (ev_dynamics e1) (ev_intent e1)) =
      (''trajectory_receptor_v3.0_async'', n2, pk2, recipe_root P w2 (ev_code_hash e2) (ev_sources e2), observation_root P (ev_snapshot e2) (ev_dynamics e2) (ev_intent e2))"
    unfolding sealing_ok_def by (elim conjE allE impE) assumption+
  then have e: "n1 = n2" "pk1 = pk2" "recipe_root P w1 (ev_code_hash e1) (ev_sources e1) = recipe_root P w2 (ev_code_hash e2) (ev_sources e2)"
    "observation_root P (ev_snapshot e1) (ev_dynamics e1) (ev_intent e1) = observation_root P (ev_snapshot e2) (ev_dynamics e2) (ev_intent e2)" by (simp_all only: prod.inject)
  have "recipe_text P w1 e1 = recipe_text P w2 e2" using e(3) unfolding recipe_root_def s recipe_text_def .
  moreover have "observation_text P e1 = observation_text P e2" using e(4) unfolding observation_root_def s observation_text_def .
  moreover have "seal_evaluation P sign pk1 n1 w1 (e1\<lparr>ev_hashes := h\<rparr>) = (seal_evaluation P sign pk1 n1 w1 e1)\<lparr>rc_hashes := h\<rparr>"
    by (simp add: seal_evaluation_def Let_def)
  ultimately show ?thesis using e(1,2) by blast
qed

section \<open>Routing\<close>

text \<open>The capacity of the vault changes only for an intent that is actionable and worth more than its friction, when the router took it.\<close>

theorem capture_guarded:
  assumes "capture_anomaly A R route rc tension tvl \<noteq> tvl"
  shows "in_actionable (rc_intent rc) \<and> float_less (Fin 0) (as_yield (verify_execution_safety A R (rc_intent rc) tvl tension)) \<and>
    route (in_long (rc_intent rc)) (in_short (rc_intent rc)) (as_size (verify_execution_safety A R (rc_intent rc) tvl tension))"
  using assms by (auto simp: capture_anomaly_def Let_def verify_execution_safety_def split: if_splits)

section \<open>Witnesses\<close>

definition tele_prims :: prims where
  "tele_prims = float_prims\<lparr>p_loads := (\<lambda>s. if s = ''t'' then Some (PDict [(''target'', PStr ''w'')])
     else if s = ''d'' then Some (PDict [(''a'', PDict [(''d_phase'', PInt 1), (''target_tension'', PInt 20)])]) else None)\<rparr>"

theorem price_tags_in_range_witness:
  "snd (run_listening_loop tele_prims (\<lambda>_. Inr (PDict [(''unit_economics'', PDict [(''effective_fee_usd'', PInt 9)])])) [Some ''t''] []) = [(''eco:price_tag:w'', MAX_PRICE_USD)] \<and>
   price_ok MAX_PRICE_USD"
proof -
  let ?l = "run_listening_loop tele_prims (\<lambda>_. Inr (PDict [(''unit_economics'', PDict [(''effective_fee_usd'', PInt 9)])])) [Some ''t''] []"
  have e: "snd ?l = [(''eco:price_tag:w'', MAX_PRICE_USD)]"
    by (simp add: tele_prims_def float_prims_def process_telemetry_def dget_or_def bindp_def calculate_and_verify_price_def proposed_fee_def
        py_max2_def py_min2_def MAX_PRICE_USD_def MIN_PRICE_USD_def)
  have "\<forall>f \<in> set (dvalues []). price_ok f" by (simp add: dvalues_def)
  then have "\<forall>f \<in> set (dvalues (snd ?l)). price_ok f" by (rule price_tags_in_range)
  then have "price_ok MAX_PRICE_USD" unfolding e by (simp add: dvalues_def)
  with e show ?thesis by (rule conjI)
qed

theorem malformed_telemetry_ends_pricing_witness:
  "snd (run_listening_loop tele_prims (\<lambda>_. Inr PNone) [Some ''bad'', Some ''t''] []) = []"
  using malformed_telemetry_ends_pricing [of tele_prims "''bad''" "\<lambda>_. Inr PNone" "[]" "[Some ''t'']" "[]"] by (simp add: tele_prims_def)

definition flat_arith :: arith where
  "flat_arith = \<lparr>ar_add = (\<lambda>a b. Fin 1), ar_sub = (\<lambda>a b. Fin 1), ar_mul = (\<lambda>a b. Fin 1), ar_div = (\<lambda>a b. Fin 1)\<rparr>"

theorem tension_phase_exact_witness:
  "evaluate_tension flat_arith tele_prims default_policy (\<lambda>doc. Inr (True, ''d'')) [(''x'', Fin 1)] (PInt 1) = Inr (RUPTURE, Fin 20, True) \<and> \<not> float_less (Fin 20) (Fin 0)"
proof -
  have e: "evaluate_tension flat_arith tele_prims default_policy (\<lambda>doc. Inr (True, ''d'')) [(''x'', Fin 1)] (PInt 1) = Inr (RUPTURE, Fin 20, True)"
    by (simp add: evaluate_tension_def rate_node_def build_node_state_def assert_safe_float_def tele_prims_def float_prims_def node_roles_def dget_or_def
        flat_arith_def build_dynamics_ffi_payload_def parse_dynamics_result_def parse_delta_def build_kernel_delta_def dhas_def dkeys_def dvalues_def
        max_tension_def py_max2_def classify_tension_def float_ge_def default_policy_def)
  from tension_phase_exact [OF e] have "\<not> float_less (Fin 20) (Fin 0)" by (simp add: default_policy_def)
  with e show ?thesis by simp
qed

theorem failed_kernel_reads_normal_witness:
  "evaluate_tension flat_arith tele_prims default_policy (\<lambda>doc. Inr (False, [])) [(''x'', Fin 1)] (PInt 1) = Inr (NORMAL, Fin 0, False)"
proof -
  obtain r where r: "evaluate_tension flat_arith tele_prims default_policy (\<lambda>doc. Inr (False, [])) [(''x'', Fin 1)] (PInt 1) = Inr r"
    by (simp add: evaluate_tension_def rate_node_def build_node_state_def assert_safe_float_def tele_prims_def float_prims_def node_roles_def dget_or_def
        flat_arith_def build_dynamics_ffi_payload_def)
  from failed_kernel_reads_normal [OF r] r show ?thesis by simp
qed

definition framed :: "string \<Rightarrow> string" where
  "framed s = replicate (length s) CHR ''1'' @ CHR ''0'' # s"

lemma framed_append: "framed s @ x = framed t @ y \<Longrightarrow> s = t \<and> x = y"
proof -
  assume e: "framed s @ x = framed t @ y"
  have w: "takeWhile (\<lambda>c. c = CHR ''1'') (framed s @ x) = replicate (length s) CHR ''1''" for s x
  proof -
    have "takeWhile (\<lambda>c. c = CHR ''1'') (replicate n CHR ''1'' @ CHR ''0'' # u) = replicate n CHR ''1''" for n u by (induction n) simp_all
    then show ?thesis by (simp add: framed_def)
  qed
  from e w [of s x] w [of t y] have "replicate (length s) CHR ''1'' = replicate (length t) CHR ''1''" by simp
  then have "length s = length t" by (metis length_replicate)
  with e show "s = t \<and> x = y" by (simp add: framed_def)
qed

fun frame_attestation :: "pyval \<Rightarrow> string" where
  "frame_attestation (PStr s) = framed s"
| "frame_attestation (PInt n) = framed (show_int n)"
| "frame_attestation (PDict d) = concat (map (\<lambda>kv. frame_attestation (snd kv)) d)"
| "frame_attestation v = []"

definition frame_prims :: prims where
  "frame_prims = float_prims\<lparr>p_canon := frame_attestation\<rparr>"

lemma frame_sealing: "sealing_ok frame_prims"
proof -
  have i: "show_int m = show_int n \<Longrightarrow> m = n" for m n using py_int_show_int by (metis sum.inject(2))
  have key: "(o1, n1, k1, r1, b1) = (o2, n2, k2, r2, b2)"
    if "frame_attestation (attestation_payload o1 n1 k1 r1 b1) = frame_attestation (attestation_payload o2 n2 k2 r2 b2)" for o1 n1 k1 r1 b1 o2 n2 k2 r2 b2
  proof -
    from that have e: "framed o1 @ framed (show_int n1) @ framed k1 @ framed r1 @ framed b1 @ [] = framed o2 @ framed (show_int n2) @ framed k2 @ framed r2 @ framed b2 @ []"
      by (simp add: attestation_payload_def)
    note a = framed_append [OF e]
    note b = framed_append [OF a [THEN conjunct2]]
    note c = framed_append [OF b [THEN conjunct2]]
    note d = framed_append [OF c [THEN conjunct2]]
    note f = framed_append [OF d [THEN conjunct2]]
    from a b c d f i show ?thesis by blast
  qed
  have c: "p_canon frame_prims = frame_attestation" "p_sha256 frame_prims = id" by (simp_all add: frame_prims_def float_prims_def)
  show ?thesis unfolding sealing_ok_def c by (intro conjI allI impI) (rule inj_on_id, erule key)
qed

definition sample_evaluation :: evaluation where
  "sample_evaluation = \<lparr>ev_code_hash = ''c'', ev_sources = [], ev_hashes = [], ev_snapshot = \<lparr>sp_symbol = ''S'', sp_time = PInt 1, sp_rates = [], sp_spread = Fin 0\<rparr>,
     ev_dynamics = \<lparr>dy_velocity = Fin 0, dy_tension = Fin 0, dy_phase = ''NORMAL'', dy_spiking = False\<rparr>,
     ev_intent = \<lparr>in_actionable = True, in_long = ''l'', in_short = ''s'', in_yield = Fin 1\<rparr>\<rparr>"

theorem receipt_seals_witness:
  "seal_evaluation frame_prims id ''k'' 1 2 (sample_evaluation\<lparr>ev_hashes := [(''x'', ''forged'')]\<rparr>) =
     (seal_evaluation frame_prims id ''k'' 1 2 sample_evaluation)\<lparr>rc_hashes := [(''x'', ''forged'')]\<rparr>"
  by (rule receipt_seals [OF frame_sealing refl, THEN conjunct2, THEN conjunct2, THEN conjunct2, THEN conjunct2])

theorem capture_guarded_witness:
  "capture_anomaly flat_arith default_policy (\<lambda>_ _ _. True) (seal_evaluation frame_prims id ''k'' 1 2 sample_evaluation) (Fin 20) (Fin 5) \<noteq> Fin 5 \<and>
   in_actionable (rc_intent (seal_evaluation frame_prims id ''k'' 1 2 sample_evaluation))"
proof -
  let ?rc = "seal_evaluation frame_prims id ''k'' 1 2 sample_evaluation"
  have c: "capture_anomaly flat_arith default_policy (\<lambda>_ _ _. True) ?rc (Fin 20) (Fin 5) \<noteq> Fin 5"
    by (simp add: capture_anomaly_def verify_execution_safety_def flat_arith_def seal_evaluation_def sample_evaluation_def Let_def)
  with capture_guarded [OF c] show ?thesis by blast
qed

end
