(* ===== verification/Spec2Isabelle.thy ===== *)
theory Spec2Isabelle
  imports Ids FsmContract StateAdapters WasmVm FsmCompiler AnchorDriver AnchorStore AnchorOracle Pta DagBarrier PhaseRuntime
    CursorLedger Traverser Billing Channel EpochCommit Settlement Validator Transition Gan Locks
    StateRpc Broker Regulator Events NodeRuntime Receptor Flow TextUtil Regex Ruleset Payload Binder Worker Terminal PanePool Sandbox
    Secrets Dynamics Economy
begin

text \<open>
  A model of the execution core of xphi: a workflow is compiled to a graph, the graph is traversed by
  branches whose every move is a signed transaction, and the transactions are sealed on a ledger
  that nodes share. Python modules are named by their path under \<^verbatim>\<open>src/\<close>.

  \<^bold>\<open>Parts and theories.\<close>

  \<^item> \<^verbatim>\<open>Prelude\<close>: exceptions as values, programs over a state, Python's dynamic values and ordered
    dictionaries, string functions, and the interface of a keyed store.
  \<^item> \<^verbatim>\<open>Ids\<close> (\<^verbatim>\<open>arch/contract/event/next.py\<close>): the 64-bit and the 32-bit id generators, their decoders
    and the XOR parity of a triplet. Ids increase while the clock does not step back, and decode to
    what they were made of; after a small step back one can repeat.
  \<^item> \<^verbatim>\<open>FsmContract\<close> (\<^verbatim>\<open>arch/contract/fsm.py\<close>) and \<^verbatim>\<open>StateAdapters\<close> (\<^verbatim>\<open>arch/bound/adapter/state.py\<close>,
    \<^verbatim>\<open>arch/bound/adapter/fsm.py\<close>): the vocabulary of a graph and the payload builders at the wasm
    boundary, which check every 32-bit field.
  \<^item> \<^verbatim>\<open>WasmVm\<close> (\<^verbatim>\<open>node/runtime/wasm/quota.py\<close>, \<^verbatim>\<open>state/inter/fsm.py\<close>): quotas, the module cache, the
    C-string reader and the execution entry point, which turns every failure into a result.
  \<^item> \<^verbatim>\<open>FsmCompiler\<close> (\<^verbatim>\<open>arch/xor/fsm/compiler.py\<close>): from an ASL document to a compact graph. A compiled
    bundle fits the limit, and on the Python path it is closed and its data resolve.
  \<^item> \<^verbatim>\<open>AnchorDriver\<close> (\<^verbatim>\<open>state/anchor/driver.py\<close>, \<^verbatim>\<open>state/anchor/key.py\<close>): key-value backends as an ordered
    map, prefix scans and the seek cursor.
  \<^item> \<^verbatim>\<open>AnchorStore\<close> (\<^verbatim>\<open>state/anchor/store.py\<close>, \<^verbatim>\<open>state/anchor/mempool.py\<close>): content-addressed objects,
    heads of streams, sealing on the node that holds the lock and the relay of the others.
  \<^item> \<^verbatim>\<open>AnchorOracle\<close> (\<^verbatim>\<open>state/anchor/oracle.py\<close>): unspent outputs, balances and lineage read from the
    sealed commits.
  \<^item> \<^verbatim>\<open>Pta\<close> (\<^verbatim>\<open>arch/bound/adapter/pta.py\<close>): transactions over pointers, with the check and reservation of
    inputs before the seal is awaited; the step relation interleaves transactions there.
  \<^item> \<^verbatim>\<open>DagBarrier\<close>, \<^verbatim>\<open>PhaseRuntime\<close> (\<^verbatim>\<open>node/runtime/phase.py\<close>): join nodes of a graph, and cursors that
    step, fork, merge, call and are restored; \<^verbatim>\<open>CursorLedger\<close> shows that fuel is conserved and that
    a committed cursor is rebuilt from the ledger.
  \<^item> \<^verbatim>\<open>Traverser\<close> (\<^verbatim>\<open>node/runtime/fsm/traverser.py\<close>): the queue of branches, joins, fallbacks, parking,
    resuming and the final sweep.
  \<^item> \<^verbatim>\<open>Billing\<close> (\<^verbatim>\<open>node/rpc/handler/fuel.py\<close>): charging a tenant's fuel with optimistic retries.
  \<^item> \<^verbatim>\<open>Channel\<close> (\<^verbatim>\<open>state/phase/channel.py\<close>): the handler pipeline, JSON framing and the request bridge.
  \<^item> \<^verbatim>\<open>EpochCommit\<close> (\<^verbatim>\<open>state/phase/commit.py\<close>): committing all repositories under one epoch and the
    registry of snapshots.
  \<^item> \<^verbatim>\<open>Settlement\<close> (\<^verbatim>\<open>arch/bound/adapter/settlement.py\<close>): mandates, invoices and the receipts of a finished task.
  \<^item> \<^verbatim>\<open>Validator\<close> (\<^verbatim>\<open>node/rpc/handler/validator.py\<close>): clearing a mandate or a receipt against the price of a
    service, one-time codes and the signature of an administrator.
  \<^item> \<^verbatim>\<open>StateRpc\<close> (\<^verbatim>\<open>node/rpc/handler/state.py\<close>, \<^verbatim>\<open>node/rpc/schema/receipt.py\<close>): proposing, resolving and querying the
    states of a bridge, and clearing an intent.
  \<^item> \<^verbatim>\<open>Transition\<close> (\<^verbatim>\<open>state/topos/transition.py\<close>): a transition with its future: it is settled at most once, and a
    settlement resolves it.
  \<^item> \<^verbatim>\<open>Gan\<close> (\<^verbatim>\<open>state/topos/node/gan.py\<close>, \<^verbatim>\<open>state/topos/workflow.py\<close>): nodes that are mounted, stopped and unmounted,
    their message loop, and the routing of a workflow.
  \<^item> \<^verbatim>\<open>Locks\<close> (\<^verbatim>\<open>arch/contract/protocol/executor.py\<close>): locks on several resources, taken in sorted order by threads
    that interleave: they exclude each other and never deadlock.
  \<^item> \<^verbatim>\<open>Broker\<close> (\<^verbatim>\<open>node/runtime/wasm/broker.py\<close>, \<^verbatim>\<open>node/runtime/wasm/gateway.py\<close>): jobs sent to workers, matched with
    their replies, and calls into a wasm instance.
  \<^item> \<^verbatim>\<open>Events\<close> (\<^verbatim>\<open>arch/contract/event/psi.py\<close>,
    \<^verbatim>\<open>arch/contract/event/bus.py\<close>,
    \<^verbatim>\<open>arch/contract/registry/unified.py\<close>): events
    and their JSON form, buses, the reader of the stream and the registry of components.
  \<^item> \<^verbatim>\<open>NodeRuntime\<close> (\<^verbatim>\<open>node/ops/task/supervisor.py\<close>,
    \<^verbatim>\<open>arch/contract/interpreter.py\<close>,
    \<^verbatim>\<open>node/runtime/sensor.py\<close>): the
    supervisor of tasks as steps of the event loop, the dispatcher of flows, the judgment on a carrier,
    the sensor, and the registration of a node.
  \<^item> \<^verbatim>\<open>Flow\<close> (\<^verbatim>\<open>state/topos/flow.py\<close>): scattering, gathering, aligning and judging a flow.
  \<^item> \<^verbatim>\<open>Regulator\<close> (\<^verbatim>\<open>watcher/plane/regulator.py\<close>, \<^verbatim>\<open>watcher/plane/emitter.py\<close>): folding of log events, which loses none.
  \<^item> \<^verbatim>\<open>Receptor\<close> (\<^verbatim>\<open>watcher/receptor/warden.py\<close>, \<^verbatim>\<open>watcher/receptor/kernel.py\<close>): the audit hook with its air gap, the
    protection of sensitive entries, the firewall and the watch of signals.
  \<^item> \<^verbatim>\<open>TextUtil\<close> (\<^verbatim>\<open>arch/xor/parser/mark.py\<close>): clipping, batching and grouping.
  \<^item> \<^verbatim>\<open>Regex\<close>: the backtracking matcher of Python's \<^verbatim>\<open>re\<close> module, as far as it is used.
  \<^item> \<^verbatim>\<open>Ruleset\<close> (\<^verbatim>\<open>arch/xor/parser/ruleset/engine.py\<close>): tagging of log lines by keywords; the compiled patterns agree with
    the evaluator in Python.
  \<^item> \<^verbatim>\<open>Payload\<close> (\<^verbatim>\<open>arch/xor/parser/ruleset/otlp.py\<close>, \<^verbatim>\<open>arch/xor/parser/mcp.py\<close>): strict extraction from
    telemetry documents, and the telemetry found in the answer of a tool server.
  \<^item> \<^verbatim>\<open>Binder\<close> and \<^verbatim>\<open>Worker\<close> (\<^verbatim>\<open>arch/contract/protocol/binder.py\<close>, \<^verbatim>\<open>worker.py\<close>): tools bound by
    name, their published schemas and the arguments of a call, and the workers that serve them over their standard streams: the
    sequential one answers every line once, the asynchronous one at most once in any interleaving of its tasks.
  \<^item> \<^verbatim>\<open>Secrets\<close> (\<^verbatim>\<open>arch/xor/secret/\<close>): secrets given to commands and masked in their output, the cipher, rotation and the
    key vault, over parameters for the cryptography.
  \<^item> \<^verbatim>\<open>Dynamics\<close> and \<^verbatim>\<open>Economy\<close> (\<^verbatim>\<open>arch/bound/adapter/dynamics.py\<close>, \<^verbatim>\<open>node/ops/daemon/eco/\<close>,
    \<^verbatim>\<open>watcher/receptor/trajectory.py\<close>): finite floats at the boundary to wasm, clamped prices, the phase of the field and the
    sealed receipts; float sums and products are parameters.
  \<^item> \<^verbatim>\<open>Terminal\<close> (\<^verbatim>\<open>arch/bound/client/terminal/metadata.py\<close>, \<^verbatim>\<open>session.py\<close>, \<^verbatim>\<open>polling.py\<close>): a command is
    typed into a shell whose screen is polled until its prompt block appears; the blocks of a screen are
    found exactly, a request with a limit returns, and a refused command was nevertheless sent.
  \<^item> \<^verbatim>\<open>PanePool\<close> (\<^verbatim>\<open>arch/bound/client/terminal/tmux/pool.py\<close>): panes shared by threads through a semaphore and a lock.
  \<^item> \<^verbatim>\<open>Sandbox\<close> (\<^verbatim>\<open>node/ops/task/strategy.py\<close>): jobs for the state machine and for pooled Python sandboxes.

  \<^bold>\<open>How the parts meet.\<close> The compiler's blobs are what \<^verbatim>\<open>DagBarrier\<close> analyses and the runtime steps
  through. A move of a cursor is \<^verbatim>\<open>execute_transaction\<close> of \<^verbatim>\<open>Pta\<close>, which seals through
  \<^verbatim>\<open>propose_and_seal\<close> of \<^verbatim>\<open>AnchorStore\<close>, which writes through the driver. The interfaces are locales:
  \<^verbatim>\<open>keyed_store\<close> (interpreted by dictionaries), \<^verbatim>\<open>anchor_driver\<close> and \<^verbatim>\<open>cursor\<close> (by the FoundationDB
  driver and the seek iterator), \<^verbatim>\<open>ledger_host\<close> (by the store over that driver). Billing, the epoch
  commit and the state handlers are further clients of the adapter and of the store; the validator
  checks the mandates of the settlement adapter; the supervisor's flows carry the events of the bus
  and write through the broker's tunnel.

  \<^bold>\<open>State and effects.\<close> A class is a record and a method a program \<open>state \<Rightarrow> result \<times> state\<close> that
  keeps the state reached when an exception leaves it. Where a coroutine awaits something other tasks
  may use, it is split at the await (\<open>begin_transaction\<close>, \<open>finish_transaction\<close>; \<open>begin_request\<close>,
  \<open>end_request\<close>) or what others do is an argument (\<open>b_others\<close>).

  \<^bold>\<open>Parameters.\<close> SHA-256, the JSON codecs, float conversion, the wall clock, Ed25519, the wasm engine
  and its broker, the message tunnel, the native databases, node executors, arbiters and the runners
  of repositories are arguments. Hypotheses on them say what is relied on: that a stored document
  reads back, that different objects have different hashes, that a signature fits one message.

  \<^bold>\<open>Bounds and fuel.\<close> The search of \<^verbatim>\<open>DagBarrier\<close> has fuel, and the number of nodes is enough. The loop
  of the traverser has the program's own tick limit. The acknowledgement loop has as many rounds as
  its deadline allows. \<open>fdb_room d n\<close> says that \<open>n\<close> more writes stay below the 64-bit limit of the
  version counter. Loops that may not end (reading a C string, polling a screen) return an option, and the
  theorem says when they do.

  \<^bold>\<open>Not modelled.\<close> HTTP and exchange clients, sockets, loggers and tracers are input and output
  around the core. The Python and wasm interpreters host external engines. The field
  arithmetic of phases and margins is in floating point and left out, and path resolution is a sequence
  of file system queries.
  Within the modelled modules, log messages, the files of keys and of the wasm lock, and the random
  waits of a retry are left out.
\<close>

end
